(* ===== verification/Prelude.thy ===== *)
theory Prelude
  imports Main "HOL-Library.AList" "HOL-Library.Multiset"
begin

text \<open>
  What every component shares: the Python exceptions the code can raise as a datatype,
  results as sums (\<open>Inl\<close> the exception, \<open>Inr\<close> the value), Python dictionaries as
  association lists in iteration order, the dictionary interface as a locale with the
  lemmas its clients use, and the "comes before" relation on lists.
\<close>

named_theorems dict_simps \<open>rewriting rules of the Python dictionary model\<close>

section \<open>Exceptions and results\<close>

datatype py_error =
    IndexError | KeyError | ValueError | TypeError | ZeroDivisionError
  | UnboundLocalError | AttributeError | AssertionError | OtherException string

type_synonym 'a result = "py_error + 'a"

definition rbind :: "'e + 'a \<Rightarrow> ('a \<Rightarrow> 'e + 'b) \<Rightarrow> 'e + 'b" where
  "rbind r f = (case r of Inl e \<Rightarrow> Inl e | Inr x \<Rightarrow> f x)"

lemma rbind_simps [simp]: "rbind (Inl e) f = Inl e" "rbind (Inr x) f = f x"
  by (simp_all add: rbind_def)

lemma rbind_Inr_iff: "rbind r f = Inr y \<longleftrightarrow> (\<exists>x. r = Inr x \<and> f x = Inr y)"
  by (cases r) auto

lemma rbind_Inl_iff: "rbind r f = Inl e \<longleftrightarrow> r = Inl e \<or> (\<exists>x. r = Inr x \<and> f x = Inl e)"
  by (cases r) auto

text \<open>A loop whose body can raise.\<close>

fun rfold :: "('x \<Rightarrow> 's \<Rightarrow> 'e + 's) \<Rightarrow> 'x list \<Rightarrow> 's \<Rightarrow> 'e + 's" where
  "rfold f [] s = Inr s"
| "rfold f (x # xs) s = rbind (f x s) (rfold f xs)"

lemma rfold_append: "rfold f (xs @ ys) s = rbind (rfold f xs s) (rfold f ys)"
proof (induction xs arbitrary: s)
  case (Cons x xs)
  then show ?case by (cases "f x s") simp_all
qed simp

text \<open>An invariant of the body is one of the loop.\<close>

lemma rfold_invariant:
  assumes "rfold f xs s = Inr s'" and "P s"
    and "\<And>x s s'. x \<in> set xs \<Longrightarrow> P s \<Longrightarrow> f x s = Inr s' \<Longrightarrow> P s'"
  shows "P s'"
  using assms
proof (induction xs arbitrary: s)
  case (Cons x xs)
  then obtain t where t: "f x s = Inr t" "rfold f xs t = Inr s'" by (auto simp: rbind_Inr_iff)
  show ?case
  proof (rule Cons.IH [OF t(2)])
    show "P t" by (rule Cons.prems(3) [OF _ Cons.prems(2) t(1)]) simp
  qed (use Cons.prems(3) in auto)
qed simp

text \<open>A body that cannot raise where the invariant holds gives a loop that cannot.\<close>

lemma rfold_total:
  assumes "P s" and "\<And>x s. x \<in> set xs \<Longrightarrow> P s \<Longrightarrow> \<exists>s'. f x s = Inr s' \<and> P s'"
  shows "\<exists>s'. rfold f xs s = Inr s' \<and> P s'"
  using assms
proof (induction xs arbitrary: s)
  case (Cons x xs)
  then obtain t where t: "f x s = Inr t" "P t" by fastforce
  then show ?case using Cons.IH [OF t(2)] Cons.prems(2) by auto
qed simp

text \<open>Operations that change a state and may raise keep the state they have reached.\<close>

definition and_then ::
  "'s \<times> 'a result \<Rightarrow> ('a \<Rightarrow> 's \<Rightarrow> 's \<times> 'b result) \<Rightarrow> 's \<times> 'b result" where
  "and_then m f = (case m of (s, Inl e) \<Rightarrow> (s, Inl e) | (s, Inr x) \<Rightarrow> f x s)"

lemma and_then_simps [simp]:
  "and_then (s, Inl e) f = (s, Inl e)" "and_then (s, Inr x) f = f x s"
  by (simp_all add: and_then_def)

lemma snd_and_then_Inl:
  "snd (and_then m f) = Inl e \<longleftrightarrow> snd m = Inl e \<or> (\<exists>x. snd m = Inr x \<and> snd (f x (fst m)) = Inl e)"
  by (cases m; cases "snd m") auto

lemma fst_and_then:
  "fst (and_then m f) = (case snd m of Inl e \<Rightarrow> fst m | Inr x \<Rightarrow> fst (f x (fst m)))"
  by (cases m; cases "snd m") auto

lemma and_then_rule:
  "P (fst m) \<Longrightarrow> (\<And>x. snd m = Inr x \<Longrightarrow> P (fst (f x (fst m)))) \<Longrightarrow> P (fst (and_then m f))"
  by (auto simp: fst_and_then split: sum.split)

text \<open>Python's \<open>xs[i]\<close>: negative indices count from the end, out of range raises.\<close>

definition py_index :: "'a list \<Rightarrow> int \<Rightarrow> 'a result" where
  "py_index xs i =
     (let j = (if i < 0 then int (length xs) + i else i)
      in if 0 \<le> j \<and> j < int (length xs) then Inr (xs ! nat j) else Inl IndexError)"

lemma py_index_nonneg: "i < length xs \<Longrightarrow> py_index xs (int i) = Inr (xs ! i)"
  by (simp add: py_index_def)

lemma py_index_last: "xs \<noteq> [] \<Longrightarrow> py_index xs (-1) = Inr (last xs)"
  by (cases xs) (auto simp: py_index_def last_conv_nth nat_diff_distrib)

section \<open>Dictionaries\<close>

text \<open>
  The interface the components use: lookup, item assignment, \<open>del\<close> and the list of
  keys. The laws are what Python promises whatever the iteration order is.
\<close>

locale dictionary =
  fixes get :: "'d \<Rightarrow> 'k \<Rightarrow> 'v option"
    and put :: "'k \<Rightarrow> 'v \<Rightarrow> 'd \<Rightarrow> 'd"
    and rem :: "'k \<Rightarrow> 'd \<Rightarrow> 'd"
    and keys :: "'d \<Rightarrow> 'k list"
    and ok :: "'d \<Rightarrow> bool"
  assumes get_put: "get (put k v d) k' = (if k' = k then Some v else get d k')"
    and get_rem: "ok d \<Longrightarrow> get (rem k d) k' = (if k' = k then None else get d k')"
    and keys_get: "k \<in> set (keys d) \<longleftrightarrow> get d k \<noteq> None"
    and ok_put: "ok d \<Longrightarrow> ok (put k v d)"
    and ok_rem: "ok d \<Longrightarrow> ok (rem k d)"
    and ok_keys: "ok d \<Longrightarrow> distinct (keys d)"
begin

lemma keys_put: "set (keys (put k v d)) = insert k (set (keys d))"
  by (auto simp: keys_get get_put split: if_splits)

lemma keys_rem: "ok d \<Longrightarrow> set (keys (rem k d)) = set (keys d) - {k}"
  by (auto simp: keys_get get_rem split: if_splits)

text \<open>A loop that assigns \<open>d[f x] = g x\<close> for every \<open>x\<close> keeps, per key, the last one.\<close>

lemma get_fold_put:
  "get (fold (\<lambda>x. put (f x) (g x)) xs d) k =
     (case filter (\<lambda>x. f x = k) (rev xs) of [] \<Rightarrow> get d k | x # _ \<Rightarrow> Some (g x))"
proof (induction xs rule: rev_induct)
  case Nil
  show ?case by simp
next
  case (snoc x xs)
  then show ?case by (auto simp: get_put)
qed

lemma ok_fold_put: "ok d \<Longrightarrow> ok (fold (\<lambda>x. put (f x) (g x)) xs d)"
  by (induction xs arbitrary: d) (auto simp: ok_put)

lemma keys_fold_put:
  "set (keys (fold (\<lambda>x. put (f x) (g x)) xs d)) = set (keys d) \<union> f ` set xs"
  by (induction xs arbitrary: d) (auto simp: keys_put)

end

text \<open>
  The model: an association list, oldest key first. \<open>AList.update\<close> changes an existing
  entry in place and appends a new one, as CPython's insertion order does.
\<close>

type_synonym ('k, 'v) pydict = "('k \<times> 'v) list"

abbreviation dict_get :: "('k, 'v) pydict \<Rightarrow> 'k \<Rightarrow> 'v option" where
  "dict_get \<equiv> map_of"

abbreviation dict_put :: "'k \<Rightarrow> 'v \<Rightarrow> ('k, 'v) pydict \<Rightarrow> ('k, 'v) pydict" where
  "dict_put \<equiv> AList.update"

abbreviation dict_del :: "'k \<Rightarrow> ('k, 'v) pydict \<Rightarrow> ('k, 'v) pydict" where
  "dict_del \<equiv> AList.delete"

definition dict_keys :: "('k, 'v) pydict \<Rightarrow> 'k list" where
  "dict_keys d = map fst d"

definition dict_ok :: "('k, 'v) pydict \<Rightarrow> bool" where
  "dict_ok d \<longleftrightarrow> distinct (map fst d)"

interpretation pd: dictionary dict_get dict_put dict_del dict_keys dict_ok
proof unfold_locales
  show "k \<in> set (dict_keys d) \<longleftrightarrow> map_of d k \<noteq> None" for k :: 'a and d :: "('a, 'b) pydict"
    by (auto simp: dict_keys_def map_of_eq_None_iff)
qed (auto simp: dict_ok_def dict_keys_def update_conv' delete_conv' distinct_update
    distinct_delete)

lemma dict_ok_Nil [simp]: "dict_ok []"
  by (simp add: dict_ok_def)

lemma dict_keys_Nil [simp]: "dict_keys [] = []"
  by (simp add: dict_keys_def)

lemma dict_keys_empty_iff [simp]: "dict_keys d = [] \<longleftrightarrow> d = []"
  by (simp add: dict_keys_def)

lemma dict_del_get: "dict_get (dict_del k d) k' = (if k' = k then None else dict_get d k')"
  by (simp add: delete_conv')

lemmas dict_laws [dict_simps] =
  pd.get_put dict_del_get pd.keys_put pd.keys_rem pd.ok_put pd.ok_rem

text \<open>Overwriting an existing key changes neither the keys nor their number.\<close>

lemma dict_put_present:
  "k \<in> set (dict_keys d) \<Longrightarrow> dict_keys (dict_put k v d) = dict_keys d"
  by (induction d) (auto simp: dict_keys_def)

lemma length_dict_put_present:
  "k \<in> set (dict_keys d) \<Longrightarrow> length (dict_put k v d) = length d"
  by (metis dict_put_present dict_keys_def length_map)

lemma length_dict_del_present:
  assumes "k \<in> set (dict_keys d)"
  shows "length (dict_del k d) < length d"
proof -
  obtain v where "(k, v) \<in> set d" using assms by (auto simp: dict_keys_def)
  then show ?thesis
    by (auto simp: AList.delete_eq intro!: length_filter_less)
qed

section \<open>Order of elements in a list\<close>

definition before :: "'a list \<Rightarrow> 'a \<Rightarrow> 'a \<Rightarrow> bool" where
  "before xs x y \<longleftrightarrow> (\<exists>as bs cs. xs = as @ x # bs @ y # cs)"

lemma before_snoc_I: "x \<in> set xs \<Longrightarrow> before (xs @ [y]) x y"
  by (metis before_def split_list append.assoc append_Cons)

lemma before_append_I: "before xs x y \<Longrightarrow> before (xs @ ys) x y"
  unfolding before_def by (metis append.assoc append_Cons)

lemma before_split_I: "x \<in> set xs \<Longrightarrow> y \<in> set ys \<Longrightarrow> before (xs @ ys) x y"
  unfolding before_def by (metis split_list append.assoc append_Cons)

lemma before_in: "before xs x y \<Longrightarrow> x \<in> set xs \<and> y \<in> set xs"
  by (auto simp: before_def)

lemma before_index:
  assumes "distinct xs" and "before xs (xs ! i) (xs ! j)" and "i < length xs" and "j < length xs"
  shows "i < j"
proof -
  obtain as bs cs where xs: "xs = as @ xs ! i # bs @ xs ! j # cs"
    using assms(2) by (auto simp: before_def)
  have "xs ! length as = xs ! i" by (subst (1) xs) simp
  moreover have "length as < length xs" by (subst xs) simp
  ultimately have i: "i = length as"
    using assms(1,3) nth_eq_iff_index_eq by metis
  have "xs ! (length as + 1 + length bs) = xs ! j"
    by (subst (1) xs) (simp add: nth_append)
  moreover have "length as + 1 + length bs < length xs" by (subst xs) simp
  ultimately have "j = length as + 1 + length bs"
    using assms(1,4) nth_eq_iff_index_eq by metis
  with i show ?thesis by simp
qed

text \<open>A list in which every edge goes forward has no cycle.\<close>

lemma before_acyclic:
  assumes "distinct xs" and "\<And>x y. (x, y) \<in> r \<Longrightarrow> before xs x y"
  shows "acyclic r"
proof -
  define pos where "pos x = (LEAST i. i < length xs \<and> xs ! i = x)" for x
  have pos: "pos x < length xs \<and> xs ! pos x = x" if "x \<in> set xs" for x
  proof -
    have "\<exists>i. i < length xs \<and> xs ! i = x" using that by (simp add: in_set_conv_nth)
    then show ?thesis unfolding pos_def by (rule LeastI_ex)
  qed
  have "pos x < pos y" if "(x, y) \<in> r" for x y
  proof -
    from assms(2) [OF that] have b: "before xs x y" .
    have x: "pos x < length xs" "xs ! pos x = x" and y: "pos y < length xs" "xs ! pos y = y"
      using pos before_in [OF b] by simp_all
    show ?thesis by (rule before_index [OF assms(1) _ x(1) y(1)]) (simp add: x y b)
  qed
  then have "r \<subseteq> measure pos" by auto
  then show ?thesis using wf_acyclic wf_measure acyclic_subset by blast
qed

text \<open>A finite nonempty set in which everything has a predecessor contains a cycle.\<close>

lemma predecessors_cyclic:
  assumes "finite A" and "A \<noteq> {}" and pre: "\<And>x. x \<in> A \<Longrightarrow> \<exists>y \<in> A. (y, x) \<in> r"
  shows "\<not> acyclic r"
proof
  assume "acyclic r"
  then have "acyclic (r \<inter> A \<times> A)" by (rule acyclic_subset) auto
  then have "wf (r \<inter> A \<times> A)"
    using assms(1) by (intro finite_acyclic_wf) auto
  then obtain z where "z \<in> A" "\<And>y. (y, z) \<in> r \<inter> A \<times> A \<Longrightarrow> y \<notin> A"
    using assms(2) by (metis wfE_min ex_in_conv)
  then show False using pre by blast
qed

end
