(* ===== verification/PyStr.thy ===== *)
theory PyStr
  imports Prelude "HOL-Library.Sublist"
begin

text \<open>
  The Python string and slice operations the modelled code calls, on char lists:
  slicing with negative bounds, \<open>split\<close>, \<open>strip\<close>, \<open>join\<close>, \<open>startswith\<close>, the
  membership test \<open>in\<close>, \<open>str\<close> of an integer, and the laws the components use.
\<close>

named_theorems pystr_simps \<open>rewriting rules of the Python string operations\<close>

section \<open>Slices\<close>

text \<open>A slice bound is counted from the end when negative, then clamped to the length.\<close>

definition slice_pos :: "'a list \<Rightarrow> int \<Rightarrow> nat" where
  "slice_pos xs i = (if i < 0 then nat (int (length xs) + i) else min (nat i) (length xs))"

definition slice_to :: "'a list \<Rightarrow> int \<Rightarrow> 'a list" where
  "slice_to xs j = take (slice_pos xs j) xs"

definition slice_from :: "'a list \<Rightarrow> int \<Rightarrow> 'a list" where
  "slice_from xs i = drop (slice_pos xs i) xs"

definition slice :: "'a list \<Rightarrow> int \<Rightarrow> int \<Rightarrow> 'a list" where
  "slice xs i j = drop (slice_pos xs i) (take (slice_pos xs j) xs)"

lemma nat_int_diff: "nat (int a - int b) = a - b"
  by arith

lemma slice_to_neg: "0 < n \<Longrightarrow> slice_to xs (- int n) = take (length xs - n) xs"
  by (simp add: slice_to_def slice_pos_def nat_int_diff)

lemma slice_from_neg: "0 < n \<Longrightarrow> slice_from xs (- int n) = drop (length xs - n) xs"
  by (simp add: slice_from_def slice_pos_def nat_int_diff)

lemma slice_from_nonneg: "slice_from xs (int n) = drop n xs"
  by (simp add: slice_from_def slice_pos_def min_def)

lemma slice_to_nonneg: "slice_to xs (int n) = take n xs"
  by (simp add: slice_to_def slice_pos_def min_def)

lemma slice_nonneg: "slice xs (int i) (int j) = drop i (take j xs)"
  by (auto simp: slice_def slice_pos_def min_def)

section \<open>Strings\<close>

definition startswith :: "string \<Rightarrow> string \<Rightarrow> bool" where
  "startswith p s \<longleftrightarrow> take (length p) s = p"

definition endswith :: "string \<Rightarrow> string \<Rightarrow> bool" where
  "endswith p s \<longleftrightarrow> startswith (rev p) (rev s)"

lemma startswith_iff: "startswith p s \<longleftrightarrow> prefix p s"
  by (metis startswith_def append_eq_conv_conj prefix_def)

fun str_in :: "string \<Rightarrow> string \<Rightarrow> bool" where
  "str_in p [] = (p = [])"
| "str_in p (c # s) = (startswith p (c # s) \<or> str_in p s)"

lemma str_in_iff: "str_in p s \<longleftrightarrow> sublist p s"
  by (induction s) (auto simp: startswith_iff sublist_Cons_right)

text \<open>\<open>s.split(c)\<close> for a one-character separator: always at least one piece.\<close>

fun split_char :: "char \<Rightarrow> string \<Rightarrow> string list" where
  "split_char c [] = [[]]"
| "split_char c (x # s) =
     (if x = c then [] # split_char c s
      else (case split_char c s of p # ps \<Rightarrow> (x # p) # ps | [] \<Rightarrow> [[x]]))"

text \<open>\<open>s.split(c, 1)\<close>: at most one cut, at the first separator.\<close>

definition split_once :: "char \<Rightarrow> string \<Rightarrow> string list" where
  "split_once c s =
     (case dropWhile (\<lambda>x. x \<noteq> c) s of
        [] \<Rightarrow> [s] | _ # rest \<Rightarrow> [takeWhile (\<lambda>x. x \<noteq> c) s, rest])"

fun join :: "string \<Rightarrow> string list \<Rightarrow> string" where
  "join sep [] = []"
| "join sep [p] = p"
| "join sep (p # q # ps) = p @ sep @ join sep (q # ps)"

lemma split_char_not_Nil [simp]: "split_char c s \<noteq> []"
  by (cases s) (auto split: list.splits)

lemma split_char_no_sep: "c \<notin> set s \<Longrightarrow> split_char c s = [s]"
  by (induction s) auto

lemma split_char_pieces: "p \<in> set (split_char c s) \<Longrightarrow> c \<notin> set p"
  by (induction s arbitrary: p) (auto split: if_splits list.splits)

lemma split_char_append:
  "c \<notin> set p \<Longrightarrow> split_char c (p @ c # s) = p # split_char c s"
  by (induction p) auto

lemma split_join:
  "ps \<noteq> [] \<Longrightarrow> (\<forall>p \<in> set ps. c \<notin> set p) \<Longrightarrow> split_char c (join [c] ps) = ps"
  by (induction ps rule: induct_list012) (auto simp: split_char_append split_char_no_sep)

lemma join_Cons: "ps \<noteq> [] \<Longrightarrow> join sep (p # ps) = p @ sep @ join sep ps"
  by (cases ps) auto

lemma join_split: "join [c] (split_char c s) = s"
proof (induction s)
  case (Cons x s)
  obtain p ps where s: "split_char c s = p # ps"
    using split_char_not_Nil by (metis list.exhaust)
  with Cons show ?case by (cases ps) (auto simp: join_Cons)
qed simp

lemma split_once_no_sep: "c \<notin> set s \<Longrightarrow> split_once c s = [s]"
proof -
  assume "c \<notin> set s"
  then have "dropWhile (\<lambda>x. x \<noteq> c) s = []" by (induction s) auto
  then show ?thesis unfolding split_once_def by (simp only: list.case)
qed

lemma split_once_sep: "c \<notin> set p \<Longrightarrow> split_once c (p @ c # s) = [p, s]"
proof -
  assume c: "c \<notin> set p"
  then have "dropWhile (\<lambda>x. x \<noteq> c) (p @ c # s) = c # s"
    and "takeWhile (\<lambda>x. x \<noteq> c) (p @ c # s) = p"
    by (induction p) auto
  then show ?thesis by (simp add: split_once_def)
qed

text \<open>\<open>strip\<close> without argument removes ASCII white space from both ends.\<close>

definition is_ws :: "char \<Rightarrow> bool" where
  "is_ws c \<longleftrightarrow> of_char c \<in> {9::nat, 10, 11, 12, 13, 32}"

definition strip :: "string \<Rightarrow> string" where
  "strip s = rev (dropWhile is_ws (rev (dropWhile is_ws s)))"

lemma strip_Nil [simp]: "strip [] = []"
  by (simp add: strip_def)

lemma strip_Nil_iff: "strip s = [] \<longleftrightarrow> (\<forall>c \<in> set s. is_ws c)"
proof -
  have "(\<forall>c \<in> set (dropWhile is_ws s). is_ws c) \<longleftrightarrow> (\<forall>c \<in> set s. is_ws c)"
    by (induction s) auto
  then show ?thesis by (simp add: strip_def dropWhile_eq_Nil_conv)
qed

lemma strip_id: "s \<noteq> [] \<Longrightarrow> \<not> is_ws (hd s) \<Longrightarrow> \<not> is_ws (last s) \<Longrightarrow> strip s = s"
proof -
  assume s: "s \<noteq> []" "\<not> is_ws (hd s)" "\<not> is_ws (last s)"
  then have "dropWhile is_ws s = s" by (cases s) auto
  moreover have "dropWhile is_ws (rev s) = rev s"
    using s by (cases s rule: rev_cases) auto
  ultimately show ?thesis by (simp add: strip_def)
qed

text \<open>\<open>upper\<close> on ASCII characters.\<close>

definition upper_char :: "char \<Rightarrow> char" where
  "upper_char c = (let n = (of_char c :: nat) in if 97 \<le> n \<and> n \<le> 122 then char_of (n - 32) else c)"

section \<open>Numbers in strings\<close>

definition digit_char :: "nat \<Rightarrow> char" where
  "digit_char d = char_of (48 + d)"

fun show_nat :: "nat \<Rightarrow> string" where
  "show_nat n = (if n < 10 then [digit_char n] else show_nat (n div 10) @ [digit_char (n mod 10)])"

declare show_nat.simps [simp del]

definition show_int :: "int \<Rightarrow> string" where
  "show_int i = (if i < 0 then ''-'' @ show_nat (nat (- i)) else show_nat (nat i))"

definition is_digit :: "char \<Rightarrow> bool" where
  "is_digit c \<longleftrightarrow> 48 \<le> (of_char c :: nat) \<and> (of_char c :: nat) \<le> 57"

text \<open>\<open>int(s)\<close> on a string of decimal digits.\<close>

definition digits_val :: "string \<Rightarrow> nat" where
  "digits_val s = foldl (\<lambda>a c. 10 * a + (of_char c - 48)) 0 s"

lemma of_digit_char: "d < 10 \<Longrightarrow> (of_char (digit_char d) :: nat) = 48 + d"
  by (simp add: digit_char_def)

lemma is_digit_digit_char [simp]: "d < 10 \<Longrightarrow> is_digit (digit_char d)"
  by (simp add: is_digit_def of_digit_char)

lemma digits_val_snoc: "digits_val (s @ [c]) = 10 * digits_val s + (of_char c - 48)"
  by (simp add: digits_val_def)

lemma show_nat_digits: "list_all is_digit (show_nat n) \<and> show_nat n \<noteq> []"
proof (induction n rule: show_nat.induct)
  case (1 n)
  then show ?case by (cases "n < 10") (simp_all add: show_nat.simps [of n])
qed

lemma digits_val_show_nat: "digits_val (show_nat n) = n"
proof (induction n rule: show_nat.induct)
  case (1 n)
  show ?case
  proof (cases "n < 10")
    case True
    then show ?thesis
      by (simp add: show_nat.simps [of n] digits_val_def of_digit_char)
  next
    case False
    with 1 show ?thesis
      by (simp add: show_nat.simps [of n] digits_val_snoc of_digit_char)
  qed
qed

lemma show_nat_inj: "show_nat m = show_nat n \<longleftrightarrow> m = n"
  by (metis digits_val_show_nat)

section \<open>Pieces of regular expressions\<close>

text \<open>Digits, at least one, and what follows them; a fixed text; a run of non-blanks.\<close>

definition match_digits :: "string \<Rightarrow> (string \<times> string) option" where
  "match_digits s =
     (case takeWhile is_digit s of [] \<Rightarrow> None | ds \<Rightarrow> Some (ds, dropWhile is_digit s))"

definition match_text :: "string \<Rightarrow> string \<Rightarrow> string option" where
  "match_text p s = (if startswith p s then Some (drop (length p) s) else None)"

definition match_word :: "string \<Rightarrow> (string \<times> string) option" where
  "match_word s =
     (case takeWhile (\<lambda>c. c \<noteq> CHR '' '') s of [] \<Rightarrow> None | w \<Rightarrow> Some (w, dropWhile (\<lambda>c. c \<noteq> CHR '' '') s))"

lemma match_digits_show [simp]: "\<not> is_digit c \<Longrightarrow> match_digits (show_nat n @ c # s) = Some (show_nat n, c # s)"
proof -
  assume c: "\<not> is_digit c"
  have d: "\<forall>x \<in> set (show_nat n). is_digit x" "show_nat n \<noteq> []"
    using show_nat_digits [of n] by (auto simp: list_all_iff)
  then have "takeWhile is_digit (show_nat n @ c # s) = show_nat n"
    "dropWhile is_digit (show_nat n @ c # s) = c # s"
    using c by auto
  then show ?thesis using d(2) by (cases "show_nat n") (simp_all add: match_digits_def)
qed

lemma match_text_append [simp]: "match_text p (p @ s) = Some s"
  by (simp add: match_text_def startswith_def)

lemma match_digits_end [simp]: "match_digits (show_nat n) = Some (show_nat n, [])"
proof -
  have d: "\<forall>x \<in> set (show_nat n). is_digit x" "show_nat n \<noteq> []"
    using show_nat_digits [of n] by (auto simp: list_all_iff)
  then have "takeWhile is_digit (show_nat n) = show_nat n" "dropWhile is_digit (show_nat n) = []"
    by (simp_all add: takeWhile_eq_all_conv)
  then show ?thesis using d(2) by (cases "show_nat n") (simp_all add: match_digits_def)
qed

lemma match_word_space [simp]:
  assumes "w \<noteq> []" and "CHR '' '' \<notin> set w"
  shows "match_word (w @ CHR '' '' # s) = Some (w, CHR '' '' # s)"
proof -
  have "takeWhile (\<lambda>c. c \<noteq> CHR '' '') (w @ CHR '' '' # s) = w"
    "dropWhile (\<lambda>c. c \<noteq> CHR '' '') (w @ CHR '' '' # s) = CHR '' '' # s"
    using assms(2) by (induction w) auto
  then show ?thesis using assms(1) by (auto simp: match_word_def split: list.splits)
qed

section \<open>The text of a string\<close>

text \<open>\<open>repr(s)\<close> of a printable string.\<close>

definition py_repr :: "string \<Rightarrow> string" where
  "py_repr s =
     (let q = (if CHR 0x27 \<in> set s \<and> CHR 0x22 \<notin> set s then CHR 0x22 else CHR 0x27)
      in q # concat (map (\<lambda>c. if c = CHR 0x5C \<or> c = q then [CHR 0x5C, c] else [c]) s) @ [q])"

lemma py_repr_plain: "CHR 0x27 \<notin> set s \<Longrightarrow> CHR 0x5C \<notin> set s \<Longrightarrow> py_repr s = CHR 0x27 # s @ [CHR 0x27]"
  by (induction s) (auto simp: py_repr_def Let_def)

section \<open>Formats\<close>

text \<open>
  \<open>template % d\<close> for the conversions \<open>%(KEY)s\<close>, \<open>%(KEY)r\<close> and \<open>%%\<close>; anything else is a
  \<open>ValueError\<close> here. \<open>repr\<close> is for strings of printable characters.
\<close>

definition conversion :: "char \<Rightarrow> string \<Rightarrow> string result" where
  "conversion c v =
     (if c = CHR ''s'' then Inr v else if c = CHR ''r'' then Inr (py_repr v) else Inl ValueError)"

lemma dropWhile_shorter: "dropWhile P t = p # f # u \<Longrightarrow> length u < Suc (length t)"
  using length_dropWhile_le [of P t] by simp

function percent_dict :: "string \<Rightarrow> (string, string) pydict \<Rightarrow> string result" where
  "percent_dict [] d = Inr []"
| "percent_dict (c # s) d =
     (if c \<noteq> CHR ''%'' then rbind (percent_dict s d) (\<lambda>r. Inr (c # r))
      else
        (case s of
           [] \<Rightarrow> Inl ValueError
         | b # t \<Rightarrow>
             if b = CHR ''%'' then rbind (percent_dict t d) (\<lambda>r. Inr (c # r))
             else if b = CHR ''('' then
               (case dropWhile (\<lambda>x. x \<noteq> CHR '')'') t of
                  p # f # u \<Rightarrow>
                    (case dict_get d (takeWhile (\<lambda>x. x \<noteq> CHR '')'') t) of
                       None \<Rightarrow> Inl KeyError
                     | Some v \<Rightarrow>
                         rbind (conversion f v) (\<lambda>v. rbind (percent_dict u d) (\<lambda>r. Inr (v @ r))))
                | _ \<Rightarrow> Inl ValueError)
             else Inl ValueError))"
  by pat_completeness auto
termination
  by (relation "measure (\<lambda>(s, d). length s)") (auto dest: dropWhile_shorter)

end
