(* ===== verification/RadSeq.thy ===== *)
theory RadSeq
  imports PyStr
begin

text \<open>
  The sequence and string functions of \<open>src/bindings/python/rad_util.py\<close>:
  reversing, transposing, enumerating permutations, removing duplicates, reversing a
  dictionary, common prefix and suffix, rotation test and command-line arguments.
\<close>

section \<open>Definitions\<close>

definition reverse :: "string \<Rightarrow> string" where
  "reverse input_string = rev input_string"

text \<open>\<open>zip(*matrix)\<close> stops at the shortest row; the empty matrix gives the empty list.\<close>

fun min_row :: "'a list list \<Rightarrow> nat" where
  "min_row [] = 0"
| "min_row [r] = length r"
| "min_row (r # rs) = min (length r) (min_row rs)"

definition transpose_py :: "'a list list \<Rightarrow> 'a list list" where
  "transpose_py matrix = map (\<lambda>j. map (\<lambda>row. row ! j) matrix) [0..<min_row matrix]"

text \<open>\<open>new_list.insert(i, item)\<close>\<close>

definition insert_at :: "nat \<Rightarrow> 'a \<Rightarrow> 'a list \<Rightarrow> 'a list" where
  "insert_at i x xs = take i xs @ x # drop i xs"

fun permutations :: "'a list \<Rightarrow> 'a list list" where
  "permutations (item # y # ys) =
     concat (map (\<lambda>sub_list. map (\<lambda>i. insert_at i item sub_list) [0..<length (item # y # ys)])
       (permutations (y # ys)))"
| "permutations input_list = [input_list]"

text \<open>
  \<open>uniquify\<close>: whether an element is hashable and in which order a dictionary lists its
  keys are parameters. One unhashable element makes the dictionary raise
  \<open>TypeError\<close>, and the quadratic algorithm runs instead, on the whole sequence.
\<close>

fun uniq_ordered :: "('a, int) pydict \<Rightarrow> 'a list \<Rightarrow> 'a list" where
  "uniq_ordered d [] = []"
| "uniq_ordered d (x # xs) =
     (if x \<notin> set (dict_keys d) then x # uniq_ordered (dict_put x 0 d) xs
      else uniq_ordered d xs)"

definition uniq_dict :: "'a list \<Rightarrow> ('a, int) pydict" where
  "uniq_dict seq = fold (\<lambda>x d. dict_put x 0 d) seq []"

fun uniq_slow :: "'a list \<Rightarrow> 'a list \<Rightarrow> 'a list" where
  "uniq_slow result [] = result"
| "uniq_slow result (x # xs) =
     (if x \<notin> set result then uniq_slow (result @ [x]) xs else uniq_slow result xs)"

definition uniquify ::
  "('a \<Rightarrow> bool) \<Rightarrow> ('a list \<Rightarrow> 'a list) \<Rightarrow> 'a list \<Rightarrow> bool \<Rightarrow> 'a list" where
  "uniquify hashable key_order seq preserve_order =
     (if list_all hashable seq
      then (if preserve_order then uniq_ordered [] seq
            else key_order (dict_keys (uniq_dict seq)))
      else uniq_slow [] seq)"

definition reverse_dict :: "('k, 'v) pydict \<Rightarrow> ('v, 'k) pydict" where
  "reverse_dict d = fold (\<lambda>(key, value) result. dict_put value key result) d []"

text \<open>
  The two loops of \<open>find_common_fixes\<close>: the index runs up to the shorter length and the
  loop breaks at the first difference.
\<close>

function common_prefix_loop :: "'a list \<Rightarrow> 'a list \<Rightarrow> nat \<Rightarrow> 'a list \<Rightarrow> 'a list" where
  "common_prefix_loop s1 s2 i acc =
     (if i < min (length s1) (length s2)
      then (if s1 ! i \<noteq> s2 ! i then acc else common_prefix_loop s1 s2 (Suc i) (acc @ [s1 ! i]))
      else acc)"
  by pat_completeness auto
termination
  by (relation "measure (\<lambda>(s1, s2, i, acc). min (length s1) (length s2) - i)") auto

function common_suffix_loop :: "'a list \<Rightarrow> 'a list \<Rightarrow> nat \<Rightarrow> 'a list \<Rightarrow> 'a list" where
  "common_suffix_loop s1 s2 i acc =
     (if i < min (length s1) (length s2) + 1
      then (if s1 ! (length s1 - i) \<noteq> s2 ! (length s2 - i) then acc
            else common_suffix_loop s1 s2 (Suc i) (acc @ [s1 ! (length s1 - i)]))
      else acc)"
  by pat_completeness auto
termination
  by (relation "measure (\<lambda>(s1, s2, i, acc). min (length s1) (length s2) + 1 - i)") auto

declare common_prefix_loop.simps [simp del] common_suffix_loop.simps [simp del]

definition find_common_fixes :: "'a list \<Rightarrow> 'a list \<Rightarrow> 'a list \<times> 'a list" where
  "find_common_fixes s1 s2 =
     (common_prefix_loop s1 s2 0 [], rev (common_suffix_loop s1 s2 1 []))"

definition is_rotated :: "'a list \<Rightarrow> 'a list \<Rightarrow> bool result" where
  "is_rotated seq1 seq2 =
     (if length seq1 \<noteq> length seq2 then Inr False
      else (case py_index seq2 0 of
          Inl e \<Rightarrow> Inl e
        | Inr head_item \<Rightarrow>
            (let start_indexes = filter (\<lambda>i. seq1 ! i = head_item) [0..<length seq1];
                 double_seq1 = seq1 @ seq1
             in Inr (list_ex (\<lambda>i. slice double_seq1 (int i) (int (i + length seq1)) = seq2)
                  start_indexes))))"

datatype argval = ArgNone | ArgStr string | ArgList "string list"

definition arg_entry :: "string \<Rightarrow> (string, argval) pydict \<Rightarrow> (string, argval) pydict" where
  "arg_entry arg d =
     (let parts = split_char CHR ''='' (dropWhile (\<lambda>c. c = CHR ''-'') arg)
      in if length parts = 2 then dict_put (parts ! 0) (ArgStr (parts ! 1)) d
         else dict_put (parts ! 0) ArgNone d)"

fun get_args_loop ::
  "(string, argval) pydict \<Rightarrow> string list \<Rightarrow> string list \<Rightarrow> (string, argval) pydict \<times> string list" where
  "get_args_loop d args [] = (d, args)"
| "get_args_loop d args (arg # argv) =
     (if startswith ''-'' arg then get_args_loop (arg_entry arg d) args argv
      else get_args_loop d (args @ [arg]) argv)"

definition get_args :: "string list \<Rightarrow> (string, argval) pydict" where
  "get_args argv = (case get_args_loop [] [] argv of (d, args) \<Rightarrow> dict_put ''args'' (ArgList args) d)"

section \<open>Transposition\<close>

lemma min_row_uniform: "rows \<noteq> [] \<Longrightarrow> \<forall>r \<in> set rows. length r = n \<Longrightarrow> min_row rows = n"
  by (induction rows rule: min_row.induct) auto

lemma transpose_py_transpose_py:
  assumes "m \<noteq> []" and n: "\<forall>r \<in> set m. length r = n" and "0 < n"
  shows "transpose_py (transpose_py m) = m"
proof -
  have t: "transpose_py m = map (\<lambda>j. map (\<lambda>row. row ! j) m) [0..<n]"
    using min_row_uniform [OF assms(1) n] by (simp add: transpose_py_def)
  have mr: "min_row (transpose_py m) = length m"
    using \<open>0 < n\<close> by (intro min_row_uniform) (auto simp: t)
  have "transpose_py (transpose_py m) =
      map (\<lambda>j. map (\<lambda>row. row ! j) (transpose_py m)) [0..<length m]"
    by (simp only: transpose_py_def [of "transpose_py m"] mr)
  also have "\<dots> = map (\<lambda>j. map (\<lambda>i. m ! j ! i) [0..<n]) [0..<length m]"
    by (simp add: t)
  also have "\<dots> = map (\<lambda>j. m ! j) [0..<length m]"
    using n by (intro map_cong) (auto intro!: nth_equalityI)
  finally show ?thesis by (simp add: map_nth)
qed

section \<open>Permutations\<close>

lemma mset_insert_at [simp]: "mset (insert_at i x xs) = add_mset x (mset xs)"
proof -
  have "mset xs = mset (take i xs) + mset (drop i xs)"
    by (metis append_take_drop_id mset_append)
  then show ?thesis by (simp add: insert_at_def)
qed

lemma length_insert_at [simp]: "length (insert_at i x xs) = Suc (length xs)"
  by (simp add: insert_at_def)

lemma permutations_mset: "ys \<in> set (permutations xs) \<Longrightarrow> mset ys = mset xs"
  by (induction xs arbitrary: ys rule: permutations.induct) auto

lemma insert_at_exists:
  assumes "x \<in> set zs"
  obtains i ys where "zs = insert_at i x ys" and "i < length zs" and "mset ys = mset zs - {#x#}"
proof -
  obtain as bs where zs: "zs = as @ x # bs" using split_list [OF assms] by blast
  then have "zs = insert_at (length as) x (as @ bs)" by (simp add: insert_at_def)
  then show ?thesis by (rule that) (auto simp: zs)
qed

lemma permutations_complete: "mset ys = mset xs \<Longrightarrow> ys \<in> set (permutations xs)"
proof (induction xs arbitrary: ys rule: permutations.induct)
  case (1 item y zs)
  then have "item \<in> set ys" by (metis list.set_intros(1) mset_eq_setD)
  then obtain i us where ys: "ys = insert_at i item us" and i: "i < length ys"
    and us: "mset us = mset ys - {#item#}" by (rule insert_at_exists)
  have "mset us = mset (y # zs)" using "1.prems" us by simp
  then have in_sub: "us \<in> set (permutations (y # zs))" by (rule "1.IH")
  have "length ys = length (item # y # zs)" using "1.prems" by (rule mset_eq_length)
  then have "ys \<in> set (map (\<lambda>i. insert_at i item us) [0..<length (item # y # zs)])"
    using i ys by (simp only: set_map set_upt) auto
  moreover have "map (\<lambda>i. insert_at i item us) [0..<length (item # y # zs)] \<in>
      set (map (\<lambda>sub_list. map (\<lambda>i. insert_at i item sub_list) [0..<length (item # y # zs)])
        (permutations (y # zs)))"
    using in_sub by (simp only: set_map) blast
  ultimately show ?case unfolding permutations.simps(1) set_concat by blast
qed auto

lemma length_permutations: "length (permutations xs) = fact (length xs)"
proof (induction xs rule: permutations.induct)
  case (1 item y ys)
  have "length (permutations (item # y # ys)) =
      sum_list (map (\<lambda>_. length (item # y # ys)) (permutations (y # ys)))"
    by (simp add: length_concat comp_def)
  then show ?case using "1.IH" by (simp add: sum_list_triv algebra_simps)
qed auto

section \<open>Removing duplicates\<close>

text \<open>The reference: keep the first occurrence of every element.\<close>

fun first_occurrences :: "'a set \<Rightarrow> 'a list \<Rightarrow> 'a list" where
  "first_occurrences A [] = []"
| "first_occurrences A (x # xs) =
     (if x \<in> A then first_occurrences A xs else x # first_occurrences (insert x A) xs)"

lemma first_occurrences_set: "set (first_occurrences A xs) = set xs - A"
  by (induction xs arbitrary: A) auto

lemma first_occurrences_distinct: "distinct (first_occurrences A xs)"
  by (induction xs arbitrary: A) (auto simp: first_occurrences_set)

lemma first_occurrences_snoc:
  "first_occurrences A (xs @ [x]) =
     first_occurrences A xs @ (if x \<in> A \<union> set xs then [] else [x])"
  by (induction xs arbitrary: A) auto

lemma first_occurrences_remdups: "first_occurrences {} xs = rev (remdups (rev xs))"
  by (induction xs rule: rev_induct) (simp_all add: first_occurrences_snoc)

lemma uniq_ordered_first: "uniq_ordered d xs = first_occurrences (set (dict_keys d)) xs"
  by (induction xs arbitrary: d) (auto simp: pd.keys_put)

lemma uniq_slow_first: "uniq_slow result xs = result @ first_occurrences (set result) xs"
  by (induction xs arbitrary: result) auto

lemma uniq_dict_keys: "set (dict_keys (uniq_dict xs)) = set xs"
  using pd.keys_fold_put [of "\<lambda>x. x" "\<lambda>_. 0" xs "[]"] by (simp add: uniq_dict_def)

lemma uniq_dict_ok: "dict_ok (uniq_dict xs)"
  using pd.ok_fold_put [of "[]" "\<lambda>x. x" "\<lambda>_. 0" xs] by (simp add: uniq_dict_def)

lemmas uniquify_algorithms = uniq_ordered_first uniq_slow_first uniq_dict_keys

section \<open>Reversing a dictionary\<close>

lemma reverse_dict_get:
  "dict_get (reverse_dict d) v =
     (case filter (\<lambda>x. snd x = v) (rev d) of [] \<Rightarrow> None | x # _ \<Rightarrow> Some (fst x))"
  using pd.get_fold_put [of snd fst d "[]" v]
  by (simp add: reverse_dict_def case_prod_unfold split: list.splits)

lemma reverse_dict_injective:
  assumes "dict_ok d" and inj: "distinct (map snd d)"
  shows "dict_get (reverse_dict d) v = Some k \<longleftrightarrow> dict_get d k = Some v"
proof -
  have inj': "a = b" if "a \<in> set d" "b \<in> set d" "snd a = snd b" for a b
    using inj that by (auto simp: distinct_map dest: inj_onD)
  show ?thesis
  proof (cases "filter (\<lambda>x. snd x = v) (rev d)")
    case Nil
    then have "\<forall>x \<in> set d. snd x \<noteq> v" by (simp add: filter_empty_conv)
    then have "dict_get d k \<noteq> Some v" using map_of_SomeD by fastforce
    with Nil show ?thesis by (simp add: reverse_dict_get)
  next
    case (Cons x xs)
    then have "x \<in> set (filter (\<lambda>x. snd x = v) (rev d))" by simp
    then have x: "x \<in> set d" "snd x = v" by auto
    have "dict_get d k = Some v \<longleftrightarrow> (k, v) \<in> set d"
      using assms(1) by (simp add: dict_ok_def)
    also have "\<dots> \<longleftrightarrow> fst x = k" using x inj' [of x "(k, v)"] by (auto simp: prod_eq_iff)
    finally show ?thesis using Cons by (simp add: reverse_dict_get)
  qed
qed

section \<open>Common prefix and suffix\<close>

lemma common_prefix_loop_eq:
  "i \<le> min (length s1) (length s2) \<Longrightarrow>
   common_prefix_loop s1 s2 i acc = acc @ longest_common_prefix (drop i s1) (drop i s2)"
proof (induction s1 s2 i acc rule: common_prefix_loop.induct)
  case (1 s1 s2 i acc)
  show ?case
  proof (cases "i < min (length s1) (length s2)")
    case True
    then have "drop i s1 = s1 ! i # drop (Suc i) s1" "drop i s2 = s2 ! i # drop (Suc i) s2"
      by (simp_all add: Cons_nth_drop_Suc)
    with True 1 show ?thesis by (simp add: common_prefix_loop.simps [of s1 s2 i acc])
  next
    case False
    with 1 have "drop i s1 = [] \<or> drop i s2 = []" by auto
    with False show ?thesis by (auto simp: common_prefix_loop.simps [of s1 s2 i acc])
  qed
qed

text \<open>The suffix loop reads both lists from the end: it is the prefix loop of the reversals.\<close>

lemma common_suffix_loop_rev:
  "0 < i \<Longrightarrow> common_suffix_loop s1 s2 i acc = common_prefix_loop (rev s1) (rev s2) (i - 1) acc"
proof (induction s1 s2 i acc rule: common_suffix_loop.induct)
  case (1 s1 s2 i acc)
  then obtain j where i: "i = Suc j" by (cases i) auto
  show ?case using 1 unfolding i
    by (auto simp: common_suffix_loop.simps [of s1 s2 "Suc j" acc] rev_nth
        common_prefix_loop.simps [of "rev s1" "rev s2" j acc])
qed

lemma find_common_fixes_eq:
  "find_common_fixes s1 s2 =
     (longest_common_prefix s1 s2, rev (longest_common_prefix (rev s1) (rev s2)))"
  by (simp add: find_common_fixes_def common_suffix_loop_rev common_prefix_loop_eq)

section \<open>Rotations\<close>

lemma slice_double: "i < length xs \<Longrightarrow> slice (xs @ xs) (int i) (int (i + length xs)) = rotate i xs"
  unfolding slice_nonneg by (simp add: drop_take rotate_drop_take)

lemma is_rotated_eq:
  assumes "seq2 \<noteq> []"
  shows "is_rotated seq1 seq2 = Inr (\<exists>n. seq2 = rotate n seq1)"
proof (cases "length seq1 = length seq2")
  case False
  then show ?thesis by (auto simp: is_rotated_def)
next
  case len: True
  have head: "py_index seq2 0 = Inr (seq2 ! 0)"
    using assms py_index_nonneg [of 0 seq2] by simp
  have "list_ex (\<lambda>i. slice (seq1 @ seq1) (int i) (int (i + length seq1)) = seq2)
      (filter (\<lambda>i. seq1 ! i = seq2 ! 0) [0..<length seq1]) \<longleftrightarrow> (\<exists>n. seq2 = rotate n seq1)"
    (is "?l = ?r")
  proof
    assume ?l
    then show ?r using slice_double by (fastforce simp: list_ex_iff)
  next
    assume ?r
    then obtain n where n: "seq2 = rotate n seq1" by blast
    define i where "i = n mod length seq1"
    have ne: "seq1 \<noteq> []" using assms len by auto
    then have i: "i < length seq1" "seq2 = rotate i seq1"
      using n rotate_conv_mod by (auto simp: i_def)
    then have "seq2 ! 0 = seq1 ! i" using ne by (simp add: nth_rotate)
    with i show ?l using slice_double [of i seq1] by (auto simp: list_ex_iff)
  qed
  then show ?thesis using len head by (simp add: is_rotated_def)
qed

lemma is_rotated_empty: "is_rotated [] [] = Inl IndexError"
  by (simp add: is_rotated_def py_index_def)

section \<open>Command-line arguments\<close>

lemma get_args_loop_eq:
  "get_args_loop d args argv =
     (fold arg_entry (filter (startswith ''-'') argv) d,
      args @ filter (\<lambda>a. \<not> startswith ''-'' a) argv)"
  by (induction argv arbitrary: d args) auto

definition arg_key :: "string \<Rightarrow> string" where
  "arg_key arg = split_char CHR ''='' (dropWhile (\<lambda>c. c = CHR ''-'') arg) ! 0"

definition arg_value :: "string \<Rightarrow> argval" where
  "arg_value arg =
     (let parts = split_char CHR ''='' (dropWhile (\<lambda>c. c = CHR ''-'') arg)
      in if length parts = 2 then ArgStr (parts ! 1) else ArgNone)"

lemma arg_entry_put: "arg_entry arg = dict_put (arg_key arg) (arg_value arg)"
  by (rule ext) (simp add: arg_entry_def arg_key_def arg_value_def Let_def)

lemma get_args_get:
  "dict_get (get_args argv) k =
     (if k = ''args'' then Some (ArgList (filter (\<lambda>a. \<not> startswith ''-'' a) argv))
      else (case filter (\<lambda>a. startswith ''-'' a \<and> arg_key a = k) (rev argv) of
              [] \<Rightarrow> None | a # _ \<Rightarrow> Some (arg_value a)))"
  using pd.get_fold_put [of arg_key arg_value "filter (startswith ''-'') argv" "[]" k]
  by (simp add: get_args_def get_args_loop_eq arg_entry_put [abs_def] dict_simps
      rev_filter conj_commute split: list.splits)

section \<open>Properties\<close>

text \<open>
  \<open>permutations\<close> lists exactly the rearrangements of its argument, \<open>n!\<close> of them.\<close>

theorem permutations_correct:
  "set (permutations xs) = {ys. mset ys = mset xs} \<and> length (permutations xs) = fact (length xs)"
  using permutations_mset permutations_complete length_permutations by blast

text \<open>
  the three algorithms of \<open>uniquify\<close> agree: if the dictionary lists every key once, the
  result has every element of the sequence exactly once, and whenever the order is to be
  preserved, or an element cannot be hashed, it is the sequence of first occurrences.\<close>

theorem uniquify_correct:
  assumes "\<And>ks. distinct ks \<Longrightarrow> distinct (key_order ks) \<and> set (key_order ks) = set ks"
  shows "distinct (uniquify hashable key_order xs preserve) \<and>
    set (uniquify hashable key_order xs preserve) = set xs \<and>
    (preserve \<or> \<not> list_all hashable xs \<longrightarrow>
       uniquify hashable key_order xs preserve = rev (remdups (rev xs)))"
proof -
  have "distinct (dict_keys (uniq_dict xs))" using pd.ok_keys uniq_dict_ok by blast
  then show ?thesis using assms [of "dict_keys (uniq_dict xs)"]
    by (simp add: uniquify_def uniquify_algorithms first_occurrences_remdups)
qed

theorem uniquify_correct_witness:
  "distinct (uniquify (\<lambda>_. True) rev [3::nat, 1, 3, 2, 1] True) \<and>
    set (uniquify (\<lambda>_. True) rev [3::nat, 1, 3, 2, 1] True) = set [3, 1, 3, 2, 1] \<and>
    uniquify (\<lambda>_. True) rev [3::nat, 1, 3, 2, 1] True = [3, 1, 2]"
  using uniquify_correct [of rev "\<lambda>_. True" "[3::nat, 1, 3, 2, 1]" True]
  by (simp add: list_all_iff insert_commute)

text \<open>
  \<open>is_rotated\<close> answers exactly whether the second sequence is a rotation of the first,
  except that two empty sequences raise \<open>IndexError\<close>.\<close>

theorem is_rotated_correct:
  "is_rotated xs ys =
     (if xs = [] \<and> ys = [] then Inl IndexError else Inr (\<exists>n. ys = rotate n xs))"
proof (cases "ys = []")
  case True
  then have "ys \<noteq> rotate n xs" if "xs \<noteq> []" for n
    using that by (metis rotate_is_Nil_conv)
  then show ?thesis
    using True is_rotated_empty by (cases "xs = []") (simp_all add: is_rotated_def)
qed (simp add: is_rotated_eq)

text \<open>
  \<open>find_common_fixes\<close> returns the longest common prefix and the longest common
  suffix.\<close>

theorem find_common_fixes_correct:
  "case find_common_fixes s1 s2 of (p, q) \<Rightarrow>
     (\<forall>t. prefix t s1 \<and> prefix t s2 \<longleftrightarrow> prefix t p) \<and>
     (\<forall>t. suffix t s1 \<and> suffix t s2 \<longleftrightarrow> suffix t q)"
proof -
  have "prefix t a \<and> prefix t b \<longleftrightarrow> prefix t (longest_common_prefix a b)" for t a b :: "'a list"
    using longest_common_prefix_max_prefix longest_common_prefix_prefix1
      longest_common_prefix_prefix2 prefix_order.trans by metis
  then show ?thesis
    by (simp add: find_common_fixes_eq suffix_to_prefix)
qed

end
