(* ===== verification/Topsort.thy ===== *)
theory Topsort
  imports RadSeq
begin

text \<open>
  The dependency sorting of \<open>src/bindings/python/topsort.py\<close>: \<open>topsort\<close> (one list, the
  worklist grows inside the loop), \<open>topsort_levels\<close> and \<open>topsort_levels_core\<close> (a
  generator of levels) and \<open>find_cycles\<close> (a generator of cycles). Dictionaries list their
  keys in an order given by the parameter \<open>key_order\<close>, which Python 2 leaves open.
\<close>

section \<open>Definitions\<close>

datatype 'a sort_error =
    SortKeyError
  | CycleErrorAnswer "'a list" "('a, int) pydict" "('a, 'a list) pydict"
  | CycleError "('a, int) pydict" "('a, 'a list) pydict"

text \<open>The counting loop shared by \<open>topsort\<close> and \<open>topsort_levels\<close>.\<close>

definition add_pair ::
  "'a \<times> 'a \<Rightarrow> ('a, int) pydict \<times> ('a, 'a list) pydict \<Rightarrow> ('a, int) pydict \<times> ('a, 'a list) pydict" where
  "add_pair pair st =
     (case pair of (parent, child) \<Rightarrow> case st of (num_parents, children) \<Rightarrow>
        let np1 = (if parent \<notin> set (dict_keys num_parents) then dict_put parent 0 num_parents
                   else num_parents);
            np2 = (if child \<notin> set (dict_keys np1) then dict_put child 0 np1 else np1);
            np3 = dict_put child (the (dict_get np2 child) + 1) np2;
            old = (case dict_get children parent of None \<Rightarrow> [] | Some cs \<Rightarrow> cs)
        in (np3, dict_put parent (old @ [child]) children))"

definition count_parents ::
  "('a \<times> 'a) list \<Rightarrow> ('a, int) pydict \<times> ('a, 'a list) pydict" where
  "count_parents pairlist = fold add_pair pairlist ([], [])"

text \<open>\<open>num_parents[child] -= 1\<close>, for one child\<close>

definition decr :: "'a \<Rightarrow> ('a, int) pydict \<Rightarrow> ('a, int) pydict option" where
  "decr child num_parents =
     (case dict_get num_parents child of
        None \<Rightarrow> None | Some n \<Rightarrow> Some (dict_put child (n - 1) num_parents))"

text \<open>The inner loop of \<open>topsort\<close>: the answer grows at its end.\<close>

fun knock :: "'a list \<Rightarrow> 'a list \<Rightarrow> ('a, int) pydict \<Rightarrow> ('a list \<times> ('a, int) pydict) option" where
  "knock [] answer num_parents = Some (answer, num_parents)"
| "knock (child # cs) answer num_parents =
     (case decr child num_parents of
        None \<Rightarrow> None
      | Some np \<Rightarrow>
          knock cs (if dict_get np child = Some 0 then answer @ [child] else answer) np)"

lemma decr_length: "decr c np = Some np' \<Longrightarrow> length np' = length np"
  by (auto simp: decr_def pd.keys_get intro!: length_dict_put_present split: option.splits)

lemma knock_length: "knock cs ans np = Some (ans', np') \<Longrightarrow> length np' = length np"
  by (induction cs ans np rule: knock.induct) (auto simp: decr_length split: option.splits)

text \<open>
  The loop over \<open>answer\<close>: \<open>past\<close> are the elements already visited, \<open>todo\<close> the rest.
  Every round deletes one key of \<open>num_parents\<close>.
\<close>

function topsort_loop ::
  "'a list \<Rightarrow> 'a list \<Rightarrow> ('a, int) pydict \<Rightarrow> ('a, 'a list) pydict \<Rightarrow> 'a sort_error + 'a list" where
  "topsort_loop past [] num_parents children =
     (if num_parents \<noteq> [] then Inl (CycleErrorAnswer past num_parents children) else Inr past)"
| "topsort_loop past (parent # todo) num_parents children =
     (if parent \<notin> set (dict_keys num_parents) then Inl SortKeyError
      else (let np = dict_del parent num_parents
            in case dict_get children parent of
                 None \<Rightarrow> topsort_loop (past @ [parent]) todo np children
               | Some cs \<Rightarrow>
                   (case knock cs todo np of
                      None \<Rightarrow> Inl SortKeyError
                    | Some (todo', np') \<Rightarrow>
                        topsort_loop (past @ [parent]) todo' np' (dict_del parent children))))"
  by pat_completeness auto
termination
  by (relation "measure (\<lambda>(past, todo, np, ch). length np)")
    (auto dest: knock_length simp: length_dict_del_present)

definition topsort ::
  "('a list \<Rightarrow> 'a list) \<Rightarrow> ('a \<times> 'a) list \<Rightarrow> 'a sort_error + 'a list" where
  "topsort key_order pairlist =
     (case count_parents pairlist of (num_parents, children) \<Rightarrow>
        topsort_loop []
          (filter (\<lambda>x. dict_get num_parents x = Some 0) (key_order (dict_keys num_parents)))
          num_parents children)"

text \<open>
  A generator is the list of what it yields and how it ends: \<open>None\<close> for the end of the
  iteration, \<open>Some\<close> for an exception. One level removes its parents one by one.
\<close>

fun decr_all :: "'a list \<Rightarrow> ('a, int) pydict \<Rightarrow> ('a, int) pydict option" where
  "decr_all [] num_parents = Some num_parents"
| "decr_all (c # cs) num_parents =
     (case decr c num_parents of None \<Rightarrow> None | Some np \<Rightarrow> decr_all cs np)"

fun remove_level ::
  "'a list \<Rightarrow> ('a, int) pydict \<Rightarrow> ('a, 'a list) pydict \<Rightarrow> (('a, int) pydict \<times> ('a, 'a list) pydict) option" where
  "remove_level [] num_parents children = Some (num_parents, children)"
| "remove_level (level_parent # ps) num_parents children =
     (if level_parent \<notin> set (dict_keys num_parents) then None
      else (let np = dict_del level_parent num_parents
            in case dict_get children level_parent of
                 None \<Rightarrow> remove_level ps np children
               | Some cs \<Rightarrow>
                   (case decr_all cs np of
                      None \<Rightarrow> None
                    | Some np' \<Rightarrow> remove_level ps np' (dict_del level_parent children))))"

lemma decr_all_length: "decr_all cs np = Some np' \<Longrightarrow> length np' = length np"
  by (induction cs np rule: decr_all.induct) (auto simp: decr_length split: option.splits)

lemma remove_level_length:
  "remove_level ps np ch = Some (np', ch') \<Longrightarrow> length np' + length ps \<le> length np"
proof (induction ps np ch rule: remove_level.induct)
  case (2 p ps np ch)
  let ?np = "dict_del p np"
  from "2.prems" have p: "p \<in> set (dict_keys np)" by (auto split: if_splits)
  have "length np' + length ps \<le> length ?np"
  proof (cases "dict_get ch p")
    case None
    with 2 p show ?thesis by simp
  next
    case (Some cs)
    with "2.prems" p obtain np1 where np1: "decr_all cs ?np = Some np1"
      by (auto split: option.splits)
    then have "length np' + length ps \<le> length np1" using 2 p Some by simp
    then show ?thesis using decr_all_length [OF np1] by simp
  qed
  then show ?case using length_dict_del_present [OF p] by simp
qed auto

function topsort_levels_core ::
  "('a list \<Rightarrow> 'a list) \<Rightarrow> ('a, int) pydict \<Rightarrow> ('a, 'a list) pydict \<Rightarrow> 'a list list \<times> 'a sort_error option" where
  "topsort_levels_core key_order num_parents children =
     (let level_parents =
            filter (\<lambda>x. dict_get num_parents x = Some 0) (key_order (dict_keys num_parents))
      in if level_parents = [] then
           ([], if num_parents \<noteq> [] then Some (CycleError num_parents children) else None)
         else (case remove_level level_parents num_parents children of
                 None \<Rightarrow> ([level_parents], Some SortKeyError)
               | Some (np, ch) \<Rightarrow>
                   (case topsort_levels_core key_order np ch of
                      (levels, end) \<Rightarrow> (level_parents # levels, end))))"
  by pat_completeness auto
termination
  by (relation "measure (\<lambda>(ko, np, ch). length np)")
    (auto dest!: remove_level_length simp: Suc_le_eq neq_Nil_conv)

declare topsort_levels_core.simps [simp del]

definition topsort_levels ::
  "('a list \<Rightarrow> 'a list) \<Rightarrow> ('a \<times> 'a) list \<Rightarrow> 'a list list \<times> 'a sort_error option" where
  "topsort_levels key_order pairlist =
     (case count_parents pairlist of (num_parents, children) \<Rightarrow>
        topsort_levels_core key_order num_parents children)"

section \<open>The counters\<close>

definition elems :: "('a \<times> 'a) list \<Rightarrow> 'a set" where
  "elems ps = fst ` set ps \<union> snd ` set ps"

definition children_of :: "('a \<times> 'a) list \<Rightarrow> 'a \<Rightarrow> 'a list" where
  "children_of ps p = map snd (filter (\<lambda>e. fst e = p) ps)"

text \<open>How many of the pairs with child \<open>x\<close> have a parent outside \<open>D\<close>.\<close>

definition pending :: "('a \<times> 'a) list \<Rightarrow> 'a set \<Rightarrow> 'a \<Rightarrow> nat" where
  "pending ps D x = length (filter (\<lambda>e. snd e = x \<and> fst e \<notin> D) ps)"

definition ready :: "('a \<times> 'a) list \<Rightarrow> 'a set \<Rightarrow> 'a set" where
  "ready ps D = {x \<in> elems ps - D. \<forall>p. (p, x) \<in> set ps \<longrightarrow> p \<in> D}"

lemma pending_zero: "pending ps D x = 0 \<longleftrightarrow> (\<forall>p. (p, x) \<in> set ps \<longrightarrow> p \<in> D)"
  by (auto simp: pending_def filter_empty_conv)

lemma ready_pending: "ready ps D = {x \<in> elems ps - D. pending ps D x = 0}"
  by (simp add: ready_def pending_zero)

lemma pending_insert:
  "p \<notin> D \<Longrightarrow> pending ps D x = pending ps (insert p D) x + count_list (children_of ps p) x"
  by (induction ps) (auto simp: pending_def children_of_def)

lemma set_children_of: "set (children_of ps p) = {c. (p, c) \<in> set ps}"
  by (force simp: children_of_def)

lemma children_of_Nil: "children_of ps p = [] \<longleftrightarrow> p \<notin> fst ` set ps"
  by (force simp: children_of_def filter_empty_conv)

text \<open>The state between two rounds, when the elements of \<open>D\<close> have been output.\<close>

definition counts_inv ::
  "('a \<times> 'a) list \<Rightarrow> 'a set \<Rightarrow> ('a, int) pydict \<Rightarrow> ('a, 'a list) pydict \<Rightarrow> bool" where
  "counts_inv ps D np ch \<longleftrightarrow>
     dict_ok np \<and> dict_ok ch \<and> D \<subseteq> elems ps \<and> set (dict_keys np) = elems ps - D \<and>
     (\<forall>x \<in> elems ps - D. dict_get np x = Some (int (pending ps D x))) \<and>
     (\<forall>p. p \<notin> D \<longrightarrow> dict_get ch p = (if children_of ps p = [] then None else Some (children_of ps p))) \<and>
     (\<forall>x \<in> D. pending ps D x = 0)"

lemma count_parents_inv:
  "case count_parents ps of (np, ch) \<Rightarrow> counts_inv ps {} np ch"
proof (induction ps rule: rev_induct)
  case Nil
  show ?case by (simp add: count_parents_def counts_inv_def elems_def children_of_def)
next
  case (snoc e ps)
  obtain np ch where old: "count_parents ps = (np, ch)" by (cases "count_parents ps")
  obtain p c where e: "e = (p, c)" by (cases e)
  have I: "counts_inv ps {} np ch" using snoc old by simp
  define np1 where "np1 = (if p \<notin> set (dict_keys np) then dict_put p 0 np else np)"
  define np2 where "np2 = (if c \<notin> set (dict_keys np1) then dict_put c 0 np1 else np1)"
  have new: "count_parents (ps @ [e]) =
      (dict_put c (the (dict_get np2 c) + 1) np2, dict_put p (children_of ps p @ [c]) ch)"
    using old I by (auto simp: count_parents_def add_pair_def e np1_def np2_def Let_def
        counts_inv_def split: option.splits)
  have out: "pending ps {} x = 0" if "x \<notin> elems ps" for x
    using that by (force simp: pending_zero elems_def)
  have np2: "dict_get np2 x = (if x \<in> elems ps \<union> {p, c} then Some (int (pending ps {} x)) else None)" for x
  proof -
    have "dict_get np x = (if x \<in> elems ps then Some (int (pending ps {} x)) else None)" for x
      using I pd.keys_get [of x np] by (auto simp: counts_inv_def)
    then show ?thesis
      using I out by (auto simp: np2_def np1_def counts_inv_def dict_simps)
  qed
  have "dict_ok np2" using I by (auto simp: np2_def np1_def counts_inv_def dict_simps)
  moreover have "set (dict_keys np2) = elems ps \<union> {p, c}"
    by (rule set_eqI) (simp only: pd.keys_get np2 split: if_splits, auto)
  moreover have "elems (ps @ [e]) = elems ps \<union> {p, c}" by (auto simp: elems_def e)
  moreover have "pending (ps @ [e]) {} x = pending ps {} x + (if x = c then 1 else 0)" for x
    by (simp add: pending_def e)
  moreover have "children_of (ps @ [e]) x = children_of ps x @ (if x = p then [c] else [])" for x
    by (simp add: children_of_def e)
  ultimately show ?case
    using I unfolding new prod.case counts_inv_def by (auto simp: dict_simps np2)
qed

text \<open>Decrementing the counters of a list of children.\<close>

lemma decr_all_spec:
  "set cs \<subseteq> set (dict_keys np) \<Longrightarrow> \<exists>np'. decr_all cs np = Some np' \<and>
     dict_keys np' = dict_keys np \<and>
     (\<forall>x. dict_get np' x = map_option (\<lambda>n. n - int (count_list cs x)) (dict_get np x))"
proof (induction cs arbitrary: np)
  case Nil
  then show ?case by (simp add: option.map_ident)
next
  case (Cons c cs)
  then obtain n where n: "dict_get np c = Some n" by (auto simp: pd.keys_get)
  let ?np = "dict_put c (n - 1) np"
  have keys: "dict_keys ?np = dict_keys np"
    using Cons.prems by (intro dict_put_present) auto
  then obtain np' where "decr_all cs ?np = Some np'" "dict_keys np' = dict_keys ?np"
    "\<forall>x. dict_get np' x = map_option (\<lambda>n. n - int (count_list cs x)) (dict_get ?np x)"
    using Cons.IH [of ?np] Cons.prems by auto
  then show ?case using n keys by (auto simp: decr_def dict_simps)
qed

lemma decr_all_keys: "decr_all cs np = Some np' \<Longrightarrow> set cs \<subseteq> set (dict_keys np)"
proof (induction cs arbitrary: np)
  case (Cons c cs)
  then obtain n where n: "dict_get np c = Some n" "decr_all cs (dict_put c (n - 1) np) = Some np'"
    by (auto simp: decr_def split: option.splits)
  then have "c \<in> set (dict_keys np)" by (simp add: pd.keys_get)
  with Cons.IH [OF n(2)] show ?case by (simp add: pd.keys_put insert_absorb)
qed simp

lemma knock_spec:
  assumes "decr_all cs np = Some np'" and "\<And>x n. dict_get np' x = Some n \<Longrightarrow> 0 \<le> n"
  shows "\<exists>new. knock cs ans np = Some (ans @ new, np') \<and> distinct new \<and>
    set new = {c \<in> set cs. dict_get np' c = Some 0}"
  using assms(1)
proof (induction cs arbitrary: np ans)
  case Nil
  then show ?case by simp
next
  case (Cons c cs)
  then obtain np1 where np1: "decr c np = Some np1" "decr_all cs np1 = Some np'"
    by (auto split: option.splits)
  then obtain n where n: "dict_get np1 c = Some n"
    by (auto simp: decr_def dict_simps split: option.splits)
  have sub: "set cs \<subseteq> set (dict_keys np1)" using np1(2) by (rule decr_all_keys)
  have get': "dict_get np' x = map_option (\<lambda>n. n - int (count_list cs x)) (dict_get np1 x)" for x
    using decr_all_spec [OF sub] np1(2) by auto
  have le: "int (count_list cs c) \<le> n" using assms(2) [of c] get' [of c] n by simp
  define ans1 where "ans1 = (if n = 0 then ans @ [c] else ans)"
  obtain new where new: "knock cs ans1 np1 = Some (ans1 @ new, np')" "distinct new"
    "set new = {c \<in> set cs. dict_get np' c = Some 0}" using Cons.IH [OF np1(2)] by blast
  have step: "knock (c # cs) ans np = knock cs ans1 np1"
    using np1(1) n by (simp add: ans1_def)
  show ?case
  proof (cases "n = 0")
    case True
    with le have "c \<notin> set cs" by (simp add: count_list_0_iff)
    moreover have "dict_get np' c = Some 0" using get' [of c] n True le by simp
    ultimately show ?thesis
      using step new True by (intro exI [of _ "c # new"]) (auto simp: ans1_def)
  next
    case False
    have "c \<in> set cs" if "dict_get np' c = Some 0"
      using that get' [of c] n False count_notin [of c cs] by (cases "c \<in> set cs") auto
    then show ?thesis using step new False by (intro exI [of _ new]) (auto simp: ans1_def)
  qed
qed

text \<open>One element is taken out: its children's counters go down by its number of edges.\<close>

lemma remove_one:
  assumes I: "counts_inv ps D np ch" and p: "p \<in> ready ps D"
  shows "\<exists>np'. decr_all (children_of ps p) (dict_del p np) = Some np' \<and>
    counts_inv ps (insert p D) np' (dict_del p ch) \<and>
    (children_of ps p = [] \<longrightarrow> np' = dict_del p np \<and> counts_inv ps (insert p D) np' ch)"
proof -
  have pD: "p \<in> elems ps" "p \<notin> D" "pending ps D p = 0" using p by (auto simp: ready_pending)
  let ?cs = "children_of ps p" and ?np = "dict_del p np"
  have keys: "set (dict_keys ?np) = elems ps - insert p D"
    using I by (auto simp: counts_inv_def dict_simps)
  have "c \<notin> insert p D" if "(p, c) \<in> set ps" for c
    using that pD I by (auto simp: counts_inv_def pending_zero)
  then have "set ?cs \<subseteq> set (dict_keys ?np)"
    unfolding keys set_children_of by (force simp: elems_def)
  then obtain np' where np': "decr_all ?cs ?np = Some np'" "dict_keys np' = dict_keys ?np"
    "\<And>x. dict_get np' x = map_option (\<lambda>n. n - int (count_list ?cs x)) (dict_get ?np x)"
    using decr_all_spec by blast
  have ok: "dict_ok np'" using I np'(2) by (auto simp: counts_inv_def dict_ok_def dict_keys_def
      distinct_delete)
  have get: "dict_get np' x = Some (int (pending ps (insert p D) x))" if "x \<in> elems ps - insert p D" for x
    using that I pending_insert [OF pD(2), of ps x] by (simp add: np'(3) dict_simps counts_inv_def)
  have zero: "pending ps (insert p D) x = 0" if "x \<in> insert p D" for x
    using that I pD by (auto simp: counts_inv_def pending_zero)
  have ch: "dict_get ch q = (if children_of ps q = [] then None else Some (children_of ps q))"
    if "q \<notin> D" for q using I that by (simp add: counts_inv_def)
  have "counts_inv ps (insert p D) np' (dict_del p ch)"
    using I ok get zero ch keys np'(2) pD by (auto simp: counts_inv_def dict_simps)
  moreover have "np' = ?np" if "?cs = []" using np'(1) that by simp
  moreover have "counts_inv ps (insert p D) np' ch"
    using I ok get zero ch keys np'(2) pD by (auto simp: counts_inv_def)
  ultimately show ?thesis using np'(1) by blast
qed

lemma counts_inv_end: "counts_inv ps D [] ch \<Longrightarrow> D = elems ps"
  by (auto simp: counts_inv_def)

text \<open>When nothing is ready but elements are left, the pairs contain a cycle.\<close>

lemma stuck_cyclic:
  assumes "counts_inv ps D np ch" and "np \<noteq> []" and "ready ps D = {}"
  shows "\<not> acyclic (set ps)"
proof (rule predecessors_cyclic)
  show "finite (elems ps - D)" by (simp add: elems_def)
  show "elems ps - D \<noteq> {}" using assms(1,2) by (metis counts_inv_def dict_keys_empty_iff set_empty)
  show "\<exists>y \<in> elems ps - D. (y, x) \<in> set ps" if x: "x \<in> elems ps - D" for x
    using x assms(3) by (force simp: ready_def elems_def)
qed

lemma ready_mono: "x \<in> ready ps D \<Longrightarrow> x \<notin> E \<Longrightarrow> D \<subseteq> E \<Longrightarrow> x \<in> ready ps E"
  by (auto simp: ready_def)

section \<open>The sorted list\<close>

definition sorted_so_far :: "('a \<times> 'a) list \<Rightarrow> 'a list \<Rightarrow> bool" where
  "sorted_so_far ps ans \<longleftrightarrow>
     distinct ans \<and> (\<forall>p c. (p, c) \<in> set ps \<longrightarrow> c \<in> set ans \<longrightarrow> before ans p c)"

lemma sorted_so_far_append:
  assumes "sorted_so_far ps ans" and "distinct new" and "set new \<inter> set ans = {}"
    and "\<And>p c. (p, c) \<in> set ps \<Longrightarrow> c \<in> set new \<Longrightarrow> p \<in> set ans"
  shows "sorted_so_far ps (ans @ new)"
  using assms by (auto simp: sorted_so_far_def intro: before_append_I before_split_I)

lemma topsort_loop_spec:
  assumes "counts_inv ps (set past) np ch" and "sorted_so_far ps (past @ todo)"
    and "set todo = ready ps (set past)"
  shows "case topsort_loop past todo np ch of
      Inr ans \<Rightarrow> sorted_so_far ps ans \<and> set ans = elems ps
    | Inl e \<Rightarrow> (\<exists>a n c. e = CycleErrorAnswer a n c) \<and> \<not> acyclic (set ps)"
  using assms
proof (induction past todo np ch rule: topsort_loop.induct)
  case (1 past np ch)
  then show ?case using counts_inv_end [of ps "set past" ch] stuck_cyclic [of ps "set past" np ch] by auto
next
  case (2 past p todo np ch)
  let ?D = "insert p (set past)"
  have p: "p \<in> ready ps (set past)" using "2.prems"(3) by auto
  have key: "p \<in> set (dict_keys np)"
    using p "2.prems"(1) by (auto simp: counts_inv_def ready_def)
  obtain np' where np': "decr_all (children_of ps p) (dict_del p np) = Some np'"
    "counts_inv ps ?D np' (dict_del p ch)"
    "children_of ps p = [] \<longrightarrow> np' = dict_del p np \<and> counts_inv ps ?D np' ch"
    using remove_one [OF "2.prems"(1) p] by blast
  have get: "dict_get np' x = Some n \<longleftrightarrow> x \<in> elems ps - ?D \<and> n = int (pending ps ?D x)" for x n
    using np'(2) pd.keys_get [of x np'] by (auto simp: counts_inv_def)
  obtain new where new: "knock (children_of ps p) todo (dict_del p np) = Some (todo @ new, np')"
    "distinct new" "set new = {c \<in> set (children_of ps p). dict_get np' c = Some 0}"
    using knock_spec [OF np'(1), of todo] get by auto
  have new_set: "set new = {c \<in> ready ps ?D. (p, c) \<in> set ps}"
    using new(3) by (auto simp: get ready_pending set_children_of)
  have dist: "distinct (past @ p # todo)" using "2.prems"(2) by (simp add: sorted_so_far_def)
  have "ready ps ?D = (ready ps (set past) - {p}) \<union> {c \<in> ready ps ?D. (p, c) \<in> set ps}"
    by (auto simp: ready_def)
  then have todo': "set (todo @ new) = ready ps (set (past @ [p]))"
    using "2.prems"(3) dist new_set by auto
  have sorted': "sorted_so_far ps ((past @ [p]) @ todo @ new)"
  proof -
    have "set new \<inter> set (past @ p # todo) = {}"
      using new_set "2.prems"(3) p by (auto simp: ready_def)
    moreover have "q \<in> set (past @ p # todo)" if "(q, c) \<in> set ps" "c \<in> set new" for q c
      using that new_set by (auto simp: ready_def)
    ultimately show ?thesis
      using sorted_so_far_append [OF "2.prems"(2) new(2)] by simp
  qed
  show ?case
  proof (cases "children_of ps p = []")
    case True
    with new(1) have "new = []" by simp
    have "dict_get ch p = None"
      using True p "2.prems"(1) by (auto simp: counts_inv_def ready_def)
    moreover have "counts_inv ps (set (past @ [p])) (dict_del p np) ch" using np'(3) True by auto
    ultimately show ?thesis
      using "2.IH"(1) [of "dict_del p np"] key todo' sorted' \<open>new = []\<close> by simp
  next
    case False
    have "dict_get ch p = Some (children_of ps p)"
      using False p "2.prems"(1) by (auto simp: counts_inv_def ready_def)
    then show ?thesis
      using "2.IH"(2) [of "dict_del p np" "children_of ps p" "(todo @ new, np')" "todo @ new" np']
        key np'(2) new(1) todo' sorted' by simp
  qed
qed

text \<open>What the code relies on of a dictionary's key order: it lists every key once.\<close>

definition lists_keys :: "('a list \<Rightarrow> 'a list) \<Rightarrow> bool" where
  "lists_keys key_order \<longleftrightarrow>
     (\<forall>ks. distinct ks \<longrightarrow> distinct (key_order ks) \<and> set (key_order ks) = set ks)"

lemma key_order_ready:
  assumes "counts_inv ps D np ch" and "lists_keys ko"
  shows "distinct (filter (\<lambda>x. dict_get np x = Some 0) (ko (dict_keys np)))"
    and "set (filter (\<lambda>x. dict_get np x = Some 0) (ko (dict_keys np))) = ready ps D"
proof -
  have "distinct (dict_keys np)" using assms(1) by (simp add: counts_inv_def pd.ok_keys)
  then show "distinct (filter (\<lambda>x. dict_get np x = Some 0) (ko (dict_keys np)))"
    and "set (filter (\<lambda>x. dict_get np x = Some 0) (ko (dict_keys np))) = ready ps D"
    using assms by (auto simp: lists_keys_def counts_inv_def ready_pending)
qed

lemma topsort_spec:
  assumes "lists_keys ko"
  shows "case topsort ko ps of
      Inr ans \<Rightarrow> sorted_so_far ps ans \<and> set ans = elems ps
    | Inl e \<Rightarrow> (\<exists>a n c. e = CycleErrorAnswer a n c) \<and> \<not> acyclic (set ps)"
proof -
  obtain np ch where c: "count_parents ps = (np, ch)" by (cases "count_parents ps")
  then have I: "counts_inv ps (set []) np ch" using count_parents_inv [of ps] by simp
  let ?todo = "filter (\<lambda>x. dict_get np x = Some 0) (ko (dict_keys np))"
  have "sorted_so_far ps ([] @ ?todo)"
    using key_order_ready [OF I assms] by (auto simp: sorted_so_far_def ready_def)
  from topsort_loop_spec [OF I this] key_order_ready [OF I assms] c show ?thesis
    by (simp add: topsort_def)
qed

lemma topsort_acyclic: "sorted_so_far ps ans \<Longrightarrow> set ans = elems ps \<Longrightarrow> acyclic (set ps)"
  by (rule before_acyclic [of ans]) (force simp: sorted_so_far_def elems_def)+

section \<open>The levels\<close>

lemma remove_level_spec:
  assumes "counts_inv ps D np ch" and "distinct level" and "set level \<subseteq> ready ps D"
  shows "\<exists>np' ch'. remove_level level np ch = Some (np', ch') \<and>
    counts_inv ps (D \<union> set level) np' ch'"
  using assms
proof (induction level arbitrary: D np ch)
  case Nil
  then show ?case by simp
next
  case (Cons p level)
  have p: "p \<in> ready ps D" using Cons.prems by simp
  have key: "p \<in> set (dict_keys np)"
    using p Cons.prems(1) by (auto simp: counts_inv_def ready_def)
  have rest: "distinct level" "set level \<subseteq> ready ps (insert p D)"
    using Cons.prems by (auto intro!: ready_mono [of _ ps D "insert p D"] simp: ready_def)
  obtain np1 where np1: "decr_all (children_of ps p) (dict_del p np) = Some np1"
    "counts_inv ps (insert p D) np1 (dict_del p ch)"
    "children_of ps p = [] \<longrightarrow> np1 = dict_del p np \<and> counts_inv ps (insert p D) np1 ch"
    using remove_one [OF Cons.prems(1) p] by blast
  have get: "dict_get ch p = (if children_of ps p = [] then None else Some (children_of ps p))"
    using p Cons.prems(1) by (auto simp: counts_inv_def ready_def)
  have D: "insert p D \<union> set level = D \<union> set (p # level)" by simp
  show ?case
  proof (cases "children_of ps p = []")
    case True
    with np1 have "counts_inv ps (insert p D) (dict_del p np) ch" by auto
    from Cons.IH [OF this rest] True get key show ?thesis by (simp flip: D)
  next
    case False
    with np1 Cons.IH [OF np1(2) rest] get key show ?thesis by (simp flip: D)
  qed
qed

text \<open>Level \<open>i\<close> is what becomes ready once all earlier levels are out.\<close>

definition levels_of :: "('a \<times> 'a) list \<Rightarrow> 'a set \<Rightarrow> 'a list list \<Rightarrow> bool" where
  "levels_of ps D levels \<longleftrightarrow> (\<forall>i < length levels. distinct (levels ! i) \<and> levels ! i \<noteq> [] \<and>
     set (levels ! i) = ready ps (D \<union> \<Union> (set ` set (take i levels))))"

lemma levels_of_Cons:
  "levels_of ps D (l # ls) \<longleftrightarrow>
     distinct l \<and> l \<noteq> [] \<and> set l = ready ps D \<and> levels_of ps (D \<union> set l) ls"
  unfolding levels_of_def length_Cons All_less_Suc2 by (simp add: Un_assoc)

lemma topsort_levels_core_spec:
  assumes "counts_inv ps D np ch" and "lists_keys ko"
    and "topsort_levels_core ko np ch = (levels, end)"
  shows "levels_of ps D levels \<and>
    (case end of
       None \<Rightarrow> D \<union> set (concat levels) = elems ps
     | Some e \<Rightarrow> (\<exists>n c. e = CycleError n c) \<and> \<not> acyclic (set ps))"
  using assms
proof (induction ko np ch arbitrary: D levels "end" rule: topsort_levels_core.induct)
  case (1 ko np ch)
  let ?level = "filter (\<lambda>x. dict_get np x = Some 0) (ko (dict_keys np))"
  note kr = key_order_ready [OF "1.prems"(1,2)]
  show ?case
  proof (cases "?level = []")
    case True
    then have "levels = []" "end = (if np \<noteq> [] then Some (CycleError np ch) else None)"
      using "1.prems"(3) by (simp_all add: topsort_levels_core.simps [of ko np ch])
    moreover have "ready ps D = {}" using kr True by simp
    ultimately show ?thesis
      using "1.prems"(1) stuck_cyclic [OF "1.prems"(1)] counts_inv_end [of ps D ch]
      by (auto simp: levels_of_def)
  next
    case False
    obtain np' ch' where r: "remove_level ?level np ch = Some (np', ch')"
      "counts_inv ps (D \<union> set ?level) np' ch'"
      using remove_level_spec [OF "1.prems"(1) kr(1)] kr(2) by auto
    obtain ls e where rec: "topsort_levels_core ko np' ch' = (ls, e)"
      by (cases "topsort_levels_core ko np' ch'")
    have eq: "levels = ?level # ls" "end = e"
      using "1.prems"(3) False r(1) rec by (simp_all add: topsort_levels_core.simps [of ko np ch])
    have "levels_of ps (D \<union> set ?level) ls \<and> (case e of None \<Rightarrow> (D \<union> set ?level) \<union> set (concat ls) = elems ps
       | Some e \<Rightarrow> (\<exists>n c. e = CycleError n c) \<and> \<not> acyclic (set ps))"
      using False r rec "1.prems"(2) by (intro "1.IH" [OF refl]) auto
    then show ?thesis
      using kr False unfolding eq levels_of_Cons by (auto split: option.splits)
  qed
qed

lemma levels_sorted:
  assumes "levels_of ps D levels"
  shows "distinct (concat levels) \<and> set (concat levels) \<inter> D = {} \<and> set (concat levels) \<subseteq> elems ps \<and>
    (\<forall>p c. (p, c) \<in> set ps \<longrightarrow> c \<in> set (concat levels) \<longrightarrow> p \<in> D \<or> before (concat levels) p c)"
  using assms
proof (induction levels arbitrary: D)
  case (Cons l ls)
  then have l: "distinct l" "set l = ready ps D" "levels_of ps (D \<union> set l) ls"
    unfolding levels_of_Cons by blast+
  note IH = Cons.IH [OF l(3)]
  have "p \<in> D \<or> before (l @ concat ls) p c" if e: "(p, c) \<in> set ps" "c \<in> set l \<union> set (concat ls)" for p c
  proof (cases "c \<in> set l")
    case True
    then show ?thesis using e(1) l(2) by (auto simp: ready_def)
  next
    case False
    then have "c \<in> set (concat ls)" using e(2) by auto
    then have "p \<in> D \<or> p \<in> set l \<or> before (concat ls) p c" using IH e(1) by blast
    moreover have "before (concat ls) p c \<Longrightarrow> before (l @ concat ls) p c"
      unfolding before_def by (metis append.assoc)
    ultimately show ?thesis
      using before_split_I [of p l c "concat ls"] \<open>c \<in> set (concat ls)\<close> by blast
  qed
  then show ?case using IH l by (auto simp: ready_def)
qed simp

lemma topsort_levels_spec:
  assumes "lists_keys ko" and "topsort_levels ko ps = (levels, end)"
  shows "levels_of ps {} levels \<and>
    (case end of
       None \<Rightarrow> set (concat levels) = elems ps
     | Some e \<Rightarrow> (\<exists>n c. e = CycleError n c) \<and> \<not> acyclic (set ps))"
proof -
  obtain np ch where c: "count_parents ps = (np, ch)" by (cases "count_parents ps")
  then have "counts_inv ps {} np ch" using count_parents_inv [of ps] by simp
  from topsort_levels_core_spec [OF this assms(1), of levels "end"] assms(2) c show ?thesis
    by (simp only: topsort_levels_def prod.case Un_empty_left)
qed

lemma levels_all_acyclic:
  assumes "levels_of ps {} levels" and "set (concat levels) = elems ps"
  shows "acyclic (set ps)"
  by (rule topsort_acyclic [of ps "concat levels"])
    (use levels_sorted [OF assms(1)] assms(2) in \<open>auto simp: sorted_so_far_def\<close>)

section \<open>Properties\<close>

text \<open>C11: if \<open>topsort\<close> returns a list, the list holds every element of the pairs exactly once,
  and the parent of every pair stands before its child.\<close>

theorem topsort_sorted:
  assumes "lists_keys ko" and "topsort ko ps = Inr ans"
  shows "distinct ans \<and> set ans = elems ps \<and> list_all (\<lambda>(p, c). before ans p c) ps"
proof -
  have "sorted_so_far ps ans" "set ans = elems ps"
    using topsort_spec [OF assms(1), of ps] assms(2) by auto
  then show ?thesis by (force simp: sorted_so_far_def elems_def list_all_iff)
qed

theorem topsort_sorted_witness:
  "distinct [1::nat, 2, 3, 4] \<and> set [1::nat, 2, 3, 4] = elems [(1, 2), (1, 3), (2, 4), (3, 4)] \<and>
   list_all (\<lambda>(p, c). before [1, 2, 3, 4] p c) [(1::nat, 2), (1, 3), (2, 4), (3, 4)]"
proof (rule topsort_sorted [of "\<lambda>ks. ks"])
  show "topsort (\<lambda>ks. ks) [(1::nat, 2), (1, 3), (2, 4), (3, 4)] = Inr [1, 2, 3, 4]" by code_simp
qed (simp add: lists_keys_def)

text \<open>C12: \<open>topsort\<close> fails exactly on the pair lists that contain a cycle, always with
  \<open>CycleError\<close> and never with the \<open>KeyError\<close> of its dictionary accesses.\<close>

theorem topsort_cycle_error:
  assumes "lists_keys ko"
  shows "if acyclic (set ps) then \<exists>ans. topsort ko ps = Inr ans
         else \<exists>a n c. topsort ko ps = Inl (CycleErrorAnswer a n c)"
proof (cases "topsort ko ps")
  case (Inl e)
  then show ?thesis using topsort_spec [OF assms, of ps] by auto
next
  case (Inr ans)
  then have "acyclic (set ps)" using topsort_spec [OF assms, of ps] topsort_acyclic by auto
  with Inr show ?thesis by simp
qed

theorem topsort_cycle_error_witness:
  "if acyclic (set [(1::nat, 2), (2, 1), (2, 3)])
   then \<exists>ans. topsort rev [(1::nat, 2), (2, 1), (2, 3)] = Inr ans
   else \<exists>a n c. topsort rev [(1::nat, 2), (2, 1), (2, 3)] = Inl (CycleErrorAnswer a n c)"
  by (rule topsort_cycle_error) (simp add: lists_keys_def)

text \<open>C13: \<open>topsort_levels\<close> ends normally exactly on acyclic input, and otherwise with
  \<open>CycleError\<close>; the levels it yields, in either case, are nonempty, without repetition, and
  level \<open>i\<close> is the set of the elements not in an earlier level all of whose parents are in
  earlier levels; on normal end they hold every element.\<close>

theorem topsort_levels_correct:
  assumes "lists_keys ko" and "topsort_levels ko ps = (levels, end)"
  shows "levels_of ps {} levels \<and> distinct (concat levels) \<and>
    (if acyclic (set ps) then end = None \<and> set (concat levels) = elems ps
     else \<exists>n c. end = Some (CycleError n c))"
  using topsort_levels_spec [OF assms] levels_sorted [of ps "{}" levels]
    levels_all_acyclic [of ps levels]
  by (cases "end") auto

theorem topsort_levels_correct_witness:
  "levels_of [(1::nat, 2), (1, 3), (2, 4), (3, 4)] {} [[1], [2, 3], [4]] \<and>
   distinct (concat [[1::nat], [2, 3], [4]]) \<and>
   (if acyclic (set [(1::nat, 2), (1, 3), (2, 4), (3, 4)])
    then None = (None :: nat sort_error option) \<and>
      set (concat [[1::nat], [2, 3], [4]]) = elems [(1, 2), (1, 3), (2, 4), (3, 4)]
    else \<exists>n c. None = Some (CycleError n c :: nat sort_error))"
proof (rule topsort_levels_correct [of "\<lambda>ks. ks"])
  show "topsort_levels (\<lambda>ks. ks) [(1::nat, 2), (1, 3), (2, 4), (3, 4)] = ([[1], [2, 3], [4]], None)"
    by code_simp
qed (simp add: lists_keys_def)

end
