(* ===== verification/FindCycles.thy ===== *)
theory FindCycles
  imports RadSeq
begin

text \<open>
  The generator \<open>find_cycles\<close> of \<open>src/bindings/python/topsort.py\<close>: a depth-first search
  over paths with an explicit stack. The input dictionary is an association list in its
  iteration order; the cycles yielded are the list \<open>cycles\<close> the code itself keeps. The
  lemmas show that no exception is raised, and that the result holds every simple cycle
  of the graph once up to rotation, and nothing else.
\<close>

section \<open>Definitions\<close>

text \<open>The search for a duplicate, with the early exit.\<close>

fun dup_of :: "'a list list \<Rightarrow> 'a list \<Rightarrow> bool result" where
  "dup_of [] cycle = Inr False"
| "dup_of (other_cycle # rest) cycle =
     rbind (is_rotated other_cycle cycle) (\<lambda>r. if r then Inr True else dup_of rest cycle)"

text \<open>
  The loop over the children of the last node of \<open>path\<close>. The head of \<open>paths\<close> is the top
  of the stack, the end of the Python list.
\<close>

fun scan_children ::
  "'a list \<Rightarrow> 'a list \<Rightarrow> 'a list list \<times> 'a list list \<times> 'a set \<Rightarrow>
   ('a list list \<times> 'a list list \<times> 'a set) result" where
  "scan_children path [] st = Inr st"
| "scan_children path (child # children) (paths, cycles, visited_nodes) =
     (if child \<in> set path then
        (let cycle = dropWhile (\<lambda>x. x \<noteq> child) path
         in rbind (dup_of cycles cycle) (\<lambda>is_dup.
              scan_children path children
                (paths, if is_dup then cycles else cycles @ [cycle], visited_nodes)))
      else
        scan_children path children
          ((path @ [child]) # paths, cycles, insert child visited_nodes))"

text \<open>What is pushed extends the path by a child that is not on it.\<close>

lemma scan_children_paths:
  "scan_children path cs (paths, cycles, vis) = Inr (paths', cycles', vis') \<Longrightarrow>
   paths' = rev (map (\<lambda>c. path @ [c]) (filter (\<lambda>c. c \<notin> set path) cs)) @ paths"
proof (induction cs arbitrary: paths cycles vis)
  case (Cons c cs)
  then show ?case by (auto simp: rbind_Inr_iff Let_def split: if_splits)
qed simp

definition unseen :: "('a, 'a list) pydict \<Rightarrow> 'a list \<Rightarrow> nat" where
  "unseen d path = card (set (concat (map snd d)) - set path)"

lemma unseen_less:
  assumes "dict_get d x = Some cs" and "c \<in> set cs" and "c \<notin> set path"
  shows "unseen d (path @ [c]) < unseen d path"
proof -
  have "(x, cs) \<in> set d" using assms(1) by (rule map_of_SomeD)
  then have "c \<in> set (concat (map snd d))" using assms(2) by force
  then show ?thesis unfolding unseen_def using assms(3) by (intro psubset_card_mono) auto
qed

function path_loop ::
  "('a, 'a list) pydict \<Rightarrow> 'a list list \<times> 'a list list \<times> 'a set \<Rightarrow>
   ('a list list \<times> 'a set) result" where
  "path_loop parent_children ([], cycles, visited_nodes) = Inr (cycles, visited_nodes)"
| "path_loop parent_children (path # paths, cycles, visited_nodes) =
     (case py_index path (-1) of
        Inl e \<Rightarrow> Inl e
      | Inr parent \<Rightarrow>
          (case dict_get parent_children parent of
             None \<Rightarrow> path_loop parent_children (paths, cycles, visited_nodes)
           | Some children \<Rightarrow>
               (case scan_children path children (paths, cycles, visited_nodes) of
                  Inl e \<Rightarrow> Inl e
                | Inr st \<Rightarrow> path_loop parent_children st)))"
  by pat_completeness auto
termination
proof (relation "inv_image (mult less_than)
    (\<lambda>(d, paths, cycles, vis). mset (map (unseen d) paths))", goal_cases)
  case 1
  then show ?case by (simp add: wf_mult)
next
  case (2 d path paths cycles vis parent)
  have "(mset (map (unseen d) paths), add_mset (unseen d path) (mset (map (unseen d) paths)))
      \<in> mult less_than"
    using one_step_implies_mult [of "{#unseen d path#}" "{#}" less_than "mset (map (unseen d) paths)"]
    by simp
  then show ?case by simp
next
  case (3 d path paths cycles vis parent children st)
  obtain paths' cycles' vis' where st: "st = (paths', cycles', vis')" by (cases st)
  let ?new = "mset (map (unseen d) (rev (map (\<lambda>c. path @ [c]) (filter (\<lambda>c. c \<notin> set path) children))))"
  have paths': "paths' = rev (map (\<lambda>c. path @ [c]) (filter (\<lambda>c. c \<notin> set path) children)) @ paths"
    using scan_children_paths 3(3) st by metis
  have "(mset (map (unseen d) paths) + ?new, mset (map (unseen d) paths) + {#unseen d path#})
      \<in> mult less_than"
    using unseen_less [OF 3(2)] by (intro one_step_implies_mult) auto
  then show ?case by (simp add: st paths' add.commute)
qed

fun cycles_loop ::
  "('a, 'a list) pydict \<Rightarrow> 'a list \<Rightarrow> 'a list list \<Rightarrow> 'a set \<Rightarrow> 'a list list result" where
  "cycles_loop parent_children [] cycles visited_nodes = Inr cycles"
| "cycles_loop parent_children (parent # parents) cycles visited_nodes =
     (if parent \<in> visited_nodes then cycles_loop parent_children parents cycles visited_nodes
      else rbind (path_loop parent_children ([[parent]], cycles, visited_nodes))
             (\<lambda>(cycles', visited'). cycles_loop parent_children parents cycles' visited'))"

definition find_cycles :: "('a, 'a list) pydict \<Rightarrow> 'a list list result" where
  "find_cycles parent_children = cycles_loop parent_children (dict_keys parent_children) [] {}"

section \<open>Paths and cycles of the graph\<close>

definition edge :: "('a, 'a list) pydict \<Rightarrow> 'a \<Rightarrow> 'a \<Rightarrow> bool" where
  "edge d x y \<longleftrightarrow> (case dict_get d x of None \<Rightarrow> False | Some cs \<Rightarrow> y \<in> set cs)"

definition simple_path :: "('a, 'a list) pydict \<Rightarrow> 'a list \<Rightarrow> bool" where
  "simple_path d p \<longleftrightarrow> p \<noteq> [] \<and> distinct p \<and> successively (edge d) p"

definition simple_cycle :: "('a, 'a list) pydict \<Rightarrow> 'a list \<Rightarrow> bool" where
  "simple_cycle d c \<longleftrightarrow> simple_path d c \<and> edge d (last c) (hd c)"

definition rotation :: "'a list \<Rightarrow> 'a list \<Rightarrow> bool" where
  "rotation xs ys \<longleftrightarrow> (\<exists>n. ys = rotate n xs)"

lemma rotation_refl [simp]: "rotation xs xs"
  unfolding rotation_def by (rule exI [of _ 0]) simp

lemma rotation_trans: "rotation xs ys \<Longrightarrow> rotation ys zs \<Longrightarrow> rotation xs zs"
  unfolding rotation_def by (metis rotate_rotate)

lemma rotation_sym: "rotation xs ys \<Longrightarrow> rotation ys xs"
proof -
  assume "rotation xs ys"
  then obtain n where ys: "ys = rotate n xs" by (auto simp: rotation_def)
  have "rotate (length xs - n mod length xs) (rotate (n mod length xs) xs) = xs"
  proof (cases "xs = []")
    case False
    then have "n mod length xs < length xs" by simp
    then show ?thesis by (simp add: rotate_rotate)
  qed simp
  then show ?thesis using ys rotate_conv_mod [of n xs] by (metis rotation_def)
qed

lemma is_rotated_rotation: "c \<noteq> [] \<Longrightarrow> is_rotated c' c = Inr (rotation c' c)"
  by (simp add: is_rotated_eq rotation_def)

lemma dup_of_eq: "c \<noteq> [] \<Longrightarrow> dup_of cs c = Inr (\<exists>c' \<in> set cs. rotation c' c)"
  by (induction cs) (auto simp: is_rotated_rotation)

lemma simple_cycle_rotate1: "simple_cycle d c \<Longrightarrow> simple_cycle d (rotate1 c)"
  by (cases c) (auto simp: simple_cycle_def simple_path_def successively_append_iff
      successively_Cons split: if_splits)

lemma simple_cycle_rotation: "simple_cycle d c \<Longrightarrow> rotation c c' \<Longrightarrow> simple_cycle d c'"
proof -
  assume "simple_cycle d c"
  then have "simple_cycle d (rotate n c)" for n
    by (induction n) (auto simp: simple_cycle_rotate1)
  then show "rotation c c' \<Longrightarrow> simple_cycle d c'" by (auto simp: rotation_def)
qed

text \<open>A cycle rotated to start at one of its nodes.\<close>

lemma rotate_to:
  assumes "x \<in> set c"
  obtains c' where "rotation c (x # c')"
proof -
  obtain as bs where "c = as @ x # bs" using split_list [OF assms] by blast
  then have "rotate (length as) c = x # bs @ as" by (simp add: rotate_append)
  then show ?thesis using that by (metis rotation_def)
qed

lemma edge_children: "dict_get d x = Some cs \<Longrightarrow> edge d x y \<longleftrightarrow> y \<in> set cs"
  by (simp add: edge_def)

lemma simple_path_snoc:
  "p \<noteq> [] \<Longrightarrow> simple_path d (p @ [c]) \<longleftrightarrow> simple_path d p \<and> c \<notin> set p \<and> edge d (last p) c"
  by (auto simp: simple_path_def successively_append_iff)

text \<open>Closing a path at one of its nodes gives a cycle.\<close>

lemma closed_cycle:
  assumes "simple_path d p" and "c \<in> set p" and "edge d (last p) c"
  shows "simple_cycle d (dropWhile (\<lambda>x. x \<noteq> c) p)"
proof -
  obtain as bs where p: "p = as @ c # bs" "c \<notin> set as" using split_list_first [OF assms(2)] by blast
  then have "dropWhile (\<lambda>x. x \<noteq> c) p = c # bs"
    by (metis (mono_tags, lifting) dropWhile_append2 dropWhile.simps(2))
  then show ?thesis using assms p
    by (auto simp: simple_cycle_def simple_path_def successively_append_iff)
qed

section \<open>The search\<close>

definition good_cycles :: "('a, 'a list) pydict \<Rightarrow> 'a list list \<Rightarrow> bool" where
  "good_cycles d cycles \<longleftrightarrow>
     (\<forall>c \<in> set cycles. simple_cycle d c) \<and> sorted_wrt (\<lambda>c c'. \<not> rotation c c') cycles"

definition found :: "'a list list \<Rightarrow> 'a list \<Rightarrow> bool" where
  "found cycles c \<longleftrightarrow> (\<exists>c' \<in> set cycles. rotation c' c)"

lemma found_mono: "found cycles c \<Longrightarrow> set cycles \<subseteq> set cycles' \<Longrightarrow> found cycles' c"
  by (auto simp: found_def)

lemma scan_children_spec:
  assumes "simple_path d path" and "\<forall>c \<in> set cs. edge d (last path) c" and "good_cycles d cycles"
  shows "\<exists>cycles' vis'.
    scan_children path cs (paths, cycles, vis) =
      Inr (rev (map (\<lambda>c. path @ [c]) (filter (\<lambda>c. c \<notin> set path) cs)) @ paths, cycles', vis') \<and>
    good_cycles d cycles' \<and> set cycles \<subseteq> set cycles' \<and> vis' = vis \<union> (set cs - set path) \<and>
    (\<forall>c \<in> set cs \<inter> set path. found cycles' (dropWhile (\<lambda>x. x \<noteq> c) path))"
  using assms
proof (induction cs arbitrary: paths cycles vis)
  case Nil
  then show ?case by simp
next
  case (Cons c cs)
  show ?case
  proof (cases "c \<in> set path")
    case True
    let ?cycle = "dropWhile (\<lambda>x. x \<noteq> c) path"
    have cyc: "simple_cycle d ?cycle" using Cons.prems True by (intro closed_cycle) auto
    then have ne: "?cycle \<noteq> []" by (simp only: simple_cycle_def simple_path_def) blast
    define cycles1 where "cycles1 = (if found cycles ?cycle then cycles else cycles @ [?cycle])"
    have good: "good_cycles d cycles1"
      using Cons.prems(3) cyc
      by (auto simp: cycles1_def good_cycles_def found_def sorted_wrt_append)
    have step: "scan_children path (c # cs) (paths, cycles, vis) = scan_children path cs (paths, cycles1, vis)"
      using True ne by (simp add: dup_of_eq cycles1_def found_def Let_def)
    have sub: "set cycles \<subseteq> set cycles1" "found cycles1 ?cycle"
      by (auto simp: cycles1_def found_def)
    obtain cycles' vis' where r: "scan_children path cs (paths, cycles1, vis) =
        Inr (rev (map (\<lambda>c. path @ [c]) (filter (\<lambda>c. c \<notin> set path) cs)) @ paths, cycles', vis')"
      "good_cycles d cycles'" "set cycles1 \<subseteq> set cycles'" "vis' = vis \<union> (set cs - set path)"
      "\<forall>c \<in> set cs \<inter> set path. found cycles' (dropWhile (\<lambda>x. x \<noteq> c) path)"
      using Cons.IH [of cycles1 paths vis] Cons.prems good by auto
    show ?thesis using r step sub True found_mono [OF sub(2) r(3)]
      by (intro exI [of _ cycles'] exI [of _ vis']) auto
  next
    case False
    then have "scan_children path (c # cs) (paths, cycles, vis) =
        scan_children path cs ((path @ [c]) # paths, cycles, insert c vis)" by simp
    with Cons.IH [of cycles "(path @ [c]) # paths" "insert c vis"] Cons.prems False
    show ?thesis by auto
  qed
qed

text \<open>All closed extensions of the paths on the stack are found.\<close>

definition closed_ext :: "('a, 'a list) pydict \<Rightarrow> 'a list \<Rightarrow> 'a list \<Rightarrow> 'a \<Rightarrow> bool" where
  "closed_ext d p r c \<longleftrightarrow>
     simple_path d (p @ r) \<and> c \<in> set (p @ r) \<and> edge d (last (p @ r)) c"

definition covers :: "('a, 'a list) pydict \<Rightarrow> 'a list list \<Rightarrow> 'a list list \<Rightarrow> bool" where
  "covers d cycles paths \<longleftrightarrow> (\<forall>p \<in> set paths. \<forall>r c.
     closed_ext d p r c \<longrightarrow> found cycles (dropWhile (\<lambda>x. x \<noteq> c) (p @ r)))"

lemma covers_pop:
  assumes "p \<noteq> []" and cs: "\<forall>c. edge d (last p) c \<longleftrightarrow> c \<in> set cs"
    and here: "\<forall>c \<in> set cs \<inter> set p. found cycles (dropWhile (\<lambda>x. x \<noteq> c) p)"
    and rest: "covers d cycles (rev (map (\<lambda>c. p @ [c]) (filter (\<lambda>c. c \<notin> set p) cs)) @ paths)"
  shows "covers d cycles (p # paths)"
proof -
  have "found cycles (dropWhile (\<lambda>x. x \<noteq> c) (p @ r))" if ext: "closed_ext d p r c" for r c
  proof (cases r)
    case Nil
    with ext here cs show ?thesis by (auto simp: closed_ext_def)
  next
    case (Cons x r')
    then have "simple_path d (p @ [x])" using ext assms(1)
      by (auto simp: closed_ext_def simple_path_def successively_append_iff)
    then have "p @ [x] \<in> set (map (\<lambda>c. p @ [c]) (filter (\<lambda>c. c \<notin> set p) cs))"
      using assms(1) cs by (simp add: simple_path_snoc)
    moreover have "closed_ext d (p @ [x]) r' c" using ext Cons by (simp add: closed_ext_def)
    ultimately show ?thesis using rest Cons unfolding covers_def by fastforce
  qed
  then show ?thesis using rest by (auto simp: covers_def)
qed

lemma path_loop_spec:
  assumes "\<forall>p \<in> set paths. simple_path d p" and "good_cycles d cycles"
  shows "\<exists>cycles' vis'. path_loop d (paths, cycles, vis) = Inr (cycles', vis') \<and>
    good_cycles d cycles' \<and> set cycles \<subseteq> set cycles' \<and>
    (\<forall>x \<in> vis' - vis. \<exists>p \<in> set paths. (edge d)\<^sup>*\<^sup>* (last p) x) \<and>
    covers d cycles' paths"
  using assms
proof (induction d "(paths, cycles, vis)" arbitrary: paths cycles vis rule: path_loop.induct)
  case 1
  then show ?case by (simp add: covers_def)
next
  case (2 d p paths cycles vis)
  have p: "simple_path d p" "p \<noteq> []" using "2.prems" by (auto simp: simple_path_def)
  note idx = py_index_last [OF p(2)]
  show ?case
  proof (cases "dict_get d (last p)")
    case None
    then have no: "\<not> edge d (last p) c" for c by (simp add: edge_def)
    have "covers d cycles' paths \<Longrightarrow> covers d cycles' (p # paths)" for cycles'
      using p(2) no by (intro covers_pop [of p d "[]"]) auto
    with "2.hyps"(1) [OF idx None] "2.prems" idx None show ?thesis by fastforce
  next
    case (Some cs)
    note ed = edge_children [OF Some]
    let ?push = "rev (map (\<lambda>c. p @ [c]) (filter (\<lambda>c. c \<notin> set p) cs))"
    obtain cycles1 vis1 where s: "scan_children p cs (paths, cycles, vis) =
        Inr (?push @ paths, cycles1, vis1)" "good_cycles d cycles1" "set cycles \<subseteq> set cycles1"
      "vis1 = vis \<union> (set cs - set p)"
      "\<forall>c \<in> set cs \<inter> set p. found cycles1 (dropWhile (\<lambda>x. x \<noteq> c) p)"
      using scan_children_spec [OF p(1), of cs cycles paths vis] "2.prems"(2) ed by auto
    have "\<forall>q \<in> set (?push @ paths). simple_path d q"
      using "2.prems"(1) p ed by (auto simp: simple_path_snoc)
    then obtain cycles' vis' where r: "path_loop d (?push @ paths, cycles1, vis1) = Inr (cycles', vis')"
      "good_cycles d cycles'" "set cycles1 \<subseteq> set cycles'"
      "\<forall>x \<in> vis' - vis1. \<exists>q \<in> set (?push @ paths). (edge d)\<^sup>*\<^sup>* (last q) x"
      "covers d cycles' (?push @ paths)"
      using "2.hyps"(2) [OF idx Some s(1) _ s(2)] by blast
    have "covers d cycles' (p # paths)"
      using r(3,5) s(5) p(2) ed by (intro covers_pop [of p d cs]) (auto intro: found_mono)
    moreover have "\<exists>q \<in> set (p # paths). (edge d)\<^sup>*\<^sup>* (last q) x" if x: "x \<in> vis' - vis" for x
    proof (cases "x \<in> vis1")
      case True
      then have "edge d (last p) x" using x s(4) ed by auto
      then show ?thesis by auto
    next
      case False
      then obtain q where q: "q \<in> set (?push @ paths)" "(edge d)\<^sup>*\<^sup>* (last q) x" using x r(4) by blast
      then show ?thesis using ed by (auto intro: converse_rtranclp_into_rtranclp)
    qed
    ultimately show ?thesis using r s idx Some by auto
  qed
qed

section \<open>Completeness\<close>

text \<open>From a node that reaches a cycle there is a simple path that first meets it at its end.\<close>

lemma reach_cycle:
  assumes "(edge d)\<^sup>*\<^sup>* p x" and "x \<in> C"
  shows "\<exists>q. simple_path d q \<and> hd q = p \<and> last q \<in> C \<and> set (butlast q) \<inter> C = {}"
  using assms
proof (induction rule: converse_rtranclp_induct)
  case base
  then show ?case by (intro exI [of _ "[x]"]) (simp add: simple_path_def)
next
  case (step p p')
  then obtain q where q: "simple_path d q" "hd q = p'" "last q \<in> C" "set (butlast q) \<inter> C = {}"
    by blast
  have ne: "q \<noteq> []" using q(1) by (simp add: simple_path_def)
  consider "p \<in> C" | "p \<notin> C" "p \<in> set q" | "p \<notin> C" "p \<notin> set q" by blast
  then show ?case
  proof cases
    case 1
    then show ?thesis by (intro exI [of _ "[p]"]) (simp add: simple_path_def)
  next
    case 2
    then obtain as bs where s: "q = as @ p # bs" by (meson split_list)
    then show ?thesis using q
      by (intro exI [of _ "p # bs"]) (auto simp: simple_path_def successively_append_iff butlast_append)
  next
    case 3
    then show ?thesis using q step.hyps(1) ne
      by (intro exI [of _ "p # q"]) (cases q; auto simp: simple_path_def)
  qed
qed

text \<open>A cycle reachable from \<open>p\<close> closes an extension of the path \<open>[p]\<close>, up to rotation.\<close>

lemma cycle_found_from:
  assumes cov: "covers d cycles [[p]]" and cyc: "simple_cycle d C"
    and reach: "(edge d)\<^sup>*\<^sup>* p x" "x \<in> set C"
  shows "found cycles C"
proof -
  obtain q where q: "simple_path d q" "hd q = p" "last q \<in> set C" "set (butlast q) \<inter> set C = {}"
    using reach_cycle [OF reach] by blast
  define z where "z = last q"
  obtain C' where rot: "rotation C (z # C')" using rotate_to q(3) z_def by metis
  then have cyc': "simple_cycle d (z # C')" using cyc simple_cycle_rotation by blast
  have setC: "set (z # C') = set C" using rot by (metis rotation_def set_rotate)
  have qz: "q = butlast q @ [z]" using q(1) by (simp add: z_def simple_path_def)
  let ?full = "butlast q @ z # C'"
  have sp: "simple_path d ?full"
  proof -
    have "simple_path d (butlast q @ [z])" using q(1) qz by metis
    then show ?thesis using q(4) cyc' setC
      by (auto simp: simple_path_def simple_cycle_def successively_append_iff)
  qed
  obtain r where r: "?full = p # r"
    using q(2) qz by (metis append_Cons append_Nil hd_append2 hd_Cons_tl list.sel(1) append_is_Nil_conv list.distinct(1))
  have "closed_ext d [p] r z"
    using sp cyc' r [symmetric] by (simp add: closed_ext_def simple_cycle_def)
  then have "found cycles (dropWhile (\<lambda>x. x \<noteq> z) ?full)"
    using cov r by (simp add: covers_def)
  moreover have "z \<notin> set (butlast q)" using q(4) setC by auto
  then have "dropWhile (\<lambda>x. x \<noteq> z) ?full = z # C'"
    by (metis (mono_tags, lifting) dropWhile_append2 dropWhile.simps(2))
  ultimately have "found cycles (z # C')" by simp
  then show ?thesis using rotation_trans rotation_sym [OF rot] by (auto simp: found_def)
qed

definition all_through :: "('a, 'a list) pydict \<Rightarrow> 'a list list \<Rightarrow> 'a set \<Rightarrow> bool" where
  "all_through d cycles A \<longleftrightarrow> (\<forall>C. simple_cycle d C \<longrightarrow> set C \<inter> A \<noteq> {} \<longrightarrow> found cycles C)"

lemma cycles_loop_spec:
  assumes "good_cycles d cycles" and "all_through d cycles (vis \<union> done_keys)"
  shows "\<exists>cycles'. cycles_loop d ks cycles vis = Inr cycles' \<and> good_cycles d cycles' \<and>
    all_through d cycles' (done_keys \<union> set ks)"
  using assms
proof (induction ks arbitrary: cycles vis done_keys)
  case Nil
  then show ?case by (auto simp: all_through_def)
next
  case (Cons k ks)
  show ?case
  proof (cases "k \<in> vis")
    case True
    then show ?thesis
      using Cons.IH [of cycles vis "insert k done_keys"] Cons.prems by (simp add: insert_absorb)
  next
    case False
    obtain cycles1 vis1 where r: "path_loop d ([[k]], cycles, vis) = Inr (cycles1, vis1)"
      "good_cycles d cycles1" "set cycles \<subseteq> set cycles1"
      "\<forall>x \<in> vis1 - vis. (edge d)\<^sup>*\<^sup>* k x" "covers d cycles1 [[k]]"
      using path_loop_spec [of "[[k]]" d cycles vis] Cons.prems(1) by (auto simp: simple_path_def)
    have "all_through d cycles1 (vis1 \<union> insert k done_keys)"
      unfolding all_through_def
    proof (intro allI impI)
      fix C assume C: "simple_cycle d C" "set C \<inter> (vis1 \<union> insert k done_keys) \<noteq> {}"
      then obtain x where x: "x \<in> set C" "x \<in> vis1 \<union> insert k done_keys" by blast
      show "found cycles1 C"
      proof (cases "x \<in> vis \<union> done_keys")
        case True
        then have "found cycles C" using Cons.prems(2) C(1) x(1) by (auto simp: all_through_def)
        then show ?thesis using r(3) by (rule found_mono)
      next
        case False
        then have "(edge d)\<^sup>*\<^sup>* k x" using x(2) r(4) by auto
        then show ?thesis using r(5) C(1) x(1) cycle_found_from by metis
      qed
    qed
    then show ?thesis using Cons.IH [of cycles1 vis1 "insert k done_keys"] r False by simp
  qed
qed

text \<open>Every node of a cycle has children, so it is a key.\<close>

lemma cycle_keys: "simple_cycle d C \<Longrightarrow> set C \<inter> set (dict_keys d) \<noteq> {}"
proof -
  assume C: "simple_cycle d C"
  then have "edge d (last C) (hd C)" "C \<noteq> []" by (auto simp: simple_cycle_def simple_path_def)
  then have "last C \<in> set C \<inter> set (dict_keys d)"
    by (auto simp: edge_def pd.keys_get split: option.splits)
  then show ?thesis by blast
qed

lemma find_cycles_spec:
  "\<exists>cycles. find_cycles d = Inr cycles \<and> good_cycles d cycles \<and>
     (\<forall>C. simple_cycle d C \<longrightarrow> found cycles C)"
proof -
  have "good_cycles d []" "all_through d [] ({} \<union> {})"
    by (simp_all add: good_cycles_def all_through_def)
  from cycles_loop_spec [OF this, of "dict_keys d"] obtain cycles where
    "find_cycles d = Inr cycles" "good_cycles d cycles" "all_through d cycles (set (dict_keys d))"
    by (auto simp: find_cycles_def)
  then show ?thesis using cycle_keys unfolding all_through_def by blast
qed

section \<open>Properties\<close>

text \<open>C14: \<open>find_cycles\<close> raises nothing, and the list it yields holds every simple cycle of the
  graph exactly once up to rotation: each result is a simple cycle, and each simple cycle is a
  rotation of exactly one result.\<close>

theorem find_cycles_correct:
  "\<exists>cycles. find_cycles d = Inr cycles \<and> list_all (simple_cycle d) cycles \<and>
     (\<forall>c. simple_cycle d c = (\<exists>!i. i < length cycles \<and> rotation (cycles ! i) c))"
proof -
  obtain cycles where cs: "find_cycles d = Inr cycles" "good_cycles d cycles"
    "\<forall>C. simple_cycle d C \<longrightarrow> found cycles C" using find_cycles_spec by blast
  have "simple_cycle d c = (\<exists>!i. i < length cycles \<and> rotation (cycles ! i) c)" for c
  proof
    assume "simple_cycle d c"
    then obtain c' where "c' \<in> set cycles" "rotation c' c" using cs(3) by (auto simp: found_def)
    then obtain i where i: "i < length cycles" "rotation (cycles ! i) c"
      by (auto simp: in_set_conv_nth)
    have "j = i" if j: "j < length cycles" "rotation (cycles ! j) c" for j
    proof -
      have "rotation (cycles ! i) (cycles ! j)" "rotation (cycles ! j) (cycles ! i)"
        using i(2) j(2) rotation_sym rotation_trans by blast+
      then show ?thesis using cs(2) i(1) j(1)
        by (metis good_cycles_def sorted_wrt_nth_less linorder_neqE_nat)
    qed
    with i show "\<exists>!i. i < length cycles \<and> rotation (cycles ! i) c" by blast
  next
    assume "\<exists>!i. i < length cycles \<and> rotation (cycles ! i) c"
    then obtain i where i: "i < length cycles" "rotation (cycles ! i) c" by blast
    then have "simple_cycle d (cycles ! i)" using cs(2) by (simp add: good_cycles_def)
    then show "simple_cycle d c" using i(2) by (rule simple_cycle_rotation)
  qed
  then show ?thesis using cs(1,2) by (auto simp: good_cycles_def list_all_iff)
qed

end
