(* ===== verification/RadNum.thy ===== *)
theory RadNum
  imports PyStr "HOL-Library.Word"
begin

unbundle bit_operations_syntax

text \<open>
  The numeric functions of \<open>src/bindings/python/rad_util.py\<close> on Python integers:
  conversion to and from binary strings, least significant bits, Gray code, the list of
  all binary strings of a width, greatest common factor, least common multiple, fractions,
  rounding to a grid and the area of a polygon. The file is written for Python 2 (its doc
  tests use the \<open>print\<close> statement), so \<open>/\<close> on integers is floor division. The \<open>float\<close> cases of \<open>gcf\<close>,
  \<open>lcm\<close>, \<open>round_grid\<close> and \<open>polygon_area\<close> are not modelled.
\<close>

section \<open>Definitions\<close>

text \<open>The hexadecimal digits \<open>hex(i)\<close> prints after \<open>0x\<close> for \<open>i \<ge> 0\<close>.\<close>

definition hex_char :: "nat \<Rightarrow> char" where
  "hex_char d = (if d < 10 then char_of (48 + d) else char_of (87 + d))"

fun hex_digits :: "nat \<Rightarrow> string" where
  "hex_digits n = (if n < 16 then [hex_char n] else hex_digits (n div 16) @ [hex_char (n mod 16)])"

declare hex_digits.simps [simp del]

definition hex2bin :: "(char, string) pydict" where
  "hex2bin =
     [(CHR ''0'', ''0000''), (CHR ''1'', ''0001''), (CHR ''2'', ''0010''), (CHR ''3'', ''0011''),
      (CHR ''4'', ''0100''), (CHR ''5'', ''0101''), (CHR ''6'', ''0110''), (CHR ''7'', ''0111''),
      (CHR ''8'', ''1000''), (CHR ''9'', ''1001''), (CHR ''a'', ''1010''), (CHR ''b'', ''1011''),
      (CHR ''c'', ''1100''), (CHR ''d'', ''1101''), (CHR ''e'', ''1110''), (CHR ''f'', ''1111'')]"

fun map_hex2bin :: "string \<Rightarrow> string result" where
  "map_hex2bin [] = Inr []"
| "map_hex2bin (x # xs) =
     (case dict_get hex2bin x of
        None \<Rightarrow> Inl KeyError
      | Some b \<Rightarrow> rbind (map_hex2bin xs) (\<lambda>bs. Inr (b @ bs)))"

text \<open>
  \<open>hex\<close> of a negative number starts with a minus sign, so dropping two characters
  leaves the \<open>x\<close>, which is no key of the table.
\<close>

definition int2bin :: "int \<Rightarrow> int \<Rightarrow> string result" where
  "int2bin i n =
     rbind (map_hex2bin (if i < 0 then CHR ''x'' # hex_digits (nat (- i)) else hex_digits (nat i)))
       (\<lambda>result.
          if CHR ''1'' \<in> set (slice_to result (- n)) then Inl ValueError
          else (let result = slice_from result (- n)
                in Inr (replicate (nat (n - int (length result))) CHR ''0'' @ result)))"

text \<open>\<open>int(s, 2)\<close>: surrounding white space, a sign and a prefix \<open>0b\<close> are accepted.\<close>

definition bin_digits_val :: "string \<Rightarrow> int result" where
  "bin_digits_val s =
     (if s \<noteq> [] \<and> list_all (\<lambda>c. c \<in> {CHR ''0'', CHR ''1''}) s
      then Inr (foldl (\<lambda>a c. 2 * a + (if c = CHR ''1'' then 1 else 0)) 0 s)
      else Inl ValueError)"

definition drop_bin_prefix :: "string \<Rightarrow> string" where
  "drop_bin_prefix s = (if startswith ''0b'' s \<or> startswith ''0B'' s then drop 2 s else s)"

definition bin2int :: "string \<Rightarrow> int result" where
  "bin2int bin_string =
     (case strip bin_string of
        [] \<Rightarrow> Inl ValueError
      | c # s \<Rightarrow>
          if c = CHR ''-'' then rbind (bin_digits_val (drop_bin_prefix s)) (\<lambda>v. Inr (- v))
          else if c = CHR ''+'' then bin_digits_val (drop_bin_prefix s)
          else bin_digits_val (drop_bin_prefix (c # s)))"

definition lsb :: "int \<Rightarrow> int \<Rightarrow> int result" where
  "lsb x n = (if n < 0 then Inl TypeError else Inr (x AND (2 ^ nat n - 1)))"

definition gray_encode :: "int \<Rightarrow> int" where
  "gray_encode i = i XOR drop_bit 1 i"

text \<open>
  \<open>binary_range\<close>: \<open>v\<close> holds the digits with the least significant first;
  \<open>toggle[i]\<close> says that the carry reaches digit \<open>i\<close>.
\<close>

function toggle_loop ::
  "nat \<Rightarrow> nat \<Rightarrow> string \<Rightarrow> int list \<Rightarrow> string \<times> int list" where
  "toggle_loop bits i v toggle =
     (if i < bits \<and> toggle ! i = 1
      then (if v ! i = CHR ''0''
            then toggle_loop bits (Suc i) (v[i := CHR ''1'']) (toggle[i + 1 := 0])
            else toggle_loop bits (Suc i) (v[i := CHR ''0'']) (toggle[i + 1 := 1]))
      else (v, toggle))"
  by pat_completeness auto
termination
  by (relation "measure (\<lambda>(bits, i, v, toggle). bits - i)") auto

declare toggle_loop.simps [simp del]

partial_function (option) binary_range_loop ::
  "nat \<Rightarrow> string list \<Rightarrow> string \<Rightarrow> int list \<Rightarrow> string list option" where
  "binary_range_loop bits l v toggle =
     (if toggle ! bits = 1 then Some l
      else (case toggle_loop bits 0 v (1 # replicate bits 0) of
              (v', toggle') \<Rightarrow> binary_range_loop bits (l @ [rev v]) v' toggle'))"

definition binary_range :: "nat \<Rightarrow> string list option" where
  "binary_range bits =
     binary_range_loop bits [] (replicate bits CHR ''0'') (1 # replicate bits 0)"

text \<open>Euclid's loop: \<open>%\<close> takes the sign of the divisor, as \<open>mod\<close> does.\<close>

function gcf_loop :: "int \<Rightarrow> int \<Rightarrow> int" where
  "gcf_loop result remainder =
     (if remainder \<noteq> 0 then gcf_loop remainder (result mod remainder) else \<bar>result\<bar>)"
  by pat_completeness auto
termination
  by (relation "measure (\<lambda>(result, remainder). nat \<bar>remainder\<bar>)")
    (auto simp: abs_mod_less)

declare gcf_loop.simps [simp del]

definition gcf :: "int \<Rightarrow> int \<Rightarrow> int" where
  "gcf a b = gcf_loop (max a b) (min a b)"

definition lcm_py :: "int \<Rightarrow> int \<Rightarrow> int" where
  "lcm_py a b = (let denom = gcf a b in if denom = 0 then 0 else a * (b div denom))"

definition reduce_fraction :: "int \<times> int \<Rightarrow> (int \<times> int) result" where
  "reduce_fraction fraction =
     (case fraction of (numerator, denominator) \<Rightarrow>
        (let common_factor = \<bar>gcf numerator denominator\<bar>
         in if common_factor = 0 then Inl ZeroDivisionError
            else Inr (numerator div common_factor, denominator div common_factor)))"

text \<open>
  \<open>round_grid\<close> on integers; no branch assigns \<open>add_one\<close> when the mode is 1 or -1 and
  the value is on the grid, or when the mode is another number.
\<close>

definition round_grid :: "int \<Rightarrow> int \<Rightarrow> int \<Rightarrow> int result" where
  "round_grid value grid mode =
     (if grid = 0 then Inl ZeroDivisionError
      else (let off_grid = value mod grid
            in if mode = 0
               then Inr ((value div grid + (if 2 * off_grid \<ge> grid then 1 else 0)) * grid)
               else if mode = 1 \<and> off_grid \<noteq> 0 then Inr ((value div grid + 1) * grid)
               else if mode = -1 \<and> off_grid \<noteq> 0 then Inr ((value div grid + 0) * grid)
               else Inl UnboundLocalError))"

text \<open>
  \<open>polygon_area\<close> on integer coordinates: it scales the caller's list in place, closes
  the polygon, sums and halves with integer division. The result is the changed list and
  the numerator and denominator of the final division.
\<close>

fun shoelace :: "(int \<times> int) list \<Rightarrow> int \<Rightarrow> int" where
  "shoelace ((x, y) # (x', y') # ps) area = shoelace ((x', y') # ps) (area + x' * y - y' * x)"
| "shoelace _ area = area"

definition polygon_area ::
  "(int \<times> int) list \<Rightarrow> int \<Rightarrow> ((int \<times> int) list \<times> int \<times> int) result" where
  "polygon_area points_list precision =
     (let scaled = map (\<lambda>(x, y). (x * precision, y * precision)) points_list
      in case scaled of
           [] \<Rightarrow> Inl IndexError
         | p0 # _ \<Rightarrow>
             (let closed = (if last scaled \<noteq> p0 then scaled @ [p0] else scaled);
                  area = \<bar>shoelace closed 0 div 2\<bar>
              in if precision\<^sup>2 = 0 then Inl ZeroDivisionError
                 else Inr (closed, area, precision\<^sup>2)))"

section \<open>Binary strings\<close>

definition bval :: "string \<Rightarrow> int" where
  "bval s = foldl (\<lambda>a c. 2 * a + (if c = CHR ''1'' then 1 else 0)) 0 s"

definition is_bin :: "string \<Rightarrow> bool" where
  "is_bin s \<longleftrightarrow> list_all (\<lambda>c. c \<in> {CHR ''0'', CHR ''1''}) s"

lemma bval_Nil [simp]: "bval [] = 0"
  by (simp add: bval_def)

lemma bval_snoc [simp]: "bval (s @ [c]) = 2 * bval s + (if c = CHR ''1'' then 1 else 0)"
  by (simp add: bval_def)

lemma bval_append: "bval (s @ t) = bval s * 2 ^ length t + bval t"
proof (induction t rule: rev_induct)
  case (snoc c t)
  then show ?case by (simp flip: append_assoc add: algebra_simps)
qed simp

lemma bval_bounds: "0 \<le> bval s \<and> bval s < 2 ^ length s"
  by (induction s rule: rev_induct) auto

lemma bval_pos: "CHR ''1'' \<in> set s \<Longrightarrow> 0 < bval s"
proof (induction s rule: rev_induct)
  case (snoc c s)
  then show ?case using bval_bounds [of s] by auto
qed simp

lemma bval_zero: "CHR ''1'' \<notin> set s \<Longrightarrow> bval s = 0"
  by (induction s rule: rev_induct) auto

lemma is_bin_append [simp]: "is_bin (s @ t) \<longleftrightarrow> is_bin s \<and> is_bin t"
  by (simp add: is_bin_def)

lemma is_bin_replicate [simp]: "is_bin (replicate n CHR ''0'')"
  by (simp add: is_bin_def list_all_length)

lemma is_bin_drop: "is_bin s \<Longrightarrow> is_bin (drop n s)"
  by (auto simp: is_bin_def list_all_iff dest: in_set_dropD)

text \<open>A binary string is determined by its length and value.\<close>

lemma bval_inj: "length s = length t \<Longrightarrow> is_bin s \<Longrightarrow> is_bin t \<Longrightarrow> bval s = bval t \<Longrightarrow> s = t"
proof (induction s arbitrary: t rule: rev_induct)
  case (snoc c s)
  then obtain d u where t: "t = u @ [d]" by (cases t rule: rev_cases) auto
  have "2 * bval s + (if c = CHR ''1'' then 1 else 0) = 2 * bval u + (if d = CHR ''1'' then 1 else 0)"
    using snoc.prems t by simp
  then have "bval s = bval u \<and> (c = CHR ''1'' \<longleftrightarrow> d = CHR ''1'')"
    by (auto split: if_splits) presburger+
  then show ?case using snoc t by (auto simp: is_bin_def)
qed simp

lemma hex2bin_table:
  "list_all (\<lambda>d. case dict_get hex2bin (hex_char d) of
       None \<Rightarrow> False | Some b \<Rightarrow> is_bin b \<and> length b = 4 \<and> bval b = int d) [0..<16]"
  by code_simp

lemma hex2bin_digit:
  assumes "d < 16"
  shows "\<exists>b. dict_get hex2bin (hex_char d) = Some b \<and> is_bin b \<and> length b = 4 \<and> bval b = int d"
proof -
  have "d \<in> set [0..<16]" using assms by simp
  then show ?thesis
    using hex2bin_table unfolding list_all_iff by (fastforce split: option.splits)
qed

lemma map_hex2bin_append:
  "map_hex2bin (xs @ ys) = rbind (map_hex2bin xs) (\<lambda>a. rbind (map_hex2bin ys) (\<lambda>b. Inr (a @ b)))"
  by (induction xs) (auto simp: rbind_def split: option.splits sum.splits)

lemma map_hex2bin_hex_digits:
  "\<exists>s. map_hex2bin (hex_digits n) = Inr s \<and> is_bin s \<and> bval s = int n"
proof (induction n rule: hex_digits.induct)
  case (1 n)
  obtain b where b: "dict_get hex2bin (hex_char (n mod 16)) = Some b" "is_bin b" "length b = 4"
    "bval b = int (n mod 16)" using hex2bin_digit [of "n mod 16"] by auto
  show ?case
  proof (cases "n < 16")
    case True
    with b show ?thesis by (simp add: hex_digits.simps [of n])
  next
    case False
    with 1 obtain s where s: "map_hex2bin (hex_digits (n div 16)) = Inr s" "is_bin s"
      "bval s = int (n div 16)" by auto
    have "int (n div 16) * 16 + int (n mod 16) = int n" by presburger
    with b s False show ?thesis
      by (simp add: hex_digits.simps [of n] map_hex2bin_append bval_append)
  qed
qed

lemma int2bin_spec:
  assumes "0 \<le> i" and "0 < n"
  shows "if i < 2 ^ n
         then \<exists>s. int2bin i (int n) = Inr s \<and> is_bin s \<and> length s = n \<and> bval s = i
         else int2bin i (int n) = Inl ValueError"
proof -
  obtain s where s: "map_hex2bin (hex_digits (nat i)) = Inr s" "is_bin s" "bval s = i"
    using map_hex2bin_hex_digits [of "nat i"] assms(1) by auto
  define a b where "a = take (length s - n) s" and "b = drop (length s - n) s"
  have ab: "s = a @ b" by (simp add: a_def b_def)
  have int2bin: "int2bin i (int n) = (if CHR ''1'' \<in> set a then Inl ValueError
      else Inr (replicate (n - length b) CHR ''0'' @ b))"
    using assms s(1) by (simp add: int2bin_def slice_to_neg slice_from_neg a_def b_def nat_int_diff)
  have i: "i = bval a * 2 ^ length b + bval b" using s(3) ab bval_append by metis
  show ?thesis
  proof (cases "CHR ''1'' \<in> set a")
    case True
    then have "n < length s" by (cases "length s \<le> n") (auto simp: a_def)
    then have "length b = n" by (simp add: b_def)
    moreover have "2 ^ length b \<le> bval a * 2 ^ length b"
      using bval_pos [OF True] by simp
    ultimately have "\<not> i < 2 ^ n" using i bval_bounds [of b] by (metis add_mono linorder_not_le add.right_neutral)
    with True int2bin show ?thesis by simp
  next
    case False
    have len: "length b \<le> n" by (simp add: b_def)
    have "i < 2 ^ length b" using i bval_zero [OF False] bval_bounds [of b] by simp
    also have "\<dots> \<le> 2 ^ n" using len by (simp add: power_increasing)
    finally have "i < 2 ^ n" .
    moreover have "bval (replicate (n - length b) CHR ''0'' @ b) = i"
      using i bval_zero [OF False] by (simp add: bval_append bval_zero)
    ultimately show ?thesis using False int2bin len s(2) ab by simp
  qed
qed

lemma bin_not_special:
  assumes "is_bin s" and "s \<noteq> []"
  shows "strip s = s" and "hd s \<noteq> CHR ''-''" and "hd s \<noteq> CHR ''+''" and "drop_bin_prefix s = s"
proof -
  have c: "c = CHR ''0'' \<or> c = CHR ''1''" if "c \<in> set s" for c
    using assms(1) that by (auto simp: is_bin_def list_all_iff)
  show "strip s = s"
    using c [of "hd s"] c [of "last s"] assms(2) by (intro strip_id) (auto simp: is_ws_def)
  show "hd s \<noteq> CHR ''-''" "hd s \<noteq> CHR ''+''" using c [of "hd s"] assms(2) by auto
  show "drop_bin_prefix s = s"
    using c assms(2)
    by (cases s; cases "tl s") (fastforce simp: drop_bin_prefix_def startswith_def)+
qed

lemma bin2int_bin: "is_bin s \<Longrightarrow> s \<noteq> [] \<Longrightarrow> bin2int s = Inr (bval s)"
  using bin_not_special [of s]
  by (cases s) (simp_all add: bin2int_def bin_digits_val_def is_bin_def bval_def)

section \<open>Gray code\<close>

lemma gray_xor: "gray_encode a XOR gray_encode b = gray_encode (a XOR b)"
  by (simp add: gray_encode_def drop_bit_xor xor.assoc xor.left_commute)

lemma xor_Suc_mask: "\<exists>k. int n XOR (int n + 1) = mask (Suc k)"
proof (induction n rule: less_induct)
  case (less n)
  show ?case
  proof (cases "even n")
    case True
    then obtain m where n: "int n = 2 * int m" by (metis evenE of_nat_mult of_nat_numeral)
    have "int n XOR (int n + 1) = 1"
      by (subst xor_rec) (simp add: n)
    then show ?thesis by (intro exI [of _ 0]) simp
  next
    case False
    define m where "m = n div 2"
    have n: "int n = 2 * int m + 1" and "m < n" using False by (auto simp: m_def) presburger+
    then obtain k where k: "int m XOR (int m + 1) = mask (Suc k)" using less by blast
    have "(int n + 1) div 2 = int m + 1" "int n div 2 = int m" using n by simp_all
    then have "int n XOR (int n + 1) = 1 + 2 * (int m XOR (int m + 1))"
      using False by (subst xor_rec) simp
    also have "\<dots> = mask (Suc (Suc k))" by (simp add: k mask_eq_exp_minus_1)
    finally show ?thesis by blast
  qed
qed

lemma gray_mask: "gray_encode (mask (Suc k)) = 2 ^ k"
proof -
  have "drop_bit 1 (mask (Suc k)) = (mask k :: int)"
    by (simp add: mask_Suc_double drop_bit_Suc)
  moreover have "mask (Suc k) = (2 ^ k :: int) XOR mask k"
    by (rule bit_eqI) (auto simp: bit_simps)
  ultimately show ?thesis by (simp add: gray_encode_def xor.assoc)
qed

lemma gray_step: "0 \<le> i \<Longrightarrow> \<exists>k. gray_encode i XOR gray_encode (i + 1) = 2 ^ k"
  using xor_Suc_mask [of "nat i"] gray_mask by (auto simp: gray_xor)

lemma gray_zero: "0 \<le> i \<Longrightarrow> gray_encode i = 0 \<Longrightarrow> i = 0"
proof -
  assume i: "0 \<le> i" "gray_encode i = 0"
  then have "(i XOR drop_bit 1 i) XOR drop_bit 1 i = 0 XOR drop_bit 1 i"
    by (simp only: gray_encode_def)
  then have "i = i div 2" by (simp add: drop_bit_Suc xor.assoc)
  then show "i = 0" using i by presburger
qed

lemma gray_inj: "0 \<le> i \<Longrightarrow> 0 \<le> j \<Longrightarrow> gray_encode i = gray_encode j \<Longrightarrow> i = j"
proof -
  assume "0 \<le> i" "0 \<le> j" "gray_encode i = gray_encode j"
  then have "gray_encode (i XOR j) = 0" by (simp flip: gray_xor)
  moreover have "0 \<le> i XOR j" using \<open>0 \<le> i\<close> \<open>0 \<le> j\<close> by simp
  ultimately have "i XOR j = 0" using gray_zero by blast
  then show "i = j" by (metis xor.assoc xor.right_neutral xor_self_eq xor.left_neutral)
qed

section \<open>All binary strings of a width\<close>

text \<open>The digits of \<open>k\<close> in \<open>n\<close> places, least significant first, and the carry chain.\<close>

fun lsb_string :: "nat \<Rightarrow> nat \<Rightarrow> string" where
  "lsb_string 0 k = []"
| "lsb_string (Suc n) k = (if odd k then CHR ''1'' else CHR ''0'') # lsb_string n (k div 2)"

fun inc :: "string \<Rightarrow> string \<times> bool" where
  "inc [] = ([], True)"
| "inc (c # w) =
     (if c = CHR ''0'' then (CHR ''1'' # w, False)
      else (case inc w of (w', carry) \<Rightarrow> (CHR ''0'' # w', carry)))"

lemma length_lsb_string [simp]: "length (lsb_string n k) = n"
  by (induction n arbitrary: k) auto

lemma lsb_string_0: "lsb_string n 0 = replicate n CHR ''0''"
  by (induction n) auto

lemma is_bin_rev_lsb_string: "is_bin (rev (lsb_string n k))"
  by (induction n arbitrary: k) (auto simp: is_bin_def list_all_iff)

lemma bval_rev_lsb_string: "k < 2 ^ n \<Longrightarrow> bval (rev (lsb_string n k)) = int k"
proof (induction n arbitrary: k)
  case (Suc n)
  then have "k div 2 < 2 ^ n" by auto
  with Suc.IH have "bval (rev (lsb_string n (k div 2))) = int (k div 2)" by blast
  then show ?case by (auto simp: zdiv_int)
qed simp

lemma inc_lsb_string:
  "k < 2 ^ n \<Longrightarrow> inc (lsb_string n k) =
     (if Suc k = 2 ^ n then replicate n CHR ''0'' else lsb_string n (Suc k), Suc k = 2 ^ n)"
proof (induction n arbitrary: k)
  case (Suc n)
  show ?case
  proof (cases "even k")
    case True
    then have "Suc k div 2 = k div 2" "odd (Suc k)" by (auto simp: even_Suc_div_two)
    moreover have "Suc k \<noteq> 2 ^ Suc n" using True by (metis dvd_triv_left even_Suc power_Suc)
    ultimately show ?thesis by simp
  next
    case False
    have "k div 2 < 2 ^ n" using Suc.prems by auto
    moreover have "Suc k = 2 * Suc (k div 2)" using False by presburger
    then have "Suc (k div 2) = 2 ^ n \<longleftrightarrow> Suc k = 2 ^ Suc n"
      by (simp only: power_Suc mult_cancel1) simp
    moreover have "Suc k div 2 = Suc (k div 2)" using False by (simp add: odd_Suc_div_two)
    ultimately show ?thesis using Suc.IH [of "k div 2"] False by simp
  qed
qed simp

lemma toggle_loop_stop: "toggle ! i \<noteq> 1 \<Longrightarrow> toggle_loop bits i v toggle = (v, toggle)"
  by (simp add: toggle_loop.simps [of bits i v toggle])

lemma toggle_loop_inc:
  assumes "i \<le> bits" and "length v = bits" and "length toggle = Suc bits" and "toggle ! i = 1"
    and "\<And>j. i < j \<Longrightarrow> j \<le> bits \<Longrightarrow> toggle ! j = 0"
  shows "\<exists>toggle'. toggle_loop bits i v toggle = (take i v @ fst (inc (drop i v)), toggle') \<and>
    toggle' ! bits = (if snd (inc (drop i v)) then 1 else 0)"
  using assms
proof (induction bits i v toggle rule: toggle_loop.induct)
  case (1 bits i v toggle)
  show ?case
  proof (cases "i < bits")
    case False
    with "1.prems" have "i = bits" by simp
    with "1.prems" show ?thesis by (simp add: toggle_loop.simps [of bits bits v toggle])
  next
    case True
    then have d: "drop i v = v ! i # drop (Suc i) v" and "i < length v"
      using "1.prems" by (simp_all add: Cons_nth_drop_Suc)
    show ?thesis
    proof (cases "v ! i = CHR ''0''")
      case zero: True
      have "toggle_loop bits i v toggle = (v[i := CHR ''1''], toggle[i + 1 := 0])"
        using True zero "1.prems" by (simp add: toggle_loop.simps [of bits i v toggle] toggle_loop_stop)
      moreover have "toggle[i + 1 := 0] ! bits = 0"
        using True "1.prems" by (cases "bits = Suc i") auto
      ultimately show ?thesis
        using zero d \<open>i < length v\<close> by (simp add: upd_conv_take_nth_drop)
    next
      case one: False
      let ?v = "v[i := CHR ''0'']" and ?t = "toggle[i + 1 := 1]"
      have "\<exists>t'. toggle_loop bits (Suc i) ?v ?t = (take (Suc i) ?v @ fst (inc (drop (Suc i) ?v)), t') \<and>
          t' ! bits = (if snd (inc (drop (Suc i) ?v)) then 1 else 0)"
        using True one "1.prems" by (intro "1.IH"(2)) auto
      moreover have "toggle_loop bits i v toggle = toggle_loop bits (Suc i) ?v ?t"
        using True one "1.prems" by (simp add: toggle_loop.simps [of bits i v toggle])
      moreover have "take (Suc i) ?v = take i v @ [CHR ''0'']"
        using \<open>i < length v\<close> by (simp add: take_Suc_conv_app_nth)
      ultimately show ?thesis using one d by (auto split: prod.splits)
    qed
  qed
qed

lemma toggle_ne_one: "toggle ! bits \<noteq> 1 \<Longrightarrow> k < 2 ^ bits \<Longrightarrow> m = 2 ^ bits - k \<Longrightarrow>
  binary_range_loop bits l (lsb_string bits k) toggle =
    Some (l @ map (\<lambda>i. rev (lsb_string bits i)) [k..<2 ^ bits])"
proof (induction m arbitrary: k l toggle)
  case (Suc m)
  have "(1 # replicate bits 0) ! j = (0 :: int)" if "0 < j" "j \<le> bits" for j
    using that by (cases j) auto
  then obtain t' where t': "toggle_loop bits 0 (lsb_string bits k) (1 # replicate bits 0) =
      (fst (inc (lsb_string bits k)), t')" "t' ! bits = (if Suc k = 2 ^ bits then 1 else 0)"
    using toggle_loop_inc [of 0 bits "lsb_string bits k" "1 # replicate bits 0"]
    by (force simp: inc_lsb_string Suc.prems)
  have step: "binary_range_loop bits l (lsb_string bits k) toggle =
      binary_range_loop bits (l @ [rev (lsb_string bits k)]) (fst (inc (lsb_string bits k))) t'"
    using Suc.prems t' by (simp add: binary_range_loop.simps [of bits l])
  have k: "[k..<2 ^ bits] = k # [Suc k..<2 ^ bits]" using Suc.prems by (simp add: upt_conv_Cons)
  show ?case
  proof (cases "Suc k = 2 ^ bits")
    case True
    with step t' k show ?thesis by (simp add: binary_range_loop.simps [of bits "l @ _"])
  next
    case False
    with Suc.prems have "Suc k < 2 ^ bits" by simp
    with Suc.IH [of t' "Suc k"] Suc.prems step t' k False show ?thesis
      by (simp add: inc_lsb_string)
  qed
qed simp

lemma binary_range_eq:
  "0 < bits \<Longrightarrow> binary_range bits = Some (map (\<lambda>i. rev (lsb_string bits i)) [0..<2 ^ bits])"
proof -
  assume "0 < bits"
  then have "(1 # replicate bits (0::int)) ! bits \<noteq> 1"
    by (cases bits) (simp_all flip: replicate_Suc del: replicate_Suc)
  from toggle_ne_one [OF this, of 0 "2 ^ bits" "[]"] show ?thesis
    by (simp add: binary_range_def lsb_string_0)
qed

lemma int2bin_lsb_string:
  assumes "0 < n" and "i < 2 ^ n"
  shows "int2bin (int i) (int n) = Inr (rev (lsb_string n i))"
proof -
  have "int i < 2 ^ n" using assms(2) by simp
  then obtain s where s: "int2bin (int i) (int n) = Inr s" "is_bin s" "length s = n" "bval s = int i"
    using int2bin_spec [of "int i" n] assms by auto
  have "s = rev (lsb_string n i)"
    using s assms by (intro bval_inj) (auto simp: is_bin_rev_lsb_string bval_rev_lsb_string)
  with s show ?thesis by simp
qed

section \<open>Euclid's algorithm\<close>

lemma gcf_loop_gcd: "gcf_loop r m = gcd r m"
proof (induction r m rule: gcf_loop.induct)
  case (1 r m)
  then show ?case by (simp add: gcf_loop.simps [of r m] gcd_red_int [of r m])
qed

lemma gcf_gcd: "gcf a b = gcd a b"
  by (cases "a \<le> b") (auto simp: gcf_def gcf_loop_gcd max_def min_def gcd.commute)

lemma lcm_py_lcm: "\<bar>lcm_py a b\<bar> = lcm a b"
proof (cases "gcd a b = 0")
  case False
  have "lcm_py a b = a * b div gcd a b"
    using False by (simp add: lcm_py_def gcf_gcd div_mult_swap)
  moreover have "\<bar>a * b div gcd a b\<bar> = \<bar>a * b\<bar> div gcd a b"
    by (subst abs_div) auto
  ultimately show ?thesis by (simp add: lcm_altdef_int abs_mult)
qed (simp add: lcm_py_def gcf_gcd)

lemma reduce_fraction_spec:
  "reduce_fraction (a, b) =
     (if a = 0 \<and> b = 0 then Inl ZeroDivisionError else Inr (a div gcd a b, b div gcd a b))"
  by (simp add: reduce_fraction_def gcf_gcd Let_def)

section \<open>Rounding to a grid\<close>

lemma round_grid_nearest:
  assumes "0 < grid" and "round_grid value grid 0 = Inr r"
  shows "grid dvd r" and "2 * \<bar>r - value\<bar> \<le> grid"
proof -
  have v: "value = value div grid * grid + value mod grid" by simp
  have m: "0 \<le> value mod grid" "value mod grid < grid" using assms(1) by simp_all
  have r: "r = (value div grid + (if 2 * (value mod grid) \<ge> grid then 1 else 0)) * grid"
    using assms by (simp add: round_grid_def Let_def)
  then show "grid dvd r" by simp
  have "r - value = (if 2 * (value mod grid) \<ge> grid then grid else 0) - value mod grid"
    using r v by (simp add: algebra_simps split: if_splits)
  then show "2 * \<bar>r - value\<bar> \<le> grid" using m by (auto split: if_splits)
qed

lemma round_grid_up:
  assumes "0 < grid" and "round_grid value grid 1 = Inr r"
  shows "grid dvd r" and "value \<le> r" and "r < value + grid"
proof -
  have r: "r = (value div grid + 1) * grid" and ne: "value mod grid \<noteq> 0"
    using assms by (auto simp: round_grid_def Let_def split: if_splits)
  have v: "value = value div grid * grid + value mod grid" by simp
  have m: "0 < value mod grid" "value mod grid < grid"
    using pos_mod_sign [OF assms(1), of "value"] pos_mod_bound [OF assms(1), of "value"] ne by simp_all
  have "r = value - value mod grid + grid" using r v by (simp add: algebra_simps)
  with m show "value \<le> r" "r < value + grid" by simp_all
  show "grid dvd r" using r by simp
qed

lemma round_grid_unbound:
  "grid \<noteq> 0 \<Longrightarrow> mode = 1 \<or> mode = -1 \<Longrightarrow>
   round_grid value grid mode = Inl UnboundLocalError \<longleftrightarrow> grid dvd value"
  by (auto simp: round_grid_def Let_def dvd_eq_mod_eq_0)

lemma round_grid_modes:
  assumes "grid \<noteq> 0"
  shows "round_grid x grid 0 = Inr ((x div grid + (if 2 * (x mod grid) \<ge> grid then 1 else 0)) * grid)"
    and "round_grid x grid 1 =
      (if grid dvd x then Inl UnboundLocalError else Inr ((x div grid + 1) * grid))"
    and "round_grid x grid (-1) =
      (if grid dvd x then Inl UnboundLocalError else Inr (x div grid * grid))"
  using assms by (simp_all add: round_grid_def Let_def dvd_eq_mod_eq_0)

section \<open>Area of a polygon\<close>

definition close_polygon :: "(int \<times> int) list \<Rightarrow> (int \<times> int) list" where
  "close_polygon ps = (if last ps \<noteq> hd ps then ps @ [hd ps] else ps)"

definition scale :: "int \<Rightarrow> int \<times> int \<Rightarrow> int \<times> int" where
  "scale p = (\<lambda>(x, y). (x * p, y * p))"

lemma shoelace_add: "shoelace ps (a + b) = a + shoelace ps b"
proof (induction ps b rule: shoelace.induct)
  case (1 x y x' y' ps b)
  from 1 [of] show ?case by (simp add: add_diff_eq add.assoc)
qed auto

lemma shoelace_scale: "shoelace (map (scale p) ps) (p\<^sup>2 * a) = p\<^sup>2 * shoelace ps a"
proof (induction ps a rule: shoelace.induct)
  case (1 x y x' y' ps a)
  have "p\<^sup>2 * a + x' * p * (y * p) - y' * p * (x * p) = p\<^sup>2 * (a + x' * y - y' * x)"
    by (simp add: algebra_simps power2_eq_square)
  with 1 show ?case by (simp add: scale_def)
qed (auto simp: scale_def)

lemma scale_inj: "p \<noteq> 0 \<Longrightarrow> scale p q = scale p r \<longleftrightarrow> q = r"
  by (cases q; cases r) (simp add: scale_def)

lemma close_polygon_scale:
  "p \<noteq> 0 \<Longrightarrow> ps \<noteq> [] \<Longrightarrow> close_polygon (map (scale p) ps) = map (scale p) (close_polygon ps)"
  by (simp add: close_polygon_def last_map hd_map scale_inj)

lemma polygon_area_close:
  "ps \<noteq> [] \<Longrightarrow> p \<noteq> 0 \<Longrightarrow> polygon_area ps p =
     Inr (map (scale p) (close_polygon ps), \<bar>shoelace (map (scale p) (close_polygon ps)) 0 div 2\<bar>, p\<^sup>2)"
proof -
  assume ps: "ps \<noteq> []" and p: "p \<noteq> 0"
  have "polygon_area ps p = (let c = close_polygon (map (scale p) ps)
      in Inr (c, \<bar>shoelace c 0 div 2\<bar>, p\<^sup>2))"
    using ps p by (cases ps) (simp_all add: polygon_area_def close_polygon_def scale_def Let_def)
  then show ?thesis by (simp only: close_polygon_scale [OF p ps] Let_def)
qed

lemma polygon_area_even:
  assumes "ps \<noteq> []" and "p \<noteq> 0" and "even p"
  shows "polygon_area ps p = Inr (map (scale p) (close_polygon ps),
    p\<^sup>2 div 2 * \<bar>shoelace (close_polygon ps) 0\<bar>, p\<^sup>2)"
proof -
  have "even (p\<^sup>2)" using assms(3) by simp
  then have "p\<^sup>2 * s div 2 = p\<^sup>2 div 2 * s" for s by (metis dvd_div_mult)
  then have "\<bar>shoelace (map (scale p) (close_polygon ps)) 0 div 2\<bar> =
      p\<^sup>2 div 2 * \<bar>shoelace (close_polygon ps) 0\<bar>"
    using shoelace_scale [of p _ 0] by (simp add: abs_mult)
  then show ?thesis using polygon_area_close [OF assms(1,2)] by simp
qed

text \<open>Walking the polygon the other way round negates the sum.\<close>

definition cross :: "int \<times> int \<Rightarrow> int \<times> int \<Rightarrow> int" where
  "cross p q = fst q * snd p - snd q * fst p"

lemma shoelace_Cons2: "shoelace (p # q # ps) 0 = cross p q + shoelace (q # ps) 0"
  using shoelace_add [of "q # ps" "cross p q" 0] by (cases p; cases q) (simp add: cross_def)

lemma shoelace_snoc2: "shoelace (ps @ [p, q]) 0 = shoelace (ps @ [p]) 0 + cross p q"
  by (induction ps rule: induct_list012) (simp_all add: shoelace_Cons2)

lemma shoelace_rev: "shoelace (rev ps) 0 = - shoelace ps 0"
proof (induction ps rule: induct_list012)
  case (3 p q ps)
  have "cross q p = - cross p q" by (simp add: cross_def)
  with 3 show ?case by (simp add: shoelace_Cons2 shoelace_snoc2)
qed simp_all

lemma shoelace_close_rev:
  assumes "ps \<noteq> []"
  shows "shoelace (close_polygon (rev ps)) 0 = - shoelace (close_polygon ps) 0"
proof (cases "last ps = hd ps")
  case True
  with assms show ?thesis by (simp add: close_polygon_def hd_rev last_rev shoelace_rev)
next
  case False
  obtain p qs where p: "ps = p # qs" using assms by (cases ps) auto
  obtain us l where l: "ps = us @ [l]" using assms by (cases ps rule: rev_cases) auto
  have "shoelace (rev ps @ [l]) 0 = shoelace (rev ps) 0 + cross p l"
    using shoelace_snoc2 [of "rev qs" p l] by (simp add: p)
  moreover have "shoelace (ps @ [p]) 0 = shoelace ps 0 + cross l p"
    using shoelace_snoc2 [of us l p] by (simp add: l)
  moreover have "last ps = l" by (simp add: l)
  moreover have "hd ps = p" by (simp add: p)
  ultimately show ?thesis using False assms
    by (simp add: close_polygon_def hd_rev last_rev shoelace_rev cross_def)
qed

lemma polygon_orientation_odd:
  "polygon_area [(0, 0), (0, 1), (1, 0)] 1 = Inr ([(0, 0), (0, 1), (1, 0), (0, 0)], 0, 1)"
  "polygon_area [(1, 0), (0, 1), (0, 0)] 1 = Inr ([(1, 0), (0, 1), (0, 0), (1, 0)], 1, 1)"
  by (simp_all add: polygon_area_def)

section \<open>Properties\<close>

text \<open>For a width \<open>n > 0\<close> and \<open>i \<ge> 0\<close>, \<open>int2bin\<close> gives a string of exactly \<open>n\<close> binary
  digits that \<open>bin2int\<close> reads back as \<open>i\<close>, when \<open>i\<close> fits into \<open>n\<close> bits, and raises
  \<open>ValueError\<close> when it does not.\<close>

theorem int2bin_roundtrip:
  assumes "0 \<le> i" and "0 < n"
  shows "case int2bin i (int n) of
      Inr s \<Rightarrow> i < 2 ^ n \<and> length s = n \<and> is_bin s \<and> bin2int s = Inr i
    | Inl e \<Rightarrow> 2 ^ n \<le> i \<and> e = ValueError"
proof (cases "i < 2 ^ n")
  case True
  then obtain s where s: "int2bin i (int n) = Inr s" "is_bin s" "length s = n" "bval s = i"
    using int2bin_spec [OF assms] by auto
  then have "bin2int s = Inr i" using bin2int_bin [of s] assms(2) by auto
  with True s show ?thesis by simp
next
  case False
  then show ?thesis using int2bin_spec [OF assms] by simp
qed

theorem int2bin_roundtrip_witness:
  "case int2bin 10 (int 6) of
      Inr s \<Rightarrow> 10 < (2::int) ^ 6 \<and> length s = 6 \<and> is_bin s \<and> bin2int s = Inr 10
    | Inl e \<Rightarrow> (2::int) ^ 6 \<le> 10 \<and> e = ValueError"
  by (rule int2bin_roundtrip) simp_all

text \<open>
  \<open>gray_encode\<close> is a Gray code: the codes of consecutive numbers differ in exactly one
  bit, and different numbers have different codes.\<close>

theorem gray_code:
  assumes "0 \<le> i" and "0 \<le> j"
  shows "(\<exists>k. gray_encode i XOR gray_encode (i + 1) = 2 ^ k) \<and>
    (gray_encode i = gray_encode j \<longleftrightarrow> i = j)"
  using gray_step [OF assms(1)] gray_inj [OF assms] by auto

theorem gray_code_witness:
  "(\<exists>k. gray_encode 6 XOR gray_encode (6 + 1) = 2 ^ k) \<and> (gray_encode 6 = gray_encode 7 \<longleftrightarrow> (6::int) = 7)"
  by (rule gray_code) simp_all

text \<open>
  for every positive width the toggling loops of \<open>binary_range\<close> end, and return all
  \<open>2 ^ bits\<close> binary numbers in increasing order, entry \<open>i\<close> being what \<open>int2bin\<close> prints for
  \<open>i\<close>.\<close>

theorem binary_range_counts:
  assumes "0 < bits"
  shows "\<exists>l. binary_range bits = Some l \<and> length l = 2 ^ bits \<and>
    (\<forall>i < 2 ^ bits. int2bin (int i) (int bits) = Inr (l ! i))"
  using assms by (simp add: binary_range_eq int2bin_lsb_string)

theorem binary_range_counts_witness:
  "\<exists>l. binary_range 3 = Some l \<and> length l = 2 ^ 3 \<and>
    (\<forall>i < 2 ^ 3. int2bin (int i) (int 3) = Inr (l ! i))"
  by (rule binary_range_counts) simp

text \<open>
  \<open>reduce_fraction\<close> returns a fraction of the same value in lowest terms, whatever the
  signs, and divides by zero exactly on \<open>0/0\<close>.\<close>

theorem reduce_fraction_lowest:
  "case reduce_fraction (a, b) of
      Inr (c, d) \<Rightarrow> \<not> (a = 0 \<and> b = 0) \<and> a * d = b * c \<and> coprime c d
    | Inl e \<Rightarrow> a = 0 \<and> b = 0 \<and> e = ZeroDivisionError"
proof (cases "a = 0 \<and> b = 0")
  case False
  have "a * (b div gcd a b) = b * (a div gcd a b)"
    by (simp add: div_mult_swap mult.commute)
  moreover have "coprime (a div gcd a b) (b div gcd a b)"
    using False by (intro div_gcd_coprime) auto
  ultimately show ?thesis using False by (simp add: reduce_fraction_spec)
qed (simp add: reduce_fraction_spec)

text \<open>
  Euclid's loop in \<open>gcf\<close> computes the greatest common divisor for integers of either
  sign, and \<open>lcm\<close> the least common multiple up to sign.\<close>

theorem gcf_lcm_correct: "gcf a b = gcd a b \<and> \<bar>lcm_py a b\<bar> = lcm a b"
  by (simp add: gcf_gcd lcm_py_lcm)

text \<open>
  the results of \<open>round_grid\<close> for a positive grid: mode 0 gives a grid point at distance
  at most half a grid, mode 1 the next grid point above; and the modes 1 and -1 fail with
  an unbound variable exactly when the value already is on the grid.\<close>

theorem round_grid_correct:
  assumes "0 < grid"
  shows "(case round_grid x grid 0 of Inr r \<Rightarrow> grid dvd r \<and> 2 * \<bar>r - x\<bar> \<le> grid | Inl e \<Rightarrow> False) \<and>
    (case round_grid x grid 1 of
       Inr r \<Rightarrow> \<not> grid dvd x \<and> grid dvd r \<and> x \<le> r \<and> r < x + grid
     | Inl e \<Rightarrow> grid dvd x \<and> e = UnboundLocalError) \<and>
    (case round_grid x grid (-1) of
       Inr r \<Rightarrow> \<not> grid dvd x \<and> r = x - x mod grid
     | Inl e \<Rightarrow> grid dvd x \<and> e = UnboundLocalError)"
proof (intro conjI)
  obtain r where "round_grid x grid 0 = Inr r" using assms by (simp add: round_grid_modes)
  then show "case round_grid x grid 0 of Inr r \<Rightarrow> grid dvd r \<and> 2 * \<bar>r - x\<bar> \<le> grid | Inl e \<Rightarrow> False"
    using round_grid_nearest [OF assms] by simp
  show "case round_grid x grid 1 of
       Inr r \<Rightarrow> \<not> grid dvd x \<and> grid dvd r \<and> x \<le> r \<and> r < x + grid
     | Inl e \<Rightarrow> grid dvd x \<and> e = UnboundLocalError"
  proof (cases "grid dvd x")
    case False
    then obtain r where "round_grid x grid 1 = Inr r" using assms by (simp add: round_grid_modes)
    then show ?thesis using False round_grid_up [OF assms] by simp
  qed (use assms in \<open>simp add: round_grid_modes\<close>)
  show "case round_grid x grid (-1) of
       Inr r \<Rightarrow> \<not> grid dvd x \<and> r = x - x mod grid
     | Inl e \<Rightarrow> grid dvd x \<and> e = UnboundLocalError"
    using assms by (simp add: round_grid_modes minus_mod_eq_div_mult)
qed

theorem round_grid_correct_witness:
  "(case round_grid 17 5 0 of Inr r \<Rightarrow> 5 dvd r \<and> 2 * \<bar>r - 17\<bar> \<le> 5 | Inl e \<Rightarrow> False) \<and>
    (case round_grid 17 5 1 of
       Inr r \<Rightarrow> \<not> (5::int) dvd 17 \<and> 5 dvd r \<and> 17 \<le> r \<and> r < 17 + 5
     | Inl e \<Rightarrow> (5::int) dvd 17 \<and> e = UnboundLocalError) \<and>
    (case round_grid 17 5 (-1) of
       Inr r \<Rightarrow> \<not> (5::int) dvd 17 \<and> r = 17 - 17 mod 5
     | Inl e \<Rightarrow> (5::int) dvd 17 \<and> e = UnboundLocalError)"
  by (rule round_grid_correct) simp

text \<open>
  for an even, nonzero precision \<open>polygon_area\<close> does not depend on the direction in which
  the corners are listed, and its numerator is half the scaled shoelace sum of the closed
  polygon, so that the integer halving loses nothing.\<close>

theorem polygon_area_orientation:
  assumes "ps \<noteq> []" and "p \<noteq> 0" and "even p"
  shows "\<exists>l l'. polygon_area ps p = Inr (l, p\<^sup>2 div 2 * \<bar>shoelace (close_polygon ps) 0\<bar>, p\<^sup>2) \<and>
    polygon_area (rev ps) p = Inr (l', p\<^sup>2 div 2 * \<bar>shoelace (close_polygon ps) 0\<bar>, p\<^sup>2)"
  using polygon_area_even [OF assms] polygon_area_even [of "rev ps" p] assms
    shoelace_close_rev [OF assms(1)] by simp

theorem polygon_area_orientation_witness:
  "\<exists>l l'. polygon_area [(0, 0), (0, 3), (4, 0)] 10 =
      Inr (l, 10\<^sup>2 div 2 * \<bar>shoelace (close_polygon [(0, 0), (0, 3), (4, 0)]) 0\<bar>, 10\<^sup>2) \<and>
    polygon_area (rev [(0, 0), (0, 3), (4, 0)]) 10 =
      Inr (l', 10\<^sup>2 div 2 * \<bar>shoelace (close_polygon [(0, 0), (0, 3), (4, 0)]) 0\<bar>, 10\<^sup>2)"
  by (rule polygon_area_orientation) simp_all

end
