(* ===== verification/RadStat.thy ===== *)
theory RadStat
  imports RadNum Complex_Main
begin

text \<open>
  The functions of \<open>bindings/python/rad_util.py\<close> on floats: \<open>quantile\<close>, \<open>trim\<close>, \<open>nice_units\<close>, \<open>float_range\<close>, and
  \<open>random_vec\<close>. Floats are exact rationals; the formatting of numbers is the parameter \<open>fmt\<close> and the random numbers are
  a list.
\<close>

section \<open>Quantiles\<close>

text \<open>\<open>int(r)\<close> cuts towards zero; \<open>l_sort[i]\<close> counts negative indices from the end.\<close>

definition trunc :: "rat \<Rightarrow> int" where
  "trunc r = (if r \<ge> 0 then \<lfloor>r\<rfloor> else \<lceil>r\<rceil>)"

definition quantile :: "rat list \<Rightarrow> rat \<Rightarrow> rat result" where
  "quantile l p =
     (let l_sort = sort l; n = int (length l); r = 1 + of_int (n - 1) * p; i = trunc r; f = r - of_int i
      in if i < n
         then rbind (py_index l_sort (i - 1)) (\<lambda>a. rbind (py_index l_sort i) (\<lambda>b. Inr ((1 - f) * a + f * b)))
         else py_index l_sort (i - 1))"

text \<open>The median is computed and not used, but it raises for the empty list.\<close>

definition median :: "rat list \<Rightarrow> rat result" where
  "median l_sort =
     (let index = int (length l_sort div 2)
      in if even (length l_sort)
         then rbind (py_index l_sort index) (\<lambda>a. rbind (py_index l_sort (index - 1)) (\<lambda>b. Inr ((a + b) / 2)))
         else py_index l_sort index)"

definition trim :: "rat list \<Rightarrow> rat list result" where
  "trim l =
     (let l_sort = sort l
      in rbind (median l_sort) (\<lambda>_.
         rbind (quantile l_sort (1 / 4)) (\<lambda>q1.
         rbind (quantile l_sort (3 / 4)) (\<lambda>q3.
           let extra = (q3 - q1) * (3 / 2) in Inr (filter (\<lambda>x. q1 - extra \<le> x \<and> x \<le> q3 + extra) l_sort)))))"

section \<open>Units\<close>

definition si_prefixes :: "bool \<Rightarrow> (rat \<times> string \<times> string) list" where
  "si_prefixes use_extra =
     [(10 ^ 24, ''Y'', ''yotta''), (10 ^ 21, ''Z'', ''zetta''), (10 ^ 18, ''E'', ''exa''), (10 ^ 15, ''P'', ''peta''),
      (10 ^ 12, ''T'', ''tera''), (10 ^ 9, ''G'', ''giga''), (10 ^ 6, ''M'', ''mega''), (10 ^ 3, ''k'', ''kilo''),
      (1 / 10 ^ 3, ''m'', ''milli''), (1 / 10 ^ 6, ''u'', ''micro''), (1 / 10 ^ 9, ''n'', ''nano''),
      (1 / 10 ^ 12, ''p'', ''pico''), (1 / 10 ^ 15, ''f'', ''femto''), (1 / 10 ^ 18, ''a'', ''atto''),
      (1 / 10 ^ 21, ''z'', ''zepto''), (1 / 10 ^ 24, ''y'', ''yocto'')] @
     (if use_extra
      then [(10 ^ 2, ''h'', ''hecto''), (10, ''da'', ''deka''), (1 / 10, ''d'', ''deci''), (1 / 10 ^ 2, ''c'', ''centi'')]
      else [])"

definition bin_prefixes :: "(rat \<times> string \<times> string) list" where
  "bin_prefixes =
     [(2 ^ 10, ''K'', ''kilo''), (2 ^ 20, ''M'', ''mega''), (2 ^ 30, ''G'', ''mega''), (2 ^ 40, ''T'', ''tera''),
      (2 ^ 50, ''P'', ''peta''), (2 ^ 60, ''E'', ''exa'')]"

definition prefixes :: "bool \<Rightarrow> bool \<Rightarrow> (rat \<times> string \<times> string) list" where
  "prefixes bin use_extra = (if bin then bin_prefixes else si_prefixes use_extra) @ [(1, [], [])]"

text \<open>The search for the multiplier, from index \<open>i\<close> on; \<open>None\<close> when none of the intervals has the value.\<close>

fun mult_loop :: "rat \<Rightarrow> rat list \<Rightarrow> nat \<Rightarrow> nat option" where
  "mult_loop v (a # b # ms) i = (if a \<le> v \<and> v < b then Some i else mult_loop v (b # ms) (Suc i))"
| "mult_loop v _ i = None"

definition mult_index :: "rat list \<Rightarrow> rat \<Rightarrow> nat" where
  "mult_index ms v =
     (case mult_loop v ms 0 of Some i \<Rightarrow> i | None \<Rightarrow> if v < hd ms then 0 else length ms - 1)"

text \<open>\<open>round(x, dp)\<close> of Python 2: half away from zero.\<close>

definition round_dp :: "rat \<Rightarrow> nat \<Rightarrow> rat" where
  "round_dp x dp =
     (let y = \<lfloor>\<bar>x\<bar> * 10 ^ dp + 1 / 2\<rfloor> in (if x < 0 then - 1 else 1) * of_int y / 10 ^ dp)"

definition nice_value :: "rat list \<Rightarrow> rat \<Rightarrow> nat \<Rightarrow> nat option \<Rightarrow> rat \<times> rat" where
  "nice_value ms v dp sigfigs =
     (let i = mult_index ms v; m = ms ! i; new = v / m
      in if sigfigs = None \<and> i < length ms - 1 \<and> round_dp new dp = round_dp (ms ! (i + 1) / m) dp
         then (ms ! (i + 1), v / ms ! (i + 1))
         else (m, new))"

text \<open>The whole text; \<open>fmt\<close> formats with a number of decimals or of significant figures.\<close>

definition nice_units ::
  "(nat + nat \<Rightarrow> rat \<Rightarrow> string) \<Rightarrow> rat \<Rightarrow> nat \<Rightarrow> nat option \<Rightarrow> string \<Rightarrow> string \<Rightarrow> bool \<Rightarrow> bool \<Rightarrow> bool \<Rightarrow> string" where
  "nice_units fmt v dp sigfigs suf space use_extra full bin =
     (let ps = prefixes bin use_extra;
          (m, new) = nice_value (sort (map fst ps)) v dp sigfigs;
          text = (case sigfigs of None \<Rightarrow> fmt (Inl dp) new | Some k \<Rightarrow> fmt (Inr k) new);
          names = (case map_of ps m of Some n \<Rightarrow> n | None \<Rightarrow> ([], []))
      in text @ space @ (if full then snd names else fst names) @ suf)"

section \<open>Ranges and random vectors\<close>

partial_function (option) float_range_loop :: "rat \<Rightarrow> rat \<Rightarrow> rat \<Rightarrow> rat list option" where
  "float_range_loop cur stop step =
     (if cur < stop then Option.bind (float_range_loop (cur + step) stop step) (\<lambda>l. Some (cur # l)) else Some [])"

definition float_range :: "rat \<Rightarrow> rat option \<Rightarrow> rat option \<Rightarrow> rat list option" where
  "float_range start stop step =
     (let (start, stop) = (case stop of None \<Rightarrow> (0, start) | Some s \<Rightarrow> (start, s));
          step = (case step of None \<Rightarrow> 1 | Some d \<Rightarrow> d)
      in float_range_loop start stop step)"

text \<open>\<open>draws\<close> are the random numbers below 1024; a \<open>max_value\<close> of 0 counts as none. Integer divisions.\<close>

definition random_vec :: "int list \<Rightarrow> int \<Rightarrow> int option \<Rightarrow> string result" where
  "random_vec draws bits max_value =
     rbind (rfold (\<lambda>i v. rbind (int2bin i 10) (\<lambda>w. Inr (v @ w))) (take (nat (bits div 10 + 1)) draws) []) (\<lambda>vector.
     rbind (case max_value of
              None \<Rightarrow> Inr vector
            | Some m \<Rightarrow>
                if m \<noteq> 0 \<and> m < 2 ^ nat bits - 1
                then rbind (bin2int vector) (\<lambda>x.
                     if 2 ^ nat bits - 1 = (0::int) then Inl ZeroDivisionError
                     else int2bin (x div (2 ^ nat bits - 1) * m) bits)
                else Inr vector) (\<lambda>vector. Inr (PyStr.slice vector 0 bits)))"

section \<open>Quantiles lie between the values\<close>

text \<open>Linear interpolation in a sorted list at the place \<open>r\<close>, counted from 1.\<close>

definition interpolate :: "rat list \<Rightarrow> rat \<Rightarrow> rat" where
  "interpolate s r =
     (let i = nat \<lfloor>r\<rfloor>; f = r - of_int \<lfloor>r\<rfloor>
      in if i < length s then (1 - f) * s ! (i - 1) + f * s ! i else s ! (i - 1))"

lemma quantile_interpolate:
  assumes "l \<noteq> []" and "0 \<le> p" and "p \<le> 1"
  shows "quantile l p = Inr (interpolate (sort l) (1 + of_nat (length l - 1) * p))"
proof -
  define r where "r = 1 + of_nat (length l - 1) * p"
  have n: "of_int (int (length l) - 1) = (of_nat (length l - 1) :: rat)" using assms(1) by (cases l) simp_all
  have r: "1 \<le> r" "r \<le> of_nat (length l)"
    using assms mult_left_mono [of p 1 "of_nat (length l - 1)"] by (cases l; simp add: r_def)+
  have i: "1 \<le> \<lfloor>r\<rfloor>" "\<lfloor>r\<rfloor> \<le> int (length l)"
    using r(1) floor_mono [OF r(2)] by (simp_all add: le_floor_iff)
  then have "py_index (sort l) (\<lfloor>r\<rfloor> - 1) = Inr (sort l ! nat (\<lfloor>r\<rfloor> - 1))"
    and "\<lfloor>r\<rfloor> < int (length l) \<Longrightarrow> py_index (sort l) \<lfloor>r\<rfloor> = Inr (sort l ! nat \<lfloor>r\<rfloor>)"
    by (simp_all add: py_index_def)
  moreover have "trunc r = \<lfloor>r\<rfloor>" using r(1) by (simp add: trunc_def)
  moreover have "nat \<lfloor>r\<rfloor> < length l \<longleftrightarrow> \<lfloor>r\<rfloor> < int (length l)" using i(1) by linarith
  moreover have "nat (\<lfloor>r\<rfloor> - 1) = nat \<lfloor>r\<rfloor> - 1" using i(1) by linarith
  ultimately show ?thesis
    unfolding quantile_def Let_def n r_def [symmetric] by (simp add: interpolate_def Let_def)
qed

text \<open>Between two neighbours the interpolation lies between them, and it is monotone.\<close>

lemma interpolate_between:
  assumes "sorted s" and "1 \<le> r" and "r \<le> of_nat (length s)"
  shows "s ! (nat \<lfloor>r\<rfloor> - 1) \<le> interpolate s r" and "nat \<lfloor>r\<rfloor> < length s \<Longrightarrow> interpolate s r \<le> s ! nat \<lfloor>r\<rfloor>"
    and "interpolate s r \<le> s ! (length s - 1)" and "nat \<lfloor>r\<rfloor> - 1 < length s"
proof -
  define i where "i = nat \<lfloor>r\<rfloor>"
  define f where "f = r - of_int \<lfloor>r\<rfloor>"
  have "1 \<le> \<lfloor>r\<rfloor>" "\<lfloor>r\<rfloor> \<le> int (length s)" using assms(2) floor_mono [OF assms(3)] by (simp_all add: le_floor_iff)
  then have i: "1 \<le> i" "i \<le> length s" unfolding i_def by linarith+
  show "nat \<lfloor>r\<rfloor> - 1 < length s" using i by (simp add: i_def [symmetric])
  have f: "0 \<le> f" "f < 1" using floor_correct [of r] by (simp_all add: f_def algebra_simps)
  have v: "interpolate s r = (if i < length s then s ! (i - 1) + f * (s ! i - s ! (i - 1)) else s ! (i - 1))"
    by (simp add: interpolate_def i_def f_def Let_def algebra_simps)
  have step: "s ! (i - 1) \<le> s ! i" if "i < length s" using assms(1) that by (intro sorted_nth_mono) simp_all
  have part: "0 \<le> f * (s ! i - s ! (i - 1))" "f * (s ! i - s ! (i - 1)) \<le> s ! i - s ! (i - 1)" if "i < length s"
    using step [OF that] f mult_right_mono [of f 1 "s ! i - s ! (i - 1)"] by simp_all
  show "s ! (nat \<lfloor>r\<rfloor> - 1) \<le> interpolate s r" using part(1) by (simp add: v i_def [symmetric])
  show upper: "interpolate s r \<le> s ! nat \<lfloor>r\<rfloor>" if "nat \<lfloor>r\<rfloor> < length s" using part(2) that by (simp add: v i_def [symmetric])
  show "interpolate s r \<le> s ! (length s - 1)"
  proof (cases "i < length s")
    case True
    then have "s ! i \<le> s ! (length s - 1)" using assms(1) by (intro sorted_nth_mono) simp_all
    then show ?thesis using upper True by (simp add: i_def)
  next
    case False
    then show ?thesis using i by (simp add: v)
  qed
qed

lemma interpolate_mono:
  assumes s: "sorted s" and r: "1 \<le> r" "r \<le> r'" "r' \<le> of_nat (length s)"
  shows "interpolate s r \<le> interpolate s r'"
proof -
  have r2: "1 \<le> r'" "r \<le> of_nat (length s)" using r by simp_all
  note lo = interpolate_between [OF s r(1) r2(2)] and hi = interpolate_between [OF s r2(1) r(3)]
  have le: "\<lfloor>r\<rfloor> \<le> \<lfloor>r'\<rfloor>" "1 \<le> \<lfloor>r\<rfloor>" using floor_mono [OF r(2)] r(1) by (simp_all only: one_le_floor)
  show ?thesis
  proof (cases "\<lfloor>r\<rfloor> = \<lfloor>r'\<rfloor>")
    case True
    let ?i = "nat \<lfloor>r\<rfloor>"
    have "s ! (?i - 1) \<le> s ! ?i" if "?i < length s" using s that by (intro sorted_nth_mono) simp_all
    then have "(r - of_int \<lfloor>r\<rfloor>) * (s ! ?i - s ! (?i - 1)) \<le> (r' - of_int \<lfloor>r\<rfloor>) * (s ! ?i - s ! (?i - 1))" if "?i < length s"
      using r(2) that by (intro mult_right_mono) simp_all
    then show ?thesis using True by (simp add: interpolate_def Let_def algebra_simps)
  next
    case False
    then have i: "nat \<lfloor>r\<rfloor> \<le> nat \<lfloor>r'\<rfloor> - 1" using le by linarith
    then have "nat \<lfloor>r\<rfloor> < length s" using hi(4) by linarith
    then have "interpolate s r \<le> s ! nat \<lfloor>r\<rfloor>" by (rule lo(2))
    also have "\<dots> \<le> s ! (nat \<lfloor>r'\<rfloor> - 1)" using s i hi(4) by (intro sorted_nth_mono)
    also have "\<dots> \<le> interpolate s r'" by (rule hi(1))
    finally show ?thesis .
  qed
qed

lemma quantile_place:
  fixes l :: "rat list" and p p' :: rat
  assumes "l \<noteq> []" and "0 \<le> p" and "p \<le> p'" and "p' \<le> 1"
  shows "1 \<le> 1 + of_nat (length l - 1) * p" "1 + of_nat (length l - 1) * p \<le> 1 + of_nat (length l - 1) * p'"
    "1 + of_nat (length l - 1) * p' \<le> of_nat (length (sort l))"
  using assms mult_left_mono [of p' 1 "of_nat (length l - 1)"] mult_left_mono [of p p' "of_nat (length l - 1)"]
  by (cases l; simp)+

text \<open>Quantiles of a list that is not empty lie between its least and its greatest element and grow with \<open>p\<close>.\<close>

theorem quantile_bounds:
  assumes "l \<noteq> []" and "0 \<le> p" and "p \<le> p'" and "p' \<le> 1"
  shows "\<exists>q q'. quantile l p = Inr q \<and> quantile l p' = Inr q' \<and> Min (set l) \<le> q \<and> q \<le> q' \<and> q' \<le> Max (set l)"
proof -
  let ?s = "sort l" and ?r = "1 + of_nat (length l - 1) * p" and ?r' = "1 + of_nat (length l - 1) * p'"
  note place = quantile_place [OF assms]
  have r: "1 \<le> ?r'" "?r \<le> of_nat (length ?s)" using place by linarith+
  have "quantile l p = Inr (interpolate ?s ?r)" "quantile l p' = Inr (interpolate ?s ?r')"
    using assms by (intro quantile_interpolate; linarith)+
  moreover have "interpolate ?s ?r \<le> interpolate ?s ?r'" by (rule interpolate_mono [OF sorted_sort place])
  moreover have "Min (set l) \<le> interpolate ?s ?r"
  proof -
    note b = interpolate_between [OF sorted_sort place(1) r(2)]
    have "?s ! (nat \<lfloor>?r\<rfloor> - 1) \<in> set l" using nth_mem [OF b(4)] by simp
    then have "Min (set l) \<le> ?s ! (nat \<lfloor>?r\<rfloor> - 1)" by (intro Min_le) simp_all
    then show ?thesis using b(1) by linarith
  qed
  moreover have "interpolate ?s ?r' \<le> Max (set l)"
  proof -
    note b = interpolate_between [OF sorted_sort r(1) place(3)]
    have "?s ! (length ?s - 1) \<in> set ?s" using assms(1) by (intro nth_mem) simp
    then have "?s ! (length ?s - 1) \<le> Max (set l)" by (intro Max_ge) simp_all
    then show ?thesis using b(3) by linarith
  qed
  ultimately show ?thesis by blast
qed

theorem quantile_bounds_witness:
  "\<exists>q q'. quantile [3, 1, 2] (1 / 4) = Inr q \<and> quantile [3, 1, 2] (3 / 4) = Inr q' \<and> 1 \<le> q \<and> q \<le> q' \<and> q' \<le> 3"
  using quantile_bounds [of "[3, 1, 2]" "1 / 4" "3 / 4"] by simp

text \<open>For the third and more values one lies between the quartiles, and of fewer none is far away.\<close>

lemma value_in_range:
  fixes s :: "rat list"
  assumes s: "sorted s" "s \<noteq> []"
  defines "q1 \<equiv> interpolate s (1 + of_nat (length s - 1) * (1 / 4))" and "q3 \<equiv> interpolate s (1 + of_nat (length s - 1) * (3 / 4))"
  shows "\<exists>x \<in> set s. q1 - (q3 - q1) * (3 / 2) \<le> x \<and> x \<le> q3 + (q3 - q1) * (3 / 2)"
proof -
  let ?r1 = "1 + of_nat (length s - 1) * (1 / 4) :: rat" and ?r3 = "1 + of_nat (length s - 1) * (3 / 4) :: rat"
  have r: "1 \<le> ?r1" "?r1 \<le> ?r3" "?r3 \<le> of_nat (length s)" using s(2) by (cases s; simp)+
  have mono: "q1 \<le> q3" unfolding q1_def q3_def by (rule interpolate_mono [OF s(1) r])
  consider a where "s = [a]" | a b where "s = [a, b]" | "length s \<ge> 3"
    using s(2) by (cases s; cases "tl s"; cases "tl (tl s)") auto
  then show ?thesis
  proof cases
    case 1
    then show ?thesis by (simp add: q1_def q3_def interpolate_def)
  next
    case 2
    then have "a \<le> b" using s(1) by simp
    have "\<lfloor>5 / 4 :: rat\<rfloor> = 1" "\<lfloor>7 / 4 :: rat\<rfloor> = 1" by (simp_all add: floor_eq_iff)
    then have "q1 = 3 / 4 * a + 1 / 4 * b" "q3 = 1 / 4 * a + 3 / 4 * b"
      using 2 by (simp_all add: q1_def q3_def interpolate_def Let_def)
    then show ?thesis using 2 \<open>a \<le> b\<close> by (simp add: field_simps)
  next
    case 3
    have r2: "1 \<le> ?r3" "?r1 \<le> of_nat (length s)" using r by linarith+
    note b1 = interpolate_between [OF s(1) r(1) r2(2), folded q1_def] and b3 = interpolate_between [OF s(1) r2(1) r(3), folded q3_def]
    have "of_nat (length s - 1) \<ge> (2 :: rat)" using 3 by (simp add: of_nat_diff)
    then have "?r1 + 1 \<le> ?r3" by linarith
    then have "\<lfloor>?r1\<rfloor> + 1 \<le> \<lfloor>?r3\<rfloor>" by (metis floor_add_int floor_mono of_int_1)
    moreover have "1 \<le> \<lfloor>?r1\<rfloor>" using r(1) by (simp only: one_le_floor)
    ultimately have i: "nat \<lfloor>?r1\<rfloor> \<le> nat \<lfloor>?r3\<rfloor> - 1" by linarith
    let ?x = "s ! nat \<lfloor>?r1\<rfloor>"
    have len: "nat \<lfloor>?r1\<rfloor> < length s" using i b3(4) by linarith
    have "?x \<le> s ! (nat \<lfloor>?r3\<rfloor> - 1)" using s(1) i b3(4) by (intro sorted_nth_mono)
    then have "q1 \<le> ?x" "?x \<le> q3" using b1(2) [OF len] b3(1) by linarith+
    moreover have "a - (b - a) * (3 / 2) \<le> x \<and> x \<le> b + (b - a) * (3 / 2)" if "a \<le> x" "x \<le> b" for a b x :: rat
      using that by (simp add: field_simps)
    ultimately show ?thesis using nth_mem [OF len] by blast
  qed
qed

lemma median_total: "s \<noteq> [] \<Longrightarrow> \<exists>m. median s = Inr m"
proof -
  assume s: "s \<noteq> []"
  let ?i = "length s div 2"
  have i: "?i < length s" using s by (cases s) simp_all
  have "int ?i - 1 = int (?i - 1)" if "even (length s)" using that s by (cases s) auto
  then have "median s = Inr (if even (length s) then (s ! ?i + s ! (?i - 1)) / 2 else s ! ?i)"
    using i py_index_nonneg [of ?i s] py_index_nonneg [of "?i - 1" s] by (simp add: median_def Let_def)
  then show ?thesis by blast
qed

text \<open>\<open>trim\<close> of a list that is not empty never fails and is not empty: it is the sorted list of exactly those values
  that are at most one and a half times the distance of the quartiles outside of them.\<close>

theorem trim_correct:
  assumes "l \<noteq> []"
  shows "\<exists>q1 q3 t. quantile l (1 / 4) = Inr q1 \<and> quantile l (3 / 4) = Inr q3 \<and> trim l = Inr t \<and> t \<noteq> [] \<and> sorted t \<and>
    mset t = filter_mset (\<lambda>x. q1 - 3 / 2 * (q3 - q1) \<le> x \<and> x \<le> q3 + 3 / 2 * (q3 - q1)) (mset l)"
proof -
  let ?s = "sort l"
  have s: "?s \<noteq> []" using assms by (metis length_0_conv length_sort)
  define q1 where "q1 = interpolate ?s (1 + of_nat (length ?s - 1) * (1 / 4))"
  define q3 where "q3 = interpolate ?s (1 + of_nat (length ?s - 1) * (3 / 4))"
  have q: "quantile l (1 / 4) = Inr q1" "quantile l (3 / 4) = Inr q3" "quantile ?s (1 / 4) = Inr q1" "quantile ?s (3 / 4) = Inr q3"
    using quantile_interpolate [OF assms, of "1 / 4"] quantile_interpolate [OF assms, of "3 / 4"]
      quantile_interpolate [OF s, of "1 / 4"] quantile_interpolate [OF s, of "3 / 4"]
    by (simp_all add: q1_def q3_def sorted_sort_id)
  obtain m where m: "median ?s = Inr m" using median_total [OF s] by blast
  let ?ok = "\<lambda>x. q1 - (q3 - q1) * (3 / 2) \<le> x \<and> x \<le> q3 + (q3 - q1) * (3 / 2)"
  have t: "trim l = Inr (filter ?ok ?s)" by (simp add: trim_def m q(3,4) Let_def)
  have "filter ?ok ?s \<noteq> []" using value_in_range [OF sorted_sort s, folded q1_def q3_def] by (auto simp: filter_empty_conv)
  moreover have "mset (filter ?ok ?s) = filter_mset ?ok (mset l)" by simp
  moreover have "sorted (filter ?ok ?s)" by (simp add: sorted_filter [of "\<lambda>x. x", simplified])
  ultimately show ?thesis using q(1,2) t by (auto simp: mult.commute)
qed

theorem trim_correct_witness: "\<exists>t. trim [2, 1, 3] = Inr t \<and> t \<noteq> [] \<and> sorted t"
  using trim_correct [of "[2, 1, 3]"] by blast

section \<open>The number shown is in the range of its unit\<close>

lemma round_dp_nonneg: "x \<ge> 0 \<Longrightarrow> round_dp x dp = of_int \<lfloor>x * 10 ^ dp + 1 / 2\<rfloor> / 10 ^ dp"
  by (simp add: round_dp_def Let_def)

lemma round_dp_mono: "0 \<le> x \<Longrightarrow> x \<le> y \<Longrightarrow> round_dp x dp \<le> round_dp y dp"
  by (simp add: round_dp_nonneg divide_right_mono floor_mono mult_right_mono)

lemma round_dp_nat: "round_dp (of_nat n) dp = of_nat n"
proof -
  have "of_nat n * 10 ^ dp = (of_int (int n * 10 ^ dp) :: rat)" by simp
  then have "\<lfloor>of_nat n * 10 ^ dp + 1 / 2 :: rat\<rfloor> = int n * 10 ^ dp" by (simp only: floor_eq_iff) simp
  then show ?thesis by (simp add: round_dp_nonneg)
qed

lemma mult_loop_found:
  "sorted ms \<Longrightarrow> ms \<noteq> [] \<Longrightarrow> hd ms \<le> v \<Longrightarrow> v < last ms \<Longrightarrow>
   \<exists>i. mult_loop v ms k = Some (k + i) \<and> i + 1 < length ms \<and> ms ! i \<le> v \<and> v < ms ! (i + 1)"
proof (induction v ms k rule: mult_loop.induct)
  case (1 v a b ms k)
  show ?case
  proof (cases "v < b")
    case True
    then show ?thesis using "1.prems" by (intro exI [of _ 0]) simp
  next
    case False
    then obtain i where "mult_loop v (b # ms) (Suc k) = Some (Suc k + i)" "i + 1 < length (b # ms)"
      "(b # ms) ! i \<le> v" "v < (b # ms) ! (i + 1)"
      using "1.IH" "1.prems" by auto
    then show ?thesis using False by (intro exI [of _ "i + 1"]) simp
  qed
qed auto

text \<open>Rounding up to the next unit gives one of it.\<close>

lemma round_up_one:
  assumes "R \<ge> 1" and "x \<ge> 0" and "x < of_nat R" and "round_dp x dp = of_nat R"
  shows "round_dp (x / of_nat R) dp = 1"
proof -
  let ?t = "10 ^ dp :: rat" and ?R = "of_nat R :: rat"
  have R: "?R \<ge> 1" using assms(1) by simp
  have "of_int \<lfloor>x * ?t + 1 / 2\<rfloor> = ?R * ?t" using assms(2,4) by (simp add: round_dp_nonneg field_simps)
  then have "?R * ?t \<le> x * ?t + 1 / 2" by (metis of_int_floor_le)
  then have "(?R * ?t - 1 / 2) / ?R \<le> x * ?t / ?R" using R by (intro divide_right_mono) simp_all
  moreover have "(?R * ?t - 1 / 2) / ?R = ?t - 1 / (2 * ?R)" using R by (simp add: field_simps)
  moreover have "1 / (2 * ?R) \<le> 1 / 2" using R by (simp add: field_simps)
  ultimately have low: "?t \<le> x / ?R * ?t + 1 / 2" by simp
  have "x / ?R < 1" using assms(3) R by simp
  then have "x / ?R * ?t < 1 * ?t" by (intro mult_strict_right_mono) simp_all
  then have "\<lfloor>x / ?R * ?t + 1 / 2\<rfloor> = 10 ^ dp" using low by (simp add: floor_eq_iff)
  then show ?thesis using assms(2) R by (simp add: round_dp_nonneg)
qed

lemma nice_value_in_unit:
  assumes ms: "sorted ms" "ms \<noteq> []" "hd ms \<le> v" "v < last ms" "0 < v"
    and ratio: "\<And>i. i + 1 < length ms \<Longrightarrow> ms ! (i + 1) = of_nat R * ms ! i \<and> 0 < ms ! i" and R: "R > 1"
  shows "\<exists>m new. nice_value ms v dp None = (m, new) \<and> m \<in> set ms \<and> new * m = v \<and> 1 \<le> round_dp new dp \<and> round_dp new dp < of_nat R"
proof -
  obtain i where i: "mult_loop v ms 0 = Some i" "i + 1 < length ms" "ms ! i \<le> v" "v < ms ! (i + 1)"
    using mult_loop_found [OF ms(1-4), of 0] by auto
  define m where "m = ms ! i"
  have next_m: "ms ! (i + 1) = of_nat R * m" and m: "m > 0" using ratio [OF i(2)] by (simp_all add: m_def)
  have index: "mult_index ms v = i" by (simp add: mult_index_def i(1))
  have new: "1 \<le> v / m" "v / m < of_nat R" using i(3,4) m next_m by (simp_all add: m_def [symmetric] field_simps)
  have ratio_m: "of_nat R * m / m = of_nat R" using m by simp
  have last: "i < length ms - 1" using i(2) by linarith
  have shown: "nice_value ms v dp None =
      (if round_dp (v / m) dp = of_nat R then (of_nat R * m, v / (of_nat R * m)) else (m, v / m))"
    unfolding nice_value_def index Let_def m_def [symmetric] ratio_m next_m round_dp_nat using last by simp
  have one: "round_dp 1 dp = 1" using round_dp_nat [of 1 dp] by simp
  have le: "1 \<le> round_dp (v / m) dp" "round_dp (v / m) dp \<le> of_nat R"
    using round_dp_mono [of 1 "v / m" dp] round_dp_mono [of "v / m" "of_nat R" dp] new by (simp_all add: one round_dp_nat)
  show ?thesis
  proof (cases "round_dp (v / m) dp = of_nat R")
    case True
    have "round_dp (v / m / of_nat R) dp = 1" using R new True by (intro round_up_one) simp_all
    then have "round_dp (v / (of_nat R * m)) dp = 1" by (simp add: mult.commute)
    moreover have "ms ! (i + 1) \<in> set ms" using i(2) by (intro nth_mem)
    ultimately show ?thesis using True R m unfolding shown next_m by simp
  next
    case False
    moreover have "m \<in> set ms" using i(2) by (simp add: m_def)
    ultimately show ?thesis using le m by (simp add: shown)
  qed
qed

lemma si_multipliers:
  "sort (map fst (prefixes False False)) =
     [1 / 10 ^ 24, 1 / 10 ^ 21, 1 / 10 ^ 18, 1 / 10 ^ 15, 1 / 10 ^ 12, 1 / 10 ^ 9, 1 / 10 ^ 6, 1 / 10 ^ 3, 1,
      10 ^ 3, 10 ^ 6, 10 ^ 9, 10 ^ 12, 10 ^ 15, 10 ^ 18, 10 ^ 21, 10 ^ 24]"
  by (simp add: prefixes_def si_prefixes_def)

lemma bin_multipliers:
  "sort (map fst (prefixes True b)) = [1, 2 ^ 10, 2 ^ 20, 2 ^ 30, 2 ^ 40, 2 ^ 50, 2 ^ 60]"
  by (simp add: prefixes_def bin_prefixes_def)

text \<open>With SI prefixes the rounded number in front of the unit is at least 1 and below 1000, also where rounding
  reaches the next unit, and stands for the value; this holds for values from yocto up to below yotta.\<close>

theorem nice_units_range:
  assumes "1 / 10 ^ 24 \<le> v" and "v < 10 ^ 24"
  shows "\<exists>m new. nice_value (sort (map fst (prefixes False False))) v dp None = (m, new) \<and>
    map_of (prefixes False False) m \<noteq> None \<and> new * m = v \<and> 1 \<le> round_dp new dp \<and> round_dp new dp < 1000"
proof -
  let ?ms = "sort (map fst (prefixes False False))"
  have pos: "0 < v" using assms(1) by (rule less_le_trans [rotated]) simp
  have "hd ?ms \<le> v" "v < last ?ms" "?ms \<noteq> []" using assms by (simp_all add: si_multipliers)
  moreover have "?ms ! (i + 1) = of_nat 1000 * ?ms ! i \<and> 0 < ?ms ! i" if "i + 1 < length ?ms" for i
  proof -
    have "i < 16" using that by (simp add: si_multipliers)
    then have "i \<in> {0, 1, 2, 3, 4, 5, 6, 7, 8, 9, 10, 11, 12, 13, 14, 15}" by (simp add: numeral_eq_Suc less_Suc_eq)
    then show ?thesis by (elim insertE emptyE) (simp_all add: si_multipliers)
  qed
  moreover have "(1000 :: nat) > 1" by simp
  ultimately obtain m new where m: "nice_value ?ms v dp None = (m, new)" "m \<in> set ?ms" "new * m = v" "1 \<le> round_dp new dp"
    "round_dp new dp < of_nat 1000"
    using nice_value_in_unit [OF sorted_sort, of "map fst (prefixes False False)" v 1000 dp] pos by blast
  have "map_of (prefixes False False) m \<noteq> None" using m(2) by (simp add: map_of_eq_None_iff)
  then show ?thesis using m by auto
qed

theorem nice_units_range_witness:
  "\<exists>m new. nice_value (sort (map fst (prefixes False False))) (9999996 / 10) 2 None = (m, new) \<and> new * m = 9999996 / 10 \<and>
     1 \<le> round_dp new 2 \<and> round_dp new 2 < 1000"
  using nice_units_range [of "9999996 / 10" 2] by auto

text \<open>Zero and negative values are shown in yocto, where the value is not between two multipliers.\<close>

lemma small_values_in_yocto:
  assumes "v \<le> 0"
  shows "fst (nice_value (sort (map fst (prefixes False False))) v dp (Some k)) = 1 / 10 ^ 24"
proof -
  have "mult_loop v ms k = None" if "list_all (\<lambda>m. 0 < m) ms" for ms k
    using that assms by (induction v ms k rule: mult_loop.induct) auto
  then have "mult_index (sort (map fst (prefixes False False))) v = 0"
    using assms unfolding si_multipliers by (simp add: mult_index_def)
  then show ?thesis unfolding si_multipliers by (simp add: nice_value_def)
qed

section \<open>Ranges of floats\<close>

lemma float_range_loop_Some:
  assumes "step > 0"
  shows "float_range_loop cur stop step = Some (map (\<lambda>i. cur + of_nat i * step) [0..<nat \<lceil>(stop - cur) / step\<rceil>])"
proof (induction "nat \<lceil>(stop - cur) / step\<rceil>" arbitrary: cur)
  case 0
  then have "(stop - cur) / step \<le> 0" by simp
  then have "\<not> cur < stop" using assms by (simp add: divide_le_0_iff)
  then show ?case using 0 by (simp add: float_range_loop.simps [of cur])
next
  case (Suc n)
  then have "(stop - cur) / step > 0" by linarith
  then have cur: "cur < stop" using assms by (simp add: zero_less_divide_iff)
  have "(stop - cur) / step = (stop - (cur + step)) / step + 1" using assms by (simp add: field_simps)
  then have n: "n = nat \<lceil>(stop - (cur + step)) / step\<rceil>" using Suc.hyps(2) by simp
  have "float_range_loop (cur + step) stop step = Some (map (\<lambda>i. cur + step + of_nat i * step) [0..<n])" using Suc.hyps(1) [OF n] n by simp
  moreover have "[0..<Suc n] = 0 # map Suc [0..<n]" by (simp add: map_Suc_upt upt_conv_Cons)
  ultimately show ?case
    using cur Suc.hyps(2) by (simp add: float_range_loop.simps [of cur] algebra_simps del: upt_Suc)
qed

lemma float_range_loop_None:
  assumes "step \<le> 0" and "cur < stop"
  shows "float_range_loop cur stop step = None"
proof (cases "float_range_loop cur stop step")
  case (Some l)
  have "step \<le> 0 \<longrightarrow> \<not> cur < stop"
  proof (rule float_range_loop.raw_induct [where P = "\<lambda>cur stop step l. step \<le> 0 \<longrightarrow> \<not> cur < stop", OF _ Some])
    fix loop and cur stop step :: rat and l :: "rat list"
    assume IH: "\<And>cur stop step l. loop cur stop step = Some l \<Longrightarrow> step \<le> 0 \<longrightarrow> \<not> cur < stop"
      and "(if cur < stop then Option.bind (loop (cur + step) stop step) (\<lambda>l. Some (cur # l)) else Some []) = Some l"
    then obtain y where "cur < stop \<Longrightarrow> loop (cur + step) stop step = Some y"
      by (auto simp: bind_eq_Some_conv split: if_splits)
    then have "cur < stop \<Longrightarrow> step \<le> 0 \<longrightarrow> \<not> cur + step < stop" using IH by blast
    then show "step \<le> 0 \<longrightarrow> \<not> cur < stop" by linarith
  qed
  then show ?thesis using assms by simp
qed

text \<open>\<open>float_range\<close> with a positive step returns the multiples of the step from the start that are below the end;
  with a step of zero or below it does not return if the start is below the end, and returns the empty list if not.\<close>

theorem float_range_outcome:
  "float_range start (Some stop) (Some step) =
     (if step > 0 then Some (map (\<lambda>i. start + of_nat i * step) [0..<nat \<lceil>(stop - start) / step\<rceil>])
      else if start < stop then None else Some [])"
  using float_range_loop_Some [of step start stop] float_range_loop_None [of step start stop]
  by (simp add: float_range_def float_range_loop.simps [of start])

text \<open>The integer division leaves of the random number only a multiple of the greatest value, which may not fit.\<close>

lemma random_vec_too_large: "random_vec [1023] 8 (Some 100) = Inl ValueError"
  by code_simp

end
