(* ===== verification/PyPath.thy ===== *)
theory PyPath
  imports PyStr
begin

text \<open>
  The functions of \<open>os.path\<close> (POSIX) the modelled code calls, on char lists: \<open>join\<close>,
  \<open>basename\<close>, \<open>dirname\<close>, \<open>normpath\<close>, \<open>abspath\<close>, \<open>relpath\<close>, and the laws the components
  use. The current directory is an argument.
\<close>

named_theorems path_simps \<open>rewriting rules of the path operations\<close>

definition path_join :: "string \<Rightarrow> string \<Rightarrow> string" where
  "path_join a b =
     (if startswith ''/'' b then b
      else if a = [] \<or> last a = CHR ''/'' then a @ b
      else a @ ''/'' @ b)"

definition path_basename :: "string \<Rightarrow> string" where
  "path_basename p = rev (takeWhile (\<lambda>c. c \<noteq> CHR ''/'') (rev p))"

definition path_dirname :: "string \<Rightarrow> string" where
  "path_dirname p =
     (let head = rev (dropWhile (\<lambda>c. c \<noteq> CHR ''/'') (rev p))
      in if list_all (\<lambda>c. c = CHR ''/'') head then head
         else rev (dropWhile (\<lambda>c. c = CHR ''/'') (rev head)))"

text \<open>\<open>os.path.splitext\<close>: the extension begins at the last dot that is not a leading one.\<close>

definition path_splitext :: "string \<Rightarrow> string \<times> string" where
  "path_splitext p =
     (let ext = takeWhile (\<lambda>c. c \<noteq> CHR ''.'' \<and> c \<noteq> CHR ''/'') (rev p);
          before = drop (length ext) (rev p)
      in case before of
           [] \<Rightarrow> (p, '''')
         | c # stem \<Rightarrow>
             if c = CHR ''.'' \<and> (\<exists>d \<in> set (takeWhile (\<lambda>d. d \<noteq> CHR ''/'') stem). d \<noteq> CHR ''.'')
             then (rev stem, c # rev ext) else (p, ''''))"

text \<open>The loop of \<open>normpath\<close> over the components.\<close>

fun norm_comps :: "bool \<Rightarrow> string list \<Rightarrow> string list \<Rightarrow> string list" where
  "norm_comps absolute acc [] = acc"
| "norm_comps absolute acc (part # comps) =
     (if part = [] \<or> part = ''.'' then norm_comps absolute acc comps
      else if part \<noteq> ''..'' \<or> (\<not> absolute \<and> acc = []) \<or> (acc \<noteq> [] \<and> last acc = ''..'')
      then norm_comps absolute (acc @ [part]) comps
      else norm_comps absolute (butlast acc) comps)"

definition path_normpath :: "string \<Rightarrow> string" where
  "path_normpath p =
     (let slashes = (if startswith ''//'' p \<and> \<not> startswith ''///'' p then 2
                     else if startswith ''/'' p then 1 else 0);
          r = replicate slashes CHR ''/'' @ join ''/'' (norm_comps (slashes \<noteq> 0) [] (split_char CHR ''/'' p))
      in if r = [] then ''.'' else r)"

definition path_abspath :: "string \<Rightarrow> string \<Rightarrow> string" where
  "path_abspath cwd p = path_normpath (if startswith ''/'' p then p else path_join cwd p)"

definition path_comps :: "string \<Rightarrow> string list" where
  "path_comps p = filter (\<lambda>c. c \<noteq> []) (split_char CHR ''/'' p)"

definition path_relpath :: "string \<Rightarrow> string \<Rightarrow> string \<Rightarrow> string" where
  "path_relpath cwd p start =
     (let start_list = path_comps (path_abspath cwd start);
          path_list = path_comps (path_abspath cwd p);
          i = length (longest_common_prefix start_list path_list);
          rel_list = replicate (length start_list - i) ''..'' @ drop i path_list
      in case rel_list of [] \<Rightarrow> ''.'' | c # cs \<Rightarrow> foldl path_join c cs)"

lemma path_join_relative [path_simps]:
  "a \<noteq> [] \<Longrightarrow> last a \<noteq> CHR ''/'' \<Longrightarrow> \<not> startswith ''/'' b \<Longrightarrow> path_join a b = a @ ''/'' @ b"
  by (simp add: path_join_def)

lemma path_join_absolute [path_simps]: "startswith ''/'' b \<Longrightarrow> path_join a b = b"
  by (simp add: path_join_def)

lemma startswith_char: "startswith [c] s \<longleftrightarrow> (\<exists>t. s = c # t)"
  by (cases s) (auto simp: startswith_def)

lemma path_basename_no_slash: "CHR ''/'' \<notin> set (path_basename p)"
  by (auto simp: path_basename_def dest: set_takeWhileD)

lemma path_basename_plain [path_simps]: "CHR ''/'' \<notin> set p \<Longrightarrow> path_basename p = p"
proof -
  assume "CHR ''/'' \<notin> set p"
  then have "takeWhile (\<lambda>c. c \<noteq> CHR ''/'') (rev p) = rev p"
    unfolding takeWhile_eq_all_conv by auto
  then show ?thesis by (simp only: path_basename_def rev_rev_ident)
qed

lemma path_basename_join [path_simps]:
  "CHR ''/'' \<notin> set b \<Longrightarrow> a \<noteq> [] \<Longrightarrow> path_basename (path_join a b) = b"
proof -
  assume b: "CHR ''/'' \<notin> set b" and a: "a \<noteq> []"
  have "\<exists>a'. path_join a b = a' @ CHR ''/'' # b"
  proof (cases "last a = CHR ''/''")
    case True
    then have "path_join a b = butlast a @ CHR ''/'' # b"
      using a b by (auto simp: path_join_def startswith_char)
        (metis append.assoc append_Cons append_Nil append_butlast_last_id)
    then show ?thesis by blast
  next
    case False
    then show ?thesis using a b by (auto simp: path_join_def startswith_char)
  qed
  moreover have "takeWhile (\<lambda>c. c \<noteq> CHR ''/'') (rev b @ CHR ''/'' # r) = rev b" for r
    using b by (subst takeWhile_append2) auto
  ultimately show ?thesis by (auto simp: path_basename_def)
qed

text \<open>Normalised components contain neither empty ones nor \<open>.\<close>.\<close>

lemma norm_comps_proper:
  "list_all (\<lambda>c. c \<noteq> [] \<and> c \<noteq> ''.'') acc \<Longrightarrow>
   list_all (\<lambda>c. c \<noteq> [] \<and> c \<noteq> ''.'') (norm_comps absolute acc comps)"
proof (induction absolute acc comps rule: norm_comps.induct)
  case (2 absolute acc part comps)
  have "list_all (\<lambda>c. c \<noteq> [] \<and> c \<noteq> ''.'') (butlast acc)"
    using "2.prems" by (auto simp: list_all_iff dest: in_set_butlastD)
  then show ?case using 2 by auto
qed simp

text \<open>Below the start directory the relative path is the rest of the components.\<close>

lemma foldl_path_join:
  "c \<noteq> [] \<Longrightarrow> last c \<noteq> CHR ''/'' \<Longrightarrow> (\<forall>x \<in> set cs. x \<noteq> [] \<and> CHR ''/'' \<notin> set x) \<Longrightarrow>
   foldl path_join c cs = join ''/'' (c # cs)"
proof (induction cs arbitrary: c)
  case (Cons d cs)
  have d: "d \<noteq> []" "CHR ''/'' \<notin> set d" using Cons.prems by auto
  then have j: "path_join c d = c @ ''/'' @ d"
    using Cons.prems by (auto simp: path_join_def startswith_char)
  have "last (c @ ''/'' @ d) \<noteq> CHR ''/''" using d by (metis last_append last_in_set append_is_Nil_conv)
  then have "foldl path_join (c @ ''/'' @ d) cs = join ''/'' ((c @ ''/'' @ d) # cs)"
    using Cons.IH [of "c @ ''/'' @ d"] Cons.prems by auto
  with j show ?case by (cases cs) auto
qed simp

lemma longest_common_prefix_append: "longest_common_prefix xs (xs @ ys) = xs"
  by (induction xs) auto

lemma path_relpath_below:
  assumes "path_comps (path_abspath cwd p) = path_comps (path_abspath cwd start) @ xs" and "xs \<noteq> []"
  shows "path_relpath cwd p start = join ''/'' xs"
proof -
  have "x \<noteq> [] \<and> CHR ''/'' \<notin> set x" if "x \<in> set xs" for x
  proof -
    have "x \<in> set (path_comps (path_abspath cwd p))" using that assms(1) by simp
    then show ?thesis by (auto simp: path_comps_def dest: split_char_pieces)
  qed
  note proper = this
  obtain c cs where xs: "xs = c # cs" using assms(2) by (cases xs) auto
  have c: "c \<noteq> []" "last c \<noteq> CHR ''/''" using proper [of c] xs last_in_set [of c] by (simp, metis list.set_intros(1))
  have "foldl path_join c cs = join ''/'' (c # cs)"
    using proper xs by (intro foldl_path_join c) auto
  moreover have "longest_common_prefix (path_comps (path_abspath cwd start))
      (path_comps (path_abspath cwd p)) = path_comps (path_abspath cwd start)"
    unfolding assms(1) by (rule longest_common_prefix_append)
  ultimately show ?thesis unfolding path_relpath_def Let_def by (simp add: assms(1) xs)
qed

end
