(* ===== verification/UtilsPy.thy ===== *)
theory UtilsPy
  imports PyPath
begin

text \<open>
  The configuration readers of \<open>src/utils.py\<close>: \<open>get_list_from_file\<close>, \<open>get_bool_from_file\<close>
  and \<open>read_config_file\<close>. A file system gives the lines of a file, if it exists; \<open>eval\<close> on
  the text of a value is an argument, \<open>ev\<close>.
\<close>

section \<open>Definitions\<close>

type_synonym files = "string \<Rightarrow> string list option"

definition strip_comment :: "string \<Rightarrow> string" where
  "strip_comment line =
     (if CHR ''#'' \<in> set line then split_once CHR ''#'' line ! 0 else line)"

text \<open>\<open>eval(text.split('=', 1)[1].strip())\<close>\<close>

definition eval_right_side :: "(string \<Rightarrow> 'a result) \<Rightarrow> string \<Rightarrow> 'a result" where
  "eval_right_side ev s = rbind (py_index (split_once CHR ''='' s) 1) (\<lambda>v. ev (strip v))"

fun list_loop ::
  "(string \<Rightarrow> 'a list result) \<Rightarrow> string \<Rightarrow> string \<Rightarrow> bool \<Rightarrow> string list \<Rightarrow> 'a list result" where
  "list_loop ev list_name list_string multiline [] = Inr []"
| "list_loop ev list_name list_string multiline (line # lines) =
     (let line = strip_comment line
      in if str_in list_name line \<or> multiline then
           (let list_string = list_string @ line
            in if CHR '']'' \<notin> set list_string
               then list_loop ev list_name list_string True lines
               else eval_right_side ev list_string)
         else list_loop ev list_name list_string multiline lines)"

definition get_list_from_file ::
  "(string \<Rightarrow> 'a list result) \<Rightarrow> files \<Rightarrow> string \<Rightarrow> string \<Rightarrow> 'a list result" where
  "get_list_from_file ev fs file_path list_name =
     (case fs file_path of
        None \<Rightarrow> Inr [] | Some lines \<Rightarrow> list_loop ev list_name [] False lines)"

text \<open>The loop of \<open>get_bool_from_file\<close>: the value, if the variable is found.\<close>

fun bool_loop :: "(string \<Rightarrow> bool result) \<Rightarrow> string \<Rightarrow> string list \<Rightarrow> bool option result" where
  "bool_loop ev bool_name [] = Inr None"
| "bool_loop ev bool_name (line # lines) =
     (let line = strip_comment line
      in if str_in bool_name line then rbind (eval_right_side ev line) (\<lambda>b. Inr (Some b))
         else bool_loop ev bool_name lines)"

text \<open>Without the file \<open>bool_found\<close> is never assigned.\<close>

definition get_bool_from_file ::
  "(string \<Rightarrow> bool result) \<Rightarrow> files \<Rightarrow> string \<Rightarrow> string \<Rightarrow> bool \<Rightarrow> bool result" where
  "get_bool_from_file ev fs file_path bool_name value_if_missing =
     (case fs file_path of
        None \<Rightarrow> Inl UnboundLocalError
      | Some lines \<Rightarrow>
          rbind (bool_loop ev bool_name lines)
            (\<lambda>found. Inr (case found of Some b \<Rightarrow> b | None \<Rightarrow> value_if_missing)))"

definition read_config_at ::
  "(string \<Rightarrow> string list result) \<Rightarrow> (string \<Rightarrow> bool result) \<Rightarrow> files \<Rightarrow> string \<Rightarrow>
   (bool \<times> string list \<times> bool \<times> bool) result" where
  "read_config_at evl evb fs path =
     rbind (get_list_from_file evl fs path ''modules_enabled'') (\<lambda>modules.
     rbind (get_bool_from_file evb fs path ''examples_enabled'' False) (\<lambda>examples_enabled.
     rbind (get_bool_from_file evb fs path ''tests_enabled'' False) (\<lambda>tests_enabled.
       Inr (True, if modules = [] then [''all_modules''] else modules,
            examples_enabled, tests_enabled))))"

definition read_config_file ::
  "(string \<Rightarrow> string list result) \<Rightarrow> (string \<Rightarrow> bool result) \<Rightarrow> files \<Rightarrow> string \<Rightarrow>
   (bool \<times> string list \<times> bool \<times> bool) result" where
  "read_config_file evl evb fs home =
     (if fs ''.ns3rc'' \<noteq> None then read_config_at evl evb fs ''.ns3rc''
      else if fs (home @ ''/'' @ ''.ns3rc'') \<noteq> None
      then read_config_at evl evb fs (home @ ''/'' @ ''.ns3rc'')
      else Inr (False, [''all_modules''], False, False))"

section \<open>Lemmas\<close>

lemma strip_comment_eq: "strip_comment line = takeWhile (\<lambda>c. c \<noteq> CHR ''#'') line"
proof (cases "CHR ''#'' \<in> set line")
  case True
  then obtain a b where l: "line = a @ CHR ''#'' # b" "CHR ''#'' \<notin> set a"
    using split_list_first by metis
  then have "takeWhile (\<lambda>c. c \<noteq> CHR ''#'') line = a" by (subst l(1), subst takeWhile_append2) auto
  then show ?thesis using l split_once_sep [OF l(2), of b] by (simp add: strip_comment_def)
next
  case False
  then have "takeWhile (\<lambda>c. c \<noteq> CHR ''#'') line = line" unfolding takeWhile_eq_all_conv by auto
  with False show ?thesis by (simp only: strip_comment_def if_False)
qed

lemma list_loop_skip:
  "\<forall>l \<in> set pre. \<not> str_in name (strip_comment l) \<Longrightarrow>
   list_loop ev name s False (pre @ rest) = list_loop ev name s False rest"
  by (induction pre) (auto simp: Let_def)

lemma list_loop_multiline:
  "CHR '']'' \<notin> set (s @ concat (map strip_comment body)) \<Longrightarrow> CHR '']'' \<in> set (strip_comment l) \<Longrightarrow>
   list_loop ev name s True (body @ l # rest) =
     eval_right_side ev (s @ concat (map strip_comment body) @ strip_comment l)"
  by (induction body arbitrary: s) (auto simp: Let_def)

lemma list_loop_none:
  "\<forall>l \<in> set lines. \<not> str_in name (strip_comment l) \<Longrightarrow> list_loop ev name s False lines = Inr []"
  by (induction lines) (auto simp: Let_def)

text \<open>The text of a list that starts in the line \<open>first\<close> and whose bracket closes in \<open>l\<close>.\<close>

lemma list_loop_found:
  assumes "\<forall>l \<in> set pre. \<not> str_in name (strip_comment l)"
    and "str_in name (strip_comment first)"
    and "CHR '']'' \<notin> set (concat (map strip_comment (first # body)))"
    and "CHR '']'' \<in> set (strip_comment l)"
  shows "list_loop ev name [] False (pre @ first # body @ l # post) =
    eval_right_side ev (concat (map strip_comment (first # body)) @ strip_comment l)"
proof -
  have "CHR '']'' \<notin> set (strip_comment first @ concat (map strip_comment body))"
    using assms(3) by simp
  then have "list_loop ev name (strip_comment first) True (body @ l # post) =
      eval_right_side ev (strip_comment first @ concat (map strip_comment body) @ strip_comment l)"
    using assms(4) by (rule list_loop_multiline)
  then show ?thesis
    unfolding list_loop_skip [OF assms(1)] using assms(2,3) by (simp add: Let_def)
qed

section \<open>Properties\<close>

text \<open>
  \<open>get_list_from_file\<close> finds a list that extends over several lines: comments are cut
  from every line, lines before the first mention of the name are skipped, and what is
  evaluated is the text after the first equals sign up to the line that closes the bracket.\<close>

theorem get_list_multiline:
  assumes "fs path = Some (pre @ first # body @ l # post)"
    and "list_all (\<lambda>x. \<not> str_in name (strip_comment x)) pre"
    and "str_in name (strip_comment first)"
    and "concat (map strip_comment (first # body)) = lhs @ ''='' @ rhs" and "CHR ''='' \<notin> set lhs"
    and "CHR '']'' \<notin> set (lhs @ rhs)" and "CHR '']'' \<in> set (strip_comment l)"
  shows "get_list_from_file ev fs path name = ev (strip (rhs @ strip_comment l))"
proof -
  have "split_once CHR ''='' (lhs @ CHR ''='' # rhs @ strip_comment l) = [lhs, rhs @ strip_comment l]"
    using assms(5) by (rule split_once_sep)
  then have "eval_right_side ev (lhs @ CHR ''='' # rhs @ strip_comment l) = ev (strip (rhs @ strip_comment l))"
    by (simp add: eval_right_side_def py_index_def)
  moreover have "list_loop ev name [] False (pre @ first # body @ l # post) =
      eval_right_side ev (concat (map strip_comment (first # body)) @ strip_comment l)"
    using assms by (intro list_loop_found) (auto simp: list_all_iff)
  ultimately show ?thesis
    unfolding get_list_from_file_def assms(1) option.case assms(4) by simp
qed

definition demo_rc :: files where
  "demo_rc p = (if p = ''.ns3rc'' then
     Some [''# config'', ''modules_enabled = [ # all'', ''core,'', ''wifi]'', ''tests_enabled = True'']
     else None)"

theorem get_list_multiline_witness:
  "get_list_from_file (\<lambda>s. Inr (split_char CHR '','' s)) demo_rc ''.ns3rc'' ''modules_enabled'' =
     Inr (split_char CHR '','' (strip ('' [ core,'' @ ''wifi]'')))"
  using get_list_multiline [of demo_rc "''.ns3rc''" "[''# config'']" "''modules_enabled = [ # all''"
      "[''core,'']" "''wifi]''" "[''tests_enabled = True'']" "''modules_enabled''" "''modules_enabled ''"
      "'' [ core,''" "\<lambda>s. Inr (split_char CHR '','' s)"]
  by (simp add: demo_rc_def strip_comment_eq startswith_def)

text \<open>No evaluation and no index error is an unbound variable.\<close>

lemma eval_right_side_bound:
  "(\<And>v. ev v \<noteq> Inl UnboundLocalError) \<Longrightarrow> eval_right_side ev s \<noteq> Inl UnboundLocalError"
  by (auto simp: eval_right_side_def rbind_Inl_iff py_index_def Let_def split: if_splits)

lemma list_loop_bound:
  "(\<And>v. ev v \<noteq> Inl UnboundLocalError) \<Longrightarrow> list_loop ev name s m lines \<noteq> Inl UnboundLocalError"
  by (induction ev name s m lines rule: list_loop.induct) (auto simp: Let_def eval_right_side_bound)

lemma bool_loop_bound:
  "(\<And>v. ev v \<noteq> Inl UnboundLocalError) \<Longrightarrow> bool_loop ev name lines \<noteq> Inl UnboundLocalError"
  by (induction lines) (auto simp: Let_def rbind_Inl_iff eval_right_side_bound)

text \<open>\<open>get_bool_from_file\<close> runs into an unbound variable exactly when its file does not
  exist (where its documentation promises the default value), and \<open>read_config_file\<close>, which
  tests for the file first, never does.\<close>

theorem read_config_file_bound:
  assumes "\<And>v. evl v \<noteq> Inl UnboundLocalError" and "\<And>v. evb v \<noteq> Inl UnboundLocalError"
  shows "(get_bool_from_file evb fs path name dflt = Inl UnboundLocalError \<longleftrightarrow> fs path = None) \<and>
    read_config_file evl evb fs home \<noteq> Inl UnboundLocalError"
proof -
  have b: "get_bool_from_file evb fs p n d = Inl UnboundLocalError \<longleftrightarrow> fs p = None" for p n d
    using bool_loop_bound [OF assms(2)]
    by (auto simp: get_bool_from_file_def rbind_Inl_iff split: option.splits)
  moreover have "get_list_from_file evl fs p n \<noteq> Inl UnboundLocalError" for p n
    using list_loop_bound [OF assms(1)] by (simp add: get_list_from_file_def split: option.splits)
  ultimately show ?thesis
    by (auto simp: read_config_file_def read_config_at_def rbind_Inl_iff)
qed

theorem read_config_file_bound_witness:
  "(get_bool_from_file (\<lambda>s. Inr (s = ''True'')) demo_rc ''.ns3'' ''tests_enabled'' False =
      Inl UnboundLocalError \<longleftrightarrow> demo_rc ''.ns3'' = None) \<and>
   read_config_file (\<lambda>s. Inr (split_char CHR '','' s)) (\<lambda>s. Inr (s = ''True'')) demo_rc ''/home/u'' \<noteq>
     Inl UnboundLocalError"
  by (rule read_config_file_bound) simp_all

end
