(* ===== verification/TestConfig.thy ===== *)
theory TestConfig
  imports UtilsPy
begin

text \<open>
  How \<open>src/test.py\<close> finds out what to run: \<open>read_waf_config\<close> on the lock file and the cache
  of waf, \<open>make_paths\<close> on the process environment, \<open>parse_examples_to_run_file\<close>, and the loops
  of \<open>run_tests\<close> over the directories with examples. \<open>eval\<close> and \<open>exec\<close> of Python text are
  arguments; the files and the existence test are those of a file system argument.
\<close>

section \<open>Definitions\<close>

text \<open>The global variables of \<open>test.py\<close> that waf's configuration sets.\<close>

record waf_config =
  ns3_enabled_modules :: "string list"
  ns3_contributed_modules :: "string list"
  ns3_module_path :: "string list"
  nsc_enabled :: bool
  enable_examples :: bool
  enable_tests :: bool
  example_directories :: "string list"
  enable_python_bindings :: bool
  appname :: string
  build_profile :: string
  version :: string
  python_command :: "string list"
  valgrind_found :: bool
  basedir_of :: string
  builddir_of :: string

definition interesting_config_items :: "string list" where
  "interesting_config_items =
     [''NS3_ENABLED_MODULES'', ''NS3_ENABLED_CONTRIBUTED_MODULES'', ''NS3_MODULE_PATH'',
      ''NSC_ENABLED'', ''ENABLE_REAL_TIME'', ''ENABLE_THREADING'', ''ENABLE_EXAMPLES'',
      ''ENABLE_TESTS'', ''EXAMPLE_DIRECTORIES'', ''ENABLE_PYTHON_BINDINGS'', ''NSCLICK'',
      ''ENABLE_BRITE'', ''ENABLE_OPENFLOW'', ''APPNAME'', ''BUILD_PROFILE'', ''VERSION'',
      ''PYTHON'', ''VALGRIND_FOUND'']"

text \<open>\<open>key, val = line.split('=')\<close> and \<open>eval(val.strip())\<close>\<close>

definition eval_assignment :: "(string \<Rightarrow> string result) \<Rightarrow> string \<Rightarrow> string result" where
  "eval_assignment ev line =
     (case split_char CHR ''='' line of
        [key, val] \<Rightarrow> ev (strip val) | _ \<Rightarrow> Inl ValueError)"

fun lock_loop ::
  "(string \<Rightarrow> string result) \<Rightarrow> string option \<Rightarrow> string option \<Rightarrow> string list \<Rightarrow>
   (string option \<times> string option) result" where
  "lock_loop ev top_dir out_dir [] = Inr (top_dir, out_dir)"
| "lock_loop ev top_dir out_dir (line # lines) =
     rbind (if startswith ''top_dir ='' line
            then rbind (eval_assignment ev line) (\<lambda>v. Inr (Some v)) else Inr top_dir) (\<lambda>top_dir.
     rbind (if startswith ''out_dir ='' line
            then rbind (eval_assignment ev line) (\<lambda>v. Inr (Some v)) else Inr out_dir) (\<lambda>out_dir.
       lock_loop ev top_dir out_dir lines))"

text \<open>A line is executed once for every item it starts with.\<close>

fun exec_items :: "(string \<Rightarrow> 'g \<Rightarrow> 'g result) \<Rightarrow> string \<Rightarrow> string list \<Rightarrow> 'g \<Rightarrow> 'g result" where
  "exec_items ex line [] g = Inr g"
| "exec_items ex line (item # items) g =
     rbind (if startswith item line then ex line g else Inr g) (exec_items ex line items)"

fun cache_loop :: "(string \<Rightarrow> 'g \<Rightarrow> 'g result) \<Rightarrow> string list \<Rightarrow> 'g \<Rightarrow> 'g result" where
  "cache_loop ex [] g = Inr g"
| "cache_loop ex (line # lines) g =
     rbind (exec_items ex line interesting_config_items g) (cache_loop ex lines)"

definition open_file :: "files \<Rightarrow> string \<Rightarrow> string list result" where
  "open_file fs path =
     (case fs path of None \<Rightarrow> Inl (OtherException ''FileNotFoundError'') | Some ls \<Rightarrow> Inr ls)"

definition read_waf_config ::
  "(string \<Rightarrow> string result) \<Rightarrow> (string \<Rightarrow> 'g \<Rightarrow> 'g result) \<Rightarrow> files \<Rightarrow> string \<Rightarrow> 'g \<Rightarrow>
   (string \<times> string \<times> 'g) result" where
  "read_waf_config ev ex fs platform g =
     rbind (open_file fs (''.lock-waf_'' @ platform @ ''_build'')) (\<lambda>lock.
     rbind (lock_loop ev None None lock) (\<lambda>dirs.
       case dirs of
         (Some top_dir, Some out_dir) \<Rightarrow>
           rbind (open_file fs (out_dir @ ''/c4che/_cache.py'')) (\<lambda>cache.
           rbind (cache_loop ex cache g) (\<lambda>g. Inr (top_dir, out_dir, g)))
       | _ \<Rightarrow> Inl UnboundLocalError))"

text \<open>The environment after \<open>os.environ[var] += sep + path\<close> for every module path.\<close>

definition append_paths ::
  "string \<Rightarrow> string \<Rightarrow> string list \<Rightarrow> (string, string) pydict \<Rightarrow> (string, string) pydict" where
  "append_paths var sep paths env =
     fold (\<lambda>path env. dict_put var (the (dict_get env var) @ sep @ path) env) paths env"

definition library_path_var :: "string \<Rightarrow> string \<times> string" where
  "library_path_var platform =
     (if platform = ''darwin'' then (''DYLD_LIBRARY_PATH'', '':'')
      else if platform = ''win32'' then (''PATH'', '';'')
      else if platform = ''cygwin'' then (''PATH'', '':'')
      else (''LD_LIBRARY_PATH'', '':''))"

definition make_paths ::
  "string \<Rightarrow> string \<Rightarrow> string list \<Rightarrow> (string, string) pydict \<Rightarrow> (string, string) pydict" where
  "make_paths platform builddir module_path env =
     (let keys = dict_keys env;
          pypath = path_join (path_join builddir ''bindings'') ''python'';
          env = dict_put ''PYTHONPATH'' pypath env;
          env = (if ''PYTHONPATH'' \<notin> set keys then dict_put ''PYTHONPATH'' pypath env
                 else dict_put ''PYTHONPATH'' (the (dict_get env ''PYTHONPATH'') @ '':'' @ pypath) env);
          (var, sep) = library_path_var platform;
          env = (if var \<notin> set keys then dict_put var '''' env else env)
      in append_paths var sep module_path env)"

section \<open>The examples\<close>

definition profile_suffix :: "waf_config \<Rightarrow> string" where
  "profile_suffix cfg =
     (if build_profile cfg = ''release'' then '''' else ''-'' @ build_profile cfg)"

text \<open>\<open>"%s%s-%s%s" % (APPNAME, VERSION, name, BUILD_PROFILE_SUFFIX)\<close>\<close>

definition program_name :: "waf_config \<Rightarrow> string \<Rightarrow> string" where
  "program_name cfg name = appname cfg @ version cfg @ ''-'' @ name @ profile_suffix cfg"

text \<open>Name, path, condition and condition under valgrind; path and condition.\<close>

type_synonym cpp_test = "string \<times> string \<times> string \<times> string"
type_synonym python_test = "string \<times> string"
type_synonym test_lists = "cpp_test list \<times> string list \<times> python_test list"

definition add_cpp_example ::
  "waf_config \<Rightarrow> (string \<Rightarrow> bool) \<Rightarrow> string \<Rightarrow> string \<Rightarrow> string \<times> string \<times> string \<Rightarrow> test_lists \<Rightarrow> test_lists" where
  "add_cpp_example cfg exists cwd_dir cpp_dir entry tests =
     (case entry of (example, do_run, do_valgrind_run) \<Rightarrow>
      case tests of (example_tests, names_original, python_tests) \<Rightarrow>
        let parts = split_once CHR '' '' example;
            path = path_join cpp_dir (program_name cfg (parts ! 0));
            name = path_join (path_relpath cwd_dir cpp_dir (builddir_of cfg)) (parts ! 0)
        in if exists path
           then (example_tests @
                   [if length parts \<noteq> 1
                    then (name @ '' '' @ parts ! 1, path @ '' '' @ parts ! 1, do_run, do_valgrind_run)
                    else (name, path, do_run, do_valgrind_run)],
                 names_original @ [example], python_tests)
           else tests)"

definition add_python_example ::
  "(string \<Rightarrow> bool) \<Rightarrow> string \<Rightarrow> string \<times> string \<Rightarrow> test_lists \<Rightarrow> test_lists" where
  "add_python_example exists script_dir entry tests =
     (case entry of (example, do_run) \<Rightarrow>
      case tests of (example_tests, names_original, python_tests) \<Rightarrow>
        let parts = split_once CHR '' '' example;
            path = path_join script_dir (parts ! 0)
        in if exists path
           then (example_tests, names_original,
                 python_tests @ [(if length parts \<noteq> 1 then path @ '' '' @ parts ! 1 else path, do_run)])
           else tests)"

text \<open>What the code reads of the outside world.\<close>

record world =
  wfiles :: files
  wexists :: "string \<Rightarrow> bool"
  wcwd :: string
  eval_cpp :: "string \<Rightarrow> (string \<times> string \<times> string) list result"
  eval_python :: "string \<Rightarrow> (string \<times> string) list result"
  eval_strings :: "string \<Rightarrow> string list result"

definition parse_examples_to_run_file ::
  "world \<Rightarrow> waf_config \<Rightarrow> string \<times> string \<times> string \<Rightarrow> test_lists \<Rightarrow> test_lists result" where
  "parse_examples_to_run_file w cfg dirs tests =
     (case dirs of (to_run_path, cpp_dir, script_dir) \<Rightarrow>
        if wexists w to_run_path then
          rbind (get_list_from_file (eval_cpp w) (wfiles w) to_run_path ''cpp_examples'') (\<lambda>cpp.
          let tests = fold (add_cpp_example cfg (wexists w) (wcwd w) cpp_dir) cpp tests
          in rbind (get_list_from_file (eval_python w) (wfiles w) to_run_path ''python_examples'') (\<lambda>py.
             Inr (fold (add_python_example (wexists w) script_dir) py tests)))
        else Inr tests)"

definition directory_paths :: "waf_config \<Rightarrow> string \<Rightarrow> string \<times> string \<times> string" where
  "directory_paths cfg directory =
     (let example_directory = path_join ''examples'' directory
      in (path_join example_directory ''examples-to-run.py'',
          path_join (builddir_of cfg) example_directory, example_directory))"

text \<open>The same for a module below \<open>src\<close> or \<open>contrib\<close>, without its prefix \<open>ns3-\<close>.\<close>

definition module_paths :: "waf_config \<Rightarrow> string \<Rightarrow> string \<Rightarrow> string \<times> string \<times> string" where
  "module_paths cfg tree module =
     (let module_directory = path_join tree (drop 4 module);
          example_directory = path_join module_directory ''examples''
      in (path_join (path_join module_directory ''test'') ''examples-to-run.py'',
          path_join (builddir_of cfg) example_directory, example_directory))"

definition example_paths :: "waf_config \<Rightarrow> (string \<times> string \<times> string) list" where
  "example_paths cfg =
     map (directory_paths cfg) (example_directories cfg) @
     map (module_paths cfg ''src'') (ns3_enabled_modules cfg) @
     map (module_paths cfg ''contrib'') (ns3_contributed_modules cfg)"

fun collect_examples ::
  "world \<Rightarrow> waf_config \<Rightarrow> (string \<times> string \<times> string) list \<Rightarrow> test_lists \<Rightarrow> test_lists result" where
  "collect_examples w cfg [] tests = Inr tests"
| "collect_examples w cfg (dirs # rest) tests =
     rbind (parse_examples_to_run_file w cfg dirs tests) (collect_examples w cfg rest)"

section \<open>Lemmas\<close>

lemma append_paths_get:
  "dict_get env var = Some v \<Longrightarrow>
   dict_get (append_paths var sep paths env) k =
     (if k = var then Some (v @ concat (map ((@) sep) paths)) else dict_get env k)"
proof (induction paths arbitrary: env v)
  case Nil
  then show ?case by (simp add: append_paths_def)
next
  case (Cons p paths)
  let ?env = "dict_put var (the (dict_get env var) @ sep @ p) env"
  have "append_paths var sep (p # paths) env = append_paths var sep paths ?env"
    by (simp add: append_paths_def)
  moreover have "dict_get ?env var = Some (v @ sep @ p)" using Cons.prems by (simp add: dict_simps)
  ultimately show ?case using Cons.IH [of ?env "v @ sep @ p"] by (auto simp: dict_simps)
qed

lemma library_var_not_pythonpath: "fst (library_path_var platform) \<noteq> ''PYTHONPATH''"
  by (simp add: library_path_var_def)

text \<open>An entry of the lists: an existing program or script, possibly with arguments.\<close>

definition runs_existing :: "(string \<Rightarrow> bool) \<Rightarrow> string \<Rightarrow> bool" where
  "runs_existing exists path \<longleftrightarrow> (\<exists>p args. (path = p \<or> path = p @ '' '' @ args) \<and> exists p)"

definition tests_ok :: "(string \<Rightarrow> bool) \<Rightarrow> test_lists \<Rightarrow> bool" where
  "tests_ok exists tests \<longleftrightarrow>
     (case tests of (example_tests, names_original, python_tests) \<Rightarrow>
        length names_original = length example_tests \<and>
        (\<forall>(name, path, c1, c2) \<in> set example_tests. runs_existing exists path) \<and>
        (\<forall>(path, c) \<in> set python_tests. runs_existing exists path))"

lemma runs_existing_args: "exists p \<Longrightarrow> runs_existing exists p" "exists p \<Longrightarrow> runs_existing exists (p @ '' '' @ args)"
  by (auto simp: runs_existing_def)

lemma add_cpp_example_ok:
  "tests_ok exists tests \<Longrightarrow> tests_ok exists (add_cpp_example cfg exists cwd_dir cpp_dir entry tests)"
  using runs_existing_args [of "exists"]
  by (auto simp: tests_ok_def add_cpp_example_def Let_def split: prod.splits)

lemma add_python_example_ok:
  "tests_ok exists tests \<Longrightarrow> tests_ok exists (add_python_example exists script_dir entry tests)"
  using runs_existing_args [of "exists"]
  by (auto simp: tests_ok_def add_python_example_def Let_def split: prod.splits)

lemma fold_ok: "(\<And>x s. P s \<Longrightarrow> P (f x s)) \<Longrightarrow> P s \<Longrightarrow> P (fold f xs s)"
  by (induction xs arbitrary: s) auto

lemma parse_examples_ok:
  assumes "parse_examples_to_run_file w cfg dirs tests = Inr tests'" and "tests_ok (wexists w) tests"
  shows "tests_ok (wexists w) tests'"
proof -
  obtain a b c where dirs: "dirs = (a, b, c)" by (cases dirs)
  show ?thesis
  proof (cases "wexists w a")
    case True
    then have "rbind (get_list_from_file (eval_cpp w) (wfiles w) a ''cpp_examples'') (\<lambda>cpp.
        rbind (get_list_from_file (eval_python w) (wfiles w) a ''python_examples'') (\<lambda>py.
          Inr (fold (add_python_example (wexists w) c) py
            (fold (add_cpp_example cfg (wexists w) (wcwd w) b) cpp tests)))) = Inr tests'"
      using assms(1) unfolding parse_examples_to_run_file_def dirs prod.case Let_def by (simp only: if_True)
    then obtain cpp py where tests': "tests' = fold (add_python_example (wexists w) c) py
        (fold (add_cpp_example cfg (wexists w) (wcwd w) b) cpp tests)"
      unfolding rbind_Inr_iff by blast
    note keeps = fold_ok [where P = "tests_ok (wexists w)"]
    show ?thesis unfolding tests'
      by (rule keeps, erule add_python_example_ok, rule keeps, erule add_cpp_example_ok) (rule assms(2))
  qed (use assms in \<open>simp add: parse_examples_to_run_file_def dirs\<close>)
qed

lemma collect_examples_ok:
  "collect_examples w cfg paths tests = Inr tests' \<Longrightarrow> tests_ok (wexists w) tests \<Longrightarrow>
   tests_ok (wexists w) tests'"
  by (induction paths arbitrary: tests) (auto simp: rbind_Inr_iff dest: parse_examples_ok)

section \<open>Properties\<close>

text \<open>What \<open>make_paths\<close> leaves in the environment: the library path variable of the
  platform is its old value followed by every module path, each after a separator; but the
  user's \<open>PYTHONPATH\<close> is overwritten before it is extended, so that its old value is lost and
  the bindings directory is doubled; all other variables are unchanged.\<close>

theorem make_paths_environment:
  fixes env :: "(string, string) pydict" and platform builddir :: string
    and module_path :: "string list"
  defines "pypath \<equiv> path_join (path_join builddir ''bindings'') ''python''"
  defines "env' \<equiv> make_paths platform builddir module_path env"
  shows "dict_get env' k =
    (if k = ''PYTHONPATH''
     then Some (if dict_get env ''PYTHONPATH'' = None then pypath else pypath @ '':'' @ pypath)
     else if k = fst (library_path_var platform)
     then Some ((case dict_get env k of None \<Rightarrow> '''' | Some v \<Rightarrow> v) @
            concat (map ((@) (snd (library_path_var platform))) module_path))
     else dict_get env k)"
proof -
  obtain var sep where v: "library_path_var platform = (var, sep)" by (cases "library_path_var platform")
  have ne: "var \<noteq> ''PYTHONPATH''" using library_var_not_pythonpath [of platform] v by simp
  define e1 where "e1 = dict_put ''PYTHONPATH'' pypath env"
  define e2 where "e2 = (if ''PYTHONPATH'' \<notin> set (dict_keys env) then dict_put ''PYTHONPATH'' pypath e1
    else dict_put ''PYTHONPATH'' (the (dict_get e1 ''PYTHONPATH'') @ '':'' @ pypath) e1)"
  define e3 where "e3 = (if var \<notin> set (dict_keys env) then dict_put var '''' e2 else e2)"
  have env': "env' = append_paths var sep module_path e3"
    unfolding env'_def make_paths_def e3_def e2_def e1_def pypath_def by (simp add: v Let_def)
  have e2: "dict_get e2 k = (if k = ''PYTHONPATH''
      then Some (if dict_get env ''PYTHONPATH'' = None then pypath else pypath @ '':'' @ pypath)
      else dict_get env k)" for k
    by (simp add: e2_def e1_def dict_simps pd.keys_get)
  have e3: "dict_get e3 k = (if k = var then Some (case dict_get env k of None \<Rightarrow> '''' | Some v \<Rightarrow> v)
      else dict_get e2 k)" for k
    using ne by (auto simp: e3_def dict_simps pd.keys_get e2 split: option.splits)
  have "dict_get e3 var = Some (case dict_get env var of None \<Rightarrow> '''' | Some v \<Rightarrow> v)" by (simp add: e3)
  from append_paths_get [OF this, of sep module_path k] show ?thesis
    using ne by (simp add: env' e3 e2 v)
qed

text \<open>Every example that \<open>test.py\<close> lists for running is a program or script that exists,
  with the arguments of its entry at most, and one original name is kept per C++ example.\<close>

theorem examples_exist:
  assumes "collect_examples w cfg (example_paths cfg) ([], [], []) = Inr tests"
  shows "tests_ok (wexists w) tests"
  by (rule collect_examples_ok [OF assms]) (simp add: tests_ok_def)

definition demo_waf :: waf_config where
  "demo_waf = \<lparr>ns3_enabled_modules = [''ns3-core''], ns3_contributed_modules = [],
     ns3_module_path = [''/n/build''], nsc_enabled = False, enable_examples = True,
     enable_tests = True, example_directories = [''udp''], enable_python_bindings = True,
     appname = ''ns'', build_profile = ''debug'', version = ''3'',
     python_command = [''python''], valgrind_found = False, basedir_of = ''/n'',
     builddir_of = ''/n/build''\<rparr>"

definition demo_world :: world where
  "demo_world = \<lparr>wfiles = (\<lambda>p. if p = ''examples/udp/examples-to-run.py''
       then Some [''cpp_examples = [e]''] else None),
     wexists = (\<lambda>p. p = ''examples/udp/examples-to-run.py'' \<or>
       p = ''/n/build/examples/udp/ns3-echo-debug''),
     wcwd = ''/n'', eval_cpp = (\<lambda>s. Inr [(''echo --n=1'', ''True'', ''False''), (''gone'', ''True'', ''True'')]),
     eval_python = (\<lambda>s. Inr []), eval_strings = (\<lambda>s. Inr [])\<rparr>"

theorem examples_exist_witness:
  "tests_ok (wexists demo_world)
     ([(''examples/udp/echo --n=1'', ''/n/build/examples/udp/ns3-echo-debug --n=1'', ''True'', ''False'')],
      [''echo --n=1''], [])"
proof (rule examples_exist)
  show "collect_examples demo_world demo_waf (example_paths demo_waf) ([], [], []) =
      Inr ([(''examples/udp/echo --n=1'', ''/n/build/examples/udp/ns3-echo-debug --n=1'', ''True'', ''False'')],
        [''echo --n=1''], [])"
    by code_simp
qed

end
