(* ===== verification/TestJobs.thy ===== *)
theory TestJobs
  imports PyPath
begin

text \<open>
  The concurrent part of \<open>src/test.py\<close>: the class \<open>Job\<close>, \<open>run_job_synchronously\<close>, the class
  \<open>worker_thread\<close>, the two queues, and the main thread's dispatch and collect loops of
  \<open>run_tests\<close>. The programs started with \<open>subprocess.Popen\<close> are a parameter. A state holds
  the queues, every worker's program counter, the interrupt flag \<open>thread_exit\<close> and what
  the main thread has still to put and to get; a step is one queue operation, one branch of a
  worker, one finished program or the signal. Printing under \<open>--verbose\<close> is left out.
\<close>

section \<open>Jobs\<close>

text \<open>\<open>returncode\<close> starts as \<open>False\<close>, which Python compares equal to 0.\<close>

record job =
  is_break :: bool
  is_skip :: bool
  is_example :: bool
  is_pyexample :: bool
  shell_command :: string
  display_name :: string
  basedir :: string
  tempdir :: string
  cwd :: string
  tmp_file_name :: string
  returncode :: int
  elapsed_time :: nat
  build_path :: string

definition new_job :: job where
  "new_job = \<lparr>is_break = False, is_skip = False, is_example = False, is_pyexample = False,
     shell_command = '''', display_name = '''', basedir = '''', tempdir = '''', cwd = '''',
     tmp_file_name = '''', returncode = 0, elapsed_time = 0, build_path = ''''\<rparr>"

definition set_is_break :: "bool \<Rightarrow> job \<Rightarrow> job" where
  "set_is_break b job = job\<lparr>is_break := b\<rparr>"

definition set_is_skip :: "bool \<Rightarrow> job \<Rightarrow> job" where
  "set_is_skip b job = job\<lparr>is_skip := b\<rparr>"

definition set_is_example :: "bool \<Rightarrow> job \<Rightarrow> job" where
  "set_is_example b job = job\<lparr>is_example := b\<rparr>"

definition set_is_pyexample :: "bool \<Rightarrow> job \<Rightarrow> job" where
  "set_is_pyexample b job = job\<lparr>is_pyexample := b\<rparr>"

definition set_shell_command :: "string \<Rightarrow> job \<Rightarrow> job" where
  "set_shell_command s job = job\<lparr>shell_command := s\<rparr>"

definition set_build_path :: "string \<Rightarrow> job \<Rightarrow> job" where
  "set_build_path s job = job\<lparr>build_path := s\<rparr>"

definition set_display_name :: "string \<Rightarrow> job \<Rightarrow> job" where
  "set_display_name s job = job\<lparr>display_name := s\<rparr>"

definition set_basedir :: "string \<Rightarrow> job \<Rightarrow> job" where
  "set_basedir s job = job\<lparr>basedir := s\<rparr>"

definition set_tempdir :: "string \<Rightarrow> job \<Rightarrow> job" where
  "set_tempdir s job = job\<lparr>tempdir := s\<rparr>"

definition set_cwd :: "string \<Rightarrow> job \<Rightarrow> job" where
  "set_cwd s job = job\<lparr>cwd := s\<rparr>"

definition set_tmp_file_name :: "string \<Rightarrow> job \<Rightarrow> job" where
  "set_tmp_file_name s job = job\<lparr>tmp_file_name := s\<rparr>"

definition set_returncode :: "int \<Rightarrow> job \<Rightarrow> job" where
  "set_returncode r job = job\<lparr>returncode := r\<rparr>"

definition set_elapsed_time :: "nat \<Rightarrow> job \<Rightarrow> job" where
  "set_elapsed_time t job = job\<lparr>elapsed_time := t\<rparr>"

lemmas job_setters = set_is_break_def set_is_skip_def set_is_example_def set_is_pyexample_def
  set_shell_command_def set_build_path_def set_display_name_def set_basedir_def set_tempdir_def
  set_cwd_def set_tmp_file_name_def set_returncode_def set_elapsed_time_def

section \<open>Running one job\<close>

text \<open>The globals and options the workers read.\<close>

record run_config =
  ns3_basedir :: string
  ns3_builddir :: string
  python :: "string list"
  use_valgrind :: bool
  update_data :: bool

text \<open>What \<open>Popen\<close>, \<open>communicate\<close> and the clock give: exit code, output bytes, milliseconds.\<close>

record proc_result =
  exit_code :: int
  out_bytes :: "nat list"
  err_bytes :: "nat list"
  millis :: nat

text \<open>\<open>bytes.decode()\<close> succeeds on well-formed UTF-8.\<close>

definition utf8_cont :: "nat \<Rightarrow> bool" where
  "utf8_cont b \<longleftrightarrow> 128 \<le> b \<and> b < 192"

fun utf8_ok :: "nat list \<Rightarrow> bool" where
  "utf8_ok [] = True"
| "utf8_ok (b # bs) =
     (if b < 128 then utf8_ok bs
      else if 194 \<le> b \<and> b < 224 then
        (case bs of c # bs' \<Rightarrow> utf8_cont c \<and> utf8_ok bs' | _ \<Rightarrow> False)
      else if 224 \<le> b \<and> b < 240 then
        (case bs of
           c # d # bs' \<Rightarrow> utf8_cont c \<and> utf8_cont d \<and> (b = 224 \<longrightarrow> 160 \<le> c) \<and>
             (b = 237 \<longrightarrow> c < 160) \<and> utf8_ok bs'
         | _ \<Rightarrow> False)
      else if 240 \<le> b \<and> b < 245 then
        (case bs of
           c # d # e # bs' \<Rightarrow> utf8_cont c \<and> utf8_cont d \<and> utf8_cont e \<and>
             (b = 240 \<longrightarrow> 144 \<le> c) \<and> (b = 244 \<longrightarrow> c < 144) \<and> utf8_ok bs'
         | _ \<Rightarrow> False)
      else False)"

datatype py_text = PyStr string | PyBytes "nat list"

definition decode :: "nat list \<Rightarrow> py_text" where
  "decode bs = (if utf8_ok bs then PyStr (map char_of bs) else PyBytes bs)"

definition decodable :: "py_text \<Rightarrow> bool" where
  "decodable t = (case t of PyStr _ \<Rightarrow> True | PyBytes _ \<Rightarrow> False)"

definition job_command ::
  "run_config \<Rightarrow> string \<Rightarrow> bool \<Rightarrow> bool \<Rightarrow> string \<Rightarrow> string result" where
  "job_command cfg shell_cmd valgrind is_python build =
     rbind
       (if is_python then
          rbind (py_index (python cfg) 0)
            (\<lambda>p. Inr (p @ '' '' @ path_join (ns3_basedir cfg) shell_cmd))
        else if build \<noteq> [] then Inr (path_join build shell_cmd)
        else Inr (path_join (ns3_builddir cfg) shell_cmd))
       (\<lambda>path_cmd. Inr
          (if valgrind then
             ''valgrind --suppressions='' @ path_join (ns3_basedir cfg) ''testpy.supp'' @
             '' --leak-check=full --show-reachable=yes --error-exitcode=2'' @
             '' --errors-for-leak-kinds=all '' @ path_cmd
           else path_cmd))"

text \<open>The part of \<open>run_job_synchronously\<close> after the program ended.\<close>

definition job_result :: "proc_result \<Rightarrow> int \<times> py_text \<times> py_text \<times> nat" where
  "job_result r =
     (let out = decode (out_bytes r); err = decode (err_bytes r);
          retval = (if \<not> decodable out then 1 else exit_code r);
          retval = (if \<not> decodable err then 1 else retval)
      in (retval, out, err, millis r))"

definition run_job_synchronously ::
  "(string \<Rightarrow> string \<Rightarrow> proc_result) \<Rightarrow> run_config \<Rightarrow> string \<Rightarrow> string \<Rightarrow> bool \<Rightarrow> bool \<Rightarrow> string \<Rightarrow>
   (int \<times> py_text \<times> py_text \<times> nat) result" where
  "run_job_synchronously popen cfg shell_cmd directory valgrind is_python build =
     rbind (job_command cfg shell_cmd valgrind is_python build)
       (\<lambda>cmd. Inr (job_result (popen cmd directory)))"

text \<open>The command a worker runs for a job: examples as they are, suites with more options.\<close>

definition worker_command :: "run_config \<Rightarrow> job \<Rightarrow> string result" where
  "worker_command cfg job =
     (if is_example job \<or> is_pyexample job
      then job_command cfg (shell_command job) (use_valgrind cfg) (is_pyexample job) (build_path job)
      else job_command cfg
             (shell_command job @ '' --xml --tempdir='' @ tempdir job @ '' --out='' @
              tmp_file_name job @ '' '' @ (if update_data cfg then ''--update-data'' else ''''))
             (use_valgrind cfg) False '''')"

definition finish_job :: "proc_result \<Rightarrow> job \<Rightarrow> job" where
  "finish_job r job =
     (case job_result r of (rc, out, err, et) \<Rightarrow> set_elapsed_time et (job\<lparr>returncode := rc\<rparr>))"

section \<open>Queues\<close>

text \<open>
  What the workers rely on of \<open>queue.Queue(0)\<close>: an unbounded queue that gives back what was
  put, first in first out.
\<close>

locale work_queue =
  fixes contents :: "'q \<Rightarrow> 'a list"
    and fresh_queue :: "'q"
    and put :: "'a \<Rightarrow> 'q \<Rightarrow> 'q"
    and get :: "'q \<Rightarrow> ('a \<times> 'q) option"
  assumes contents_fresh: "contents fresh_queue = []"
    and contents_put: "contents (put x q) = contents q @ [x]"
    and get_None: "get q = None \<longleftrightarrow> contents q = []"
    and get_Some: "get q = Some (x, q') \<Longrightarrow> contents q = x # contents q'"
begin

lemma mset_put: "mset (contents (put x q)) = add_mset x (mset (contents q))"
  by (simp add: contents_put)

lemma mset_get: "get q = Some (x, q') \<Longrightarrow> mset (contents q) = add_mset x (mset (contents q'))"
  by (simp add: get_Some)

lemma get_nonempty: "contents q \<noteq> [] \<Longrightarrow> \<exists>x q'. get q = Some (x, q')"
  using get_None [of q] by (cases "get q") auto

lemma contents_fold_put: "contents (fold put xs q) = contents q @ xs"
  by (induction xs arbitrary: q) (auto simp: contents_put)

text \<open>Taking a prefix out of a filled queue returns it in the order of insertion.\<close>

lemma get_after_puts:
  assumes "get (fold put (x # xs) fresh_queue) = Some (y, q)"
  shows "y = x \<and> contents q = xs"
  using get_Some [OF assms] contents_fold_put [of "x # xs" fresh_queue] contents_fresh by simp

end

type_synonym 'a pyqueue = "'a list"

definition q_put :: "'a \<Rightarrow> 'a pyqueue \<Rightarrow> 'a pyqueue" where
  "q_put x q = q @ [x]"

definition q_get :: "'a pyqueue \<Rightarrow> ('a \<times> 'a pyqueue) option" where
  "q_get q = (case q of [] \<Rightarrow> None | x # q' \<Rightarrow> Some (x, q'))"

interpretation fifo: work_queue "\<lambda>q. q" "[]" q_put q_get
  by unfold_locales (auto simp: q_put_def q_get_def split: list.splits)

section \<open>The threads\<close>

text \<open>
  A worker waits in \<open>input_queue.get()\<close>, holds a job it has just got, runs a program, has
  returned from \<open>run\<close>, or has been ended by an exception in \<open>run_job_synchronously\<close>.
\<close>

datatype worker = Idle | Got job | Running job | Exited | Died job

record system =
  to_put :: "job list"
  input_queue :: "job pyqueue"
  output_queue :: "job pyqueue"
  workers :: "worker list"
  thread_exit :: bool
  gets :: nat
  collected :: "job list"

definition break_job :: job where
  "break_job = set_is_break True new_job"

text \<open>The state after the threads are started: all jobs, then one break per thread, to put.\<close>

definition start_system :: "nat \<Rightarrow> job list \<Rightarrow> system" where
  "start_system processors jobs =
     \<lparr>to_put = jobs @ replicate processors break_job, input_queue = [], output_queue = [],
      workers = replicate processors Idle, thread_exit = False, gets = length jobs,
      collected = []\<rparr>"

text \<open>The branches of the worker's loop before it runs anything.\<close>

definition worker_branch :: "bool \<Rightarrow> job \<Rightarrow> worker \<times> job list" where
  "worker_branch interrupted job =
     (if is_break job then (Exited, [])
      else if interrupted then (Idle, [set_is_break True job])
      else if is_skip job then (Idle, [job])
      else (Running job, []))"

definition handle_job :: "nat \<Rightarrow> job \<Rightarrow> system \<Rightarrow> system" where
  "handle_job i job s =
     (case worker_branch (thread_exit s) job of (w, outs) \<Rightarrow>
        s\<lparr>workers := (workers s)[i := w], output_queue := fold q_put outs (output_queue s)\<rparr>)"

text \<open>
  A step of the whole program; \<open>may cmd dir r\<close> says that running \<open>cmd\<close> in \<open>dir\<close> can give \<open>r\<close>.
\<close>

inductive step ::
  "(string \<Rightarrow> string \<Rightarrow> proc_result \<Rightarrow> bool) \<Rightarrow> run_config \<Rightarrow> system \<Rightarrow> system \<Rightarrow> bool"
  for may cfg where
  step_put: "to_put s = job # rest \<Longrightarrow>
    step may cfg s (s\<lparr>to_put := rest, input_queue := q_put job (input_queue s)\<rparr>)"
| step_get: "i < length (workers s) \<Longrightarrow> workers s ! i = Idle \<Longrightarrow>
    q_get (input_queue s) = Some (job, q) \<Longrightarrow>
    step may cfg s (s\<lparr>input_queue := q, workers := (workers s)[i := Got job]\<rparr>)"
| step_handle: "i < length (workers s) \<Longrightarrow> workers s ! i = Got job \<Longrightarrow>
    step may cfg s (handle_job i job s)"
| step_finish: "i < length (workers s) \<Longrightarrow> workers s ! i = Running job \<Longrightarrow>
    worker_command cfg job = Inr cmd \<Longrightarrow> may cmd (cwd job) r \<Longrightarrow>
    step may cfg s (s\<lparr>workers := (workers s)[i := Idle],
      output_queue := q_put (finish_job r job) (output_queue s)\<rparr>)"
| step_die: "i < length (workers s) \<Longrightarrow> workers s ! i = Running job \<Longrightarrow>
    worker_command cfg job = Inl e \<Longrightarrow>
    step may cfg s (s\<lparr>workers := (workers s)[i := Died job]\<rparr>)"
| step_collect: "to_put s = [] \<Longrightarrow> gets s = Suc n \<Longrightarrow>
    q_get (output_queue s) = Some (job, q) \<Longrightarrow>
    step may cfg s (s\<lparr>output_queue := q, gets := n, collected := collected s @ [job]\<rparr>)"

text \<open>The signal handler \<open>sigint_hook\<close> can run between any two steps.\<close>

definition sigint_hook :: "system \<Rightarrow> system" where
  "sigint_hook s = s\<lparr>thread_exit := True\<rparr>"

inductive reach ::
  "(string \<Rightarrow> string \<Rightarrow> proc_result \<Rightarrow> bool) \<Rightarrow> run_config \<Rightarrow> nat \<Rightarrow> job list \<Rightarrow> system \<Rightarrow> bool"
  for may cfg processors jobs where
  reach_start: "reach may cfg processors jobs (start_system processors jobs)"
| reach_step: "reach may cfg processors jobs s \<Longrightarrow> step may cfg s s' \<Longrightarrow>
    reach may cfg processors jobs s'"
| reach_sigint: "reach may cfg processors jobs s \<Longrightarrow>
    reach may cfg processors jobs (sigint_hook s)"

text \<open>After the collect loop the main thread joins the workers.\<close>

definition ended :: "worker \<Rightarrow> bool" where
  "ended w = (case w of Exited \<Rightarrow> True | Died _ \<Rightarrow> True | _ \<Rightarrow> False)"

definition joined :: "system \<Rightarrow> bool" where
  "joined s \<longleftrightarrow> to_put s = [] \<and> gets s = 0 \<and> list_all ended (workers s)"

inductive_simps step_iff: "step may cfg s s'"

section \<open>The invariant\<close>

text \<open>The parts of a job no thread changes.\<close>

definition strip_job :: "job \<Rightarrow> job" where
  "strip_job j = j\<lparr>is_break := False, returncode := 0, elapsed_time := 0\<rparr>"

definition fresh_job :: "job \<Rightarrow> bool" where
  "fresh_job j \<longleftrightarrow> strip_job j = j"

lemma fresh_not_break: "fresh_job j \<Longrightarrow> \<not> is_break j"
  by (cases j) (simp add: fresh_job_def strip_job_def)

lemma is_break_break_job [simp]: "is_break break_job"
  by (simp add: break_job_def set_is_break_def)

lemma strip_set_break [simp]: "strip_job (set_is_break b j) = strip_job j"
  by (simp add: strip_job_def set_is_break_def)

lemma strip_finish [simp]: "strip_job (finish_job r j) = strip_job j"
  by (simp add: strip_job_def finish_job_def set_elapsed_time_def split: prod.splits)

lemma break_finish [simp]: "is_break (finish_job r j) = is_break j"
  by (simp add: finish_job_def set_elapsed_time_def split: prod.splits)

definition worker_jobs :: "worker \<Rightarrow> job list" where
  "worker_jobs w =
     (case w of Got j \<Rightarrow> (if is_break j then [] else [j]) | Running j \<Rightarrow> [j] | Died j \<Rightarrow> [j]
      | _ \<Rightarrow> [])"

definition worker_breaks :: "worker \<Rightarrow> nat" where
  "worker_breaks w =
     (case w of Exited \<Rightarrow> 1 | Got j \<Rightarrow> (if is_break j then 1 else 0) | _ \<Rightarrow> 0)"

text \<open>Jobs to be skipped are never run.\<close>

definition worker_ok :: "worker \<Rightarrow> bool" where
  "worker_ok w = (case w of Running j \<Rightarrow> \<not> is_skip j | _ \<Rightarrow> True)"

lemmas worker_counts = worker_ok_def worker_jobs_def worker_breaks_def

definition queued :: "system \<Rightarrow> job list" where
  "queued s = input_queue s @ to_put s"

definition regular :: "job list \<Rightarrow> job list" where
  "regular q = filter (\<lambda>j. \<not> is_break j) q"

definition held :: "system \<Rightarrow> job multiset" where
  "held s = mset (concat (map worker_jobs (workers s)))"

definition taken_breaks :: "system \<Rightarrow> nat" where
  "taken_breaks s = sum_list (map worker_breaks (workers s))"

definition returned :: "system \<Rightarrow> job multiset" where
  "returned s = mset (output_queue s) + mset (collected s)"

text \<open>What a returned job says: it was interrupted, skipped, or run.\<close>

definition outcome ::
  "(string \<Rightarrow> string \<Rightarrow> proc_result \<Rightarrow> bool) \<Rightarrow> run_config \<Rightarrow> bool \<Rightarrow> job \<Rightarrow> job \<Rightarrow> bool" where
  "outcome may cfg interrupted j j' \<longleftrightarrow>
     (interrupted \<and> j' = set_is_break True j) \<or> (is_skip j \<and> j' = j) \<or>
     (\<not> is_skip j \<and> (\<exists>cmd r. worker_command cfg j = Inr cmd \<and> may cmd (cwd j) r \<and> j' = finish_job r j))"

definition breaks_last :: "job list \<Rightarrow> bool" where
  "breaks_last q \<longleftrightarrow> (\<exists>ks m. q = ks @ replicate m break_job \<and> list_all fresh_job ks)"

definition system_inv ::
  "(string \<Rightarrow> string \<Rightarrow> proc_result \<Rightarrow> bool) \<Rightarrow> run_config \<Rightarrow> nat \<Rightarrow> job list \<Rightarrow> system \<Rightarrow> bool" where
  "system_inv may cfg n js s \<longleftrightarrow>
     length (workers s) = n \<and>
     length (filter is_break (queued s)) + taken_breaks s = n \<and>
     gets s + length (collected s) = length js \<and>
     mset (regular (queued s)) + held s + image_mset strip_job (returned s) = mset js \<and>
     (\<forall>j \<in># returned s. outcome may cfg (thread_exit s) (strip_job j) j) \<and>
     (\<forall>j \<in># held s. fresh_job j) \<and>
     breaks_last (queued s) \<and> (0 < taken_breaks s \<longrightarrow> regular (queued s) = []) \<and>
     list_all worker_ok (workers s)"

lemma concat_map_update:
  assumes "i < length ws"
  shows "mset (concat (map f (ws[i := w]))) + mset (f (ws ! i)) = mset (concat (map f ws)) + mset (f w)"
proof -
  have "ws = take i ws @ ws ! i # drop (Suc i) ws" using assms by (simp add: id_take_nth_drop)
  then have "concat (map f ws) = concat (map f (take i ws)) @ f (ws ! i) @ concat (map f (drop (Suc i) ws))"
    by (metis concat.simps(2) concat_append list.map(2) map_append)
  moreover have "concat (map f (ws[i := w])) = concat (map f (take i ws)) @ f w @ concat (map f (drop (Suc i) ws))"
    using assms by (simp add: upd_conv_take_nth_drop)
  ultimately show ?thesis by simp
qed

lemma sum_list_update_nth:
  fixes g :: "'a \<Rightarrow> nat"
  assumes "i < length ws"
  shows "sum_list (map g (ws[i := w])) + g (ws ! i) = sum_list (map g ws) + g w"
proof -
  have "ws = take i ws @ ws ! i # drop (Suc i) ws" using assms by (simp add: id_take_nth_drop)
  then have "sum_list (map g ws) = sum_list (map g (take i ws)) + g (ws ! i) + sum_list (map g (drop (Suc i) ws))"
    by (metis (no_types, lifting) ab_semigroup_add_class.add_ac(1) list.map(2) map_append sum_list.Cons sum_list_append)
  then show ?thesis using assms by (simp add: upd_conv_take_nth_drop)
qed

text \<open>How the counts change when worker \<open>i\<close> becomes \<open>w\<close>.\<close>

lemma worker_change:
  assumes "i < length (workers s)" and "workers s' = (workers s)[i := w]"
  shows "held s' = held s + mset (worker_jobs w) - mset (worker_jobs (workers s ! i))"
    and "taken_breaks s' = taken_breaks s + worker_breaks w - worker_breaks (workers s ! i)"
  using concat_map_update [OF assms(1), of worker_jobs w]
    sum_list_update_nth [OF assms(1), of worker_breaks w]
  unfolding held_def taken_breaks_def assms(2) by (metis add_diff_cancel_right')+

lemma worker_held:
  assumes "i < length (workers s)" and "j \<in> set (worker_jobs (workers s ! i))"
  shows "j \<in># held s"
  using assms nth_mem [OF assms(1)] by (auto simp: held_def)

lemma q_get_Some: "q_get q = Some (x, q') \<longleftrightarrow> q = x # q'"
  by (cases q) (auto simp: q_get_def)

lemma regular_Cons [simp]: "regular (j # q) = (if is_break j then regular q else j # regular q)"
  by (simp add: regular_def)

lemma breaks_last_Cons:
  assumes "breaks_last (j # q)"
  shows "breaks_last q" and "is_break j \<Longrightarrow> regular q = []" and "\<not> is_break j \<Longrightarrow> fresh_job j"
proof -
  obtain ks m where q: "j # q = ks @ replicate m break_job" "list_all fresh_job ks"
    using assms by (auto simp: breaks_last_def)
  have "breaks_last q \<and> (if is_break j then regular q = [] else fresh_job j)"
  proof (cases ks)
    case Nil
    then obtain m' where "m = Suc m'" "j = break_job" "q = replicate m' break_job"
      using q(1) by (cases m) auto
    moreover have "breaks_last (replicate m' break_job)"
      unfolding breaks_last_def by (intro exI [of _ "[]"] exI [of _ m']) simp
    ultimately show ?thesis by (auto simp: regular_def)
  next
    case (Cons k ks')
    then show ?thesis using q fresh_not_break by (auto simp: breaks_last_def)
  qed
  then show "breaks_last q" "is_break j \<Longrightarrow> regular q = []" "\<not> is_break j \<Longrightarrow> fresh_job j"
    by (auto split: if_splits)
qed

section \<open>Every step keeps the invariant\<close>

text \<open>
  The invariant reads a state only through these components, so a step is described by how it
  changes them.
\<close>

lemma system_invI:
  assumes I: "system_inv may cfg n js s" and "length (workers s') = length (workers s)"
    and "length (filter is_break (queued s')) + taken_breaks s' = length (filter is_break (queued s)) + taken_breaks s"
    and "gets s' + length (collected s') = gets s + length (collected s)"
    and "mset (regular (queued s')) + held s' + image_mset strip_job (returned s') =
      mset (regular (queued s)) + held s + image_mset strip_job (returned s)"
    and out: "\<forall>j \<in># returned s'. j \<in># returned s \<or> outcome may cfg (thread_exit s) (strip_job j) j"
    and "thread_exit s' = thread_exit s"
    and "\<forall>j \<in># held s'. fresh_job j" and "breaks_last (queued s')"
    and "0 < taken_breaks s' \<longrightarrow> regular (queued s') = []" and "list_all worker_ok (workers s')"
  shows "system_inv may cfg n js s'"
proof -
  have "\<forall>j \<in># returned s. outcome may cfg (thread_exit s) (strip_job j) j"
    using I by (simp add: system_inv_def)
  then have "\<forall>j \<in># returned s'. outcome may cfg (thread_exit s') (strip_job j) j"
    using out \<open>thread_exit s' = thread_exit s\<close> by auto
  then show ?thesis using assms unfolding system_inv_def by simp
qed

lemma worker_ok_update:
  "list_all worker_ok ws \<Longrightarrow> worker_ok w \<Longrightarrow> list_all worker_ok (ws[i := w])"
  by (auto simp: list_all_iff dest: set_update_subset_insert [THEN subsetD])

lemma inv_put:
  assumes "system_inv may cfg n js s" and "to_put s = job # rest"
  shows "system_inv may cfg n js (s\<lparr>to_put := rest, input_queue := q_put job (input_queue s)\<rparr>)"
  using assms
  by (simp add: system_inv_def queued_def held_def taken_breaks_def returned_def q_put_def)

lemma inv_get:
  assumes I: "system_inv may cfg n js s" and i: "i < length (workers s)" "workers s ! i = Idle"
    and q: "q_get (input_queue s) = Some (job, q)"
  shows "system_inv may cfg n js (s\<lparr>input_queue := q, workers := (workers s)[i := Got job]\<rparr>)"
    (is "system_inv may cfg n js ?s")
proof -
  have qs: "queued s = job # queued ?s" using q by (simp add: q_get_Some queued_def)
  have bl: "breaks_last (job # queued ?s)" and fresh: "\<forall>j \<in># held s. fresh_job j"
    and tb: "0 < taken_breaks s \<longrightarrow> regular (job # queued ?s) = []"
    using I qs by (simp_all add: system_inv_def)
  have h: "held ?s = held s + mset (worker_jobs (Got job))"
    and t: "taken_breaks ?s = taken_breaks s + worker_breaks (Got job)"
    using worker_change [OF i(1), of ?s "Got job"] i(2) by (simp_all add: worker_counts)
  show ?thesis
    using h t qs breaks_last_Cons [OF bl] fresh tb
    by (intro system_invI [OF I])
      (use I in \<open>auto simp: worker_counts returned_def system_inv_def intro!: worker_ok_update
        split: if_splits\<close>)
qed

text \<open>A worker that keeps or gives back its job.\<close>

lemma inv_worker_return:
  assumes I: "system_inv may cfg n js s" and i: "i < length (workers s)"
    and w: "worker_jobs (workers s ! i) = [job]" "worker_breaks (workers s ! i) = 0"
    and out: "strip_job job' = strip_job job" "outcome may cfg (thread_exit s) job job'"
  shows "system_inv may cfg n js
    (s\<lparr>workers := (workers s)[i := Idle], output_queue := q_put job' (output_queue s)\<rparr>)"
    (is "system_inv may cfg n js ?s")
proof -
  have job: "job \<in># held s" using worker_held [OF i, of job] w(1) by simp
  then have fresh: "strip_job job = job" using I by (simp add: system_inv_def fresh_job_def)
  have h: "held ?s = held s - {#job#}" and t: "taken_breaks ?s = taken_breaks s"
    using worker_change [OF i, of ?s Idle] w by (simp_all add: worker_counts)
  have "held s = add_mset job (held ?s)" using job h by simp
  moreover have "returned ?s = add_mset job' (returned s)"
    by (simp add: returned_def q_put_def)
  moreover have "queued ?s = queued s" by (simp add: queued_def)
  ultimately show ?thesis
    using I t out fresh by (intro system_invI [OF I])
      (auto simp: system_inv_def worker_counts intro!: worker_ok_update)
qed

lemma inv_worker_keep:
  assumes I: "system_inv may cfg n js s" and i: "i < length (workers s)"
    and w: "worker_jobs w = worker_jobs (workers s ! i)" "worker_breaks w = worker_breaks (workers s ! i)"
    and ok: "worker_ok w"
  shows "system_inv may cfg n js (s\<lparr>workers := (workers s)[i := w]\<rparr>)"
    (is "system_inv may cfg n js ?s")
proof -
  have "held ?s = held s" and "taken_breaks ?s = taken_breaks s"
    using worker_change [OF i, of ?s w] w by simp_all
  then show ?thesis using I ok
    by (simp add: system_inv_def returned_def queued_def worker_ok_update)
qed

lemma inv_handle:
  assumes I: "system_inv may cfg n js s" and i: "i < length (workers s)" "workers s ! i = Got job"
  shows "system_inv may cfg n js (handle_job i job s)"
proof -
  consider "is_break job" | "\<not> is_break job" "thread_exit s" | "\<not> is_break job" "\<not> thread_exit s" "is_skip job"
    | "\<not> is_break job" "\<not> thread_exit s" "\<not> is_skip job" by blast
  then show ?thesis
  proof cases
    case 1
    then show ?thesis using inv_worker_keep [OF I i(1), of Exited] i(2)
      by (simp add: handle_job_def worker_branch_def worker_counts)
  next
    case 2
    then show ?thesis using inv_worker_return [OF I i(1), of job "set_is_break True job"] i(2)
      by (simp add: handle_job_def worker_branch_def worker_counts outcome_def)
  next
    case 3
    then show ?thesis using inv_worker_return [OF I i(1), of job job] i(2)
      by (simp add: handle_job_def worker_branch_def worker_counts outcome_def)
  next
    case 4
    then show ?thesis using inv_worker_keep [OF I i(1), of "Running job"] i(2)
      by (simp add: handle_job_def worker_branch_def worker_counts)
  qed
qed

lemma inv_collect:
  assumes "system_inv may cfg n js s" and "gets s = Suc k" and "q_get (output_queue s) = Some (job, q)"
  shows "system_inv may cfg n js (s\<lparr>output_queue := q, gets := k, collected := collected s @ [job]\<rparr>)"
  using assms
  by (simp add: system_inv_def queued_def held_def taken_breaks_def returned_def q_get_Some)

lemma inv_start:
  assumes "list_all fresh_job js"
  shows "system_inv may cfg n js (start_system n js)"
proof -
  have nb: "filter is_break js = []" "filter (\<lambda>j. \<not> is_break j) js = js"
    using assms fresh_not_break by (auto simp: list_all_iff filter_empty_conv filter_id_conv)
  have "concat (map worker_jobs (replicate n Idle)) = []"
    by (simp add: worker_counts)
  moreover have "sum_list (map worker_breaks (replicate n Idle)) = 0"
    by (simp add: worker_counts)
  ultimately show ?thesis using assms nb
    unfolding system_inv_def start_system_def queued_def held_def taken_breaks_def returned_def
      regular_def breaks_last_def
    by (auto simp: worker_ok_def list_all_iff sum_list_replicate intro: exI [of _ js])
qed

lemma outcome_interrupted: "outcome may cfg i j j' \<Longrightarrow> outcome may cfg True j j'"
  by (auto simp: outcome_def)

lemma inv_sigint: "system_inv may cfg n js s \<Longrightarrow> system_inv may cfg n js (sigint_hook s)"
  unfolding system_inv_def sigint_hook_def
  by (auto simp: queued_def held_def taken_breaks_def returned_def intro: outcome_interrupted)

lemma step_inv: "step may cfg s s' \<Longrightarrow> system_inv may cfg n js s \<Longrightarrow> system_inv may cfg n js s'"
proof (induction rule: step.induct)
  case (step_finish i s job cmd r)
  have "list_all worker_ok (workers s)" using step_finish by (simp add: system_inv_def)
  then have "worker_ok (workers s ! i)" using step_finish(1) by (simp add: list_all_length)
  then have "\<not> is_skip job" using step_finish(2) by (simp add: worker_ok_def)
  then show ?case using step_finish
    by (intro inv_worker_return) (auto simp: worker_counts outcome_def)
next
  case (step_die i s job e)
  then show ?case by (intro inv_worker_keep) (auto simp: worker_counts)
qed (auto intro: inv_put inv_get inv_handle inv_collect)

lemma reach_inv:
  "reach may cfg n js s \<Longrightarrow> list_all fresh_job js \<Longrightarrow> system_inv may cfg n js s"
  by (induction rule: reach.induct) (auto intro: inv_start step_inv inv_sigint)

section \<open>Progress\<close>

definition weight :: "worker \<Rightarrow> nat" where
  "weight w = (case w of Got _ \<Rightarrow> 3 | Running _ \<Rightarrow> 2 | _ \<Rightarrow> 0)"

definition work :: "system \<Rightarrow> nat" where
  "work s = 5 * length (to_put s) + 4 * length (input_queue s) +
     sum_list (map weight (workers s)) + length (output_queue s)"

lemma weight_update:
  "i < length ws \<Longrightarrow> sum_list (map weight (ws[i := w])) + weight (ws ! i) = sum_list (map weight ws) + weight w"
  by (rule sum_list_update_nth)

lemma step_work: "step may cfg s s' \<Longrightarrow> work s' < work s"
proof (induction rule: step.induct)
  case (step_get i s job q)
  then show ?case using weight_update [of i "workers s" "Got job"]
    by (simp add: work_def weight_def q_get_Some)
next
  case (step_handle i s job)
  then show ?case
    using weight_update [of i "workers s" Exited] weight_update [of i "workers s" Idle]
      weight_update [of i "workers s" "Running job"]
    by (cases "is_break job"; cases "thread_exit s"; cases "is_skip job")
      (simp_all add: work_def weight_def handle_job_def worker_branch_def q_put_def)
next
  case (step_finish i s job cmd r)
  then show ?case using weight_update [of i "workers s" Idle]
    by (simp add: work_def weight_def q_put_def)
next
  case (step_die i s job e)
  then show ?case using weight_update [of i "workers s" "Died job"]
    by (simp add: work_def weight_def)
qed (simp_all add: work_def q_put_def q_get_Some)

lemma worker_command_ok: "python cfg \<noteq> [] \<Longrightarrow> \<exists>cmd. worker_command cfg job = Inr cmd"
  using py_index_nonneg [of 0 "python cfg"]
  by (auto simp: worker_command_def job_command_def)

lemma no_deaths:
  assumes "reach may cfg n js s" and "python cfg \<noteq> []"
  shows "\<forall>w \<in> set (workers s). \<forall>j. w \<noteq> Died j"
  using assms(1)
proof (induction rule: reach.induct)
  case (reach_step s s')
  note upd = set_update_subset_insert [THEN subsetD]
  from reach_step(2,3) show ?case
  proof (induction rule: step.induct)
    case (step_handle i s job)
    then show ?case
      by (auto simp: handle_job_def worker_branch_def dest!: upd split: if_splits)
  next
    case (step_die i s job e)
    then show ?case using worker_command_ok [OF assms(2), of job] by simp
  qed (auto dest!: upd)
qed (auto simp: start_system_def sigint_hook_def)

lemma mset_empty_sizes:
  "A + B + image_mset f (C + D) = mset js \<Longrightarrow> size D = length js \<Longrightarrow> A = {#} \<and> B = {#} \<and> C = {#}"
proof -
  assume "A + B + image_mset f (C + D) = mset js" and D: "size D = length js"
  then have "size A + size B + size C + size D = length js"
    by (metis add.assoc size_image_mset size_mset size_union)
  with D show ?thesis by simp
qed

lemma all_collected:
  assumes "system_inv may cfg n js s" and "gets s = 0"
  shows "output_queue s = [] \<and> held s = {#} \<and> regular (queued s) = [] \<and>
    mset (map strip_job (collected s)) = mset js"
proof -
  have "mset (regular (queued s)) + held s + image_mset strip_job (mset (output_queue s) + mset (collected s)) = mset js"
    and "size (mset (collected s)) = length js"
    using assms by (simp_all add: system_inv_def returned_def)
  from mset_empty_sizes [OF this] this(1) show ?thesis by simp
qed

text \<open>Some step is possible until everything is collected and every worker has returned.\<close>

lemma progress:
  assumes r: "reach may cfg n js s" and fresh: "list_all fresh_job js" and n: "0 < n"
    and py: "python cfg \<noteq> []" and total: "\<And>c d. \<exists>r. may c d r" and nj: "\<not> joined s"
  shows "\<exists>s'. step may cfg s s'"
proof (cases "to_put s = []")
  case False
  then obtain job rest where "to_put s = job # rest" by (cases "to_put s") auto
  then show ?thesis by (blast intro: step_put)
next
  case nothing_to_put: True
  have I: "system_inv may cfg n js s" by (rule reach_inv [OF r fresh])
  have q: "queued s = input_queue s" using nothing_to_put by (simp add: queued_def)
  consider i where "i < length (workers s)" "workers s ! i \<noteq> Idle" "workers s ! i \<noteq> Exited"
    | "\<forall>w \<in> set (workers s). w = Idle \<or> w = Exited"
    by (metis in_set_conv_nth)
  then show ?thesis
  proof cases
    case 1
    have alive: "workers s ! i \<noteq> Died j" for j
      using no_deaths [OF r py] nth_mem [OF 1(1)] by blast
    show ?thesis
    proof (cases "workers s ! i")
      case (Got j)
      then show ?thesis using 1(1) by (blast intro: step_handle)
    next
      case (Running j)
      then show ?thesis using 1(1) total worker_command_ok [OF py, of j] by (blast intro: step_finish)
    qed (use 1 alive in auto)
  next
    case 2
    have held: "held s = {#}" using 2 by (auto simp: held_def worker_counts)
    have count: "length (filter is_break (input_queue s)) + taken_breaks s = n"
      using I q by (simp add: system_inv_def)
    show ?thesis
    proof (cases "Idle \<in> set (workers s)")
      case True
      then obtain i where i: "i < length (workers s)" "workers s ! i = Idle"
        by (auto simp: in_set_conv_nth)
      have "sum_list (map worker_breaks ((workers s)[i := Exited])) \<le> length (workers s)"
        using 2 sum_list_mono [of "(workers s)[i := Exited]" worker_breaks "\<lambda>_. 1"]
          set_update_subset_insert [of "workers s" i Exited]
        by (fastforce simp: worker_counts sum_list_triv)
      then have "taken_breaks s < n"
        using sum_list_update_nth [OF i(1), of worker_breaks Exited] i I
        by (simp add: taken_breaks_def worker_counts system_inv_def)
      then have "input_queue s \<noteq> []" using count by auto
      then obtain job q' where "q_get (input_queue s) = Some (job, q')"
        using fifo.get_nonempty by blast
      then show ?thesis using i by (blast intro: step_get)
    next
      case False
      then have all: "\<forall>w \<in> set (workers s). w = Exited" using 2 by auto
      then have gets: "gets s \<noteq> 0"
        using nj nothing_to_put by (auto simp: joined_def ended_def list_all_iff)
      have "0 < taken_breaks s"
      proof -
        obtain w where "w \<in> set (workers s)" using I n by (cases "workers s") (auto simp: system_inv_def)
        then have "worker_breaks w \<le> taken_breaks s" "worker_breaks w = 1"
          using all unfolding taken_breaks_def by (auto simp: worker_counts intro!: member_le_sum_list)
        then show ?thesis by simp
      qed
      then have "regular (queued s) = []" using I by (simp add: system_inv_def)
      then have "size (image_mset strip_job (returned s)) = length js"
        using I held unfolding system_inv_def by (metis add.left_neutral mset.simps(1) size_mset)
      then have "length (output_queue s) + length (collected s) = length js"
        by (simp add: returned_def)
      then have "output_queue s \<noteq> []" using I gets by (auto simp: system_inv_def)
      then obtain job q' where "q_get (output_queue s) = Some (job, q')"
        using fifo.get_nonempty by blast
      moreover obtain k where "gets s = Suc k" using gets by (cases "gets s") auto
      ultimately show ?thesis using nothing_to_put by (blast intro: step_collect)
    qed
  qed
qed

text \<open>With reproducible programs and no interrupt the result of a job is a function of it.\<close>

definition run_outcome :: "(string \<Rightarrow> string \<Rightarrow> proc_result) \<Rightarrow> run_config \<Rightarrow> job \<Rightarrow> job" where
  "run_outcome popen cfg job =
     (if is_skip job then job
      else (case worker_command cfg job of
              Inl e \<Rightarrow> job | Inr cmd \<Rightarrow> finish_job (popen cmd (cwd job)) job))"

lemma outcome_run:
  "outcome (\<lambda>c d r. r = popen c d) cfg False j j' \<Longrightarrow> j' = run_outcome popen cfg j"
  by (auto simp: outcome_def run_outcome_def)

lemma collected_outcomes:
  assumes "system_inv (\<lambda>c d r. r = popen c d) cfg n js s" and "gets s = 0" and "\<not> thread_exit s"
  shows "mset (collected s) = image_mset (run_outcome popen cfg) (mset js)"
proof -
  have "\<forall>j \<in> set (collected s). j = run_outcome popen cfg (strip_job j)"
    using assms by (auto simp: system_inv_def returned_def dest!: outcome_run)
  then have "map (run_outcome popen cfg \<circ> strip_job) (collected s) = collected s"
    by (simp add: map_idI)
  then have "mset (collected s) = image_mset (run_outcome popen cfg) (mset (map strip_job (collected s)))"
    by (metis list.map_comp mset_map)
  then show ?thesis using all_collected [OF assms(1,2)] by simp
qed

text \<open>
  A missing interpreter ends a worker with its job: nobody returns it, and the main thread
  waits for ever.
\<close>

lemma hung_system:
  assumes "to_put s = []" "input_queue s = []" "output_queue s = []"
    and "list_all ended (workers s)"
  shows "\<not> step may cfg s s'"
  using assms by (auto simp: step_iff list_all_length ended_def q_get_def split: worker.splits)

section \<open>Executable schedules\<close>

text \<open>A schedule names the thread that moves; it runs the step relation on concrete states.\<close>

datatype choice = Main_put | Worker_get nat | Worker_handle nat | Worker_finish nat | Main_collect

definition sched_step ::
  "(string \<Rightarrow> string \<Rightarrow> proc_result) \<Rightarrow> run_config \<Rightarrow> choice \<Rightarrow> system \<Rightarrow> system option" where
  "sched_step popen cfg c s =
     (case c of
        Main_put \<Rightarrow>
          (case to_put s of [] \<Rightarrow> None
           | job # rest \<Rightarrow> Some (s\<lparr>to_put := rest, input_queue := q_put job (input_queue s)\<rparr>))
      | Worker_get i \<Rightarrow>
          (if i < length (workers s) \<and> workers s ! i = Idle then
             (case q_get (input_queue s) of None \<Rightarrow> None
              | Some (job, q) \<Rightarrow> Some (s\<lparr>input_queue := q, workers := (workers s)[i := Got job]\<rparr>))
           else None)
      | Worker_handle i \<Rightarrow>
          (if i < length (workers s)
           then (case workers s ! i of Got job \<Rightarrow> Some (handle_job i job s) | _ \<Rightarrow> None) else None)
      | Worker_finish i \<Rightarrow>
          (if i < length (workers s) then
             (case workers s ! i of
                Running job \<Rightarrow>
                  (case worker_command cfg job of
                     Inl e \<Rightarrow> Some (s\<lparr>workers := (workers s)[i := Died job]\<rparr>)
                   | Inr cmd \<Rightarrow> Some (s\<lparr>workers := (workers s)[i := Idle],
                       output_queue := q_put (finish_job (popen cmd (cwd job)) job) (output_queue s)\<rparr>))
              | _ \<Rightarrow> None)
           else None)
      | Main_collect \<Rightarrow>
          (if to_put s = [] \<and> 0 < gets s then
             (case q_get (output_queue s) of None \<Rightarrow> None
              | Some (job, q) \<Rightarrow> Some (s\<lparr>output_queue := q, gets := gets s - 1,
                  collected := collected s @ [job]\<rparr>))
           else None))"

fun sched_run ::
  "(string \<Rightarrow> string \<Rightarrow> proc_result) \<Rightarrow> run_config \<Rightarrow> choice list \<Rightarrow> system \<Rightarrow> system option" where
  "sched_run popen cfg [] s = Some s"
| "sched_run popen cfg (c # cs) s = Option.bind (sched_step popen cfg c s) (sched_run popen cfg cs)"

lemma sched_step_sound:
  "sched_step popen cfg c s = Some s' \<Longrightarrow> step (\<lambda>c d r. r = popen c d) cfg s s'"
proof (cases c)
  case (Worker_get i)
  then show "sched_step popen cfg c s = Some s' \<Longrightarrow> ?thesis"
    by (auto simp: sched_step_def intro: step_get split: if_splits option.splits)
next
  case (Worker_finish i)
  then show "sched_step popen cfg c s = Some s' \<Longrightarrow> ?thesis"
    by (auto simp: sched_step_def intro: step_finish step_die split: if_splits worker.splits sum.splits)
next
  case Main_collect
  then show "sched_step popen cfg c s = Some s' \<Longrightarrow> ?thesis"
    by (auto simp: sched_step_def split: if_splits option.splits intro!: step_collect)
qed (auto simp: sched_step_def intro: step_put step_handle split: if_splits list.splits worker.splits)

lemma sched_run_sound:
  "sched_run popen cfg cs s = Some s' \<Longrightarrow> reach (\<lambda>c d r. r = popen c d) cfg n js s \<Longrightarrow>
   reach (\<lambda>c d r. r = popen c d) cfg n js s'"
proof (induction cs arbitrary: s)
  case (Cons c cs)
  then obtain t where t: "sched_step popen cfg c s = Some t" "sched_run popen cfg cs t = Some s'"
    by (auto simp: bind_eq_Some_conv)
  show ?case
    by (rule Cons.IH [OF t(2)]) (rule reach_step [OF Cons.prems(2) sched_step_sound [OF t(1)]])
qed simp

lemmas sched_run_start = sched_run_sound [OF _ reach_start]

section \<open>A concrete run\<close>

text \<open>The suite \<open>t\<close>, whose program fails with exit code 1 after 7 ms.\<close>

definition demo_config :: run_config where
  "demo_config = \<lparr>ns3_basedir = ''/n'', ns3_builddir = ''/n/build'', python = [''python''],
     use_valgrind = False, update_data = False\<rparr>"

definition demo_job :: job where
  "demo_job = set_display_name ''t'' (set_shell_command ''utils/run --test-name=t'' new_job)"

definition demo_result :: proc_result where
  "demo_result = \<lparr>exit_code = 1, out_bytes = [70, 65, 73, 76], err_bytes = [], millis = 7\<rparr>"

lemma demo_job_simps [simp]: "\<not> is_break demo_job" "\<not> is_skip demo_job" "fresh_job demo_job"
  by (simp_all add: demo_job_def job_setters new_job_def fresh_job_def strip_job_def)

lemmas sched_simps = sched_step_def start_system_def q_put_def q_get_def handle_job_def worker_branch_def

text \<open>One worker and one job: the only schedule without waiting.\<close>

definition solo_schedule :: "choice list" where
  "solo_schedule = [Main_put, Main_put, Worker_get 0, Worker_handle 0, Worker_finish 0,
     Worker_get 0, Worker_handle 0, Main_collect]"

definition done_state :: "worker list \<Rightarrow> job list \<Rightarrow> system" where
  "done_state ws js =
     \<lparr>to_put = [], input_queue = [], output_queue = [], workers = ws, thread_exit = False, gets = 0,
      collected = js\<rparr>"

lemma solo_run:
  assumes "\<not> is_break j" and "\<not> is_skip j" and "worker_command cfg j = Inr cmd"
  shows "sched_run popen cfg solo_schedule (start_system 1 [j]) =
    Some (done_state [Exited] [finish_job (popen cmd (cwd j)) j])"
  using assms by (simp add: solo_schedule_def sched_simps done_state_def)

text \<open>Two workers and two jobs, which finish in the reverse order.\<close>

definition duo_schedule :: "choice list" where
  "duo_schedule = [Main_put, Main_put, Worker_get 0, Worker_get 1, Worker_handle 1, Worker_handle 0,
     Worker_finish 1, Main_put, Main_put, Worker_get 1, Worker_finish 0, Worker_handle 1,
     Worker_get 0, Main_collect, Main_collect, Worker_handle 0]"

lemma duo_run:
  assumes "\<not> is_break j" "\<not> is_skip j" "worker_command cfg j = Inr cmd"
    and "\<not> is_break k" "\<not> is_skip k" "worker_command cfg k = Inr cmd'"
  shows "sched_run popen cfg duo_schedule (start_system 2 [j, k]) =
    Some (done_state [Exited, Exited]
      [finish_job (popen cmd' (cwd k)) k, finish_job (popen cmd (cwd j)) j])"
  using assms by (simp add: duo_schedule_def sched_simps done_state_def numeral_2_eq_2)

text \<open>The same two jobs on one worker, in order.\<close>

definition serial_schedule :: "choice list" where
  "serial_schedule = [Main_put, Main_put, Main_put, Worker_get 0, Worker_handle 0, Worker_finish 0,
     Worker_get 0, Worker_handle 0, Worker_finish 0, Worker_get 0, Worker_handle 0,
     Main_collect, Main_collect]"

lemma serial_run:
  assumes "\<not> is_break j" "\<not> is_skip j" "worker_command cfg j = Inr cmd"
    and "\<not> is_break k" "\<not> is_skip k" "worker_command cfg k = Inr cmd'"
  shows "sched_run popen cfg serial_schedule (start_system 1 [j, k]) =
    Some (done_state [Exited]
      [finish_job (popen cmd (cwd j)) j, finish_job (popen cmd' (cwd k)) k])"
  using assms by (simp add: serial_schedule_def sched_simps done_state_def numeral_2_eq_2)

lemma demo_run: "reach (\<lambda>c d r. r = demo_result) demo_config 1 [demo_job]
    (done_state [Exited] [finish_job demo_result demo_job])"
proof -
  have "python demo_config \<noteq> []" by (simp add: demo_config_def)
  then obtain cmd where "worker_command demo_config demo_job = Inr cmd" using worker_command_ok by blast
  then show ?thesis
    using sched_run_start [OF solo_run [of demo_job demo_config cmd "\<lambda>c d. demo_result"]] by simp
qed

section \<open>Properties\<close>

text \<open>C1: however the threads and a possible interrupt interleave, when the main thread has
  made its \<open>output_queue.get\<close> calls it holds every dispatched job exactly once, and each is
  its job as it was put, marked as interrupted (only after the signal), skipped without being
  run (only if it is to be skipped), or finished with a result of its own command.\<close>

theorem each_job_once:
  assumes "reach may cfg n js s" and "list_all fresh_job js" and "gets s = 0"
  shows "mset (map strip_job (collected s)) = mset js \<and>
    list_all (\<lambda>j. outcome may cfg (thread_exit s) (strip_job j) j) (collected s)"
proof -
  have I: "system_inv may cfg n js s" by (rule reach_inv [OF assms(1,2)])
  then show ?thesis using all_collected [OF I assms(3)]
    by (auto simp: system_inv_def returned_def list_all_iff)
qed

theorem each_job_once_witness:
  "mset (map strip_job [finish_job demo_result demo_job]) = mset [demo_job] \<and>
   list_all (\<lambda>j. outcome (\<lambda>c d r. r = demo_result) demo_config False (strip_job j) j)
     [finish_job demo_result demo_job]"
  using each_job_once [OF demo_run] by (auto simp: done_state_def)

text \<open>C2: With at least one worker thread, a Python interpreter configured, jobs that have not been
  run before, and programs that have some result whenever they are started, the test run does not deadlock: in every
  reachable state some thread can go on, until all jobs are collected and all workers have returned. Without an
  interpreter a worker raises and the main thread waits for ever.\<close>

theorem no_deadlock:
  assumes "reach may cfg n js s" and "list_all fresh_job js" and "0 < n" and "python cfg \<noteq> []"
    and "\<And>c d. \<exists>r. may c d r"
  shows "joined s \<or> (\<exists>s'. step may cfg s s')"
  using progress [OF assms] by blast

theorem no_deadlock_witness:
  "\<exists>s'. step (\<lambda>c d r. r = demo_result) demo_config (start_system 1 [demo_job]) s'"
  using no_deadlock [OF reach_start [of "\<lambda>c d r. r = demo_result" demo_config 1 "[demo_job]"]]
  by (simp add: demo_config_def joined_def start_system_def)

text \<open>C3: the test run ends: no schedule has infinitely many steps, even when the signal
  arrives again and again in between.\<close>

theorem run_terminates:
  "wf {(s', s). \<exists>r. (r = s \<or> r = sigint_hook s) \<and> step may cfg r s'}"
proof (rule wf_subset [OF wf_measure [of work]])
  have "work (sigint_hook s) = work s" for s by (simp add: work_def sigint_hook_def)
  then show "{(s', s). \<exists>r. (r = s \<or> r = sigint_hook s) \<and> step may cfg r s'} \<subseteq> measure work"
    using step_work by (auto simp: measure_def inv_image_def less_eq) metis
qed

text \<open>without an interrupt and with reproducible programs, the jobs the main thread
  collects are, up to order, the same in every schedule: the outcome of each dispatched job.\<close>

theorem schedule_independent:
  assumes "reach (\<lambda>c d r. r = popen c d) cfg n js s" and "list_all fresh_job js"
    and "gets s = 0" and "\<not> thread_exit s"
  shows "mset (collected s) = mset (map (run_outcome popen cfg) js)"
  using collected_outcomes [OF reach_inv [OF assms(1,2)] assms(3,4)] by simp

theorem schedule_independent_witness:
  "mset [finish_job demo_result demo_job] = mset (map (run_outcome (\<lambda>c d. demo_result) demo_config) [demo_job])"
  using schedule_independent [OF demo_run] by (simp add: done_state_def)

end
