(* ===== verification/TestReport.thy ===== *)
theory TestReport
  imports PyStr
begin

text \<open>
  The two report writers of \<open>src/test.py\<close>: \<open>read_test\<close>, \<open>node_to_text\<close>, \<open>translate_to_text\<close>
  and \<open>translate_to_html\<close>, on the element tree of the parsed results file. A text report is
  the string written; an HTML report is a list of tags and texts, which \<open>render\<close> turns into
  the string written, so that the nesting of the tags can be stated.
\<close>

section \<open>Element trees\<close>

datatype xml = Elem (tag: string) (attrs: "(string \<times> string) list") (elem_text: "string option")
  (kids: "xml list")

definition find_kid :: "string \<Rightarrow> xml \<Rightarrow> xml option" where
  "find_kid t x = List.find (\<lambda>k. tag k = t) (kids x)"

definition findall :: "string \<Rightarrow> xml \<Rightarrow> xml list" where
  "findall t x = filter (\<lambda>k. tag k = t) (kids x)"

text \<open>\<open>x.find(t).text\<close>: a missing element is \<open>None\<close>, which has no attribute \<open>text\<close>.\<close>

definition kid_text :: "string \<Rightarrow> xml \<Rightarrow> string option result" where
  "kid_text t x = (case find_kid t x of None \<Rightarrow> Inl AttributeError | Some k \<Rightarrow> Inr (elem_text k))"

text \<open>\<open>'%s' % v\<close> for a string or \<open>None\<close>\<close>

definition fmt :: "string option \<Rightarrow> string" where
  "fmt v = (case v of None \<Rightarrow> ''None'' | Some s \<Rightarrow> s)"

abbreviation nl :: string where
  "nl \<equiv> [CHR 0x0A]"

abbreviation quote :: string where
  "quote \<equiv> [CHR 0x22]"

definition read_test :: "xml \<Rightarrow> (string option \<times> string option \<times> string option) result" where
  "read_test test =
     rbind (kid_text ''Result'' test) (\<lambda>result.
     rbind (kid_text ''Name'' test) (\<lambda>name.
       Inr (result, name,
         case find_kid ''Time'' test of
           None \<Rightarrow> Some '''' | Some t \<Rightarrow> map_of (attrs t) ''real'')))"

text \<open>The loop that joins the results of a list of writes, ending at the first exception.\<close>

fun collect :: "('e + 'a list) list \<Rightarrow> 'e + 'a list" where
  "collect [] = Inr []"
| "collect (r # rs) = rbind r (\<lambda>a. rbind (collect rs) (\<lambda>b. Inr (a @ b)))"

section \<open>The text report\<close>

definition detail_text :: "xml \<Rightarrow> string result" where
  "detail_text details =
     rbind (kid_text ''Message'' details) (\<lambda>m.
     rbind (kid_text ''Condition'' details) (\<lambda>c.
     rbind (kid_text ''Actual'' details) (\<lambda>a.
     rbind (kid_text ''Limit'' details) (\<lambda>l.
     rbind (kid_text ''File'' details) (\<lambda>f.
     rbind (kid_text ''Line'' details) (\<lambda>n.
       Inr (''    Details:'' @ nl @
            ''      Message:   '' @ fmt m @ nl @
            ''      Condition: '' @ fmt c @ nl @
            ''      Actual:    '' @ fmt a @ nl @
            ''      Limit:     '' @ fmt l @ nl @
            ''      File:      '' @ fmt f @ nl @
            ''      Line:      '' @ fmt n @ nl)))))))"

definition header_text :: "string \<Rightarrow> xml \<Rightarrow> string result" where
  "header_text kind test =
     rbind (read_test test) (\<lambda>(result, name, time_real).
       Inr (fmt result @ '': '' @ kind @ '' '' @ quote @ fmt name @ quote @
            '' ('' @ fmt time_real @ '')'' @ nl))"

fun node_to_text :: "xml \<Rightarrow> string result" and nodes_to_text :: "xml list \<Rightarrow> string result" where
  "node_to_text (Elem t a x ks) =
     rbind (header_text ''Test Suite'' (Elem t a x ks)) (\<lambda>h.
     rbind (collect (map detail_text (findall ''FailureDetails'' (Elem t a x ks)))) (\<lambda>d.
     rbind (nodes_to_text ks) (\<lambda>c. Inr (h @ d @ c))))"
| "nodes_to_text [] = Inr []"
| "nodes_to_text (k # ks) =
     (if tag k = ''Test''
      then rbind (node_to_text k) (\<lambda>a. rbind (nodes_to_text ks) (\<lambda>b. Inr (a @ b)))
      else nodes_to_text ks)"

definition translate_to_text :: "xml \<Rightarrow> string result" where
  "translate_to_text et =
     rbind (nodes_to_text (kids et)) (\<lambda>a.
     rbind (collect (map (header_text ''Example'') (findall ''Example'' et))) (\<lambda>b. Inr (a @ b)))"

section \<open>The HTML report\<close>

datatype html = Open string string | Close string | Txt string

fun render :: "html \<Rightarrow> string" where
  "render (Open t a) = ''<'' @ t @ a @ ''>''"
| "render (Close t) = ''</'' @ t @ ''>''"
| "render (Txt s) = s"

definition elem :: "string \<Rightarrow> string \<Rightarrow> string \<Rightarrow> html list" where
  "elem t a s = [Open t a, Txt s, Close t, Txt nl]"

definition color :: "string \<Rightarrow> string" where
  "color c = '' style='' @ quote @ ''color:'' @ c @ quote"

text \<open>One failure detail of a test case: the row is closed with \<open></td>\<close>.\<close>

definition detail_html ::
  "bool \<Rightarrow> string option \<Rightarrow> string option \<Rightarrow> string option \<Rightarrow> xml \<Rightarrow> html list result" where
  "detail_html first_row result name time details =
     rbind (kid_text ''Message'' details) (\<lambda>m.
     rbind (kid_text ''Condition'' details) (\<lambda>c.
     rbind (kid_text ''Actual'' details) (\<lambda>a.
     rbind (kid_text ''Limit'' details) (\<lambda>l.
     rbind (kid_text ''File'' details) (\<lambda>f.
     rbind (kid_text ''Line'' details) (\<lambda>n.
       Inr ([Open ''tr'' '''', Txt nl] @
            (if first_row then
               elem ''td'' (color ''red'') (fmt result) @ elem ''td'' '''' (fmt name) @
               elem ''td'' '''' (fmt time)
             else elem ''td'' '''' '''' @ elem ''td'' '''' '''' @ elem ''td'' '''' '''') @
            [Open ''td'' '''',
             Open ''b'' '''', Txt ''Message: '', Close ''b'', Txt (fmt m @ '', ''),
             Open ''b'' '''', Txt ''Condition: '', Close ''b'', Txt (fmt c @ '', ''),
             Open ''b'' '''', Txt ''Actual: '', Close ''b'', Txt (fmt a @ '', ''),
             Open ''b'' '''', Txt ''Limit: '', Close ''b'', Txt (fmt l @ '', ''),
             Open ''b'' '''', Txt ''File: '', Close ''b'', Txt (fmt f @ '', ''),
             Open ''b'' '''', Txt ''Line: '', Close ''b'', Txt (fmt n),
             Close ''td'', Txt nl,
             Close ''td'', Txt nl])))))))"

fun details_html ::
  "bool \<Rightarrow> string option \<Rightarrow> string option \<Rightarrow> string option \<Rightarrow> xml list \<Rightarrow> html list result" where
  "details_html first_row result name time [] = Inr []"
| "details_html first_row result name time (d # ds) =
     rbind (detail_html first_row result name time d) (\<lambda>a.
     rbind (details_html False result name time ds) (\<lambda>b. Inr (a @ b)))"

definition case_html :: "xml \<Rightarrow> html list result" where
  "case_html c =
     rbind (read_test c) (\<lambda>(result, name, time).
       if result = Some ''FAIL''
       then details_html True result name time (findall ''FailureDetails'' c)
       else Inr ([Open ''tr'' '''', Txt nl] @ elem ''td'' (color ''green'') (fmt result) @
                 elem ''td'' '''' (fmt name) @ elem ''td'' '''' (fmt time) @
                 elem ''td'' '''' '''' @ [Close ''tr'', Txt nl]))"

definition no_more_information :: "string option \<Rightarrow> bool" where
  "no_more_information result \<longleftrightarrow>
     result = Some ''CRASH'' \<or> result = Some ''SKIP'' \<or> result = Some ''VALGR''"

definition result_color :: "string option \<Rightarrow> string" where
  "result_color result =
     (if result = Some ''PASS'' then color ''green''
      else if result = Some ''SKIP'' then color ''#ff6600'' else color ''red'')"

definition suite_html :: "xml \<Rightarrow> html list result" where
  "suite_html suite =
     rbind (read_test suite) (\<lambda>(result, name, time).
       let head =
         elem ''h3'' (result_color result) (fmt result @ '': '' @ fmt name @ '' ('' @ fmt time @ '')'') @
         [Open ''table'' ('' border='' @ quote @ ''1'' @ quote), Txt nl] @
         elem ''th'' '''' '' Result ''
       in if no_more_information result
          then Inr (head @ [Open ''tr'' '''', Txt nl] @
                 elem ''td'' (if result = Some ''SKIP'' then color ''#ff6600'' else color ''red'') (fmt result) @
                 [Close ''tr'', Txt nl, Close ''table'', Txt nl])
          else rbind (collect (map case_html (findall ''Test'' suite))) (\<lambda>rows.
                 Inr (head @ elem ''th'' '''' ''Test Case Name'' @ elem ''th'' '''' '' Time '' @
                   (if result = Some ''FAIL'' then elem ''th'' '''' ''Failure Details'' else []) @
                   rows @ [Close ''table'', Txt nl])))"

text \<open>A skipped example's cell is closed with \<open></fd>\<close>.\<close>

definition example_html :: "xml \<Rightarrow> html list result" where
  "example_html example =
     rbind (read_test example) (\<lambda>(result, name, time).
       Inr ([Open ''tr'' '''', Txt nl] @
            (if result = Some ''PASS'' then elem ''td'' (color ''green'') (fmt result)
             else if result = Some ''SKIP''
             then [Open ''td'' (color ''#ff6600''), Txt (fmt result), Close ''fd'', Txt nl]
             else elem ''td'' (color ''red'') (fmt result)) @
            elem ''td'' '''' (fmt name) @ elem ''td'' '''' (fmt time) @
            [Close ''tr'', Txt nl]))"

definition translate_to_html :: "xml \<Rightarrow> html list result" where
  "translate_to_html et =
     rbind (collect (map suite_html (findall ''Test'' et))) (\<lambda>suites.
     rbind (collect (map example_html (findall ''Example'' et))) (\<lambda>examples.
       Inr ([Open ''html'' '''', Txt nl, Open ''body'' '''', Txt nl,
             Open ''center'' '''', Open ''h1'' '''', Txt ''ns-3 Test Results'', Close ''h1'',
             Close ''center'', Txt nl] @
            elem ''h2'' '''' ''Test Suites'' @ suites @
            elem ''h2'' '''' ''Examples'' @
            [Open ''table'' ('' border='' @ quote @ ''1'' @ quote), Txt nl] @
            elem ''th'' '''' '' Result '' @ elem ''th'' '''' ''Example Name'' @
            elem ''th'' '''' ''Elapsed Time'' @ examples @
            [Close ''table'', Txt nl, Close ''body'', Txt nl, Close ''html'', Txt nl])))"

section \<open>The text report lists every test node in document order\<close>

lemma collect_append:
  "collect (xs @ ys) = rbind (collect xs) (\<lambda>a. rbind (collect ys) (\<lambda>b. Inr (a @ b)))"
proof (induction xs)
  case Nil
  show ?case by (cases "collect ys") auto
next
  case (Cons r rs)
  then show ?case by (cases r; cases "collect rs"; cases "collect ys") auto
qed

lemma collect_Inr: "collect rs = Inr z \<longleftrightarrow> (\<exists>zs. rs = map Inr zs \<and> z = concat zs)"
proof (induction rs arbitrary: z)
  case Nil
  show ?case by auto
next
  case (Cons r rs)
  show ?case
  proof (cases r)
    case (Inl e)
    then show ?thesis by (auto simp: Cons_eq_map_conv)
  next
    case (Inr a)
    then show ?thesis using Cons by (auto simp: rbind_Inr_iff Cons_eq_map_conv)
  qed
qed

fun test_nodes :: "xml \<Rightarrow> xml list" and tests_in :: "xml list \<Rightarrow> xml list" where
  "test_nodes (Elem t a x ks) = Elem t a x ks # tests_in ks"
| "tests_in [] = []"
| "tests_in (k # ks) = (if tag k = ''Test'' then test_nodes k else []) @ tests_in ks"

definition test_entry :: "xml \<Rightarrow> string result" where
  "test_entry test =
     rbind (header_text ''Test Suite'' test) (\<lambda>h.
     rbind (collect (map detail_text (findall ''FailureDetails'' test))) (\<lambda>d. Inr (h @ d)))"

lemma node_to_text_collect:
  "node_to_text t = collect (map test_entry (test_nodes t))"
  "nodes_to_text ts = collect (map test_entry (tests_in ts))"
proof (induction t and ts rule: node_to_text_nodes_to_text.induct)
  case (1 t a x ks)
  then show ?case unfolding node_to_text.simps test_nodes.simps list.map collect.simps test_entry_def
    by (cases "header_text ''Test Suite'' (Elem t a x ks)";
        cases "collect (map detail_text (findall ''FailureDetails'' (Elem t a x ks)))") auto
next
  case (3 k ks)
  then show ?case by (cases "tag k = ''Test''") (auto simp: collect_append)
qed auto

section \<open>Nesting of tags\<close>

text \<open>The stack of open tags after reading a list of tags; \<open>None\<close> at a mismatch.\<close>

fun run_tags :: "html list \<Rightarrow> string list \<Rightarrow> string list option" where
  "run_tags [] s = Some s"
| "run_tags (Open t a # hs) s = run_tags hs (t # s)"
| "run_tags (Close t # hs) s = (case s of [] \<Rightarrow> None | u # s' \<Rightarrow> if u = t then run_tags hs s' else None)"
| "run_tags (Txt x # hs) s = run_tags hs s"

definition well_nested :: "html list \<Rightarrow> bool" where
  "well_nested hs \<longleftrightarrow> run_tags hs [] = Some []"

lemma run_tags_append: "run_tags (xs @ ys) s = Option.bind (run_tags xs s) (run_tags ys)"
  by (induction xs s rule: run_tags.induct) (auto split: list.splits)

lemma run_tags_elem [simp]: "run_tags (elem t a x) s = Some s"
  by (simp add: elem_def)

lemma run_tags_elem_append [simp]: "run_tags (elem t a x @ hs) s = run_tags hs s"
  by (simp add: run_tags_append)

text \<open>A part either leaves the stack as it is or breaks the nesting.\<close>

definition nests :: "html list \<Rightarrow> bool \<Rightarrow> bool" where
  "nests hs ok \<longleftrightarrow> (\<forall>s. run_tags hs s = (if ok then Some s else None))"

lemma nests_append: "nests xs a \<Longrightarrow> nests ys b \<Longrightarrow> nests (xs @ ys) (a \<and> b)"
  by (simp add: nests_def run_tags_append)

lemma nests_elem [simp]: "nests (elem t a x) True"
  by (simp add: nests_def)

lemma collect_nests:
  assumes "collect (map f xs) = Inr h" and "\<And>x h. f x = Inr h \<Longrightarrow> nests h (ok x)"
  shows "nests h (list_all ok xs)"
  using assms(1)
proof (induction xs arbitrary: h)
  case Nil
  then show ?case by (simp add: nests_def)
next
  case (Cons x xs)
  then obtain a b where a: "f x = Inr a" and b: "collect (map f xs) = Inr b" and h: "h = a @ b"
    by (auto simp: rbind_Inr_iff)
  from nests_append [OF assms(2) [OF a] Cons.IH [OF b]] h show ?case by simp
qed

text \<open>The result the writers branch on, and the elements whose tags nest.\<close>

definition result_of :: "xml \<Rightarrow> string option" where
  "result_of x = (case find_kid ''Result'' x of None \<Rightarrow> None | Some k \<Rightarrow> elem_text k)"

definition case_nested :: "xml \<Rightarrow> bool" where
  "case_nested c \<longleftrightarrow> result_of c \<noteq> Some ''FAIL'' \<or> findall ''FailureDetails'' c = []"

definition suite_nested :: "xml \<Rightarrow> bool" where
  "suite_nested s \<longleftrightarrow> no_more_information (result_of s) \<or> list_all case_nested (findall ''Test'' s)"

definition example_nested :: "xml \<Rightarrow> bool" where
  "example_nested e \<longleftrightarrow> result_of e \<noteq> Some ''SKIP''"

lemma read_test_result: "read_test x = Inr (r, n, t) \<Longrightarrow> r = result_of x"
  by (auto simp: read_test_def rbind_Inr_iff kid_text_def result_of_def split: option.splits)

lemma detail_nests: "detail_html fr r n t d = Inr h \<Longrightarrow> nests h False"
  by (cases fr) (auto simp: detail_html_def rbind_Inr_iff nests_def)

lemma details_nests: "details_html fr r n t ds = Inr h \<Longrightarrow> nests h (ds = [])"
proof (induction fr r n t ds arbitrary: h rule: details_html.induct)
  case (1 fr r n t)
  then show ?case by (simp add: nests_def)
next
  case (2 fr r n t d ds)
  then obtain a b where "detail_html fr r n t d = Inr a" "details_html False r n t ds = Inr b" "h = a @ b"
    by (auto simp: rbind_Inr_iff)
  with nests_append [OF detail_nests "2.IH"] show ?case by (auto simp: nests_def)
qed

lemma case_nests: "case_html c = Inr h \<Longrightarrow> nests h (case_nested c)"
proof -
  assume "case_html c = Inr h"
  then obtain r n t where r: "read_test c = Inr (r, n, t)"
    and h: "(if r = Some ''FAIL'' then details_html True r n t (findall ''FailureDetails'' c)
       else Inr ([Open ''tr'' '''', Txt nl] @ elem ''td'' (color ''green'') (fmt r) @
         elem ''td'' '''' (fmt n) @ elem ''td'' '''' (fmt t) @
         elem ''td'' '''' '''' @ [Close ''tr'', Txt nl])) = Inr h"
    by (auto simp: case_html_def rbind_Inr_iff)
  show ?thesis
  proof (cases "r = Some ''FAIL''")
    case True
    then show ?thesis using details_nests [of True r n t _ h] h read_test_result [OF r]
      by (simp add: case_nested_def)
  next
    case False
    then show ?thesis using h read_test_result [OF r] by (auto simp: case_nested_def nests_def)
  qed
qed

lemma suite_nests: "suite_html x = Inr h \<Longrightarrow> nests h (suite_nested x)"
proof -
  assume s: "suite_html x = Inr h"
  then obtain r n t where r: "read_test x = Inr (r, n, t)" by (auto simp: suite_html_def rbind_Inr_iff)
  have res: "result_of x = r" using read_test_result [OF r] by simp
  show ?thesis
  proof (cases "no_more_information r")
    case True
    then show ?thesis using s r res by (auto simp: suite_html_def suite_nested_def nests_def Let_def)
  next
    case False
    then obtain rows where rows: "collect (map case_html (findall ''Test'' x)) = Inr rows"
      using s r by (auto simp: suite_html_def rbind_Inr_iff Let_def)
    then have "nests rows (list_all case_nested (findall ''Test'' x))"
      by (rule collect_nests) (rule case_nests)
    then show ?thesis using False s r rows res
      by (auto simp: suite_html_def suite_nested_def nests_def Let_def run_tags_append)
  qed
qed

lemma example_nests: "example_html e = Inr h \<Longrightarrow> nests h (example_nested e)"
proof -
  assume e: "example_html e = Inr h"
  then obtain r n t where r: "read_test e = Inr (r, n, t)" by (auto simp: example_html_def rbind_Inr_iff)
  then show ?thesis using e read_test_result [OF r]
    by (auto simp: example_html_def example_nested_def nests_def)
qed

section \<open>Properties\<close>

text \<open>The text report is the concatenation, in document order and at every depth, of the
  entries of all nested test elements followed by one line per example; the first missing
  child element ends it with the exception of that access.\<close>

theorem text_report_flat:
  "translate_to_text et =
     collect (map test_entry (tests_in (kids et)) @
       map (header_text ''Example'') (findall ''Example'' et))"
  by (simp add: translate_to_text_def node_to_text_collect collect_append)

text \<open>The tags of an HTML report nest correctly exactly if no test case of a fully reported
  suite failed with failure details and no example was skipped: these rows are closed with a
  wrong tag.\<close>

theorem html_report_nesting:
  assumes "translate_to_html et = Inr h"
  shows "well_nested h \<longleftrightarrow>
    list_all suite_nested (findall ''Test'' et) \<and> list_all example_nested (findall ''Example'' et)"
proof -
  obtain suites examples where s: "collect (map suite_html (findall ''Test'' et)) = Inr suites"
    and e: "collect (map example_html (findall ''Example'' et)) = Inr examples"
    using assms by (auto simp: translate_to_html_def rbind_Inr_iff)
  have "nests suites (list_all suite_nested (findall ''Test'' et))"
    using s by (rule collect_nests) (rule suite_nests)
  moreover have "nests examples (list_all example_nested (findall ''Example'' et))"
    using e by (rule collect_nests) (rule example_nests)
  ultimately show ?thesis using assms s e
    by (cases "list_all suite_nested (findall ''Test'' et)";
        cases "list_all example_nested (findall ''Example'' et)")
      (auto simp: translate_to_html_def well_nested_def nests_def run_tags_append)
qed

definition demo_results :: xml where
  "demo_results =
     Elem ''Results'' [] None
       [Elem ''Example'' [] None
          [Elem ''Name'' [] (Some ''udp-echo'') [], Elem ''Result'' [] (Some ''SKIP'') []]]"

theorem html_report_nesting_witness:
  "\<exists>h. translate_to_html demo_results = Inr h \<and> \<not> well_nested h"
proof -
  have ex: "\<exists>h. translate_to_html demo_results = Inr h"
    by (simp add: demo_results_def translate_to_html_def findall_def example_html_def read_test_def
        kid_text_def find_kid_def)
  have "\<not> list_all example_nested (findall ''Example'' demo_results)"
    by (simp add: demo_results_def findall_def example_nested_def result_of_def find_kid_def)
  with ex show ?thesis using html_report_nesting [of demo_results] by blast
qed

end
