(* ===== verification/TestRun.thy ===== *)
theory TestRun
  imports TestConfig TestJobs TestReport "HOL-Library.List_Lexorder" "HOL-Library.Char_ord"
begin

text \<open>
  The main program of \<open>src/test.py\<close>: the options of \<open>main\<close> and the function \<open>run_tests\<close>: the
  waf command, the dictionary of runnable programs, the choice of the suites, the jobs that
  are dispatched for suites and examples, the loop over the finished jobs with its counters
  and the results file, the summary, the reports and the exit code. The concurrent phase
  between dispatch and results is the step relation of the theory on jobs; \<open>run_tests\<close> takes
  the list of collected jobs as an argument.
\<close>

section \<open>Options\<close>

record options =
  opt_buildpath :: string
  opt_constrain :: string
  opt_duration :: bool
  opt_example :: string
  opt_update_data :: bool
  opt_fullness :: string
  opt_valgrind :: bool
  opt_kinds :: bool
  opt_list :: bool
  opt_multiple :: bool
  opt_nowaf :: bool
  opt_pyexample :: string
  opt_retain :: bool
  opt_suite :: string
  opt_text :: string
  opt_verbose :: bool
  opt_html :: string
  opt_xml :: string

definition default_options :: options where
  "default_options =
     \<lparr>opt_buildpath = '''', opt_constrain = '''', opt_duration = False, opt_example = '''',
      opt_update_data = False, opt_fullness = ''QUICK'', opt_valgrind = False, opt_kinds = False,
      opt_list = False, opt_multiple = False, opt_nowaf = False, opt_pyexample = '''',
      opt_retain = False, opt_suite = '''', opt_text = '''', opt_verbose = False,
      opt_html = '''', opt_xml = ''''\<rparr>"

definition core_kinds :: "string list" where
  "core_kinds = [''bvt'', ''core'', ''performance'', ''system'', ''unit'']"

definition core_valgrind_skip_tests :: "string list" where
  "core_valgrind_skip_tests =
     [''ns3-tcp-cwnd'', ''nsc-tcp-loss'', ''ns3-tcp-interoperability'', ''routing-click'',
      ''lte-rr-ff-mac-scheduler'', ''lte-tdmt-ff-mac-scheduler'', ''lte-fdmt-ff-mac-scheduler'',
      ''lte-pf-ff-mac-scheduler'', ''lte-tta-ff-mac-scheduler'', ''lte-fdbet-ff-mac-scheduler'',
      ''lte-ttbet-ff-mac-scheduler'', ''lte-fdtbfq-ff-mac-scheduler'',
      ''lte-tdtbfq-ff-mac-scheduler'', ''lte-pss-ff-mac-scheduler'']"

definition core_nsc_missing_skip_tests :: "string list" where
  "core_nsc_missing_skip_tests = [''ns3-tcp-cwnd'', ''nsc-tcp-loss'', ''ns3-tcp-interoperability'']"

text \<open>The command that builds what the run needs; both platforms get the same.\<close>

definition waf_command :: "string \<Rightarrow> options \<Rightarrow> string" where
  "waf_command python_exe opts =
     (if opt_kinds opts \<or> opt_list opts \<or>
         (opt_constrain opts \<noteq> '''' \<and> opt_constrain opts \<in> set core_kinds)
      then python_exe @ '' waf --target=test-runner''
      else if opt_example opts \<noteq> ''''
      then python_exe @ '' waf --target='' @ path_basename (opt_example opts)
      else python_exe @ '' waf'')"

definition programs_dictionary :: "string list \<Rightarrow> (string, string) pydict" where
  "programs_dictionary programs =
     fold (\<lambda>program. dict_put (path_basename program) program) programs []"

section \<open>The suites\<close>

definition system_exit :: "py_error" where
  "system_exit = OtherException ''SystemExit(2)''"

text \<open>\<open>suites.decode()\<close> when the output stayed bytes fails again.\<close>

definition text_of :: "py_text \<Rightarrow> string result" where
  "text_of t = (case t of PyStr s \<Rightarrow> Inr s | PyBytes b \<Rightarrow> Inl (OtherException ''UnicodeDecodeError''))"

text \<open>The standard output of the test runner with some arguments.\<close>

definition runner_output ::
  "(string \<Rightarrow> string \<Rightarrow> proc_result) \<Rightarrow> run_config \<Rightarrow> waf_config \<Rightarrow> string \<Rightarrow> string \<Rightarrow> string result" where
  "runner_output popen rc cfg dir args =
     rbind (run_job_synchronously popen rc (path_join ''utils'' (program_name cfg ''test-runner'' @ args))
              dir False False '''')
       (\<lambda>(r, out, err, et). text_of out)"

text \<open>The text of suite names and whether a single suite was asked for.\<close>

definition initial_suites ::
  "(string \<Rightarrow> string result) \<Rightarrow> options \<Rightarrow> (string \<times> bool) result" where
  "initial_suites runner opts =
     (if opt_suite opts \<noteq> '''' then
        rbind (runner '' --print-test-name-list'') (\<lambda>suites.
          if opt_suite opts \<in> set (split_char (CHR 0x0A) suites)
          then Inr (opt_suite opts @ nl, True) else Inl system_exit)
      else if opt_example opts = '''' \<and> opt_pyexample opts = '''' then
        (if opt_constrain opts \<noteq> ''''
         then rbind (runner ('' --print-test-name-list --test-type='' @ opt_constrain opts))
                (\<lambda>suites. Inr (suites, False))
         else rbind (runner '' --print-test-name-list'') (\<lambda>suites. Inr (suites, False)))
      else Inr ('''', False))"

definition remove_tests :: "string list \<Rightarrow> string list \<Rightarrow> string list" where
  "remove_tests performance suite_list =
     fold (\<lambda>t suites. if t \<in> set suites then remove1 t suites else suites) performance suite_list"

definition select_suites ::
  "(string \<Rightarrow> string result) \<Rightarrow> options \<Rightarrow> string list result" where
  "select_suites runner opts =
     rbind (initial_suites runner opts) (\<lambda>(suites, single_suite).
       let suite_list = split_char (CHR 0x0A) suites
       in if \<not> single_suite \<and> opt_constrain opts \<noteq> ''performance'' then
            rbind (runner ('' --print-test-name-list --test-type='' @ ''performance'')) (\<lambda>out.
              Inr (remove_tests (split_char (CHR 0x0A) out) suite_list))
          else Inr suite_list)"

section \<open>The jobs\<close>

text \<open>The directories a job is given.\<close>

record job_dirs =
  out_dir :: string
  here :: string

definition suite_job :: "waf_config \<Rightarrow> options \<Rightarrow> job_dirs \<Rightarrow> string \<Rightarrow> job" where
  "suite_job cfg opts dirs test =
     (let job = new_job;
          job = set_is_example False job;
          job = set_is_pyexample False job;
          job = set_display_name test job;
          job = set_tmp_file_name (path_join (out_dir dirs) (test @ ''.xml'')) job;
          job = set_cwd (here dirs) job;
          job = set_basedir (here dirs) job;
          job = set_tempdir (out_dir dirs) job;
          multiple = (if opt_multiple opts then '''' else '' --stop-on-failure'');
          fullness = (if opt_fullness opts \<noteq> '''' then '' --fullness='' @ map upper_char (opt_fullness opts)
                      else '' --fullness=QUICK'');
          path_cmd = path_join ''utils'' (program_name cfg ''test-runner'' @ '' --test-name='' @
            test @ multiple @ fullness);
          job = set_shell_command path_cmd job;
          job = (if opt_valgrind opts \<and> test \<in> set core_valgrind_skip_tests
                 then set_is_skip True job else job);
          job = (if \<not> nsc_enabled cfg \<and> test \<in> set core_nsc_missing_skip_tests
                 then set_is_skip True job else job)
      in job)"

definition suite_jobs :: "waf_config \<Rightarrow> options \<Rightarrow> job_dirs \<Rightarrow> string list \<Rightarrow> job list" where
  "suite_jobs cfg opts dirs suite_list =
     map (suite_job cfg opts dirs) (filter (\<lambda>t. t \<noteq> '''') (map strip suite_list))"

definition example_job :: "options \<Rightarrow> job_dirs \<Rightarrow> string \<Rightarrow> string \<Rightarrow> bool \<Rightarrow> string \<Rightarrow> job" where
  "example_job opts dirs name test py build =
     (let job = new_job;
          job = set_is_example (\<not> py) job;
          job = set_is_pyexample py job;
          job = set_display_name name job;
          job = set_tmp_file_name '''' job;
          job = set_cwd (out_dir dirs) job;
          job = set_basedir (here dirs) job;
          job = set_tempdir (out_dir dirs) job;
          job = set_shell_command test job
      in set_build_path build job)"

text \<open>The program name of a command line: its first word without directories.\<close>

definition command_name :: "string \<Rightarrow> string" where
  "command_name test = path_basename (split_once CHR '' '' test ! 0)"

fun example_jobs ::
  "(string \<Rightarrow> bool result) \<Rightarrow> (string, string) pydict \<Rightarrow> options \<Rightarrow> job_dirs \<Rightarrow> cpp_test list \<Rightarrow>
   job list result" where
  "example_jobs cond programs opts dirs [] = Inr []"
| "example_jobs cond programs opts dirs ((name, test, do_run, do_valgrind_run) # rest) =
     rbind
       (if command_name test \<in> set (dict_keys programs) then
          rbind (cond do_run) (\<lambda>run.
            if run then
              (let job = example_job opts dirs name test False (opt_buildpath opts)
               in if opt_valgrind opts
                  then rbind (cond do_valgrind_run) (\<lambda>v.
                         Inr [if \<not> v then set_is_skip True job else job])
                  else Inr [job])
            else Inr [])
        else Inr [])
       (\<lambda>js. rbind (example_jobs cond programs opts dirs rest) (\<lambda>js'. Inr (js @ js')))"

fun python_jobs ::
  "(string \<Rightarrow> bool result) \<Rightarrow> string list \<Rightarrow> waf_config \<Rightarrow> options \<Rightarrow> job_dirs \<Rightarrow> python_test list \<Rightarrow>
   job list result" where
  "python_jobs cond scripts cfg opts dirs [] = Inr []"
| "python_jobs cond scripts cfg opts dirs ((test, do_run) # rest) =
     rbind
       (if command_name test \<in> set scripts then
          rbind (cond do_run) (\<lambda>run.
            if run then
              (let job = example_job opts dirs test test True '''';
                   job = (if opt_valgrind opts then set_is_skip True job else job);
                   job = (if \<not> enable_python_bindings cfg then set_is_skip True job else job)
               in Inr [job])
            else Inr [])
        else Inr [])
       (\<lambda>js. rbind (python_jobs cond scripts cfg opts dirs rest) (\<lambda>js'. Inr (js @ js')))"

definition single_example_jobs ::
  "(string, string) pydict \<Rightarrow> waf_config \<Rightarrow> options \<Rightarrow> job_dirs \<Rightarrow> job list" where
  "single_example_jobs programs cfg opts dirs =
     (case dict_get programs (program_name cfg (opt_example opts)) of
        None \<Rightarrow> []
      | Some path \<Rightarrow>
          (let example_path = path_abspath (here dirs) path
           in [example_job opts dirs example_path example_path False (opt_buildpath opts)]))"

definition single_python_jobs :: "string list \<Rightarrow> options \<Rightarrow> job_dirs \<Rightarrow> job list" where
  "single_python_jobs scripts opts dirs =
     (if path_basename (opt_pyexample opts) \<notin> set scripts then []
      else [example_job opts dirs (opt_pyexample opts) (opt_pyexample opts) True ''''])"

text \<open>All jobs in the order in which they are put into the queue.\<close>

definition dispatched_jobs ::
  "(string \<Rightarrow> bool result) \<Rightarrow> (string, string) pydict \<Rightarrow> string list \<Rightarrow> waf_config \<Rightarrow> options \<Rightarrow>
   job_dirs \<Rightarrow> string list \<Rightarrow> test_lists \<Rightarrow> job list result" where
  "dispatched_jobs cond programs scripts cfg opts dirs suite_list tests =
     (case tests of (example_tests, names_original, python_tests) \<Rightarrow>
        let none = (opt_suite opts = '''' \<and> opt_example opts = '''' \<and> opt_pyexample opts = '''')
        in rbind
             (if none then
                (if (opt_constrain opts = '''' \<or> opt_constrain opts = ''example'') \<and> enable_examples cfg
                 then example_jobs cond programs opts dirs example_tests else Inr [])
              else if opt_example opts \<noteq> '''' then Inr (single_example_jobs programs cfg opts dirs)
              else Inr []) (\<lambda>examples.
           rbind
             (if none then
                (if (opt_constrain opts = '''' \<or> opt_constrain opts = ''pyexample'') \<and> enable_examples cfg
                 then python_jobs cond scripts cfg opts dirs python_tests else Inr [])
              else if opt_pyexample opts \<noteq> '''' then Inr (single_python_jobs scripts opts dirs)
              else Inr []) (\<lambda>pys.
             Inr (suite_jobs cfg opts dirs suite_list @ examples @ pys))))"

section \<open>The finished jobs\<close>

datatype status = PASS | FAIL | SKIP | VALGR | CRASH

text \<open>The statuses ordered by how bad they are.\<close>

fun severity :: "status \<Rightarrow> nat" where
  "severity PASS = 0" | "severity SKIP = 1" | "severity VALGR = 2" | "severity FAIL = 3" | "severity CRASH = 4"

lemma severity_inject: "severity a = severity b \<longleftrightarrow> a = b"
  by (cases a; cases b) simp_all

instantiation status :: linorder
begin

definition less_eq_status :: "status \<Rightarrow> status \<Rightarrow> bool" where
  "less_eq_status a b \<longleftrightarrow> severity a \<le> severity b"

definition less_status :: "status \<Rightarrow> status \<Rightarrow> bool" where
  "less_status a b \<longleftrightarrow> severity a < severity b"

instance
  by standard (auto simp: less_eq_status_def less_status_def severity_inject)

end

lemma status_le_SKIP: "st \<le> SKIP \<longleftrightarrow> st = PASS \<or> st = SKIP"
  by (cases st) (simp_all add: less_eq_status_def)

definition show_status :: "status \<Rightarrow> string" where
  "show_status st =
     (case st of PASS \<Rightarrow> ''PASS'' | FAIL \<Rightarrow> ''FAIL'' | SKIP \<Rightarrow> ''SKIP'' | VALGR \<Rightarrow> ''VALGR''
      | CRASH \<Rightarrow> ''CRASH'')"

definition status_of :: "job \<Rightarrow> status" where
  "status_of job =
     (if is_skip job then SKIP
      else if returncode job = 0 then PASS
      else if returncode job = 1 then FAIL
      else if returncode job = 2 then VALGR
      else CRASH)"

record summary =
  passed :: nat
  failed :: nat
  skipped :: nat
  crashed :: nat
  valgrind_errors :: nat
  skipped_names :: "string list"
  failed_names :: "string list"
  crashed_names :: "string list"
  valgrind_names :: "string list"
  results_xml :: string
  printed :: "string list"

definition count_job :: "job \<Rightarrow> summary \<Rightarrow> summary" where
  "count_job job s =
     (case status_of job of
        SKIP \<Rightarrow> s\<lparr>skipped := skipped s + 1, skipped_names := skipped_names s @ [display_name job]\<rparr>
      | PASS \<Rightarrow> s\<lparr>passed := passed s + 1\<rparr>
      | FAIL \<Rightarrow> s\<lparr>failed := failed s + 1, failed_names := failed_names s @ [display_name job]\<rparr>
      | VALGR \<Rightarrow> s\<lparr>valgrind_errors := valgrind_errors s + 1,
                   valgrind_names := valgrind_names s @ [display_name job]\<rparr>
      | CRASH \<Rightarrow> s\<lparr>crashed := crashed s + 1, crashed_names := crashed_names s @ [display_name job]\<rparr>)"

text \<open>\<open>'%.3f' % seconds\<close> for a number of milliseconds\<close>

definition show_seconds :: "nat \<Rightarrow> string" where
  "show_seconds ms =
     show_nat (ms div 1000) @ ''.'' @ [digit_char (ms div 100 mod 10), digit_char (ms div 10 mod 10),
       digit_char (ms mod 10)]"

definition job_line :: "options \<Rightarrow> job \<Rightarrow> string" where
  "job_line opts job =
     (let kind = (if is_example job \<or> is_pyexample job then ''Example'' else ''TestSuite'')
      in if opt_duration opts \<or> opt_constrain opts = ''performance''
         then show_status (status_of job) @ '' ('' @ show_seconds (elapsed_time job) @ ''): '' @ kind @
                '' '' @ display_name job
         else show_status (status_of job) @ '': '' @ kind @ '' '' @ display_name job)"

text \<open>What one job adds to the results file: the file of a suite that ran to its end is copied.\<close>

definition job_xml :: "files \<Rightarrow> job \<Rightarrow> string result" where
  "job_xml fs job =
     (if is_example job \<or> is_pyexample job then
        Inr (''<Example>'' @ nl @ ''  <Name>'' @ display_name job @ ''</Name>'' @ nl @
             ''  <Result>'' @ show_status (status_of job) @ ''</Result>'' @ nl @
             ''  <Time real='' @ quote @ show_seconds (elapsed_time job) @ quote @ ''/>'' @ nl @
             ''</Example>'' @ nl)
      else if is_skip job then
        Inr (''<Test>'' @ nl @ ''  <Name>'' @ display_name job @ ''</Name>'' @ nl @
             ''  <Result>SKIP</Result>'' @ nl @ ''</Test>'' @ nl)
      else if returncode job = 0 \<or> returncode job = 1 \<or> returncode job = 2 then
        rbind (open_file fs (tmp_file_name job)) (\<lambda>lines. Inr (concat lines))
      else
        Inr (''<Test>'' @ nl @ ''  <Name>'' @ display_name job @ ''</Name>'' @ nl @
             ''  <Result>CRASH</Result>'' @ nl @ ''</Test>'' @ nl))"

definition process_job :: "files \<Rightarrow> options \<Rightarrow> job \<Rightarrow> summary \<Rightarrow> summary result" where
  "process_job fs opts job s =
     (if is_break job then Inr s
      else (let s = count_job job s;
                s = s\<lparr>printed := printed s @ [job_line opts job]\<rparr>
            in rbind (job_xml fs job) (\<lambda>x. Inr (s\<lparr>results_xml := results_xml s @ x\<rparr>))))"

fun process_jobs :: "files \<Rightarrow> options \<Rightarrow> job list \<Rightarrow> summary \<Rightarrow> summary result" where
  "process_jobs fs opts [] s = Inr s"
| "process_jobs fs opts (job # jobs) s =
     rbind (process_job fs opts job s) (process_jobs fs opts jobs)"

definition start_summary :: summary where
  "start_summary =
     \<lparr>passed = 0, failed = 0, skipped = 0, crashed = 0, valgrind_errors = 0, skipped_names = [],
      failed_names = [], crashed_names = [], valgrind_names = [],
      results_xml = ''<?xml version='' @ quote @ ''1.0'' @ quote @ ''?>'' @ nl @ ''<Results>'' @ nl,
      printed = []\<rparr>"

text \<open>One of the lists of names, sorted.\<close>

definition name_list :: "string \<Rightarrow> string list \<Rightarrow> string list" where
  "name_list title names =
     (if names = [] then []
      else [''List of '' @ title @ '':'' @ nl @ ''    '' @ join (nl @ ''    '') (sort names)])"

definition summary_lines :: "nat \<Rightarrow> summary \<Rightarrow> string list" where
  "summary_lines n s =
     [show_nat (passed s) @ '' of '' @ show_nat n @ '' tests passed ('' @
      show_nat (passed s) @ '' passed, '' @ show_nat (skipped s) @ '' skipped, '' @
      show_nat (failed s) @ '' failed, '' @ show_nat (crashed s) @ '' crashed, '' @
      show_nat (valgrind_errors s) @ '' valgrind errors)''] @
     name_list ''SKIPped tests'' (skipped_names s) @ name_list ''FAILed tests'' (failed_names s) @
     name_list ''CRASHed tests'' (crashed_names s) @ name_list ''VALGR failures'' (valgrind_names s)"

definition exit_status :: "nat \<Rightarrow> summary \<Rightarrow> int" where
  "exit_status n s = (if passed s + skipped s = n then 0 else 1)"

section \<open>\<open>run_tests\<close>\<close>

text \<open>
  What a run leaves behind; \<open>return\<close> without a value gives the process exit code 0. The
  reports are made from the parsed results file.
\<close>

record run_report =
  exit_value :: int
  console :: "string list"
  report_xml :: "string option"
  report_text :: "string option"
  report_html :: "string option"

definition early_exit :: "int \<Rightarrow> string list \<Rightarrow> run_report" where
  "early_exit code lines =
     \<lparr>exit_value = code, console = lines, report_xml = None, report_text = None,
      report_html = None\<rparr>"

text \<open>The list that \<open>--list\<close> prints, after a run of the test runner.\<close>

definition list_lines :: "string \<Rightarrow> string list \<Rightarrow> string list" where
  "list_lines standard_out names_original =
     [''Test Type    Test Name'', ''---------    ---------''] @
     filter (\<lambda>item. strip item \<noteq> '''') (sort (split_char (CHR 0x0A) standard_out)) @
     map (\<lambda>item. ''example     '' @ '' '' @ item) (sort names_original) @ ['''']"

definition list_tests ::
  "(string \<Rightarrow> string \<Rightarrow> proc_result) \<Rightarrow> run_config \<Rightarrow> waf_config \<Rightarrow> options \<Rightarrow> string \<Rightarrow>
   string list \<Rightarrow> run_report result" where
  "list_tests popen rc cfg opts dir names_original =
     (let args = (if opt_constrain opts \<noteq> ''''
                  then '' --print-test-name-list --print-test-types --test-type='' @ opt_constrain opts
                  else '' --print-test-name-list --print-test-types'')
      in rbind (run_job_synchronously popen rc
                  (path_join ''utils'' (program_name cfg ''test-runner'' @ args)) dir False False '''')
           (\<lambda>(r, out, err, et).
              if r \<noteq> 0 then
                Inr (early_exit 0
                  [''test.py error:  test-runner return code returned '' @ show_int r,
                   ''To debug, try running './waf --run '' @ quote @ ''test-runner --print-test-name-list'' @
                   quote @ [CHR 0x27] @ nl])
              else rbind (text_of out) (\<lambda>s. Inr (early_exit 0 (list_lines s names_original)))))"

text \<open>\<open>print(standard_out.decode())\<close>: \<open>standard_out\<close> is a string already, which has no \<open>decode\<close>.\<close>

definition print_kinds ::
  "(string \<Rightarrow> string \<Rightarrow> proc_result) \<Rightarrow> run_config \<Rightarrow> waf_config \<Rightarrow> string \<Rightarrow> string list result" where
  "print_kinds popen rc cfg dir =
     rbind (run_job_synchronously popen rc
              (path_join ''utils'' (program_name cfg ''test-runner'' @ '' --print-test-type-list''))
              dir False False '''')
       (\<lambda>(r, out, err, et). case out of
          PyStr s \<Rightarrow> Inl AttributeError
        | PyBytes b \<Rightarrow> Inl (OtherException ''UnicodeDecodeError''))"

definition final_notes :: "waf_config \<Rightarrow> options \<Rightarrow> string list" where
  "final_notes cfg opts =
     (if \<not> enable_tests cfg \<or> \<not> enable_examples cfg then
        [''''] @
        (if \<not> enable_tests cfg
         then [''***  Note: ns-3 tests are currently disabled. Enable them by adding'',
               ''***  '' @ quote @ ''--enable-tests'' @ quote @ '' to ./waf configure or modifying your .ns3rc file.'',
               '''']
         else []) @
        (if \<not> enable_examples cfg
         then [''***  Note: ns-3 examples are currently disabled. Enable them by adding'',
               ''***  '' @ quote @ ''--enable-examples'' @ quote @ '' to ./waf configure or modifying your .ns3rc file.'',
               '''']
         else [])
      else []) @
     (if opt_valgrind opts \<and> \<not> valgrind_found cfg
      then ['''', ''***  Note: you are trying to use valgrind, but valgrind could not be found'',
            ''***  on your machine.  All tests and examples will crash or be skipped.'', '''']
      else [])"

text \<open>From the collected jobs to the exit code.\<close>

definition finish_run ::
  "files \<Rightarrow> (string \<Rightarrow> xml result) \<Rightarrow> waf_config \<Rightarrow> options \<Rightarrow> nat \<Rightarrow> job list \<Rightarrow> run_report result" where
  "finish_run fs parse_xml cfg opts n collected_jobs =
     rbind (process_jobs fs opts collected_jobs start_summary) (\<lambda>s.
     let xml = results_xml s @ ''</Results>'' @ nl
     in rbind (if opt_html opts \<noteq> ''''
               then rbind (rbind (parse_xml xml) translate_to_html) (\<lambda>h. Inr (Some (concat (map render h))))
               else Inr None) (\<lambda>html_report.
        rbind (if opt_text opts \<noteq> ''''
               then rbind (rbind (parse_xml xml) translate_to_text) (\<lambda>t. Inr (Some t))
               else Inr None) (\<lambda>text_report.
          Inr \<lparr>exit_value = exit_status n s,
               console = printed s @ summary_lines n s @ final_notes cfg opts,
               report_xml = (if opt_xml opts \<noteq> '''' then Some xml else None),
               report_text = text_report, report_html = html_report\<rparr>)))"


text \<open>What \<open>run_tests\<close> relies on beyond the files, and what \<open>read_waf_config\<close> has read.\<close>

record run_env =
  popen_of :: "string \<Rightarrow> string \<Rightarrow> proc_result"
  condition :: "string \<Rightarrow> bool result"
  parse_results :: "string \<Rightarrow> xml result"
  python_exe :: string
  time_stamp :: string

definition the_run_config :: "waf_config \<Rightarrow> options \<Rightarrow> run_config" where
  "the_run_config cfg opts =
     \<lparr>ns3_basedir = basedir_of cfg, ns3_builddir = builddir_of cfg, python = python_command cfg,
      use_valgrind = opt_valgrind opts, update_data = opt_update_data opts\<rparr>"

definition output_dirs :: "world \<Rightarrow> run_env \<Rightarrow> job_dirs" where
  "output_dirs w e = \<lparr>out_dir = path_join ''testpy-output'' (time_stamp e), here = wcwd w\<rparr>"

text \<open>The dispatch of all jobs: suites, examples, Python examples.\<close>

definition prepare_jobs ::
  "world \<Rightarrow> run_env \<Rightarrow> waf_config \<Rightarrow> options \<Rightarrow> string list \<Rightarrow> string list \<Rightarrow> test_lists \<Rightarrow> job list result" where
  "prepare_jobs w e cfg opts programs scripts tests =
     rbind (select_suites (runner_output (popen_of e) (the_run_config cfg opts) cfg (wcwd w)) opts)
       (\<lambda>suite_list. dispatched_jobs (condition e) (programs_dictionary programs) scripts cfg opts
          (output_dirs w e) suite_list tests)"

text \<open>
  The whole run after \<open>read_waf_config\<close>; \<open>run_jobs\<close> is the concurrent phase, from the
  dispatched jobs to the collected ones, and \<open>fs'\<close> the files after it.
\<close>

definition run_tests ::
  "world \<Rightarrow> run_env \<Rightarrow> waf_config \<Rightarrow> options \<Rightarrow> (job list \<Rightarrow> job list) \<Rightarrow> files \<Rightarrow> run_report result" where
  "run_tests w e cfg opts run_jobs fs' =
     (let waf = exit_code (popen_of e (waf_command (python_exe e) opts) (wcwd w));
          status_file = path_join (builddir_of cfg) ''build-status.py''
      in if \<not> opt_nowaf opts \<and> waf \<noteq> 0 then Inr (early_exit waf [])
         else if \<not> wexists w status_file then Inl system_exit
         else
           rbind (get_list_from_file (eval_strings w) (wfiles w) status_file ''ns3_runnable_programs'') (\<lambda>programs.
           rbind (get_list_from_file (eval_strings w) (wfiles w) status_file ''ns3_runnable_scripts'') (\<lambda>scripts.
           rbind (collect_examples w cfg (example_paths cfg) ([], [], [])) (\<lambda>tests.
           rbind (if opt_kinds opts then print_kinds (popen_of e) (the_run_config cfg opts) cfg (wcwd w)
                  else Inr []) (\<lambda>kinds.
             if opt_list opts then
               list_tests (popen_of e) (the_run_config cfg opts) cfg opts (wcwd w) (fst (snd tests))
             else if opt_kinds opts then Inr (early_exit 0 kinds)
             else
               rbind (prepare_jobs w e cfg opts programs scripts tests) (\<lambda>jobs.
                 finish_run fs' (parse_results e) cfg opts (length jobs) (run_jobs jobs)))))))"

section \<open>The dispatched jobs\<close>

lemma fresh_new_job [simp]: "fresh_job new_job"
  by (simp add: fresh_job_def strip_job_def new_job_def)

lemma suite_job_fresh: "fresh_job (suite_job cfg opts dirs test)"
  by (simp add: suite_job_def Let_def job_setters new_job_def fresh_job_def strip_job_def)

lemma example_job_fresh: "fresh_job (example_job opts dirs name test py build)"
  by (simp add: example_job_def Let_def job_setters new_job_def fresh_job_def strip_job_def)

lemma skip_fresh: "fresh_job j \<Longrightarrow> fresh_job (set_is_skip b j)"
  by (cases j) (simp add: set_is_skip_def fresh_job_def strip_job_def)

lemma example_jobs_fresh:
  "example_jobs cond programs opts dirs tests = Inr js \<Longrightarrow> list_all fresh_job js"
proof (induction cond programs opts dirs tests arbitrary: js rule: example_jobs.induct)
  case (2 cond programs opts dirs name test do_run do_valgrind_run rest)
  then show ?case
    by (auto simp: rbind_Inr_iff Let_def example_job_fresh skip_fresh split: if_splits)
qed simp

lemma python_jobs_fresh:
  "python_jobs cond scripts cfg opts dirs tests = Inr js \<Longrightarrow> list_all fresh_job js"
proof (induction cond scripts cfg opts dirs tests arbitrary: js rule: python_jobs.induct)
  case (2 cond scripts cfg opts dirs test do_run rest)
  then show ?case
    by (auto simp: rbind_Inr_iff Let_def example_job_fresh skip_fresh split: if_splits)
qed simp

lemma dispatched_fresh:
  assumes "dispatched_jobs cond programs scripts cfg opts dirs suites tests = Inr js"
  shows "list_all fresh_job js"
proof -
  obtain ex names py where tests: "tests = (ex, names, py)" by (cases tests)
  obtain es ps where js: "js = suite_jobs cfg opts dirs suites @ es @ ps"
    and es: "example_jobs cond programs opts dirs ex = Inr es \<or> es = [] \<or>
      es = single_example_jobs programs cfg opts dirs"
    and ps: "python_jobs cond scripts cfg opts dirs py = Inr ps \<or> ps = [] \<or>
      ps = single_python_jobs scripts opts dirs"
    using assms unfolding dispatched_jobs_def tests prod.case Let_def rbind_Inr_iff
    by (auto split: if_splits)
  have "list_all fresh_job (suite_jobs cfg opts dirs suites)"
    by (simp add: suite_jobs_def list_all_iff suite_job_fresh)
  moreover have "list_all fresh_job es"
    using es example_jobs_fresh
    by (auto simp: single_example_jobs_def Let_def example_job_fresh split: option.splits)
  moreover have "list_all fresh_job ps"
    using ps python_jobs_fresh by (auto simp: single_python_jobs_def example_job_fresh)
  ultimately show ?thesis by (simp add: js)
qed

section \<open>The counters\<close>

text \<open>How many of the jobs with a result have a status.\<close>

definition count_status :: "status \<Rightarrow> job list \<Rightarrow> nat" where
  "count_status st js = length (filter (\<lambda>j. \<not> is_break j \<and> status_of j = st) js)"

definition names_with :: "status \<Rightarrow> job list \<Rightarrow> string list" where
  "names_with st js = map display_name (filter (\<lambda>j. \<not> is_break j \<and> status_of j = st) js)"

lemma process_jobs_counts:
  "process_jobs fs opts js s = Inr s' \<Longrightarrow>
     passed s' = passed s + count_status PASS js \<and>
     failed s' = failed s + count_status FAIL js \<and>
     skipped s' = skipped s + count_status SKIP js \<and>
     crashed s' = crashed s + count_status CRASH js \<and>
     valgrind_errors s' = valgrind_errors s + count_status VALGR js \<and>
     skipped_names s' = skipped_names s @ names_with SKIP js \<and>
     failed_names s' = failed_names s @ names_with FAIL js \<and>
     crashed_names s' = crashed_names s @ names_with CRASH js \<and>
     valgrind_names s' = valgrind_names s @ names_with VALGR js \<and>
     printed s' = printed s @ map (job_line opts) (filter (\<lambda>j. \<not> is_break j) js)"
proof (induction js arbitrary: s)
  case Nil
  then show ?case by (simp add: count_status_def names_with_def)
next
  case (Cons j js)
  then obtain s1 where s1: "process_job fs opts j s = Inr s1" "process_jobs fs opts js s1 = Inr s'"
    by (auto simp: rbind_Inr_iff)
  note IH = Cons.IH [OF s1(2)]
  show ?case
  proof (cases "is_break j")
    case True
    then show ?thesis using IH s1(1) by (simp add: process_job_def count_status_def names_with_def)
  next
    case False
    then show ?thesis using IH s1(1)
      by (cases "status_of j")
        (auto simp: process_job_def count_job_def count_status_def names_with_def Let_def rbind_Inr_iff)
  qed
qed

lemma status_partition:
  "count_status PASS js + count_status FAIL js + count_status SKIP js + count_status CRASH js +
   count_status VALGR js + length (filter is_break js) = length js"
proof (induction js)
  case (Cons j js)
  then show ?case by (cases "status_of j") (auto simp: count_status_def)
qed (simp add: count_status_def)

lemma filter_mset_eq: "mset js = mset js' \<Longrightarrow> mset (filter P js) = mset (filter P js')"
  by simp

lemma count_status_mset: "mset js = mset js' \<Longrightarrow> count_status st js = count_status st js'"
  unfolding count_status_def by (rule mset_eq_length) (rule filter_mset_eq)

lemma names_with_mset:
  "mset js = mset js' \<Longrightarrow> mset (names_with st js) = mset (names_with st js')"
  unfolding names_with_def mset_map
  by (rule arg_cong [where f = "image_mset display_name"]) (rule filter_mset_eq)

lemma name_list_mset: "mset xs = mset ys \<Longrightarrow> name_list title xs = name_list title ys"
proof -
  assume m: "mset xs = mset ys"
  then have "sort xs = sort ys" by (metis mset_sort properties_for_sort sorted_sort)
  moreover have "xs = [] \<longleftrightarrow> ys = []"
    using mset_eq_length [OF m] by (cases xs; cases ys) auto
  ultimately show ?thesis by (simp only: name_list_def)
qed

text \<open>Removing a list of names, each occurring once.\<close>

lemma remove_tests_set: "distinct suites \<Longrightarrow> set (remove_tests perf suites) = set suites - set perf"
proof (induction perf arbitrary: suites)
  case (Cons t perf)
  then show ?case by (auto simp: remove_tests_def set_remove1_eq)
qed (simp add: remove_tests_def)

lemma process_jobs_start:
  assumes "process_jobs fs opts js start_summary = Inr s"
  shows "passed s = count_status PASS js" "failed s = count_status FAIL js"
    "skipped s = count_status SKIP js" "crashed s = count_status CRASH js"
    "valgrind_errors s = count_status VALGR js" "skipped_names s = names_with SKIP js"
    "failed_names s = names_with FAIL js" "crashed_names s = names_with CRASH js"
    "valgrind_names s = names_with VALGR js"
  using process_jobs_counts [OF assms] by (simp_all add: start_summary_def)

lemma summary_lines_mset:
  assumes "process_jobs fs opts js start_summary = Inr s"
    and "process_jobs fs' opts' js' start_summary = Inr s'" and "mset js = mset js'"
  shows "summary_lines n s = summary_lines n s'" and "exit_status n s = exit_status n s'"
proof -
  note eqs = process_jobs_start [OF assms(1)] process_jobs_start [OF assms(2)]
  note names = name_list_mset [OF names_with_mset [OF assms(3)]]
  show "summary_lines n s = summary_lines n s'"
    unfolding summary_lines_def eqs names count_status_mset [OF assms(3)] ..
  show "exit_status n s = exit_status n s'"
    unfolding exit_status_def eqs count_status_mset [OF assms(3)] ..
qed

section \<open>Properties\<close>

lemma exit_status_zero:
  assumes "process_jobs fs opts js start_summary = Inr s"
  shows "exit_status (length js) s = 0 \<longleftrightarrow> list_all (\<lambda>j. \<not> is_break j \<and> status_of j \<le> SKIP) js"
proof -
  have "count_status PASS js + count_status SKIP js = length js \<longleftrightarrow>
      list_all (\<lambda>j. \<not> is_break j \<and> status_of j \<le> SKIP) js"
  proof (induction js)
    case (Cons j js)
    have "count_status PASS js + count_status SKIP js \<le> length js"
      using status_partition [of js] by linarith
    with Cons show ?case by (auto simp: count_status_def status_le_SKIP)
  qed (simp add: count_status_def)
  then show ?thesis
    using process_jobs_start [OF assms] by (simp add: exit_status_def)
qed

text \<open>If no result is missing, the worst status alone decides.\<close>

lemma exit_status_worst:
  assumes "process_jobs fs opts js start_summary = Inr s" and "js \<noteq> []"
    and "list_all (\<lambda>j. \<not> is_break j) js"
  shows "exit_status (length js) s = 0 \<longleftrightarrow> Max (status_of ` set js) \<le> SKIP"
  using exit_status_zero [OF assms(1)] assms(2,3) by (auto simp: list_all_iff)

text \<open>C5: the exit code is 0 exactly if every dispatched job came back and was passed or
  skipped; one interrupted, failed, crashed or leaking job makes it 1.\<close>

theorem exit_code_correct:
  assumes "process_jobs fs opts js start_summary = Inr s"
  shows "exit_status (length js) s = 0 \<longleftrightarrow>
    list_all (\<lambda>j. \<not> is_break j \<and> (status_of j = PASS \<or> status_of j = SKIP)) js"
  using exit_status_zero [OF assms] by (simp add: status_le_SKIP)

definition demo_summary :: "summary result" where
  "demo_summary = process_jobs (\<lambda>_. Some [''<Test/>'']) default_options [finish_job demo_result demo_job] start_summary"

theorem exit_code_correct_witness:
  "\<exists>s. demo_summary = Inr s \<and> exit_status 1 s = 1"
proof -
  let ?job = "finish_job demo_result demo_job"
  have rc: "returncode ?job = 1" "is_skip ?job = False" "is_break ?job = False"
    "is_example ?job = False" "is_pyexample ?job = False"
    by (simp_all add: finish_job_def job_result_def demo_result_def demo_job_def job_setters new_job_def
        decode_def decodable_def)
  then have st: "status_of ?job = FAIL" "\<not> is_break ?job" by (simp_all add: status_of_def)
  have "job_xml (\<lambda>_. Some [''<Test/>'']) ?job = Inr ''<Test/>''"
    by (simp add: job_xml_def rc open_file_def)
  then obtain s where s: "demo_summary = Inr s"
    using st by (simp add: demo_summary_def process_job_def Let_def)
  have "exit_status (length [finish_job demo_result demo_job]) s \<noteq> 0"
    using exit_code_correct [OF s [unfolded demo_summary_def]] st by simp
  then have "exit_status 1 s = 1" by (simp add: exit_status_def split: if_splits)
  with s show ?thesis by blast
qed

text \<open>C4: without an interrupt and with reproducible programs, the summary that is printed and
  the exit code depend neither on the schedule nor on the number of worker threads.\<close>

theorem summary_schedule_independent:
  assumes "dispatched_jobs cond programs scripts cfg opts dirs suites tests = Inr js"
    and "reach (\<lambda>c d r. r = popen c d) rc n1 js s1" and "gets s1 = 0" and "\<not> thread_exit s1"
    and "reach (\<lambda>c d r. r = popen c d) rc n2 js s2" and "gets s2 = 0" and "\<not> thread_exit s2"
    and "process_jobs fs opts (collected s1) start_summary = Inr u1"
    and "process_jobs fs opts (collected s2) start_summary = Inr u2"
  shows "summary_lines (length js) u1 = summary_lines (length js) u2 \<and>
    exit_status (length js) u1 = exit_status (length js) u2"
proof -
  note fresh = dispatched_fresh [OF assms(1)]
  have "mset (collected s1) = mset (collected s2)"
    using collected_outcomes [OF reach_inv [OF assms(2) fresh] assms(3,4)]
      collected_outcomes [OF reach_inv [OF assms(5) fresh] assms(6,7)] by simp
  then show ?thesis using summary_lines_mset [OF assms(8,9)] by blast
qed

definition demo_dirs :: job_dirs where
  "demo_dirs = \<lparr>out_dir = ''o'', here = ''/n''\<rparr>"

theorem summary_schedule_independent_witness:
  "\<exists>j k u1 u2.
    dispatched_jobs (\<lambda>c. Inr True) [] [] demo_waf default_options demo_dirs [''t'', ''u''] ([], [], []) = Inr [j, k] \<and>
    process_jobs (\<lambda>_. Some [''<Test/>'']) default_options
      [finish_job demo_result k, finish_job demo_result j] start_summary = Inr u1 \<and>
    process_jobs (\<lambda>_. Some [''<Test/>'']) default_options
      [finish_job demo_result j, finish_job demo_result k] start_summary = Inr u2 \<and>
    summary_lines 2 u1 = summary_lines 2 u2 \<and> exit_status 2 u1 = exit_status 2 u2"
proof -
  let ?j = "suite_job demo_waf default_options demo_dirs ''t''"
  let ?k = "suite_job demo_waf default_options demo_dirs ''u''"
  let ?done = "finish_job demo_result"
  have jk: "is_break ?j = False" "is_skip ?j = False" "is_example ?j = False" "is_pyexample ?j = False"
    "is_break ?k = False" "is_skip ?k = False" "is_example ?k = False" "is_pyexample ?k = False"
    by (simp_all add: suite_job_def Let_def job_setters new_job_def core_nsc_missing_skip_tests_def
        default_options_def)
  have d: "dispatched_jobs (\<lambda>c. Inr True) [] [] demo_waf default_options demo_dirs [''t'', ''u''] ([], [], []) =
      Inr [?j, ?k]"
    by (simp add: dispatched_jobs_def suite_jobs_def default_options_def strip_def is_ws_def)
  have py: "python demo_config \<noteq> []" by (simp add: demo_config_def)
  obtain cmd cmd' where c: "worker_command demo_config ?j = Inr cmd" "worker_command demo_config ?k = Inr cmd'"
    using worker_command_ok [OF py] by meson
  let ?s1 = "done_state [Exited, Exited] [?done ?k, ?done ?j]"
  let ?s2 = "done_state [Exited] [?done ?j, ?done ?k]"
  have r: "reach (\<lambda>c d r. r = (\<lambda>c d. demo_result) c d) demo_config 2 [?j, ?k] ?s1"
      "reach (\<lambda>c d r. r = (\<lambda>c d. demo_result) c d) demo_config 1 [?j, ?k] ?s2"
    using sched_run_start [OF duo_run [of ?j demo_config cmd ?k cmd' "\<lambda>c d. demo_result"]]
      sched_run_start [OF serial_run [of ?j demo_config cmd ?k cmd' "\<lambda>c d. demo_result"]] jk c by simp_all
  have s: "gets (done_state ws js) = 0" "\<not> thread_exit (done_state ws js)" "collected (done_state ws js) = js"
    for ws js by (simp_all add: done_state_def)
  have brk: "is_break (?done ?j) = False" "is_break (?done ?k) = False" using jk by simp_all
  have x: "job_xml (\<lambda>_. Some [''<Test/>'']) (?done ?j) = Inr ''<Test/>''"
    "job_xml (\<lambda>_. Some [''<Test/>'']) (?done ?k) = Inr ''<Test/>''"
    using jk by (simp_all add: job_xml_def finish_job_def job_result_def demo_result_def
        decode_def decodable_def set_elapsed_time_def open_file_def)
  obtain u1 u2 where
    u: "process_jobs (\<lambda>_. Some [''<Test/>'']) default_options (collected ?s1) start_summary = Inr u1"
      "process_jobs (\<lambda>_. Some [''<Test/>'']) default_options (collected ?s2) start_summary = Inr u2"
    using brk x by (simp add: s process_job_def Let_def)
  have "summary_lines 2 u1 = summary_lines 2 u2 \<and> exit_status 2 u1 = exit_status 2 u2"
    using summary_schedule_independent [OF d r(1) s(1,2) r(2) s(1,2) u] by (simp add: numeral_2_eq_2)
  then show ?thesis using d u unfolding s(3) by blast
qed

text \<open>
  unless a single suite or the kind \<open>performance\<close> is asked for, exactly the suites the
  test runner does not list as performance tests are run, if it lists every suite once.\<close>

theorem performance_left_out:
  assumes "select_suites runner opts = Inr suites"
    and "opt_suite opts = ''''" and "opt_constrain opts \<noteq> ''performance''"
    and "initial_suites runner opts = Inr (listing, False)"
    and "distinct (split_char (CHR 0x0A) listing)"
    and "runner '' --print-test-name-list --test-type=performance'' = Inr perf"
  shows "set suites = set (split_char (CHR 0x0A) listing) - set (split_char (CHR 0x0A) perf)"
  using assms remove_tests_set [OF assms(5)] by (auto simp: select_suites_def Let_def)

definition demo_runner :: "string \<Rightarrow> string result" where
  "demo_runner args =
     (if args = '' --print-test-name-list'' then Inr (''a'' @ nl @ ''big'' @ nl @ ''c'' @ nl)
      else Inr (''big'' @ nl))"

theorem performance_left_out_witness:
  "set [''a'', ''c''] = set [''a'', ''big'', ''c'', ''''] - set [''big'', '''']"
proof -
  have sel: "select_suites demo_runner default_options = Inr [''a'', ''c'']" by code_simp
  have ini: "initial_suites demo_runner default_options = Inr (''a'' @ nl @ ''big'' @ nl @ ''c'' @ nl, False)"
    by code_simp
  have run: "demo_runner '' --print-test-name-list --test-type=performance'' = Inr (''big'' @ nl)"
    by code_simp
  have "split_char (CHR 0x0A) (''a'' @ nl @ ''big'' @ nl @ ''c'' @ nl) = [''a'', ''big'', ''c'', '''']"
    "split_char (CHR 0x0A) (''big'' @ nl) = [''big'', '''']" by code_simp+
  with performance_left_out [OF sel _ _ ini _ run] show ?thesis
    by (simp add: default_options_def)
qed

text \<open>
  with \<open>--suite\<close> an explicitly named example or Python example is dispatched as well
  (where one comment says that only the suite is run, another that only the example is), but
  no example from the lists is.\<close>

theorem suite_with_example:
  assumes "opt_suite opts \<noteq> ''''"
  shows "dispatched_jobs cond programs scripts cfg opts dirs suites tests =
    Inr (suite_jobs cfg opts dirs suites @
         (if opt_example opts \<noteq> '''' then single_example_jobs programs cfg opts dirs else []) @
         (if opt_pyexample opts \<noteq> '''' then single_python_jobs scripts opts dirs else []))"
  using assms by (auto simp: dispatched_jobs_def Let_def split: prod.splits)

definition demo_both :: options where
  "demo_both = default_options\<lparr>opt_suite := ''s'', opt_example := ''e''\<rparr>"

theorem suite_with_example_witness:
  "\<exists>js. dispatched_jobs (\<lambda>c. Inr True) [(''ns3-e-debug'', ''x/ns3-e-debug'')] [] demo_waf demo_both
      demo_dirs [''s''] ([], [], []) = Inr js \<and> map display_name js = [''s'', ''/n/x/ns3-e-debug'']"
proof -
  have names: "map display_name (suite_jobs demo_waf demo_both demo_dirs [''s''] @
      single_example_jobs [(''ns3-e-debug'', ''x/ns3-e-debug'')] demo_waf demo_both demo_dirs @ []) =
      [''s'', ''/n/x/ns3-e-debug'']" by code_simp
  have opts: "opt_suite demo_both \<noteq> ''''" "opt_example demo_both \<noteq> ''''" "opt_pyexample demo_both = ''''"
    by (simp_all add: demo_both_def default_options_def)
  show ?thesis using suite_with_example [OF opts(1)] names opts(2,3) by simp
qed

end
