(* ===== verification/CheckStyle.thy ===== *)
theory CheckStyle
  imports PyPath
begin

text \<open>
  The indentation checker \<open>src/utils/check-style.py\<close>: the configuration text for uncrustify,
  the classes \<open>PatchChunkLine\<close>, \<open>PatchChunk\<close> and \<open>Patch\<close>, \<open>parse_patchset\<close>, the removal of
  trailing white space changes, \<open>indent\<close>, \<open>indent_files\<close>, the mercurial hook and the main
  function. The programs uncrustify and patch, \<open>difflib.unified_diff\<close> and \<open>hg st\<close> are
  arguments. Lines of files and diffs keep their newline, as in Python. The messages of the debug
  mode are left out; as in Python 2, writing them does not fail.
\<close>

section \<open>Configuration\<close>

definition level2 :: "string list" where
  "level2 =
     [''nl_collapse_empty_body=False'', ''nl_if_brace=Add'', ''nl_brace_else=Add'',
      ''nl_elseif_brace=Add'', ''nl_else_brace=Add'', ''nl_while_brace=Add'',
      ''nl_do_brace=Add'', ''nl_for_brace=Add'', ''nl_brace_while=Add'', ''nl_switch_brace=Add'',
      ''nl_after_case=True'', ''nl_namespace_brace=Remove'', ''nl_after_brace_open=True'',
      ''nl_class_leave_one_liners=False'', ''nl_enum_leave_one_liners=False'',
      ''nl_func_leave_one_liners=False'', ''nl_if_leave_one_liners=False'',
      ''nl_class_colon=Ignore'', ''nl_after_access_spec=1'', ''nl_after_semicolon=True'',
      ''pos_class_colon=Lead'', ''pos_class_comma=Trail'', ''pos_bool=Lead'',
      ''nl_class_init_args=Add'', ''nl_template_class=Add'', ''nl_class_brace=Add'',
      ''# does not work very well'', ''nl_func_type_name=Ignore'', ''nl_func_scope_name=Ignore'',
      ''nl_func_type_name_class=Ignore'', ''nl_func_proto_type_name=Ignore'',
      ''# function'' @ [CHR 0x5C] @ ''n('', ''nl_func_paren=Remove'', ''nl_fdef_brace=Add'',
      ''nl_struct_brace=Add'', ''nl_enum_brace=Add'', ''nl_union_brace=Add'',
      ''mod_full_brace_do=Add'', ''mod_full_brace_for=Add'', ''mod_full_brace_if=Add'',
      ''mod_full_brace_while=Add'', ''mod_full_brace_for=Add'',
      ''mod_remove_extra_semicolon=True'', ''# max code width'', ''#code_width=128'',
      ''#ls_for_split_full=True'', ''#ls_func_split_full=True'']"

definition level1 :: "string list" where
  "level1 =
     [''# extra spaces here and there'', ''sp_brace_typedef=Add'', ''sp_enum_assign=Add'',
      ''sp_before_sparen=Add'', ''sp_after_semi_for=Add'', ''sp_arith=Add'', ''sp_assign=Add'',
      ''sp_compare=Add'', ''sp_func_class_paren=Add'', ''sp_after_type=Add'',
      ''sp_type_func=Add'', ''sp_angle_paren=Add'']"

definition level0 :: "string list" where
  "level0 =
     [''sp_func_proto_paren=Add'', ''sp_func_def_paren=Add'', ''sp_func_call_paren=Add'',
      ''sp_after_semi_for=Ignore'', ''sp_before_sparen=Ignore'', ''sp_type_func=Ignore'',
      ''sp_after_type=Ignore'', ''nl_class_leave_one_liners=True'',
      ''nl_enum_leave_one_liners=True'', ''nl_func_leave_one_liners=True'',
      ''nl_assign_leave_one_liners=True'', ''#nl_collapse_empty_body=False'',
      ''nl_getset_leave_one_liners=True'', ''nl_if_leave_one_liners=True'',
      ''nl_fdef_brace=Ignore'', ''# finally, indentation configuration'', ''indent_with_tabs=0'',
      ''indent_namespace=false'', ''indent_columns=2'', ''indent_brace=2'',
      ''indent_case_brace=2'', ''indent_class=true'', ''indent_class_colon=True'',
      ''# alignment'', ''indent_align_assign=False'', ''align_left_shift=True'',
      ''# comment reformating disabled'', ''cmt_reflow_mode=1 # do not touch comments at all'',
      ''cmt_indent_multi=False # really, do not touch them'']"

definition newline :: char where
  "newline = CHR 0x0A"

text \<open>The text of the temporary configuration file; each block starts with an empty line.\<close>

definition config_block :: "string list \<Rightarrow> string" where
  "config_block ls = newline # concat (map (\<lambda>l. l @ [newline]) ls)"

definition uncrustify_config_file :: "int \<Rightarrow> string" where
  "uncrustify_config_file level =
     config_block level0 @ (if 1 \<le> level then config_block level1 else []) @
     (if 2 \<le> level then config_block level2 else [])"

section \<open>Patches\<close>

text \<open>\<open>PatchChunkLine\<close>: the type is 0 (not set), \<open>SRC\<close>, \<open>DST\<close> or \<open>BOTH\<close>.\<close>

record chunk_line =
  line_type :: nat
  line_text :: string

definition new_line :: chunk_line where
  "new_line = \<lparr>line_type = 0, line_text = ''''\<rparr>"

definition line_set_src :: "string \<Rightarrow> chunk_line \<Rightarrow> chunk_line" where
  "line_set_src line l = l\<lparr>line_type := 1, line_text := line\<rparr>"

definition line_set_dst :: "string \<Rightarrow> chunk_line \<Rightarrow> chunk_line" where
  "line_set_dst line l = l\<lparr>line_type := 2, line_text := line\<rparr>"

definition line_set_both :: "string \<Rightarrow> chunk_line \<Rightarrow> chunk_line" where
  "line_set_both line l = l\<lparr>line_type := 3, line_text := line\<rparr>"

definition append_to_line :: "string \<Rightarrow> chunk_line \<Rightarrow> chunk_line" where
  "append_to_line s l = l\<lparr>line_text := line_text l @ s\<rparr>"

definition is_src :: "chunk_line \<Rightarrow> bool" where
  "is_src l \<longleftrightarrow> line_type l = 1 \<or> line_type l = 3"

definition is_dst :: "chunk_line \<Rightarrow> bool" where
  "is_dst l \<longleftrightarrow> line_type l = 2 \<or> line_type l = 3"

definition write_line :: "chunk_line \<Rightarrow> string result" where
  "write_line l =
     (if line_type l = 1 then Inr (''-'' @ line_text l @ [newline])
      else if line_type l = 2 then Inr (''+'' @ line_text l @ [newline])
      else if line_type l = 3 then Inr ('' '' @ line_text l @ [newline])
      else Inl (OtherException ''invalid patch''))"

record chunk =
  chunk_lines :: "chunk_line list"
  src_pos :: nat
  dst_pos :: nat

definition new_chunk :: "string \<Rightarrow> string \<Rightarrow> chunk" where
  "new_chunk src_position dst_position =
     \<lparr>chunk_lines = [], src_pos = digits_val src_position, dst_pos = digits_val dst_position\<rparr>"

definition add_line :: "chunk_line \<Rightarrow> chunk \<Rightarrow> chunk" where
  "add_line l c = c\<lparr>chunk_lines := chunk_lines c @ [l]\<rparr>"

definition chunk_src :: "chunk \<Rightarrow> chunk_line list" where
  "chunk_src c = filter is_src (chunk_lines c)"

definition chunk_dst :: "chunk \<Rightarrow> chunk_line list" where
  "chunk_dst c = filter is_dst (chunk_lines c)"

text \<open>Writing stops with an exception at the first line without a type.\<close>

fun write_all :: "('a \<Rightarrow> string list result) \<Rightarrow> 'a list \<Rightarrow> string list result" where
  "write_all w [] = Inr []"
| "write_all w (x # xs) = rbind (w x) (\<lambda>a. rbind (write_all w xs) (\<lambda>b. Inr (a @ b)))"

definition chunk_header :: "chunk \<Rightarrow> string" where
  "chunk_header c =
     ''@@ -'' @ show_nat (src_pos c) @ '','' @ show_nat (length (chunk_src c)) @
     '' +'' @ show_nat (dst_pos c) @ '','' @ show_nat (length (chunk_dst c)) @ '' @@'' @ [newline]"

definition write_chunk :: "chunk \<Rightarrow> string list result" where
  "write_chunk c =
     rbind (write_all (\<lambda>l. rbind (write_line l) (\<lambda>s. Inr [s])) (chunk_lines c))
       (\<lambda>ls. Inr (chunk_header c # ls))"

record patch =
  patch_src :: string
  patch_dst :: string
  patch_chunks :: "chunk list"

definition new_patch :: patch where
  "new_patch = \<lparr>patch_src = '''', patch_dst = '''', patch_chunks = []\<rparr>"

definition write_patch :: "patch \<Rightarrow> string list result" where
  "write_patch p =
     rbind (write_all write_chunk (patch_chunks p))
       (\<lambda>ls. Inr ((''--- '' @ patch_src p @ [newline]) # (''+++ '' @ patch_dst p @ [newline]) # ls))"

section \<open>\<open>parse_patchset\<close>\<close>

text \<open>
  \<open>re.compile('^' + p + '(.*)$').search(line)\<close>: the dot matches no newline, and the dollar sign
  also matches before a newline at the end.
\<close>

definition match_rest :: "string \<Rightarrow> string \<Rightarrow> string option" where
  "match_rest p line =
     (if startswith p line then
        (let r = drop (length p) line;
             r = (if r \<noteq> [] \<and> last r = newline then butlast r else r)
         in if newline \<in> set r then None else Some r)
      else None)"

text \<open>The groups 1 and 3 of the chunk header.\<close>

definition match_chunk_start :: "string \<Rightarrow> (string \<times> string) option" where
  "match_chunk_start line =
     Option.bind (match_text ''@@ -'' line) (\<lambda>s.
     Option.bind (match_digits s) (\<lambda>(g1, s).
     Option.bind (match_text '','' s) (\<lambda>s.
     Option.bind (match_digits s) (\<lambda>(g2, s).
     Option.bind (match_text '' +'' s) (\<lambda>s.
     Option.bind (match_digits s) (\<lambda>(g3, s).
     Option.bind (match_text '','' s) (\<lambda>s.
     Option.bind (match_digits s) (\<lambda>(g4, s).
     Option.bind (match_text '' @@'' s) (\<lambda>s. Some (g1, g3))))))))))"

text \<open>
  The loop's state: the patches so far, whose last one is \<open>current_patch\<close>, and the index of the
  patch whose last chunk is \<open>current_chunk\<close>: the chunk stays current when a new patch begins.
\<close>

type_synonym parse_state = "patch list \<times> nat option"

definition to_current_chunk :: "chunk_line \<Rightarrow> parse_state \<Rightarrow> parse_state result" where
  "to_current_chunk l st =
     (case st of
        (ps, None) \<Rightarrow> Inl UnboundLocalError
      | (ps, Some i) \<Rightarrow>
          (let p = ps ! i; cs = patch_chunks p
           in Inr (ps[i := p\<lparr>patch_chunks := butlast cs @ [add_line l (last cs)]\<rparr>], Some i)))"

definition to_current_patch :: "(patch \<Rightarrow> patch) \<Rightarrow> patch list \<Rightarrow> patch list result" where
  "to_current_patch f ps =
     (if ps = [] then Inl AttributeError else Inr (butlast ps @ [f (last ps)]))"

definition parse_line :: "string \<Rightarrow> parse_state \<Rightarrow> parse_state result" where
  "parse_line line st =
     (case match_rest ''--- '' line of
        Some g \<Rightarrow> Inr (fst st @ [new_patch\<lparr>patch_src := g\<rparr>], snd st)
      | None \<Rightarrow>
     (case match_rest ''+++ '' line of
        Some g \<Rightarrow> rbind (to_current_patch (\<lambda>p. p\<lparr>patch_dst := g\<rparr>) (fst st)) (\<lambda>ps. Inr (ps, snd st))
      | None \<Rightarrow>
     (case match_chunk_start line of
        Some (g1, g3) \<Rightarrow>
          rbind (to_current_patch
                   (\<lambda>p. p\<lparr>patch_chunks := patch_chunks p @ [new_chunk g1 g3]\<rparr>) (fst st))
            (\<lambda>ps. Inr (ps, Some (length ps - 1)))
      | None \<Rightarrow>
     (case match_rest ''-'' line of
        Some g \<Rightarrow> to_current_chunk (line_set_src g new_line) st
      | None \<Rightarrow>
     (case match_rest ''+'' line of
        Some g \<Rightarrow> to_current_chunk (line_set_dst g new_line) st
      | None \<Rightarrow>
     (case match_rest '' '' line of
        Some g \<Rightarrow> to_current_chunk (line_set_both g new_line) st
      | None \<Rightarrow> Inl (OtherException '''')))))))"

fun parse_lines :: "string list \<Rightarrow> parse_state \<Rightarrow> parse_state result" where
  "parse_lines [] st = Inr st"
| "parse_lines (line # rest) st = rbind (parse_line line st) (parse_lines rest)"

definition parse_patchset :: "string list \<Rightarrow> patch list result" where
  "parse_patchset generator = rbind (parse_lines generator ([], None)) (\<lambda>st. Inr (fst st))"

section \<open>Trailing white space\<close>

text \<open>
  \<open>^(.*)([ \t]+)$\<close>: the first group is greedy, so the second one is the last character.
\<close>

definition match_whitespace :: "string \<Rightarrow> (string \<times> string) option" where
  "match_whitespace s =
     (if s \<noteq> [] \<and> (last s = CHR '' '' \<or> last s = CHR 0x09) \<and> newline \<notin> set s
      then Some (butlast s, [last s]) else None)"

text \<open>
  The loop over the source lines of a chunk. Both lists hold the positions of line objects in
  the chunk, so a line of type \<open>BOTH\<close> is in both; \<open>False\<close> says that \<open>dst[i]\<close> raised.
\<close>

fun whitespace_loop :: "nat list \<Rightarrow> nat list \<Rightarrow> chunk_line list \<Rightarrow> chunk_line list \<times> bool" where
  "whitespace_loop [] ds ls = (ls, True)"
| "whitespace_loop (s # ss) [] ls = (ls, False)"
| "whitespace_loop (s # ss) (d # ds) ls =
     (case match_whitespace (line_text (ls ! s)) of
        Some (g1, g2) \<Rightarrow>
          whitespace_loop ss ds
            (if g1 = line_text (ls ! d) then ls[d := append_to_line g2 (ls ! d)] else ls)
      | None \<Rightarrow> whitespace_loop ss ds ls)"

definition positions :: "(chunk_line \<Rightarrow> bool) \<Rightarrow> chunk_line list \<Rightarrow> nat list" where
  "positions P ls = filter (\<lambda>i. P (ls ! i)) [0..<length ls]"

definition restore_chunk :: "chunk \<Rightarrow> chunk \<times> bool" where
  "restore_chunk c =
     (let ls = chunk_lines c
      in case whitespace_loop (positions is_src ls) (positions is_dst ls) ls of
           (ls', ok) \<Rightarrow> (c\<lparr>chunk_lines := ls'\<rparr>, ok))"

text \<open>The exception of one chunk ends the function: later chunks and patches are not visited.\<close>

fun restore_chunks :: "chunk list \<Rightarrow> chunk list \<times> bool" where
  "restore_chunks [] = ([], True)"
| "restore_chunks (c # cs) =
     (case restore_chunk c of
        (c', ok) \<Rightarrow> if ok then (case restore_chunks cs of (cs', ok') \<Rightarrow> (c' # cs', ok')) else (c' # cs, False))"

fun restore_patches :: "patch list \<Rightarrow> patch list" where
  "restore_patches [] = []"
| "restore_patches (p # ps) =
     (case restore_chunks (patch_chunks p) of
        (cs, ok) \<Rightarrow> p\<lparr>patch_chunks := cs\<rparr> # (if ok then restore_patches ps else ps))"

definition remove_trailing_whitespace_changes :: "string list \<Rightarrow> patch list result" where
  "remove_trailing_whitespace_changes patch_generator =
     rbind (parse_patchset patch_generator) (\<lambda>ps. Inr (restore_patches ps))"

section \<open>Indenting files\<close>

text \<open>
  The outside tools: uncrustify with a configuration text (\<open>None\<close> when it is not installed),
  the differences between two lists of lines, and the program patch on a diff.
\<close>

record tools =
  uncrustify :: "string \<Rightarrow> string list \<Rightarrow> string list option"
  unified_diff :: "string list \<Rightarrow> string list \<Rightarrow> string list"
  apply_patch :: "string list \<Rightarrow> string list \<Rightarrow> string list"

text \<open>
  The lines of the output file for the lines of the source. \<open>unified_diff\<close> is a generator: in
  debug mode the initial diff file uses it up.
\<close>

definition indent :: "tools \<Rightarrow> string list \<Rightarrow> bool \<Rightarrow> int \<Rightarrow> string list result" where
  "indent t source debug level =
     (case uncrustify t (uncrustify_config_file level) source of
        None \<Rightarrow> Inl (OtherException ''uncrustify not installed'')
      | Some formatted \<Rightarrow>
          (let diff = unified_diff t source formatted;
               diff = (if debug then [] else diff)
           in rbind
                (if level < 3 then
                   rbind (remove_trailing_whitespace_changes diff) (\<lambda>patchset.
                     if patchset \<noteq> [] then write_patch (hd patchset) else Inr [])
                 else Inr diff)
                (\<lambda>final_diff. Inr (apply_patch t final_diff source))))"

type_synonym file_store = "string \<Rightarrow> string list option"

definition read_lines :: "file_store \<Rightarrow> string \<Rightarrow> string list result" where
  "read_lines fs f =
     (case fs f of None \<Rightarrow> Inl (OtherException ''FileNotFoundError'') | Some ls \<Rightarrow> Inr ls)"

text \<open>The pairs of a file and what it should be.\<close>

fun indent_all ::
  "tools \<Rightarrow> file_store \<Rightarrow> string list \<Rightarrow> bool \<Rightarrow> int \<Rightarrow> (string \<times> string list) list result" where
  "indent_all t fs [] debug level = Inr []"
| "indent_all t fs (f # files) debug level =
     rbind (read_lines fs f) (\<lambda>ls.
     rbind (indent t ls debug level) (\<lambda>dst.
     rbind (indent_all t fs files debug level) (\<lambda>out. Inr ((f, dst) # out))))"

definition report_failed ::
  "tools \<Rightarrow> file_store \<Rightarrow> bool \<Rightarrow> (string \<times> string list) list \<Rightarrow> string list" where
  "report_failed t fs diff bad =
     (if \<not> diff then
        (''Found '' @ show_nat (length bad) @ '' badly indented files:'' @ [newline]) #
        map (\<lambda>(src, dst). ''  '' @ src @ [newline]) bad
      else concat (map (\<lambda>(src, dst). unified_diff t (the (fs src)) dst) bad))"

text \<open>The answer, the files afterwards and what is printed.\<close>

definition indent_files ::
  "tools \<Rightarrow> string list \<Rightarrow> bool \<Rightarrow> bool \<Rightarrow> int \<Rightarrow> bool \<Rightarrow> file_store \<Rightarrow>
   (bool \<times> file_store \<times> string list) result" where
  "indent_files t files diff debug level inplace fs =
     rbind (indent_all t fs files debug level) (\<lambda>out.
       if inplace then Inr (True, fold (\<lambda>(src, dst) fs. fs(src \<mapsto> dst)) out fs, [])
       else (let bad = filter (\<lambda>(src, dst). fs src \<noteq> Some dst) out
             in if bad \<noteq> [] then Inr (False, fs, report_failed t fs diff bad)
                else Inr (True, fs, [])))"

text \<open>The hook answers whether the commit is to be refused.\<close>

definition hg_modified_files :: "string list \<Rightarrow> string list" where
  "hg_modified_files hg_lines = map strip hg_lines"

definition run_as_hg_hook ::
  "tools \<Rightarrow> string list \<Rightarrow> file_store \<Rightarrow> (bool \<times> file_store \<times> string list) result" where
  "run_as_hg_hook t hg_lines fs =
     rbind (indent_files t (hg_modified_files hg_lines) False False 0 False fs)
       (\<lambda>(ok, fs', out). Inr (\<not> ok, fs', out))"

record style_options =
  style_debug :: bool
  style_level :: int
  style_hg_hook :: bool
  style_hg :: bool
  style_file :: string
  style_diff :: bool
  style_in_place :: bool

definition run_as_main ::
  "tools \<Rightarrow> style_options \<Rightarrow> string list \<Rightarrow> file_store \<Rightarrow> (int \<times> file_store \<times> string list) result" where
  "run_as_main t opts hg_lines fs =
     (if style_hg_hook opts then
        rbind (indent_files t (hg_modified_files hg_lines) False (style_debug opts) (style_level opts) False fs)
          (\<lambda>(ok, fs', out). Inr (if \<not> ok then 1 else 0, fs', out))
      else if style_hg opts then
        rbind (indent_files t (hg_modified_files hg_lines) (style_diff opts) (style_debug opts)
                 (style_level opts) (style_in_place opts) fs)
          (\<lambda>(ok, fs', out). Inr (0, fs', out))
      else if style_file opts \<noteq> '''' then
        (if fs (style_file opts) = None
         then Inr (1, fs, [''file '' @ style_file opts @ '' does not exist'' @ [newline]])
         else
           rbind (indent_files t [style_file opts] (style_diff opts) (style_debug opts)
                    (style_level opts) (style_in_place opts) fs)
             (\<lambda>(ok, fs', out). Inr (0, fs', out)))
      else Inr (0, fs, []))"

section \<open>Reading back a written patch\<close>

text \<open>
  Lines that can be read back: without newline, and not mistaken for a file header, which
  happens to a removed line that starts with two dashes and a space, for example.
\<close>

definition good_line :: "chunk_line \<Rightarrow> bool" where
  "good_line l \<longleftrightarrow> newline \<notin> set (line_text l) \<and>
     ((line_type l = 1 \<and> \<not> startswith ''-- '' (line_text l)) \<or>
      (line_type l = 2 \<and> \<not> startswith ''++ '' (line_text l)) \<or> line_type l = 3)"

definition good_chunk :: "chunk \<Rightarrow> bool" where
  "good_chunk c \<longleftrightarrow> list_all good_line (chunk_lines c)"

definition good_patch :: "patch \<Rightarrow> bool" where
  "good_patch p \<longleftrightarrow> newline \<notin> set (patch_src p) \<and> newline \<notin> set (patch_dst p) \<and>
     list_all good_chunk (patch_chunks p)"

lemma startswith_Cons [simp]: "startswith (c # p) (d # s) \<longleftrightarrow> c = d \<and> startswith p s"
  by (auto simp: startswith_def)

lemma startswith_Nil [simp]: "startswith [] s" "\<not> startswith (c # p) []"
  by (simp_all add: startswith_def)

lemma startswith_append [simp]: "startswith p (p @ s)"
  by (simp add: startswith_def)

lemma startswith_snoc_newline: "newline \<notin> set p \<Longrightarrow> startswith p (s @ [newline]) \<longleftrightarrow> startswith p s"
proof (induction p arbitrary: s)
  case (Cons c p)
  then show ?case by (cases s) auto
qed simp

lemma match_rest_write [simp]: "newline \<notin> set s \<Longrightarrow> match_rest p (p @ s @ [newline]) = Some s"
  by (simp add: match_rest_def)

lemma match_rest_None: "\<not> startswith p line \<Longrightarrow> match_rest p line = None"
  by (simp add: match_rest_def)

lemma not_digits [simp]: "\<not> is_digit CHR '',''" "\<not> is_digit CHR '' ''"
  by (simp_all add: is_digit_def)

lemma match_chunk_header: "match_chunk_start (chunk_header c) = Some (show_nat (src_pos c), show_nat (dst_pos c))"
  by (simp add: match_chunk_start_def chunk_header_def match_text_def)

lemma parse_lines_append:
  "parse_lines (xs @ ys) st = rbind (parse_lines xs st) (parse_lines ys)"
proof (induction xs arbitrary: st)
  case (Cons x xs)
  then show ?case by (cases "parse_line x st") auto
qed simp

text \<open>A written line is read into the current chunk.\<close>

lemma parse_good_line:
  assumes "good_line l" and "write_line l = Inr w"
  shows "parse_line w (ps @ [p\<lparr>patch_chunks := cs @ [c]\<rparr>], Some (length ps)) =
    Inr (ps @ [p\<lparr>patch_chunks := cs @ [add_line l c]\<rparr>], Some (length ps))"
proof -
  have nl: "newline \<notin> set (line_text l)" using assms(1) by (simp add: good_line_def)
  have ne: "newline \<noteq> CHR ''-''" "newline \<noteq> CHR ''+''" "newline \<noteq> CHR '' ''" by (simp_all add: newline_def)
  have st: "startswith ''-- '' (line_text l @ [newline]) = startswith ''-- '' (line_text l)"
    "startswith ''++ '' (line_text l @ [newline]) = startswith ''++ '' (line_text l)"
    using ne by (simp_all add: startswith_snoc_newline)
  have app: "to_current_chunk l' (ps @ [p\<lparr>patch_chunks := cs @ [c]\<rparr>], Some (length ps)) =
      Inr (ps @ [p\<lparr>patch_chunks := cs @ [add_line l' c]\<rparr>], Some (length ps))" for l'
    by (simp add: to_current_chunk_def)
  consider "line_type l = 1" "\<not> startswith ''-- '' (line_text l)"
    | "line_type l = 2" "\<not> startswith ''++ '' (line_text l)" | "line_type l = 3"
    using assms(1) by (auto simp: good_line_def)
  then show ?thesis
  proof cases
    case 1
    then have w: "w = ''-'' @ line_text l @ [newline]" using assms(2) by (simp add: write_line_def)
    have "l = line_set_src (line_text l) new_line" using 1(1) by (simp add: line_set_src_def new_line_def)
    with 1(2) nl st app show ?thesis
      by (simp add: parse_line_def w match_rest_None match_chunk_start_def match_text_def
          match_rest_write [of _ "''-''", simplified])
  next
    case 2
    then have w: "w = ''+'' @ line_text l @ [newline]" using assms(2) by (simp add: write_line_def)
    have "l = line_set_dst (line_text l) new_line" using 2(1) by (simp add: line_set_dst_def new_line_def)
    with 2(2) nl st app show ?thesis
      by (simp add: parse_line_def w match_rest_None match_chunk_start_def match_text_def
          match_rest_write [of _ "''+''", simplified])
  next
    case 3
    then have w: "w = '' '' @ line_text l @ [newline]" using assms(2) by (simp add: write_line_def)
    have "l = line_set_both (line_text l) new_line" using 3 by (simp add: line_set_both_def new_line_def)
    with nl app show ?thesis
      by (simp add: parse_line_def w match_rest_None match_chunk_start_def match_text_def
          match_rest_write [of _ "'' ''", simplified])
  qed
qed

lemma write_good_line: "good_line l \<Longrightarrow> \<exists>w. write_line l = Inr w"
  by (auto simp: good_line_def write_line_def)

lemma parse_good_lines:
  assumes "list_all good_line ls"
  shows "\<exists>ws. write_all (\<lambda>l. rbind (write_line l) (\<lambda>s. Inr [s])) ls = Inr ws \<and>
    parse_lines ws (ps @ [p\<lparr>patch_chunks := cs @ [c]\<rparr>], Some (length ps)) =
      Inr (ps @ [p\<lparr>patch_chunks := cs @ [c\<lparr>chunk_lines := chunk_lines c @ ls\<rparr>]\<rparr>], Some (length ps))"
  using assms
proof (induction ls arbitrary: c)
  case (Cons l ls)
  obtain w where w: "write_line l = Inr w" using Cons.prems write_good_line by auto
  have one: "parse_line w (ps @ [p\<lparr>patch_chunks := cs @ [c]\<rparr>], Some (length ps)) =
    Inr (ps @ [p\<lparr>patch_chunks := cs @ [add_line l c]\<rparr>], Some (length ps))"
    using Cons.prems by (intro parse_good_line [OF _ w]) simp
  obtain ws where ws: "write_all (\<lambda>l. rbind (write_line l) (\<lambda>s. Inr [s])) ls = Inr ws"
    "parse_lines ws (ps @ [p\<lparr>patch_chunks := cs @ [add_line l c]\<rparr>], Some (length ps)) =
      Inr (ps @ [p\<lparr>patch_chunks := cs @ [(add_line l c)\<lparr>chunk_lines := chunk_lines (add_line l c) @ ls\<rparr>]\<rparr>], Some (length ps))"
    using Cons.IH [of "add_line l c"] Cons.prems by auto
  show ?case using w one ws by (intro exI [of _ "w # ws"]) (simp add: add_line_def)
qed simp

text \<open>A written chunk is read as a new chunk of the current patch, which becomes current.\<close>

lemma parse_good_chunk:
  assumes "good_chunk c"
  shows "\<exists>ws. write_chunk c = Inr ws \<and>
    parse_lines ws (ps @ [p\<lparr>patch_chunks := cs\<rparr>], k) =
      Inr (ps @ [p\<lparr>patch_chunks := cs @ [c]\<rparr>], Some (length ps))"
proof -
  let ?c0 = "new_chunk (show_nat (src_pos c)) (show_nat (dst_pos c))"
  obtain ws where ws: "write_all (\<lambda>l. rbind (write_line l) (\<lambda>s. Inr [s])) (chunk_lines c) = Inr ws"
    "parse_lines ws (ps @ [p\<lparr>patch_chunks := cs @ [?c0]\<rparr>], Some (length ps)) =
      Inr (ps @ [p\<lparr>patch_chunks := cs @ [?c0\<lparr>chunk_lines := chunk_lines ?c0 @ chunk_lines c\<rparr>]\<rparr>], Some (length ps))"
    using parse_good_lines [of "chunk_lines c" ps cs ?c0 p] assms unfolding good_chunk_def by blast
  have c: "?c0\<lparr>chunk_lines := chunk_lines ?c0 @ chunk_lines c\<rparr> = c"
    by (simp add: new_chunk_def digits_val_show_nat)
  have "match_rest ''--- '' (chunk_header c) = None" "match_rest ''+++ '' (chunk_header c) = None"
    by (simp_all add: match_rest_def chunk_header_def)
  then have "parse_line (chunk_header c) (ps @ [p\<lparr>patch_chunks := cs\<rparr>], k) =
      Inr (ps @ [p\<lparr>patch_chunks := cs @ [?c0]\<rparr>], Some (length ps))"
    by (simp add: parse_line_def match_chunk_header to_current_patch_def)
  then show ?thesis using ws c by (simp add: write_chunk_def)
qed

lemma parse_good_chunks:
  assumes "list_all good_chunk cs"
  shows "\<exists>ws k'. write_all write_chunk cs = Inr ws \<and>
    parse_lines ws (ps @ [p\<lparr>patch_chunks := cs0\<rparr>], k) = Inr (ps @ [p\<lparr>patch_chunks := cs0 @ cs\<rparr>], k')"
  using assms
proof (induction cs arbitrary: cs0 k)
  case (Cons c cs)
  obtain wc where wc: "write_chunk c = Inr wc"
    "parse_lines wc (ps @ [p\<lparr>patch_chunks := cs0\<rparr>], k) =
      Inr (ps @ [p\<lparr>patch_chunks := cs0 @ [c]\<rparr>], Some (length ps))"
    using parse_good_chunk [of c ps cs0 p k] Cons.prems by auto
  obtain ws k' where ws: "write_all write_chunk cs = Inr ws"
    "parse_lines ws (ps @ [p\<lparr>patch_chunks := cs0 @ [c]\<rparr>], Some (length ps)) =
      Inr (ps @ [p\<lparr>patch_chunks := (cs0 @ [c]) @ cs\<rparr>], k')"
    using Cons.IH [of "cs0 @ [c]" "Some (length ps)"] Cons.prems by auto
  show ?case using wc ws
    by (intro exI [of _ "wc @ ws"] exI [of _ k']) (simp add: parse_lines_append)
qed simp

lemma parse_good_patch:
  assumes "good_patch p"
  shows "\<exists>ws k'. write_patch p = Inr ws \<and> parse_lines ws (ps, k) = Inr (ps @ [p], k')"
proof -
  let ?p0 = "new_patch\<lparr>patch_src := patch_src p, patch_dst := patch_dst p\<rparr>"
  obtain ws k' where ws: "write_all write_chunk (patch_chunks p) = Inr ws"
    "parse_lines ws (ps @ [?p0\<lparr>patch_chunks := []\<rparr>], k) =
      Inr (ps @ [?p0\<lparr>patch_chunks := [] @ patch_chunks p\<rparr>], k')"
    using parse_good_chunks [of "patch_chunks p" ps "[]" ?p0 k] assms unfolding good_patch_def by blast
  have p: "?p0\<lparr>patch_chunks := [] @ patch_chunks p\<rparr> = p" "?p0\<lparr>patch_chunks := []\<rparr> = ?p0"
    by (simp_all add: new_patch_def)
  have nl: "newline \<notin> set (patch_src p)" "newline \<notin> set (patch_dst p)"
    using assms by (simp_all add: good_patch_def)
  have "match_rest ''--- '' (''+++ '' @ s) = None" for s by (simp add: match_rest_def)
  then have "parse_lines [''--- '' @ patch_src p @ [newline], ''+++ '' @ patch_dst p @ [newline]] (ps, k) =
      Inr (ps @ [?p0], k)"
    using nl match_rest_write [of "patch_src p" "''--- ''"] match_rest_write [of "patch_dst p" "''+++ ''"]
    by (simp add: parse_line_def to_current_patch_def)
  then have "parse_lines ([''--- '' @ patch_src p @ [newline], ''+++ '' @ patch_dst p @ [newline]] @ ws) (ps, k) =
      Inr (ps @ [p], k')"
    using ws(2) unfolding parse_lines_append p by (simp only: rbind_simps)
  then show ?thesis using ws(1) by (simp add: write_patch_def)
qed

lemma parse_good_patches:
  assumes "list_all good_patch qs"
  shows "\<exists>ws k'. write_all write_patch qs = Inr ws \<and> parse_lines ws (ps, k) = Inr (ps @ qs, k')"
  using assms
proof (induction qs arbitrary: ps k)
  case (Cons q qs)
  obtain wq k1 where wq: "write_patch q = Inr wq" "parse_lines wq (ps, k) = Inr (ps @ [q], k1)"
    using parse_good_patch [of q ps k] Cons.prems by auto
  obtain ws k' where ws: "write_all write_patch qs = Inr ws"
    "parse_lines ws (ps @ [q], k1) = Inr ((ps @ [q]) @ qs, k')"
    using Cons.IH [of "ps @ [q]" k1] Cons.prems by auto
  show ?case using wq ws
    by (intro exI [of _ "wq @ ws"] exI [of _ k']) (simp add: parse_lines_append)
qed simp

section \<open>What the white space loop changes\<close>

text \<open>The text a destination line ends with, given the source line it is compared with.\<close>

definition restored :: "string \<Rightarrow> string \<Rightarrow> string" where
  "restored s d = (if match_whitespace s = Some (d, [last s]) then s else d)"

lemma match_whitespace_Some:
  "match_whitespace s = Some (g1, g2) \<longleftrightarrow>
     g1 = butlast s \<and> g2 = [last s] \<and> s \<noteq> [] \<and> (last s = CHR '' '' \<or> last s = CHR 0x09) \<and> newline \<notin> set s"
  by (auto simp: match_whitespace_def)

text \<open>
  The loop on lists of positions: if what it changes are destination lines only, or a line
  compared with itself, then source lines keep their text, and every compared destination
  line is restored.
\<close>

text \<open>One comparison sets the text of the destination line to its restored text.\<close>

lemma restore_one:
  assumes "d < length ls"
  shows "(case match_whitespace (line_text (ls ! s)) of
      Some (g1, g2) \<Rightarrow> (if g1 = line_text (ls ! d) then ls[d := append_to_line g2 (ls ! d)] else ls)
    | None \<Rightarrow> ls) =
    ls[d := (ls ! d)\<lparr>line_text := restored (line_text (ls ! s)) (line_text (ls ! d))\<rparr>]"
proof -
  let ?s = "line_text (ls ! s)" and ?d = "line_text (ls ! d)"
  have same: "ls[d := (ls ! d)\<lparr>line_text := ?d\<rparr>] = ls"
    by (cases "ls ! d") (metis chunk_line.update_convs(2) chunk_line.select_convs(2) list_update_id)
  show ?thesis
  proof (cases "match_whitespace ?s")
    case None
    then show ?thesis using same by (simp add: restored_def)
  next
    case (Some g)
    then have g: "g = (butlast ?s, [last ?s])" "?s \<noteq> []"
      using match_whitespace_Some [of ?s "fst g" "snd g"] by (auto simp: prod_eq_iff)
    show ?thesis
    proof (cases "butlast ?s = ?d")
      case True
      then have "?d @ [last ?s] = ?s" using g(2) by (metis append_butlast_last_id)
      with True Some g show ?thesis by (simp add: restored_def append_to_line_def)
    next
      case False
      then show ?thesis using Some g same by (simp add: restored_def)
    qed
  qed
qed

lemma restored_self [simp]: "restored s s = s"
  by (simp add: restored_def)

lemma whitespace_loop_Cons:
  "d < length ls \<Longrightarrow> whitespace_loop (s # ss) (d # ds) ls = whitespace_loop ss ds
     (ls[d := (ls ! d)\<lparr>line_text := restored (line_text (ls ! s)) (line_text (ls ! d))\<rparr>])"
  by (subst restore_one [symmetric]) (auto split: option.splits)

lemma whitespace_loop_spec:
  assumes "distinct ds" and "set ds \<subseteq> {..<length ls}" and "distinct ss"
    and "\<And>i. i < length ss \<Longrightarrow> i < length ds \<Longrightarrow> ds ! i \<notin> set ss \<or> ds ! i = ss ! i"
  shows "\<exists>ls'. whitespace_loop ss ds ls = (ls', length ss \<le> length ds) \<and> length ls' = length ls \<and>
    (\<forall>j. line_type (ls' ! j) = line_type (ls ! j)) \<and>
    (\<forall>j. j \<in> set ss \<or> j \<notin> set (take (length ss) ds) \<longrightarrow> ls' ! j = ls ! j) \<and>
    (\<forall>i < min (length ss) (length ds).
       line_text (ls' ! (ds ! i)) = restored (line_text (ls ! (ss ! i))) (line_text (ls ! (ds ! i))))"
  using assms
proof (induction ss arbitrary: ds ls)
  case Nil
  then show ?case by simp
next
  case (Cons s ss)
  show ?case
  proof (cases ds)
    case Nil
    then show ?thesis by simp
  next
    case [simp]: (Cons d ds')
    let ?r = "restored (line_text (ls ! s)) (line_text (ls ! d))"
    define ls1 where "ls1 = ls[d := (ls ! d)\<lparr>line_text := ?r\<rparr>]"
    have d: "d < length ls" "d \<notin> set ds'" "s \<notin> set ss" using Cons.prems by auto
    have ds: "d \<notin> set (s # ss) \<or> d = s" using Cons.prems(4) [of 0] by simp
    have keep: "ls1 ! j = ls ! j" if "j \<noteq> d \<or> d = s" for j
      using that d(1) by (cases "ls ! d") (auto simp: ls1_def nth_list_update)
    have types: "line_type (ls1 ! j) = line_type (ls ! j)" for j
      using d(1) by (cases "j = d") (auto simp: ls1_def)
    have pre: "ds' ! i \<notin> set ss \<or> ds' ! i = ss ! i" if "i < length ss" "i < length ds'" for i
      using Cons.prems(4) [of "Suc i"] that by auto
    have "distinct ds'" "set ds' \<subseteq> {..<length ls1}" "distinct ss" using Cons.prems by (auto simp: ls1_def)
    from Cons.IH [OF this pre] obtain ls' where
      ls': "whitespace_loop ss ds' ls1 = (ls', length ss \<le> length ds')" "length ls' = length ls1"
        "\<forall>j. line_type (ls' ! j) = line_type (ls1 ! j)"
        "\<forall>j. j \<in> set ss \<or> j \<notin> set (take (length ss) ds') \<longrightarrow> ls' ! j = ls1 ! j"
        "\<forall>i < min (length ss) (length ds').
           line_text (ls' ! (ds' ! i)) = restored (line_text (ls1 ! (ss ! i))) (line_text (ls1 ! (ds' ! i)))"
      by blast
    have run: "whitespace_loop (s # ss) ds ls = (ls', length (s # ss) \<le> length ds)"
      using ls'(1) whitespace_loop_Cons [OF d(1), of s ss ds'] by (simp add: ls1_def)
    have other: "s \<notin> set (take (length ss) ds')"
    proof
      assume "s \<in> set (take (length ss) ds')"
      then obtain k where k: "k < length ss" "k < length ds'" "ds' ! k = s"
        by (auto simp: in_set_conv_nth)
      then show False using Cons.prems(4) [of "Suc k"] d(3) nth_mem [OF k(1)] by auto
    qed
    have same: "ls' ! j = ls ! j" if "j \<in> set (s # ss) \<or> j \<notin> set (take (length (s # ss)) ds)" for j
    proof -
      have "j \<in> set ss \<or> j \<notin> set (take (length ss) ds')" using that other by auto
      then have "ls' ! j = ls1 ! j" using ls'(4) by blast
      also have "\<dots> = ls ! j" using that ds d by (intro keep) auto
      finally show ?thesis .
    qed
    have texts: "line_text (ls' ! (ds ! i)) = restored (line_text (ls ! ((s # ss) ! i))) (line_text (ls ! (ds ! i)))"
      if i: "i < min (length (s # ss)) (length ds)" for i
    proof (cases i)
      case 0
      have "d \<notin> set (take (length ss) ds')" using d(2) by (meson in_set_takeD)
      then have "ls' ! d = ls1 ! d" using ls'(4) by blast
      then show ?thesis using 0 d(1) by (simp add: ls1_def)
    next
      case (Suc k)
      then have k: "k < min (length ss) (length ds')" using i by simp
      then have ne: "ss ! k \<noteq> d \<or> d = s" "ds' ! k \<noteq> d" using ds d nth_mem [of k ss] nth_mem [of k ds'] by auto
      then have "ls1 ! (ss ! k) = ls ! (ss ! k)" "ls1 ! (ds' ! k) = ls ! (ds' ! k)"
        by (auto intro: keep)
      then show ?thesis using ls'(5) k Suc by simp
    qed
    show ?thesis using run ls'(2,3) types same texts by (intro exI [of _ ls']) (simp add: ls1_def)
  qed
qed

lemma filter_positions: "filter P ls = map ((!) ls) (positions P ls)"
proof -
  have "filter P (map ((!) ls) [0..<length ls]) = map ((!) ls) (filter (P \<circ> (!) ls) [0..<length ls])"
    by (rule filter_map)
  then show ?thesis by (simp add: map_nth positions_def comp_def)
qed

lemma positions_distinct [simp]: "distinct (positions P ls)"
  by (simp add: positions_def)

lemma positions_set: "set (positions P ls) = {i. i < length ls \<and> P (ls ! i)}"
  by (auto simp: positions_def)

text \<open>Compared lines are the same context line, or the destination line is not a source line.\<close>

definition aligned :: "chunk \<Rightarrow> bool" where
  "aligned c \<longleftrightarrow>
     (let ls = chunk_lines c; S = positions is_src ls; D = positions is_dst ls
      in list_all (\<lambda>i. is_src (ls ! (D ! i)) \<longrightarrow> D ! i = S ! i) [0..<min (length S) (length D)])"

lemma restore_chunk_aligned:
  assumes "aligned c" and "restore_chunk c = (c', ok)"
  shows "ok = (length (chunk_src c) \<le> length (chunk_dst c)) \<and>
    map line_text (chunk_src c') = map line_text (chunk_src c) \<and>
    (\<forall>i < min (length (chunk_src c)) (length (chunk_dst c)).
       line_text (chunk_dst c' ! i) =
         restored (line_text (chunk_src c ! i)) (line_text (chunk_dst c ! i)))"
proof -
  define ls where "ls = chunk_lines c"
  let ?S = "positions is_src ls" and ?D = "positions is_dst ls"
  have "?D ! i \<notin> set ?S \<or> ?D ! i = ?S ! i" if "i < length ?S" "i < length ?D" for i
    using assms(1) that by (auto simp: aligned_def Let_def ls_def list_all_iff positions_set)
  moreover have "set ?D \<subseteq> {..<length ls}" by (auto simp: positions_set)
  ultimately obtain ls' where ls': "whitespace_loop ?S ?D ls = (ls', length ?S \<le> length ?D)"
    "length ls' = length ls" "\<forall>j. line_type (ls' ! j) = line_type (ls ! j)"
    "\<forall>j. j \<in> set ?S \<or> j \<notin> set (take (length ?S) ?D) \<longrightarrow> ls' ! j = ls ! j"
    "\<forall>i < min (length ?S) (length ?D).
       line_text (ls' ! (?D ! i)) = restored (line_text (ls ! (?S ! i))) (line_text (ls ! (?D ! i)))"
    using whitespace_loop_spec [of ?D ls ?S] by auto
  have pos: "positions is_src ls' = ?S" "positions is_dst ls' = ?D"
    using ls'(2,3) by (simp_all add: positions_def is_src_def is_dst_def)
  have c': "chunk_lines c' = ls'" "ok = (length ?S \<le> length ?D)"
    using assms(2) ls'(1) by (auto simp: restore_chunk_def ls_def Let_def)
  have lists: "chunk_src c' = map ((!) ls') ?S" "chunk_dst c' = map ((!) ls') ?D"
    "chunk_src c = map ((!) ls) ?S" "chunk_dst c = map ((!) ls) ?D"
    by (simp_all add: chunk_src_def chunk_dst_def c' filter_positions pos ls_def [symmetric])
  have "map ((!) ls') ?S = map ((!) ls) ?S" using ls'(4) by (intro map_cong) auto
  then show ?thesis using ls'(5) c'(2) unfolding lists by simp
qed

section \<open>Known defects\<close>

text \<open>
  Two trailing blanks are not recognised; without alignment a context line of the patch is
  changed, which then no longer fits the file; a removed line with two dashes is taken for a
  file header; a chunk of one line has a header the pattern does not match.
\<close>

lemma two_blanks_not_restored: "restored ''a  '' ''a'' = ''a''"
  by (simp add: restored_def match_whitespace_def)

definition misaligned_chunk :: chunk where
  "misaligned_chunk =
     \<lparr>chunk_lines = [line_set_src ''a '' new_line, line_set_both ''a'' new_line],
      src_pos = 1, dst_pos = 1\<rparr>"

lemma misaligned_changes_source:
  "map line_text (chunk_src misaligned_chunk) = [''a '', ''a'']"
  "map line_text (chunk_src (fst (restore_chunk misaligned_chunk))) = [''a '', ''a '']"
  by code_simp+

lemma dashes_are_a_header:
  "write_line (line_set_src ''-- x'' new_line) = Inr (''--- x'' @ [newline])"
  "parse_patchset [''--- x'' @ [newline]] = Inr [new_patch\<lparr>patch_src := ''x''\<rparr>]"
  by code_simp+

lemma short_header_rejected:
  "parse_patchset [''--- f'' @ [newline], ''+++ g'' @ [newline], ''@@ -1 +1 @@'' @ [newline]] =
     Inl (OtherException '''')"
  by code_simp

text \<open>In debug mode the diff is used up before it is filtered: nothing is indented.\<close>

lemma debug_indents_nothing:
  assumes "uncrustify t (uncrustify_config_file level) source = Some formatted"
  shows "indent t source True level = Inr (apply_patch t [] source)"
  using assms by (simp add: indent_def remove_trailing_whitespace_changes_def parse_patchset_def)

section \<open>Checking and indenting files\<close>

lemma indent_all_Inr:
  "indent_all t fs files debug level = Inr out \<longleftrightarrow>
     list_all2 (\<lambda>f (g, dst). g = f \<and> (\<exists>ls. fs f = Some ls \<and> indent t ls debug level = Inr dst)) files out"
proof (induction files arbitrary: out)
  case (Cons f files)
  show ?case
    by (cases out) (auto simp: rbind_Inr_iff read_lines_def Cons.IH split: option.splits)
qed auto

text \<open>What \<open>indent\<close> makes of a file of the store.\<close>

definition indented :: "tools \<Rightarrow> file_store \<Rightarrow> bool \<Rightarrow> int \<Rightarrow> string \<Rightarrow> string list option" where
  "indented t fs debug level f =
     (case fs f of None \<Rightarrow> None
      | Some ls \<Rightarrow> (case indent t ls debug level of Inl e \<Rightarrow> None | Inr dst \<Rightarrow> Some dst))"

lemma indent_all_map:
  "indent_all t fs files debug level = Inr out \<Longrightarrow>
   out = map (\<lambda>f. (f, the (indented t fs debug level f))) files \<and>
   list_all (\<lambda>f. indented t fs debug level f \<noteq> None) files"
  unfolding indent_all_Inr
proof (induction files out rule: list_all2_induct)
  case (Cons f files x out)
  then show ?case by (cases x) (auto simp: indented_def)
qed simp

lemma fold_upd:
  "fold (\<lambda>(src, dst) fs. fs(src \<mapsto> dst)) (map (\<lambda>f. (f, g f)) files) fs =
     (\<lambda>f. if f \<in> set files then Some (g f) else fs f)"
  by (induction files arbitrary: fs) auto

section \<open>Properties\<close>

text \<open>C16: a patch set that is written and read again is the same patch set, if no text holds a
  newline, no removed line starts with two dashes and a space and no added line with two
  plus signs and a space.\<close>

theorem patch_roundtrip:
  assumes "list_all good_patch ps"
  shows "\<exists>ws. write_all write_patch ps = Inr ws \<and> parse_patchset ws = Inr ps"
  using parse_good_patches [OF assms, of "[]" None] by (auto simp: parse_patchset_def)

definition demo_chunk :: chunk where
  "demo_chunk =
     \<lparr>chunk_lines = [line_set_both ''int x;'' new_line, line_set_src ''y(); '' new_line,
        line_set_src ''z () ;'' new_line, line_set_dst ''y();'' new_line, line_set_dst ''z ();'' new_line],
      src_pos = 12, dst_pos = 12\<rparr>"

theorem patch_roundtrip_witness:
  "\<exists>ws. write_all write_patch [\<lparr>patch_src = ''a.cc'', patch_dst = ''/tmp/b'', patch_chunks = [demo_chunk]\<rparr>] = Inr ws \<and>
    parse_patchset ws = Inr [\<lparr>patch_src = ''a.cc'', patch_dst = ''/tmp/b'', patch_chunks = [demo_chunk]\<rparr>]"
  by (rule patch_roundtrip)
    (simp add: good_patch_def good_chunk_def good_line_def demo_chunk_def newline_def new_line_def
      line_set_src_def line_set_dst_def line_set_both_def)

text \<open>C10: in a chunk whose compared lines are aligned, removing trailing white space changes
  leaves the source side as it is, so that the patch still fits the file, and gives every
  compared destination line the text of its source line if the two differ in one trailing
  blank or tab; the chunk is completed if its source side is not the longer one.\<close>

theorem restore_chunk_correct:
  assumes "aligned c" and "restore_chunk c = (c', ok)"
  shows "ok = (length (chunk_src c) \<le> length (chunk_dst c)) \<and>
    map line_text (chunk_src c') = map line_text (chunk_src c) \<and>
    (\<forall>i < min (length (chunk_src c)) (length (chunk_dst c)).
       line_text (chunk_dst c' ! i) =
         restored (line_text (chunk_src c ! i)) (line_text (chunk_dst c ! i)))"
  by (rule restore_chunk_aligned [OF assms])

theorem restore_chunk_correct_witness:
  "snd (restore_chunk demo_chunk) \<and>
   map line_text (chunk_src (fst (restore_chunk demo_chunk))) = [''int x;'', ''y(); '', ''z () ;''] \<and>
   line_text (chunk_dst (fst (restore_chunk demo_chunk)) ! 1) = ''y(); ''"
proof -
  have al: "aligned demo_chunk" by code_simp
  have texts: "map line_text (chunk_src demo_chunk) = [''int x;'', ''y(); '', ''z () ;'']"
    "length (chunk_src demo_chunk) = 3" "length (chunk_dst demo_chunk) = 3"
    "line_text (chunk_src demo_chunk ! 1) = ''y(); ''" "line_text (chunk_dst demo_chunk ! 1) = ''y();''"
    by code_simp+
  have r: "restored ''y(); '' ''y();'' = ''y(); ''" by code_simp
  show ?thesis
    using restore_chunk_correct [OF al, of "fst (restore_chunk demo_chunk)" "snd (restore_chunk demo_chunk)"]
      texts r by simp
qed

text \<open>C15: \<open>indent_files\<close>: without \<open>inplace\<close> no file is changed, and the answer is whether every
  file is its own indentation; with \<open>inplace\<close> exactly the files of the list are replaced, each
  by its indentation, and the answer is true.\<close>

theorem indent_files_correct:
  assumes "indent_files t files diff debug level inplace fs = Inr (ok, fs', out)"
  shows "if inplace
    then ok \<and> fs' = (\<lambda>f. if f \<in> set files then indented t fs debug level f else fs f)
    else fs' = fs \<and> ok = list_all (\<lambda>f. indented t fs debug level f = fs f) files"
proof -
  obtain pairs where p: "indent_all t fs files debug level = Inr pairs"
    using assms by (auto simp: indent_files_def rbind_Inr_iff)
  note m = indent_all_map [OF p]
  let ?pair = "\<lambda>f. (f, the (indented t fs debug level f))"
  have some: "Some (the (indented t fs debug level f)) = indented t fs debug level f"
    if "f \<in> set files" for f using m that by (auto simp: list_all_iff)
  have "filter (\<lambda>(src, dst). fs src \<noteq> Some dst) (map ?pair files) = [] \<longleftrightarrow>
      list_all (\<lambda>f. indented t fs debug level f = fs f) files"
    using some by (auto simp: filter_empty_conv list_all_iff)
  moreover have "(\<lambda>f. if f \<in> set files then Some (the (indented t fs debug level f)) else fs f) =
      (\<lambda>f. if f \<in> set files then indented t fs debug level f else fs f)"
    using some by auto
  ultimately show ?thesis
    using assms p m by (auto simp: indent_files_def fold_upd Let_def split: if_splits)
qed

text \<open>Tools that turn every file into one indented line.\<close>

definition demo_tools :: tools where
  "demo_tools =
     \<lparr>uncrustify = (\<lambda>cfg ls. Some [''  x'' @ [newline]]),
      unified_diff = (\<lambda>a b. if a = b then [] else
        [''--- a'' @ [newline], ''+++ b'' @ [newline], ''@@ -1,1 +1,1 @@'' @ [newline],
         ''-'' @ hd a, ''+'' @ hd b]),
      apply_patch = (\<lambda>d ls. if d = [] then ls else [drop 1 (last d)])\<rparr>"

theorem indent_files_correct_witness:
  "\<exists>ok fs' out. indent_files demo_tools [''f''] False False 0 False
      (\<lambda>f. if f = ''f'' then Some [''x'' @ [newline]] else None) = Inr (ok, fs', out) \<and>
    fs' ''f'' = Some [''x'' @ [newline]] \<and> \<not> ok"
proof -
  let ?fs = "(\<lambda>f. if f = ''f'' then Some [''x'' @ [newline]] else None)"
  have ind: "indent demo_tools [''x'' @ [newline]] False 0 = Inr [''  x'' @ [newline]]" by code_simp
  then have "indented demo_tools ?fs False 0 ''f'' = Some [''  x'' @ [newline]]"
    by (simp add: indented_def)
  moreover have "\<exists>r. indent_files demo_tools [''f''] False False 0 False ?fs = Inr r"
    using ind by (simp add: indent_files_def read_lines_def Let_def) (rule exI [of _ False], simp)
  then obtain ok fs' out where r: "indent_files demo_tools [''f''] False False 0 False ?fs = Inr (ok, fs', out)"
    by (metis prod_cases3)
  ultimately show ?thesis using indent_files_correct [OF r] by auto
qed

end
