(* ===== verification/ShellCmd.thy ===== *)
theory ShellCmd
  imports PyPath
begin

text \<open>
  The small shell of \<open>src/waf-tools/shellcmd.py\<close>: the class \<open>Pipeline\<close> with \<open>parse\<close>, a state
  machine over the tokens of a command line, \<open>get_abbreviated_command\<close> and \<open>run\<close>, which starts
  the commands, connects pipes and redirections, and stops at a short circuit. A string is cut
  into tokens by \<open>shlex\<close> before; the model starts with the tokens. The exit code of a started
  program is given by an argument and may depend on everything that was started before.
\<close>

section \<open>Nodes\<close>

text \<open>A redirection: the constants \<open>Command.PIPE\<close> and \<open>Command.STDOUT\<close>, or a file name.\<close>

datatype redirect = PIPE | STDOUT | Filename string

record command =
  cmd_name :: string
  cmd_argv :: "string list"
  cmd_stdin :: "string option"
  cmd_stdout :: "redirect option"
  cmd_stderr :: "redirect option"
  cmd_env :: "(string, string) pydict"

definition new_command :: "string \<Rightarrow> command" where
  "new_command name =
     \<lparr>cmd_name = name, cmd_argv = [name], cmd_stdin = None, cmd_stdout = None, cmd_stderr = None,
      cmd_env = []\<rparr>"

datatype node = Command command | Chdir "string option" | Pipe | And | Or

definition abbreviation_of :: "node \<Rightarrow> string list" where
  "abbreviation_of n =
     (case n of Command c \<Rightarrow> [cmd_name c]
      | Chdir d \<Rightarrow> [''cd '' @ (case d of None \<Rightarrow> ''None'' | Some s \<Rightarrow> s)]
      | Pipe \<Rightarrow> [''|''] | And \<Rightarrow> [''&&''] | Or \<Rightarrow> [])"

definition get_abbreviated_command :: "node list \<Rightarrow> string" where
  "get_abbreviated_command pipeline = join '' '' (concat (map abbreviation_of pipeline))"

section \<open>Parsing\<close>

datatype pipeline_state = BEGIN | COMMAND | CHDIR | IN_STDERR | IN_STDOUT | IN_STDIN

record parser =
  pstate :: pipeline_state
  current_command :: "node option"
  penv :: "(string, string) pydict"
  ppipeline :: "node list"

definition start_parser :: parser where
  "start_parser = \<lparr>pstate = BEGIN, current_command = None, penv = [], ppipeline = []\<rparr>"

definition name_char :: "char \<Rightarrow> bool" where
  "name_char c \<longleftrightarrow> (let n = of_char c :: nat in
     (97 \<le> n \<and> n \<le> 122) \<or> (65 \<le> n \<and> n \<le> 90) \<or> (48 \<le> n \<and> n \<le> 57) \<or> n = 95)"

text \<open>\<open>^([a-zA-Z0-9_]+)=(\S+)$\<close>; the dollar sign also matches before a final newline.\<close>

definition env_var_match :: "string \<Rightarrow> (string \<times> string) option" where
  "env_var_match token =
     (case dropWhile name_char token of
        [] \<Rightarrow> None
      | e # rest \<Rightarrow>
          (let name = takeWhile name_char token;
               val = (if rest \<noteq> [] \<and> last rest = CHR 0x0A then butlast rest else rest)
           in if e = CHR ''='' \<and> name \<noteq> [] \<and> val \<noteq> [] \<and> list_all (\<lambda>c. \<not> is_ws c) val
              then Some (name, val) else None))"

definition assert_that :: "bool \<Rightarrow> 'a result \<Rightarrow> 'a result" where
  "assert_that b r = (if b then r else Inl AssertionError)"

definition commit_command :: "parser \<Rightarrow> parser result" where
  "commit_command p =
     (case current_command p of
        None \<Rightarrow> Inl AssertionError
      | Some c \<Rightarrow> Inr (p\<lparr>ppipeline := ppipeline p @ [c], current_command := None\<rparr>))"

text \<open>Access to the attributes of the current command: only a \<open>Command\<close> has them.\<close>

definition with_command :: "parser \<Rightarrow> (command \<Rightarrow> parser result) \<Rightarrow> parser result" where
  "with_command p f =
     (case current_command p of Some (Command c) \<Rightarrow> f c | _ \<Rightarrow> Inl AttributeError)"

definition end_node :: "node \<Rightarrow> parser \<Rightarrow> parser result" where
  "end_node operator p =
     rbind (commit_command p) (\<lambda>p. Inr (p\<lparr>ppipeline := ppipeline p @ [operator], pstate := BEGIN\<rparr>))"

definition parse_begin :: "string \<Rightarrow> parser \<Rightarrow> parser result" where
  "parse_begin token p =
     (case env_var_match token of
        Some (key, val) \<Rightarrow> Inr (p\<lparr>penv := dict_put key val (penv p)\<rparr>)
      | None \<Rightarrow>
          assert_that (current_command p = None)
            (if token = ''cd'' then
               assert_that (penv p = []) (Inr (p\<lparr>current_command := Some (Chdir None), pstate := CHDIR\<rparr>))
             else if penv p \<noteq> [] then
               Inr (p\<lparr>current_command := Some (Command ((new_command token)\<lparr>cmd_env := penv p\<rparr>)),
                      penv := [], pstate := COMMAND\<rparr>)
             else Inr (p\<lparr>current_command := Some (Command (new_command token)), pstate := COMMAND\<rparr>)))"

definition parse_command :: "string \<Rightarrow> parser \<Rightarrow> parser result" where
  "parse_command token p =
     (if token = ''>'' then Inr (p\<lparr>pstate := IN_STDOUT\<rparr>)
      else if token = ''2>'' then Inr (p\<lparr>pstate := IN_STDERR\<rparr>)
      else if token = ''2>&1'' then
        with_command p (\<lambda>c. assert_that (cmd_stderr c = None)
          (Inr (p\<lparr>current_command := Some (Command (c\<lparr>cmd_stderr := Some STDOUT\<rparr>))\<rparr>)))
      else if token = ''<'' then Inr (p\<lparr>pstate := IN_STDIN\<rparr>)
      else if token = ''|'' then
        with_command p (\<lambda>c. assert_that (cmd_stdout c = None)
          (end_node Pipe (p\<lparr>current_command := Some (Command (c\<lparr>cmd_stdout := Some PIPE\<rparr>))\<rparr>)))
      else if token = ''&&'' then end_node And p
      else if token = ''||'' then end_node Or p
      else with_command p (\<lambda>c.
        Inr (p\<lparr>current_command := Some (Command (c\<lparr>cmd_argv := cmd_argv c @ [token]\<rparr>))\<rparr>)))"

definition parse_chdir :: "string \<Rightarrow> parser \<Rightarrow> parser result" where
  "parse_chdir token p =
     (if token = ''&&'' then end_node And p
      else (case current_command p of
              Some (Chdir d) \<Rightarrow>
                assert_that (d = None) (Inr (p\<lparr>current_command := Some (Chdir (Some token))\<rparr>))
            | _ \<Rightarrow> Inl AttributeError))"

definition parse_token :: "string \<Rightarrow> parser \<Rightarrow> parser result" where
  "parse_token token p =
     (case pstate p of
        BEGIN \<Rightarrow> parse_begin token p
      | COMMAND \<Rightarrow> parse_command token p
      | CHDIR \<Rightarrow> parse_chdir token p
      | IN_STDOUT \<Rightarrow> with_command p (\<lambda>c. assert_that (cmd_stdout c = None)
          (Inr (p\<lparr>current_command := Some (Command (c\<lparr>cmd_stdout := Some (Filename token)\<rparr>)),
                  pstate := COMMAND\<rparr>)))
      | IN_STDERR \<Rightarrow> with_command p (\<lambda>c. assert_that (cmd_stderr c = None)
          (Inr (p\<lparr>current_command := Some (Command (c\<lparr>cmd_stderr := Some (Filename token)\<rparr>)),
                  pstate := COMMAND\<rparr>)))
      | IN_STDIN \<Rightarrow> with_command p (\<lambda>c. assert_that (cmd_stdin c = None)
          (Inr (p\<lparr>current_command := Some (Command (c\<lparr>cmd_stdin := Some token\<rparr>)),
                  pstate := COMMAND\<rparr>))))"

fun parse_tokens :: "string list \<Rightarrow> parser \<Rightarrow> parser result" where
  "parse_tokens [] p = Inr p"
| "parse_tokens (token # tokens) p = rbind (parse_token token p) (parse_tokens tokens)"

definition parse :: "string list \<Rightarrow> node list result" where
  "parse tokens =
     rbind (rbind (parse_tokens tokens start_parser) commit_command) (\<lambda>p. Inr (ppipeline p))"

section \<open>Running\<close>

datatype stream = Inherit | PipeEnd | File string | DevNull | SameAsStdout

record popen_call =
  call_argv :: "string list"
  call_stdin :: stream
  call_stdout :: stream
  call_stderr :: stream
  call_env :: "(string, string) pydict option"
  call_cwd :: "string option"

text \<open>What a run does to the outside, in order.\<close>

datatype event = Opened string | Started popen_call | Waited | Closed string

record runner =
  pipe_state :: bool
  run_cwd :: string
  piped :: "popen_call list"
  open_files :: "string list"
  started :: "popen_call list"
  events :: "event list"

definition start_runner :: runner where
  "start_runner = \<lparr>pipe_state = False, run_cwd = ''.'', piped = [], open_files = [], started = [], events = []\<rparr>"

text \<open>
  The outside of a run: the files that can be opened, the environment, the programs that can
  be started, and the exit code of the program started last, which may depend on everything
  started before it.
\<close>

record shell_os =
  readable :: "string \<Rightarrow> bool"
  writable :: "string \<Rightarrow> bool"
  environ :: "(string, string) pydict"
  startable :: "popen_call list \<Rightarrow> popen_call \<Rightarrow> bool"
  exit_code :: "popen_call list \<Rightarrow> int"

text \<open>\<open>_open_out_file\<close>: the shared null device is not closed.\<close>

definition open_out_file :: "shell_os \<Rightarrow> string \<Rightarrow> stream result" where
  "open_out_file os filename =
     (if filename = ''NUL:'' \<or> filename = ''/dev/null'' then Inr DevNull
      else if writable os filename then Inr (File filename)
      else Inl (OtherException ''OSError''))"

definition opened_by :: "stream \<Rightarrow> string list" where
  "opened_by s = (case s of File f \<Rightarrow> [f] | _ \<Rightarrow> [])"

definition stdin_of :: "shell_os \<Rightarrow> runner \<Rightarrow> command \<Rightarrow> stream result" where
  "stdin_of os r c =
     (if pipe_state r then Inr PipeEnd
      else (case cmd_stdin c of
              None \<Rightarrow> Inr Inherit
            | Some f \<Rightarrow> if readable os f then Inr (File f) else Inl (OtherException ''OSError'')))"

definition out_stream :: "shell_os \<Rightarrow> redirect option \<Rightarrow> stream result" where
  "out_stream os redir =
     (case redir of
        None \<Rightarrow> Inr Inherit
      | Some PIPE \<Rightarrow> Inr PipeEnd
      | Some STDOUT \<Rightarrow> Inr SameAsStdout
      | Some (Filename f) \<Rightarrow> open_out_file os f)"

definition child_env :: "shell_os \<Rightarrow> command \<Rightarrow> (string, string) pydict option" where
  "child_env os c =
     (if cmd_env c \<noteq> [] then Some (fold (\<lambda>(k, v). dict_put k v) (cmd_env c) (environ os)) else None)"

text \<open>One \<open>subprocess.Popen\<close>, with the files opened for it.\<close>

definition start_command :: "shell_os \<Rightarrow> runner \<Rightarrow> command \<Rightarrow> runner result" where
  "start_command os r c =
     rbind (stdin_of os r c) (\<lambda>stdin.
     rbind (out_stream os (cmd_stdout c)) (\<lambda>stdout.
     rbind (out_stream os (cmd_stderr c)) (\<lambda>stderr.
     let files = opened_by stdin @ opened_by stdout @ opened_by stderr;
         call = \<lparr>call_argv = cmd_argv c, call_stdin = stdin, call_stdout = stdout,
                 call_stderr = stderr, call_env = child_env os c,
                 call_cwd = (if run_cwd r = ''.'' then None else Some (run_cwd r))\<rparr>
     in if startable os (started r) call
        then Inr (r\<lparr>piped := piped r @ [call], started := started r @ [call],
                    open_files := open_files r @ files,
                    events := events r @ map Opened files @ [Started call]\<rparr>)
        else Inl (OtherException ''OSError''))))"

definition exec_piped_commands :: "int list \<Rightarrow> int" where
  "exec_piped_commands retvals = (if list_ex (\<lambda>r. r \<noteq> 0) retvals then last retvals else 0)"

text \<open>Waiting for the commands of a pipe, and the \<open>finally\<close> clause that closes the files.\<close>

definition wait_piped :: "shell_os \<Rightarrow> runner \<Rightarrow> int \<times> runner" where
  "wait_piped os r =
     (let first = length (started r) - length (piped r);
          retvals = map (\<lambda>i. exit_code os (take (Suc i) (started r))) [first..<length (started r)]
      in (exec_piped_commands retvals,
          r\<lparr>events := events r @ [Waited] @ map Closed (open_files r), open_files := []\<rparr>))"

text \<open>
  The loop of \<open>run\<close>. In verbose mode the messages about \<open>||\<close> and \<open>&&\<close> read \<open>retval\<close>, which is
  not assigned there. \<open>None\<close> is the result when the loop ends without a \<open>return\<close>.
\<close>

fun run_loop :: "shell_os \<Rightarrow> bool \<Rightarrow> node list \<Rightarrow> runner \<Rightarrow> (int option \<times> runner) result" where
  "run_loop os verbose [] r = Inr (None, r)"
| "run_loop os verbose [Chdir d] r = Inl IndexError"
| "run_loop os verbose (Chdir d # next_op # rest) r =
     assert_that (next_op = And)
       (case d of
          None \<Rightarrow> Inl TypeError
        | Some dir \<Rightarrow> run_loop os verbose rest (r\<lparr>run_cwd := path_join (run_cwd r) dir\<rparr>))"
| "run_loop os verbose [Command c] r =
     rbind (start_command os r c) (\<lambda>r. case wait_piped os r of (retval, r) \<Rightarrow> Inr (Some retval, r))"
| "run_loop os verbose (Command c # next_node # rest) r =
     rbind (start_command os r c) (\<lambda>r.
       case next_node of
         Pipe \<Rightarrow> run_loop os verbose rest (r\<lparr>pipe_state := True\<rparr>)
       | Or \<Rightarrow>
           (case wait_piped os r of (retval, r) \<Rightarrow>
              if verbose then Inl UnboundLocalError
              else if retval = 0 then Inr (Some retval, r)
              else run_loop os verbose rest (r\<lparr>pipe_state := False, piped := []\<rparr>))
       | And \<Rightarrow>
           (case wait_piped os r of (retval, r) \<Rightarrow>
              if verbose then Inl UnboundLocalError
              else if retval \<noteq> 0 then Inr (Some retval, r)
              else run_loop os verbose rest (r\<lparr>pipe_state := False, piped := []\<rparr>))
       | _ \<Rightarrow> run_loop os verbose rest r)"
| "run_loop os verbose (operator # rest) r = Inl AssertionError"

definition run :: "shell_os \<Rightarrow> bool \<Rightarrow> node list \<Rightarrow> (int option \<times> runner) result" where
  "run os verbose pipeline = run_loop os verbose pipeline start_runner"

section \<open>What the parser accepts\<close>

text \<open>
  A line is a list of commands with an operator between any two; a command feeds a pipe exactly
  if the pipe operator follows it, and a \<open>cd\<close> is followed by \<open>&&\<close> or stands at the end.
\<close>

fun linked :: "node \<Rightarrow> node \<Rightarrow> bool" where
  "linked (Command c) operator \<longleftrightarrow>
     operator \<in> {Pipe, And, Or} \<and> (operator = Pipe \<longleftrightarrow> cmd_stdout c = Some PIPE)"
| "linked (Chdir d) operator \<longleftrightarrow> operator = And"
| "linked _ _ \<longleftrightarrow> False"

fun closing :: "node \<Rightarrow> bool" where
  "closing (Command c) \<longleftrightarrow> cmd_stdout c \<noteq> Some PIPE"
| "closing (Chdir d) \<longleftrightarrow> True"
| "closing _ \<longleftrightarrow> False"

fun line_ok :: "node list \<Rightarrow> bool" where
  "line_ok [] \<longleftrightarrow> False"
| "line_ok [x] \<longleftrightarrow> closing x"
| "line_ok (x # operator # rest) \<longleftrightarrow> linked x operator \<and> line_ok rest"

fun open_line :: "node list \<Rightarrow> bool" where
  "open_line [] \<longleftrightarrow> True"
| "open_line [x] \<longleftrightarrow> False"
| "open_line (x # operator # rest) \<longleftrightarrow> linked x operator \<and> open_line rest"

fun_cases line_ok_elim: "line_ok (x # operator # rest)"

lemma open_line_snoc: "open_line pre \<Longrightarrow> linked x operator \<Longrightarrow> open_line (pre @ [x, operator])"
  by (induction pre rule: open_line.induct) auto

lemma line_ok_snoc: "open_line pre \<Longrightarrow> line_ok (pre @ [x]) \<longleftrightarrow> closing x"
  by (induction pre rule: open_line.induct) auto

text \<open>The invariant of the parser: the state tells what the current command is.\<close>

fun current_ok :: "pipeline_state \<Rightarrow> node option \<Rightarrow> bool" where
  "current_ok BEGIN cur \<longleftrightarrow> cur = None"
| "current_ok CHDIR cur \<longleftrightarrow> (\<exists>d. cur = Some (Chdir d))"
| "current_ok _ cur \<longleftrightarrow>
     (\<exists>c. cur = Some (Command c) \<and> cmd_stdout c \<noteq> Some PIPE \<and> cmd_argv c \<noteq> [])"

definition parser_ok :: "parser \<Rightarrow> bool" where
  "parser_ok p \<longleftrightarrow> current_ok (pstate p) (current_command p) \<and> open_line (ppipeline p)"

lemmas parse_step_defs =
  parse_token_def parse_begin_def parse_command_def parse_chdir_def with_command_def
  assert_that_def end_node_def commit_command_def new_command_def

lemma parser_ok_end_node:
  assumes "open_line (ppipeline p)" and "current_command p = Some c" and "linked c operator"
  shows "\<exists>q. end_node operator p = Inr q \<and> parser_ok q"
  using assms by (auto simp: end_node_def commit_command_def parser_ok_def open_line_snoc)

lemma parse_token_ok:
  assumes "parser_ok p"
  shows "case parse_token token p of Inl e \<Rightarrow> e = AssertionError | Inr q \<Rightarrow> parser_ok q"
proof (cases "pstate p")
  case COMMAND
  then obtain c where c: "current_command p = Some (Command c)" "cmd_stdout c \<noteq> Some PIPE"
    "cmd_argv c \<noteq> []" and open_l: "open_line (ppipeline p)"
    using assms by (auto simp: parser_ok_def)
  show ?thesis
    using c open_l COMMAND
    by (auto simp: parse_step_defs parser_ok_def intro!: open_line_snoc)
qed (use assms in \<open>auto simp: parse_step_defs parser_ok_def intro!: open_line_snoc
       split: option.splits\<close>)

lemma parse_tokens_ok:
  "parser_ok p \<Longrightarrow> case parse_tokens tokens p of Inl e \<Rightarrow> e = AssertionError | Inr q \<Rightarrow> parser_ok q"
proof (induction tokens arbitrary: p)
  case (Cons token tokens)
  then show ?case
    using parse_token_ok [OF Cons.prems, of token] by (cases "parse_token token p") auto
qed simp

lemma parser_ok_start: "parser_ok start_parser"
  by (simp add: parser_ok_def start_parser_def)

lemma parser_ok_commit:
  assumes "parser_ok p"
  shows "case commit_command p of Inl e \<Rightarrow> e = AssertionError | Inr q \<Rightarrow> line_ok (ppipeline q)"
  using assms
  by (cases "pstate p") (auto simp: parser_ok_def commit_command_def line_ok_snoc)

lemma parse_result: "case parse tokens of Inl e \<Rightarrow> e = AssertionError | Inr nodes \<Rightarrow> line_ok nodes"
proof (cases "parse_tokens tokens start_parser")
  case (Inl e)
  then show ?thesis
    using parse_tokens_ok [OF parser_ok_start, of tokens] by (simp add: parse_def)
next
  case (Inr p)
  then have "parser_ok p"
    using parse_tokens_ok [OF parser_ok_start, of tokens] by simp
  from parser_ok_commit [OF this] show ?thesis
    using Inr by (cases "commit_command p") (auto simp: parse_def)
qed

lemma parse_line_ok: "parse tokens = Inr nodes \<Longrightarrow> line_ok nodes"
  using parse_result [of tokens] by simp

text \<open>Parsing never fails with anything but an \<open>AssertionError\<close>, and what it accepts is a line in
  which commands and operators alternate, every \<open>cd\<close> is followed by \<open>&&\<close> or ends the line, and
  a command writes into a pipe exactly if \<open>|\<close> follows it.
\<close>
theorem parse_accepts_lines:
  "case parse tokens of Inl e \<Rightarrow> e = AssertionError | Inr nodes \<Rightarrow> line_ok nodes"
  by (rule parse_result)

section \<open>Printing and parsing again\<close>

definition env_token :: "string \<times> string \<Rightarrow> string" where
  "env_token kv = fst kv @ ''='' @ snd kv"

definition redirect_tokens :: "command \<Rightarrow> string list" where
  "redirect_tokens c =
     (case cmd_stdin c of None \<Rightarrow> [] | Some f \<Rightarrow> [''<'', f]) @
     (case cmd_stdout c of Some (Filename f) \<Rightarrow> [''>'', f] | _ \<Rightarrow> []) @
     (case cmd_stderr c of Some STDOUT \<Rightarrow> [''2>&1''] | Some (Filename f) \<Rightarrow> [''2>'', f] | _ \<Rightarrow> [])"

fun unparse_node :: "node \<Rightarrow> string list" where
  "unparse_node (Command c) = map env_token (cmd_env c) @ cmd_argv c @ redirect_tokens c"
| "unparse_node (Chdir d) = ''cd'' # (case d of None \<Rightarrow> [] | Some s \<Rightarrow> [s])"
| "unparse_node Pipe = [''|'']"
| "unparse_node And = [''&&'']"
| "unparse_node Or = [''||'']"

definition unparse :: "node list \<Rightarrow> string list" where
  "unparse nodes = concat (map unparse_node nodes)"

definition special_tokens :: "string list" where
  "special_tokens = [''>'', ''2>'', ''2>&1'', ''<'', ''|'', ''&&'', ''||'']"

definition env_pair_ok :: "string \<times> string \<Rightarrow> bool" where
  "env_pair_ok kv \<longleftrightarrow> fst kv \<noteq> [] \<and> list_all name_char (fst kv) \<and>
     snd kv \<noteq> [] \<and> list_all (\<lambda>c. \<not> is_ws c) (snd kv)"

definition env_ok :: "(string, string) pydict \<Rightarrow> bool" where
  "env_ok env \<longleftrightarrow> distinct (map fst env) \<and> list_all env_pair_ok env"

definition command_ok :: "command \<Rightarrow> bool" where
  "command_ok c \<longleftrightarrow>
     env_ok (cmd_env c) \<and> cmd_argv c \<noteq> [] \<and> hd (cmd_argv c) = cmd_name c \<and>
     cmd_name c \<noteq> ''cd'' \<and> env_var_match (cmd_name c) = None \<and>
     list_all (\<lambda>t. t \<notin> set special_tokens) (tl (cmd_argv c)) \<and>
     cmd_stdout c \<noteq> Some STDOUT \<and> cmd_stderr c \<noteq> Some PIPE"

fun printable :: "node \<Rightarrow> bool" where
  "printable (Command c) \<longleftrightarrow> command_ok c"
| "printable (Chdir d) \<longleftrightarrow> d \<noteq> Some ''&&''"
| "printable _ \<longleftrightarrow> True"

lemma not_name_char_eq: "\<not> name_char (CHR ''='')"
  by (simp add: name_char_def)

lemma is_ws_newline: "is_ws (CHR 0x0A)"
  by (simp add: is_ws_def)

lemma env_var_match_token:
  assumes "env_pair_ok kv"
  shows "env_var_match (env_token kv) = Some kv"
proof -
  have k: "list_all name_char (fst kv)" and v: "snd kv \<noteq> []" "list_all (\<lambda>c. \<not> is_ws c) (snd kv)"
    using assms by (auto simp: env_pair_ok_def)
  have "last (snd kv) \<noteq> CHR 0x0A"
    using v is_ws_newline by (metis last_in_set list_all_iff)
  moreover have "takeWhile name_char (fst kv @ CHR ''='' # snd kv) = fst kv"
    "dropWhile name_char (fst kv @ CHR ''='' # snd kv) = CHR ''='' # snd kv"
    using k not_name_char_eq by (auto simp: list_all_iff takeWhile_append2 dropWhile_append2)
  ultimately show ?thesis
    using assms v by (simp add: env_var_match_def env_token_def env_pair_ok_def)
qed

lemma env_pair_ok_match: "env_var_match token = Some kv \<Longrightarrow> env_pair_ok kv"
  by (auto simp: env_var_match_def env_pair_ok_def Let_def list_all_iff
      split: list.splits if_splits dest: set_takeWhileD)

lemma env_ok_put: "env_ok env \<Longrightarrow> env_pair_ok (k, v) \<Longrightarrow> env_ok (dict_put k v env)"
  unfolding env_ok_def
proof (induction env)
  case (Cons x env)
  then show ?case by (auto simp: dom_update update_conv' distinct_update)
qed simp

text \<open>Everything the parser builds can be printed.\<close>

definition parser_printable :: "parser \<Rightarrow> bool" where
  "parser_printable p \<longleftrightarrow> env_ok (penv p) \<and> list_all printable (ppipeline p) \<and>
     pred_option printable (current_command p)"

lemma parse_token_printable:
  assumes "parser_printable p" and "parse_token token p = Inr q"
  shows "parser_printable q"
  using assms
  by (auto simp: parse_step_defs parser_printable_def command_ok_def special_tokens_def env_ok_def
      env_ok_put [unfolded env_ok_def] dest: env_pair_ok_match
      split: pipeline_state.splits option.splits if_splits node.splits)

lemma parse_tokens_printable:
  "parser_printable p \<Longrightarrow> parse_tokens tokens p = Inr q \<Longrightarrow> parser_printable q"
  by (induction tokens arbitrary: p) (auto simp: rbind_Inr_iff dest: parse_token_printable)

lemma parse_printable:
  assumes "parse tokens = Inr nodes"
  shows "list_all printable nodes"
proof -
  obtain p q where p: "parse_tokens tokens start_parser = Inr p" and q: "commit_command p = Inr q"
    and nodes: "nodes = ppipeline q"
    using assms by (auto simp: parse_def rbind_Inr_iff)
  have "parser_printable p"
    by (rule parse_tokens_printable [OF _ p])
      (simp add: parser_printable_def start_parser_def env_ok_def)
  then show ?thesis
    using q nodes by (auto simp: parser_printable_def commit_command_def split: option.splits)
qed

lemma parse_tokens_append:
  "parse_tokens (xs @ ys) p = rbind (parse_tokens xs p) (parse_tokens ys)"
proof (induction xs arbitrary: p)
  case (Cons x xs)
  then show ?case by (cases "parse_token x p") simp_all
qed simp

lemma dict_put_new: "k \<notin> set (map fst d) \<Longrightarrow> dict_put k v d = d @ [(k, v)]"
  by (induction d) auto

lemma parse_env_tokens:
  "pstate p = BEGIN \<Longrightarrow> list_all env_pair_ok env \<Longrightarrow> distinct (map fst (penv p @ env)) \<Longrightarrow>
   parse_tokens (map env_token env) p = Inr (p\<lparr>penv := penv p @ env\<rparr>)"
proof (induction env arbitrary: p)
  case (Cons kv env)
  have "parse_token (env_token kv) p = Inr (p\<lparr>penv := penv p @ [kv]\<rparr>)"
    using Cons.prems
    by (cases kv) (simp add: parse_token_def parse_begin_def env_var_match_token dict_put_new)
  then show ?case
    using Cons.IH [of "p\<lparr>penv := penv p @ [kv]\<rparr>"] Cons.prems by simp
qed simp

lemma parse_name:
  assumes "pstate p = BEGIN" and "current_command p = None" and "name \<noteq> ''cd''"
    and "env_var_match name = None"
  shows "parse_token name p =
    Inr (p\<lparr>current_command := Some (Command ((new_command name)\<lparr>cmd_env := penv p\<rparr>)),
           penv := [], pstate := COMMAND\<rparr>)"
  using assms by (simp add: parse_token_def parse_begin_def assert_that_def new_command_def)

lemma parse_args:
  "pstate p = COMMAND \<Longrightarrow> current_command p = Some (Command c) \<Longrightarrow>
   list_all (\<lambda>t. t \<notin> set special_tokens) args \<Longrightarrow>
   parse_tokens args p =
     Inr (p\<lparr>current_command := Some (Command (c\<lparr>cmd_argv := cmd_argv c @ args\<rparr>))\<rparr>)"
proof (induction args arbitrary: p c)
  case (Cons t args)
  have "parse_token t p =
    Inr (p\<lparr>current_command := Some (Command (c\<lparr>cmd_argv := cmd_argv c @ [t]\<rparr>))\<rparr>)"
    using Cons.prems
    by (simp add: parse_token_def parse_command_def with_command_def special_tokens_def)
  then show ?case
    using Cons.IH [of "p\<lparr>current_command := Some (Command (c\<lparr>cmd_argv := cmd_argv c @ [t]\<rparr>))\<rparr>"
        "c\<lparr>cmd_argv := cmd_argv c @ [t]\<rparr>"] Cons.prems by simp
qed simp

definition unpiped :: "command \<Rightarrow> command" where
  "unpiped c = c\<lparr>cmd_stdout := if cmd_stdout c = Some PIPE then None else cmd_stdout c\<rparr>"

lemma parse_redirects:
  assumes "pstate p = COMMAND"
    and "current_command p = Some (Command (c\<lparr>cmd_stdin := None, cmd_stdout := None, cmd_stderr := None\<rparr>))"
    and "cmd_stdout c \<noteq> Some STDOUT" and "cmd_stderr c \<noteq> Some PIPE"
  shows "parse_tokens (redirect_tokens c) p = Inr (p\<lparr>current_command := Some (Command (unpiped c))\<rparr>)"
  using assms
  by (cases "cmd_stdin c"; cases "cmd_stdout c"; cases "cmd_stderr c")
    (auto simp: parse_step_defs redirect_tokens_def unpiped_def split: redirect.splits)

text \<open>The parser between two commands, with the line read so far.\<close>

definition at_begin :: "node list \<Rightarrow> parser" where
  "at_begin nodes = start_parser\<lparr>ppipeline := nodes\<rparr>"

definition within :: "node list \<Rightarrow> node \<Rightarrow> parser" where
  "within nodes x = (at_begin nodes)\<lparr>current_command := Some x,
     pstate := (case x of Chdir _ \<Rightarrow> CHDIR | _ \<Rightarrow> COMMAND)\<rparr>"

fun unfed :: "node \<Rightarrow> node" where
  "unfed (Command c) = Command (unpiped c)"
| "unfed x = x"

lemma parse_command_tokens:
  assumes "command_ok c"
  shows "parse_tokens (unparse_node (Command c)) (at_begin nodes) = Inr (within nodes (Command (unpiped c)))"
proof -
  obtain args where argv: "cmd_argv c = cmd_name c # args"
    using assms by (cases "cmd_argv c") (auto simp: command_ok_def)
  have args: "list_all (\<lambda>t. t \<notin> set special_tokens) args"
    using assms argv by (simp add: command_ok_def)
  define p1 where "p1 = (at_begin nodes)\<lparr>penv := cmd_env c\<rparr>"
  have 1: "parse_tokens (map env_token (cmd_env c)) (at_begin nodes) = Inr p1"
    using assms parse_env_tokens [of "at_begin nodes" "cmd_env c"]
    by (simp add: at_begin_def start_parser_def command_ok_def env_ok_def p1_def)
  define c0 where "c0 = (new_command (cmd_name c))\<lparr>cmd_env := cmd_env c\<rparr>"
  define p2 where "p2 = (at_begin nodes)\<lparr>current_command := Some (Command c0), pstate := COMMAND\<rparr>"
  have 2: "parse_token (cmd_name c) p1 = Inr p2"
    using assms parse_name [of p1 "cmd_name c"]
    by (simp add: p1_def p2_def c0_def at_begin_def start_parser_def command_ok_def)
  define c1 where "c1 = c0\<lparr>cmd_argv := cmd_argv c\<rparr>"
  define p3 where "p3 = p2\<lparr>current_command := Some (Command c1)\<rparr>"
  have 3: "parse_tokens args p2 = Inr p3"
    using parse_args [of p2 c0 args] args argv
    by (simp add: p2_def p3_def c0_def c1_def new_command_def)
  have c1: "c1 = c\<lparr>cmd_stdin := None, cmd_stdout := None, cmd_stderr := None\<rparr>"
    by (simp add: c1_def c0_def new_command_def)
  have 4: "parse_tokens (redirect_tokens c) p3 = Inr (within nodes (Command (unpiped c)))"
    using parse_redirects [of p3 c] assms
    by (simp add: p3_def p2_def c1 command_ok_def within_def)
  show ?thesis
    by (simp add: parse_tokens_append 1 2 3 4 argv)
qed

lemma parse_node_tokens:
  assumes "printable x" and "linked x operator \<or> closing x"
  shows "parse_tokens (unparse_node x) (at_begin nodes) = Inr (within nodes (unfed x))"
proof (cases x)
  case (Command c)
  then show ?thesis using assms parse_command_tokens [of c nodes] by simp
next
  case (Chdir d)
  then show ?thesis
    using assms(1)
    by (cases d) (auto simp: parse_step_defs within_def at_begin_def start_parser_def
        env_var_match_def name_char_def)
qed (use assms(2) in auto)

lemma parse_operator_token:
  assumes "linked x operator"
  shows "parse_tokens (unparse_node operator) (within nodes (unfed x)) =
    Inr (at_begin (nodes @ [x, operator]))"
  using assms
  by (cases x; cases operator)
    (auto simp: parse_step_defs within_def at_begin_def start_parser_def unpiped_def)

lemma commit_within:
  assumes "closing x"
  shows "commit_command (within nodes (unfed x)) =
    Inr ((within (nodes @ [x]) (unfed x))\<lparr>current_command := None\<rparr>)"
  using assms by (cases x) (auto simp: commit_command_def within_def at_begin_def unpiped_def)

lemma parse_line:
  "line_ok nodes \<Longrightarrow> list_all printable nodes \<Longrightarrow>
   \<exists>q. rbind (parse_tokens (unparse nodes) (at_begin pre)) commit_command = Inr q \<and>
       ppipeline q = pre @ nodes"
proof (induction nodes arbitrary: pre rule: line_ok.induct)
  case (2 x)
  then show ?case
    by (simp add: unparse_def parse_node_tokens commit_within)
      (simp add: within_def at_begin_def)
next
  case (3 x operator rest)
  then have "parse_tokens (unparse (x # operator # rest)) (at_begin pre) =
    parse_tokens (unparse rest) (at_begin (pre @ [x, operator]))"
    by (simp add: unparse_def parse_tokens_append parse_node_tokens [of x operator]
        parse_operator_token)
  then show ?case using 3(1) [of "pre @ [x, operator]"] 3(2,3) by simp
qed simp

lemma parse_unparse: "line_ok nodes \<Longrightarrow> list_all printable nodes \<Longrightarrow> parse (unparse nodes) = Inr nodes"
  using parse_line [of nodes "[]"] by (auto simp: parse_def at_begin_def start_parser_def)

text \<open>C9:
  The lines the parser can return are exactly the alternating lines of printable nodes, and each
  of them is read back unchanged from its printed form: parsing is onto, and printing a parsed
  line and parsing it again changes nothing.
\<close>
theorem parse_roundtrip:
  "((\<exists>tokens. parse tokens = Inr nodes) \<longleftrightarrow> line_ok nodes \<and> list_all printable nodes) \<and>
   (parse (unparse nodes) = Inr nodes \<longleftrightarrow> line_ok nodes \<and> list_all printable nodes)"
proof -
  have "line_ok nodes \<and> list_all printable nodes" if "parse tokens = Inr nodes" for tokens
    using that parse_printable [OF that] parse_line_ok by blast
  then show ?thesis using parse_unparse by blast
qed

section \<open>What a run does\<close>

text \<open>
  The specification of \<open>run\<close>: a line is a list of stages, each the commands of one pipe with the
  directory they run in and the operator after them. A \<open>cd\<close> holds for the rest of the line.
\<close>

type_synonym stage = "(string \<times> command) list \<times> node option"

fun stages :: "string \<Rightarrow> (string \<times> command) list \<Rightarrow> node list \<Rightarrow> stage list" where
  "stages cwd acc [Command c] = [(acc @ [(cwd, c)], None)]"
| "stages cwd acc (Command c # operator # rest) =
     (if operator = Pipe then stages cwd (acc @ [(cwd, c)]) rest
      else (acc @ [(cwd, c)], Some operator) # stages cwd [] rest)"
| "stages cwd acc (Chdir (Some d) # operator # rest) = stages (path_join cwd d) acc rest"
| "stages cwd acc _ = []"

definition sink :: "redirect option \<Rightarrow> stream" where
  "sink redir =
     (case redir of
        None \<Rightarrow> Inherit
      | Some PIPE \<Rightarrow> PipeEnd
      | Some STDOUT \<Rightarrow> SameAsStdout
      | Some (Filename f) \<Rightarrow> if f \<in> {''NUL:'', ''/dev/null''} then DevNull else File f)"

definition call_for :: "shell_os \<Rightarrow> bool \<Rightarrow> string \<times> command \<Rightarrow> popen_call" where
  "call_for os fed x =
     (case x of (cwd, c) \<Rightarrow>
       \<lparr>call_argv = cmd_argv c,
        call_stdin = (if fed then PipeEnd else case cmd_stdin c of None \<Rightarrow> Inherit | Some f \<Rightarrow> File f),
        call_stdout = sink (cmd_stdout c), call_stderr = sink (cmd_stderr c),
        call_env = child_env os c, call_cwd = (if cwd = ''.'' then None else Some cwd)\<rparr>)"

text \<open>The first command of a pipe reads its own input, the others read the pipe.\<close>

fun stage_calls :: "shell_os \<Rightarrow> bool \<Rightarrow> (string \<times> command) list \<Rightarrow> popen_call list" where
  "stage_calls os fed [] = []"
| "stage_calls os fed (x # xs) = call_for os fed x # stage_calls os True xs"

text \<open>A stage that decides the operator after it ends the whole line with its exit code.\<close>

definition decides :: "node option \<Rightarrow> int \<Rightarrow> bool" where
  "decides operator code \<longleftrightarrow>
     operator = None \<or> (operator = Some Or \<and> code = 0) \<or> (operator = Some And \<and> code \<noteq> 0)"

fun eval_stages :: "shell_os \<Rightarrow> popen_call list \<Rightarrow> stage list \<Rightarrow> int option \<times> popen_call list" where
  "eval_stages os prior [] = (None, prior)"
| "eval_stages os prior ((cs, operator) # rest) =
     (let after = prior @ stage_calls os False cs;
          code = exit_code os after
      in if decides operator code then (Some code, after) else eval_stages os after rest)"

lemma stage_calls_snoc:
  "stage_calls os fed (xs @ [x]) = stage_calls os fed xs @ [call_for os (fed \<or> xs \<noteq> []) x]"
  by (induction xs arbitrary: fed) simp_all

text \<open>Only the last command of a pipe matters, although all exit codes are looked at.\<close>

lemma exec_piped_commands_last: "retvals \<noteq> [] \<Longrightarrow> exec_piped_commands retvals = last retvals"
  by (auto simp: exec_piped_commands_def list_ex_iff)

lemma wait_piped_code:
  assumes "started r = prior @ piped r" and "piped r \<noteq> []"
  shows "wait_piped os r = (exit_code os (started r),
    r\<lparr>events := events r @ [Waited] @ map Closed (open_files r), open_files := []\<rparr>)"
  using assms by (simp add: wait_piped_def exec_piped_commands_last last_map)

lemma out_stream_Inr: "out_stream os redir = Inr s \<Longrightarrow> s = sink redir"
  by (auto simp: out_stream_def open_out_file_def sink_def
      split: option.splits redirect.splits if_splits)

lemma out_stream_Inl: "out_stream os redir = Inl e \<Longrightarrow> e = OtherException ''OSError''"
  by (auto simp: out_stream_def open_out_file_def
      split: option.splits redirect.splits if_splits)

lemma start_command_Inl: "start_command os r c = Inl e \<Longrightarrow> e = OtherException ''OSError''"
  by (auto simp: start_command_def rbind_Inl_iff stdin_of_def Let_def out_stream_Inl
      split: option.splits if_splits)

lemma start_command_Inr:
  assumes "start_command os r c = Inr q"
  shows "piped q = piped r @ [call_for os (pipe_state r) (run_cwd r, c)]"
    and "started q = started r @ [call_for os (pipe_state r) (run_cwd r, c)]"
    and "run_cwd q = run_cwd r"
    and "pipe_state q = pipe_state r"
  using assms
  by (auto simp: start_command_def rbind_Inr_iff stdin_of_def Let_def call_for_def
      dest!: out_stream_Inr split: option.splits if_splits)

text \<open>The runner in the middle of a stage.\<close>

definition in_stage ::
  "shell_os \<Rightarrow> popen_call list \<Rightarrow> string \<Rightarrow> (string \<times> command) list \<Rightarrow> runner \<Rightarrow> bool" where
  "in_stage os prior cwd acc r \<longleftrightarrow>
     run_cwd r = cwd \<and> piped r = stage_calls os False acc \<and> (pipe_state r \<longleftrightarrow> acc \<noteq> []) \<and>
     started r = prior @ piped r"

lemma in_stage_start:
  assumes "in_stage os prior cwd acc r" and "start_command os r c = Inr q"
  shows "in_stage os prior cwd (acc @ [(cwd, c)]) (q\<lparr>pipe_state := True\<rparr>)"
    and "piped q \<noteq> []" and "started q = prior @ piped q"
  using assms start_command_Inr [OF assms(2)] by (simp_all add: in_stage_def stage_calls_snoc)

text \<open>What can stop a run: the system, a final \<open>cd\<close>, a \<open>cd\<close> without a directory.\<close>

definition run_error :: "node list \<Rightarrow> py_error \<Rightarrow> bool" where
  "run_error nodes e \<longleftrightarrow>
     e = OtherException ''OSError'' \<or> (e = IndexError \<and> (\<exists>d. last nodes = Chdir d)) \<or>
     (e = TypeError \<and> Chdir None \<in> set nodes)"

lemma run_error_Cons: "rest \<noteq> [] \<Longrightarrow> run_error rest e \<Longrightarrow> run_error (x # operator # rest) e"
  by (auto simp: run_error_def)

lemma line_ok_not_Nil: "line_ok nodes \<Longrightarrow> nodes \<noteq> []"
  by auto

lemma line_ok_first: "line_ok (x # rest) \<Longrightarrow> (\<exists>c. x = Command c) \<or> (\<exists>d. x = Chdir d)"
  by (cases x; cases rest) auto

lemma in_stage_next:
  assumes "started q = prior'"
  shows "in_stage os prior' (run_cwd q) [] (q\<lparr>events := evs, open_files := [], pipe_state := False, piped := []\<rparr>)"
  using assms by (simp add: in_stage_def)

definition agrees_with :: "(int option \<times> popen_call list) \<Rightarrow> node list \<Rightarrow> (int option \<times> runner) result \<Rightarrow> bool" where
  "agrees_with expected nodes result \<longleftrightarrow>
     (case result of
        Inl e \<Rightarrow> run_error nodes e
      | Inr (res, r) \<Rightarrow> (res, started r) = expected \<and> res \<noteq> None)"

lemma agrees_with_Cons:
  "rest \<noteq> [] \<Longrightarrow> agrees_with expected rest result \<Longrightarrow> agrees_with expected (x # operator # rest) result"
  by (auto simp: agrees_with_def run_error_Cons split: sum.splits)

lemma agrees_with_simps [simp]:
  "agrees_with expected nodes (Inl e) \<longleftrightarrow> run_error nodes e"
  "agrees_with expected nodes (Inr (res, r)) \<longleftrightarrow> (res, started r) = expected \<and> res \<noteq> None"
  by (simp_all add: agrees_with_def)

lemma run_loop_stages:
  "line_ok nodes \<Longrightarrow> in_stage os prior cwd acc r \<Longrightarrow>
   agrees_with (eval_stages os prior (stages cwd acc nodes)) nodes (run_loop os False nodes r)"
proof (induction nodes arbitrary: prior cwd acc r rule: line_ok.induct)
  case (2 x)
  show ?case
  proof (cases x)
    case (Command c)
    show ?thesis
    proof (cases "start_command os r c")
      case (Inr q)
      have "started q = prior @ stage_calls os False (acc @ [(cwd, c)])"
        using in_stage_start [OF 2(2) Inr] by (simp add: in_stage_def)
      then show ?thesis
        using in_stage_start [OF 2(2) Inr] wait_piped_code [of q prior os] Inr Command
        by (simp add: decides_def Let_def)
    qed (auto simp: Command run_error_def dest: start_command_Inl)
  qed (use 2 in \<open>auto simp: run_error_def\<close>)
next
  case (3 x operator rest)
  have rest: "line_ok rest" "rest \<noteq> []" and link: "linked x operator"
    using 3(2) by (auto elim!: line_ok_elim)
  show ?case
  proof (cases x)
    case (Chdir d)
    show ?thesis
    proof (cases d)
      case (Some a)
      have "in_stage os prior (path_join cwd a) acc (r\<lparr>run_cwd := path_join cwd a\<rparr>)"
        using 3(3) by (simp add: in_stage_def)
      from agrees_with_Cons [OF rest(2) 3(1) [OF rest(1) this]] show ?thesis
        using Some Chdir link 3(3) by (simp add: assert_that_def in_stage_def)
    qed (use Chdir link in \<open>auto simp: assert_that_def run_error_def\<close>)
  next
    case (Command c)
    show ?thesis
    proof (cases "start_command os r c")
      case (Inr q)
      note s = in_stage_start [OF 3(3) Inr]
      have started: "started q = prior @ stage_calls os False (acc @ [(cwd, c)])"
        using s by (simp add: in_stage_def)
      have cwd: "run_cwd q = cwd"
        using s by (simp add: in_stage_def)
      note w = wait_piped_code [OF s(3,2), of os]
      show ?thesis
      proof (cases "operator = Pipe")
        case True
        then show ?thesis
          using 3(1) [OF rest(1) s(1)] rest(2) Command Inr by (simp add: agrees_with_Cons)
      next
        case False
        have "agrees_with (eval_stages os (started q) (stages cwd [] rest)) (x # operator # rest)
          (run_loop os False rest (q\<lparr>events := events q @ [Waited] @ map Closed (open_files q),
             open_files := [], pipe_state := False, piped := []\<rparr>))"
          using 3(1) [OF rest(1) in_stage_next [OF refl, of os q]] rest(2) cwd
          by (simp add: agrees_with_Cons)
        then show ?thesis
          using False link Command Inr w started by (auto simp: decides_def Let_def)
      qed
    qed (auto simp: Command run_error_def dest: start_command_Inl)
  qed (use link in auto)
qed simp

lemma run_stages:
  assumes "line_ok nodes"
  shows "agrees_with (eval_stages os [] (stages ''.'' [] nodes)) nodes (run os False nodes)"
proof -
  have "in_stage os [] ''.'' [] start_runner"
    by (simp add: in_stage_def start_runner_def)
  from run_loop_stages [OF assms this] show ?thesis by (simp add: run_def)
qed


definition echo_os :: shell_os where
  "echo_os = \<lparr>readable = (\<lambda>_. True), writable = (\<lambda>_. True), environ = [],
     startable = (\<lambda>_ _. True),
     exit_code = (\<lambda>calls. if call_argv (last calls) = [''false''] then 1 else 0)\<rparr>"

definition plain_call :: "string list \<Rightarrow> stream \<Rightarrow> stream \<Rightarrow> popen_call" where
  "plain_call argv sin sout =
     \<lparr>call_argv = argv, call_stdin = sin, call_stdout = sout, call_stderr = Inherit,
      call_env = None, call_cwd = None\<rparr>"

lemma sample_line:
  "parse [''false'', ''||'', ''ls'', ''|'', ''wc''] =
     Inr [Command (new_command ''false''), Or,
       Command ((new_command ''ls'')\<lparr>cmd_stdout := Some PIPE\<rparr>), Pipe, Command (new_command ''wc'')]"
  by (simp add: parse_def start_parser_def parse_step_defs env_var_match_def name_char_def)


text \<open>Unlike in a shell, a success before \<open>||\<close> also skips what stands after a later \<open>&&\<close>.\<close>

lemma or_skips_later_and:
  "eval_stages echo_os [] [([x], Some Or), ([y], Some And), ([z], None)] =
     (if call_argv (call_for echo_os False x) = [''false'']
      then eval_stages echo_os [call_for echo_os False x] [([y], Some And), ([z], None)]
      else (Some 0, [call_for echo_os False x]))"
  by (simp add: echo_os_def decides_def Let_def)

text \<open>The files a run opens and closes.\<close>

definition opened_files :: "event list \<Rightarrow> string list" where
  "opened_files evs = concat (map (\<lambda>e. case e of Opened f \<Rightarrow> [f] | _ \<Rightarrow> []) evs)"

definition closed_files :: "event list \<Rightarrow> string list" where
  "closed_files evs = concat (map (\<lambda>e. case e of Closed f \<Rightarrow> [f] | _ \<Rightarrow> []) evs)"

lemma opened_files_simps [simp]:
  "opened_files [] = []"
  "opened_files (es @ es') = opened_files es @ opened_files es'"
  "opened_files (map Opened fs) = fs" "opened_files (map Closed fs) = []"
  "opened_files (Started c # es) = opened_files es" "opened_files (Waited # es) = opened_files es"
  by (simp_all add: opened_files_def comp_def concat_map_singleton [of "\<lambda>x. x", simplified])

lemma closed_files_simps [simp]:
  "closed_files [] = []"
  "closed_files (es @ es') = closed_files es @ closed_files es'"
  "closed_files (map Opened fs) = []" "closed_files (map Closed fs) = fs"
  "closed_files (Started c # es) = closed_files es" "closed_files (Waited # es) = closed_files es"
  by (simp_all add: closed_files_def comp_def concat_map_singleton [of "\<lambda>x. x", simplified])

definition files_balanced :: "runner \<Rightarrow> bool" where
  "files_balanced r \<longleftrightarrow>
     mset (opened_files (events r)) = mset (closed_files (events r)) + mset (open_files r)"

lemma start_command_files:
  "files_balanced r \<Longrightarrow> start_command os r c = Inr q \<Longrightarrow> files_balanced q"
  by (auto simp: start_command_def rbind_Inr_iff Let_def files_balanced_def split: if_splits)

lemma wait_piped_files:
  "files_balanced r \<Longrightarrow> wait_piped os r = (code, q) \<Longrightarrow> files_balanced q \<and> open_files q = []"
  by (auto simp: wait_piped_def files_balanced_def Let_def)

lemma files_balanced_update [simp]:
  "files_balanced (r\<lparr>pipe_state := b\<rparr>) = files_balanced r"
  "files_balanced (r\<lparr>piped := cs\<rparr>) = files_balanced r"
  "files_balanced (r\<lparr>run_cwd := d\<rparr>) = files_balanced r"
  by (simp_all add: files_balanced_def)

lemma run_loop_files:
  "files_balanced r \<Longrightarrow> run_loop os verbose nodes r = Inr (Some code, q) \<Longrightarrow>
   files_balanced q \<and> open_files q = []"
proof (induction os verbose nodes r rule: run_loop.induct)
  case (3 os verbose d next_op rest r)
  then show ?case by (cases d) (simp_all add: assert_that_def split: if_splits)
next
  case (4 os verbose c r)
  show ?case
  proof (cases "start_command os r c")
    case (Inr r1)
    note b = start_command_files [OF 4(1) Inr]
    show ?thesis
      using 4(2) Inr wait_piped_files [OF b, of os] by (cases "wait_piped os r1") simp
  qed (use 4 in simp)
next
  case (5 os verbose c next_node rest r)
  obtain r1 where r1: "start_command os r c = Inr r1"
    using 5(7) by (cases "start_command os r c") simp_all
  note b = start_command_files [OF 5(6) r1]
  obtain v r2 where w: "wait_piped os r1 = (v, r2)" by fastforce
  note b2 = wait_piped_files [OF b w]
  show ?case
  proof (cases next_node)
    case (Command c')
    then show ?thesis using 5(1) [OF Command b] 5(7) r1 by simp
  next
    case (Chdir d)
    then show ?thesis using 5(2) [OF Chdir b] 5(7) r1 by simp
  next
    case Pipe
    then show ?thesis using 5(3) [OF Pipe, of r1] b 5(7) r1 by simp
  next
    case And
    then show ?thesis using 5(4) [OF And w [symmetric]] b2 5(7) r1 w by (auto split: if_splits)
  next
    case Or
    then show ?thesis using 5(5) [OF Or w [symmetric]] b2 5(7) r1 w by (auto split: if_splits)
  qed
qed simp_all

text \<open>C17:
  Whenever \<open>run\<close> returns an exit code, for any list of nodes and whether verbose or not, every
  file it opened has been closed exactly once and none is left open.
\<close>
theorem run_closes_files:
  assumes "run os verbose nodes = Inr (Some code, r)"
  shows "mset (opened_files (events r)) = mset (closed_files (events r)) \<and> open_files r = []"
proof -
  have "files_balanced start_runner"
    by (simp add: files_balanced_def start_runner_def)
  then show ?thesis
    using run_loop_files [of start_runner os verbose nodes code r] assms
    by (auto simp: run_def files_balanced_def)
qed

theorem run_closes_files_witness:
  "\<exists>r. run echo_os True [Command ((new_command ''sort'')\<lparr>cmd_stdin := Some ''in'',
        cmd_stdout := Some (Filename ''out''), cmd_stderr := Some STDOUT\<rparr>)] = Inr (Some 0, r) \<and>
     opened_files (events r) = [''in'', ''out''] \<and> mset (closed_files (events r)) = {#''in'', ''out''#}"
proof -
  let ?n = "[Command ((new_command ''sort'')\<lparr>cmd_stdin := Some ''in'',
        cmd_stdout := Some (Filename ''out''), cmd_stderr := Some STDOUT\<rparr>)]"
  obtain r where "run echo_os True ?n = Inr (Some 0, r)" "opened_files (events r) = [''in'', ''out'']"
    by (simp add: run_def start_runner_def start_command_def stdin_of_def out_stream_def echo_os_def
        open_out_file_def opened_by_def new_command_def wait_piped_def exec_piped_commands_def Let_def
        opened_files_def)
  then show ?thesis
    using run_closes_files [of echo_os True ?n 0 r] by auto
qed

section \<open>Defects of the code\<close>

text \<open>A \<open>cd\<close> at the end of a line is parsed, but cannot be run.\<close>

lemma final_cd_raises:
  "parse [''cd'', ''build''] = Inr [Chdir (Some ''build'')] \<and>
   run os verbose [Chdir (Some ''build'')] = Inl IndexError"
  by (simp add: parse_def start_parser_def parse_step_defs env_var_match_def name_char_def run_def)

text \<open>In verbose mode every line with \<open>||\<close> or \<open>&&\<close> after its first command fails.\<close>

lemma verbose_operator_raises:
  assumes "start_command os start_runner c = Inr q" and "operator \<in> {And, Or}"
  shows "run os True (Command c # operator # rest) = Inl UnboundLocalError"
  using assms by (auto simp: run_def split: prod.split)

text \<open>\<open>get_abbreviated_command\<close> tests \<open>And\<close> twice, so \<open>||\<close> is left out.\<close>

lemma or_not_shown:
  "get_abbreviated_command [Command (new_command ''a''), Or, Command (new_command ''b'')] = ''a b''"
  by (simp add: get_abbreviated_command_def abbreviation_of_def new_command_def)

text \<open>The failure of a command that is not the last one of its pipe is not noticed.\<close>

lemma pipe_failure_hidden: "exec_piped_commands [1, 0] = 0"
  by (simp add: exec_piped_commands_def)

end
