(* ===== verification/Cflags.thy ===== *)
theory Cflags
  imports Prelude "HOL-Library.Sublist"
begin

text \<open>
  The compiler flags of the build profiles, \<open>src/waf-tools/cflags.py\<close>: the three classes of
  compiler traits, the tables of compilers and profiles, and \<open>configure\<close>, which adds the flags
  to the configuration set of waf. The configuration set is an argument, as its lookup and its
  \<open>append_value\<close>. The traits are the interface of a locale that every compiler provides.
\<close>

section \<open>Compiler traits\<close>

record traits =
  warnings_flags :: "string list list"
  optimization_flags :: "int \<Rightarrow> string list option"
  debug_flags :: "int \<Rightarrow> (string list \<times> string list) option"

text \<open>\<open>for l in range(level)\<close>, left at the end of the table.\<close>

fun warnings_loop :: "string list list \<Rightarrow> nat list \<Rightarrow> string list \<Rightarrow> string list" where
  "warnings_loop table [] warnings = warnings"
| "warnings_loop table (l # ls) warnings =
     (if l < length table then warnings_loop table ls (warnings @ table ! l) else warnings)"

definition get_warnings_flags :: "traits \<Rightarrow> int \<Rightarrow> string list" where
  "get_warnings_flags t level = warnings_loop (warnings_flags t) [0..<nat level] []"

text \<open>A chain of \<open>if level == ...\<close> without a final \<open>else\<close> returns \<open>None\<close>.\<close>

definition by_level :: "'a list \<Rightarrow> int \<Rightarrow> 'a option" where
  "by_level cases level =
     (if 0 \<le> level \<and> level < int (length cases) then Some (cases ! nat level) else None)"

text \<open>The last branch is \<open>level >= 2\<close>.\<close>

definition by_level_up :: "'a list \<Rightarrow> int \<Rightarrow> 'a option" where
  "by_level_up cases level = by_level cases (min level (int (length cases) - 1))"

definition gcc :: traits where
  "gcc =
     \<lparr>warnings_flags = [[''-Wall''], [''-Werror''], [''-Wextra'']],
      optimization_flags = by_level [[''-O0''], [''-O''], [''-O2''], [''-O3'']],
      debug_flags = by_level_up
        [([''-g0''], [''NDEBUG'']), ([''-g''], []), ([''-ggdb'', ''-g3''], [''_DEBUG''])]\<rparr>"

definition icc :: traits where
  "icc =
     \<lparr>warnings_flags = [[], [], [''-Wall'']],
      optimization_flags = by_level [[''-O0''], [''-O''], [''-O2''], [''-O3'']],
      debug_flags = by_level_up
        [([''-g0''], [''NDEBUG'']), ([''-g''], []), ([''-ggdb'', ''-g3''], [''_DEBUG''])]\<rparr>"

definition msvc :: traits where
  "msvc =
     \<lparr>warnings_flags = [[''/W2''], [''/WX''], [''/Wall'']],
      optimization_flags = by_level [[''/Od''], [], [''/O2''], [''/Ox'']],
      debug_flags = by_level_up
        [([], [''NDEBUG'']), ([''/ZI'', ''/RTC1''], []), ([''/ZI'', ''/RTC1''], [''_DEBUG''])]\<rparr>"

definition compiler_mapping :: "(string, traits) pydict" where
  "compiler_mapping =
     [(''gcc'', gcc), (''g++'', gcc), (''msvc'', msvc), (''icc'', icc), (''icpc'', icc),
      (''clang'', gcc), (''clang++'', gcc)]"

text \<open>Optimization, warning and debug level of a profile.\<close>

definition profiles :: "(string, int \<times> int \<times> int) pydict" where
  "profiles = [(''default'', 2, 1, 1), (''debug'', 0, 2, 3), (''release'', 3, 1, 0)]"

definition default_profile :: string where
  "default_profile = ''default''"

section \<open>\<open>configure\<close>\<close>

text \<open>\<open>env[...] or None\<close>\<close>

definition or_none :: "string \<Rightarrow> string option" where
  "or_none s = (if s = '''' then None else Some s)"

definition find_compiler :: "string option \<Rightarrow> string option \<Rightarrow> traits option" where
  "find_compiler cc cxx =
     (case Option.bind cc (dict_get compiler_mapping) of
        Some t \<Rightarrow> Some t
      | None \<Rightarrow> Option.bind cxx (dict_get compiler_mapping))"

text \<open>The configuration set: lookup of flags, and \<open>append_value\<close>, which may get \<open>None\<close>.\<close>

record 'e conf_set =
  flags_of :: "'e \<Rightarrow> string \<Rightarrow> string list"
  append_value :: "string \<Rightarrow> string list option \<Rightarrow> 'e \<Rightarrow> 'e"

definition add_flags ::
  "'e conf_set \<Rightarrow> string option \<Rightarrow> string \<Rightarrow> string \<Rightarrow> string list option \<Rightarrow> string list \<Rightarrow> string list \<Rightarrow>
   string list \<Rightarrow> 'e \<Rightarrow> 'e" where
  "add_flags cs compiler var defs_var optimizations debug warnings debug_defs env =
     (if compiler \<noteq> None \<and> flags_of cs env var = [] then
        append_value cs defs_var (Some debug_defs)
         (append_value cs var (Some warnings)
           (append_value cs var (Some debug)
             (append_value cs var optimizations env)))
      else env)"

definition configure ::
  "'e conf_set \<Rightarrow> string \<Rightarrow> string \<Rightarrow> string \<Rightarrow> bool \<Rightarrow> 'e \<Rightarrow> 'e result" where
  "configure cs compiler_cc compiler_cxx build_profile disable_werror env =
     (let cc = or_none compiler_cc; cxx = or_none compiler_cxx
      in if cc = None \<and> cxx = None then Inl (OtherException ''WafError'')
         else (case find_compiler cc cxx of
                 None \<Rightarrow> Inr env
               | Some compiler \<Rightarrow>
                   (case dict_get profiles build_profile of
                      None \<Rightarrow> Inl KeyError
                    | Some (opt_level, warn_level, dbg_level) \<Rightarrow>
                        (case debug_flags compiler dbg_level of
                           None \<Rightarrow> Inl TypeError
                         | Some (debug, debug_defs) \<Rightarrow>
                             (let optimizations = optimization_flags compiler opt_level;
                                  warnings = get_warnings_flags compiler warn_level;
                                  warnings = (if disable_werror then remove1 ''-Werror'' warnings
                                              else warnings);
                                  env = add_flags cs cc ''CCFLAGS'' ''CCDEFINES'' optimizations debug
                                    warnings debug_defs env
                              in Inr (add_flags cs cxx ''CXXFLAGS'' ''CXXDEFINES'' optimizations debug
                                    warnings debug_defs env))))))"

section \<open>What every compiler provides\<close>

lemma warnings_loop_take:
  "warnings_loop table [a..<b] warnings = warnings @ concat (take (b - a) (drop a table))"
proof (induction "b - a" arbitrary: a warnings)
  case (Suc n)
  then have "[a..<b] = a # [Suc a..<b]" by (simp add: upt_conv_Cons)
  moreover have "take (b - a) (drop a table) =
      table ! a # take (b - Suc a) (drop (Suc a) table)" if "a < length table"
    using that Suc(2) by (metis Cons_nth_drop_Suc Suc_diff_Suc take_Suc_Cons zero_less_Suc zero_less_diff)
  ultimately show ?case
    using Suc(1) [of "Suc a"] Suc(2) by auto
qed simp

text \<open>The warnings are cumulative: the first \<open>level\<close> entries of the table.\<close>

lemma get_warnings_flags_take:
  "get_warnings_flags t level = concat (take (nat level) (warnings_flags t))"
  by (simp add: get_warnings_flags_def warnings_loop_take)

text \<open>
  The contract of \<open>CompilerTraits\<close>: a higher warning level keeps the flags of a lower one, and
  all levels a profile can ask for are defined.
\<close>

locale compiler_traits =
  fixes warn :: "int \<Rightarrow> string list"
    and opt :: "int \<Rightarrow> string list option"
    and dbg :: "int \<Rightarrow> (string list \<times> string list) option"
  assumes warn_step: "prefix (warn level) (warn (level + 1))"
    and opt_defined: "0 \<le> level \<Longrightarrow> level \<le> 3 \<Longrightarrow> opt level \<noteq> None"
    and dbg_defined: "0 \<le> level \<Longrightarrow> dbg level \<noteq> None"
begin

lemma warn_mono: "a \<le> b \<Longrightarrow> prefix (warn a) (warn b)"
proof (induction b rule: int_ge_induct [of a])
  case (step i)
  then show ?case using warn_step [of i] by (meson prefix_order.trans)
qed simp_all

lemma profile_defined:
  assumes "(name, opt_level, warn_level, dbg_level) \<in> set profiles"
  shows "\<exists>o_flags debug defs. opt opt_level = Some o_flags \<and> dbg dbg_level = Some (debug, defs)"
proof -
  have "0 \<le> opt_level" "opt_level \<le> 3" "0 \<le> dbg_level"
    using assms by (auto simp: profiles_def)
  then have "opt opt_level \<noteq> None" "dbg dbg_level \<noteq> None"
    using opt_defined dbg_defined by simp_all
  then show ?thesis by auto
qed

end

lemma warnings_step: "prefix (get_warnings_flags t level) (get_warnings_flags t (level + 1))"
proof (cases "0 \<le> level")
  case True
  then show ?thesis
    by (cases "nat level < length (warnings_flags t)")
      (simp_all add: get_warnings_flags_take nat_add_distrib take_Suc_conv_app_nth)
qed (simp add: get_warnings_flags_take)

lemmas traits_defs = gcc_def icc_def msvc_def by_level_def by_level_up_def

interpretation gnu: compiler_traits "get_warnings_flags gcc" "optimization_flags gcc" "debug_flags gcc"
  by unfold_locales (auto simp: warnings_step traits_defs)

interpretation intel: compiler_traits "get_warnings_flags icc" "optimization_flags icc" "debug_flags icc"
  by unfold_locales (auto simp: warnings_step traits_defs)

interpretation ms: compiler_traits "get_warnings_flags msvc" "optimization_flags msvc" "debug_flags msvc"
  by unfold_locales (auto simp: warnings_step traits_defs)

lemma compiler_mapping_traits: "t \<in> snd ` set compiler_mapping \<longleftrightarrow> t \<in> {gcc, msvc, icc}"
  by (auto simp: compiler_mapping_def)

text \<open>Every compiler of the table has the flags of every profile.\<close>

lemma table_defined:
  assumes "t \<in> snd ` set compiler_mapping" and "(name, o_level, w_level, d_level) \<in> set profiles"
  shows "\<exists>o_flags debug defs. optimization_flags t o_level = Some o_flags \<and>
    debug_flags t d_level = Some (debug, defs)"
  using assms(1) gnu.profile_defined [OF assms(2)] intel.profile_defined [OF assms(2)]
    ms.profile_defined [OF assms(2)]
  by (auto simp: compiler_mapping_traits)

section \<open>Properties\<close>

text \<open>The flags of a profile: optimization, debugging, then the warnings of its level.\<close>

definition profile_flags :: "traits \<Rightarrow> int \<times> int \<times> int \<Rightarrow> bool \<Rightarrow> string list" where
  "profile_flags t levels disable_werror =
     (case levels of (o_level, w_level, d_level) \<Rightarrow>
       the (optimization_flags t o_level) @ fst (the (debug_flags t d_level)) @
       (if disable_werror then remove1 ''-Werror'' else (\<lambda>ws. ws))
         (concat (take (nat w_level) (warnings_flags t))))"

definition profile_defines :: "traits \<Rightarrow> int \<times> int \<times> int \<Rightarrow> string list" where
  "profile_defines t levels = snd (the (debug_flags t (snd (snd levels))))"

definition expected_flags ::
  "('e \<Rightarrow> string \<Rightarrow> string list) \<Rightarrow> bool \<Rightarrow> bool \<Rightarrow> string list \<Rightarrow> string list \<Rightarrow> 'e \<Rightarrow> string \<Rightarrow> string list" where
  "expected_flags get has_cc has_cxx flags defines env var =
     (if var = ''CCFLAGS'' \<and> has_cc \<and> get env ''CCFLAGS'' = [] then flags
      else if var = ''CXXFLAGS'' \<and> has_cxx \<and> get env ''CXXFLAGS'' = [] then flags
      else if var = ''CCDEFINES'' \<and> has_cc \<and> get env ''CCFLAGS'' = [] then get env var @ defines
      else if var = ''CXXDEFINES'' \<and> has_cxx \<and> get env ''CXXFLAGS'' = [] then get env var @ defines
      else get env var)"

lemma find_compiler_table:
  "find_compiler cc cxx = Some t \<Longrightarrow> t \<in> snd ` set compiler_mapping"
  by (auto simp: find_compiler_def split: option.splits bind_splits dest!: map_of_SomeD intro: rev_image_eqI)

text \<open>For every compiler of the table and every profile \<open>configure\<close> succeeds; it sets the flags of the
  compilers in use whose flags the user has not set, to the optimization and debugging flags of
  the profile and the cumulative warnings of its level (less \<open>-Werror\<close> if asked), adds the
  preprocessor definitions of those compilers, and leaves every other variable alone. The
  hypothesis is what waf documents of \<open>append_value\<close>.
\<close>
theorem configure_flags:
  assumes law: "\<And>e k vs k'. flags_of cs (append_value cs k (Some vs) e) k' =
      (if k' = k then flags_of cs e k @ vs else flags_of cs e k')"
    and "dict_get profiles build_profile = Some levels"
    and "find_compiler (or_none cc) (or_none cxx) = Some t"
  shows "\<exists>env'. configure cs cc cxx build_profile disable_werror env = Inr env' \<and>
    flags_of cs env' = expected_flags (flags_of cs) (cc \<noteq> '''') (cxx \<noteq> '''')
      (profile_flags t levels disable_werror) (profile_defines t levels) env"
proof -
  obtain o_level w_level d_level where levels: "levels = (o_level, w_level, d_level)"
    by (metis prod_cases3)
  obtain o_flags debug defs where flags: "optimization_flags t o_level = Some o_flags"
    "debug_flags t d_level = Some (debug, defs)"
    using table_defined [OF find_compiler_table [OF assms(3)]] assms(2) levels
    by (blast dest: map_of_SomeD)
  have "\<not> (or_none cc = None \<and> or_none cxx = None)"
    using assms(3) by (cases "or_none cc"; cases "or_none cxx") (auto simp: find_compiler_def)
  then show ?thesis
    using assms(2,3) levels flags
    by (auto simp: configure_def add_flags_def law expected_flags_def profile_flags_def
        profile_defines_def or_none_def get_warnings_flags_take fun_eq_iff Let_def)
qed

definition plain_set :: "(string \<Rightarrow> string list) conf_set" where
  "plain_set = \<lparr>flags_of = (\<lambda>e. e), append_value = (\<lambda>k vs e. e(k := e k @ (case vs of None \<Rightarrow> [] | Some vs \<Rightarrow> vs)))\<rparr>"

theorem configure_flags_witness:
  "\<exists>env'. configure plain_set ''gcc'' ''g++'' ''debug'' True
      (\<lambda>v. if v = ''CXXFLAGS'' then [''-O1''] else []) = Inr env' \<and>
    flags_of plain_set env' ''CCFLAGS'' = [''-O0'', ''-ggdb'', ''-g3'', ''-Wall''] \<and>
    flags_of plain_set env' ''CXXFLAGS'' = [''-O1''] \<and>
    flags_of plain_set env' ''CCDEFINES'' = [''_DEBUG''] \<and> flags_of plain_set env' ''LINK'' = []"
proof -
  have f: "find_compiler (or_none ''gcc'') (or_none ''g++'') = Some gcc"
    by (simp add: find_compiler_def or_none_def compiler_mapping_def)
  have p: "dict_get profiles ''debug'' = Some (0, 2, 3)" by (simp add: profiles_def)
  show ?thesis
    using configure_flags [OF _ p f, of plain_set True "\<lambda>v. if v = ''CXXFLAGS'' then [''-O1''] else []"]
    by (auto simp: plain_set_def expected_flags_def profile_flags_def profile_defines_def traits_defs
        numeral_2_eq_2)
qed

text \<open>
  Nothing is configured for compilers that are not in the table, and the configuration fails
  without any compiler.
\<close>

lemma configure_unknown:
  "cc \<noteq> '''' \<or> cxx \<noteq> '''' \<Longrightarrow> find_compiler (or_none cc) (or_none cxx) = None \<Longrightarrow>
   configure cs cc cxx build_profile disable_werror env = Inr env"
  "configure cs '''' '''' build_profile disable_werror env = Inl (OtherException ''WafError'')"
  by (auto simp: configure_def or_none_def)

text \<open>
  \<open>--disable-werror\<close> removes the flag of gcc only: with msvc the profile \<open>debug\<close> still treats
  warnings as errors.
\<close>

lemma disable_werror_gcc:
  "list_all (\<lambda>(name, levels). ''-Werror'' \<notin> set (profile_flags gcc levels True)) profiles"
  by (simp add: profiles_def profile_flags_def traits_defs numeral_2_eq_2)

lemma disable_werror_msvc: "''/WX'' \<in> set (profile_flags msvc (0, 2, 3) True)"
  by (simp add: profile_flags_def traits_defs numeral_2_eq_2)

text \<open>The assertion of \<open>options\<close>.\<close>

lemma default_profile_known: "dict_get profiles default_profile \<noteq> None"
  by (simp add: profiles_def default_profile_def)

end
