(* ===== verification/GridData.thy ===== *)
theory GridData
  imports PyStr Complex_Main
begin

text \<open>
  The data of the time line viewer \<open>src/utils/grid.py\<close>: ranges and events, the time lines that
  hold them, the colors, and \<open>read_data\<close>, which fills them from the lines of a trace file. All
  times in a file are integers, and \<open>/\<close> on integers is the floor division of Python 2 (the file
  uses \<open>has_key\<close>, \<open>sort\<close> with a comparison, and gtk 2). A list of named objects that creates a
  missing one on access is the interface \<open>named_items\<close>.
\<close>

section \<open>Ranges and events\<close>

record data_range =
  dr_start :: int
  dr_end :: int
  dr_value :: string

text \<open>\<open>EventString\<close> and \<open>EventInt\<close> differ in the type of the value.\<close>

datatype event_value = StrValue string | IntValue int

record event =
  ev_at :: int
  ev_value :: event_value

definition ranges_cmp :: "data_range \<Rightarrow> data_range \<Rightarrow> int" where
  "ranges_cmp a b =
     (let diff = dr_start a - dr_start b in if diff < 0 then -1 else if diff > 0 then 1 else 0)"

definition events_cmp :: "event \<Rightarrow> event \<Rightarrow> int" where
  "events_cmp a b =
     (let diff = ev_at a - ev_at b in if diff < 0 then -1 else if diff > 0 then 1 else 0)"

text \<open>\<open>list.sort(cmp)\<close> of Python 2 is stable.\<close>

fun insert_cmp :: "('a \<Rightarrow> 'a \<Rightarrow> int) \<Rightarrow> 'a \<Rightarrow> 'a list \<Rightarrow> 'a list" where
  "insert_cmp cmp x [] = [x]"
| "insert_cmp cmp x (y # ys) = (if cmp x y \<le> 0 then x # y # ys else y # insert_cmp cmp x ys)"

definition sort_cmp :: "('a \<Rightarrow> 'a \<Rightarrow> int) \<Rightarrow> 'a list \<Rightarrow> 'a list" where
  "sort_cmp cmp xs = foldr (insert_cmp cmp) xs []"

lemma sort_cmp_key:
  assumes "\<And>x y. cmp x y \<le> 0 \<longleftrightarrow> key x \<le> key y"
  shows "sort_cmp cmp xs = sort_key key xs"
proof -
  have "insert_cmp cmp x ys = insort_key key x ys" for x ys
    using assms by (induction ys) auto
  then show ?thesis unfolding sort_cmp_def sort_key_def by presburger
qed

lemma sort_ranges: "sort_cmp ranges_cmp = sort_key dr_start"
  by (rule ext, rule sort_cmp_key) (auto simp: ranges_cmp_def Let_def)

lemma sort_events: "sort_cmp events_cmp = sort_key ev_at"
  by (rule ext, rule sort_cmp_key) (auto simp: events_cmp_def Let_def)

section \<open>\<open>TimelineDataRange\<close>\<close>

record timeline_range =
  tr_name :: string
  tr_ranges :: "data_range list"

definition new_range :: "string \<Rightarrow> timeline_range" where
  "new_range name = \<lparr>tr_name = name, tr_ranges = []\<rparr>"

text \<open>
  The binary search; \<open>l\<close> and \<open>u\<close> are Python integers, so \<open>u\<close> can become -1. The key is an
  integer or a float, compared by its value.
\<close>

definition lo_of :: "data_range \<Rightarrow> rat" where
  "lo_of r = of_int (dr_start r)"

definition hi_of :: "data_range \<Rightarrow> rat" where
  "hi_of r = of_int (dr_end r)"

function range_search_loop :: "data_range list \<Rightarrow> rat \<Rightarrow> int \<Rightarrow> int \<Rightarrow> int" where
  "range_search_loop ranges key l u =
     (if l \<le> u then
        (let i = (l + u) div 2; r = ranges ! nat i
         in if lo_of r \<le> key \<and> key \<le> hi_of r then i
            else if key < lo_of r then range_search_loop ranges key l (i - 1)
            else range_search_loop ranges key (i + 1) u)
      else -1)"
  by pat_completeness auto
termination
  by (relation "measure (\<lambda>(ranges, key, l, u). nat (u - l + 1))") auto

declare range_search_loop.simps [simp del]

definition range_search :: "data_range list \<Rightarrow> rat \<Rightarrow> int" where
  "range_search ranges key = range_search_loop ranges key 0 (int (length ranges) - 1)"

definition add_range :: "data_range \<Rightarrow> timeline_range \<Rightarrow> timeline_range" where
  "add_range r t = t\<lparr>tr_ranges := tr_ranges t @ [r]\<rparr>"

definition get_ranges_bounds :: "data_range list \<Rightarrow> rat \<Rightarrow> rat \<Rightarrow> int \<times> int" where
  "get_ranges_bounds ranges start finish =
     (let s = range_search ranges start; e = range_search ranges finish
      in if s = -1 \<and> e = -1 then (0, 0)
         else if s = -1 then (0, e + 1)
         else if e = -1 then (s, int (length ranges))
         else (s, e + 1))"

definition get_ranges :: "data_range list \<Rightarrow> rat \<Rightarrow> rat \<Rightarrow> data_range list" where
  "get_ranges ranges start finish =
     (let s = range_search ranges start; e = range_search ranges finish
      in if s = -1 \<and> e = -1 then []
         else if s = -1 then slice ranges 0 (e + 1)
         else if e = -1 then slice ranges s (int (length ranges))
         else slice ranges s (e + 1))"

definition range_sort :: "timeline_range \<Rightarrow> timeline_range" where
  "range_sort t = t\<lparr>tr_ranges := sort_cmp ranges_cmp (tr_ranges t)\<rparr>"

definition range_bounds :: "timeline_range \<Rightarrow> int \<times> int" where
  "range_bounds t =
     (if tr_ranges t \<noteq> [] then (dr_start (hd (tr_ranges t)), dr_end (last (tr_ranges t)))
      else (0, 0))"

section \<open>\<open>TimelineEvent\<close>\<close>

record timeline_event =
  te_name :: string
  te_events :: "event list"

definition new_event :: "string \<Rightarrow> timeline_event" where
  "new_event name = \<lparr>te_name = name, te_events = []\<rparr>"

text \<open>This search returns the place of insertion when it finds nothing.\<close>

definition at_of :: "event \<Rightarrow> rat" where
  "at_of e = of_int (ev_at e)"

function event_search_loop :: "event list \<Rightarrow> rat \<Rightarrow> int \<Rightarrow> int \<Rightarrow> int" where
  "event_search_loop events key l u =
     (if l \<le> u then
        (let i = (l + u) div 2; t = at_of (events ! nat i)
         in if key = t then i
            else if key < t then event_search_loop events key l (i - 1)
            else event_search_loop events key (i + 1) u)
      else l)"
  by pat_completeness auto
termination
  by (relation "measure (\<lambda>(events, key, l, u). nat (u - l + 1))") auto

declare event_search_loop.simps [simp del]

definition event_search :: "event list \<Rightarrow> rat \<Rightarrow> int" where
  "event_search events key = event_search_loop events key 0 (int (length events) - 1)"

definition add_event :: "event \<Rightarrow> timeline_event \<Rightarrow> timeline_event" where
  "add_event e t = t\<lparr>te_events := te_events t @ [e]\<rparr>"

definition get_events_bounds :: "event list \<Rightarrow> rat \<Rightarrow> rat \<Rightarrow> int \<times> int" where
  "get_events_bounds events start finish = (event_search events start, event_search events finish + 1)"

definition get_events :: "event list \<Rightarrow> rat \<Rightarrow> rat \<Rightarrow> event list" where
  "get_events events start finish =
     (let s = event_search events start; e = event_search events finish in slice events s (e + 1))"

definition event_sort :: "timeline_event \<Rightarrow> timeline_event" where
  "event_sort t = t\<lparr>te_events := sort_cmp events_cmp (te_events t)\<rparr>"

definition event_bounds :: "timeline_event \<Rightarrow> int \<times> int" where
  "event_bounds t =
     (if te_events t \<noteq> [] then (ev_at (hd (te_events t)), ev_at (last (te_events t))) else (0, 0))"

section \<open>Lists of named objects\<close>

text \<open>
  The loop of \<open>get_range\<close>, \<open>get_event_str\<close>, \<open>get_event_int\<close> and \<open>Timelines.get\<close>: the first
  object with the name, or a new one at the end. A reference to an object is its index.
\<close>

fun find_name :: "('a \<Rightarrow> string) \<Rightarrow> string \<Rightarrow> 'a list \<Rightarrow> nat option" where
  "find_name name_of n [] = None"
| "find_name name_of n (x # xs) =
     (if name_of x = n then Some 0 else map_option Suc (find_name name_of n xs))"

definition get_named :: "('a \<Rightarrow> string) \<Rightarrow> (string \<Rightarrow> 'a) \<Rightarrow> string \<Rightarrow> 'a list \<Rightarrow> nat \<times> 'a list" where
  "get_named name_of fresh n xs =
     (case find_name name_of n xs of Some i \<Rightarrow> (i, xs) | None \<Rightarrow> (length xs, xs @ [fresh n]))"

definition modify_nth :: "nat \<Rightarrow> ('a \<Rightarrow> 'a) \<Rightarrow> 'a list \<Rightarrow> 'a list" where
  "modify_nth i f xs = xs[i := f (xs ! i)]"

lemma modify_nth_length [simp]: "modify_nth (length as) f (as @ x # bs) = as @ f x # bs"
  by (simp add: modify_nth_def)

section \<open>\<open>Timeline\<close> and \<open>Timelines\<close>\<close>

record timeline =
  tl_name :: string
  tl_ranges :: "timeline_range list"
  tl_event_str :: "timeline_event list"
  tl_event_int :: "timeline_event list"

definition new_timeline :: "string \<Rightarrow> timeline" where
  "new_timeline name = \<lparr>tl_name = name, tl_ranges = [], tl_event_str = [], tl_event_int = []\<rparr>"

definition get_range :: "string \<Rightarrow> timeline_range list \<Rightarrow> nat \<times> timeline_range list" where
  "get_range = get_named tr_name new_range"

definition get_event :: "string \<Rightarrow> timeline_event list \<Rightarrow> nat \<times> timeline_event list" where
  "get_event = get_named te_name new_event"

definition timelines_get :: "string \<Rightarrow> timeline list \<Rightarrow> nat \<times> timeline list" where
  "timelines_get = get_named tl_name new_timeline"

definition timeline_sort :: "timeline \<Rightarrow> timeline" where
  "timeline_sort t =
     t\<lparr>tl_ranges := map range_sort (tl_ranges t), tl_event_int := map event_sort (tl_event_int t),
       tl_event_str := map event_sort (tl_event_str t)\<rparr>"

text \<open>The loops of the two methods \<open>get_bounds\<close>: both ends start at 0.\<close>

definition widen :: "int \<times> int \<Rightarrow> int \<times> int \<Rightarrow> int \<times> int" where
  "widen new old =
     (case (new, old) of ((n_lo, n_hi), (lo, hi)) \<Rightarrow>
       (if n_lo < lo then n_lo else lo, if n_hi > hi then n_hi else hi))"

definition timeline_bounds :: "timeline \<Rightarrow> int \<times> int" where
  "timeline_bounds t =
     fold widen (map range_bounds (tl_ranges t) @ map event_bounds (tl_event_str t) @
       map event_bounds (tl_event_int t)) (0, 0)"

definition timelines_sort :: "timeline list \<Rightarrow> timeline list" where
  "timelines_sort ts = map timeline_sort ts"

definition timelines_bounds :: "timeline list \<Rightarrow> int \<times> int" where
  "timelines_bounds ts = fold widen (map timeline_bounds ts) (0, 0)"

text \<open>The keys of a dictionary; \<open>key_order\<close> is the order in which Python 2 lists them.\<close>

definition get_all_range_values :: "(string list \<Rightarrow> string list) \<Rightarrow> timeline list \<Rightarrow> string list" where
  "get_all_range_values key_order ts =
     key_order (dict_keys
       (fold (\<lambda>v. dict_put v (1::int))
         (concat (map (\<lambda>t. concat (map (\<lambda>r. map dr_value (tr_ranges r)) (tl_ranges t))) ts)) []))"

section \<open>Colors\<close>

record color =
  red :: int
  green :: int
  blue :: int

record colors =
  color_dict :: "(string, color) pydict"
  default_colors :: "color list"

definition rgb :: "int \<Rightarrow> int \<Rightarrow> int \<Rightarrow> color" where
  "rgb r g b = \<lparr>red = r, green = g, blue = b\<rparr>"

definition new_colors :: colors where
  "new_colors =
     \<lparr>color_dict = [],
      default_colors = [rgb 1 0 0, rgb 0 1 0, rgb 0 0 1, rgb 1 1 0, rgb 1 0 1, rgb 0 1 1]\<rparr>"

definition add_color :: "string \<Rightarrow> color \<Rightarrow> colors \<Rightarrow> colors" where
  "add_color name c cs = cs\<lparr>color_dict := dict_put name c (color_dict cs)\<rparr>"

text \<open>A name without a color takes the last default color; \<open>pop\<close> of an empty list raises.\<close>

definition color_lookup :: "string \<Rightarrow> colors \<Rightarrow> (color option \<times> colors) result" where
  "color_lookup name cs =
     rbind
       (if name \<in> set (dict_keys (color_dict cs)) then Inr cs
        else if default_colors cs = [] then Inl IndexError
        else Inr (add_color name (last (default_colors cs))
                    (cs\<lparr>default_colors := butlast (default_colors cs)\<rparr>)))
       (\<lambda>cs. Inr (dict_get (color_dict cs) name, cs))"

section \<open>\<open>read_data\<close>\<close>

datatype data_line =
    RangeLine string string string int int
  | StrLine string string string int
  | IntLine string string int int
  | ColorLine string int int int
  | OtherLine

definition match_number :: "string \<Rightarrow> (int \<times> string) option" where
  "match_number s = map_option (\<lambda>(ds, r). (int (digits_val ds), r)) (match_digits s)"

text \<open>\<open>([^ ]+) \<close> and \<open>([0-9]+) \<close>, a group and the blank after it\<close>

definition word_blank :: "string \<Rightarrow> (string \<times> string) option" where
  "word_blank s =
     Option.bind (match_word s) (\<lambda>(w, s). map_option (\<lambda>s. (w, s)) (match_text '' '' s))"

definition number_blank :: "string \<Rightarrow> (int \<times> string) option" where
  "number_blank s =
     Option.bind (match_number s) (\<lambda>(n, s). map_option (\<lambda>s. (n, s)) (match_text '' '' s))"

definition match_range_line :: "string \<Rightarrow> data_line option" where
  "match_range_line line =
     Option.bind (match_text ''range '' line) (\<lambda>s.
     Option.bind (word_blank s) (\<lambda>(g1, s).
     Option.bind (word_blank s) (\<lambda>(g2, s).
     Option.bind (word_blank s) (\<lambda>(g3, s).
     Option.bind (number_blank s) (\<lambda>(g4, s).
     Option.bind (match_number s) (\<lambda>(g5, s). Some (RangeLine g1 g2 g3 g4 g5)))))))"

definition match_str_line :: "string \<Rightarrow> data_line option" where
  "match_str_line line =
     Option.bind (match_text ''event-str '' line) (\<lambda>s.
     Option.bind (word_blank s) (\<lambda>(g1, s).
     Option.bind (word_blank s) (\<lambda>(g2, s).
     Option.bind (word_blank s) (\<lambda>(g3, s).
     Option.bind (match_number s) (\<lambda>(g4, s). Some (StrLine g1 g2 g3 g4))))))"

definition match_int_line :: "string \<Rightarrow> data_line option" where
  "match_int_line line =
     Option.bind (match_text ''event-int '' line) (\<lambda>s.
     Option.bind (word_blank s) (\<lambda>(g1, s).
     Option.bind (word_blank s) (\<lambda>(g2, s).
     Option.bind (number_blank s) (\<lambda>(g3, s).
     Option.bind (match_number s) (\<lambda>(g4, s). Some (IntLine g1 g2 g3 g4))))))"

definition hex_val :: "char \<Rightarrow> int option" where
  "hex_val c =
     (let n = of_char c :: int in
      if 48 \<le> n \<and> n \<le> 57 then Some (n - 48)
      else if 97 \<le> n \<and> n \<le> 102 then Some (n - 87)
      else if 65 \<le> n \<and> n \<le> 70 then Some (n - 55)
      else None)"

definition match_hex2 :: "string \<Rightarrow> (int \<times> string) option" where
  "match_hex2 s =
     (case s of
        a # b # r \<Rightarrow>
          Option.bind (hex_val a) (\<lambda>x. map_option (\<lambda>y. (16 * x + y, r)) (hex_val b))
      | _ \<Rightarrow> None)"

definition match_color_line :: "string \<Rightarrow> data_line option" where
  "match_color_line line =
     Option.bind (match_text ''color '' line) (\<lambda>s.
     Option.bind (word_blank s) (\<lambda>(g1, s).
     Option.bind (match_text ''#'' s) (\<lambda>s.
     Option.bind (match_hex2 s) (\<lambda>(g2, s).
     Option.bind (match_hex2 s) (\<lambda>(g3, s).
     Option.bind (match_hex2 s) (\<lambda>(g4, s). Some (ColorLine g1 g2 g3 g4)))))))"

definition parse_data_line :: "string \<Rightarrow> data_line" where
  "parse_data_line line =
     (case match_range_line line of Some d \<Rightarrow> d
      | None \<Rightarrow> (case match_str_line line of Some d \<Rightarrow> d
      | None \<Rightarrow> (case match_int_line line of Some d \<Rightarrow> d
      | None \<Rightarrow> (case match_color_line line of Some d \<Rightarrow> d
      | None \<Rightarrow> OtherLine))))"

text \<open>A line changes an object it reaches by name from the list of time lines.\<close>

definition in_range_list :: "string \<Rightarrow> (timeline_range \<Rightarrow> timeline_range) \<Rightarrow> timeline \<Rightarrow> timeline" where
  "in_range_list n f t =
     (case get_range n (tl_ranges t) of (i, rs) \<Rightarrow> t\<lparr>tl_ranges := modify_nth i f rs\<rparr>)"

definition in_event_str :: "string \<Rightarrow> (timeline_event \<Rightarrow> timeline_event) \<Rightarrow> timeline \<Rightarrow> timeline" where
  "in_event_str n f t =
     (case get_event n (tl_event_str t) of (i, es) \<Rightarrow> t\<lparr>tl_event_str := modify_nth i f es\<rparr>)"

definition in_event_int :: "string \<Rightarrow> (timeline_event \<Rightarrow> timeline_event) \<Rightarrow> timeline \<Rightarrow> timeline" where
  "in_event_int n f t =
     (case get_event n (tl_event_int t) of (i, es) \<Rightarrow> t\<lparr>tl_event_int := modify_nth i f es\<rparr>)"

definition in_timeline :: "string \<Rightarrow> (timeline \<Rightarrow> timeline) \<Rightarrow> timeline list \<Rightarrow> timeline list" where
  "in_timeline n f ts = (case timelines_get n ts of (i, ts) \<Rightarrow> modify_nth i f ts)"

definition add_data_line :: "data_line \<Rightarrow> colors \<times> timeline list \<Rightarrow> colors \<times> timeline list" where
  "add_data_line line st =
     (case st of (cs, ts) \<Rightarrow>
       (case line of
          RangeLine t n v s e \<Rightarrow>
            (cs, in_timeline t (in_range_list n
                   (add_range \<lparr>dr_start = s, dr_end = e, dr_value = v\<rparr>)) ts)
        | StrLine t n v a \<Rightarrow>
            (cs, in_timeline t (in_event_str n (add_event \<lparr>ev_at = a, ev_value = StrValue v\<rparr>)) ts)
        | IntLine t n v a \<Rightarrow>
            (cs, in_timeline t (in_event_int n (add_event \<lparr>ev_at = a, ev_value = IntValue v\<rparr>)) ts)
        | ColorLine n r g b \<Rightarrow> (add_color n (rgb (r div 255) (g div 255) (b div 255)) cs, ts)
        | OtherLine \<Rightarrow> (cs, ts)))"

definition read_data :: "string list \<Rightarrow> colors \<times> timeline list" where
  "read_data lines =
     (case fold add_data_line (map parse_data_line lines) (new_colors, []) of
        (cs, ts) \<Rightarrow> (cs, timelines_sort ts))"

section \<open>The interface of the named lists\<close>

definition lookup_name :: "('a \<Rightarrow> string) \<Rightarrow> string \<Rightarrow> 'a list \<Rightarrow> 'a option" where
  "lookup_name name_of n xs = find (\<lambda>x. name_of x = n) xs"

text \<open>
  What a client relies on: an object that exists is found at its first place and the list stays as
  it is; otherwise the new object is the last one.
\<close>

locale named_items =
  fixes name_of :: "'a \<Rightarrow> string" and fresh :: "string \<Rightarrow> 'a"
    and get :: "string \<Rightarrow> 'a list \<Rightarrow> nat \<times> 'a list"
  assumes name_fresh: "name_of (fresh n) = n"
    and get_found: "lookup_name name_of n xs = Some x \<Longrightarrow>
      \<exists>i. get n xs = (i, xs) \<and> i < length xs \<and> xs ! i = x \<and> n \<notin> name_of ` set (take i xs)"
    and get_missing: "lookup_name name_of n xs = None \<Longrightarrow> get n xs = (length xs, xs @ [fresh n])"
begin

lemma lookup_append:
  "lookup_name name_of n (xs @ ys) =
     (case lookup_name name_of n xs of None \<Rightarrow> lookup_name name_of n ys | Some x \<Rightarrow> Some x)"
  by (induction xs) (auto simp: lookup_name_def)

lemma lookup_Cons:
  "lookup_name name_of n (x # xs) = (if name_of x = n then Some x else lookup_name name_of n xs)"
  by (simp add: lookup_name_def)

lemma lookup_Nil: "lookup_name name_of n [] = None"
  by (simp add: lookup_name_def)

lemma lookup_None: "lookup_name name_of n xs = None \<longleftrightarrow> n \<notin> name_of ` set xs"
  by (auto simp: lookup_name_def find_None_iff)

lemma lookup_Some: "lookup_name name_of n xs = Some x \<Longrightarrow> x \<in> set xs \<and> name_of x = n"
  by (auto simp: lookup_name_def find_Some_iff)

lemma get_cases:
  obtains x as bs where "xs = as @ x # bs" "n \<notin> name_of ` set as" "name_of x = n"
      "get n xs = (length as, xs)" "lookup_name name_of n xs = Some x"
  | "n \<notin> name_of ` set xs" "get n xs = (length xs, xs @ [fresh n])" "lookup_name name_of n xs = None"
proof (cases "lookup_name name_of n xs")
  case None
  then show ?thesis using get_missing [OF None] that(2) by (simp add: lookup_None)
next
  case (Some x)
  obtain i where i: "get n xs = (i, xs)" "i < length xs" "xs ! i = x" "n \<notin> name_of ` set (take i xs)"
    using get_found [OF Some] by blast
  have "xs = take i xs @ x # drop (Suc i) xs"
    using i(2,3) by (metis id_take_nth_drop)
  then show ?thesis
    using that(1) [of "take i xs" x "drop (Suc i) xs"] i lookup_Some [OF Some] Some by simp
qed

text \<open>An access by name followed by a change of the object, as seen by a later lookup.\<close>

lemma lookup_modify:
  assumes "get n xs = (i, ys)" and "\<And>x. name_of (f x) = name_of x"
  shows "lookup_name name_of m (modify_nth i f ys) =
    (if m = n then Some (f (case lookup_name name_of n xs of None \<Rightarrow> fresh n | Some x \<Rightarrow> x))
     else lookup_name name_of m xs)"
proof (cases rule: get_cases [of xs n])
  case (1 x as bs)
  then have ys: "ys = as @ x # bs" "i = length as" using assms(1) by auto
  then have "modify_nth i f ys = as @ f x # bs" by simp
  moreover have "lookup_name name_of n as = None" using 1 by (simp add: lookup_None)
  ultimately show ?thesis
    using 1(1,3,5) assms(2) by (auto simp: lookup_append lookup_Cons split: option.splits)
next
  case 2
  then have ys: "ys = xs @ [fresh n]" "i = length xs" using assms(1) by auto
  then have "modify_nth i f ys = xs @ [f (fresh n)]" by simp
  then show ?thesis
    using 2(3) assms(2) name_fresh
    by (auto simp: lookup_append lookup_Cons lookup_Nil split: option.splits)
qed

lemma names_modify:
  assumes "get n xs = (i, ys)" and "\<And>x. name_of (f x) = name_of x"
  shows "map name_of (modify_nth i f ys) =
    (if n \<in> name_of ` set xs then map name_of xs else map name_of xs @ [n])"
proof (cases rule: get_cases [of xs n])
  case (1 x as bs)
  then have ys: "ys = as @ x # bs" "i = length as" using assms(1) by auto
  show ?thesis using 1(1,3) assms(2) by (auto simp: ys)
next
  case 2
  then have ys: "ys = xs @ [fresh n]" "i = length xs" using assms(1) by auto
  show ?thesis using 2(1) assms(2) name_fresh by (simp add: ys)
qed

lemma distinct_modify:
  assumes "get n xs = (i, ys)" and "\<And>x. name_of (f x) = name_of x" and "distinct (map name_of xs)"
  shows "distinct (map name_of (modify_nth i f ys))"
  using names_modify [where f = f, OF assms(1,2)] assms(3) by auto

lemma items_modify:
  assumes "get n xs = (i, ys)" and "list_all P xs" and "P (fresh n)" and "\<And>x. P x \<Longrightarrow> P (f x)"
  shows "list_all P (modify_nth i f ys)"
proof (cases rule: get_cases [of xs n])
  case (1 x as bs)
  then have ys: "ys = as @ x # bs" "i = length as" using assms(1) by auto
  show ?thesis using 1(1) assms(2-4) by (simp add: ys)
next
  case 2
  then have ys: "ys = xs @ [fresh n]" "i = length xs" using assms(1) by auto
  show ?thesis using assms(2-4) by (simp add: ys)
qed

end

lemma find_name_spec:
  "case find_name name_of n xs of
     None \<Rightarrow> lookup_name name_of n xs = None
   | Some i \<Rightarrow> i < length xs \<and> lookup_name name_of n xs = Some (xs ! i) \<and>
       n \<notin> name_of ` set (take i xs)"
  by (induction xs) (auto simp: lookup_name_def split: option.splits)

lemma get_named_items:
  assumes "\<And>n. name_of (fresh n) = n"
  shows "named_items name_of fresh (get_named name_of fresh)"
proof
  show "\<exists>i. get_named name_of fresh n xs = (i, xs) \<and> i < length xs \<and> xs ! i = x \<and>
      n \<notin> name_of ` set (take i xs)" if "lookup_name name_of n xs = Some x" for n xs x
    using that find_name_spec [of name_of n xs]
    by (auto simp: get_named_def split: option.splits)
  show "get_named name_of fresh n xs = (length xs, xs @ [fresh n])"
    if "lookup_name name_of n xs = None" for n xs
    using that find_name_spec [of name_of n xs]
    by (auto simp: get_named_def split: option.splits)
qed (rule assms)

interpretation range_items: named_items tr_name new_range get_range
  unfolding get_range_def by (rule get_named_items) (simp add: new_range_def)

interpretation event_items: named_items te_name new_event get_event
  unfolding get_event_def by (rule get_named_items) (simp add: new_event_def)

interpretation line_items: named_items tl_name new_timeline timelines_get
  unfolding timelines_get_def by (rule get_named_items) (simp add: new_timeline_def)

section \<open>The searches\<close>

definition covers :: "data_range \<Rightarrow> rat \<Rightarrow> bool" where
  "covers r key \<longleftrightarrow> lo_of r \<le> key \<and> key \<le> hi_of r"

text \<open>What the drawing code needs of the ranges of a line: in order and apart from each other.\<close>

definition ranges_ok :: "data_range list \<Rightarrow> bool" where
  "ranges_ok rs \<longleftrightarrow> sorted_wrt (\<lambda>a b. dr_end a < dr_start b) rs \<and>
     list_all (\<lambda>r. dr_start r \<le> dr_end r) rs"

lemma ranges_ok_nth:
  assumes "ranges_ok rs" and "i < length rs"
  shows "lo_of (rs ! i) \<le> hi_of (rs ! i)"
    and "j < length rs \<Longrightarrow> i < j \<Longrightarrow> hi_of (rs ! i) < lo_of (rs ! j)"
  using assms by (auto simp: lo_of_def hi_of_def ranges_ok_def list_all_length sorted_wrt_iff_nth_less)

definition found_at :: "data_range list \<Rightarrow> rat \<Rightarrow> int \<Rightarrow> bool" where
  "found_at rs key k \<longleftrightarrow>
     (if list_ex (\<lambda>r. covers r key) rs then 0 \<le> k \<and> nat k < length rs \<and> covers (rs ! nat k) key
      else k = -1)"

lemma range_search_loop_found:
  "ranges_ok rs \<Longrightarrow> 0 \<le> l \<Longrightarrow> u < int (length rs) \<Longrightarrow>
   \<forall>i < length rs. int i < l \<longrightarrow> hi_of (rs ! i) < key \<Longrightarrow>
   \<forall>i < length rs. u < int i \<longrightarrow> key < lo_of (rs ! i) \<Longrightarrow>
   found_at rs key (range_search_loop rs key l u)"
proof (induction rs key l u rule: range_search_loop.induct)
  case (1 rs key l u)
  let ?i = "(l + u) div 2" let ?r = "rs ! nat ?i"
  show ?case
  proof (cases "l \<le> u")
    case False
    have "\<not> covers (rs ! i) key" if "i < length rs" for i
      using "1.prems"(4,5) that False by (cases "int i < l") (auto simp: covers_def)
    then have "\<not> list_ex (\<lambda>r. covers r key) rs"
      by (simp add: list_ex_length)
    then show ?thesis
      using False by (simp add: range_search_loop.simps [of rs key l u] found_at_def)
  next
    case lu: True
    have i: "0 \<le> ?i" "nat ?i < length rs" "l \<le> ?i" "?i \<le> u"
      using lu "1.prems"(2,3) by auto
    note r = ranges_ok_nth [OF "1.prems"(1)]
    consider "covers ?r key" | "key < lo_of ?r" | "hi_of ?r < key"
      by (force simp: covers_def)
    then show ?thesis
    proof cases
      case 1
      then have "range_search_loop rs key l u = ?i"
        using lu by (simp add: range_search_loop.simps [of rs key l u] covers_def Let_def)
      then show ?thesis using 1 i by (auto simp: found_at_def list_ex_length)
    next
      case 2
      have "key < lo_of (rs ! j)" if "j < length rs" "?i - 1 < int j" for j
      proof (cases "nat ?i = j")
        case False
        then have "nat ?i < j" using that(2) i(1) by linarith
        then show ?thesis using r(1) [OF i(2)] r(2) [OF i(2) that(1)] 2 by linarith
      qed (use 2 in simp)
      then have "found_at rs key (range_search_loop rs key l (?i - 1))"
        using "1.IH"(1) [OF lu refl refl] 2 "1.prems" i by auto
      then show ?thesis
        using lu 2 by (simp add: range_search_loop.simps [of rs key l u] Let_def)
    next
      case 3
      have "hi_of (rs ! j) < key" if "j < length rs" "int j < ?i + 1" for j
      proof (cases "nat ?i = j")
        case False
        then have "j < nat ?i" using that(2) i(1) by linarith
        then show ?thesis using r(1) [OF i(2)] r(2) [OF that(1) i(2)] 3 by linarith
      qed (use 3 in simp)
      then have "found_at rs key (range_search_loop rs key (?i + 1) u)"
        using "1.IH"(2) [OF lu refl refl] 3 r(1) [OF i(2)] "1.prems" i by auto
      then show ?thesis
        using lu 3 r(1) [OF i(2)] by (simp add: range_search_loop.simps [of rs key l u] Let_def)
    qed
  qed
qed

lemma range_search_found: "ranges_ok rs \<Longrightarrow> found_at rs key (range_search rs key)"
  unfolding range_search_def by (rule range_search_loop_found) auto

lemma filter_slice:
  assumes "\<forall>i < length xs. P (xs ! i) \<longleftrightarrow> s \<le> i \<and> i < e"
  shows "filter P xs = drop s (take e xs)"
  using assms
proof (induction xs arbitrary: s e)
  case (Cons x xs)
  have "P (xs ! i) \<longleftrightarrow> s - 1 \<le> i \<and> i < e - 1" if "i < length xs" for i
    using Cons.prems [rule_format, of "Suc i"] that by auto
  then have "filter P xs = drop (s - 1) (take (e - 1) xs)" by (blast intro: Cons.IH)
  moreover have "P x \<longleftrightarrow> s = 0 \<and> 0 < e" using Cons.prems [rule_format, of 0] by auto
  ultimately show ?case by (cases s; cases e) auto
qed simp

text \<open>The ranges a search selects, from the first one that covers \<open>start\<close> to the last.\<close>

definition in_window :: "data_range list \<Rightarrow> rat \<Rightarrow> rat \<Rightarrow> data_range \<Rightarrow> bool" where
  "in_window rs start finish r \<longleftrightarrow>
     (list_ex (\<lambda>r. covers r start) rs \<longrightarrow> start \<le> hi_of r) \<and>
     (list_ex (\<lambda>r. covers r finish) rs \<longrightarrow> lo_of r \<le> finish)"

lemma covered_start:
  assumes "ranges_ok rs" and "k < length rs" and "covers (rs ! k) start" and "i < length rs"
  shows "start \<le> hi_of (rs ! i) \<longleftrightarrow> k \<le> i"
proof (cases "k = i")
  case False
  then show ?thesis
    using ranges_ok_nth [OF assms(1) assms(2)] ranges_ok_nth [OF assms(1) assms(4)] assms(2-4)
    by (cases "k < i") (force simp: covers_def)+
qed (use assms(3) in \<open>simp add: covers_def\<close>)

lemma covered_finish:
  assumes "ranges_ok rs" and "k < length rs" and "covers (rs ! k) finish" and "i < length rs"
  shows "lo_of (rs ! i) \<le> finish \<longleftrightarrow> i \<le> k"
proof (cases "k = i")
  case False
  then show ?thesis
    using ranges_ok_nth [OF assms(1) assms(2)] ranges_ok_nth [OF assms(1) assms(4)] assms(2-4)
    by (cases "k < i") (force simp: covers_def)+
qed (use assms(3) in \<open>simp add: covers_def\<close>)

lemma get_ranges_window:
  assumes "ranges_ok rs"
  shows "get_ranges rs start finish =
    (if list_ex (\<lambda>r. covers r start \<or> covers r finish) rs then filter (in_window rs start finish) rs
     else [])"
proof -
  let ?s = "range_search rs start" and ?e = "range_search rs finish"
  let ?S = "list_ex (\<lambda>r. covers r start) rs" and ?E = "list_ex (\<lambda>r. covers r finish) rs"
  note fs = range_search_found [OF assms, of start, unfolded found_at_def]
  note fe = range_search_found [OF assms, of finish, unfolded found_at_def]
  have ex: "list_ex (\<lambda>r. covers r start \<or> covers r finish) rs \<longleftrightarrow> ?S \<or> ?E"
    by (auto simp: list_ex_iff)
  have 1: "filter (in_window rs start finish) rs =
      drop (if ?S then nat ?s else 0) (take (if ?E then Suc (nat ?e) else length rs) rs)"
  proof (rule filter_slice, intro allI impI)
    fix i assume i: "i < length rs"
    have "?S \<Longrightarrow> (start \<le> hi_of (rs ! i)) = (nat ?s \<le> i)"
      using fs covered_start [OF assms _ _ i, of "nat ?s"] by simp
    moreover have "?E \<Longrightarrow> (lo_of (rs ! i) \<le> finish) = (i \<le> nat ?e)"
      using fe covered_finish [OF assms _ _ i, of "nat ?e"] by simp
    ultimately show "in_window rs start finish (rs ! i) =
        ((if ?S then nat ?s else 0) \<le> i \<and> i < (if ?E then Suc (nat ?e) else length rs))"
      using i by (auto simp: in_window_def less_Suc_eq_le)
  qed
  have e: "?E \<Longrightarrow> slice rs x (?e + 1) = drop (slice_pos rs x) (take (Suc (nat ?e)) rs)" for x
    using fe slice_nonneg [of rs _ "Suc (nat ?e)"] by (simp add: slice_def slice_pos_def nat_add_distrib)
  have s: "?S \<Longrightarrow> slice_pos rs ?s = nat ?s"
    using fs by (simp add: slice_pos_def)
  have l: "slice rs ?s (int (length rs)) = drop (slice_pos rs ?s) rs"
    by (simp add: slice_def slice_pos_def)
  show ?thesis
    using 1 fs fe ex e s l by (cases ?S; cases ?E) (auto simp: get_ranges_def Let_def slice_pos_def)
qed

text \<open>Events with different times in order; the search counts the earlier ones.\<close>

definition events_ok :: "event list \<Rightarrow> bool" where
  "events_ok es \<longleftrightarrow> sorted_wrt (\<lambda>a b. ev_at a < ev_at b) es"

definition splits_at :: "event list \<Rightarrow> rat \<Rightarrow> int \<Rightarrow> bool" where
  "splits_at es key k \<longleftrightarrow> 0 \<le> k \<and> k \<le> int (length es) \<and>
     (\<forall>i < length es. at_of (es ! i) < key \<longleftrightarrow> int i < k)"

lemma event_search_loop_splits:
  "events_ok es \<Longrightarrow> 0 \<le> l \<Longrightarrow> l \<le> u + 1 \<Longrightarrow> u < int (length es) \<Longrightarrow>
   \<forall>i < length es. int i < l \<longrightarrow> at_of (es ! i) < key \<Longrightarrow>
   \<forall>i < length es. u < int i \<longrightarrow> key < at_of (es ! i) \<Longrightarrow>
   splits_at es key (event_search_loop es key l u)"
proof (induction es key l u rule: event_search_loop.induct)
  case (1 es key l u)
  let ?i = "(l + u) div 2" let ?t = "at_of (es ! nat ?i)"
  note step = event_search_loop.simps [of es key l u]
  show ?case
  proof (cases "l \<le> u")
    case False
    then have "u = l - 1" using "1.prems"(3) by simp
    then show ?thesis using "1.prems" False
      by (auto simp: step splits_at_def)
  next
    case lu: True
    have i: "0 \<le> ?i" "nat ?i < length es" "l \<le> ?i" "?i \<le> u"
      using lu "1.prems"(2,4) by auto
    have lt: "at_of (es ! j) < at_of (es ! j')" if "j < j'" "j' < length es" for j j'
      using "1.prems"(1) that by (auto simp: events_ok_def at_of_def sorted_wrt_iff_nth_less)
    consider "key = ?t" | "key < ?t" | "?t < key" by linarith
    then show ?thesis
    proof cases
      case 1
      have "at_of (es ! j) < key \<longleftrightarrow> int j < ?i" if "j < length es" for j
        using lt [of j "nat ?i"] lt [of "nat ?i" j] that i 1
        by (cases j "nat ?i" rule: linorder_cases) (simp_all add: nat_less_iff zless_nat_eq_int_zless)
      moreover have "event_search_loop es key l u = ?i"
        using lu by (simp add: step Let_def 1 [symmetric])
      ultimately show ?thesis using i by (simp add: splits_at_def)
    next
      case 2
      have "key < at_of (es ! j)" if "j < length es" "?i - 1 < int j" for j
        using lt [of "nat ?i" j] that i 2
        by (cases j "nat ?i" rule: linorder_cases) (simp_all add: zless_nat_eq_int_zless)
      then have "splits_at es key (event_search_loop es key l (?i - 1))"
        using "1.IH"(1) [OF lu refl refl] 2 "1.prems" i by auto
      then show ?thesis using lu 2 by (simp add: step Let_def)
    next
      case 3
      have "at_of (es ! j) < key" if "j < length es" "int j < ?i + 1" for j
        using lt [of j "nat ?i"] that i 3
        by (cases j "nat ?i" rule: linorder_cases) (simp_all add: nat_less_iff)
      then have "splits_at es key (event_search_loop es key (?i + 1) u)"
        using "1.IH"(2) [OF lu refl refl] 3 "1.prems" i by auto
      then show ?thesis using lu 3 by (simp add: step Let_def)
    qed
  qed
qed

lemma event_search_splits: "events_ok es \<Longrightarrow> splits_at es key (event_search es key)"
  unfolding event_search_def by (rule event_search_loop_splits) auto

lemma splits_at_filter:
  assumes "splits_at es key k"
  shows "filter (\<lambda>v. at_of v < key) es = take (nat k) es"
    and "filter (\<lambda>v. key \<le> at_of v) es = drop (nat k) es"
proof -
  show "filter (\<lambda>v. at_of v < key) es = take (nat k) es"
    using filter_slice [of es "\<lambda>v. at_of v < key" 0 "nat k"] assms
    by (simp add: splits_at_def zless_nat_eq_int_zless)
  have "\<forall>i < length es. key \<le> at_of (es ! i) \<longleftrightarrow> nat k \<le> i \<and> i < length es"
    using assms by (auto simp: splits_at_def not_less [symmetric] zless_nat_eq_int_zless)
  from filter_slice [OF this] show "filter (\<lambda>v. key \<le> at_of v) es = drop (nat k) es" by simp
qed

lemma get_events_window:
  assumes "events_ok es"
  shows "get_events es start finish =
    filter (\<lambda>v. start \<le> at_of v)
      (filter (\<lambda>v. at_of v < finish) es @ take 1 (filter (\<lambda>v. finish \<le> at_of v) es))"
proof -
  define s e where "s = event_search es start" and "e = event_search es finish"
  have s: "splits_at es start s" and e: "splits_at es finish e"
    using event_search_splits [OF assms] by (simp_all add: s_def e_def)
  have "get_events es start finish = drop (nat s) (take (Suc (nat e)) es)"
    using s e slice_nonneg [of es "nat s" "Suc (nat e)"]
    by (simp add: get_events_def splits_at_def s_def e_def add.commute)
  also have "\<dots> = filter (\<lambda>v. start \<le> at_of v) (take (Suc (nat e)) es)"
  proof -
    have "\<forall>i < length (take (Suc (nat e)) es).
        start \<le> at_of (take (Suc (nat e)) es ! i) \<longleftrightarrow> nat s \<le> i \<and> i < Suc (nat e)"
      using s by (auto simp: splits_at_def not_less [symmetric] zless_nat_eq_int_zless)
    from filter_slice [OF this] show ?thesis by simp
  qed
  also have "take (Suc (nat e)) es =
      filter (\<lambda>v. at_of v < finish) es @ take 1 (filter (\<lambda>v. finish \<le> at_of v) es)"
    using splits_at_filter [OF e] by (simp add: take_add [of "nat e" 1, simplified])
  finally show ?thesis .
qed

section \<open>What \<open>read_data\<close> builds\<close>

text \<open>The object with a name, a new one if there is none.\<close>

definition item_at :: "('a \<Rightarrow> string) \<Rightarrow> (string \<Rightarrow> 'a) \<Rightarrow> string \<Rightarrow> 'a list \<Rightarrow> 'a" where
  "item_at name_of fresh n xs = (case lookup_name name_of n xs of None \<Rightarrow> fresh n | Some x \<Rightarrow> x)"

context named_items
begin

lemma item_at_modify:
  assumes "get n xs = (i, ys)" and "\<And>x. name_of (f x) = name_of x"
  shows "item_at name_of fresh m (modify_nth i f ys) =
    (if m = n then f (item_at name_of fresh n xs) else item_at name_of fresh m xs)"
  using lookup_modify [where f = f and m = m, OF assms]
  by (simp add: item_at_def split: option.splits)

lemma item_at_map:
  assumes "\<And>x. name_of (f x) = name_of x" and "f (fresh n) = fresh n"
  shows "item_at name_of fresh n (map f xs) = f (item_at name_of fresh n xs)"
  using assms by (induction xs) (auto simp: item_at_def lookup_name_def)

end

definition ranges_at :: "string \<Rightarrow> string \<Rightarrow> timeline list \<Rightarrow> data_range list" where
  "ranges_at t n ts =
     tr_ranges (item_at tr_name new_range n (tl_ranges (item_at tl_name new_timeline t ts)))"

definition str_events_at :: "string \<Rightarrow> string \<Rightarrow> timeline list \<Rightarrow> event list" where
  "str_events_at t n ts =
     te_events (item_at te_name new_event n (tl_event_str (item_at tl_name new_timeline t ts)))"

definition int_events_at :: "string \<Rightarrow> string \<Rightarrow> timeline list \<Rightarrow> event list" where
  "int_events_at t n ts =
     te_events (item_at te_name new_event n (tl_event_int (item_at tl_name new_timeline t ts)))"

text \<open>The entries the lines of a file give for a time line and a name, in the order of the file.\<close>

definition range_entries :: "string \<Rightarrow> string \<Rightarrow> data_line list \<Rightarrow> data_range list" where
  "range_entries t n ls = concat (map (\<lambda>d. case d of
     RangeLine t' n' v s e \<Rightarrow>
       if t' = t \<and> n' = n then [\<lparr>dr_start = s, dr_end = e, dr_value = v\<rparr>] else []
   | _ \<Rightarrow> []) ls)"

definition str_entries :: "string \<Rightarrow> string \<Rightarrow> data_line list \<Rightarrow> event list" where
  "str_entries t n ls = concat (map (\<lambda>d. case d of
     StrLine t' n' v a \<Rightarrow> if t' = t \<and> n' = n then [\<lparr>ev_at = a, ev_value = StrValue v\<rparr>] else []
   | _ \<Rightarrow> []) ls)"

definition int_entries :: "string \<Rightarrow> string \<Rightarrow> data_line list \<Rightarrow> event list" where
  "int_entries t n ls = concat (map (\<lambda>d. case d of
     IntLine t' n' v a \<Rightarrow> if t' = t \<and> n' = n then [\<lparr>ev_at = a, ev_value = IntValue v\<rparr>] else []
   | _ \<Rightarrow> []) ls)"

lemma names_kept [simp]:
  "tr_name (add_range r x) = tr_name x" "te_name (add_event e y) = te_name y"
  "tr_name (range_sort x) = tr_name x" "te_name (event_sort y) = te_name y"
  "tl_name (timeline_sort t) = tl_name t" "tl_name (in_range_list n f t) = tl_name t"
  "tl_name (in_event_str n g t) = tl_name t" "tl_name (in_event_int n g t) = tl_name t"
  by (simp_all add: add_range_def add_event_def range_sort_def event_sort_def timeline_sort_def
      in_range_list_def in_event_str_def in_event_int_def split: prod.splits)

lemma in_range_list_at:
  "item_at tr_name new_range m (tl_ranges (in_range_list n (add_range r) t)) =
     (if m = n then add_range r (item_at tr_name new_range n (tl_ranges t))
      else item_at tr_name new_range m (tl_ranges t))"
  "tl_event_str (in_range_list n f t) = tl_event_str t"
  "tl_event_int (in_range_list n f t) = tl_event_int t"
  by (simp_all add: in_range_list_def range_items.item_at_modify split: prod.split)

lemma in_event_str_at:
  "item_at te_name new_event m (tl_event_str (in_event_str n (add_event e) t)) =
     (if m = n then add_event e (item_at te_name new_event n (tl_event_str t))
      else item_at te_name new_event m (tl_event_str t))"
  "tl_ranges (in_event_str n g t) = tl_ranges t" "tl_event_int (in_event_str n g t) = tl_event_int t"
  by (simp_all add: in_event_str_def event_items.item_at_modify split: prod.split)

lemma in_event_int_at:
  "item_at te_name new_event m (tl_event_int (in_event_int n (add_event e) t)) =
     (if m = n then add_event e (item_at te_name new_event n (tl_event_int t))
      else item_at te_name new_event m (tl_event_int t))"
  "tl_ranges (in_event_int n g t) = tl_ranges t" "tl_event_str (in_event_int n g t) = tl_event_str t"
  by (simp_all add: in_event_int_def event_items.item_at_modify split: prod.split)

lemma in_timeline_at:
  assumes "\<And>x. tl_name (f x) = tl_name x"
  shows "item_at tl_name new_timeline m (in_timeline n f ts) =
    (if m = n then f (item_at tl_name new_timeline n ts) else item_at tl_name new_timeline m ts)"
  using assms
  by (cases "timelines_get n ts") (simp add: in_timeline_def line_items.item_at_modify)

lemmas items_at = ranges_at_def str_events_at_def int_events_at_def in_timeline_at in_range_list_at
  in_event_str_at in_event_int_at

lemma add_data_line_at:
  "ranges_at t n (snd (add_data_line d st)) = ranges_at t n (snd st) @ range_entries t n [d]"
  "str_events_at t n (snd (add_data_line d st)) = str_events_at t n (snd st) @ str_entries t n [d]"
  "int_events_at t n (snd (add_data_line d st)) = int_events_at t n (snd st) @ int_entries t n [d]"
  by (cases st; cases d;
      auto simp: add_data_line_def items_at range_entries_def str_entries_def int_entries_def
        add_range_def add_event_def)+

lemma add_data_lines_at:
  "ranges_at t n (snd (fold add_data_line ds st)) = ranges_at t n (snd st) @ range_entries t n ds"
  "str_events_at t n (snd (fold add_data_line ds st)) = str_events_at t n (snd st) @ str_entries t n ds"
  "int_events_at t n (snd (fold add_data_line ds st)) = int_events_at t n (snd st) @ int_entries t n ds"
  by (induction ds arbitrary: st)
    (simp_all add: add_data_line_at range_entries_def str_entries_def int_entries_def)

text \<open>Names are unique on every level, and after sorting every list is in order of time.\<close>

definition names_ok :: "timeline \<Rightarrow> bool" where
  "names_ok t \<longleftrightarrow> distinct (map tr_name (tl_ranges t)) \<and> distinct (map te_name (tl_event_str t)) \<and>
     distinct (map te_name (tl_event_int t))"

definition in_order :: "timeline \<Rightarrow> bool" where
  "in_order t \<longleftrightarrow> list_all (\<lambda>r. sorted (map dr_start (tr_ranges r))) (tl_ranges t) \<and>
     list_all (\<lambda>e. sorted (map ev_at (te_events e))) (tl_event_str t) \<and>
     list_all (\<lambda>e. sorted (map ev_at (te_events e))) (tl_event_int t)"

definition timelines_ok :: "timeline list \<Rightarrow> bool" where
  "timelines_ok ts \<longleftrightarrow> distinct (map tl_name ts) \<and> list_all (\<lambda>t. names_ok t \<and> in_order t) ts"

lemma names_ok_in:
  "names_ok t \<Longrightarrow> names_ok (in_range_list n (add_range r) t)"
  "names_ok t \<Longrightarrow> names_ok (in_event_str n (add_event e) t)"
  "names_ok t \<Longrightarrow> names_ok (in_event_int n (add_event e) t)"
  by (auto simp: names_ok_def in_range_list_def in_event_str_def in_event_int_def
      intro: range_items.distinct_modify event_items.distinct_modify split: prod.split)

lemma names_ok_new: "names_ok (new_timeline n)"
  by (simp add: names_ok_def new_timeline_def)

lemma in_timeline_names:
  assumes "list_all names_ok ts" and "distinct (map tl_name ts)"
    and "\<And>x. tl_name (f x) = tl_name x" and "\<And>x. names_ok x \<Longrightarrow> names_ok (f x)"
  shows "list_all names_ok (in_timeline n f ts) \<and> distinct (map tl_name (in_timeline n f ts))"
proof (cases "timelines_get n ts")
  case (Pair i ys)
  then show ?thesis
    using line_items.items_modify [where P = names_ok and f = f, OF Pair assms(1) names_ok_new assms(4)]
      line_items.distinct_modify [where f = f, OF Pair assms(3,2)]
    by (simp add: in_timeline_def)
qed

lemma add_data_line_names:
  assumes "list_all names_ok (snd st)" and "distinct (map tl_name (snd st))"
  shows "list_all names_ok (snd (add_data_line d st)) \<and> distinct (map tl_name (snd (add_data_line d st)))"
proof -
  obtain cs ts where st: "st = (cs, ts)" by (cases st)
  note in_ts = in_timeline_names [OF assms [unfolded st snd_conv]]
  show ?thesis using assms
    by (cases d) (simp_all add: st add_data_line_def in_ts names_ok_in)
qed

lemma add_data_lines_names:
  "list_all names_ok (snd st) \<Longrightarrow> distinct (map tl_name (snd st)) \<Longrightarrow>
   list_all names_ok (snd (fold add_data_line ds st)) \<and> distinct (map tl_name (snd (fold add_data_line ds st)))"
proof (induction ds arbitrary: st)
  case (Cons d ds)
  then show ?case using Cons.IH [of "add_data_line d st"] add_data_line_names [OF Cons.prems] by simp
qed simp

lemma timeline_sort_names: "names_ok t \<Longrightarrow> names_ok (timeline_sort t)"
  by (simp add: names_ok_def timeline_sort_def comp_def)

lemma timeline_sort_order: "in_order (timeline_sort t)"
  by (simp add: in_order_def timeline_sort_def range_sort_def event_sort_def sort_ranges sort_events
      list.pred_map comp_def list_all_iff)

section \<open>Colors of the ranges\<close>

text \<open>The loop of \<open>main\<close> that gives every value of a range a color.\<close>

fun lookup_all :: "string list \<Rightarrow> colors \<Rightarrow> (color option list \<times> colors) result" where
  "lookup_all [] cs = Inr ([], cs)"
| "lookup_all (name # names) cs =
     rbind (color_lookup name cs) (\<lambda>(c, cs).
     rbind (lookup_all names cs) (\<lambda>(range_colors, cs). Inr (c # range_colors, cs)))"

definition colored :: "colors \<Rightarrow> string set" where
  "colored cs = set (dict_keys (color_dict cs))"

definition uncolored :: "string list \<Rightarrow> colors \<Rightarrow> string list" where
  "uncolored names cs = filter (\<lambda>n. n \<notin> colored cs) names"

lemma color_lookup_cases:
  "color_lookup n cs =
     (if n \<in> colored cs then Inr (dict_get (color_dict cs) n, cs)
      else if default_colors cs = [] then Inl IndexError
      else Inr (Some (last (default_colors cs)),
                add_color n (last (default_colors cs)) (cs\<lparr>default_colors := butlast (default_colors cs)\<rparr>)))"
  by (simp add: color_lookup_def add_color_def update_conv' colored_def)

lemma colored_add: "colored (add_color n c cs) = insert n (colored cs)"
  by (simp add: colored_def add_color_def pd.keys_put)

lemma colored_defaults [simp]: "colored (cs\<lparr>default_colors := ds\<rparr>) = colored cs"
  by (simp add: colored_def)

lemma lookup_all_cases:
  "distinct names \<Longrightarrow>
   if length (uncolored names cs) \<le> length (default_colors cs)
   then \<exists>range_colors cs'. lookup_all names cs = Inr (range_colors, cs') \<and>
     colored cs' = colored cs \<union> set names
   else lookup_all names cs = Inl IndexError"
proof (induction names arbitrary: cs)
  case (Cons n names)
  show ?case
  proof (cases "n \<in> colored cs \<or> default_colors cs = []")
    case True
    then show ?thesis
      using Cons.IH [of cs] Cons.prems
      by (auto simp: color_lookup_cases uncolored_def insert_absorb split: if_splits)
  next
    case False
    define cs' where "cs' = add_color n (last (default_colors cs))
      (cs\<lparr>default_colors := butlast (default_colors cs)\<rparr>)"
    have keys: "colored cs' = insert n (colored cs)" by (simp add: cs'_def colored_add)
    have "uncolored names cs' = uncolored names cs"
      unfolding uncolored_def keys using Cons.prems by (auto intro!: filter_cong)
    moreover have "Suc (length (default_colors cs')) = length (default_colors cs)"
      using False by (simp add: cs'_def add_color_def)
    moreover have "color_lookup n cs = Inr (Some (last (default_colors cs)), cs')"
      using False by (simp add: color_lookup_cases cs'_def)
    ultimately show ?thesis
      using Cons.IH [of cs'] Cons.prems False keys by (auto simp: uncolored_def split: if_splits)
  qed
qed (simp add: uncolored_def)

section \<open>Bounds\<close>

lemma fold_widen:
  assumes "fold widen bs b = (lo, hi)"
  shows "lo \<le> fst b" and "snd b \<le> hi" and "x \<in> set bs \<Longrightarrow> lo \<le> fst x \<and> snd x \<le> hi"
proof -
  have "lo \<le> fst b \<and> snd b \<le> hi \<and> list_all (\<lambda>x. lo \<le> fst x \<and> snd x \<le> hi) bs"
    using assms
  proof (induction bs arbitrary: b)
    case (Cons c bs)
    from Cons.IH [of "widen c b"] Cons.prems show ?case
      by (auto simp: widen_def split: prod.splits if_splits)
  qed simp
  then show "lo \<le> fst b" "snd b \<le> hi" "x \<in> set bs \<Longrightarrow> lo \<le> fst x \<and> snd x \<le> hi"
    by (auto simp: list_all_iff)
qed

lemma ranges_bounds_cover:
  assumes "ranges_ok (tr_ranges t)" and "r \<in> set (tr_ranges t)"
  shows "fst (range_bounds t) \<le> dr_start r \<and> dr_end r \<le> snd (range_bounds t)"
proof -
  let ?rs = "tr_ranges t"
  obtain i where i: "i < length ?rs" "?rs ! i = r" using assms(2) by (auto simp: in_set_conv_nth)
  have ne: "?rs \<noteq> []" using assms(2) by auto
  have 1: "dr_start (?rs ! 0) \<le> dr_start (?rs ! i)"
    using ranges_ok_nth [OF assms(1), of 0] i(1) ne by (cases "i = 0") (force simp: lo_of_def hi_of_def)+
  have 2: "dr_end (?rs ! i) \<le> dr_end (?rs ! (length ?rs - 1))"
    using ranges_ok_nth(2) [OF assms(1) i(1), of "length ?rs - 1"]
      ranges_ok_nth(1) [OF assms(1), of "length ?rs - 1"] i(1)
    by (cases "i = length ?rs - 1") (force simp: lo_of_def hi_of_def)+
  show ?thesis using 1 2 i(2) ne by (simp add: range_bounds_def hd_conv_nth last_conv_nth)
qed

lemma events_bounds_cover:
  assumes "sorted (map ev_at (te_events t))" and "e \<in> set (te_events t)"
  shows "fst (event_bounds t) \<le> ev_at e \<and> ev_at e \<le> snd (event_bounds t)"
proof -
  let ?es = "te_events t"
  obtain i where i: "i < length ?es" "?es ! i = e" using assms(2) by (auto simp: in_set_conv_nth)
  have ne: "?es \<noteq> []" using assms(2) by auto
  have "ev_at (?es ! 0) \<le> ev_at (?es ! i)" "ev_at (?es ! i) \<le> ev_at (?es ! (length ?es - 1))"
    using assms(1) i(1) by (auto simp: sorted_iff_nth_mono)
  then show ?thesis using i(2) ne by (simp add: event_bounds_def hd_conv_nth last_conv_nth)
qed

lemma item_at_member:
  "item_at name_of fresh n xs = fresh n \<or> item_at name_of fresh n xs \<in> set xs"
  by (auto simp: item_at_def lookup_name_def find_Some_iff split: option.splits)

lemma timelines_bounds_line:
  assumes "timelines_bounds ts = (lo, hi)" and "t \<in> set ts"
    and "b \<in> set (map range_bounds (tl_ranges t) @ map event_bounds (tl_event_str t) @
      map event_bounds (tl_event_int t))"
  shows "lo \<le> fst b \<and> snd b \<le> hi"
proof -
  obtain l h where lh: "timeline_bounds t = (l, h)" by fastforce
  have "(l, h) \<in> set (map timeline_bounds ts)"
    using assms(2) lh by (metis image_eqI list.set_map)
  then have "lo \<le> l \<and> h \<le> hi"
    using fold_widen(3) [OF assms(1) [unfolded timelines_bounds_def], of "(l, h)"] by simp
  moreover have "l \<le> fst b \<and> snd b \<le> h"
    using fold_widen(3) [OF lh [unfolded timeline_bounds_def] assms(3)] .
  ultimately show ?thesis by auto
qed

lemma timelines_bounds_zero:
  assumes "timelines_bounds ts = (lo, hi)"
  shows "lo \<le> 0 \<and> 0 \<le> hi"
  using fold_widen(1,2) [OF assms [unfolded timelines_bounds_def]] by simp

lemma timelines_bounds_ranges:
  assumes "timelines_bounds ts = (lo, hi)" and "ranges_ok (ranges_at t n ts)"
    and "r \<in> set (ranges_at t n ts)"
  shows "lo \<le> dr_start r \<and> dr_end r \<le> hi"
proof -
  let ?t = "item_at tl_name new_timeline t ts"
  let ?rs = "item_at tr_name new_range n (tl_ranges ?t)"
  have "?rs \<in> set (tl_ranges ?t)"
    using item_at_member [of tr_name new_range n "tl_ranges ?t"] assms(3)
    by (auto simp: ranges_at_def new_range_def)
  moreover from this have "?t \<in> set ts"
    using item_at_member [of tl_name new_timeline t ts] by (auto simp: new_timeline_def)
  ultimately have "lo \<le> fst (range_bounds ?rs) \<and> snd (range_bounds ?rs) \<le> hi"
    using timelines_bounds_line [OF assms(1)] by simp
  then show ?thesis
    using ranges_bounds_cover [of ?rs r] assms(2,3) by (auto simp: ranges_at_def)
qed

lemma timelines_bounds_events:
  assumes "timelines_bounds ts = (lo, hi)" and "list_all in_order ts"
    and "e \<in> set (str_events_at t n ts) \<union> set (int_events_at t n ts)"
  shows "lo \<le> ev_at e \<and> ev_at e \<le> hi"
proof -
  let ?t = "item_at tl_name new_timeline t ts"
  obtain x where x: "x \<in> set (tl_event_str ?t @ tl_event_int ?t)" "e \<in> set (te_events x)"
    using assms(3) item_at_member [of te_name new_event n "tl_event_str ?t"]
      item_at_member [of te_name new_event n "tl_event_int ?t"]
    by (auto simp: str_events_at_def int_events_at_def new_event_def)
  then have t: "?t \<in> set ts"
    using item_at_member [of tl_name new_timeline t ts] by (auto simp: new_timeline_def)
  have "lo \<le> fst (event_bounds x) \<and> snd (event_bounds x) \<le> hi"
    using timelines_bounds_line [OF assms(1) t, of "event_bounds x"] x(1) by auto
  moreover have "sorted (map ev_at (te_events x))"
    using assms(2) t x(1) by (auto simp: list_all_iff in_order_def)
  ultimately show ?thesis using events_bounds_cover [OF _ x(2)] by force
qed

lemma sort_at:
  "ranges_at t n (timelines_sort ts) = sort_key dr_start (ranges_at t n ts)"
  "str_events_at t n (timelines_sort ts) = sort_key ev_at (str_events_at t n ts)"
  "int_events_at t n (timelines_sort ts) = sort_key ev_at (int_events_at t n ts)"
proof -
  have t: "item_at tl_name new_timeline t (timelines_sort ts) =
      timeline_sort (item_at tl_name new_timeline t ts)"
    unfolding timelines_sort_def
    by (rule line_items.item_at_map) (simp_all add: timeline_sort_def new_timeline_def)
  have r: "item_at tr_name new_range n (map range_sort rs) = range_sort (item_at tr_name new_range n rs)"
    for rs by (rule range_items.item_at_map) (simp_all add: range_sort_def new_range_def sort_ranges)
  have e: "item_at te_name new_event n (map event_sort es) = event_sort (item_at te_name new_event n es)"
    for es by (rule event_items.item_at_map) (simp_all add: event_sort_def new_event_def sort_events)
  show "ranges_at t n (timelines_sort ts) = sort_key dr_start (ranges_at t n ts)"
    "str_events_at t n (timelines_sort ts) = sort_key ev_at (str_events_at t n ts)"
    "int_events_at t n (timelines_sort ts) = sort_key ev_at (int_events_at t n ts)"
    by (simp_all add: ranges_at_def str_events_at_def int_events_at_def t timeline_sort_def r e
        range_sort_def event_sort_def sort_ranges sort_events)
qed

section \<open>Properties\<close>

text \<open>C18:
  \<open>read_data\<close> loses, invents and misplaces nothing: under every pair of names it holds exactly the
  ranges and events the matching lines of the file give to these names, sorted by time, and
  entries with the same time keep the order of the file.
\<close>
theorem read_data_correct:
  "case read_data lines of (cs, ts) \<Rightarrow>
     ranges_at t n ts = sort_key dr_start (range_entries t n (map parse_data_line lines)) \<and>
     str_events_at t n ts = sort_key ev_at (str_entries t n (map parse_data_line lines)) \<and>
     int_events_at t n ts = sort_key ev_at (int_entries t n (map parse_data_line lines))"
proof -
  have "ranges_at t n [] = []" "str_events_at t n [] = []" "int_events_at t n [] = []"
    by (simp_all add: ranges_at_def str_events_at_def int_events_at_def item_at_def lookup_name_def
        new_timeline_def new_range_def new_event_def)
  then show ?thesis
    using add_data_lines_at [of t n "map parse_data_line lines" "(new_colors, [])"]
    by (cases "fold add_data_line (map parse_data_line lines) (new_colors, [])")
      (simp add: read_data_def sort_at)
qed

lemma read_data_ok: "timelines_ok (snd (read_data lines))"
proof -
  obtain cs ts where st: "fold add_data_line (map parse_data_line lines) (new_colors, []) = (cs, ts)"
    by fastforce
  have "list_all names_ok ts \<and> distinct (map tl_name ts)"
    using add_data_lines_names [of "(new_colors, [])" "map parse_data_line lines"] by (simp add: st)
  then show ?thesis
    by (simp add: read_data_def st timelines_ok_def timelines_sort_def list.pred_map comp_def
        timeline_sort_order list_all_iff timeline_sort_names)
qed

text \<open>C20:
  The objects \<open>read_data\<close> returns are well formed: no two time lines, and no two lists of a time
  line, have the same name, so that a lookup by name reaches every one of them, and every list is
  sorted.
\<close>
theorem read_data_well_formed: "timelines_ok (snd (read_data lines))"
  by (rule read_data_ok)

text \<open>For ranges that are in order and apart, the binary search of \<open>get_ranges\<close> makes it return the
  ranges that meet the window, if both ends of the window lie in ranges; an end outside of every
  range puts no limit on its side, and if both lie outside nothing is returned, even if there are
  ranges between them.
\<close>
theorem get_ranges_correct:
  assumes "ranges_ok rs" and "start \<le> finish"
  shows "get_ranges rs start finish =
    (if list_ex (\<lambda>r. covers r start) rs \<and> list_ex (\<lambda>r. covers r finish) rs
     then filter (\<lambda>r. start \<le> hi_of r \<and> lo_of r \<le> finish) rs
     else if list_ex (\<lambda>r. covers r start) rs then filter (\<lambda>r. start \<le> hi_of r) rs
     else if list_ex (\<lambda>r. covers r finish) rs then filter (\<lambda>r. lo_of r \<le> finish) rs
     else [])"
  using get_ranges_window [OF assms(1), of start finish]
  by (auto simp: in_window_def list_ex_iff intro!: filter_cong)

definition demo_ranges :: "data_range list" where
  "demo_ranges = map (\<lambda>(s, e). \<lparr>dr_start = s, dr_end = e, dr_value = ''v''\<rparr>) [(0, 9), (20, 29), (40, 49)]"

theorem get_ranges_correct_witness:
  "get_ranges demo_ranges 25 45 = drop 1 demo_ranges \<and> get_ranges demo_ranges 10 30 = []"
proof -
  have "ranges_ok demo_ranges" by (simp add: demo_ranges_def ranges_ok_def)
  then show ?thesis
    using get_ranges_correct [of demo_ranges 25 45] get_ranges_correct [of demo_ranges 10 30]
    by (simp add: demo_ranges_def covers_def lo_of_def hi_of_def)
qed

text \<open>For events with different times in order, \<open>get_events\<close> returns those from \<open>start\<close> on that are
  before \<open>finish\<close> and the next one after them, at \<open>finish\<close> or later.
\<close>
theorem get_events_correct:
  assumes "events_ok es" and "start \<le> finish"
  shows "get_events es start finish =
    filter (\<lambda>v. start \<le> at_of v \<and> at_of v < finish) es @ take 1 (filter (\<lambda>v. finish \<le> at_of v) es)"
proof -
  have "filter (\<lambda>v. start \<le> at_of v) (take 1 (filter (\<lambda>v. finish \<le> at_of v) es)) =
      take 1 (filter (\<lambda>v. finish \<le> at_of v) es)"
    using assms(2) by (auto intro!: filter_True dest!: in_set_takeD)
  then show ?thesis by (simp add: get_events_window [OF assms(1)] conj_commute)
qed

definition demo_events :: "event list" where
  "demo_events = map (\<lambda>a. \<lparr>ev_at = a, ev_value = IntValue a\<rparr>) [1, 5, 8, 12, 20]"

theorem get_events_correct_witness: "map ev_at (get_events demo_events 4 10) = [5, 8, 12]"
  using get_events_correct [of demo_events 4 10]
  by (simp add: demo_events_def events_ok_def at_of_def)

text \<open>
  The bounds \<open>main\<close> gives to the renderer contain 0, every event, and every range of a list whose
  ranges lie apart.
\<close>
theorem bounds_cover:
  assumes "read_data lines = (cs, ts)" and "timelines_bounds ts = (lo, hi)"
    and "ranges_ok (ranges_at t n ts)"
  shows "lo \<le> 0 \<and> 0 \<le> hi \<and>
    list_all (\<lambda>r. lo \<le> dr_start r \<and> dr_end r \<le> hi) (ranges_at t n ts) \<and>
    list_all (\<lambda>e. lo \<le> ev_at e \<and> ev_at e \<le> hi) (str_events_at t n ts @ int_events_at t n ts)"
proof -
  have "list_all in_order ts"
    using read_data_ok [of lines] assms(1) by (simp add: timelines_ok_def list_all_iff)
  then show ?thesis
    using timelines_bounds_zero [OF assms(2)] timelines_bounds_ranges [OF assms(2,3)]
      timelines_bounds_events [OF assms(2), of _ t n]
    by (simp add: list_all_iff)
qed

definition demo_lines :: "string list" where
  "demo_lines = [''range n1 state idle 3 9'', ''event-int n1 rx 7 12'', ''color busy #ff0000'']"

theorem bounds_cover_witness:
  "\<exists>cs ts. read_data demo_lines = (cs, ts) \<and> timelines_bounds ts = (0, 12) \<and>
     ranges_at ''n1'' ''state'' ts = [\<lparr>dr_start = 3, dr_end = 9, dr_value = ''idle''\<rparr>] \<and>
     (0::int) \<le> 0 \<and> (0::int) \<le> 12 \<and>
     list_all (\<lambda>r. 0 \<le> dr_start r \<and> dr_end r \<le> 12) (ranges_at ''n1'' ''state'' ts)"
proof -
  define cs ts where "cs = fst (read_data demo_lines)" and "ts = snd (read_data demo_lines)"
  have 1: "read_data demo_lines = (cs, ts)" by (simp add: cs_def ts_def)
  have 2: "timelines_bounds ts = (0, 12)" unfolding ts_def by code_simp
  have 3: "ranges_at ''n1'' ''state'' ts = [\<lparr>dr_start = 3, dr_end = 9, dr_value = ''idle''\<rparr>]"
    unfolding ts_def by code_simp
  have "ranges_ok (ranges_at ''n1'' ''state'' ts)" by (simp add: 3 ranges_ok_def)
  from bounds_cover [OF 1 2 this] show ?thesis using 1 2 3 by blast
qed

text \<open>
  Giving the values of all ranges a color succeeds exactly if the values without a color of their
  own are not more than the default colors; otherwise it raises \<open>IndexError\<close>. When it succeeds,
  every value has a color from then on.
\<close>
theorem colors_suffice:
  assumes "distinct names"
  shows "if length (uncolored names cs) \<le> length (default_colors cs)
    then \<exists>range_colors cs'. lookup_all names cs = Inr (range_colors, cs') \<and>
      colored cs' = colored cs \<union> set names
    else lookup_all names cs = Inl IndexError"
  by (rule lookup_all_cases [OF assms])

theorem colors_suffice_witness:
  "lookup_all [''a'', ''b'', ''c'', ''d'', ''e'', ''f'', ''g''] new_colors = Inl IndexError"
  using colors_suffice [of "[''a'', ''b'', ''c'', ''d'', ''e'', ''f'', ''g'']" new_colors]
  by (simp add: new_colors_def uncolored_def colored_def)

end
