(* ===== verification/PyNum.thy ===== *)
theory PyNum
  imports Prelude Complex_Main
begin

text \<open>
  The numbers of Python 2 the drawing code mixes: unbounded integers and floats. An operation on
  two integers gives an integer, and its division is floor division; otherwise the result is a
  float. A float is an exact rational number here: rounding is not modelled. Comparisons go by
  value, so \<open>1\<close> and \<open>1.0\<close> are equal for the code but different objects.
\<close>

datatype pynum = PInt int | PFloat rat

fun num_val :: "pynum \<Rightarrow> rat" where
  "num_val (PInt i) = of_int i"
| "num_val (PFloat q) = q"

fun is_int :: "pynum \<Rightarrow> bool" where
  "is_int (PInt i) = True"
| "is_int (PFloat q) = False"

definition arith :: "(int \<Rightarrow> int \<Rightarrow> int) \<Rightarrow> (rat \<Rightarrow> rat \<Rightarrow> rat) \<Rightarrow> pynum \<Rightarrow> pynum \<Rightarrow> pynum" where
  "arith f g x y =
     (case (x, y) of (PInt i, PInt j) \<Rightarrow> PInt (f i j) | _ \<Rightarrow> PFloat (g (num_val x) (num_val y)))"

instantiation pynum :: "{zero, one, plus, minus, times}"
begin

definition zero_pynum :: pynum where
  "zero_pynum = PInt 0"

definition one_pynum :: pynum where
  "one_pynum = PInt 1"

definition plus_pynum :: "pynum \<Rightarrow> pynum \<Rightarrow> pynum" where
  "plus_pynum = arith (+) (+)"

definition minus_pynum :: "pynum \<Rightarrow> pynum \<Rightarrow> pynum" where
  "minus_pynum = arith (-) (-)"

definition times_pynum :: "pynum \<Rightarrow> pynum \<Rightarrow> pynum" where
  "times_pynum = arith (*) (*)"

instance ..

end

instantiation pynum :: preorder
begin

definition less_eq_pynum :: "pynum \<Rightarrow> pynum \<Rightarrow> bool" where
  "less_eq_pynum x y \<longleftrightarrow> num_val x \<le> num_val y"

definition less_pynum :: "pynum \<Rightarrow> pynum \<Rightarrow> bool" where
  "less_pynum x y \<longleftrightarrow> num_val x < num_val y"

instance
  by standard (auto simp: less_eq_pynum_def less_pynum_def)

end

instance pynum :: semigroup_add
  by standard (auto simp: plus_pynum_def arith_def split: pynum.splits)

instance pynum :: numeral ..

lemma PInt_arith [simp]:
  "PInt i + PInt j = PInt (i + j)" "PInt i - PInt j = PInt (i - j)" "PInt i * PInt j = PInt (i * j)"
  by (simp_all add: plus_pynum_def minus_pynum_def times_pynum_def arith_def)

lemma numeral_pynum: "(numeral n :: pynum) = PInt (numeral n)"
proof (induction n)
  case One
  show ?case by (simp only: numeral.simps one_pynum_def)
next
  case (Bit0 n)
  show ?case by (simp only: numeral.simps Bit0 PInt_arith)
next
  case (Bit1 n)
  show ?case by (simp only: numeral.simps Bit1 PInt_arith one_pynum_def)
qed

lemma num_val_simps [simp]:
  "num_val 0 = 0" "num_val 1 = 1" "num_val (numeral n) = numeral n"
  "num_val (x + y) = num_val x + num_val y"
  "num_val (x - y) = num_val x - num_val y"
  "num_val (x * y) = num_val x * num_val y"
  by (auto simp: zero_pynum_def one_pynum_def numeral_pynum plus_pynum_def minus_pynum_def
      times_pynum_def arith_def split: pynum.splits)

lemma pynum_less [simp]:
  "x < y \<longleftrightarrow> num_val x < num_val y" "x \<le> y \<longleftrightarrow> num_val x \<le> num_val y" for x y :: pynum
  by (simp_all add: less_pynum_def less_eq_pynum_def)

lemma is_int_simps [simp]:
  "is_int 0" "is_int 1" "is_int (numeral n)"
  "is_int (x + y) \<longleftrightarrow> is_int x \<and> is_int y"
  "is_int (x - y) \<longleftrightarrow> is_int x \<and> is_int y"
  "is_int (x * y) \<longleftrightarrow> is_int x \<and> is_int y"
  by (auto simp: zero_pynum_def one_pynum_def numeral_pynum plus_pynum_def minus_pynum_def
      times_pynum_def arith_def split: pynum.splits)

text \<open>\<open>x == y\<close>\<close>

definition num_eq :: "pynum \<Rightarrow> pynum \<Rightarrow> bool" where
  "num_eq x y \<longleftrightarrow> num_val x = num_val y"

text \<open>\<open>x / y\<close> and \<open>x % y\<close>; the remainder has the sign of the divisor.\<close>

definition num_div :: "pynum \<Rightarrow> pynum \<Rightarrow> pynum result" where
  "num_div x y =
     (if num_val y = 0 then Inl ZeroDivisionError
      else Inr (case (x, y) of
                  (PInt i, PInt j) \<Rightarrow> PInt (i div j)
                | _ \<Rightarrow> PFloat (num_val x / num_val y)))"

definition num_mod :: "pynum \<Rightarrow> pynum \<Rightarrow> pynum result" where
  "num_mod x y =
     (if num_val y = 0 then Inl ZeroDivisionError
      else Inr (case (x, y) of
                  (PInt i, PInt j) \<Rightarrow> PInt (i mod j)
                | _ \<Rightarrow> PFloat (num_val x - of_int \<lfloor>num_val x / num_val y\<rfloor> * num_val y)))"

text \<open>The built-in \<open>max\<close> and \<open>min\<close> keep the first argument when both are equal.\<close>

definition num_max :: "pynum \<Rightarrow> pynum \<Rightarrow> pynum" where
  "num_max x y = (if x < y then y else x)"

definition num_min :: "pynum \<Rightarrow> pynum \<Rightarrow> pynum" where
  "num_min x y = (if y < x then y else x)"

text \<open>\<open>int(x)\<close> cuts off towards zero.\<close>

definition num_int :: "pynum \<Rightarrow> int" where
  "num_int x =
     (case x of PInt i \<Rightarrow> i | PFloat q \<Rightarrow> if q < 0 then \<lceil>q\<rceil> else \<lfloor>q\<rfloor>)"

definition num_abs :: "pynum \<Rightarrow> pynum" where
  "num_abs x = (case x of PInt i \<Rightarrow> PInt \<bar>i\<bar> | PFloat q \<Rightarrow> PFloat \<bar>q\<bar>)"

definition to_float :: "pynum \<Rightarrow> pynum" where
  "to_float x = PFloat (num_val x)"

lemma num_val_max [simp]: "num_val (num_max x y) = max (num_val x) (num_val y)"
  by (simp add: num_max_def)

lemma num_val_min [simp]: "num_val (num_min x y) = min (num_val x) (num_val y)"
  by (simp add: num_min_def)

lemma num_val_abs [simp]: "num_val (num_abs x) = \<bar>num_val x\<bar>"
  by (simp add: num_abs_def split: pynum.split)

lemma num_val_float [simp]: "num_val (to_float x) = num_val x"
  by (simp add: to_float_def)

lemma floor_div_int: "\<lfloor>rat_of_int i / rat_of_int j\<rfloor> = i div j"
  by (rule floor_divide_of_int_eq)

lemma num_mod_val:
  "num_mod x y = Inr r \<Longrightarrow> num_val r = num_val x - of_int \<lfloor>num_val x / num_val y\<rfloor> * num_val y"
  by (auto simp: num_mod_def floor_div_int minus_mult_div_eq_mod [symmetric] mult.commute
      split: if_splits pynum.splits)

lemma num_div_float: "num_div x y = Inr (PFloat q) \<Longrightarrow> q = num_val x / num_val y"
  by (auto simp: num_div_def split: if_splits pynum.splits)

lemma num_div_Inl: "num_div x y = Inl e \<longleftrightarrow> num_val y = 0 \<and> e = ZeroDivisionError"
  by (auto simp: num_div_def)

lemma num_mod_Inl: "num_mod x y = Inl e \<longleftrightarrow> num_val y = 0 \<and> e = ZeroDivisionError"
  by (auto simp: num_mod_def)

lemma num_int_of_int: "num_val x = of_int i \<Longrightarrow> num_int x = i"
  by (auto simp: num_int_def split: pynum.split)

text \<open>Division by a number that is not zero cannot fail.\<close>

definition half :: "pynum \<Rightarrow> pynum" where
  "half x = (case x of PInt i \<Rightarrow> PInt (i div 2) | PFloat q \<Rightarrow> PFloat (q / 2))"

lemma num_div_half: "num_div x 2 = Inr (half x)"
  by (auto simp: num_div_def half_def numeral_pynum split: pynum.split)

end
