(* ===== verification/GridRender.thy ===== *)
theory GridRender
  imports GridData PyNum
begin

text \<open>
  The renderers of \<open>src/utils/grid.py\<close>: \<open>TopLegendRenderer\<close>, \<open>TimelinesRenderer\<close> and
  \<open>ScaleRenderer\<close>, with their layout and everything they draw, as the list of calls on the cairo
  context. The size cairo gives for a text is an argument. The program sets every attribute of a
  renderer before it is read, so attributes are plain fields.
\<close>

section \<open>Drawing\<close>

datatype draw_op =
    MoveTo pynum pynum | LineTo pynum pynum | RelLineTo pynum pynum | ClosePath
  | Rectangle pynum pynum pynum pynum | SetOperatorSource | SetLineWidth pynum
  | SetSourceRgb pynum pynum pynum | Stroke | StrokePreserve | Fill | ShowText string
  | Save | Restore | Translate pynum pynum | SetDash

text \<open>\<open>ctx.text_extents\<close>: the y bearing, the width and the height of a text.\<close>

record extents =
  y_bearing :: rat
  t_width :: rat
  t_height :: rat

type_synonym text_extents = "string \<Rightarrow> extents"

definition black :: draw_op where
  "black = SetSourceRgb 0 0 0"

definition grey :: draw_op where
  "grey = SetSourceRgb (PFloat (9 / 10)) (PFloat (9 / 10)) (PFloat (9 / 10))"

definition source_color :: "color \<Rightarrow> draw_op" where
  "source_color c = SetSourceRgb (PInt (red c)) (PInt (green c)) (PInt (blue c))"

definition sample_text :: string where
  "sample_text = ''ABCDEFGHIJKLMNOPQRSTUVWXYZabcedefghijklmnopqrstuvwxyz0123456789''"

section \<open>\<open>TopLegendRenderer\<close>\<close>

record legend_renderer =
  lg_padding :: pynum
  lg_legends :: "string list"
  lg_colors :: "color option list"
  lg_width :: pynum
  lg_height :: pynum

definition new_legend :: legend_renderer where
  "new_legend = \<lparr>lg_padding = 10, lg_legends = [], lg_colors = [], lg_width = 0, lg_height = 0\<rparr>"

definition set_padding :: "pynum \<Rightarrow> legend_renderer \<Rightarrow> legend_renderer" where
  "set_padding padding r = r\<lparr>lg_padding := padding\<rparr>"

definition set_legends :: "string list \<Rightarrow> color option list \<Rightarrow> legend_renderer \<Rightarrow> legend_renderer" where
  "set_legends legends cols r = r\<lparr>lg_legends := legends, lg_colors := cols\<rparr>"

text \<open>The common part of the loops of \<open>layout\<close> and \<open>draw\<close>, and the position of the item.\<close>

record legend_place =
  line_height :: pynum
  total_height :: pynum
  line_used :: pynum

definition legend_step ::
  "text_extents \<Rightarrow> legend_renderer \<Rightarrow> string \<Rightarrow> legend_place \<Rightarrow> legend_place \<times> pynum" where
  "legend_step ext r legend p =
     (let padding = lg_padding r;
          item_width = padding + padding + PFloat (t_width (ext legend)) + padding;
          item_height = PFloat (t_height (ext legend)) + padding;
          lh = (if line_height p < item_height then item_height else line_height p);
          q = (if lg_width r < line_used p + item_width
               then \<lparr>line_height = lh, total_height = total_height p + lh, line_used = padding + item_width\<rparr>
               else \<lparr>line_height = lh, total_height = total_height p, line_used = line_used p + item_width\<rparr>)
      in (q, line_used q - item_width))"

definition legend_start :: "legend_renderer \<Rightarrow> legend_place" where
  "legend_start r = \<lparr>line_height = 0, total_height = lg_padding r, line_used = lg_padding r\<rparr>"

definition layout_legend :: "text_extents \<Rightarrow> pynum \<Rightarrow> legend_renderer \<Rightarrow> legend_renderer" where
  "layout_legend ext width r =
     (let r = r\<lparr>lg_width := width\<rparr>;
          p = fold (\<lambda>l p. fst (legend_step ext r l p)) (lg_legends r) (legend_start r)
      in r\<lparr>lg_height := total_height p + line_height p\<rparr>)"

definition draw_legend_item ::
  "text_extents \<Rightarrow> legend_renderer \<Rightarrow> string \<Rightarrow> nat \<times> legend_place \<times> draw_op list \<Rightarrow>
   (nat \<times> legend_place \<times> draw_op list) result" where
  "draw_legend_item ext r legend st =
     (case st of (i, p, ops) \<Rightarrow>
       (case legend_step ext r legend p of (q, x) \<Rightarrow>
          rbind (py_index (lg_colors r) (int i)) (\<lambda>c.
            case c of
              None \<Rightarrow> Inl AttributeError
            | Some col \<Rightarrow>
                Inr (i + 1, q, ops @
                  [Rectangle x (total_height q) (lg_padding r) (lg_padding r), black, SetLineWidth 2,
                   StrokePreserve, source_color col, Fill,
                   MoveTo (x + lg_padding r * 2) (total_height q + PFloat (t_height (ext legend))),
                   black, ShowText legend]))))"

definition draw_legend :: "text_extents \<Rightarrow> legend_renderer \<Rightarrow> draw_op list result" where
  "draw_legend ext r =
     rbind (rfold (draw_legend_item ext r) (lg_legends r) (0, legend_start r, []))
       (\<lambda>(i, p, ops). Inr ops)"

section \<open>\<open>TimelinesRenderer\<close>\<close>

record lines_renderer =
  lr_padding :: pynum
  lr_timelines :: "timeline list"
  lr_colors :: colors
  lr_start :: pynum
  lr_end :: pynum
  lr_left_width :: pynum
  lr_right_width :: pynum
  lr_text_height :: pynum
  lr_width :: pynum
  lr_height :: pynum

definition new_lines :: "timeline list \<Rightarrow> colors \<Rightarrow> lines_renderer" where
  "new_lines ts cs =
     \<lparr>lr_padding = 10, lr_timelines = ts, lr_colors = cs, lr_start = 0, lr_end = 0, lr_left_width = 0,
      lr_right_width = 0, lr_text_height = 0, lr_width = 0, lr_height = 0\<rparr>"

definition set_render_range :: "pynum \<Rightarrow> pynum \<Rightarrow> lines_renderer \<Rightarrow> lines_renderer" where
  "set_render_range start finish r = r\<lparr>lr_start := start, lr_end := finish\<rparr>"

definition get_data_x_start :: "lines_renderer \<Rightarrow> pynum" where
  "get_data_x_start r =
     half (lr_padding r) + lr_left_width r + lr_padding r + lr_right_width r + half (lr_padding r)"

definition text_width :: "text_extents \<Rightarrow> string \<Rightarrow> pynum" where
  "text_width ext s = PFloat (t_width (ext s))"

definition widest :: "text_extents \<Rightarrow> string list \<Rightarrow> pynum" where
  "widest ext names = fold (\<lambda>n w. num_max w (text_width ext n)) names 0"

text \<open>The names of the rows of a time line in the order of \<open>layout\<close>.\<close>

definition row_names :: "timeline \<Rightarrow> string list" where
  "row_names t = map tr_name (tl_ranges t) @ map te_name (tl_event_int t) @ map te_name (tl_event_str t)"

definition layout_lines :: "text_extents \<Rightarrow> pynum \<Rightarrow> lines_renderer \<Rightarrow> lines_renderer" where
  "layout_lines ext width r =
     (let ts = lr_timelines r; padding = lr_padding r;
          max_text_height = PFloat (t_height (ext sample_text));
          left_n_lines = PInt (int (length ts));
          range_n = PInt (int (length (concat (map tl_ranges ts))));
          event_n = PInt (int (length (concat (map tl_event_int ts)))) +
            PInt (int (length (concat (map tl_event_str ts))));
          left_height = left_n_lines * max_text_height + (left_n_lines - 1) * padding;
          right_n_lines = range_n + event_n;
          right_height = (right_n_lines - 1) * padding + right_n_lines * max_text_height;
          right_data_height = event_n * (max_text_height + 5) + range_n * 10 + (right_n_lines - 1) * padding;
          height = num_max (num_max left_height right_height) right_data_height
      in r\<lparr>lr_left_width := widest ext (map tl_name ts),
           lr_right_width := widest ext (concat (map row_names ts)),
           lr_text_height := max_text_height, lr_width := width, lr_height := height + padding\<rparr>)"

definition draw_line :: "pynum \<Rightarrow> pynum \<Rightarrow> pynum \<Rightarrow> pynum \<Rightarrow> draw_op list" where
  "draw_line x y width height =
     [MoveTo x y, RelLineTo width height, ClosePath, SetOperatorSource, SetLineWidth (PFloat 1), black,
      Stroke]"

text \<open>The background of every other row.\<close>

definition draw_background ::
  "lines_renderer \<Rightarrow> int \<Rightarrow> pynum \<Rightarrow> pynum \<Rightarrow> pynum \<Rightarrow> pynum \<Rightarrow> draw_op list" where
  "draw_background r grey_background x y width height =
     (if grey_background mod 2 = 0
      then [Rectangle x (y - half (lr_padding r)) width (height + lr_padding r), grey, Fill] else [])"

definition show_value :: "event_value \<Rightarrow> string" where
  "show_value v = (case v of StrValue s \<Rightarrow> s | IntValue i \<Rightarrow> show_int i)"

text \<open>The pixel of a time: \<open>int(x + (at - start) * width / (end - start))\<close>.\<close>

definition time_pixel :: "lines_renderer \<Rightarrow> pynum \<Rightarrow> pynum \<Rightarrow> pynum \<Rightarrow> int result" where
  "time_pixel r x width time =
     rbind (num_div ((time - lr_start r) * width) (lr_end r - lr_start r)) (\<lambda>q. Inr (num_int (x + q)))"

definition draw_event ::
  "lines_renderer \<Rightarrow> pynum \<Rightarrow> pynum \<Rightarrow> pynum \<Rightarrow> event \<Rightarrow> int \<times> draw_op list \<Rightarrow>
   (int \<times> draw_op list) result" where
  "draw_event r x y width e st =
     (case st of (last_x_drawn, ops) \<Rightarrow>
       rbind (time_pixel r x width (PInt (ev_at e))) (\<lambda>real_x.
         if real_x > last_x_drawn + 2
         then Inr (real_x, ops @
                [Rectangle (PInt real_x) y 1 1, SetSourceRgb 1 0 0, Stroke,
                 MoveTo (PInt real_x) (y + lr_text_height r), black, ShowText (show_value (ev_value e))])
         else Inr (last_x_drawn, ops)))"

definition draw_events ::
  "lines_renderer \<Rightarrow> int \<Rightarrow> event list \<Rightarrow> pynum \<Rightarrow> pynum \<Rightarrow> pynum \<Rightarrow> pynum \<Rightarrow> draw_op list result" where
  "draw_events r grey_background events x y width height =
     (case get_events_bounds events (num_val (lr_start r)) (num_val (lr_end r)) of (lo, hi) \<Rightarrow>
        rbind (rfold (draw_event r x y width) (slice events lo hi) (num_int x, []))
          (\<lambda>(l, ops). Inr (draw_background r grey_background x y width height @ ops)))"

definition draw_range ::
  "lines_renderer \<Rightarrow> pynum \<Rightarrow> pynum \<Rightarrow> pynum \<Rightarrow> data_range \<Rightarrow> int \<times> draw_op list \<times> colors \<Rightarrow>
   (int \<times> draw_op list \<times> colors) result" where
  "draw_range r x y width d st =
     (case st of (last_x_drawn, ops, cs) \<Rightarrow>
       rbind (time_pixel r x width (num_max (PInt (dr_start d)) (lr_start r))) (\<lambda>x_start.
       rbind (time_pixel r x width (num_min (PInt (dr_end d)) (lr_end r))) (\<lambda>x_end.
         if x_end > last_x_drawn
         then rbind (color_lookup (dr_value d) cs) (\<lambda>(c, cs).
                case c of
                  None \<Rightarrow> Inl AttributeError
                | Some col \<Rightarrow>
                    Inr (x_end, ops @
                      [Rectangle (PInt x_start) y (PInt (x_end - x_start)) 10, black, StrokePreserve,
                       source_color col, Fill], cs))
         else Inr (last_x_drawn, ops, cs))))"

definition draw_ranges ::
  "lines_renderer \<Rightarrow> int \<Rightarrow> colors \<Rightarrow> data_range list \<Rightarrow> pynum \<Rightarrow> pynum \<Rightarrow> pynum \<Rightarrow> pynum \<Rightarrow>
   (draw_op list \<times> colors) result" where
  "draw_ranges r grey_background cs ranges x y width height =
     (case get_ranges_bounds ranges (num_val (lr_start r)) (num_val (lr_end r)) of (lo, hi) \<Rightarrow>
        rbind (rfold (draw_range r x y width) (slice ranges lo hi) (num_int (x - 1), [], cs))
          (\<lambda>(l, ops, cs). Inr (draw_background r grey_background x y width height @ ops, cs)))"

text \<open>The state of the loops of \<open>draw\<close>.\<close>

record pen =
  pen_ops :: "draw_op list"
  pen_y :: pynum
  pen_grey :: int
  pen_colors :: colors

definition draw_label :: "text_extents \<Rightarrow> lines_renderer \<Rightarrow> string \<Rightarrow> pynum \<Rightarrow> pynum \<Rightarrow> draw_op list" where
  "draw_label ext r name x y =
     [MoveTo x (y + lr_text_height r - (PFloat (t_height (ext name)) + PFloat (y_bearing (ext name)))),
      ShowText name]"

definition right_x_start :: "lines_renderer \<Rightarrow> pynum" where
  "right_x_start r = half (lr_padding r) + lr_left_width r + lr_padding r"

definition data_x_start :: "lines_renderer \<Rightarrow> pynum" where
  "data_x_start r = right_x_start r + lr_right_width r + half (lr_padding r)"

text \<open>The line below a row.\<close>

definition row_line :: "lines_renderer \<Rightarrow> pynum \<Rightarrow> draw_op list" where
  "row_line r y =
     draw_line (right_x_start r - half (lr_padding r)) (y - half (lr_padding r))
       (lr_right_width r + lr_padding r) 0"

definition draw_events_row :: "text_extents \<Rightarrow> lines_renderer \<Rightarrow> timeline_event \<Rightarrow> pen \<Rightarrow> pen result" where
  "draw_events_row ext r e p =
     rbind (draw_events r (pen_grey p) (te_events e) (data_x_start r) (pen_y p)
              (lr_width r - data_x_start r) (lr_text_height r + 5)) (\<lambda>ops.
       let y = pen_y p + (lr_text_height r + 5 + lr_padding r)
       in Inr (p\<lparr>pen_ops := pen_ops p @ draw_label ext r (te_name e) (right_x_start r) (pen_y p) @ ops @
                   row_line r y,
                 pen_y := y, pen_grey := pen_grey p + 1\<rparr>))"

definition draw_ranges_row :: "text_extents \<Rightarrow> lines_renderer \<Rightarrow> timeline_range \<Rightarrow> pen \<Rightarrow> pen result" where
  "draw_ranges_row ext r d p =
     rbind (draw_ranges r (pen_grey p) (pen_colors p) (tr_ranges d) (data_x_start r) (pen_y p)
              (lr_width r - data_x_start r) 10) (\<lambda>(ops, cs).
       let y = pen_y p + (lr_text_height r + lr_padding r)
       in Inr (p\<lparr>pen_ops := pen_ops p @ draw_label ext r (tr_name d) (right_x_start r) (pen_y p) @ ops @
                   row_line r y,
                 pen_y := y, pen_grey := pen_grey p + 1, pen_colors := cs\<rparr>))"

definition draw_timeline :: "text_extents \<Rightarrow> lines_renderer \<Rightarrow> timeline \<Rightarrow> pen \<Rightarrow> pen result" where
  "draw_timeline ext r t p =
     (let p = p\<lparr>pen_ops := pen_ops p @ draw_label ext r (tl_name t) (half (lr_padding r)) (pen_y p)\<rparr>
      in rbind (rfold (draw_events_row ext r) (tl_event_int t) p) (\<lambda>p.
         rbind (rfold (draw_events_row ext r) (tl_event_str t) p) (\<lambda>p.
         rbind (rfold (draw_ranges_row ext r) (tl_ranges t) p) (\<lambda>p.
           Inr (p\<lparr>pen_ops := pen_ops p @ draw_line 0 (pen_y p - half (lr_padding r)) (lr_width r) 0\<rparr>)))))"

definition draw_lines :: "text_extents \<Rightarrow> lines_renderer \<Rightarrow> (draw_op list \<times> colors) result" where
  "draw_lines ext r =
     (let p = \<lparr>pen_ops = draw_line 0 0 (lr_width r) 0, pen_y = half (lr_padding r), pen_grey = 1,
               pen_colors = lr_colors r\<rparr>
      in rbind (rfold (draw_timeline ext r) (lr_timelines r) p) (\<lambda>p.
           let bot_y = pen_y p - half (lr_padding r)
           in Inr (pen_ops p @
                draw_line (half (lr_padding r) + lr_left_width r + half (lr_padding r)) 0 0 bot_y @
                draw_line (right_x_start r + lr_right_width r + half (lr_padding r)) 0 0 bot_y,
                pen_colors p)))"

section \<open>\<open>ScaleRenderer\<close>\<close>

record scale_renderer =
  sc_top :: bool
  sc_lo :: pynum
  sc_hi :: pynum
  sc_delta :: int
  sc_width :: pynum
  sc_text_height :: pynum
  sc_height :: pynum

definition new_scale :: scale_renderer where
  "new_scale = \<lparr>sc_top = False, sc_lo = 0, sc_hi = 0, sc_delta = 0, sc_width = 0, sc_text_height = 0,
     sc_height = 0\<rparr>"

definition set_bounds :: "pynum \<Rightarrow> pynum \<Rightarrow> scale_renderer \<Rightarrow> scale_renderer" where
  "set_bounds lo hi s = s\<lparr>sc_lo := lo, sc_hi := hi\<rparr>"

definition get_position :: "scale_renderer \<Rightarrow> pynum \<Rightarrow> pynum result" where
  "get_position s x = num_div ((x - sc_lo s) * sc_width s) (sc_hi s - sc_lo s)"

text \<open>\<open>closest\<close> starts at 1 and is multiplied by 10, so it is the power \<open>10 ^ k\<close>.\<close>

function closest_loop :: "rat \<Rightarrow> nat \<Rightarrow> nat" where
  "closest_loop data_delta k = (if 10 ^ k * 10 < data_delta then closest_loop data_delta (Suc k) else k)"
  by pat_completeness auto
termination
proof (relation "measure (\<lambda>(d, k). nat \<lceil>d\<rceil> - k)")
  show "((d, Suc k), d, k) \<in> measure (\<lambda>(d, k). nat \<lceil>d\<rceil> - k)"
    if "10 ^ k * 10 < d" for d :: rat and k
  proof -
    have "k < 10 ^ k * (10 :: nat)" by (induction k) auto
    then have "rat_of_nat k < 10 ^ k * 10" by (metis of_nat_less_iff of_nat_mult of_nat_numeral of_nat_power)
    with that have "rat_of_nat k < d" by linarith
    then have "int k < \<lceil>d\<rceil>" by (simp add: less_ceiling_iff)
    then show ?thesis by simp
  qed
qed simp

declare closest_loop.simps [simp del]

definition scale_delta :: "pynum \<Rightarrow> pynum \<Rightarrow> int result" where
  "scale_delta lo hi =
     (let data_delta = hi - lo; closest = 10 ^ closest_loop (num_val data_delta) 0
      in rbind (num_div data_delta (PInt closest)) (\<lambda>q.
           Inr (if num_eq q 0 then closest else if num_eq q 1 then closest div 10 else closest)))"

text \<open>
  \<open>layout\<close> computes the first and the last tick but does not use them; the remainders can raise.
\<close>

definition layout_scale :: "text_extents \<Rightarrow> pynum \<Rightarrow> scale_renderer \<Rightarrow> scale_renderer result" where
  "layout_scale ext width s =
     rbind (scale_delta (sc_lo s) (sc_hi s)) (\<lambda>delta.
     rbind (num_mod (sc_lo s) (PInt delta)) (\<lambda>lo_rest.
     rbind (num_mod (sc_hi s) (PInt delta)) (\<lambda>hi_rest.
       let max_text_height = PFloat (t_height (ext sample_text))
       in Inr (s\<lparr>sc_delta := delta, sc_width := width, sc_text_height := max_text_height,
                 sc_height := max_text_height + 10\<rparr>))))"

text \<open>\<open>range(start, stop, step)\<close> for a positive step\<close>

definition py_range :: "int \<Rightarrow> int \<Rightarrow> int \<Rightarrow> int list" where
  "py_range start stop step = map (\<lambda>i. start + int i * step) [0..<nat ((stop - start + step - 1) div step)]"

definition scale_ticks :: "scale_renderer \<Rightarrow> int \<Rightarrow> int list result" where
  "scale_ticks s delta =
     rbind (num_mod (sc_lo s) (PInt delta)) (\<lambda>lo_rest.
     rbind (num_mod (sc_hi s) (PInt delta)) (\<lambda>hi_rest.
       let start = sc_lo s - lo_rest + PInt delta; finish = sc_hi s - hi_rest
       in Inr (py_range (num_int start) (num_int (finish + PInt delta)) delta)))"

definition draw_tick :: "text_extents \<Rightarrow> scale_renderer \<Rightarrow> int \<Rightarrow> draw_op list \<Rightarrow> draw_op list result" where
  "draw_tick ext sc x ops =
     rbind (get_position sc (PInt x)) (\<lambda>real_x.
       let s = (if sc_top sc then PInt (-1) else PInt 1);
           e = ext (show_int x);
           text_delta = (if sc_top sc then PFloat (t_height e) + PFloat (y_bearing e)
                         else PFloat (- y_bearing e))
       in Inr (ops @ [MoveTo real_x 0, LineTo real_x (5 * s), ClosePath, Stroke,
                 MoveTo (real_x - half (PFloat (t_width e))) ((5 + 5 + text_delta) * s),
                 ShowText (show_int x)]))"

definition draw_subtick :: "scale_renderer \<Rightarrow> int \<Rightarrow> draw_op list \<Rightarrow> draw_op list result" where
  "draw_subtick sc x ops =
     rbind (get_position sc (PInt x)) (\<lambda>real_x.
       Inr (ops @ [MoveTo real_x 0, LineTo real_x (3 * (if sc_top sc then PInt (-1) else PInt 1)),
                   ClosePath, Stroke]))"

definition draw_scale :: "text_extents \<Rightarrow> scale_renderer \<Rightarrow> draw_op list result" where
  "draw_scale ext s =
     rbind (scale_ticks s (sc_delta s)) (\<lambda>ticks.
     rbind (rfold (draw_tick ext s) ticks [black, SetLineWidth (PFloat 1)]) (\<lambda>ops.
       let delta = sc_delta s div 10
       in if delta > 0
          then rbind (scale_ticks s delta) (\<lambda>subticks. rfold (draw_subtick s) subticks ops)
          else Inr ops))"

section \<open>The scale\<close>

lemma closest_loop_spec:
  "k0 \<le> closest_loop d k0 \<and> d \<le> 10 ^ closest_loop d k0 * 10 \<and>
   (closest_loop d k0 = k0 \<or> 10 ^ closest_loop d k0 < d)"
proof (induction d k0 rule: closest_loop.induct)
  case (1 d k)
  show ?case
  proof (cases "10 ^ k * 10 < d")
    case True
    then have "closest_loop d k = closest_loop d (Suc k)" by (simp add: closest_loop.simps [of d k])
    then show ?thesis using 1 [OF True] True by (auto simp: mult.commute)
  next
    case False
    then show ?thesis by (simp add: closest_loop.simps [of d k])
  qed
qed

lemma num_div_one: "num_div x (PInt 1) = Inr q \<Longrightarrow> num_val q = num_val x"
  by (auto simp: num_div_def split: pynum.splits)

lemma num_div_eq_1:
  assumes "0 < c" and "num_div x (PInt c) = Inr q" and "num_val q = 1"
  shows "num_val x < 2 * of_int c"
proof (cases x)
  case (PInt i)
  then have "i div c = 1" using assms by (auto simp: num_div_def)
  then have "i = c + i mod c" using mult_div_mod_eq [of c i] by simp
  then have "i < 2 * c" using pos_mod_bound [OF assms(1), of i] by linarith
  then have "rat_of_int i < rat_of_int (2 * c)" by (simp only: of_int_less_iff)
  then show ?thesis by (simp add: PInt)
next
  case (PFloat y)
  then show ?thesis using assms by (auto simp: num_div_def)
qed

text \<open>The distance of the ticks, by the width of the data.\<close>

lemma scale_delta_cases:
  obtains c where "scale_delta lo hi = Inr c" "0 < c" "num_val hi - num_val lo \<le> 20 * of_int c"
      "num_val hi - num_val lo \<noteq> 1"
  | "num_val hi - num_val lo = 1" "scale_delta lo hi = Inr 0"
proof -
  define d where "d = num_val hi - num_val lo"
  define k where "k = closest_loop d 0"
  define closest where "closest = (10 ^ k :: int)"
  have pos: "0 < closest" and rat: "rat_of_int closest = 10 ^ k" by (simp_all add: closest_def)
  have upper: "d \<le> 10 * of_int closest" and lower: "k = 0 \<or> of_int closest < d"
    using closest_loop_spec [of 0 d] by (auto simp: k_def [symmetric] rat mult.commute)
  obtain q where q: "num_div (hi - lo) (PInt closest) = Inr q"
    using pos by (auto simp: num_div_def)
  define c where "c = (if num_val q = 1 then closest div 10 else closest)"
  have delta: "scale_delta lo hi = Inr c"
    using q by (simp add: scale_delta_def Let_def num_eq_def d_def [symmetric] k_def [symmetric]
        closest_def [symmetric] c_def)
  have one: "k = 0 \<Longrightarrow> num_val q = d"
    using num_div_one [of "hi - lo" q] q by (simp add: closest_def d_def)
  show ?thesis
  proof (cases k)
    case 0
    then have "closest = 1" by (simp add: closest_def)
    then show ?thesis
      using that delta one [OF 0] upper by (cases "d = 1") (simp_all add: c_def d_def)
  next
    case (Suc m)
    then have m: "closest = 10 * 10 ^ m" by (simp add: closest_def)
    have "1 \<le> rat_of_int closest" using pos by simp
    then have "d \<noteq> 1" using lower Suc by linarith
    moreover have "0 < c" using pos by (simp add: c_def m)
    moreover have "d \<le> 20 * of_int c"
    proof (cases "num_val q = 1")
      case True
      then show ?thesis using num_div_eq_1 [OF pos q] by (simp add: c_def m d_def)
    next
      case False
      have "0 < rat_of_int closest" using pos by simp
      then show ?thesis using upper False by (simp add: c_def)
    qed
    ultimately show ?thesis using that(1) delta by (simp add: d_def)
  qed
qed

lemma layout_scale_cases:
  "if num_val (sc_hi s) - num_val (sc_lo s) = 1 then layout_scale ext width s = Inl ZeroDivisionError
   else \<exists>s'. layout_scale ext width s = Inr s' \<and> 0 < sc_delta s' \<and>
     num_val (sc_hi s) - num_val (sc_lo s) \<le> 20 * of_int (sc_delta s') \<and>
     sc_lo s' = sc_lo s \<and> sc_hi s' = sc_hi s \<and> sc_width s' = width"
proof (cases rule: scale_delta_cases [of "sc_lo s" "sc_hi s"])
  case (1 c)
  then obtain r r' where "num_mod (sc_lo s) (PInt c) = Inr r" "num_mod (sc_hi s) (PInt c) = Inr r'"
    by (simp add: num_mod_def)
  then show ?thesis using 1 by (simp add: layout_scale_def Let_def)
next
  case 2
  then show ?thesis by (simp add: layout_scale_def num_mod_def)
qed

lemma py_range_multiples:
  assumes "0 < \<delta>"
  shows "py_range (a * \<delta>) (b * \<delta>) \<delta> = map (\<lambda>i. (a + int i) * \<delta>) [0..<nat (b - a)]"
proof -
  have "b * \<delta> - a * \<delta> + \<delta> - 1 = (\<delta> - 1) + (b - a) * \<delta>" by (simp add: algebra_simps)
  then have "(b * \<delta> - a * \<delta> + \<delta> - 1) div \<delta> = b - a"
    using assms by (simp only: div_mult_self1) simp
  then show ?thesis by (simp add: py_range_def distrib_right)
qed

text \<open>The ticks are the multiples of the distance above the lower and up to the upper bound.\<close>

lemma scale_ticks_multiples:
  assumes "0 < \<delta>"
  shows "scale_ticks s \<delta> =
    Inr (map (\<lambda>i. (\<lfloor>num_val (sc_lo s) / of_int \<delta>\<rfloor> + 1 + int i) * \<delta>)
          [0..<nat (\<lfloor>num_val (sc_hi s) / of_int \<delta>\<rfloor> - \<lfloor>num_val (sc_lo s) / of_int \<delta>\<rfloor>)])"
proof -
  let ?m = "\<lfloor>num_val (sc_lo s) / of_int \<delta>\<rfloor>" and ?n = "\<lfloor>num_val (sc_hi s) / of_int \<delta>\<rfloor>"
  obtain r r' where r: "num_mod (sc_lo s) (PInt \<delta>) = Inr r" "num_mod (sc_hi s) (PInt \<delta>) = Inr r'"
    using assms by (simp add: num_mod_def)
  have "num_int (sc_lo s - r + PInt \<delta>) = (?m + 1) * \<delta>"
    using num_mod_val [OF r(1)] by (intro num_int_of_int) (simp add: algebra_simps)
  moreover have "num_int (sc_hi s - r' + PInt \<delta>) = (?n + 1) * \<delta>"
    using num_mod_val [OF r(2)] by (intro num_int_of_int) (simp add: algebra_simps)
  ultimately show ?thesis
    using py_range_multiples [OF assms, of "?m + 1" "?n + 1"]
    by (simp add: scale_ticks_def r Let_def)
qed

lemma tick_iff:
  fixes lo hi :: rat
  assumes "0 < \<delta>"
  shows "(\<exists>i < nat (\<lfloor>hi / rat_of_int \<delta>\<rfloor> - \<lfloor>lo / of_int \<delta>\<rfloor>). x = (\<lfloor>lo / of_int \<delta>\<rfloor> + 1 + int i) * \<delta>) \<longleftrightarrow>
    \<delta> dvd x \<and> lo < of_int x \<and> of_int x \<le> hi"
    (is "?L \<longleftrightarrow> ?R")
proof
  have d: "0 < rat_of_int \<delta>" using assms by simp
  have le: "rat_of_int (y * \<delta>) \<le> h \<longleftrightarrow> y \<le> \<lfloor>h / of_int \<delta>\<rfloor>" for y h
    using d by (simp add: le_floor_iff pos_le_divide_eq)
  show ?R if ?L
  proof -
    obtain i where "i < nat (\<lfloor>hi / of_int \<delta>\<rfloor> - \<lfloor>lo / of_int \<delta>\<rfloor>)"
      and x: "x = (\<lfloor>lo / of_int \<delta>\<rfloor> + 1 + int i) * \<delta>" using \<open>?L\<close> by blast
    then have i: "int i < \<lfloor>hi / of_int \<delta>\<rfloor> - \<lfloor>lo / of_int \<delta>\<rfloor>" by linarith
    have "rat_of_int x \<le> hi" unfolding x le using i by simp
    moreover have "\<not> rat_of_int x \<le> lo" unfolding x le by simp
    ultimately show ?thesis by (simp add: x)
  qed
  show ?L if ?R
  proof -
    obtain y where y: "x = y * \<delta>" using \<open>?R\<close> by (metis dvdE mult.commute)
    then have "y \<le> \<lfloor>hi / of_int \<delta>\<rfloor>" "\<not> y \<le> \<lfloor>lo / of_int \<delta>\<rfloor>"
      using \<open>?R\<close> le [of y hi] le [of y lo] by auto
    then show ?thesis using y
      by (intro exI [of _ "nat (y - \<lfloor>lo / of_int \<delta>\<rfloor> - 1)"]) simp
  qed
qed

lemma ticks_spec:
  assumes "0 < \<delta>" and "num_val (sc_hi s) - num_val (sc_lo s) \<le> 20 * of_int \<delta>"
  shows "\<exists>ticks. scale_ticks s \<delta> = Inr ticks \<and> sorted_wrt (<) ticks \<and> length ticks \<le> 20 \<and>
    set ticks = {x. \<delta> dvd x \<and> num_val (sc_lo s) < of_int x \<and> of_int x \<le> num_val (sc_hi s)}"
proof -
  let ?lo = "num_val (sc_lo s)" and ?hi = "num_val (sc_hi s)"
  let ?n = "nat (\<lfloor>?hi / of_int \<delta>\<rfloor> - \<lfloor>?lo / of_int \<delta>\<rfloor>)"
  let ?ticks = "map (\<lambda>i. (\<lfloor>?lo / of_int \<delta>\<rfloor> + 1 + int i) * \<delta>) [0..<?n]"
  have "?hi / of_int \<delta> \<le> ?lo / of_int \<delta> + 20"
    using assms by (simp add: field_simps)
  then have "\<lfloor>?hi / of_int \<delta>\<rfloor> - \<lfloor>?lo / of_int \<delta>\<rfloor> \<le> 20" by linarith
  moreover have "sorted_wrt (<) ?ticks"
    using assms(1) by (simp add: sorted_wrt_map sorted_wrt_upt)
  moreover have "set ?ticks = {x. \<delta> dvd x \<and> ?lo < of_int x \<and> of_int x \<le> ?hi}"
    unfolding tick_iff [OF assms(1), symmetric] by auto
  ultimately show ?thesis using scale_ticks_multiples [OF assms(1), of s] by auto
qed

lemma rfold_bound_total:
  assumes "\<And>x s. x \<in> set xs \<Longrightarrow> \<exists>s'. f x s = Inr s'"
  shows "\<exists>s'. rfold f xs s = Inr s'"
  using rfold_total [of "\<lambda>_. True" s xs f] assms by simp

section \<open>Drawing cannot fail\<close>

lemma time_pixel_total: "num_val (lr_end r) \<noteq> num_val (lr_start r) \<Longrightarrow> \<exists>p. time_pixel r x width t = Inr p"
  by (auto simp: time_pixel_def num_div_def)

lemma set_slice: "set (slice xs i j) \<subseteq> set xs"
  unfolding slice_def by (meson set_drop_subset set_take_subset subset_trans)

lemma color_lookup_colored:
  "n \<in> colored cs \<Longrightarrow> \<exists>c. color_lookup n cs = Inr (Some c, cs)"
  by (auto simp: color_lookup_cases colored_def pd.keys_get)

lemma draw_events_total:
  assumes "num_val (lr_end r) \<noteq> num_val (lr_start r)"
  shows "\<exists>ops. draw_events r g es x y w h = Inr ops"
proof -
  obtain lo hi where b: "get_events_bounds es (num_val (lr_start r)) (num_val (lr_end r)) = (lo, hi)"
    by fastforce
  have "\<exists>st'. draw_event r x y w e st = Inr st'" for e st
    using time_pixel_total [OF assms, of x w "PInt (ev_at e)"]
    by (cases st) (auto simp: draw_event_def)
  then have "\<exists>st. rfold (draw_event r x y w) (slice es lo hi) (num_int x, []) = Inr st"
    by (rule rfold_bound_total)
  then show ?thesis by (auto simp: draw_events_def b)
qed

lemma draw_ranges_total:
  assumes "num_val (lr_end r) \<noteq> num_val (lr_start r)" and "dr_value ` set ds \<subseteq> colored cs"
  shows "\<exists>ops. draw_ranges r g cs ds x y w h = Inr (ops, cs)"
proof -
  obtain lo hi where b: "get_ranges_bounds ds (num_val (lr_start r)) (num_val (lr_end r)) = (lo, hi)"
    by fastforce
  have "\<exists>st. rfold (draw_range r x y w) (slice ds lo hi) (num_int (x - 1), [], cs) = Inr st \<and>
      snd (snd st) = cs"
  proof (rule rfold_total)
    fix d and st :: "int \<times> draw_op list \<times> colors"
    assume d: "d \<in> set (slice ds lo hi)" and st: "snd (snd st) = cs"
    obtain l ops where st': "st = (l, ops, cs)" using st by (cases st) auto
    obtain a b where ab: "time_pixel r x w (num_max (PInt (dr_start d)) (lr_start r)) = Inr a"
      "time_pixel r x w (num_min (PInt (dr_end d)) (lr_end r)) = Inr b"
      using time_pixel_total [OF assms(1)] by blast
    have "dr_value d \<in> colored cs" using d assms(2) set_slice by fastforce
    then show "\<exists>st'. draw_range r x y w d st = Inr st' \<and> snd (snd st') = cs"
      using color_lookup_colored [of "dr_value d" cs] by (auto simp: draw_range_def st' ab)
  qed simp
  then show ?thesis by (force simp: draw_ranges_def b)
qed

definition range_values :: "timeline list \<Rightarrow> string set" where
  "range_values ts = (\<Union>t \<in> set ts. \<Union>d \<in> set (tl_ranges t). dr_value ` set (tr_ranges d))"

lemma draw_events_row_total:
  assumes "num_val (lr_end r) \<noteq> num_val (lr_start r)"
  shows "\<exists>q. draw_events_row ext r e p = Inr q \<and> pen_colors q = pen_colors p"
proof -
  obtain ops where "draw_events r (pen_grey p) (te_events e) (data_x_start r) (pen_y p)
      (lr_width r - data_x_start r) (lr_text_height r + 5) = Inr ops"
    using draw_events_total [OF assms] by metis
  then show ?thesis unfolding draw_events_row_def by (simp add: Let_def)
qed

lemma draw_ranges_row_total:
  assumes "num_val (lr_end r) \<noteq> num_val (lr_start r)"
    and "dr_value ` set (tr_ranges d) \<subseteq> colored (pen_colors p)"
  shows "\<exists>q. draw_ranges_row ext r d p = Inr q \<and> pen_colors q = pen_colors p"
proof -
  obtain ops where "draw_ranges r (pen_grey p) (pen_colors p) (tr_ranges d) (data_x_start r)
      (pen_y p) (lr_width r - data_x_start r) 10 = Inr (ops, pen_colors p)"
    using draw_ranges_total [OF assms] by metis
  then show ?thesis unfolding draw_ranges_row_def by (simp add: Let_def)
qed

lemma draw_timeline_total:
  assumes "num_val (lr_end r) \<noteq> num_val (lr_start r)" and "range_values [t] \<subseteq> colored (pen_colors p)"
  shows "\<exists>p'. draw_timeline ext r t p = Inr p' \<and> pen_colors p' = pen_colors p"
proof -
  define p0 where "p0 = p\<lparr>pen_ops := pen_ops p @ draw_label ext r (tl_name t) (half (lr_padding r)) (pen_y p)\<rparr>"
  have 0: "pen_colors p0 = pen_colors p" by (simp add: p0_def)
  have ev: "\<exists>q'. rfold (draw_events_row ext r) es q = Inr q' \<and> pen_colors q' = pen_colors p"
    if "pen_colors q = pen_colors p" for es q
    using that draw_events_row_total [OF assms(1)] by (intro rfold_total) metis+
  have rg: "\<exists>q'. rfold (draw_ranges_row ext r) (tl_ranges t) q = Inr q' \<and> pen_colors q' = pen_colors p"
    if "pen_colors q = pen_colors p" for q
  proof (rule rfold_total)
    show "pen_colors q = pen_colors p" by (rule that)
    fix d and s :: pen assume d: "d \<in> set (tl_ranges t)" and s: "pen_colors s = pen_colors p"
    have "dr_value ` set (tr_ranges d) \<subseteq> colored (pen_colors s)"
      using d s assms(2) by (auto simp: range_values_def)
    then show "\<exists>s'. draw_ranges_row ext r d s = Inr s' \<and> pen_colors s' = pen_colors p"
      using draw_ranges_row_total [OF assms(1)] s by metis
  qed
  obtain p1 where p1: "rfold (draw_events_row ext r) (tl_event_int t) p0 = Inr p1"
    "pen_colors p1 = pen_colors p" using ev [OF 0] by blast
  obtain p2 where p2: "rfold (draw_events_row ext r) (tl_event_str t) p1 = Inr p2"
    "pen_colors p2 = pen_colors p" using ev [OF p1(2)] by blast
  obtain p3 where p3: "rfold (draw_ranges_row ext r) (tl_ranges t) p2 = Inr p3"
    "pen_colors p3 = pen_colors p" using rg [OF p2(2)] by blast
  show ?thesis
    unfolding draw_timeline_def Let_def p0_def [symmetric] p1(1) rbind_simps p2(1) p3(1)
    using p3(2) by simp
qed

lemma draw_lines_total:
  assumes "num_val (lr_end r) \<noteq> num_val (lr_start r)"
    and "range_values (lr_timelines r) \<subseteq> colored (lr_colors r)"
  shows "\<exists>ops. draw_lines ext r = Inr (ops, lr_colors r)"
proof -
  define p where "p = \<lparr>pen_ops = draw_line 0 0 (lr_width r) 0, pen_y = half (lr_padding r),
    pen_grey = 1, pen_colors = lr_colors r\<rparr>"
  have "\<exists>q. rfold (draw_timeline ext r) (lr_timelines r) p = Inr q \<and> pen_colors q = lr_colors r"
  proof (rule rfold_total)
    fix t and q :: pen assume "t \<in> set (lr_timelines r)" "pen_colors q = lr_colors r"
    moreover from this have "range_values [t] \<subseteq> colored (pen_colors q)"
      using assms(2) by (auto simp: range_values_def)
    ultimately show "\<exists>q'. draw_timeline ext r t q = Inr q' \<and> pen_colors q' = lr_colors r"
      using draw_timeline_total [OF assms(1)] by metis
  qed (simp add: p_def)
  then show ?thesis by (auto simp: draw_lines_def p_def Let_def)
qed

lemma scale_ticks_empty:
  assumes "0 < \<delta>" and "num_val (sc_hi s) \<le> num_val (sc_lo s)"
  shows "scale_ticks s \<delta> = Inr []"
proof -
  have "num_val (sc_hi s) / of_int \<delta> \<le> num_val (sc_lo s) / of_int \<delta>"
    using assms by (simp add: divide_right_mono)
  then have "\<lfloor>num_val (sc_hi s) / of_int \<delta>\<rfloor> \<le> \<lfloor>num_val (sc_lo s) / of_int \<delta>\<rfloor>" by (rule floor_mono)
  then show ?thesis using scale_ticks_multiples [OF assms(1), of s] by simp
qed

lemma get_position_total: "num_val (sc_hi s) \<noteq> num_val (sc_lo s) \<Longrightarrow> \<exists>p. get_position s x = Inr p"
  by (simp add: get_position_def num_div_def)

text \<open>Without ticks, nothing is divided by the width of the bounds.\<close>

lemma draw_ticks_total:
  assumes "0 < \<delta>" and "\<And>x ops. num_val (sc_lo s) < num_val (sc_hi s) \<Longrightarrow> \<exists>ops'. f x ops = Inr ops'"
  shows "\<exists>ticks ops'. scale_ticks s \<delta> = Inr ticks \<and> rfold f ticks ops = Inr ops'"
proof (cases "num_val (sc_lo s) < num_val (sc_hi s)")
  case True
  then show ?thesis
    using scale_ticks_multiples [OF assms(1), of s] rfold_bound_total [of _ f ops] assms(2) by blast
next
  case False
  then show ?thesis using scale_ticks_empty [OF assms(1), of s] by simp
qed

lemma draw_scale_total:
  assumes "0 < sc_delta s"
  shows "\<exists>ops. draw_scale ext s = Inr ops"
proof -
  have 1: "\<exists>ops'. draw_tick ext s x ops = Inr ops'" "\<exists>ops'. draw_subtick s x ops = Inr ops'"
    if "num_val (sc_lo s) < num_val (sc_hi s)" for x ops
    using get_position_total [of s "PInt x"] that
    by (auto simp: draw_tick_def draw_subtick_def Let_def)
  obtain ticks ops where t: "scale_ticks s (sc_delta s) = Inr ticks"
    "rfold (draw_tick ext s) ticks [black, SetLineWidth (PFloat 1)] = Inr ops"
    using draw_ticks_total [OF assms, of s "draw_tick ext s"] 1(1) by blast
  have "\<exists>ticks ops'. scale_ticks s (sc_delta s div 10) = Inr ticks \<and>
      rfold (draw_subtick s) ticks ops = Inr ops'" if "0 < sc_delta s div 10"
    using draw_ticks_total [OF that, of s "draw_subtick s"] 1(2) by blast
  then show ?thesis
    unfolding draw_scale_def t(1) rbind_simps t(2) Let_def by (auto split: if_splits)
qed

lemma lookup_all_some:
  "lookup_all names cs = Inr (range_colors, cs') \<Longrightarrow>
   length range_colors = length names \<and> None \<notin> set range_colors"
proof (induction names arbitrary: cs range_colors)
  case (Cons n names)
  obtain c cs1 rest where c: "color_lookup n cs = Inr (c, cs1)"
    and rest: "lookup_all names cs1 = Inr (rest, cs')" and rc: "range_colors = c # rest"
    using Cons.prems by (auto simp: rbind_Inr_iff)
  have "c \<noteq> None"
  proof (cases "n \<in> colored cs")
    case True
    then show ?thesis using color_lookup_colored [OF True] c by auto
  next
    case False
    then show ?thesis using c by (auto simp: color_lookup_cases split: if_splits)
  qed
  then show ?case using Cons.IH [OF rest] rc by (cases c) simp_all
qed simp

lemma draw_legend_total:
  assumes "length (lg_colors r) = length (lg_legends r)" and "None \<notin> set (lg_colors r)"
  shows "\<exists>ops. draw_legend ext r = Inr ops"
proof -
  have "\<exists>st. rfold (draw_legend_item ext r) ls (i, p, ops) = Inr st"
    if "i + length ls \<le> length (lg_colors r)" for ls i p ops
    using that
  proof (induction ls arbitrary: i p ops)
    case (Cons l ls)
    obtain q x where q: "legend_step ext r l p = (q, x)" by fastforce
    have i: "i < length (lg_colors r)" using Cons.prems by simp
    then obtain c where c: "lg_colors r ! i = Some c" using assms(2) by (metis nth_mem option.exhaust)
    then show ?case
      using Cons.IH [of "i + 1"] Cons.prems
      by (simp add: draw_legend_item_def q py_index_nonneg [OF i])
  qed simp
  from this [of 0 "lg_legends r" "legend_start r" "[]"]
  obtain st where "rfold (draw_legend_item ext r) (lg_legends r) (0, legend_start r, []) = Inr st"
    using assms(1) by auto
  then show ?thesis by (cases st) (simp add: draw_legend_def)
qed

section \<open>The marks of the events\<close>

definition mark_pixels :: "draw_op list \<Rightarrow> int list" where
  "mark_pixels ops = concat (map (\<lambda>d. case d of Rectangle (PInt p) y w h \<Rightarrow> [p] | _ \<Rightarrow> []) ops)"

lemma mark_pixels_append [simp]: "mark_pixels (xs @ ys) = mark_pixels xs @ mark_pixels ys"
  by (simp add: mark_pixels_def)

lemma draw_event_marks:
  assumes "draw_event r x y w e (l, ops) = Inr (l', ops')"
    and "sorted_wrt (\<lambda>a b. a + 2 < b) (x0 # mark_pixels ops)" and "l = last (x0 # mark_pixels ops)"
  shows "sorted_wrt (\<lambda>a b. a + 2 < b) (x0 # mark_pixels ops') \<and> l' = last (x0 # mark_pixels ops')"
proof -
  obtain p where p: "time_pixel r x w (PInt (ev_at e)) = Inr p"
    using assms(1) by (auto simp: draw_event_def rbind_Inr_iff)
  show ?thesis
  proof (cases "l + 2 < p")
    case True
    then have new: "l' = p" "mark_pixels ops' = mark_pixels ops @ [p]"
      using assms(1) p by (auto simp: draw_event_def mark_pixels_def black_def)
    have "a + 2 < p" if "a \<in> set (x0 # mark_pixels ops)" for a
    proof -
      have "a \<le> l"
      proof (cases "mark_pixels ops" rule: rev_cases)
        case (snoc ys z)
        then show ?thesis using assms(2,3) that by (auto simp: sorted_wrt_append)
      qed (use assms(3) that in simp)
      then show ?thesis using True by linarith
    qed
    then show ?thesis using assms(2) by (simp add: new sorted_wrt_append)
  next
    case False
    then show ?thesis using assms p by (auto simp: draw_event_def)
  qed
qed

lemma draw_events_marks:
  assumes "rfold (draw_event r x y w) es (l, ops) = Inr (l', ops')"
    and "sorted_wrt (\<lambda>a b. a + 2 < b) (x0 # mark_pixels ops)" and "l = last (x0 # mark_pixels ops)"
  shows "sorted_wrt (\<lambda>a b. a + 2 < b) (x0 # mark_pixels ops')"
proof -
  define P where "P st \<longleftrightarrow> (case st of (l, ops) \<Rightarrow>
      sorted_wrt (\<lambda>a b. a + 2 < b) (x0 # mark_pixels ops) \<and> l = last (x0 # mark_pixels ops))"
    for st :: "int \<times> draw_op list"
  have "P (l', ops')"
  proof (rule rfold_invariant [OF assms(1)])
    show "P (l, ops)" using assms(2,3) by (simp add: P_def)
    show "P s'" if "P s" "draw_event r x y w e s = Inr s'" for e s s'
    proof -
      obtain k os k' os' where s: "s = (k, os)" "s' = (k', os')" by (metis prod.exhaust)
      show ?thesis using that(1) draw_event_marks [OF that(2) [unfolded s], of x0] unfolding P_def s by simp
    qed
  qed
  then show ?thesis by (simp add: P_def)
qed

section \<open>Properties\<close>

text \<open>
  The layout of a scale raises \<open>ZeroDivisionError\<close> exactly when the bounds are 1 apart, by any mix
  of integers and floats, because the distance of the ticks is then \<open>1 / 10 = 0\<close>; otherwise it
  succeeds with a positive distance.
\<close>
theorem layout_scale_error:
  "(num_val (sc_hi s) - num_val (sc_lo s) = 1 \<longleftrightarrow> layout_scale ext width s = Inl ZeroDivisionError) \<and>
   (num_val (sc_hi s) - num_val (sc_lo s) \<noteq> 1 \<longleftrightarrow>
     (\<exists>s'. layout_scale ext width s = Inr s' \<and> 0 < sc_delta s'))"
proof (cases "num_val (sc_hi s) - num_val (sc_lo s) = 1")
  case True
  then show ?thesis using layout_scale_cases [of s ext width] by simp
next
  case False
  then obtain s' where "layout_scale ext width s = Inr s'" "0 < sc_delta s'"
    using layout_scale_cases [of s ext width] by (auto split: if_splits)
  then show ?thesis using False by simp
qed

text \<open>The labels of a scale stand at the multiples of its distance above the lower bound, the lower
  bound itself left out, and up to the upper bound, each once, in order, and never more than 20.
\<close>
theorem scale_labels_correct:
  assumes "layout_scale ext width s0 = Inr s"
  shows "\<exists>ticks. scale_ticks s (sc_delta s) = Inr ticks \<and> sorted_wrt (<) ticks \<and> length ticks \<le> 20 \<and>
    set ticks = {x. sc_delta s dvd x \<and> num_val (sc_lo s) < of_int x \<and> of_int x \<le> num_val (sc_hi s)}"
  using layout_scale_cases [of s0 ext width] assms
  by (intro ticks_spec) (auto split: if_splits)

definition demo_extents :: text_extents where
  "demo_extents s = \<lparr>y_bearing = -7, t_width = of_nat (6 * length s), t_height = 8\<rparr>"

theorem scale_labels_correct_witness:
  "\<exists>s. layout_scale demo_extents 400 (set_bounds 0 (PFloat (95 / 2)) new_scale) = Inr s \<and>
     sc_delta s = 10 \<and> scale_ticks s 10 = Inr [10, 20, 30, 40]"
proof -
  define s0 where "s0 = set_bounds 0 (PFloat (95 / 2)) new_scale"
  have k: "closest_loop (95 / 2) 0 = 1"
    by (subst closest_loop.simps, simp, subst closest_loop.simps, simp)
  have bounds: "sc_lo s0 = 0" "sc_hi s0 = PFloat (95 / 2)" by (simp_all add: s0_def set_bounds_def)
  have "scale_delta (sc_lo s0) (sc_hi s0) = Inr 10"
    by (simp add: scale_delta_def bounds k num_div_def num_eq_def Let_def zero_pynum_def
        minus_pynum_def arith_def)
  then obtain s where s: "layout_scale demo_extents 400 s0 = Inr s" "sc_delta s = 10"
    "sc_lo s = 0" "sc_hi s = PFloat (95 / 2)"
    by (auto simp: layout_scale_def bounds num_mod_def Let_def)
  obtain ticks where t: "scale_ticks s 10 = Inr ticks" "sorted_wrt (<) ticks"
    "set ticks = {x. 10 dvd x \<and> (0::rat) < of_int x \<and> of_int x \<le> (95 / 2 :: rat)}"
    using scale_labels_correct [OF s(1)] s by auto
  have set: "set ticks = set [10, 20, 30, 40]"
  proof (rule set_eqI)
    fix x :: int
    have "of_int x \<le> (95 / 2 :: rat) \<longleftrightarrow> x \<le> 47" by linarith
    then show "x \<in> set ticks \<longleftrightarrow> x \<in> set [10, 20, 30, 40]"
      using t(3) by (simp add: dvd_def) presburger
  qed
  have "sorted ticks" "distinct ticks"
    using t(2) by (simp_all add: strict_sorted_iff)
  then have "ticks = [10, 20, 30, 40]"
    using set by (intro sorted_distinct_set_unique) auto
  then show ?thesis using s t(1) by (auto simp: s0_def)
qed

text \<open>The marks of the events in a row are drawn from left to right, the first more than 2 pixels after
  the start of the row and any two neighbours more than 2 pixels apart.
\<close>
theorem event_marks_apart:
  assumes "draw_events r g events x y width height = Inr ops"
  shows "\<exists>marks. ops = draw_background r g x y width height @ marks \<and>
    sorted_wrt (\<lambda>a b. a + 2 < b) (num_int x # mark_pixels marks)"
proof -
  obtain lo hi where b: "get_events_bounds events (num_val (lr_start r)) (num_val (lr_end r)) = (lo, hi)"
    by fastforce
  obtain l marks where
    m: "rfold (draw_event r x y width) (slice events lo hi) (num_int x, []) = Inr (l, marks)"
    and ops: "ops = draw_background r g x y width height @ marks"
    using assms by (auto simp: draw_events_def b rbind_Inr_iff)
  show ?thesis
    using draw_events_marks [OF m, of "num_int x"] ops by (auto simp: mark_pixels_def)
qed

definition demo_renderer :: lines_renderer where
  "demo_renderer = (new_lines [] new_colors)\<lparr>lr_start := 0, lr_end := 100\<rparr>"

theorem event_marks_apart_witness:
  "\<exists>ops. draw_events demo_renderer 1 demo_events 20 0 200 13 = Inr ops \<and>
     mark_pixels ops = [30, 36, 44, 60]"
proof -
  have "event_search demo_events 0 = 0" "event_search demo_events 100 = 5" and
    all: "slice demo_events 0 6 = demo_events"
    by code_simp+
  then have b: "get_events_bounds demo_events 0 100 = (0, 6)"
    by (simp add: get_events_bounds_def)
  have range: "lr_start demo_renderer = 0" "lr_end demo_renderer = 100" by (simp_all add: demo_renderer_def)
  then have "num_val (lr_end demo_renderer) \<noteq> num_val (lr_start demo_renderer)" by simp
  then obtain ops where o: "draw_events demo_renderer 1 demo_events 20 0 200 13 = Inr ops"
    using draw_events_total [of demo_renderer] by metis
  then obtain l marks where
    m: "rfold (draw_event demo_renderer 20 0 200) demo_events (20, []) = Inr (l, marks)"
    and ops: "ops = draw_background demo_renderer 1 20 0 200 13 @ marks"
    by (auto simp: draw_events_def range b all rbind_Inr_iff num_int_def numeral_pynum)
  have "mark_pixels marks = [30, 36, 44, 60]"
    using m by (auto simp: demo_events_def draw_event_def time_pixel_def num_div_def range numeral_pynum
        zero_pynum_def num_int_def mark_pixels_def black_def)
  then have "mark_pixels ops = [30, 36, 44, 60]"
    using event_marks_apart [OF o] by (simp add: ops draw_background_def mark_pixels_def)
  then show ?thesis using o by blast
qed

text \<open>Drawing the time lines cannot fail once \<open>main\<close> has given every value of a range a color and the
  range to draw is not empty; it leaves the colors as they are.
\<close>
theorem draw_lines_safe:
  assumes "lookup_all names cs = Inr (range_colors, lr_colors r)" and "distinct names"
    and "range_values (lr_timelines r) \<subseteq> set names"
    and "num_val (lr_start r) \<noteq> num_val (lr_end r)"
  shows "\<exists>ops. draw_lines ext r = Inr (ops, lr_colors r)"
proof -
  have "colored (lr_colors r) = colored cs \<union> set names"
    using lookup_all_cases [OF assms(2), of cs] assms(1) by (auto split: if_splits)
  then show ?thesis using draw_lines_total [of r ext] assms(3,4) by auto
qed


definition demo_timeline :: timeline where
  "demo_timeline = (new_timeline ''line'')
     \<lparr>tl_ranges := [\<lparr>tr_name = ''r'', tr_ranges = [\<lparr>dr_start = 10, dr_end = 30, dr_value = ''A''\<rparr>]\<rparr>]\<rparr>"

theorem draw_lines_safe_witness:
  "\<exists>range_colors cs ops. lookup_all [''A''] new_colors = Inr (range_colors, cs) \<and>
     draw_lines demo_extents ((new_lines [demo_timeline] cs)\<lparr>lr_start := 0, lr_end := 100\<rparr>) = Inr (ops, cs)"
proof -
  obtain range_colors cs where l: "lookup_all [''A''] new_colors = Inr (range_colors, cs)"
    by (simp add: color_lookup_def new_colors_def)
  let ?r = "(new_lines [demo_timeline] cs)\<lparr>lr_start := 0, lr_end := 100\<rparr>"
  have 1: "lookup_all [''A''] new_colors = Inr (range_colors, lr_colors ?r)"
    using l by (simp add: new_lines_def)
  have 2: "range_values (lr_timelines ?r) \<subseteq> set [''A'']"
    by (simp add: new_lines_def demo_timeline_def range_values_def)
  have 3: "num_val (lr_start ?r) \<noteq> num_val (lr_end ?r)" by simp
  show ?thesis using draw_lines_safe [OF 1 _ 2 3, of demo_extents] l by (auto simp: new_lines_def)
qed

end
