(* ===== verification/GridView.thy ===== *)
theory GridView
  imports GridRender
begin

text \<open>
  The window of \<open>src/utils/grid.py\<close>: \<open>GraphicRenderer\<close>, which puts the legend, the time lines and
  the two scales together and keeps the shown range, the drawing area \<open>GtkGraphicRenderer\<close> with its
  handlers of GTK events as a state machine, and \<open>main\<close>. An exception in a handler is printed by
  GTK and the program goes on, so a handler returns the state it has reached with the result or the
  exception. An attribute of the drawing area that may not have been set yet is an option.
\<close>

section \<open>Handlers\<close>

definition attr :: "'a option \<Rightarrow> 'a result" where
  "attr a = (case a of None \<Rightarrow> Inl AttributeError | Some x \<Rightarrow> Inr x)"

section \<open>\<open>GraphicRenderer\<close>\<close>

record graphic =
  g_lo :: pynum
  g_hi :: pynum
  g_start :: pynum
  g_end :: pynum
  g_mid :: scale_renderer
  g_bot :: scale_renderer
  g_width :: pynum
  g_height :: pynum
  g_lines :: lines_renderer
  g_legend :: legend_renderer

definition new_graphic :: "pynum \<Rightarrow> pynum \<Rightarrow> lines_renderer \<Rightarrow> legend_renderer \<Rightarrow> graphic" where
  "new_graphic start finish lines legend =
     \<lparr>g_lo = to_float start, g_hi = to_float finish, g_start = 0, g_end = 0,
      g_mid = new_scale\<lparr>sc_top := True\<rparr>,
      g_bot = (set_bounds start finish new_scale)\<lparr>sc_top := False\<rparr>,
      g_width = 1, g_height = 1, g_lines = lines, g_legend = legend\<rparr>"

definition get_data_rectangle :: "graphic \<Rightarrow> pynum \<times> pynum \<times> pynum \<times> pynum" where
  "get_data_rectangle g =
     (let y_start = lg_height (g_legend g); x_start = get_data_x_start (g_lines g)
      in (x_start, y_start, g_width g - x_start, lr_height (g_lines g)))"

definition scale_data :: "pynum \<Rightarrow> graphic \<Rightarrow> pynum result" where
  "scale_data x g =
     rbind (num_div x (g_width g - get_data_x_start (g_lines g))) (\<lambda>q. Inr (q * (g_end g - g_start g)))"

definition get_selection_rectangle :: "graphic \<Rightarrow> (pynum \<times> pynum \<times> pynum \<times> pynum) result" where
  "get_selection_rectangle g =
     (let y_start = lg_height (g_legend g) + lr_height (g_lines g) + sc_height (g_mid g) + 20;
          y_height = sc_height (g_bot g) + 20
      in rbind (get_position (g_bot g) (g_start g)) (\<lambda>x_start.
         rbind (get_position (g_bot g) (g_end g)) (\<lambda>x_end.
           Inr (x_start, y_start, x_end - x_start, y_height))))"

definition scale_selection :: "pynum \<Rightarrow> graphic \<Rightarrow> pynum result" where
  "scale_selection x g = rbind (num_div x (g_width g)) (\<lambda>q. Inr (q * (g_hi g - g_lo g)))"

text \<open>The layout of a scale raises before it sets anything.\<close>

definition layout_graphic :: "text_extents \<Rightarrow> pynum \<Rightarrow> pynum \<Rightarrow> graphic \<Rightarrow> graphic \<times> unit result" where
  "layout_graphic ext width height g =
     (let g = g\<lparr>g_width := width, g_height := height, g_legend := layout_legend ext width (g_legend g),
                g_lines := layout_lines ext width (g_lines g)\<rparr>
      in and_then (g, layout_scale ext (width - get_data_x_start (g_lines g)) (g_mid g)) (\<lambda>mid g.
         let g = g\<lparr>g_mid := mid\<rparr>
         in and_then (g, layout_scale ext width (g_bot g)) (\<lambda>bot g. (g\<lparr>g_bot := bot\<rparr>, Inr ()))))"

definition set_range :: "text_extents \<Rightarrow> pynum \<Rightarrow> pynum \<Rightarrow> graphic \<Rightarrow> graphic \<times> unit result" where
  "set_range ext start finish g =
     (let s = num_min start finish; e = num_max start finish;
          start = num_max (g_lo g) s; finish = num_min (g_hi g) e;
          g = g\<lparr>g_start := start, g_end := finish,
                g_lines := set_render_range start finish (g_lines g),
                g_mid := set_bounds start finish (g_mid g)\<rparr>
      in layout_graphic ext (g_width g) (g_height g) g)"

definition get_range_of :: "graphic \<Rightarrow> pynum \<times> pynum" where
  "get_range_of g = (g_start g, g_end g)"

definition light_grey_fill :: "draw_op list" where
  "light_grey_fill = [black, SetLineWidth 1, StrokePreserve, grey, Fill]"

text \<open>The drawing below the data, given the positions of the ends of the range.\<close>

definition draw_selection :: "graphic \<Rightarrow> pynum \<Rightarrow> pynum \<Rightarrow> pynum \<Rightarrow> draw_op list" where
  "draw_selection g select_start select_end h =
     (let w = g_width g; x0 = get_data_x_start (g_lines g);
          y = h + 20; uh = sc_height (g_bot g) + 20
      in [MoveTo 0 h, LineTo x0 h, LineTo select_start (h + 20), LineTo 0 (h + 20), LineTo 0 h] @
         light_grey_fill @
         [MoveTo w h, LineTo w (h + 20), LineTo select_end (h + 20), LineTo w h] @
         light_grey_fill @
         [Rectangle 0 y select_start uh, Rectangle select_end y (w - select_end) uh, grey, Fill,
          MoveTo select_end y, LineTo w y, LineTo w (y + uh), LineTo 0 (y + uh), LineTo 0 y,
          LineTo select_start y, ClosePath, SetLineWidth 2, black, Stroke,
          MoveTo select_start y, LineTo select_end y, ClosePath, SetLineWidth 1, grey, Stroke,
          Save, MoveTo (num_max select_start 2) y, RelLineTo 0 uh, MoveTo (num_min select_end (w - 2)) y,
          RelLineTo 0 uh, SetDash, black, SetLineWidth 1, Stroke, Restore])"

text \<open>The first \<open>ctx.save()\<close> has no \<open>ctx.restore()\<close>.\<close>

definition draw_graphic :: "text_extents \<Rightarrow> graphic \<Rightarrow> (draw_op list \<times> graphic) result" where
  "draw_graphic ext g =
     rbind (draw_legend ext (g_legend g)) (\<lambda>legend.
     rbind (draw_lines ext (g_lines g)) (\<lambda>(lines, cs).
     rbind (draw_scale ext (g_mid g)) (\<lambda>mid.
     rbind (get_position (g_bot g) (g_start g)) (\<lambda>select_start.
     rbind (get_position (g_bot g) (g_end g)) (\<lambda>select_end.
     rbind (draw_scale ext (g_bot g)) (\<lambda>bot.
       let w = g_width g; x0 = get_data_x_start (g_lines g); t = lg_height (g_legend g);
           h = t + lr_height (g_lines g) + sc_height (g_mid g)
       in Inr
         ([Save, SetSourceRgb 1 1 1, SetOperatorSource, Rectangle 0 0 w (g_height g), Fill, Save] @ legend @
          [Restore, MoveTo 0 t, LineTo w t, ClosePath, SetLineWidth 2, black, Stroke,
           Save, Translate 0 t] @ lines @
          [Restore, Save, Translate x0 h] @ mid @
          [Restore, MoveTo x0 h, RelLineTo 0 (0 - sc_height (g_mid g)), ClosePath, black, SetLineWidth 2,
           Stroke, MoveTo 0 h, LineTo w h, ClosePath, SetLineWidth 2, black, Stroke] @
          draw_selection g select_start select_end h @
          [Save, Translate 0 (h + 20)] @ bot @ [Restore],
          g\<lparr>g_lines := (g_lines g)\<lparr>lr_colors := cs\<rparr>\<rparr>)))))))"

section \<open>\<open>main\<close>\<close>

text \<open>
  Everything \<open>main\<close> does before it opens the window. The order of the keys of a dictionary is an
  argument, as for \<open>get_all_range_values\<close>.
\<close>

definition startup ::
  "text_extents \<Rightarrow> (string list \<Rightarrow> string list) \<Rightarrow> string list \<Rightarrow> graphic result" where
  "startup ext key_order file_lines =
     (case read_data file_lines of (cs, ts) \<Rightarrow>
       (case timelines_bounds ts of (lower_bound, upper_bound) \<Rightarrow>
          let range_values = get_all_range_values key_order ts
          in rbind (lookup_all range_values cs) (\<lambda>(range_colors, cs).
               let legend = set_legends range_values range_colors new_legend;
                   g = new_graphic (PInt lower_bound) (PInt upper_bound) (new_lines ts cs) legend;
                   range_mid = (upper_bound - lower_bound) div 2;
                   range_width = (upper_bound - lower_bound) div 10;
                   range_lo = range_mid - range_width div 2;
                   range_hi = range_mid + range_width div 2
               in case set_range ext (PInt range_lo) (PInt range_hi) g of
                    (g, Inl e) \<Rightarrow> Inl e | (g, Inr u) \<Rightarrow> Inr g)))"

section \<open>\<open>GtkGraphicRenderer\<close>\<close>

text \<open>An image surface; its drawing is unknown after a drawing that raised an exception.\<close>

record surface =
  s_width :: pynum
  s_height :: pynum
  s_ops :: "draw_op list option"

datatype cursor = DefaultCursor | SbHDoubleArrow | Fleur

datatype damage = DamageAll | DamageArea int int int int

datatype window_op = Clip pynum pynum pynum pynum | Paint surface | Draw draw_op

text \<open>\<open>__moving_right\<close> is a Boolean, but \<open>motion_notify\<close> can assign the width to it.\<close>

datatype flag = Bool bool | Number pynum

fun truth :: "flag \<Rightarrow> bool" where
  "truth (Bool b) = b"
| "truth (Number x) = (num_val x \<noteq> 0)"

record view =
  v_data :: graphic
  moving_left :: bool
  moving_right :: flag
  moving_both :: bool
  moving_top :: bool
  full_redraw :: bool
  left_cur :: "pynum option"
  right_cur :: "pynum option"
  both_start :: "pynum option"
  both_cur :: "pynum option"
  top_start :: "pynum option"
  top_cur :: "pynum option"
  v_width :: "pynum option"
  v_height :: "pynum option"
  buffer_surface :: "surface option"
  v_cursor :: cursor
  v_damage :: "damage list"
  v_window :: "window_op list"
  v_files :: "(string \<times> surface) list"

definition new_view :: "graphic \<Rightarrow> view" where
  "new_view data =
     \<lparr>v_data = data, moving_left = False, moving_right = Bool False, moving_both = False,
      moving_top = False, full_redraw = True, left_cur = None, right_cur = None, both_start = None,
      both_cur = None, top_start = None, top_cur = None, v_width = None, v_height = None,
      buffer_surface = None, v_cursor = DefaultCursor, v_damage = [], v_window = [], v_files = []\<rparr>"

definition queue_draw :: "view \<Rightarrow> view" where
  "queue_draw v = v\<lparr>v_damage := v_damage v @ [DamageAll]\<rparr>"

text \<open>\<open>self.queue_draw_area(0, int(y), int(self.__width), int(height))\<close>, then \<open>return True\<close>\<close>

definition queue_area :: "pynum \<Rightarrow> pynum \<Rightarrow> view \<Rightarrow> view \<times> bool result" where
  "queue_area y height v =
     and_then (v, attr (v_width v)) (\<lambda>w v.
       (v\<lparr>v_damage := v_damage v @ [DamageArea 0 (num_int y) (num_int w) (num_int height)]\<rparr>, Inr True))"

text \<open>\<open>self.__data.set_range(start, end)\<close>, a full redraw, and the answer of the handler\<close>

definition show_range :: "text_extents \<Rightarrow> pynum \<Rightarrow> pynum \<Rightarrow> 'a \<Rightarrow> view \<Rightarrow> view \<times> 'a result" where
  "show_range ext start finish answer v =
     (case set_range ext start finish (v_data v) of (g, r) \<Rightarrow>
        and_then (v\<lparr>v_data := g\<rparr>, r) (\<lambda>u v. (queue_draw (v\<lparr>full_redraw := True\<rparr>), Inr answer)))"

definition set_smaller_zoom :: "text_extents \<Rightarrow> view \<Rightarrow> view \<times> unit result" where
  "set_smaller_zoom ext v =
     (case get_range_of (v_data v) of (start, finish) \<Rightarrow>
        show_range ext start (start + (finish - start) * 2) () v)"

definition set_bigger_zoom :: "text_extents \<Rightarrow> view \<Rightarrow> view \<times> unit result" where
  "set_bigger_zoom ext v =
     (case get_range_of (v_data v) of (start, finish) \<Rightarrow>
        show_range ext start (start + half (finish - start)) () v)"

definition draw_on :: "text_extents \<Rightarrow> surface \<Rightarrow> view \<Rightarrow> view \<times> unit result" where
  "draw_on ext s v =
     (case draw_graphic ext (v_data v) of
        Inl e \<Rightarrow> (v\<lparr>buffer_surface := Some (s\<lparr>s_ops := None\<rparr>)\<rparr>, Inl e)
      | Inr (ops, g) \<Rightarrow>
          (v\<lparr>v_data := g,
             buffer_surface := Some (s\<lparr>s_ops := map_option (\<lambda>before. before @ ops) (s_ops s)\<rparr>)\<rparr>,
           Inr ()))"

definition blank :: "graphic \<Rightarrow> surface" where
  "blank g = \<lparr>s_width = g_width g, s_height = g_height g, s_ops = Some []\<rparr>"

definition output_png :: "text_extents \<Rightarrow> string \<Rightarrow> view \<Rightarrow> view \<times> unit result" where
  "output_png ext filename v =
     (let surface = blank (v_data v)
      in and_then (v, attr (buffer_surface v)) (\<lambda>b v.
         and_then (draw_on ext b v) (\<lambda>u v. (v\<lparr>v_files := v_files v @ [(filename, surface)]\<rparr>, Inr ()))))"

definition button_press :: "pynum \<Rightarrow> pynum \<Rightarrow> view \<Rightarrow> view \<times> bool result" where
  "button_press ex ey v =
     and_then (v, get_selection_rectangle (v_data v)) (\<lambda>(x, y, width, height) v.
       case get_data_rectangle (v_data v) of (d_x, d_y, d_width, d_height) \<Rightarrow>
         if ey > y \<and> ey < y + height \<and> num_abs (ex - x) < 5 then (v\<lparr>moving_left := True\<rparr>, Inr True)
         else if ey > y \<and> ey < y + height \<and> num_abs (ex - (x + width)) < 5
         then (v\<lparr>moving_right := Bool True\<rparr>, Inr True)
         else if ey > y \<and> ey < y + height \<and> ex > x \<and> ex < x + width
         then (v\<lparr>moving_both := True, both_start := Some ex, both_cur := Some ex\<rparr>, Inr True)
         else if ey > d_y \<and> ey < d_y + d_height \<and> ex > d_x \<and> ex < d_x + d_width
         then (v\<lparr>moving_top := True, top_start := Some ex, top_cur := Some ex\<rparr>, Inr True)
         else (v, Inr False))"

definition button_release :: "text_extents \<Rightarrow> view \<Rightarrow> view \<times> bool result" where
  "button_release ext v =
     (if moving_left v then
        and_then (v\<lparr>moving_left := False\<rparr>, rbind (attr (left_cur v)) (\<lambda>c. scale_selection c (v_data v)))
          (\<lambda>left v. show_range ext left (g_end (v_data v)) True v)
      else if truth (moving_right v) then
        and_then (v\<lparr>moving_right := Bool False\<rparr>,
                  rbind (attr (right_cur v)) (\<lambda>c. scale_selection c (v_data v)))
          (\<lambda>right v. show_range ext (g_start (v_data v)) right True v)
      else if moving_both v then
        and_then (v\<lparr>moving_both := False\<rparr>,
                  rbind (attr (both_cur v)) (\<lambda>c. rbind (attr (both_start v)) (\<lambda>s.
                    scale_selection (c - s) (v_data v))))
          (\<lambda>delta v. show_range ext (g_start (v_data v) + delta) (g_end (v_data v) + delta) True v)
      else (v\<lparr>moving_top := False\<rparr>, Inr False))"

definition motion_left :: "pynum \<Rightarrow> pynum \<Rightarrow> pynum \<Rightarrow> pynum" where
  "motion_left ex x width = (if ex \<le> 0 then 0 else if ex \<ge> x + width then x + width else ex)"

definition motion_both :: "pynum \<Rightarrow> pynum \<Rightarrow> pynum \<Rightarrow> pynum" where
  "motion_both ex cur_s cur_e = (if ex < cur_s then cur_s else if ex > cur_e then cur_e else ex)"

text \<open>The last part of \<open>motion_notify\<close>: the cursor when nothing moves.\<close>

definition hover :: "pynum \<Rightarrow> pynum \<Rightarrow> pynum \<times> pynum \<times> pynum \<times> pynum \<Rightarrow> view \<Rightarrow> view \<times> bool result" where
  "hover ex ey rect v =
     (case rect of (x, y, width, height) \<Rightarrow>
       (case get_data_rectangle (v_data v) of (d_x, d_y, d_width, d_height) \<Rightarrow>
         if ey > y \<and> ey < y + height \<and> (num_abs (ex - x) < 5 \<or> num_abs (ex - (x + width)) < 5)
         then (v\<lparr>v_cursor := SbHDoubleArrow\<rparr>, Inr True)
         else if ey > y \<and> ey < y + height \<and> ex > x \<and> ex < x + width
         then (v\<lparr>v_cursor := Fleur\<rparr>, Inr True)
         else if ey > d_y \<and> ey < d_y + d_height \<and> ex > d_x \<and> ex < d_x + d_width
         then (v\<lparr>v_cursor := Fleur\<rparr>, Inr True)
         else (v\<lparr>v_cursor := DefaultCursor\<rparr>, Inr False)))"

definition motion_notify :: "text_extents \<Rightarrow> pynum \<Rightarrow> pynum \<Rightarrow> view \<Rightarrow> view \<times> bool result" where
  "motion_notify ext ex ey v =
     and_then (v, get_selection_rectangle (v_data v)) (\<lambda>(x, y, width, height) v.
       if moving_left v then queue_area y height (v\<lparr>left_cur := Some (motion_left ex x width)\<rparr>)
       else if truth (moving_right v) then
         and_then (v, attr (v_width v)) (\<lambda>w v.
           queue_area y height
             (if ex \<ge> w then v\<lparr>moving_right := Number w\<rparr>
              else v\<lparr>right_cur := Some (if ex < x then x else ex)\<rparr>))
       else if moving_both v then
         and_then (v, rbind (attr (v_width v)) (\<lambda>w. rbind (attr (both_start v)) (\<lambda>s. Inr (w, s)))) (\<lambda>(w, s) v.
           queue_area y height (v\<lparr>both_cur := Some (motion_both ex (s - x) (w - (x + width - s)))\<rparr>))
       else if moving_top v then
         and_then (v\<lparr>top_cur := Some ex\<rparr>, rbind (attr (top_start v)) (\<lambda>s. scale_data (s - ex) (v_data v)))
           (\<lambda>delta v.
             and_then (show_range ext (g_start (v_data v) + delta) (g_end (v_data v) + delta) True v)
               (\<lambda>answer v. (v\<lparr>top_start := Some ex\<rparr>, Inr answer)))
       else hover ex ey (x, y, width, height) v)"

definition size_allocate :: "text_extents \<Rightarrow> int \<Rightarrow> int \<Rightarrow> view \<Rightarrow> view \<times> unit result" where
  "size_allocate ext width height v =
     (let v = v\<lparr>v_width := Some (PInt width), v_height := Some (PInt height)\<rparr>
      in case layout_graphic ext (PInt width) (PInt height) (v_data v) of (g, r) \<Rightarrow>
         and_then (v\<lparr>v_data := g\<rparr>, r) (\<lambda>u v. (queue_draw (v\<lparr>full_redraw := True\<rparr>), Inr ())))"

definition window_line :: "pynum \<Rightarrow> pynum \<Rightarrow> pynum \<Rightarrow> window_op list" where
  "window_line x y height = [Draw (MoveTo x y), Draw (RelLineTo 0 height), Draw ClosePath]"

definition show_ops :: "window_op list \<Rightarrow> view \<Rightarrow> view" where
  "show_ops ops v = v\<lparr>v_window := v_window v @ ops\<rparr>"

definition expose :: "text_extents \<Rightarrow> pynum \<Rightarrow> pynum \<Rightarrow> pynum \<Rightarrow> pynum \<Rightarrow> view \<Rightarrow> view \<times> bool result" where
  "expose ext ax ay aw ah v =
     and_then (if full_redraw v
               then and_then (draw_on ext (blank (v_data v)) v) (\<lambda>u v. (v\<lparr>full_redraw := False\<rparr>, Inr ()))
               else (v, Inr ())) (\<lambda>u v.
     let v = v\<lparr>v_window := [Clip ax ay aw ah]\<rparr>
     in and_then (v, attr (buffer_surface v)) (\<lambda>b v.
     let v = show_ops [Paint b] v
     in and_then (v, get_selection_rectangle (v_data v)) (\<lambda>(x, y, width, height) v.
     and_then
       (if moving_left v
        then and_then (v, attr (left_cur v)) (\<lambda>c v.
          (show_ops (window_line (num_max c 2) y height @ map Draw [SetLineWidth 1, black, Stroke]) v, Inr ()))
        else (v, Inr ())) (\<lambda>u v.
     and_then
       (if truth (moving_right v)
        then and_then (v, rbind (attr (right_cur v)) (\<lambda>c. rbind (attr (v_width v)) (\<lambda>w.
                 Inr (num_min c (w - 2))))) (\<lambda>c v.
          (show_ops (window_line c y height @ map Draw [SetLineWidth 1, black, Stroke]) v, Inr ()))
        else (v, Inr ())) (\<lambda>u v.
       if moving_both v
       then and_then (v, rbind (attr (both_cur v)) (\<lambda>c. rbind (attr (both_start v)) (\<lambda>s. Inr (c - s)))) (\<lambda>delta_x v.
         (show_ops (window_line (x + delta_x) y height @ window_line (x + width + delta_x) y height @
            map Draw [black, SetLineWidth 1, Stroke]) v, Inr False))
       else (v, Inr False))))))"

text \<open>The events the drawing area and the buttons of the main window react to.\<close>

datatype ui_event =
    Press pynum pynum | Release | Motion pynum pynum | Allocate int int
  | Expose pynum pynum pynum pynum | ZoomOut | ZoomIn | OutputPng string

definition ui_step :: "text_extents \<Rightarrow> ui_event \<Rightarrow> view \<Rightarrow> view" where
  "ui_step ext e v =
     (case e of
        Press x y \<Rightarrow> fst (button_press x y v)
      | Release \<Rightarrow> fst (button_release ext v)
      | Motion x y \<Rightarrow> fst (motion_notify ext x y v)
      | Allocate w h \<Rightarrow> fst (size_allocate ext w h v)
      | Expose x y w h \<Rightarrow> fst (expose ext x y w h v)
      | ZoomOut \<Rightarrow> fst (set_smaller_zoom ext v)
      | ZoomIn \<Rightarrow> fst (set_bigger_zoom ext v)
      | OutputPng name \<Rightarrow> fst (output_png ext name v))"

inductive reached :: "text_extents \<Rightarrow> graphic \<Rightarrow> view \<Rightarrow> bool" for ext g where
  opened: "reached ext g (new_view g)"
| event: "reached ext g v \<Longrightarrow> reached ext g (ui_step ext e v)"

inductive_cases reachedE: "reached ext g v"

section \<open>The layout and the range\<close>

text \<open>What a renderer is told about the range, and that it lies within the bounds.\<close>

definition agrees :: "graphic \<Rightarrow> bool" where
  "agrees g \<longleftrightarrow>
     lr_start (g_lines g) = g_start g \<and> lr_end (g_lines g) = g_end g \<and>
     sc_lo (g_mid g) = g_start g \<and> sc_hi (g_mid g) = g_end g \<and>
     num_val (sc_lo (g_bot g)) = num_val (g_lo g) \<and> num_val (sc_hi (g_bot g)) = num_val (g_hi g) \<and>
     num_val (g_lo g) \<le> num_val (g_start g) \<and> num_val (g_end g) \<le> num_val (g_hi g)"

lemma layout_lines_keeps [simp]:
  "lr_start (layout_lines ext w r) = lr_start r" "lr_end (layout_lines ext w r) = lr_end r"
  "lr_timelines (layout_lines ext w r) = lr_timelines r" "lr_colors (layout_lines ext w r) = lr_colors r"
  by (simp_all add: layout_lines_def Let_def)

lemma layout_legend_keeps [simp]:
  "lg_colors (layout_legend ext w r) = lg_colors r" "lg_legends (layout_legend ext w r) = lg_legends r"
  by (simp_all add: layout_legend_def Let_def)

lemma layout_scale_keeps:
  "layout_scale ext w s = Inr s' \<Longrightarrow>
   sc_lo s' = sc_lo s \<and> sc_hi s' = sc_hi s \<and> sc_width s' = w \<and> sc_top s' = sc_top s"
  by (auto simp: layout_scale_def rbind_Inr_iff Let_def)

text \<open>The layout, whether it ends or raises, and when it does.\<close>

lemma layout_graphic_keeps:
  assumes "fst (layout_graphic ext w h g) = g'"
  shows "g_lo g' = g_lo g" "g_hi g' = g_hi g" "g_start g' = g_start g" "g_end g' = g_end g"
    "g_lines g' = layout_lines ext w (g_lines g)" "g_legend g' = layout_legend ext w (g_legend g)"
    "sc_lo (g_mid g') = sc_lo (g_mid g)" "sc_hi (g_mid g') = sc_hi (g_mid g)"
    "sc_lo (g_bot g') = sc_lo (g_bot g)" "sc_hi (g_bot g') = sc_hi (g_bot g)"
    "g_width g' = w" "g_height g' = h"
  using assms layout_scale_keeps
  by (auto simp: layout_graphic_def Let_def and_then_def split: sum.splits)

lemma layout_graphic_error:
  "snd (layout_graphic ext w h g) =
   (if num_val (sc_hi (g_mid g)) - num_val (sc_lo (g_mid g)) = 1 \<or>
       num_val (sc_hi (g_bot g)) - num_val (sc_lo (g_bot g)) = 1
    then Inl ZeroDivisionError else Inr ())"
  using layout_scale_cases [of "g_bot g" ext w]
    layout_scale_cases [of "g_mid g" ext "w - get_data_x_start (layout_lines ext w (g_lines g))"]
  by (auto simp: layout_graphic_def Let_def split: if_splits)

lemma layout_graphic_agrees: "agrees g \<Longrightarrow> agrees (fst (layout_graphic ext w h g))"
  using layout_graphic_keeps [OF refl, of ext w h g] by (simp add: agrees_def)

lemma set_range_sets:
  assumes "fst (set_range ext a b g) = g'"
  shows "g_lo g' = g_lo g" "g_hi g' = g_hi g"
    "g_start g' = num_max (g_lo g) (num_min a b)" "g_end g' = num_min (g_hi g) (num_max a b)"
    "g_width g' = g_width g" "g_height g' = g_height g"
  using assms layout_graphic_keeps [OF refl] by (auto simp: set_range_def Let_def)

lemma set_range_agrees:
  assumes "num_val (sc_lo (g_bot g)) = num_val (g_lo g)" and "num_val (sc_hi (g_bot g)) = num_val (g_hi g)"
  shows "agrees (fst (set_range ext a b g))"
  unfolding set_range_def Let_def
  by (rule layout_graphic_agrees) (use assms in \<open>simp add: agrees_def set_render_range_def set_bounds_def\<close>)

lemma draw_graphic_keeps:
  assumes "draw_graphic ext g = Inr (ops, g')"
  shows "\<exists>cs. g' = g\<lparr>g_lines := (g_lines g)\<lparr>lr_colors := cs\<rparr>\<rparr>"
  using assms by (auto simp: draw_graphic_def rbind_Inr_iff Let_def split: prod.splits)

lemma draw_graphic_agrees: "draw_graphic ext g = Inr (ops, g') \<Longrightarrow> agrees g \<Longrightarrow> agrees g'"
  using draw_graphic_keeps by (fastforce simp: agrees_def)

section \<open>The handlers keep the renderers in step\<close>

text \<open>What an event can do to the picture.\<close>

definition evolves :: "text_extents \<Rightarrow> graphic \<Rightarrow> graphic \<Rightarrow> bool" where
  "evolves ext g g' \<longleftrightarrow>
     g' = g \<or> (\<exists>a b. g' = fst (set_range ext a b g)) \<or>
     (\<exists>w h. g' = fst (layout_graphic ext w h g)) \<or> (\<exists>ops. draw_graphic ext g = Inr (ops, g'))"

lemma evolves_refl [simp]: "evolves ext g g"
  by (simp add: evolves_def)

lemma evolves_agrees: "evolves ext g g' \<Longrightarrow> agrees g \<Longrightarrow> agrees g' \<and> g_lo g' = g_lo g \<and> g_hi g' = g_hi g"
proof -
  assume a: "agrees g"
  then have b: "num_val (sc_lo (g_bot g)) = num_val (g_lo g)" "num_val (sc_hi (g_bot g)) = num_val (g_hi g)"
    by (simp_all add: agrees_def)
  have "\<exists>cs. g' = g\<lparr>g_lines := (g_lines g)\<lparr>lr_colors := cs\<rparr>\<rparr>" if "draw_graphic ext g = Inr (ops, g')" for ops
    using draw_graphic_keeps [OF that] .
  moreover assume "evolves ext g g'"
  ultimately show ?thesis
    unfolding evolves_def
    using a set_range_agrees [OF b] layout_graphic_agrees [OF a] draw_graphic_agrees [OF _ a]
      set_range_sets(1,2) [OF refl, of ext _ _ g] layout_graphic_keeps(1,2) [OF refl, of ext _ _ g]
    by fastforce
qed

lemma queue_keeps [simp]:
  "v_data (queue_draw v) = v_data v" "v_data (fst (queue_area y h v)) = v_data v"
  by (auto simp: queue_draw_def queue_area_def and_then_def split: sum.split)

lemma show_range_data: "v_data (fst (show_range ext a b x v)) = fst (set_range ext a b (v_data v))"
  by (auto simp: show_range_def and_then_def split: prod.split sum.split)

lemma show_range_evolves: "v_data v = g \<Longrightarrow> evolves ext g (v_data (fst (show_range ext a b x v)))"
  by (auto simp: show_range_data evolves_def)

lemmas handler_evolves = show_range_evolves and_then_rule [where P = "\<lambda>v. evolves ext g (v_data v)" for ext g]

lemma draw_on_evolves: "evolves ext (v_data v) (v_data (fst (draw_on ext s v)))"
  by (auto simp: draw_on_def evolves_def split: sum.split prod.split)

lemma press_data: "v_data (fst (button_press x y v)) = v_data v"
  by (auto simp: button_press_def and_then_def split: sum.split prod.split)

lemma release_evolves: "evolves ext (v_data v) (v_data (fst (button_release ext v)))"
  by (auto simp: button_release_def intro!: handler_evolves)

lemma hover_data: "v_data (fst (hover x y r v)) = v_data v"
  by (auto simp: hover_def split: prod.split)

lemma motion_evolves: "evolves ext (v_data v) (v_data (fst (motion_notify ext x y v)))"
  by (auto simp: motion_notify_def hover_data intro!: handler_evolves split: prod.split)

lemma allocate_evolves: "evolves ext (v_data v) (v_data (fst (size_allocate ext w h v)))"
proof -
  have "evolves ext (v_data v) (fst (layout_graphic ext (PInt w) (PInt h) (v_data v)))"
    by (auto simp: evolves_def)
  then show ?thesis by (auto simp: size_allocate_def Let_def intro!: handler_evolves split: prod.split)
qed

lemma show_ops_data [simp]: "v_data (show_ops ops v) = v_data v"
  by (simp add: show_ops_def)

lemma expose_evolves: "evolves ext (v_data v) (v_data (fst (expose ext ax ay aw ah v)))"
  using draw_on_evolves [of ext v "blank (v_data v)"]
  by (auto simp: expose_def Let_def intro!: handler_evolves split: prod.split)

lemma png_evolves: "evolves ext (v_data v) (v_data (fst (output_png ext n v)))"
  using draw_on_evolves [of ext v] by (auto simp: output_png_def Let_def intro!: handler_evolves)

lemma step_evolves: "evolves ext (v_data v) (v_data (ui_step ext e v))"
  using release_evolves motion_evolves allocate_evolves expose_evolves png_evolves show_range_evolves [OF refl]
  by (cases e) (simp_all add: ui_step_def press_data set_smaller_zoom_def set_bigger_zoom_def get_range_of_def)

lemma reached_agrees:
  "reached ext g v \<Longrightarrow> agrees g \<Longrightarrow> agrees (v_data v) \<and> g_lo (v_data v) = g_lo g \<and> g_hi (v_data v) = g_hi g"
proof (induction rule: reached.induct)
  case (event v e)
  then show ?case using evolves_agrees [OF step_evolves, of v ext e] by simp
qed (simp add: new_view_def)

text \<open>The attributes the code relies on while something moves, and the buffer.\<close>

definition drags_ok :: "view \<Rightarrow> bool" where
  "drags_ok v \<longleftrightarrow> (moving_both v \<longrightarrow> both_start v \<noteq> None \<and> both_cur v \<noteq> None) \<and>
     (moving_top v \<longrightarrow> top_start v \<noteq> None) \<and> (full_redraw v \<or> buffer_surface v \<noteq> None)"

lemmas drags_rules = and_then_rule [where P = drags_ok]

lemma drags_ok_data [simp]: "drags_ok (v\<lparr>v_data := g\<rparr>) = drags_ok v"
  by (simp add: drags_ok_def)

lemma drags_ok_set:
  "drags_ok v \<Longrightarrow> drags_ok (v\<lparr>top_start := Some x\<rparr>)" "drags_ok v \<Longrightarrow> drags_ok (v\<lparr>top_cur := c\<rparr>)"
  "drags_ok v \<Longrightarrow> drags_ok (v\<lparr>left_cur := c\<rparr>)" "drags_ok v \<Longrightarrow> drags_ok (v\<lparr>right_cur := c\<rparr>)"
  "drags_ok v \<Longrightarrow> drags_ok (v\<lparr>both_cur := Some x\<rparr>)" "drags_ok v \<Longrightarrow> drags_ok (v\<lparr>moving_right := f\<rparr>)"
  "drags_ok v \<Longrightarrow> drags_ok (v\<lparr>moving_left := b\<rparr>)" "drags_ok v \<Longrightarrow> drags_ok (v\<lparr>moving_both := False\<rparr>)"
  "drags_ok v \<Longrightarrow> drags_ok (v\<lparr>moving_top := False\<rparr>)" "drags_ok v \<Longrightarrow> drags_ok (v\<lparr>full_redraw := True\<rparr>)"
  "drags_ok v \<Longrightarrow> drags_ok (v\<lparr>v_files := fs\<rparr>)" "drags_ok v \<Longrightarrow> drags_ok (v\<lparr>v_window := ops\<rparr>)"
  "drags_ok v \<Longrightarrow> drags_ok (v\<lparr>v_cursor := cur\<rparr>)"
  "drags_ok v \<Longrightarrow> drags_ok (v\<lparr>moving_top := True, top_start := Some x, top_cur := c\<rparr>)"
  "drags_ok v \<Longrightarrow> drags_ok (v\<lparr>moving_both := True, both_start := Some x, both_cur := Some y\<rparr>)"
  "drags_ok v \<Longrightarrow> drags_ok (v\<lparr>v_width := w, v_height := h\<rparr>)"
  by (auto simp: drags_ok_def)

lemma queue_drags [simp]: "drags_ok (queue_draw v) = drags_ok v"
  by (simp add: queue_draw_def drags_ok_def)

lemma queue_area_drags: "drags_ok v \<Longrightarrow> drags_ok (fst (queue_area y h v))"
  by (auto simp: queue_area_def drags_ok_def fst_and_then split: sum.split)

lemma show_range_drags: "drags_ok v \<Longrightarrow> drags_ok (fst (show_range ext a b x v))"
  by (auto simp: show_range_def intro!: drags_rules drags_ok_set split: prod.split)

lemma draw_on_drags: "drags_ok v \<Longrightarrow> drags_ok (fst (draw_on ext s v))"
  by (auto simp: draw_on_def drags_ok_def split: sum.split prod.split)

lemma draw_on_buffer: "buffer_surface (fst (draw_on ext s v)) \<noteq> None"
  by (auto simp: draw_on_def split: sum.split prod.split)

lemma press_drags: "drags_ok v \<Longrightarrow> drags_ok (fst (button_press x y v))"
  by (auto simp: button_press_def intro!: drags_rules drags_ok_set split: prod.split)

lemma release_drags: "drags_ok v \<Longrightarrow> drags_ok (fst (button_release ext v))"
  by (auto simp: button_release_def intro!: drags_rules show_range_drags drags_ok_set)

lemma hover_drags: "drags_ok v \<Longrightarrow> drags_ok (fst (hover x y r v))"
  by (auto simp: hover_def intro!: drags_ok_set split: prod.split)

lemma motion_drags: "drags_ok v \<Longrightarrow> drags_ok (fst (motion_notify ext x y v))"
  by (auto simp: motion_notify_def intro!: drags_rules show_range_drags queue_area_drags hover_drags
      drags_ok_set split: prod.split)

lemma allocate_drags: "drags_ok v \<Longrightarrow> drags_ok (fst (size_allocate ext w h v))"
  by (auto simp: size_allocate_def Let_def intro!: drags_rules drags_ok_set split: prod.split)

lemma png_drags: "drags_ok v \<Longrightarrow> drags_ok (fst (output_png ext n v))"
  by (auto simp: output_png_def Let_def intro!: drags_rules draw_on_drags drags_ok_set)

lemma show_ops_drags: "drags_ok v \<Longrightarrow> drags_ok (show_ops ops v)"
  by (simp add: show_ops_def drags_ok_set)

lemma redraw_drags:
  assumes "drags_ok v"
  shows "drags_ok (fst (and_then (draw_on ext s v) (\<lambda>u v. (v\<lparr>full_redraw := False\<rparr>, Inr ()))))"
  using draw_on_drags [OF assms, of ext s] draw_on_buffer [of ext s v]
  by (auto simp: drags_ok_def fst_and_then split: sum.split)

lemma expose_drags: "drags_ok v \<Longrightarrow> drags_ok (fst (expose ext ax ay aw ah v))"
  unfolding expose_def Let_def
  by (auto intro!: drags_rules redraw_drags drags_ok_set show_ops_drags split: prod.split)

lemma step_drags: "drags_ok v \<Longrightarrow> drags_ok (ui_step ext e v)"
  by (cases e) (simp_all add: ui_step_def press_drags release_drags motion_drags allocate_drags
      expose_drags png_drags show_range_drags set_smaller_zoom_def set_bigger_zoom_def get_range_of_def)

lemma reached_drags: "reached ext g v \<Longrightarrow> drags_ok v"
  by (induction rule: reached.induct) (simp_all add: step_drags, simp add: new_view_def drags_ok_def)

section \<open>Errors\<close>

lemma scale_selection_error: "scale_selection x g = Inl e \<Longrightarrow> e = ZeroDivisionError"
  by (auto simp: scale_selection_def rbind_def num_div_Inl split: sum.splits)

lemma set_range_error: "snd (set_range ext a b g) = Inl e \<Longrightarrow> e = ZeroDivisionError"
  by (simp add: set_range_def Let_def layout_graphic_error split: if_splits)

lemma show_range_error: "snd (show_range ext a b x v) = Inl e \<Longrightarrow> e = ZeroDivisionError"
  using set_range_error [of ext a b "v_data v" e]
  by (cases "set_range ext a b (v_data v)") (auto simp: show_range_def snd_and_then_Inl)

lemma attr_bind: "rbind (attr a) f = (case a of None \<Rightarrow> Inl AttributeError | Some x \<Rightarrow> f x)"
  by (simp add: attr_def split: option.split)

lemma release_error:
  assumes "drags_ok v"
  shows "snd (button_release ext v) = Inl e \<Longrightarrow> e = AttributeError \<or> e = ZeroDivisionError"
    and "snd (button_release ext v) = Inl AttributeError \<longleftrightarrow>
      (moving_left v \<and> left_cur v = None) \<or>
      (\<not> moving_left v \<and> truth (moving_right v) \<and> right_cur v = None)"
  using assms
  by (auto simp: button_release_def snd_and_then_Inl attr_bind drags_ok_def
      dest: scale_selection_error show_range_error split: if_splits option.splits)

section \<open>The start\<close>

text \<open>No time in the file is negative, so the lower bound is 0.\<close>

definition times_ok :: "timeline \<Rightarrow> bool" where
  "times_ok t \<longleftrightarrow>
     list_all (\<lambda>r. list_all (\<lambda>d. 0 \<le> dr_start d \<and> 0 \<le> dr_end d) (tr_ranges r)) (tl_ranges t) \<and>
     list_all (\<lambda>e. list_all (\<lambda>x. 0 \<le> ev_at x) (te_events e)) (tl_event_str t) \<and>
     list_all (\<lambda>e. list_all (\<lambda>x. 0 \<le> ev_at x) (te_events e)) (tl_event_int t)"

lemma times_ok_new: "times_ok (new_timeline n)"
  by (simp add: times_ok_def new_timeline_def)

lemma times_ok_in:
  "times_ok t \<Longrightarrow> 0 \<le> dr_start d \<and> 0 \<le> dr_end d \<Longrightarrow> times_ok (in_range_list n (add_range d) t)"
  "times_ok t \<Longrightarrow> 0 \<le> ev_at e \<Longrightarrow> times_ok (in_event_str n (add_event e) t)"
  "times_ok t \<Longrightarrow> 0 \<le> ev_at e \<Longrightarrow> times_ok (in_event_int n (add_event e) t)"
  by (auto simp: times_ok_def in_range_list_def in_event_str_def in_event_int_def add_range_def
      add_event_def new_range_def new_event_def
      intro!: range_items.items_modify event_items.items_modify split: prod.split)

definition line_times_ok :: "data_line \<Rightarrow> bool" where
  "line_times_ok d = (case d of RangeLine t n v s e \<Rightarrow> 0 \<le> s \<and> 0 \<le> e | StrLine t n v a \<Rightarrow> 0 \<le> a
     | IntLine t n v a \<Rightarrow> 0 \<le> a | _ \<Rightarrow> True)"

lemma match_number_nonneg: "match_number s = Some (n, r) \<Longrightarrow> 0 \<le> n"
  by (auto simp: match_number_def)

lemma number_blank_nonneg: "number_blank s = Some (n, r) \<Longrightarrow> 0 \<le> n"
  by (auto simp: number_blank_def bind_eq_Some_conv dest: match_number_nonneg)

lemma parse_times: "line_times_ok (parse_data_line l)"
  by (auto simp: parse_data_line_def match_range_line_def match_str_line_def match_int_line_def
      match_color_line_def bind_eq_Some_conv line_times_ok_def
      dest: match_number_nonneg number_blank_nonneg split: option.split)

lemma in_timeline_times:
  assumes "list_all times_ok ts" and "\<And>t. times_ok t \<Longrightarrow> times_ok (f t)"
  shows "list_all times_ok (in_timeline n f ts)"
proof (cases "timelines_get n ts")
  case (Pair i ys)
  then show ?thesis
    using line_items.items_modify [where P = times_ok and f = f, OF Pair assms(1) times_ok_new assms(2)]
    by (simp add: in_timeline_def)
qed

lemma add_data_line_times: "line_times_ok d \<Longrightarrow> list_all times_ok (snd st) \<Longrightarrow> list_all times_ok (snd (add_data_line d st))"
  by (cases st; cases d) (auto simp: add_data_line_def line_times_ok_def intro!: in_timeline_times times_ok_in)

lemma add_data_lines_times:
  "list_all line_times_ok ds \<Longrightarrow> list_all times_ok (snd st) \<Longrightarrow> list_all times_ok (snd (fold add_data_line ds st))"
  by (induction ds arbitrary: st) (simp_all add: add_data_line_times)

lemma sort_times: "times_ok t \<Longrightarrow> times_ok (timeline_sort t)"
  by (simp add: times_ok_def timeline_sort_def range_sort_def event_sort_def sort_ranges sort_events
      list_all_iff)

lemma read_data_times: "list_all times_ok (snd (read_data ls))"
proof -
  have "list_all times_ok (snd (fold add_data_line (map parse_data_line ls) (new_colors, [])))"
    by (rule add_data_lines_times) (simp_all add: list_all_iff parse_times)
  then show ?thesis
    by (auto simp: read_data_def timelines_sort_def list_all_iff sort_times split: prod.split)
qed

lemma fold_widen_lower: "list_all (\<lambda>b. 0 \<le> fst b) bs \<Longrightarrow> fst (fold widen bs (0, h)) = 0"
  by (induction bs arbitrary: h) (auto simp: widen_def split: prod.split)

lemma timelines_bounds_lower:
  assumes "list_all times_ok ts"
  shows "fst (timelines_bounds ts) = 0"
proof -
  have "0 \<le> fst (timeline_bounds t)" if "times_ok t" for t
  proof -
    have "list_all (\<lambda>b. 0 \<le> fst b) (map range_bounds (tl_ranges t) @ map event_bounds (tl_event_str t) @
        map event_bounds (tl_event_int t))"
      using that by (auto simp: times_ok_def list_all_iff range_bounds_def event_bounds_def)
    then show ?thesis by (simp only: timeline_bounds_def fold_widen_lower order_refl)
  qed
  then show ?thesis
    using assms by (simp add: timelines_bounds_def fold_widen_lower list_all_iff)
qed

text \<open>The keys of the dictionary are the values of the ranges, each once.\<close>

lemma range_values_keys:
  assumes "\<And>ks. mset (key_order ks) = mset ks"
  shows "set (get_all_range_values key_order ts) = range_values ts"
    and "distinct (get_all_range_values key_order ts)"
proof -
  let ?vs = "concat (map (\<lambda>t. concat (map (\<lambda>r. map dr_value (tr_ranges r)) (tl_ranges t))) ts)"
  define d where "d = fold (\<lambda>v. dict_put v (1::int)) ?vs []"
  have "set (dict_keys (fold (\<lambda>v. dict_put v (1::int)) vs d)) = set (dict_keys d) \<union> set vs \<and>
      (dict_ok d \<longrightarrow> dict_ok (fold (\<lambda>v. dict_put v 1) vs d))" for vs and d :: "(string, int) pydict"
    by (induction vs arbitrary: d) (auto simp: pd.keys_put pd.ok_put)
  then have d: "set (dict_keys d) = set ?vs" "dict_ok d"
    by (simp_all add: d_def dict_ok_def)
  have "mset (key_order (dict_keys d)) = mset (dict_keys d)" using assms .
  then have "set (key_order (dict_keys d)) = set (dict_keys d)"
    "distinct (key_order (dict_keys d)) = distinct (dict_keys d)"
    by (rule mset_eq_setD, rule mset_eq_imp_distinct_iff)
  moreover have "set ?vs = range_values ts" by (auto simp: range_values_def)
  ultimately show "set (get_all_range_values key_order ts) = range_values ts"
    "distinct (get_all_range_values key_order ts)"
    using d by (simp_all add: get_all_range_values_def d_def [symmetric] dict_ok_def dict_keys_def)
qed

text \<open>What drawing needs, and what \<open>main\<close> sets up.\<close>

definition drawable :: "graphic \<Rightarrow> bool" where
  "drawable g \<longleftrightarrow> length (lg_colors (g_legend g)) = length (lg_legends (g_legend g)) \<and>
     None \<notin> set (lg_colors (g_legend g)) \<and>
     range_values (lr_timelines (g_lines g)) \<subseteq> colored (lr_colors (g_lines g))"

lemma draw_graphic_total:
  assumes "drawable g" and "agrees g" and "num_val (g_start g) \<noteq> num_val (g_end g)"
    and "num_val (g_lo g) \<noteq> num_val (g_hi g)" and "0 < sc_delta (g_mid g)" and "0 < sc_delta (g_bot g)"
  shows "\<exists>ops. draw_graphic ext g = Inr (ops, g)"
proof -
  obtain legend lines mid bot where
    "draw_legend ext (g_legend g) = Inr legend" "draw_scale ext (g_mid g) = Inr mid"
    "draw_lines ext (g_lines g) = Inr (lines, lr_colors (g_lines g))" "draw_scale ext (g_bot g) = Inr bot"
    using draw_legend_total draw_scale_total [OF assms(5)] draw_scale_total [OF assms(6)]
      draw_lines_total [of "g_lines g"] assms(1-3) unfolding drawable_def agrees_def by metis
  moreover obtain s e where "get_position (g_bot g) (g_start g) = Inr s" "get_position (g_bot g) (g_end g) = Inr e"
    using assms(2,4) by (simp add: get_position_def num_div_def agrees_def)
  ultimately show ?thesis by (simp add: draw_graphic_def Let_def)
qed

lemma layout_graphic_bot_width:
  assumes "layout_graphic ext w h g = (g', Inr u)"
  shows "sc_width (g_bot g') = w"
  using assms by (auto simp: layout_graphic_def Let_def and_then_def dest: layout_scale_keeps split: sum.splits)

lemma layout_graphic_deltas:
  assumes "layout_graphic ext w h g = (g', Inr u)"
  shows "0 < sc_delta (g_mid g')" and "0 < sc_delta (g_bot g')"
proof -
  obtain mid bot where
    m: "layout_scale ext (w - get_data_x_start (layout_lines ext w (g_lines g))) (g_mid g) = Inr mid"
      "layout_scale ext w (g_bot g) = Inr bot"
    and g': "g_mid g' = mid" "g_bot g' = bot"
    using assms by (auto simp: layout_graphic_def Let_def and_then_def split: sum.splits)
  show "0 < sc_delta (g_mid g')" "0 < sc_delta (g_bot g')"
    using layout_scale_cases [of "g_mid g" ext] layout_scale_cases [of "g_bot g" ext] m g'
    by (metis old.sum.inject(2) sum.distinct(1))+
qed

text \<open>The range \<open>main\<close> shows first lies within the bounds and has an even width.\<close>

lemma startup_range:
  fixes upper :: int
  assumes "0 \<le> upper"
  obtains m d where "m = upper div 2" "d = upper div 10 div 2" "0 \<le> d" "d \<le> m" "m + d \<le> upper"
proof -
  have "upper div 10 div 2 = upper div 20" by (simp add: div_mult2_eq [symmetric])
  moreover have "0 \<le> upper div 20" "upper div 20 \<le> upper div 2" "upper div 2 + upper div 20 \<le> upper"
    using assms by linarith+
  ultimately show ?thesis using that [OF refl refl] by metis
qed

lemma startup_cases:
  assumes keys: "\<And>ks. mset (key_order ks) = mset ks"
    and data: "read_data ls = (cs, ts)" and bounds: "timelines_bounds ts = (lower, upper)"
  shows "if length (default_colors cs) < length (uncolored (get_all_range_values key_order ts) cs)
    then startup ext key_order ls = Inl IndexError
    else if upper = 1 then startup ext key_order ls = Inl ZeroDivisionError
    else \<exists>g. startup ext key_order ls = Inr g \<and> agrees g \<and> drawable g \<and>
      num_val (g_lo g) = 0 \<and> num_val (g_hi g) = of_int upper \<and>
      num_val (g_start g) = of_int (upper div 2 - upper div 10 div 2) \<and>
      num_val (g_end g) = of_int (upper div 2 + upper div 10 div 2) \<and> lr_timelines (g_lines g) = ts"
proof -
  define names where "names = get_all_range_values key_order ts"
  have names: "set names = range_values ts" "distinct names"
    using range_values_keys [OF keys] by (simp_all add: names_def)
  have lower: "lower = 0" using read_data_times [of ls] timelines_bounds_lower [of ts] data bounds by simp
  have upper: "0 \<le> upper" using timelines_bounds_zero [OF bounds] by simp
  obtain m d where md: "m = upper div 2" "d = upper div 10 div 2" and m: "0 \<le> d" "d \<le> m" "m + d \<le> upper"
    using startup_range [OF upper] .
  note md' = md [symmetric]
  show ?thesis
  proof (cases "length (default_colors cs) < length (uncolored names cs)")
    case True
    then have "lookup_all names cs = Inl IndexError" using lookup_all_cases [OF names(2), of cs] by simp
    then show ?thesis using True by (simp add: startup_def data bounds names_def)
  next
    case False
    then obtain rc cs' where l: "lookup_all names cs = Inr (rc, cs')" "colored cs' = colored cs \<union> set names"
      using lookup_all_cases [OF names(2), of cs] by auto
    let ?g = "new_graphic (PInt lower) (PInt upper) (new_lines ts cs') (set_legends names rc new_legend)"
    let ?a = "PInt (m - d)" and ?b = "PInt (m + d)"
    define g where "g = fst (set_range ext ?a ?b ?g)"
    have start: "startup ext key_order ls = (case snd (set_range ext ?a ?b ?g) of Inl e \<Rightarrow> Inl e | Inr u \<Rightarrow> Inr g)"
      using l(1) by (auto simp: startup_def data bounds names_def [symmetric] lower g_def Let_def md'
          split: prod.split sum.split)
    have "agrees g"
      unfolding g_def by (rule set_range_agrees) (simp_all add: new_graphic_def set_bounds_def)
    moreover have "drawable g"
      using lookup_all_some [OF l(1)] l(2) names
      by (simp add: drawable_def g_def set_range_def Let_def layout_graphic_keeps [OF refl]
          set_render_range_def new_graphic_def set_legends_def new_lines_def)
    moreover have "num_val (g_lo g) = 0" "num_val (g_hi g) = of_int upper"
      by (simp_all add: g_def set_range_sets [OF refl] new_graphic_def lower)
    moreover have range: "num_val (g_start g) = of_int (m - d)" "num_val (g_end g) = of_int (m + d)"
    proof -
      have "rat_of_int 0 \<le> of_int (m - d)" "rat_of_int (m - d) \<le> of_int (m + d)" "rat_of_int (m + d) \<le> of_int upper"
        using m by (simp_all only: of_int_le_iff)
      then show "num_val (g_start g) = of_int (m - d)" "num_val (g_end g) = of_int (m + d)"
        unfolding g_def set_range_sets [OF refl]
        by (simp_all add: new_graphic_def lower)
    qed
    moreover have "lr_timelines (g_lines g) = ts"
      by (simp add: g_def set_range_def Let_def layout_graphic_keeps [OF refl]
          set_render_range_def new_graphic_def new_lines_def)
    moreover have "snd (set_range ext ?a ?b ?g) = (if upper = 1 then Inl ZeroDivisionError else Inr ())"
    proof -
      have "(m + d) - (m - d) \<noteq> 1" by presburger
      then have "rat_of_int (m + d) - rat_of_int (m - d) \<noteq> 1"
        by (metis of_int_1 of_int_diff of_int_eq_iff)
      then have "num_val (g_end g) - num_val (g_start g) \<noteq> 1" using range by simp
      moreover have "g_start g = num_max (g_lo ?g) (num_min ?a ?b)" "g_end g = num_min (g_hi ?g) (num_max ?a ?b)"
        by (simp_all only: g_def set_range_sets [OF refl])
      ultimately show ?thesis
        by (simp add: set_range_def Let_def layout_graphic_error set_bounds_def new_graphic_def lower
            del: num_val_max num_val_min)
    qed
    ultimately show ?thesis using False start by (simp add: names_def md')
  qed
qed

lemma layout_graphic_drawable: "drawable g \<Longrightarrow> drawable (fst (layout_graphic ext w h g))"
  by (simp add: drawable_def layout_graphic_keeps [OF refl])

lemma first_expose:
  assumes "drawable g" and "agrees g" and "num_val (g_start g) \<noteq> num_val (g_end g)"
    and "num_val (g_end g) - num_val (g_start g) \<noteq> 1"
    and "num_val (g_hi g) \<noteq> num_val (g_lo g)" and "num_val (g_hi g) - num_val (g_lo g) \<noteq> 1"
  shows "snd (expose ext ax ay aw ah (ui_step ext (Allocate w h) (new_view g))) = Inr False"
proof -
  obtain g' where g': "layout_graphic ext (PInt w) (PInt h) g = (g', Inr ())"
    using layout_graphic_error [of ext "PInt w" "PInt h" g] assms(2,4,6)
    by (cases "layout_graphic ext (PInt w) (PInt h) g") (auto simp: agrees_def)
  note keeps = layout_graphic_keeps [of ext "PInt w" "PInt h" g g', unfolded g', OF fst_conv]
  have ok: "drawable g'" "agrees g'"
    using layout_graphic_drawable [OF assms(1)] layout_graphic_agrees [OF assms(2)] g' by (metis fst_conv)+
  obtain ops where ops: "draw_graphic ext g' = Inr (ops, g')"
    using draw_graphic_total [OF ok _ _ layout_graphic_deltas [OF g']] assms(3,5) keeps by auto
  obtain x where "get_selection_rectangle g' = Inr x"
    using ok(2) assms(5) keeps
    by (simp add: get_selection_rectangle_def get_position_def num_div_def agrees_def)
  moreover define v where "v = ui_step ext (Allocate w h) (new_view g)"
  then have v: "v_data v = g'" "full_redraw v" "\<not> moving_left v" "\<not> truth (moving_right v)" "\<not> moving_both v"
    using g' by (simp_all add: ui_step_def size_allocate_def new_view_def queue_draw_def)
  ultimately show ?thesis
    unfolding v_def [symmetric] using ops
    by (cases x) (simp add: expose_def draw_on_def Let_def attr_def show_ops_def)
qed

section \<open>Positions and zooming\<close>

lemma position_back:
  assumes "sc_lo (g_bot g) = PInt 0" and "num_val (sc_hi (g_bot g)) = num_val (g_hi g)"
    and "g_lo g = PFloat 0" and "sc_width (g_bot g) = PInt w" "g_width g = PInt w" and "0 < w"
    and "get_position (g_bot g) t = Inr x"
  shows "\<exists>t'. scale_selection x g = Inr t' \<and>
    num_val t' = (if is_int x then of_int (num_int x div w) * num_val (g_hi g) else num_val t)"
proof -
  have w: "rat_of_int w \<noteq> 0" using assms(6) by simp
  have hi: "num_val (g_hi g) \<noteq> 0"
    using assms(1,2,7) by (auto simp: get_position_def num_div_def split: if_splits)
  show ?thesis
  proof (cases x)
    case (PInt i)
    then show ?thesis using assms(3,5) w by (simp add: scale_selection_def num_div_def num_int_def)
  next
    case (PFloat q)
    then have "q = num_val t * of_int w / num_val (g_hi g)"
      using assms(1,2,4,7) by (auto simp: get_position_def dest!: num_div_float)
    then show ?thesis using PFloat assms(3,5) w hi by (simp add: scale_selection_def num_div_def)
  qed
qed

lemma num_val_half:
  "num_val (half x) = (if is_int x then of_int (num_int x div 2) else num_val x / 2)"
  by (cases x) (simp_all add: half_def num_int_def)

lemma zoom_in_range:
  assumes "agrees g" and "num_val (g_start g) \<le> num_val (g_end g)" and "v_data v = g"
  shows "num_val (g_start (v_data (ui_step ext ZoomIn v))) = num_val (g_start g)"
    and "num_val (g_end (v_data (ui_step ext ZoomIn v))) = num_val (g_start g) + num_val (half (g_end g - g_start g))"
proof -
  let ?h = "half (g_end g - g_start g)"
  have "0 \<le> num_val ?h \<and> num_val ?h \<le> num_val (g_end g) - num_val (g_start g)"
  proof (cases "g_end g - g_start g")
    case (PInt i)
    then have "num_val (g_end g) - num_val (g_start g) = of_int i" by (metis num_val.simps(1) num_val_simps(5))
    moreover from this have "0 \<le> i" using assms(2) by (metis diff_ge_0_iff_ge of_int_0_le_iff)
    moreover from this have "0 \<le> i div 2" "i div 2 \<le> i" by linarith+
    ultimately show ?thesis using PInt by (simp add: half_def)
  next
    case (PFloat q)
    then have "num_val (g_end g) - num_val (g_start g) = q" by (metis num_val.simps(2) num_val_simps(5))
    then show ?thesis using PFloat assms(2) by (simp add: half_def)
  qed
  then show "num_val (g_start (v_data (ui_step ext ZoomIn v))) = num_val (g_start g)"
    "num_val (g_end (v_data (ui_step ext ZoomIn v))) = num_val (g_start g) + num_val ?h"
    using assms
    by (simp_all add: ui_step_def set_bigger_zoom_def get_range_of_def show_range_data
        set_range_sets [OF refl] agrees_def)
qed

lemma zoom_out_range:
  assumes "agrees g" and "num_val (g_start g) \<le> num_val (g_end g)" and "v_data v = g"
  shows "num_val (g_start (v_data (ui_step ext ZoomOut v))) = num_val (g_start g)"
    and "num_val (g_end (v_data (ui_step ext ZoomOut v))) =
      min (num_val (g_hi g)) (2 * num_val (g_end g) - num_val (g_start g))"
  using assms
  by (simp_all add: ui_step_def set_smaller_zoom_def get_range_of_def show_range_data
      set_range_sets [OF refl] agrees_def)

text \<open>A range that has become empty stays empty under both zooms.\<close>

lemma empty_range_stays:
  assumes "agrees (v_data v)" and "num_val (g_start (v_data v)) = num_val (g_end (v_data v))"
    and "e = ZoomIn \<or> e = ZoomOut" and "v' = ui_step ext e v"
  shows "num_val (g_start (v_data v')) = num_val (g_end (v_data v'))"
proof -
  have "num_val (half (g_end (v_data v) - g_start (v_data v))) = 0"
    using assms(2) by (cases "g_end (v_data v) - g_start (v_data v)")
      (auto simp: half_def dest!: arg_cong [where f = num_val])
  then show ?thesis
    using zoom_in_range [OF assms(1) eq_refl [OF assms(2)] refl, of ext]
      zoom_out_range [OF assms(1) eq_refl [OF assms(2)] refl, of ext] assms
    by (auto simp: agrees_def)
qed

text \<open>The file \<open>output_png\<close> writes is blank; the drawing goes into the buffer.\<close>

lemma png_is_blank:
  assumes "output_png ext name v = (v', Inr ())"
  shows "v_files v' = v_files (fst (draw_on ext (the (buffer_surface v)) v)) @ [(name, blank (v_data v))]"
  using assms
  by (auto simp: output_png_def Let_def and_then_def attr_def split: sum.splits option.splits prod.splits)

text \<open>The lower bound is 0 in every state.\<close>

lemma evolves_bot:
  assumes "evolves ext g g'"
  shows "sc_lo (g_bot g') = sc_lo (g_bot g) \<and> g_lo g' = g_lo g"
proof -
  have "\<exists>cs. g' = g\<lparr>g_lines := (g_lines g)\<lparr>lr_colors := cs\<rparr>\<rparr>" if "draw_graphic ext g = Inr (ops, g')" for ops
    using draw_graphic_keeps [OF that] .
  then show ?thesis
    using assms layout_graphic_keeps(1,9) [OF refl]
    by (fastforce simp: evolves_def set_range_def Let_def)
qed

lemma reached_bot:
  "reached ext g v \<Longrightarrow> sc_lo (g_bot (v_data v)) = sc_lo (g_bot g) \<and> g_lo (v_data v) = g_lo g"
proof (induction rule: reached.induct)
  case (event v e)
  then show ?case using evolves_bot [OF step_evolves [of ext v e]] by simp
qed (simp add: new_view_def)

lemma startup_lower:
  assumes "startup ext key_order ls = Inr g"
  shows "agrees g" and "sc_lo (g_bot g) = PInt 0" and "g_lo g = PFloat 0"
proof -
  obtain cs ts where data: "read_data ls = (cs, ts)" by fastforce
  obtain lower upper where bounds: "timelines_bounds ts = (lower, upper)" by fastforce
  have 0: "lower = 0" using read_data_times [of ls] timelines_bounds_lower [of ts] data bounds by simp
  obtain rc cs' where l: "lookup_all (get_all_range_values key_order ts) cs = Inr (rc, cs')"
    using assms by (auto simp: startup_def data bounds Let_def rbind_Inr_iff)
  let ?new = "new_graphic (PInt 0) (PInt upper) (new_lines ts cs')
    (set_legends (get_all_range_values key_order ts) rc new_legend)"
  obtain a b where g: "g = fst (set_range ext a b ?new)"
    using assms
    by (cases "set_range ext (PInt (upper div 2 - upper div 10 div 2))
          (PInt (upper div 2 + upper div 10 div 2)) ?new")
      (auto simp: startup_def data bounds 0 l Let_def split: sum.splits, metis fst_conv)
  show "agrees g"
    unfolding g by (rule set_range_agrees) (simp_all add: new_graphic_def set_bounds_def)
  show "sc_lo (g_bot g) = PInt 0" "g_lo g = PFloat 0"
    unfolding g by (simp_all add: set_range_def Let_def layout_graphic_keeps [OF refl] new_graphic_def
        set_bounds_def to_float_def)
qed

section \<open>Properties\<close>

text \<open>C7:
  Whatever the user does, and whatever exceptions the handlers raise on the way, the range that is
  shown never starts before 0 nor ends after the upper bound, and the time lines, the upper and the
  lower scale hold the same range and the same bounds as the picture. The other sides are not limited: a drag
  of the time lines can take the start past the upper bound (\<open>drag_past_bound\<close> below).
\<close>
theorem view_consistent:
  assumes "startup ext key_order ls = Inr g" and "reached ext g v"
  shows "agrees (v_data v) \<and> 0 \<le> num_val (g_start (v_data v)) \<and>
    num_val (g_end (v_data v)) \<le> num_val (g_hi g)"
proof -
  have "agrees (v_data v)" "g_lo (v_data v) = PFloat 0" "g_hi (v_data v) = g_hi g"
    using reached_agrees [OF assms(2)] startup_lower [OF assms(1)] by simp_all
  then show ?thesis by (simp add: agrees_def)
qed

text \<open>In every state the user can reach, releasing the button fails with \<open>AttributeError\<close> exactly if
  one end of the range is held that has never been moved before, and with nothing else but
  \<open>ZeroDivisionError\<close>; a drag of the whole range always finds its start and its current position.
\<close>
theorem release_attribute_error:
  assumes "reached ext g v"
  shows "(snd (button_release ext v) = Inl AttributeError \<longleftrightarrow>
      moving_left v \<and> left_cur v = None \<or>
      \<not> moving_left v \<and> truth (moving_right v) \<and> right_cur v = None) \<and>
    snd (button_release ext v) \<in> {Inl AttributeError, Inl ZeroDivisionError, Inr True, Inr False}"
proof -
  note ok = reached_drags [OF assms]
  have "snd (button_release ext v) \<in> {Inl AttributeError, Inl ZeroDivisionError, Inr True, Inr False}"
  proof (cases "snd (button_release ext v)")
    case (Inl e)
    then show ?thesis using release_error(1) [OF ok Inl] by auto
  next
    case (Inr b)
    then show ?thesis by (cases b) simp_all
  qed
  then show ?thesis using release_error(2) [OF ok, of ext] by blast
qed

text \<open>C8:
  \<open>main\<close> fails with \<open>IndexError\<close> if the default colors do not suffice for the values of the ranges,
  and else with \<open>ZeroDivisionError\<close> exactly if the last time in the file is 1. Otherwise the
  window opens, and if the last time is 20 or more, the first picture is drawn without an error in
  a window of any size.
\<close>
theorem startup_outcome:
  assumes "\<And>ks. mset (key_order ks) = mset ks"
    and "read_data ls = (cs, ts)" and "timelines_bounds ts = (lower, upper)"
  shows "if length (default_colors cs) < length (uncolored (get_all_range_values key_order ts) cs)
    then startup ext key_order ls = Inl IndexError
    else if upper = 1 then startup ext key_order ls = Inl ZeroDivisionError
    else \<exists>g. startup ext key_order ls = Inr g \<and>
      (upper < 20 \<or> snd (expose ext ax ay aw ah (ui_step ext (Allocate w h) (new_view g))) = Inr False)"
proof (cases "length (default_colors cs) < length (uncolored (get_all_range_values key_order ts) cs) \<or> upper = 1")
  case True
  then show ?thesis using startup_cases [OF assms, of ext] by (auto split: if_splits)
next
  case False
  then obtain g where g: "startup ext key_order ls = Inr g" "agrees g" "drawable g" "num_val (g_lo g) = 0"
    "num_val (g_hi g) = of_int upper" "num_val (g_start g) = of_int (upper div 2 - upper div 10 div 2)"
    "num_val (g_end g) = of_int (upper div 2 + upper div 10 div 2)"
    using startup_cases [OF assms, of ext] by auto
  have "snd (expose ext ax ay aw ah (ui_step ext (Allocate w h) (new_view g))) = Inr False" if "20 \<le> upper"
  proof (rule first_expose [OF g(3,2)])
    define d where "d = upper div 10 div 2"
    have "1 \<le> upper div 20" using that by linarith
    then have "1 \<le> d" by (simp add: d_def div_mult2_eq [symmetric])
    moreover have "num_val (g_end g) - num_val (g_start g) = 2 * of_int d"
      by (simp add: g(6,7) d_def [symmetric])
    moreover have "1 \<le> rat_of_int d" using \<open>1 \<le> d\<close> by simp
    ultimately show "num_val (g_start g) \<noteq> num_val (g_end g)" "num_val (g_end g) - num_val (g_start g) \<noteq> 1"
      by linarith+
    have "20 \<le> rat_of_int upper" using that by simp
    then show "num_val (g_hi g) \<noteq> num_val (g_lo g)" "num_val (g_hi g) - num_val (g_lo g) \<noteq> 1"
      using g(4,5) by linarith+
  qed
  then show ?thesis using False g(1) by (cases "upper < 20") simp_all
qed

text \<open>After a layout of the window, dragging an end of the range to the pixel of a time sets the range
  to this time, if the pixel is a float. If it is an integer, which happens when an end is dragged
  to or past the other one before any range has been set with the mouse, the division by the width is an
  integer division and the range jumps to a multiple of the last time, inside the window to 0.
\<close>
theorem selection_roundtrip:
  assumes "startup ext key_order ls = Inr g" and "reached ext g v"
    and "size_allocate ext w h v = (v', Inr ())" and "0 < w"
    and "get_position (g_bot (v_data v')) t = Inr x"
  shows "\<exists>t'. scale_selection x (v_data v') = Inr t' \<and>
    num_val t' = (if is_int x then of_int (num_int x div w) * num_val (g_hi g) else num_val t)"
proof -
  have v': "v' = ui_step ext (Allocate w h) v" by (simp add: ui_step_def assms(3))
  then have r: "reached ext g v'" by (simp add: reached.event assms(2))
  obtain g' where g': "layout_graphic ext (PInt w) (PInt h) (v_data v) = (g', Inr ())" "v_data v' = g'"
    using assms(3)
    by (cases "layout_graphic ext (PInt w) (PInt h) (v_data v)"; cases "snd (layout_graphic ext (PInt w) (PInt h) (v_data v))")
      (auto simp: size_allocate_def Let_def)
  have "g_width g' = PInt w" "sc_width (g_bot g') = PInt w"
    using layout_graphic_keeps(11) [of ext "PInt w" "PInt h" "v_data v" g'] layout_graphic_bot_width [OF g'(1)]
    by (simp_all add: g'(1))
  moreover have "sc_lo (g_bot g') = PInt 0" "g_lo g' = PFloat 0"
    using reached_bot [OF r] startup_lower [OF assms(1)] g'(2) by simp_all
  moreover have "num_val (sc_hi (g_bot g')) = num_val (g_hi g')" "g_hi g' = g_hi g"
    using reached_agrees [OF r startup_lower(1) [OF assms(1)]] g'(2) by (simp_all add: agrees_def)
  ultimately show ?thesis using position_back [of g' w t x] assms(4,5) g'(2) by auto
qed

text \<open>Zooming out undoes zooming in, in every reachable state with a range that is not inverted and
  even if one of the two raises an exception, except that integer ends an odd width apart come one
  closer.
\<close>
theorem zoom_roundtrip:
  assumes "startup ext key_order ls = Inr g" and "reached ext g v"
    and "num_val (g_start (v_data v)) \<le> num_val (g_end (v_data v))"
    and "ui_step ext ZoomOut (ui_step ext ZoomIn v) = v'"
  shows "num_val (g_start (v_data v')) = num_val (g_start (v_data v)) \<and>
    num_val (g_end (v_data v')) = num_val (g_end (v_data v)) -
      (if is_int (g_end (v_data v) - g_start (v_data v)) \<and> odd (num_int (g_end (v_data v) - g_start (v_data v)))
       then 1 else 0)"
proof -
  let ?s = "g_start (v_data v)" and ?e = "g_end (v_data v)"
  define v1 where "v1 = ui_step ext ZoomIn v"
  have r1: "reached ext g v1" unfolding v1_def by (rule reached.event) (rule assms(2))
  note a = reached_agrees [OF assms(2) startup_lower(1) [OF assms(1)]]
    and a1 = reached_agrees [OF r1 startup_lower(1) [OF assms(1)]]
  note in_range = zoom_in_range [OF conjunct1 [OF a] assms(3) refl, of ext, folded v1_def]
  have half: "0 \<le> num_val (half (?e - ?s)) \<and>
      2 * num_val (half (?e - ?s)) = num_val ?e - num_val ?s - (if is_int (?e - ?s) \<and> odd (num_int (?e - ?s)) then 1 else 0)"
  proof (cases "?e - ?s")
    case (PInt i)
    then have i: "num_val ?e - num_val ?s = of_int i" by (metis num_val.simps(1) num_val_simps(5))
    have "0 \<le> i" using assms(3) i by (metis diff_ge_0_iff_ge of_int_0_le_iff)
    moreover have "2 * (i div 2) = i - (if odd i then 1 else 0)" by presburger
    then have "rat_of_int (2 * (i div 2)) = of_int (i - (if odd i then 1 else 0))" by (rule arg_cong)
    ultimately show ?thesis using i by (simp add: num_val_half PInt num_int_def)
  next
    case (PFloat q)
    then have "num_val ?e - num_val ?s = q" by (metis num_val.simps(2) num_val_simps(5))
    then show ?thesis using assms(3) by (simp add: num_val_half PFloat)
  qed
  have "num_val (g_start (v_data v1)) \<le> num_val (g_end (v_data v1))" using in_range half by simp
  note out_range = zoom_out_range [OF conjunct1 [OF a1] this refl, of ext]
  have "num_val ?e \<le> num_val (g_hi (v_data v1))" using a a1 by (auto simp: agrees_def)
  then show ?thesis
    using out_range in_range half assms(4) by (auto simp: v1_def min_def algebra_simps)
qed

section \<open>An example\<close>

definition demo_file :: "string list" where
  "demo_file = [''range n1 s busy 10 100'']"

definition demo_graphic :: graphic where
  "demo_graphic = (case startup demo_extents id demo_file of
     Inr g \<Rightarrow> g | Inl e \<Rightarrow> new_graphic 0 0 (new_lines [] new_colors) new_legend)"

definition demo_view :: view where
  "demo_view = ui_step demo_extents (Press (PFloat 135) (PFloat 110))
     (ui_step demo_extents (Allocate 300 200) (new_view demo_graphic))"

lemma demo_startup: "startup demo_extents id demo_file = Inr demo_graphic"
proof -
  have "case startup demo_extents id demo_file of Inr g \<Rightarrow> True | Inl e \<Rightarrow> False" by code_simp
  then show ?thesis by (auto simp: demo_graphic_def split: sum.split)
qed

lemma demo_reached: "reached demo_extents demo_graphic demo_view"
  unfolding demo_view_def by (intro reached.intros)

lemma demo_range: "g_start (v_data demo_view) = PInt 45" "g_end (v_data demo_view) = PInt 55"
  by code_simp+

text \<open>Each end of the range is limited on its own side only: a drag of the time lines by more than the range takes its start past
  the upper bound, and the range ends before it starts.\<close>

lemma set_range_past_bound:
  assumes "num_val (g_hi g) < num_val a" and "num_val a \<le> num_val b" and "num_val (g_lo g) \<le> num_val (g_hi g)"
  shows "num_val (g_start (fst (set_range ext a b g))) = num_val a \<and>
    num_val (g_end (fst (set_range ext a b g))) = num_val (g_hi g)"
  using assms set_range_sets(3,4) [OF refl, of ext a b g] by simp

lemma drag_past_bound:
  assumes "moving_top v" and "\<not> moving_left v" and "\<not> truth (moving_right v)" and "\<not> moving_both v"
    and "get_selection_rectangle (v_data v) = Inr rect" and "top_start v = Some s" and "scale_data (s - ex) (v_data v) = Inr d"
    and "num_val (g_start (v_data v)) \<le> num_val (g_end (v_data v))"
    and "num_val (g_lo (v_data v)) \<le> num_val (g_hi (v_data v))"
    and "num_val (g_hi (v_data v)) < num_val (g_start (v_data v)) + num_val d"
  shows "num_val (g_start (v_data (fst (motion_notify ext ex ey v)))) = num_val (g_start (v_data v)) + num_val d \<and>
    num_val (g_end (v_data (fst (motion_notify ext ex ey v)))) = num_val (g_hi (v_data v))"
proof -
  let ?a = "g_start (v_data v) + d" and ?b = "g_end (v_data v) + d"
  obtain x y w h where "rect = (x, y, w, h)" by (cases rect)
  then have "v_data (fst (motion_notify ext ex ey v)) = fst (set_range ext ?a ?b (v_data v))"
    using assms(1-7) by (simp add: motion_notify_def attr_def fst_and_then show_range_data split: sum.split)
  then show ?thesis using set_range_past_bound [of "v_data v" ?a ?b ext] assms(8-10) by simp
qed

theorem view_consistent_witness: "agrees (v_data demo_view)"
  using view_consistent [OF demo_startup demo_reached] by blast

theorem release_attribute_error_witness: "snd (button_release demo_extents demo_view) = Inl AttributeError"
proof -
  have "moving_left demo_view \<and> left_cur demo_view = None" by code_simp
  then show ?thesis using release_attribute_error [OF demo_reached] by blast
qed

theorem startup_outcome_witness:
  "\<exists>g. startup demo_extents id demo_file = Inr g \<and>
     snd (expose demo_extents 0 0 300 200 (ui_step demo_extents (Allocate 300 200) (new_view g))) = Inr False"
proof -
  define cs ts where "cs = fst (read_data demo_file)" and "ts = snd (read_data demo_file)"
  have 1: "read_data demo_file = (cs, ts)" by (simp add: cs_def ts_def)
  have 2: "timelines_bounds ts = (0, 100)" unfolding ts_def by code_simp
  have 3: "\<not> length (default_colors cs) < length (uncolored (get_all_range_values id ts) cs)"
    unfolding ts_def cs_def by code_simp
  show ?thesis using startup_outcome [of id, OF _ 1 2, of demo_extents 0 0 300 200 300 200] 3 by simp
qed

theorem selection_roundtrip_witness:
  "\<exists>v x t. size_allocate demo_extents 300 200 demo_view = (v, Inr ()) \<and>
     get_position (g_bot (v_data v)) (PFloat 45) = Inr x \<and> scale_selection x (v_data v) = Inr t \<and> num_val t = 45"
proof -
  define v where "v = fst (size_allocate demo_extents 300 200 demo_view)"
  have "snd (size_allocate demo_extents 300 200 demo_view) = Inr ()" by code_simp
  then have 1: "size_allocate demo_extents 300 200 demo_view = (v, Inr ())" by (simp add: v_def prod_eq_iff)
  have 2: "get_position (g_bot (v_data v)) (PFloat 45) = Inr (PFloat 135)" unfolding v_def by code_simp
  show ?thesis using selection_roundtrip [OF demo_startup demo_reached 1 _ 2] 1 2 by auto
qed

theorem zoom_roundtrip_witness:
  "num_val (g_end (v_data (ui_step demo_extents ZoomOut (ui_step demo_extents ZoomIn demo_view)))) = 55"
  using zoom_roundtrip [OF demo_startup demo_reached _ refl] by (simp add: demo_range num_int_def)

end
