(* ===== verification/WUtils.thy ===== *)
theory WUtils
  imports PyPath
begin

text \<open>
  \<open>src/wutils.py\<close>, the part of the build scripts that runs programs: finding a program among the
  targets of the build, the environment it gets, \<open>run_argv\<close> with and without valgrind, and the
  command lines of \<open>run_program\<close> and \<open>run_python_program\<close>. The options, targets and settings waf
  holds are records; \<open>shlex.split\<close>, \<open>subprocess.Popen\<close> and the table of signals are arguments.
\<close>

section \<open>Data\<close>

text \<open>
  \<open>WafError\<close> by what its message says (the wording is left out), and the other exceptions.
\<close>

datatype waf_error =
    ProgramNotFound string "string list" | TemplateAndValgrind | NoValgrind
  | CommandRaised "string list" | TerminatedBySignal "string list" string
  | ExitedWithCode "string list" int | PyError py_error

text \<open>A task generator of the build: \<open>path.abspath()\<close>, \<open>path.get_bld().abspath()\<close>, name, program file.\<close>

record task_gen =
  is_ns3_program :: bool
  source_path :: string
  build_path :: string
  tg_name :: string
  program_file :: string

record waf_settings =
  command_template :: "string option"
  use_valgrind :: bool
  options_cwd_launch :: string
  cwd_launch :: string
  launch_dir :: string
  ns3_module_path :: "string list"
  ns3_executable_path :: "string list"
  valgrind_programs :: "string list"
  python_programs :: "string list"
  python_bindings_dir :: string
  visualizer_dir :: string
  all_task_gen :: "task_gen list"

text \<open>The system: platform, environment, and a started program with its standard error and return value.\<close>

record waf_os =
  platform :: string
  os_environ :: "(string, string) pydict"
  os_pathsep :: string
  cwd_now :: string
  has_windows_error :: bool
  shlex_split :: "string \<Rightarrow> string list result"
  popen :: "string list \<Rightarrow> (string, string) pydict \<Rightarrow> string option \<Rightarrow> (string \<times> int) result"
  signal_vars :: "(string \<times> int option) list"

section \<open>Command templates and paths\<close>

definition get_command_template :: "string option \<Rightarrow> string list \<Rightarrow> string" where
  "get_command_template template arguments =
     fold (\<lambda>arg cmd. cmd @ '' '' @ arg) arguments
       (case template of None \<Rightarrow> ''%s'' | Some t \<Rightarrow> if t = [] then ''%s'' else t)"

text \<open>The definition used when \<open>os.path\<close> has no \<open>relpath\<close>; the library's drops empty components.\<close>

definition relpath :: "string \<Rightarrow> string \<Rightarrow> string \<Rightarrow> string result" where
  "relpath cwd p start =
     (if p = [] then Inl ValueError
      else
        let start_list = split_char CHR ''/'' (path_abspath cwd start);
            path_list = split_char CHR ''/'' (path_abspath cwd p);
            i = length (longest_common_prefix start_list path_list);
            rel_list = replicate (length start_list - i) ''..'' @ drop i path_list
        in Inr (case rel_list of [] \<Rightarrow> ''.'' | c # cs \<Rightarrow> foldl path_join c cs))"

section \<open>Finding a program\<close>

definition in_launch_tree :: "string \<Rightarrow> task_gen \<Rightarrow> bool" where
  "in_launch_tree dir obj \<longleftrightarrow> startswith dir (source_path obj) \<or> startswith dir (build_path obj)"

definition program_names :: "waf_os \<Rightarrow> string \<Rightarrow> task_gen \<Rightarrow> string list" where
  "program_names os dir obj =
     [tg_name obj, path_join (path_relpath (cwd_now os) (source_path obj) dir) (tg_name obj)]"

fun find_loop ::
  "waf_os \<Rightarrow> string \<Rightarrow> string \<Rightarrow> task_gen list \<Rightarrow> string list \<Rightarrow> waf_error + task_gen" where
  "find_loop os name dir [] found = Inl (ProgramNotFound name found)"
| "find_loop os name dir (obj # objs) found =
     (if \<not> is_ns3_program obj then find_loop os name dir objs found
      else if \<not> in_launch_tree dir obj then find_loop os name dir objs found
      else
        let names = program_names os dir obj; found = found @ names
        in if name \<in> set names then Inr obj else find_loop os name dir objs found)"

definition find_program :: "waf_os \<Rightarrow> waf_settings \<Rightarrow> string \<Rightarrow> waf_error + task_gen" where
  "find_program os s name =
     find_loop os name (path_abspath (cwd_now os) (launch_dir s)) (all_task_gen s) []"

section \<open>The environment of a program\<close>

definition library_var :: "string \<Rightarrow> string" where
  "library_var p =
     (if p = ''linux2'' \<or> p = ''linux'' then ''LD_LIBRARY_PATH''
      else if p = ''darwin'' then ''DYLD_LIBRARY_PATH''
      else if p = ''win32'' then ''PATH''
      else if p = ''cygwin'' then ''PATH''
      else ''LD_LIBRARY_PATH'')"

definition prepend_paths ::
  "string \<Rightarrow> string \<Rightarrow> string list \<Rightarrow> (string, string) pydict \<Rightarrow> (string, string) pydict" where
  "prepend_paths sep var paths env =
     (case dict_get env var of
        Some old \<Rightarrow> dict_put var (join sep (paths @ [old])) env
      | None \<Rightarrow> dict_put var (join sep paths) env)"

definition get_proc_env ::
  "waf_os \<Rightarrow> waf_settings \<Rightarrow> (string, string) pydict option \<Rightarrow> (string, string) pydict" where
  "get_proc_env os s os_env =
     (let sep = os_pathsep os;
          proc_env = os_environ os;
          proc_env = (case os_env of None \<Rightarrow> proc_env
                      | Some e \<Rightarrow> fold (\<lambda>(k, v). dict_put k v) e proc_env);
          proc_env = prepend_paths sep (library_var (platform os)) (ns3_module_path s) proc_env;
          proc_env = prepend_paths sep ''PYTHONPATH'' [python_bindings_dir s, visualizer_dir s] proc_env
      in prepend_paths sep ''PATH'' (ns3_executable_path s) proc_env)"

section \<open>Running a program\<close>

text \<open>\<open>for line in stderrdata\<close>: the items of a string are its characters.\<close>

definition leak_loop :: "string list \<Rightarrow> string \<times> bool \<Rightarrow> string \<times> bool" where
  "leak_loop ls st =
     fold (\<lambda>line (written, error). (written @ line, error \<or> str_in ''== LEAK SUMMARY'' line)) ls st"

definition characters :: "string \<Rightarrow> string list" where
  "characters s = map (\<lambda>c. [c]) s"

fun signal_name :: "(string \<times> int option) list \<Rightarrow> int \<Rightarrow> string option" where
  "signal_name [] retval = None"
| "signal_name ((name, val) # vars) retval =
     (if length name > 3 \<and> take 3 name = ''SIG'' \<and> name ! 3 \<noteq> CHR ''_'' \<and> val = Some (- retval)
      then Some name else signal_name vars retval)"

definition check_retval :: "waf_os \<Rightarrow> string list \<Rightarrow> int \<Rightarrow> waf_error + int" where
  "check_retval os argv retval =
     (if retval \<noteq> 0 then
        (case (if retval < 0 then signal_name (signal_vars os) retval else None) of
           Some name \<Rightarrow> Inl (TerminatedBySignal argv name)
         | None \<Rightarrow> Inl (ExitedWithCode argv retval))
      else Inr retval)"

definition windows_error :: py_error where
  "windows_error = OtherException ''WindowsError''"

text \<open>What is written to the standard error of the build itself, and the result.\<close>

definition run_argv ::
  "waf_os \<Rightarrow> waf_settings \<Rightarrow> string list \<Rightarrow> (string, string) pydict option \<Rightarrow> string option \<Rightarrow> bool \<Rightarrow>
   string \<times> (waf_error + int)" where
  "run_argv os s argv os_env cwd force_no_valgrind =
     (let proc_env = get_proc_env os s os_env
      in if use_valgrind s \<and> \<not> force_no_valgrind then
           if command_template s \<noteq> None \<and> command_template s \<noteq> Some [] then ('''', Inl TemplateAndValgrind)
           else if valgrind_programs s = [] then ('''', Inl NoValgrind)
           else
             let argv = [hd (valgrind_programs s), ''--leak-check=full'', ''--show-reachable=yes'',
                         ''--error-exitcode=1''] @ argv
             in (case popen os argv proc_env cwd of
                   Inl e \<Rightarrow> ('''', Inl (PyError e))
                 | Inr (stderrdata, code) \<Rightarrow>
                     (case leak_loop (characters stderrdata) ('''', False) of (written, error) \<Rightarrow>
                        let retval = (if code = 0 \<and> error then 1 else code)
                        in (written, check_retval os argv retval)))
         else
           (case popen os argv proc_env cwd of
              Inl e \<Rightarrow> ('''', Inl (if has_windows_error os \<and> e = windows_error then CommandRaised argv
                                else PyError e))
            | Inr (stderrdata, retval) \<Rightarrow> (stderrdata, check_retval os argv retval)))"

text \<open>
  \<open>template % (path,)\<close> for the conversions a command template has, \<open>%s\<close> and \<open>%%\<close>; any other one,
  which Python might accept, is an error here.
\<close>

fun percent :: "string \<Rightarrow> string list \<Rightarrow> string result" where
  "percent [] args = (if args = [] then Inr [] else Inl TypeError)"
| "percent (c # s) args =
     (if c \<noteq> CHR ''%'' then rbind (percent s args) (\<lambda>r. Inr (c # r))
      else
        (case s of
           [] \<Rightarrow> Inl ValueError
         | d # t \<Rightarrow>
             if d = CHR ''%'' then rbind (percent t args) (\<lambda>r. Inr (c # r))
             else if d = CHR ''s'' then
               (case args of [] \<Rightarrow> Inl TypeError | a # as \<Rightarrow> rbind (percent t as) (\<lambda>r. Inr (a @ r)))
             else Inl TypeError))"

definition double_backslashes :: "string \<Rightarrow> string" where
  "double_backslashes s = concat (map (\<lambda>c. if c = CHR 92 then [c, c] else [c]) s)"

definition py_to_waf :: "'a result \<Rightarrow> waf_error + 'a" where
  "py_to_waf r = (case r of Inl e \<Rightarrow> Inl (PyError e) | Inr x \<Rightarrow> Inr x)"

definition get_run_program ::
  "waf_os \<Rightarrow> waf_settings \<Rightarrow> string \<Rightarrow> string option \<Rightarrow> waf_error + string \<times> string list" where
  "get_run_program os s program_string template =
     (if template = None \<or> template = Some ''%s'' then
        rbind (py_to_waf (shlex_split os program_string)) (\<lambda>argv.
        rbind (py_to_waf (py_index argv 0)) (\<lambda>program_name.
        rbind (find_program os s program_name) (\<lambda>obj.
          Inr (program_name, program_file obj # drop 1 argv))))
      else
        rbind (find_program os s program_string) (\<lambda>obj.
        rbind (py_to_waf (percent (the template) [program_file obj])) (\<lambda>tmpl.
        rbind (py_to_waf (shlex_split os (double_backslashes tmpl))) (\<lambda>execvec.
          Inr (program_string, execvec)))))"

definition visual_argument :: string where
  "visual_argument = ''--SimulatorImplementationType=ns3::VisualSimulatorImpl''"

definition default_cwd :: "waf_settings \<Rightarrow> string" where
  "default_cwd s = (if options_cwd_launch s \<noteq> [] then options_cwd_launch s else cwd_launch s)"

definition run_program ::
  "waf_os \<Rightarrow> waf_settings \<Rightarrow> string \<Rightarrow> string option \<Rightarrow> string option \<Rightarrow> bool \<Rightarrow>
   string \<times> (waf_error + int)" where
  "run_program os s program_string template cwd visualize =
     (case get_run_program os s program_string template of
        Inl e \<Rightarrow> ('''', Inl e)
      | Inr (name, execvec) \<Rightarrow>
          let cwd = (case cwd of None \<Rightarrow> default_cwd s | Some d \<Rightarrow> d);
              execvec = (if visualize then execvec @ [visual_argument] else execvec)
          in run_argv os s execvec None (Some cwd) False)"

definition run_python_program ::
  "waf_os \<Rightarrow> waf_settings \<Rightarrow> string \<Rightarrow> bool \<Rightarrow> string \<times> (waf_error + int)" where
  "run_python_program os s program_string visualize =
     (case shlex_split os program_string of
        Inl e \<Rightarrow> ('''', Inl (PyError e))
      | Inr execvec \<Rightarrow>
          let execvec = (if visualize then execvec @ [visual_argument] else execvec)
          in (case py_index (python_programs s) 0 of
                Inl e \<Rightarrow> ('''', Inl (PyError e))
              | Inr python \<Rightarrow> run_argv os s (python # execvec) None (Some (default_cwd s)) False))"

text \<open>\<open>seen.add(x)\<close> answers \<open>None\<close>, so the condition keeps the first of equal elements.\<close>

fun uniquify_loop :: "'a set \<Rightarrow> 'a list \<Rightarrow> 'a list" where
  "uniquify_loop seen [] = []"
| "uniquify_loop seen (x # xs) =
     (if x \<notin> seen then x # uniquify_loop (insert x seen) xs else uniquify_loop seen xs)"

definition uniquify_list :: "'a list \<Rightarrow> 'a list" where
  "uniquify_list xs = uniquify_loop {} xs"

section \<open>Finding and running\<close>

lemma find_loop_eq:
  "find_loop os name dir objs found =
     (let progs = filter (\<lambda>obj. is_ns3_program obj \<and> in_launch_tree dir obj) objs
      in case find (\<lambda>obj. name \<in> set (program_names os dir obj)) progs of
           Some obj \<Rightarrow> Inr obj
         | None \<Rightarrow> Inl (ProgramNotFound name (found @ concat (map (program_names os dir) progs))))"
  by (induction objs arbitrary: found) (auto simp: Let_def split: option.split)

text \<open>A single character never contains the text that is searched for.\<close>

lemma leak_loop_characters: "leak_loop (characters s) (written, e) = (written @ s, e)"
proof (induction s arbitrary: written)
  case (Cons c s)
  then show ?case by (simp add: leak_loop_def characters_def startswith_def)
qed (simp add: leak_loop_def characters_def)

lemma get_prepend_paths:
  "dict_get (prepend_paths sep var paths env) k =
     (if k = var then Some (case dict_get env var of Some old \<Rightarrow> join sep (paths @ [old]) | None \<Rightarrow> join sep paths)
      else dict_get env k)"
  by (simp add: prepend_paths_def dict_simps split: option.split)

lemma uniquify_loop_distinct: "distinct (uniquify_loop A xs) \<and> set (uniquify_loop A xs) = set xs - A"
  by (induction xs arbitrary: A) auto

section \<open>Relative paths\<close>

lemma norm_comps_filter:
  "norm_comps a acc cs = norm_comps a acc (filter (\<lambda>c. c \<noteq> [] \<and> c \<noteq> ''.'') cs)"
  by (induction a acc cs rule: norm_comps.induct) simp_all

lemma norm_comps_append: "norm_comps a acc (xs @ ys) = norm_comps a (norm_comps a acc xs) ys"
  by (induction a acc xs rule: norm_comps.induct) simp_all

definition plain :: "string \<Rightarrow> bool" where
  "plain c \<longleftrightarrow> c \<noteq> [] \<and> c \<noteq> ''.'' \<and> c \<noteq> ''..''"

lemma norm_comps_absolute:
  "list_all (\<lambda>c. plain c \<and> CHR ''/'' \<notin> set c) acc \<Longrightarrow> list_all (\<lambda>c. CHR ''/'' \<notin> set c) cs \<Longrightarrow>
   list_all (\<lambda>c. plain c \<and> CHR ''/'' \<notin> set c) (norm_comps True acc cs)"
proof (induction True acc cs rule: norm_comps.induct)
  case (2 acc part comps)
  have "list_all (\<lambda>c. plain c \<and> CHR ''/'' \<notin> set c) (butlast acc)"
    using "2.prems" by (auto simp: list_all_iff dest: in_set_butlastD)
  moreover have "acc \<noteq> [] \<Longrightarrow> last acc \<noteq> ''..''"
    using "2.prems"(1) by (auto simp: list_all_iff plain_def)
  ultimately show ?case using 2 by (auto simp: plain_def)
qed simp

lemma norm_comps_plain: "list_all plain cs \<Longrightarrow> norm_comps True acc cs = acc @ cs"
  by (induction cs arbitrary: acc) (auto simp: plain_def)

lemma norm_comps_up:
  "list_all plain acc \<Longrightarrow> norm_comps True acc (replicate k ''..'') = take (length acc - k) acc"
proof (induction k arbitrary: acc)
  case (Suc k)
  have "list_all plain (butlast acc)" using Suc.prems by (auto simp: list_all_iff dest: in_set_butlastD)
  moreover have "acc \<noteq> [] \<Longrightarrow> last acc \<noteq> ''..''" using Suc.prems by (auto simp: list_all_iff plain_def)
  ultimately show ?case using Suc.IH [of "butlast acc"]
    by (auto simp: butlast_conv_take min_def)
qed simp

text \<open>The components of a path that count.\<close>

definition proper_comps :: "string list \<Rightarrow> string list" where
  "proper_comps cs = filter (\<lambda>c. c \<noteq> [] \<and> c \<noteq> ''.'') cs"

lemma split_char_snoc: "split_char c (a @ [c]) = split_char c a @ [[]]"
  by (induction a) (auto split: list.splits)

lemma split_char_join_sep: "split_char c (a @ c # b) = split_char c a @ split_char c b"
  by (induction a) (auto split: list.splits)

lemma proper_comps_join:
  assumes "\<not> startswith ''/'' b"
  shows "proper_comps (split_char CHR ''/'' (path_join a b)) =
    proper_comps (split_char CHR ''/'' a) @ proper_comps (split_char CHR ''/'' b)"
proof (cases "a = [] \<or> last a = CHR ''/''")
  case True
  show ?thesis
  proof (cases a rule: rev_cases)
    case Nil
    then show ?thesis using assms by (simp add: path_join_def proper_comps_def)
  next
    case (snoc a' c)
    then have "a @ b = a' @ CHR ''/'' # b" "a = a' @ [CHR ''/'']" using True by simp_all
    then show ?thesis using assms True
      by (simp add: path_join_def proper_comps_def split_char_join_sep split_char_snoc)
  qed
next
  case False
  then show ?thesis using assms
    by (auto simp: path_join_def proper_comps_def split_char_join_sep)
qed

lemma proper_comps_foldl:
  "list_all (\<lambda>b. CHR ''/'' \<notin> set b) cs \<Longrightarrow>
   proper_comps (split_char CHR ''/'' (foldl path_join a cs)) =
     proper_comps (split_char CHR ''/'' a) @ proper_comps cs"
proof (induction cs arbitrary: a)
  case (Cons b cs)
  then have "\<not> startswith ''/'' b" by (auto simp: startswith_char)
  then show ?case using Cons proper_comps_join [of b a] by (simp add: proper_comps_def split_char_no_sep)
qed (simp add: proper_comps_def)

lemma norm_comps_proper_eq: "norm_comps a acc cs = norm_comps a acc (proper_comps cs)"
  unfolding proper_comps_def by (rule norm_comps_filter)

text \<open>An absolute path in normal form, by its components.\<close>

lemma normpath_absolute:
  assumes "startswith ''/'' q" and "\<not> startswith ''//'' (path_normpath q)"
  obtains cs where "path_normpath q = ''/'' @ join ''/'' cs"
    "cs = norm_comps True [] (split_char CHR ''/'' q)" "list_all (\<lambda>c. plain c \<and> CHR ''/'' \<notin> set c) cs"
proof -
  let ?cs = "norm_comps True [] (split_char CHR ''/'' q)"
  have "list_all (\<lambda>c. CHR ''/'' \<notin> set c) (split_char CHR ''/'' q)"
    by (auto simp: list_all_iff dest: split_char_pieces)
  then have "list_all (\<lambda>c. plain c \<and> CHR ''/'' \<notin> set c) ?cs" by (intro norm_comps_absolute) simp_all
  moreover have "\<not> (startswith ''//'' q \<and> \<not> startswith ''///'' q)"
  proof
    assume a: "startswith ''//'' q \<and> \<not> startswith ''///'' q"
    have "path_normpath q = ''//'' @ join ''/'' ?cs"
      unfolding path_normpath_def Let_def by (simp add: a numeral_2_eq_2)
    then show False using assms(2) by (simp add: startswith_def)
  qed
  then have "path_normpath q = ''/'' @ join ''/'' ?cs"
    using assms(1) unfolding path_normpath_def Let_def by (simp add: numeral_2_eq_2)
  ultimately show ?thesis using that by blast
qed

lemma foldl_join_head:
  assumes "a \<noteq> []" and "list_all (\<lambda>b. CHR ''/'' \<notin> set b) cs"
  shows "foldl path_join a cs \<noteq> [] \<and> hd (foldl path_join a cs) = hd a"
  using assms
proof (induction cs arbitrary: a)
  case (Cons b cs)
  have "\<not> startswith ''/'' b" using Cons.prems(2) by (auto simp: startswith_char)
  then have "path_join a b \<noteq> []" "hd (path_join a b) = hd a"
    using Cons.prems(1) by (simp_all add: path_join_def)
  then show ?case using Cons.IH [of "path_join a b"] Cons.prems by simp
qed simp

lemma lcp_take:
  "take (length (longest_common_prefix xs ys)) xs = longest_common_prefix xs ys"
  "take (length (longest_common_prefix xs ys)) ys = longest_common_prefix xs ys"
  by (induction xs ys rule: longest_common_prefix.induct) simp_all

lemma proper_comps_plain: "list_all plain cs \<Longrightarrow> proper_comps cs = cs"
  by (auto simp: proper_comps_def list_all_iff plain_def intro!: filter_True)

text \<open>Up from the one path and down to the other.\<close>

lemma norm_comps_relative:
  assumes "list_all plain SA" and "list_all plain SB"
    and "S = (if SA = [] then [[]] else SA)" and "P = (if SB = [] then [[]] else SB)"
    and "j = length (longest_common_prefix S P)"
  shows "norm_comps True [] (proper_comps S @ proper_comps (replicate (length S - j) ''..'' @ drop j P)) = SB"
proof -
  have S: "norm_comps True [] (proper_comps S) = SA"
  proof (cases "SA = []")
    case True
    then show ?thesis by (simp add: assms(3) proper_comps_def)
  next
    case False
    then show ?thesis using norm_comps_plain [OF assms(1), of "[]"] by (simp add: assms(3) proper_comps_plain [OF assms(1)])
  qed
  have j: "j \<le> length S" "j \<le> length P" using assms(5) longest_common_prefix_prefix1 [of S P]
      longest_common_prefix_prefix2 [of S P] prefix_length_le by blast+
  have "set (proper_comps (drop j P)) \<subseteq> set SB"
    by (cases "SB = []") (auto simp: assms(4) proper_comps_def drop_Cons' dest: in_set_dropD)
  then have D: "list_all plain (proper_comps (drop j P))" using assms(2) by (auto simp: list_all_iff)
  let ?k = "length S - j" and ?D = "proper_comps (drop j P)"
  have "proper_comps (replicate ?k ''..'' @ drop j P) = replicate ?k ''..'' @ ?D"
    by (simp add: proper_comps_def filter_replicate)
  then have "norm_comps True [] (proper_comps S @ proper_comps (replicate ?k ''..'' @ drop j P)) =
      norm_comps True (norm_comps True SA (replicate ?k ''..'')) ?D"
    by (simp only: norm_comps_append S)
  also have "\<dots> = take (length SA - ?k) SA @ ?D"
    by (simp only: norm_comps_up [OF assms(1)] norm_comps_plain [OF D])
  also have "\<dots> = SB"
  proof (cases "SA = []")
    case True
    then have S': "S = [[]]" by (simp add: assms(3))
    show ?thesis
    proof (cases "SB = []")
      case True
      then show ?thesis using \<open>SA = []\<close> by (simp add: assms(4) proper_comps_def drop_Cons')
    next
      case False
      then obtain b bs where "SB = b # bs" "b \<noteq> []" using assms(2) by (cases SB) (simp_all add: plain_def)
      then show ?thesis using \<open>SA = []\<close> assms(4,5) proper_comps_plain [OF assms(2)] by (simp add: S')
    qed
  next
    case False
    then have SA: "S = SA" by (simp add: assms(3))
    have "take (length SA - ?k) SA = take j S" using j(1) by (simp add: SA)
    also have "\<dots> = take j P" unfolding assms(5) by (simp only: lcp_take)
    finally have 1: "take (length SA - ?k) SA = take j P" .
    have "take j P @ ?D = SB"
    proof (cases "SB = []")
      case True
      obtain a as where "SA = a # as" "a \<noteq> []" using False assms(1) by (cases SA) (simp_all add: plain_def)
      then have "j = 0" using True by (simp add: assms(4,5) SA)
      then show ?thesis using True by (simp add: assms(4) proper_comps_def)
    next
      case False
      then have P: "P = SB" by (simp add: assms(4))
      have "list_all plain (drop j SB)" using assms(2) by (auto simp: list_all_iff dest: in_set_dropD)
      then show ?thesis by (simp add: P proper_comps_plain)
    qed
    then show ?thesis by (simp only: 1)
  qed
  finally show ?thesis .
qed

text \<open>A normal absolute path has these components.\<close>

lemma split_absolute:
  assumes "list_all (\<lambda>c. plain c \<and> CHR ''/'' \<notin> set c) cs"
  shows "split_char CHR ''/'' (''/'' @ join ''/'' cs) = [] # (if cs = [] then [[]] else cs)"
proof (cases "cs = []")
  case False
  then have "split_char CHR ''/'' (join ''/'' cs) = cs"
    using assms by (intro split_join) (auto simp: list_all_iff)
  then show ?thesis using False by simp
qed simp

lemma absolute_head:
  assumes "list_all (\<lambda>c. plain c \<and> CHR ''/'' \<notin> set c) cs" and "\<not> startswith ''/'' r" and "r \<noteq> []"
  shows "\<not> startswith ''//'' (path_join (''/'' @ join ''/'' cs) r)"
proof (cases cs)
  case Nil
  then show ?thesis using assms(2,3) by (cases r) (auto simp: path_join_def startswith_def)
next
  case (Cons c cs')
  then obtain x c' where "c = x # c'" "x \<noteq> CHR ''/''" using assms(1) by (cases c) (auto simp: plain_def)
  then have "\<exists>t. join ''/'' cs = x # t" using Cons by (cases cs') auto
  then show ?thesis using assms(2) \<open>x \<noteq> CHR ''/''\<close> by (auto simp: path_join_def startswith_def)
qed

lemma abspath_absolute: "startswith ''/'' cwd \<Longrightarrow> startswith ''/'' (if startswith ''/'' p then p else path_join cwd p)"
  by (auto simp: path_join_def startswith_char)

lemma resolve_relative:
  assumes A: "list_all (\<lambda>c. plain c \<and> CHR ''/'' \<notin> set c) SA" and B: "list_all (\<lambda>c. plain c \<and> CHR ''/'' \<notin> set c) SB"
    and S: "S = (if SA = [] then [[]] else SA)" and P: "P = (if SB = [] then [[]] else SB)"
    and rel: "rel = replicate (length S - j) ''..'' @ drop j P" and j: "j = length (longest_common_prefix S P)"
    and r: "r = (case rel of [] \<Rightarrow> ''.'' | c # cs \<Rightarrow> foldl path_join c cs)"
  shows "path_abspath (''/'' @ join ''/'' SA) r = ''/'' @ join ''/'' SB"
proof -
  let ?A = "''/'' @ join ''/'' SA"
  have slashes: "list_all (\<lambda>b. CHR ''/'' \<notin> set b) rel"
    using B P by (cases "SB = []") (auto simp: rel list_all_iff dest!: in_set_dropD)
  have first: "hd rel \<noteq> []" if "rel \<noteq> []"
  proof (cases "length S - j")
    case 0
    have ne: "S \<noteq> []" by (simp add: S)
    then have "j \<noteq> 0" using 0 by (cases S) auto
    have "drop j P \<noteq> []" using that 0 by (simp add: rel)
    then have "SB \<noteq> []" using \<open>j \<noteq> 0\<close> P by (auto simp: drop_Cons' split: if_splits)
    moreover have "hd rel \<in> set (drop j P)" using that 0 by (simp add: rel)
    ultimately have "hd rel \<in> set SB" using P by (auto dest: in_set_dropD)
    then show ?thesis using B by (auto simp: list_all_iff plain_def)
  qed (simp add: rel)
  have split_r: "proper_comps (split_char CHR ''/'' r) = proper_comps rel" and "\<not> startswith ''/'' r" "r \<noteq> []"
  proof -
    have "proper_comps (split_char CHR ''/'' r) = proper_comps rel \<and> \<not> startswith ''/'' r \<and> r \<noteq> []"
    proof (cases rel)
      case Nil
      then show ?thesis using r by (simp add: proper_comps_def startswith_def)
    next
      case (Cons c cs)
      then have c: "c \<noteq> []" "CHR ''/'' \<notin> set c" "list_all (\<lambda>b. CHR ''/'' \<notin> set b) cs"
        using first slashes by auto
      have "hd c \<noteq> CHR ''/''" using c by (metis hd_in_set)
      then have "\<not> startswith ''/'' r \<and> r \<noteq> []"
        using foldl_join_head [OF c(1,3)] r Cons by (auto simp: startswith_char)
      moreover have "proper_comps (split_char CHR ''/'' r) = proper_comps rel"
        using proper_comps_foldl [OF c(3), of c] r Cons by (simp add: split_char_no_sep [OF c(2)] proper_comps_def)
      ultimately show ?thesis by blast
    qed
    then show "proper_comps (split_char CHR ''/'' r) = proper_comps rel" "\<not> startswith ''/'' r" "r \<noteq> []"
      by blast+
  qed
  note r_ok = this
  let ?q = "path_join ?A r"
  have "\<not> startswith ''//'' ?q" by (rule absolute_head [OF A r_ok(2,3)])
  moreover have "startswith ''/'' ?q" using abspath_absolute [of ?A r] r_ok(2) by (simp add: startswith_char)
  ultimately have "path_normpath ?q = ''/'' @ join ''/'' (norm_comps True [] (split_char CHR ''/'' ?q))"
    unfolding path_normpath_def Let_def by simp
  also have "norm_comps True [] (split_char CHR ''/'' ?q) = norm_comps True [] (proper_comps S @ proper_comps rel)"
    using split_absolute [OF A] S
    by (subst norm_comps_proper_eq) (simp add: proper_comps_join [OF r_ok(2)] r_ok(1), simp add: proper_comps_def)
  also have "\<dots> = SB"
  proof -
    have "list_all plain SA" "list_all plain SB" using A B by (auto simp: list_all_iff)
    from norm_comps_relative [OF this S P j] show ?thesis by (simp add: rel)
  qed
  finally show ?thesis using r_ok(2) by (simp add: path_abspath_def)
qed

text \<open>The end of a program.\<close>

lemma signal_name_some: "signal_name vars r = Some name \<Longrightarrow> (name, Some (- r)) \<in> set vars \<and> prefix ''SIG'' name"
proof (induction vars r rule: signal_name.induct)
  case (2 n v vars r)
  have "take 3 n = ''SIG'' \<Longrightarrow> prefix ''SIG'' n" by (metis take_is_prefix)
  then show ?case using 2 by (auto split: if_splits)
qed simp

lemma check_retval_cases:
  "(check_retval os cmd code = Inr 0 \<longleftrightarrow> code = 0) \<and>
   (code = 0 \<or> check_retval os cmd code = Inl (ExitedWithCode cmd code) \<or>
     code < 0 \<and> (\<exists>name. (name, Some (- code)) \<in> set (signal_vars os) \<and> prefix ''SIG'' name \<and>
       check_retval os cmd code = Inl (TerminatedBySignal cmd name)))"
proof (cases "if code < 0 then signal_name (signal_vars os) code else None")
  case None
  then show ?thesis by (simp add: check_retval_def)
next
  case (Some name)
  then have "code < 0" "signal_name (signal_vars os) code = Some name" by (simp_all split: if_splits)
  then show ?thesis using signal_name_some by (auto simp: check_retval_def)
qed

lemma run_argv_eq:
  assumes "use_valgrind s \<and> \<not> force \<longrightarrow>
      (command_template s = None \<or> command_template s = Some []) \<and> valgrind_programs s \<noteq> []"
    and "popen os cmd (get_proc_env os s os_env) cwd = Inr (err, code)"
    and "cmd = (if use_valgrind s \<and> \<not> force
      then [hd (valgrind_programs s), ''--leak-check=full'', ''--show-reachable=yes'', ''--error-exitcode=1''] @ argv
      else argv)"
  shows "run_argv os s argv os_env cwd force = (err, check_retval os cmd code)"
proof (cases "use_valgrind s \<and> \<not> force")
  case True
  then have "\<not> (command_template s \<noteq> None \<and> command_template s \<noteq> Some [])" "valgrind_programs s \<noteq> []"
    using assms(1) by auto
  moreover have "cmd = [hd (valgrind_programs s), ''--leak-check=full'', ''--show-reachable=yes'', ''--error-exitcode=1''] @ argv"
    using assms(3) True by simp
  ultimately show ?thesis using True assms(2)
    unfolding run_argv_def Let_def by (cases "command_template s") (simp_all add: leak_loop_characters)
next
  case False
  then have "cmd = argv" using assms(3) by auto
  then show ?thesis using assms(2) unfolding run_argv_def Let_def if_not_P [OF False] by simp
qed

section \<open>Properties\<close>

text \<open>
  From any directory, following the relative path \<open>relpath\<close> computes leads to the path it was
  computed for, in normal form, unless one of the paths starts with exactly two slashes.
\<close>
theorem relpath_roundtrip:
  assumes "startswith ''/'' cwd" and "relpath cwd p start = Inr r"
    and "\<not> startswith ''//'' (path_abspath cwd start)" and "\<not> startswith ''//'' (path_abspath cwd p)"
  shows "path_abspath (path_abspath cwd start) r = path_abspath cwd p"
proof -
  obtain SA where A: "path_abspath cwd start = ''/'' @ join ''/'' SA"
    "list_all (\<lambda>c. plain c \<and> CHR ''/'' \<notin> set c) SA"
    using normpath_absolute [OF abspath_absolute [OF assms(1), of start]] assms(3)
    unfolding path_abspath_def by metis
  obtain SB where B: "path_abspath cwd p = ''/'' @ join ''/'' SB"
    "list_all (\<lambda>c. plain c \<and> CHR ''/'' \<notin> set c) SB"
    using normpath_absolute [OF abspath_absolute [OF assms(1), of p]] assms(4)
    unfolding path_abspath_def by metis
  define S P where "S = (if SA = [] then [[]] else SA)" and "P = (if SB = [] then [[]] else SB)"
  define j where "j = length (longest_common_prefix S P)"
  have "split_char CHR ''/'' (path_abspath cwd start) = [] # S" "split_char CHR ''/'' (path_abspath cwd p) = [] # P"
    unfolding A(1) B(1) by (simp_all only: split_absolute [OF A(2)] split_absolute [OF B(2)] S_def P_def)
  then have "r = (case replicate (length S - j) ''..'' @ drop j P of [] \<Rightarrow> ''.'' | c # cs \<Rightarrow> foldl path_join c cs)"
    using assms(2) by (simp add: relpath_def Let_def j_def split: if_splits)
  from resolve_relative [OF A(2) B(2) S_def P_def refl j_def this] show ?thesis
    by (simp only: A(1) B(1))
qed

theorem relpath_roundtrip_witness:
  "relpath ''/ns3'' ''/ns3/src/core'' ''examples/tcp'' = Inr ''../../src/core'' \<and>
   path_abspath ''/ns3/examples/tcp'' ''../../src/core'' = ''/ns3/src/core''"
proof -
  have 1: "relpath ''/ns3'' ''/ns3/src/core'' ''examples/tcp'' = Inr ''../../src/core''" by code_simp
  have 2: "path_abspath ''/ns3'' ''examples/tcp'' = ''/ns3/examples/tcp''"
    "path_abspath ''/ns3'' ''/ns3/src/core'' = ''/ns3/src/core''" by code_simp+
  show ?thesis using relpath_roundtrip [OF _ 1] 1 2 by (simp add: startswith_def)
qed

text \<open>\<open>find_program\<close> answers the first ns-3 program below the launch directory whose name, or whose
  path from the launch directory, is the given name; if there is none, the error lists both names of
  every program below the launch directory. Below means that the path has the directory as a
  prefix, so \<open>src-old\<close> counts as below \<open>src\<close>.
\<close>
theorem find_program_correct:
  "find_program os s name =
     (let dir = path_abspath (cwd_now os) (launch_dir s);
          programs = filter (\<lambda>obj. is_ns3_program obj \<and>
            (prefix dir (source_path obj) \<or> prefix dir (build_path obj))) (all_task_gen s)
      in case find (\<lambda>obj. name = tg_name obj \<or>
             name = path_join (path_relpath (cwd_now os) (source_path obj) dir) (tg_name obj)) programs of
           Some obj \<Rightarrow> Inr obj
         | None \<Rightarrow> Inl (ProgramNotFound name (concat (map (program_names os dir) programs))))"
  by (simp add: find_program_def find_loop_eq in_launch_tree_def startswith_iff program_names_def Let_def
      cong: option.case_cong)

text \<open>
  The environment of a program: \<open>PYTHONPATH\<close>, \<open>PATH\<close> and the variable of the dynamic libraries
  have the paths of the build in front of their old value, every other variable is as given by the
  caller or the process; on Windows \<open>PATH\<close> gets both the libraries and the programs.
\<close>
theorem proc_env_correct:
  "let old = (\<lambda>k. case Option.bind os_env (\<lambda>e. dict_get (rev e) k) of
                   Some v \<Rightarrow> Some v | None \<Rightarrow> dict_get (os_environ os) k);
       front = (\<lambda>paths v. Some (join (os_pathsep os) (paths @ (case v of None \<Rightarrow> [] | Some x \<Rightarrow> [x]))));
       libraries = library_var (platform os)
   in dict_get (get_proc_env os s os_env) k =
     (if k = ''PYTHONPATH'' then front [python_bindings_dir s, visualizer_dir s] (old k)
      else if k = ''PATH'' then
        front (ns3_executable_path s) (if libraries = ''PATH'' then front (ns3_module_path s) (old k) else old k)
      else if k = libraries then front (ns3_module_path s) (old k)
      else old k)"
proof -
  have given: "dict_get (fold (\<lambda>(k, v). dict_put k v) e d) k = (case dict_get (rev e) k of Some v \<Rightarrow> Some v | None \<Rightarrow> dict_get d k)"
    for e d :: "(string, string) pydict" and k
    by (induction e arbitrary: d) (auto simp: dict_simps map_add_def split: option.split)
  have lib: "library_var (platform os) \<noteq> ''PYTHONPATH''" by (simp add: library_var_def)
  show ?thesis
    using lib by (cases os_env) (auto simp: get_proc_env_def get_prepend_paths given Let_def split: option.split)
qed

text \<open>\<open>run_argv\<close> returns 0 exactly if the program it starts returns 0. This holds under valgrind as
  well: the search for the summary of leaks goes through the single characters of the output and
  never finds it, so leaks are reported only by valgrind's own exit code.
\<close>
theorem run_argv_result:
  assumes "use_valgrind s \<and> \<not> force \<longrightarrow>
      (command_template s = None \<or> command_template s = Some []) \<and> valgrind_programs s \<noteq> []"
    and "popen os (if use_valgrind s \<and> \<not> force
         then [hd (valgrind_programs s), ''--leak-check=full'', ''--show-reachable=yes'', ''--error-exitcode=1''] @ argv
         else argv) (get_proc_env os s os_env) cwd = Inr (err, code)"
  shows "fst (run_argv os s argv os_env cwd force) = err \<and>
    (snd (run_argv os s argv os_env cwd force) = Inr 0 \<longleftrightarrow> code = 0) \<and>
    (code = 0 \<or> (\<exists>cmd. snd (run_argv os s argv os_env cwd force) = Inl (ExitedWithCode cmd code) \<or>
      code < 0 \<and> (\<exists>name. (name, Some (- code)) \<in> set (signal_vars os) \<and> prefix ''SIG'' name \<and>
        snd (run_argv os s argv os_env cwd force) = Inl (TerminatedBySignal cmd name))))"
proof -
  define cmd where "cmd = (if use_valgrind s \<and> \<not> force
    then [hd (valgrind_programs s), ''--leak-check=full'', ''--show-reachable=yes'', ''--error-exitcode=1''] @ argv
    else argv)"
  have "run_argv os s argv os_env cwd force = (err, check_retval os cmd code)"
    by (rule run_argv_eq [OF assms(1) assms(2) [folded cmd_def] cmd_def])
  then show ?thesis using check_retval_cases [of os cmd code] by auto
qed

definition demo_settings :: waf_settings where
  "demo_settings = \<lparr>command_template = None, use_valgrind = True, options_cwd_launch = '''',
     cwd_launch = ''/ns3'', launch_dir = ''/ns3/src'', ns3_module_path = [''/ns3/build''],
     ns3_executable_path = [], valgrind_programs = [''valgrind''], python_programs = [''python''],
     python_bindings_dir = ''/ns3/build/bindings/python'', visualizer_dir = ''/ns3/src/visualizer'',
     all_task_gen = []\<rparr>"

definition demo_os :: waf_os where
  "demo_os = \<lparr>platform = ''linux'', os_environ = [(''PATH'', ''/bin'')], os_pathsep = '':'',
     cwd_now = ''/ns3'', has_windows_error = False, shlex_split = (\<lambda>s. Inr (split_char CHR '' '' s)),
     popen = (\<lambda>argv env cwd. Inr (''== LEAK SUMMARY: 8 bytes'', 0)), signal_vars = [(''SIGHUP'', Some 1)]\<rparr>"

theorem run_argv_result_witness:
  "run_argv demo_os demo_settings [''prog''] None None False = (''== LEAK SUMMARY: 8 bytes'', Inr 0)"
proof -
  have "popen demo_os cmd env cwd = Inr (''== LEAK SUMMARY: 8 bytes'', 0)" for cmd env cwd
    by (simp add: demo_os_def)
  moreover have "use_valgrind demo_settings \<and> \<not> False \<longrightarrow>
      (command_template demo_settings = None \<or> command_template demo_settings = Some []) \<and>
      valgrind_programs demo_settings \<noteq> []"
    by (simp add: demo_settings_def)
  ultimately show ?thesis
    using run_argv_result [of demo_settings False demo_os "[''prog'']" None None "''== LEAK SUMMARY: 8 bytes''" 0]
    by (auto simp: prod_eq_iff)
qed

text \<open>A directory beside the launch directory whose name continues its name is searched as well.\<close>

lemma sibling_is_searched:
  "in_launch_tree ''/ns3/src''
     \<lparr>is_ns3_program = True, source_path = ''/ns3/src-old/core'', build_path = ''/ns3/build/src-old/core'',
      tg_name = ''sample'', program_file = ''sample''\<rparr>"
  by (simp add: in_launch_tree_def startswith_def)

lemma uniquify_list_correct: "distinct (uniquify_list xs) \<and> set (uniquify_list xs) = set xs"
  using uniquify_loop_distinct [of "{}" xs] by (simp add: uniquify_list_def)

end
