(* ===== verification/CreateModule.thy ===== *)
theory CreateModule
  imports PyPath
begin

text \<open>
  \<open>src/create-module.py\<close>, which makes the directory of a new ns-3 module: the check of the name, the
  templates with their substitution (\<open>template % dict(...)\<close>), and the directories and files that are
  written, in order, into a file system that can refuse an operation. Names are ASCII.
\<close>

section \<open>The templates, line by line\<close>

definition wscript_template :: "string list" where
  "wscript_template =
     [''# -*- Mode: python; py-indent-offset: 4; indent-tabs-mode: nil; coding: utf-8; -*-'',
      '''', ''# def options(opt):'', ''#     pass'', '''', ''# def configure(conf):'',
      ''#     conf.check_nonfatal(header_name='stdint.h', define_name='HAVE_STDINT_H')'', '''',
      ''def build(bld):'', ''    module = bld.create_ns3_module(%(MODULE)r, ['core'])'',
      ''    module.source = ['', ''        'model/%(MODULE)s.cc','',
      ''        'helper/%(MODULE)s-helper.cc','', ''        ]'', '''',
      ''    module_test = bld.create_ns3_module_test_library('%(MODULE)s')'',
      ''    module_test.source = ['', ''        'test/%(MODULE)s-test-suite.cc','', ''        ]'',
      '''', ''    headers = bld(features='ns3header')'', ''    headers.module = %(MODULE)r'',
      ''    headers.source = ['', ''        'model/%(MODULE)s.h','',
      ''        'helper/%(MODULE)s-helper.h','', ''        ]'', '''',
      ''    if bld.env.ENABLE_EXAMPLES:'', ''        bld.recurse('examples')'', '''',
      ''    # bld.ns3_python_bindings()'', '''', '''']"

definition model_cc_template :: "string list" where
  "model_cc_template =
     [''/* -*- Mode:C++; c-file-style:\"gnu\"; indent-tabs-mode:nil; -*- */'', '''',
      ''#include \"%(MODULE)s.h\"'', '''', ''namespace ns3 {'', '''', ''/* ... */'', '''', '''',
      ''}'', '''', '''']"

definition model_h_template :: "string list" where
  "model_h_template =
     [''/* -*- Mode:C++; c-file-style:\"gnu\"; indent-tabs-mode:nil; -*- */'',
      ''#ifndef %(INCLUDE_GUARD)s'', ''#define %(INCLUDE_GUARD)s'', '''', ''namespace ns3 {'',
      '''', ''/* ... */'', '''', ''}'', '''', ''#endif /* %(INCLUDE_GUARD)s */'', '''', '''']"

definition helper_cc_template :: "string list" where
  "helper_cc_template =
     [''/* -*- Mode:C++; c-file-style:\"gnu\"; indent-tabs-mode:nil; -*- */'', '''',
      ''#include \"%(MODULE)s-helper.h\"'', '''', ''namespace ns3 {'', '''', ''/* ... */'', '''',
      '''', ''}'', '''', '''']"

definition helper_h_template :: "string list" where
  "helper_h_template =
     [''/* -*- Mode:C++; c-file-style:\"gnu\"; indent-tabs-mode:nil; -*- */'',
      ''#ifndef %(INCLUDE_GUARD)s'', ''#define %(INCLUDE_GUARD)s'', '''',
      ''#include \"ns3/%(MODULE)s.h\"'', '''', ''namespace ns3 {'', '''', ''/* ... */'', '''',
      ''}'', '''', ''#endif /* %(INCLUDE_GUARD)s */'', '''', '''']"

definition examples_wscript_template :: "string list" where
  "examples_wscript_template =
     [''# -*- Mode: python; py-indent-offset: 4; indent-tabs-mode: nil; coding: utf-8; -*-'',
      '''', ''def build(bld):'',
      ''    obj = bld.create_ns3_program('%(MODULE)s-example', [%(MODULE)r])'',
      ''    obj.source = '%(MODULE)s-example.cc'' @ [CHR 0x27], '''', '''']"

definition example_cc_template :: "string list" where
  "example_cc_template =
     [''/* -*- Mode:C++; c-file-style:\"gnu\"; indent-tabs-mode:nil; -*- */'', '''',
      ''#include \"ns3/core-module.h\"'', ''#include \"ns3/%(MODULE)s-helper.h\"'', '''',
      ''using namespace ns3;'', '''', '''', ''int '', ''main (int argc, char *argv[])'', ''{'',
      ''  bool verbose = true;'', '''', ''  CommandLine cmd;'',
      ''  cmd.AddValue (\"verbose\", \"Tell application to log if true\", verbose);'', '''',
      ''  cmd.Parse (argc,argv);'', '''', ''  /* ... */'', '''', ''  Simulator::Run ();'',
      ''  Simulator::Destroy ();'', ''  return 0;'', ''}'', '''', '''', '''']"

definition test_cc_template :: "string list" where
  "test_cc_template =
     [''/* -*- Mode:C++; c-file-style:\"gnu\"; indent-tabs-mode:nil; -*- */'', '''',
      ''// Include a header file from your module to test.'', ''#include \"ns3/%(MODULE)s.h\"'',
      '''', ''// An essential include is test.h'', ''#include \"ns3/test.h\"'', '''',
      ''// Do not put your test classes in namespace ns3.  You may find it useful'',
      ''// to use the using directive to access the ns3 namespace directly'',
      ''using namespace ns3;'', '''', ''// This is an example TestCase.'',
      ''class %(CAPITALIZED)sTestCase1 : public TestCase'', ''{'', ''public:'',
      ''  %(CAPITALIZED)sTestCase1 ();'', ''  virtual ~%(CAPITALIZED)sTestCase1 ();'', '''',
      ''private:'', ''  virtual void DoRun (void);'', ''};'', '''',
      ''// Add some help text to this case to describe what it is intended to test'',
      ''%(CAPITALIZED)sTestCase1::%(CAPITALIZED)sTestCase1 ()'',
      ''  : TestCase (\"%(CAPITALIZED)s test case (does nothing)\")'', ''{'', ''}'', '''',
      ''// This destructor does nothing but we include it as a reminder that'',
      ''// the test case should clean up after itself'',
      ''%(CAPITALIZED)sTestCase1::~%(CAPITALIZED)sTestCase1 ()'', ''{'', ''}'', '''', ''//'',
      ''// This method is the pure virtual method from class TestCase that every'',
      ''// TestCase must implement'', ''//'', ''void'',
      ''%(CAPITALIZED)sTestCase1::DoRun (void)'', ''{'',
      ''  // A wide variety of test macros are available in src/core/test.h'',
      ''  NS_TEST_ASSERT_MSG_EQ (true, true, \"true doesn't equal true for some reason\");'',
      ''  // Use this one for floating point comparisons'',
      ''  NS_TEST_ASSERT_MSG_EQ_TOL (0.01, 0.01, 0.001, \"Numbers are not equal within tolerance\");'',
      ''}'', '''',
      ''// The TestSuite class names the TestSuite, identifies what type of TestSuite,'',
      ''// and enables the TestCases to be run.  Typically, only the constructor for'',
      ''// this class must be defined'', ''//'',
      ''class %(CAPITALIZED)sTestSuite : public TestSuite'', ''{'', ''public:'',
      ''  %(CAPITALIZED)sTestSuite ();'', ''};'', '''',
      ''%(CAPITALIZED)sTestSuite::%(CAPITALIZED)sTestSuite ()'',
      ''  : TestSuite (\"%(MODULE)s\", UNIT)'', ''{'',
      ''  // TestDuration for TestCase can be QUICK, EXTENSIVE or TAKES_FOREVER'',
      ''  AddTestCase (new %(CAPITALIZED)sTestCase1, TestCase::QUICK);'', ''}'', '''',
      ''// Do not forget to allocate an instance of this TestSuite'',
      ''static %(CAPITALIZED)sTestSuite %(COMPOUND)sTestSuite;'', '''', '''']"

definition doc_rst_template :: "string list" where
  "doc_rst_template =
     [''Example Module Documentation'', ''----------------------------'', '''',
      ''.. include:: replace.txt'', ''.. highlight:: cpp'', '''', ''.. heading hierarchy:'',
      ''   ------------- Chapter'', ''   ************* Section (#.#)'',
      ''   ============= Subsection (#.#.#)'', ''   ############# Paragraph (no number)'', '''',
      ''This is a suggested outline for adding new module documentation to |ns3|.'',
      ''See ``src/click/doc/click.rst`` for an example.'', '''',
      ''The introductory paragraph is for describing what this code is trying to'', ''model.'',
      '''', ''For consistency (italicized formatting), please use |ns3| to refer to'',
      ''ns-3 in the documentation (and likewise, |ns2| for ns-2).  These macros'',
      ''are defined in the file ``replace.txt``.'', '''', ''Model Description'',
      ''*****************'', '''',
      ''The source code for the new module lives in the directory ``src/%(MODULE)s``.'', '''',
      ''Add here a basic description of what is being modeled.'', '''', ''Design'', ''======'',
      '''', ''Briefly describe the software design of the model and how it fits into '',
      ''the existing ns-3 architecture. '', '''', ''Scope and Limitations'',
      ''====================='', '''',
      ''What can the model do?  What can it not do?  Please use this section to'',
      ''describe the scope and limitations of the model.'', '''', ''References'', ''=========='',
      '''', ''Add academic citations here, such as if you published a paper on this'',
      ''model, or if readers should read a particular specification or other work.'', '''',
      ''Usage'', ''*****'', '''',
      ''This section is principally concerned with the usage of your model, using'',
      ''the public API.  Focus first on most common usage patterns, then go'',
      ''into more advanced topics.'', '''', ''Building New Module'', ''==================='',
      '''', ''Include this subsection only if there are special build instructions or'',
      ''platform limitations.'', '''', ''Helpers'', ''======='', '''',
      ''What helper API will users typically use?  Describe it here.'', '''', ''Attributes'',
      ''=========='', '''',
      ''What classes hold attributes, and what are the key ones worth mentioning?'', '''',
      ''Output'', ''======'', '''',
      ''What kind of data does the model generate?  What are the key trace'',
      ''sources?   What kind of logging output can be enabled?'', '''', ''Advanced Usage'',
      ''=============='', '''',
      ''Go into further details (such as using the API outside of the helpers)'',
      ''in additional sections, as needed.'', '''', ''Examples'', ''========'', '''',
      ''What examples using this new code are available?  Describe them here.'', '''',
      ''Troubleshooting'', ''==============='', '''',
      ''Add any tips for avoiding pitfalls, etc.'', '''', ''Validation'', ''**********'', '''',
      ''Describe how the model has been tested/validated.  What tests run in the'',
      ''test suite?  How much API and code is covered by the tests?  Again, '',
      ''references to outside published work may help here.'', '''']"

definition template_text :: "string list \<Rightarrow> string" where
  "template_text ls = join [CHR 0x0A] ls"

section \<open>Names\<close>

definition lower_char :: "char \<Rightarrow> char" where
  "lower_char c = (let n = (of_char c :: nat) in if 65 \<le> n \<and> n \<le> 90 then char_of (n + 32) else c)"

definition alnum :: "char \<Rightarrow> bool" where
  "alnum c \<longleftrightarrow> (let n = (of_char c :: nat) in
     48 \<le> n \<and> n \<le> 57 \<or> 65 \<le> n \<and> n \<le> 90 \<or> 97 \<le> n \<and> n \<le> 122)"

definition isalnum :: "string \<Rightarrow> bool" where
  "isalnum s \<longleftrightarrow> s \<noteq> [] \<and> list_all alnum s"

definition capitalize :: "string \<Rightarrow> string" where
  "capitalize s = (case s of [] \<Rightarrow> [] | c # cs \<Rightarrow> upper_char c # map lower_char cs)"

definition words :: "string \<Rightarrow> string list" where
  "words modname = split_char CHR ''-'' modname"

definition include_guard :: "string \<Rightarrow> string \<Rightarrow> string" where
  "include_guard modname ending =
     map (\<lambda>c. upper_char (if c = CHR ''-'' then CHR ''_'' else c)) modname @ ending"

definition capitalized :: "string \<Rightarrow> string" where
  "capitalized modname = concat (map capitalize (words modname))"

definition compound :: "string \<Rightarrow> string" where
  "compound modname = hd (words modname) @ concat (map capitalize (tl (words modname)))"

section \<open>The file system\<close>

datatype message = Usage | BadName | AlreadyExists string | Creating string

record world =
  dirs :: "string list"
  files :: "(string, string) pydict"
  printed :: "message list"

definition path_exists :: "world \<Rightarrow> string \<Rightarrow> bool" where
  "path_exists w p \<longleftrightarrow> p \<in> set (dirs w) \<or> p \<in> set (dict_keys (files w))"

text \<open>The empty path is the current directory.\<close>

definition is_dir :: "world \<Rightarrow> string \<Rightarrow> bool" where
  "is_dir w p \<longleftrightarrow> p = [] \<or> p \<in> set (dirs w)"

definition mkdir :: "string \<Rightarrow> world \<Rightarrow> world \<times> unit result" where
  "mkdir p w =
     (if path_exists w p \<or> \<not> is_dir w (path_dirname p) then (w, Inl (OtherException ''OSError''))
      else (w\<lparr>dirs := dirs w @ [p]\<rparr>, Inr ()))"

text \<open>\<open>open(p, "wt")\<close>\<close>

definition open_write :: "string \<Rightarrow> world \<Rightarrow> world \<times> unit result" where
  "open_write p w =
     (if p \<in> set (dirs w) \<or> \<not> is_dir w (path_dirname p) then (w, Inl (OtherException ''IOError''))
      else (w\<lparr>files := dict_put p [] (files w)\<rparr>, Inr ()))"

definition write_template ::
  "string \<Rightarrow> string list \<Rightarrow> (string, string) pydict \<Rightarrow> world \<Rightarrow> world \<times> unit result" where
  "write_template p template d w =
     and_then (open_write p w) (\<lambda>u w.
     and_then (w, percent_dict (template_text template) d) (\<lambda>text w.
       (w\<lparr>files := dict_put p text (files w)\<rparr>, Inr ())))"

section \<open>\<open>main\<close>\<close>

datatype action = Mkdir string | Write string "string list" "(string, string) pydict"

fun run_action :: "action \<Rightarrow> world \<Rightarrow> world \<times> unit result" where
  "run_action (Mkdir p) w = mkdir p w"
| "run_action (Write p template d) w = write_template p template d w"

fun run_actions :: "action list \<Rightarrow> world \<Rightarrow> world \<times> unit result" where
  "run_actions [] w = (w, Inr ())"
| "run_actions (a # as) w = and_then (run_action a w) (\<lambda>u w. run_actions as w)"

text \<open>The statements of \<open>main\<close> that make the module, in order.\<close>

definition module_actions :: "string \<Rightarrow> string \<Rightarrow> action list" where
  "module_actions moduledir modname =
     (let file = (\<lambda>dir name. path_join (path_join moduledir dir) name);
          module = [(''MODULE'', modname)]
      in [Mkdir moduledir,
          Write (path_join moduledir ''wscript'') wscript_template module,
          Mkdir (path_join moduledir ''model''),
          Write (file ''model'' (modname @ ''.cc'')) model_cc_template module,
          Write (file ''model'' (modname @ ''.h'')) model_h_template
            [(''MODULE'', modname), (''INCLUDE_GUARD'', include_guard modname ''_H'')],
          Mkdir (path_join moduledir ''test''),
          Write (file ''test'' (modname @ ''-test-suite.cc'')) test_cc_template
            [(''MODULE'', modname), (''CAPITALIZED'', capitalized modname), (''COMPOUND'', compound modname)],
          Mkdir (path_join moduledir ''helper''),
          Write (file ''helper'' (modname @ ''-helper.cc'')) helper_cc_template module,
          Write (file ''helper'' (modname @ ''-helper.h'')) helper_h_template
            [(''MODULE'', modname), (''INCLUDE_GUARD'', include_guard modname ''_HELPER_H'')],
          Mkdir (path_join moduledir ''examples''),
          Write (file ''examples'' ''wscript'') examples_wscript_template module,
          Write (file ''examples'' (modname @ ''-example.cc'')) example_cc_template module,
          Mkdir (path_join moduledir ''doc''),
          Write (file ''doc'' (modname @ ''.rst'')) doc_rst_template module])"

definition say :: "message \<Rightarrow> world \<Rightarrow> world" where
  "say m w = w\<lparr>printed := printed w @ [m]\<rparr>"

definition valid_name :: "string \<Rightarrow> bool" where
  "valid_name modname \<longleftrightarrow> list_all isalnum (words modname)"

text \<open>\<open>here\<close> is \<open>os.path.dirname(__file__)\<close>, \<open>args\<close> the arguments that are not options.\<close>

definition create_main :: "string \<Rightarrow> string list \<Rightarrow> world \<Rightarrow> world \<times> int result" where
  "create_main here args w =
     (if length args \<noteq> 1 then (say Usage w, Inr 1)
      else
        let modname = map lower_char (hd args)
        in if \<not> valid_name modname then (say BadName w, Inr 2)
           else if CHR ''/'' \<in> set modname then (w, Inl AssertionError)
           else
             let moduledir = path_join here modname
             in if path_exists w moduledir then (say (AlreadyExists modname) w, Inr 2)
                else and_then (run_actions (module_actions moduledir modname) (say (Creating modname) w))
                       (\<lambda>u w. (w, Inr 0)))"

section \<open>Substitution cannot fail on the templates\<close>

lemma takeWhile_dropWhile_found:
  "dropWhile P t = p # u \<Longrightarrow> dropWhile P (t @ b) = p # u @ b \<and> takeWhile P (t @ b) = takeWhile P t"
  by (induction t) auto

lemma percent_append:
  "percent_dict a d = Inr x \<Longrightarrow> percent_dict (a @ b) d = rbind (percent_dict b d) (\<lambda>y. Inr (x @ y))"
proof (induction a d arbitrary: x rule: percent_dict.induct)
  case (1 d)
  then show ?case by (cases "percent_dict b d") simp_all
next
  case (2 c s d)
  show ?case
  proof (cases "c = CHR ''%''")
    case False
    then obtain r where "percent_dict s d = Inr r" "x = c # r" using "2.prems" by (auto simp: rbind_Inr_iff)
    then show ?thesis using "2.IH"(1) [OF False] False by (cases "percent_dict b d") simp_all
  next
    case True
    then obtain e t where s: "s = e # t" using "2.prems" by (cases s) auto
    show ?thesis
    proof (cases "e = CHR ''%''")
      case e: True
      then obtain r where "percent_dict t d = Inr r" "x = c # r" using "2.prems" True s by (auto simp: rbind_Inr_iff)
      then show ?thesis using "2.IH"(2) [of e t] True s e by (cases "percent_dict b d") simp_all
    next
      case False
      then have e: "e = CHR ''(''" using "2.prems" True s by (auto split: if_splits)
      obtain p f u v w r where d: "dropWhile (\<lambda>x. x \<noteq> CHR '')'') t = p # f # u"
        "dict_get d (takeWhile (\<lambda>x. x \<noteq> CHR '')'') t) = Some v" "conversion f v = Inr w"
        "percent_dict u d = Inr r" "x = w @ r"
        using "2.prems" True s e by (auto simp: rbind_Inr_iff split: list.splits option.splits)
      have "percent_dict (u @ b) d = rbind (percent_dict b d) (\<lambda>y. Inr (r @ y))"
        by (rule "2.IH"(3) [of e t p "f # u" f u v]) (use True s e d in simp_all)
      then show ?thesis
        using d True s e takeWhile_dropWhile_found [OF d(1), of b] by (cases "percent_dict b d") simp_all
    qed
  qed
qed

text \<open>Whether it fails depends on the keys only.\<close>

lemma percent_keys:
  assumes "\<And>k. dict_get d k = None \<longleftrightarrow> dict_get d' k = None" and "percent_dict t d = Inr x"
  shows "\<exists>y. percent_dict t d' = Inr y"
  using assms
proof (induction t d arbitrary: x rule: percent_dict.induct)
  case (2 c s d)
  show ?case
  proof (cases "c = CHR ''%''")
    case False
    then obtain r where "percent_dict s d = Inr r" using "2.prems" by (auto simp: rbind_Inr_iff)
    then show ?thesis using "2.IH"(1) [OF False "2.prems"(1)] False by auto
  next
    case True
    then obtain e t where s: "s = e # t" using "2.prems" by (cases s) auto
    show ?thesis
    proof (cases "e = CHR ''%''")
      case e: True
      then obtain r where "percent_dict t d = Inr r" using "2.prems" True s by (auto simp: rbind_Inr_iff)
      then show ?thesis using "2.IH"(2) [of e t] "2.prems"(1) True s e by auto
    next
      case False
      then have e: "e = CHR ''(''" using "2.prems" True s by (auto split: if_splits)
      obtain p f u v w r where d: "dropWhile (\<lambda>x. x \<noteq> CHR '')'') t = p # f # u"
        "dict_get d (takeWhile (\<lambda>x. x \<noteq> CHR '')'') t) = Some v" "conversion f v = Inr w"
        "percent_dict u d = Inr r"
        using "2.prems" True s e by (auto simp: rbind_Inr_iff split: list.splits option.splits)
      then obtain y where y: "percent_dict u d' = Inr y"
        using "2.IH"(3) [of e t p "f # u" f u v] "2.prems"(1) True s e by auto
      obtain v' where v': "dict_get d' (takeWhile (\<lambda>x. x \<noteq> CHR '')'') t) = Some v'"
        using d(2) "2.prems"(1) by (metis option.exhaust option.distinct(1))
      have "\<exists>w. conversion f v' = Inr w" using d(3) by (auto simp: conversion_def split: if_splits)
      then show ?thesis using d(1) True s e y v' by auto
    qed
  qed
qed simp

definition substitutes :: "string list \<Rightarrow> string list \<Rightarrow> bool" where
  "substitutes ls keys \<longleftrightarrow>
     list_all (\<lambda>l. \<not> isl (percent_dict l (map (\<lambda>k. (k, [])) keys))) ls"

lemma percent_lines:
  assumes "list_all (\<lambda>l. \<exists>x. percent_dict l d = Inr x) ls"
  shows "\<exists>x. percent_dict (join [CHR 0x0A] ls) d = Inr x"
  using assms
proof (induction ls rule: induct_list012)
  case (3 a b ls)
  then obtain x y where "percent_dict a d = Inr x" "percent_dict (join [CHR 0x0A] (b # ls)) d = Inr y"
    by auto
  then show ?case by (simp add: percent_append)
qed auto

lemma template_substitutes:
  assumes "substitutes ls keys" and "map fst d = keys"
  shows "\<exists>x. percent_dict (template_text ls) d = Inr x"
proof -
  have "dict_get (map (\<lambda>k. (k, [])) keys) k = None \<longleftrightarrow> dict_get d k = None" for k
    by (simp add: map_of_eq_None_iff comp_def image_image flip: assms(2))
  note keys = this
  have "\<exists>x. percent_dict l d = Inr x" if "l \<in> set ls" for l
  proof -
    have "\<not> isl (percent_dict l (map (\<lambda>k. (k, [])) keys))"
      using assms(1) that by (auto simp: substitutes_def list_all_iff)
    then obtain y where "percent_dict l (map (\<lambda>k. (k, [])) keys) = Inr y" by (metis sum.collapse(2))
    from percent_keys [OF keys this] show ?thesis .
  qed
  then show ?thesis unfolding template_text_def by (intro percent_lines) (simp add: list_all_iff)
qed

lemma templates_substitute:
  "substitutes wscript_template [''MODULE'']" "substitutes model_cc_template [''MODULE'']"
  "substitutes model_h_template [''MODULE'', ''INCLUDE_GUARD'']"
  "substitutes test_cc_template [''MODULE'', ''CAPITALIZED'', ''COMPOUND'']"
  "substitutes helper_cc_template [''MODULE'']"
  "substitutes helper_h_template [''MODULE'', ''INCLUDE_GUARD'']"
  "substitutes examples_wscript_template [''MODULE'']" "substitutes example_cc_template [''MODULE'']"
  "substitutes doc_rst_template [''MODULE'']"
  by code_simp+

section \<open>Making the directories and files\<close>

lemma path_dirname_below:
  assumes "a \<noteq> []" and "last a \<noteq> CHR ''/''" and "CHR ''/'' \<notin> set b"
  shows "path_dirname (a @ ''/'' @ b) = a"
proof -
  have "dropWhile (\<lambda>c. c \<noteq> CHR ''/'') (rev (a @ ''/'' @ b)) = CHR ''/'' # rev a"
    using assms(3) by (subst rev_append) (simp add: dropWhile_append)
  moreover have "dropWhile (\<lambda>c. c = CHR ''/'') (CHR ''/'' # rev a) = rev a"
    using assms(1,2) by (cases a rule: rev_cases) simp_all
  moreover have "\<not> list_all (\<lambda>c. c = CHR ''/'') (a @ ''/'')"
    using assms(1,2) by (auto simp: list_all_iff dest: last_in_set)
  ultimately show ?thesis by (simp add: path_dirname_def Let_def)
qed

text \<open>A list of actions that cannot be refused, given the directories and files there are.\<close>

fun feasible :: "string set \<Rightarrow> string set \<Rightarrow> action list \<Rightarrow> bool" where
  "feasible D F [] \<longleftrightarrow> True"
| "feasible D F (Mkdir p # as) \<longleftrightarrow>
     p \<notin> D \<and> p \<notin> F \<and> (path_dirname p = [] \<or> path_dirname p \<in> D) \<and> feasible (insert p D) F as"
| "feasible D F (Write p template d # as) \<longleftrightarrow>
     p \<notin> D \<and> (path_dirname p = [] \<or> path_dirname p \<in> D) \<and>
     (\<exists>x. percent_dict (template_text template) d = Inr x) \<and> feasible D (insert p F) as"

fun new_dirs :: "action list \<Rightarrow> string list" where
  "new_dirs [] = []"
| "new_dirs (Mkdir p # as) = p # new_dirs as"
| "new_dirs (Write p template d # as) = new_dirs as"

fun new_files :: "action list \<Rightarrow> (string \<times> string) list" where
  "new_files [] = []"
| "new_files (Mkdir p # as) = new_files as"
| "new_files (Write p template d # as) =
     (p, case percent_dict (template_text template) d of Inr text \<Rightarrow> text | Inl e \<Rightarrow> []) # new_files as"

lemma run_feasible:
  "feasible (set (dirs w)) (set (dict_keys (files w))) as \<Longrightarrow>
   \<exists>w'. run_actions as w = (w', Inr ()) \<and> dirs w' = dirs w @ new_dirs as \<and>
     dict_get (files w') p = (case dict_get (rev (new_files as)) p of Some t \<Rightarrow> Some t | None \<Rightarrow> dict_get (files w) p) \<and>
     printed w' = printed w"
proof (induction as arbitrary: w)
  case (Cons a as)
  show ?case
  proof (cases a)
    case (Mkdir q)
    let ?w = "w\<lparr>dirs := dirs w @ [q]\<rparr>"
    have "mkdir q w = (?w, Inr ())"
      using Cons.prems by (auto simp: Mkdir mkdir_def path_exists_def is_dir_def)
    moreover have "feasible (set (dirs ?w)) (set (dict_keys (files ?w))) as"
      using Cons.prems by (simp add: Mkdir)
    ultimately show ?thesis using Cons.IH [of ?w] by (auto simp: Mkdir cong: option.case_cong)
  next
    case (Write q template d)
    then obtain body where body: "percent_dict (template_text template) d = Inr body" using Cons.prems by auto
    let ?w = "w\<lparr>files := dict_put q body (files w)\<rparr>"
    have "run_action a w = (w\<lparr>files := dict_put q body (dict_put q [] (files w))\<rparr>, Inr ())"
      using Cons.prems by (auto simp: Write write_template_def open_write_def is_dir_def body)
    moreover have "dict_put q body (dict_put q [] (files w)) = dict_put q body (files w)"
      by (induction "files w") (auto simp: update_keys)
    ultimately have "run_action a w = (?w, Inr ())" by simp
    moreover have "feasible (set (dirs ?w)) (set (dict_keys (files ?w))) as"
      using Cons.prems by (simp add: Write pd.keys_put)
    ultimately show ?thesis using Cons.IH [of ?w]
      by (auto simp: Write body map_add_def dict_simps split: option.split)
  qed
qed simp

text \<open>What lies below a path that is in the file system needs the path to be a directory.\<close>

definition fs_ok :: "world \<Rightarrow> bool" where
  "fs_ok w \<longleftrightarrow> (\<forall>a b. a \<noteq> [] \<and> path_exists w (a @ ''/'' @ b) \<longrightarrow> a \<in> set (dirs w))"

lemma valid_name_chars:
  assumes "valid_name m"
  shows "m \<noteq> []" and "CHR ''/'' \<notin> set m" and "list_all (\<lambda>c. alnum c \<or> c = CHR ''-'') m"
proof -
  have "list_all isalnum (split_char CHR ''-'' m)" using assms by (simp add: valid_name_def words_def)
  moreover have "c = CHR ''-'' \<or> (\<exists>p \<in> set (split_char CHR ''-'' m). c \<in> set p)" if "c \<in> set m" for c
    using that by (induction m) (auto split: list.splits)
  ultimately have "c = CHR ''-'' \<or> alnum c" if "c \<in> set m" for c
    using that by (fastforce simp: list_all_iff isalnum_def)
  then show "CHR ''/'' \<notin> set m" "list_all (\<lambda>c. alnum c \<or> c = CHR ''-'') m"
    by (force simp: alnum_def list_all_iff)+
  show "m \<noteq> []" using assms by (auto simp: valid_name_def words_def isalnum_def)
qed

lemma slash_free [simp]:
  "CHR ''/'' \<notin> set ''wscript''" "CHR ''/'' \<notin> set ''model''" "CHR ''/'' \<notin> set ''test''"
  "CHR ''/'' \<notin> set ''helper''" "CHR ''/'' \<notin> set ''examples''" "CHR ''/'' \<notin> set ''doc''"
  by simp_all

lemma module_paths:
  assumes "md \<noteq> []" and "last md \<noteq> CHR ''/''" and "dir \<noteq> []" and "CHR ''/'' \<notin> set dir" and "CHR ''/'' \<notin> set name"
  shows "path_join md dir = md @ ''/'' @ dir" and "path_dirname (md @ ''/'' @ dir) = md"
    and "path_join (path_join md dir) name = md @ ''/'' @ dir @ ''/'' @ name"
    and "path_dirname (md @ ''/'' @ dir @ ''/'' @ name) = md @ ''/'' @ dir"
proof -
  have 1: "\<not> startswith ''/'' dir" "\<not> startswith ''/'' name" using assms(4,5) by (auto simp: startswith_char)
  have last: "last (md @ ''/'' @ dir) \<noteq> CHR ''/''" using assms(3,4) by (metis last_appendR last_in_set append_is_Nil_conv)
  show j: "path_join md dir = md @ ''/'' @ dir" using path_join_relative assms(1,2) 1(1) by simp
  show "path_dirname (md @ ''/'' @ dir) = md" by (rule path_dirname_below [OF assms(1,2,4)])
  show "path_join (path_join md dir) name = md @ ''/'' @ dir @ ''/'' @ name"
    using path_join_relative [OF _ last 1(2)] by (simp add: j)
  show "path_dirname (md @ ''/'' @ dir @ ''/'' @ name) = md @ ''/'' @ dir"
    using path_dirname_below [OF _ last assms(5)] by simp
qed

text \<open>The actions with their paths written out.\<close>

lemma module_actions_paths:
  assumes md: "md \<noteq> []" "last md \<noteq> CHR ''/''" and m: "CHR ''/'' \<notin> set m"
  shows "module_actions md m =
    [Mkdir md, Write (md @ ''/wscript'') wscript_template [(''MODULE'', m)],
     Mkdir (md @ ''/model''), Write (md @ ''/model/'' @ m @ ''.cc'') model_cc_template [(''MODULE'', m)],
     Write (md @ ''/model/'' @ m @ ''.h'') model_h_template
       [(''MODULE'', m), (''INCLUDE_GUARD'', include_guard m ''_H'')],
     Mkdir (md @ ''/test''), Write (md @ ''/test/'' @ m @ ''-test-suite.cc'') test_cc_template
       [(''MODULE'', m), (''CAPITALIZED'', capitalized m), (''COMPOUND'', compound m)],
     Mkdir (md @ ''/helper''), Write (md @ ''/helper/'' @ m @ ''-helper.cc'') helper_cc_template [(''MODULE'', m)],
     Write (md @ ''/helper/'' @ m @ ''-helper.h'') helper_h_template
       [(''MODULE'', m), (''INCLUDE_GUARD'', include_guard m ''_HELPER_H'')],
     Mkdir (md @ ''/examples''), Write (md @ ''/examples/wscript'') examples_wscript_template [(''MODULE'', m)],
     Write (md @ ''/examples/'' @ m @ ''-example.cc'') example_cc_template [(''MODULE'', m)],
     Mkdir (md @ ''/doc''), Write (md @ ''/doc/'' @ m @ ''.rst'') doc_rst_template [(''MODULE'', m)]]"
proof -
  have m': "CHR ''/'' \<notin> set (m @ ''.cc'')" "CHR ''/'' \<notin> set (m @ ''.h'')" "CHR ''/'' \<notin> set (m @ ''-test-suite.cc'')"
    "CHR ''/'' \<notin> set (m @ ''-helper.cc'')" "CHR ''/'' \<notin> set (m @ ''-helper.h'')"
    "CHR ''/'' \<notin> set (m @ ''-example.cc'')" "CHR ''/'' \<notin> set (m @ ''.rst'')"
    using m by simp_all
  have d: "path_join md ''wscript'' = md @ ''/wscript''" "path_join md ''model'' = md @ ''/model''"
    "path_join md ''test'' = md @ ''/test''" "path_join md ''helper'' = md @ ''/helper''"
    "path_join md ''examples'' = md @ ''/examples''" "path_join md ''doc'' = md @ ''/doc''"
    using module_paths(1) [OF md _ _ m] by simp_all
  have f: "path_join (md @ ''/model'') n = md @ ''/model/'' @ n" "path_join (md @ ''/test'') n = md @ ''/test/'' @ n"
    "path_join (md @ ''/helper'') n = md @ ''/helper/'' @ n" "path_join (md @ ''/examples'') n = md @ ''/examples/'' @ n"
    "path_join (md @ ''/doc'') n = md @ ''/doc/'' @ n" if n: "CHR ''/'' \<notin> set n" for n
    using module_paths(3) [OF md _ slash_free(2) n] module_paths(3) [OF md _ slash_free(3) n]
      module_paths(3) [OF md _ slash_free(4) n] module_paths(3) [OF md _ slash_free(5) n]
      module_paths(3) [OF md _ slash_free(6) n]
    by (simp_all add: d)
  show ?thesis
    unfolding module_actions_def Let_def d
    by (simp only: f [OF m'(1)] f [OF m'(2)] f [OF m'(3)] f [OF m'(4)] f [OF m'(5)] f [OF m'(6)] f [OF m'(7)]
        f [OF slash_free(1)]) simp
qed

lemma module_actions_feasible:
  assumes "fs_ok w" and "\<not> path_exists w md" and "is_dir w (path_dirname md)"
    and md: "md \<noteq> []" "last md \<noteq> CHR ''/''" and m: "CHR ''/'' \<notin> set m"
  shows "feasible (set (dirs w)) (set (dict_keys (files w))) (module_actions md m)"
proof -
  have fresh: "md @ CHR ''/'' # r \<notin> set (dirs w)" "md @ CHR ''/'' # r \<notin> set (dict_keys (files w))" for r
    using assms(1,2) md(1) by (auto simp: fs_ok_def path_exists_def)
  have d: "path_dirname (md @ ''/wscript'') = md" "path_dirname (md @ ''/model'') = md"
    "path_dirname (md @ ''/test'') = md" "path_dirname (md @ ''/helper'') = md"
    "path_dirname (md @ ''/examples'') = md" "path_dirname (md @ ''/doc'') = md"
    using module_paths(2) [OF md _ _ m] by simp_all
  have f: "path_dirname (md @ ''/model/'' @ n) = md @ ''/model''" "path_dirname (md @ ''/test/'' @ n) = md @ ''/test''"
    "path_dirname (md @ ''/helper/'' @ n) = md @ ''/helper''" "path_dirname (md @ ''/examples/'' @ n) = md @ ''/examples''"
    "path_dirname (md @ ''/doc/'' @ n) = md @ ''/doc''" if n: "CHR ''/'' \<notin> set n" for n
    using module_paths(4) [OF md _ slash_free(2) n] module_paths(4) [OF md _ slash_free(3) n]
      module_paths(4) [OF md _ slash_free(4) n] module_paths(4) [OF md _ slash_free(5) n]
      module_paths(4) [OF md _ slash_free(6) n]
    by simp_all
  have md0: "md \<notin> set (dirs w)" "md \<notin> set (dict_keys (files w))"
    "path_dirname md = [] \<or> path_dirname md \<in> set (dirs w)"
    using assms(2,3) by (auto simp: path_exists_def is_dir_def)
  show ?thesis
    unfolding module_actions_paths [OF md m]
    using m md0(3) by (simp add: d f [simplified] f(4) [of "''wscript''", simplified] fresh md0(1,2)
        template_substitutes [OF templates_substitute(1)]
        template_substitutes [OF templates_substitute(2)] template_substitutes [OF templates_substitute(3)]
        template_substitutes [OF templates_substitute(4)] template_substitutes [OF templates_substitute(5)]
        template_substitutes [OF templates_substitute(6)] template_substitutes [OF templates_substitute(7)]
        template_substitutes [OF templates_substitute(8)] template_substitutes [OF templates_substitute(9)])
qed

definition filled :: "string list \<Rightarrow> (string, string) pydict \<Rightarrow> string" where
  "filled ls d = (case percent_dict (template_text ls) d of Inr body \<Rightarrow> body | Inl e \<Rightarrow> [])"

text \<open>The files of a module and their contents.\<close>

definition module_files :: "string \<Rightarrow> string \<Rightarrow> (string \<times> string) list" where
  "module_files md m =
     [(md @ ''/wscript'', filled wscript_template [(''MODULE'', m)]),
      (md @ ''/model/'' @ m @ ''.cc'', filled model_cc_template [(''MODULE'', m)]),
      (md @ ''/model/'' @ m @ ''.h'', filled model_h_template
         [(''MODULE'', m), (''INCLUDE_GUARD'', include_guard m ''_H'')]),
      (md @ ''/test/'' @ m @ ''-test-suite.cc'', filled test_cc_template
         [(''MODULE'', m), (''CAPITALIZED'', capitalized m), (''COMPOUND'', compound m)]),
      (md @ ''/helper/'' @ m @ ''-helper.cc'', filled helper_cc_template [(''MODULE'', m)]),
      (md @ ''/helper/'' @ m @ ''-helper.h'', filled helper_h_template
         [(''MODULE'', m), (''INCLUDE_GUARD'', include_guard m ''_HELPER_H'')]),
      (md @ ''/examples/wscript'', filled examples_wscript_template [(''MODULE'', m)]),
      (md @ ''/examples/'' @ m @ ''-example.cc'', filled example_cc_template [(''MODULE'', m)]),
      (md @ ''/doc/'' @ m @ ''.rst'', filled doc_rst_template [(''MODULE'', m)])]"

lemma module_files_distinct: "distinct (map fst (module_files md m))"
  by (auto simp: module_files_def)

lemma new_files_module:
  assumes "md \<noteq> []" "last md \<noteq> CHR ''/''" and "CHR ''/'' \<notin> set m"
  shows "new_files (module_actions md m) = module_files md m"
    and "new_dirs (module_actions md m) = map ((@) md)
      ['''', ''/model'', ''/test'', ''/helper'', ''/examples'', ''/doc'']"
  unfolding module_actions_paths [OF assms] by (simp_all add: module_files_def filled_def)

text \<open>The names of C++ files a wscript mentions outside of its comments.\<close>

fun quoted :: "string list \<Rightarrow> string list" where
  "quoted (a # b # ps) = b # quoted ps"
| "quoted ps = []"

definition cpp_file :: "string \<Rightarrow> bool" where
  "cpp_file s \<longleftrightarrow> take 3 (rev s) = ''cc.'' \<or> take 2 (rev s) = ''h.''"

definition sources :: "string \<Rightarrow> string list" where
  "sources wscript =
     filter cpp_file (concat (map (\<lambda>l. quoted (split_char CHR 0x27 l))
       (filter (\<lambda>l. \<not> startswith ''#'' l) (split_char CHR 0x0A wscript))))"

lemma percent_map:
  assumes "list_all2 (\<lambda>l x. percent_dict l d = Inr x) ls xs"
  shows "percent_dict (join [CHR 0x0A] ls) d = Inr (join [CHR 0x0A] xs)"
  using assms
proof (induction ls arbitrary: xs rule: induct_list012)
  case (3 a b ls)
  then obtain x y ys where xs: "xs = x # y # ys" "percent_dict a d = Inr x" "percent_dict b d = Inr y"
    "list_all2 (\<lambda>l x. percent_dict l d = Inr x) ls ys"
    by (auto simp: list_all2_Cons1)
  then have "percent_dict (join [CHR 0x0A] (b # ls)) d = Inr (join [CHR 0x0A] (y # ys))"
    using "3.IH"(2) [of "y # ys"] by simp
  then show ?case using xs by (simp add: percent_append)
qed (auto simp: list_all2_Cons1)

text \<open>The lines of the wscript of a module.\<close>

definition wscript_lines :: "string \<Rightarrow> string list" where
  "wscript_lines m =
     [''# -*- Mode: python; py-indent-offset: 4; indent-tabs-mode: nil; coding: utf-8; -*-'',
      '''',
      ''# def options(opt):'',
      ''#     pass'',
      '''',
      ''# def configure(conf):'',
      ''#     conf.check_nonfatal(header_name='stdint.h', define_name='HAVE_STDINT_H')'',
      '''',
      ''def build(bld):'',
      (''    module = bld.create_ns3_module('' @ [CHR 0x27]) @ m @ (CHR 0x27 # '', ['core'])''),
      ''    module.source = ['',
      ''        'model/'' @ m @ ''.cc','',
      ''        'helper/'' @ m @ ''-helper.cc','',
      ''        ]'',
      '''',
      (''    module_test = bld.create_ns3_module_test_library('' @ [CHR 0x27]) @ m @ (CHR 0x27 # '')''),
      ''    module_test.source = ['',
      ''        'test/'' @ m @ ''-test-suite.cc','',
      ''        ]'',
      '''',
      ''    headers = bld(features='ns3header')'',
      (''    headers.module = '' @ [CHR 0x27]) @ m @ (CHR 0x27 # ''''),
      ''    headers.source = ['',
      ''        'model/'' @ m @ ''.h','',
      ''        'helper/'' @ m @ ''-helper.h','',
      ''        ]'',
      '''',
      ''    if bld.env.ENABLE_EXAMPLES:'',
      ''        bld.recurse('examples')'',
      '''',
      ''    # bld.ns3_python_bindings()'',
      '''',
      '''']"

lemma wscript_filled:
  assumes "CHR 0x27 \<notin> set m" and "CHR 0x5C \<notin> set m"
  shows "list_all2 (\<lambda>l x. percent_dict l [(''MODULE'', m)] = Inr x) wscript_template (wscript_lines m)"
  by (simp add: wscript_template_def wscript_lines_def conversion_def py_repr_plain [OF assms])

lemma not_cpp_file:
  assumes "CHR ''.'' \<notin> set m"
  shows "\<not> cpp_file m"
proof
  assume "cpp_file m"
  then have "CHR ''.'' \<in> set (take 3 (rev m)) \<or> CHR ''.'' \<in> set (take 2 (rev m))"
    by (auto simp: cpp_file_def)
  then show False using assms by (auto dest: in_set_takeD)
qed

lemma split_char_prefix:
  "c \<notin> set m \<Longrightarrow> split_char c (m @ s) = (case split_char c s of p # ps \<Rightarrow> (m @ p) # ps | [] \<Rightarrow> [m])"
  by (induction m) (auto split: list.split)

lemma quoted_sources:
  assumes "CHR 0x27 \<notin> set m" and "CHR ''.'' \<notin> set m"
  shows "filter cpp_file (concat (map (\<lambda>l. quoted (split_char CHR 0x27 l))
      (filter (\<lambda>l. \<not> startswith ''#'' l) (wscript_lines m)))) =
    [''model/'' @ m @ ''.cc'', ''helper/'' @ m @ ''-helper.cc'', ''test/'' @ m @ ''-test-suite.cc'',
     ''model/'' @ m @ ''.h'', ''helper/'' @ m @ ''-helper.h'']"
  by (simp add: wscript_lines_def startswith_def split_char_prefix [OF assms(1)] not_cpp_file [OF assms(2)])
    (simp add: cpp_file_def)

lemma wscript_sources:
  assumes "list_all (\<lambda>c. alnum c \<or> c = CHR ''-'') m"
  shows "sources (filled wscript_template [(''MODULE'', m)]) =
    [''model/'' @ m @ ''.cc'', ''helper/'' @ m @ ''-helper.cc'', ''test/'' @ m @ ''-test-suite.cc'',
     ''model/'' @ m @ ''.h'', ''helper/'' @ m @ ''-helper.h'']"
proof -
  have m: "CHR 0x27 \<notin> set m" "CHR 0x5C \<notin> set m" "CHR ''.'' \<notin> set m" "CHR 0x0A \<notin> set m"
    using assms by (auto simp: list_all_iff alnum_def Let_def)
  have "percent_dict (template_text wscript_template) [(''MODULE'', m)] = Inr (join [CHR 0x0A] (wscript_lines m))"
    unfolding template_text_def by (rule percent_map [OF wscript_filled [OF m(1,2)]])
  then have "filled wscript_template [(''MODULE'', m)] = join [CHR 0x0A] (wscript_lines m)"
    by (simp add: filled_def)
  moreover have "split_char CHR 0x0A (join [CHR 0x0A] (wscript_lines m)) = wscript_lines m"
    by (rule split_join) (use m(4) in \<open>simp_all add: wscript_lines_def\<close>)
  ultimately show ?thesis by (simp add: sources_def quoted_sources [OF m(1,3)])
qed

section \<open>Properties\<close>

text \<open>C19:
  With one argument \<open>main\<close> refuses a name with other characters than letters, digits and dashes, or
  with an empty part, and a name that exists, without touching the file system. Otherwise it makes
  exactly the six directories and nine files of the module, with the templates filled in, changes
  no other file and cannot fail, if the directory of the script exists.
\<close>
theorem create_main_outcome:
  assumes "fs_ok w" and "m = map lower_char name" and "md = path_join here m" and "is_dir w (path_dirname md)"
  shows "if \<not> valid_name m then create_main here [name] w = (say BadName w, Inr 2)
    else if path_exists w md then create_main here [name] w = (say (AlreadyExists m) w, Inr 2)
    else \<exists>w'. create_main here [name] w = (w', Inr 0) \<and>
      dirs w' = dirs w @ map ((@) md) ['''', ''/model'', ''/test'', ''/helper'', ''/examples'', ''/doc''] \<and>
      dict_get (files w') p =
        (case dict_get (module_files md m) p of Some t \<Rightarrow> Some t | None \<Rightarrow> dict_get (files w) p)"
proof -
  consider "\<not> valid_name m" | "valid_name m" "path_exists w md" | "valid_name m" "\<not> path_exists w md" by blast
  then show ?thesis
  proof cases
    case 3
    note chars = valid_name_chars [OF 3(1)]
    have md: "md \<noteq> []" "last md \<noteq> CHR ''/''"
      using chars(1,2) assms(3) by (auto simp: path_join_def startswith_char dest: last_in_set)
    let ?w = "say (Creating m) w"
    have "fs_ok ?w" "\<not> path_exists ?w md" "is_dir ?w (path_dirname md)"
      using assms(1,4) 3(2) by (simp_all add: say_def fs_ok_def path_exists_def is_dir_def)
    from run_feasible [OF module_actions_feasible [OF this md chars(2)], of p]
    obtain w' where w': "run_actions (module_actions md m) ?w = (w', Inr ())"
      "dirs w' = dirs w @ map ((@) md) ['''', ''/model'', ''/test'', ''/helper'', ''/examples'', ''/doc'']"
      "dict_get (files w') p = (case dict_get (rev (module_files md m)) p of Some t \<Rightarrow> Some t
        | None \<Rightarrow> dict_get (files w) p)"
      by (auto simp: new_files_module [OF md chars(2)] say_def cong: option.case_cong)
    have "map_of (rev (module_files md m)) = map_of (module_files md m)"
      using module_files_distinct by (subst map_of_inject_set) (simp_all flip: rev_map)
    then show ?thesis using 3 w' chars(2) by (simp add: create_main_def Let_def flip: assms(2,3))
  qed (use valid_name_chars in \<open>simp_all add: create_main_def Let_def flip: assms(2,3)\<close>)
qed

text \<open>The wscript of a new module lists exactly the C++ files that are made outside of its examples,
  under the paths at which they are made.
\<close>
theorem wscript_lists_sources:
  assumes "valid_name m"
  shows "set (sources (filled wscript_template [(''MODULE'', m)])) =
    {r. md @ ''/'' @ r \<in> set (dict_keys (module_files md m)) \<and> cpp_file r \<and> \<not> prefix ''examples/'' r}"
proof -
  let ?P = "\<lambda>r. cpp_file r \<and> \<not> prefix ''examples/'' r"
  let ?names = "[''wscript'', ''model/'' @ m @ ''.cc'', ''model/'' @ m @ ''.h'', ''test/'' @ m @ ''-test-suite.cc'',
    ''helper/'' @ m @ ''-helper.cc'', ''helper/'' @ m @ ''-helper.h'', ''examples/wscript'',
    ''examples/'' @ m @ ''-example.cc'', ''doc/'' @ m @ ''.rst'']"
  have "set (dict_keys (module_files md m)) = (\<lambda>r. md @ ''/'' @ r) ` set ?names"
    by (simp add: module_files_def dict_keys_def)
  then have "{r. md @ ''/'' @ r \<in> set (dict_keys (module_files md m)) \<and> ?P r} = {r \<in> set ?names. ?P r}"
    by (simp only: image_iff) auto
  also have "\<dots> = set (filter ?P ?names)" by (simp only: set_filter)
  also have "filter ?P ?names = [''model/'' @ m @ ''.cc'', ''model/'' @ m @ ''.h'', ''test/'' @ m @ ''-test-suite.cc'',
    ''helper/'' @ m @ ''-helper.cc'', ''helper/'' @ m @ ''-helper.h'']"
    by (simp add: cpp_file_def)
  finally show ?thesis
    unfolding wscript_sources [OF valid_name_chars(3) [OF assms]] by (simp add: insert_commute)
qed

definition demo_world :: world where
  "demo_world = \<lparr>dirs = [''src''], files = [], printed = []\<rparr>"

theorem create_main_outcome_witness:
  "\<exists>w'. create_main ''src'' [''New-Mac''] demo_world = (w', Inr 0) \<and>
     set (dirs w') \<supseteq> {''src/new-mac'', ''src/new-mac/doc''} \<and>
     dict_get (files w') ''src/new-mac/helper/new-mac-helper.h'' =
       Some (filled helper_h_template [(''MODULE'', ''new-mac''), (''INCLUDE_GUARD'', ''NEW_MAC_HELPER_H'')])"
proof -
  have 1: "fs_ok demo_world" by (auto simp: fs_ok_def demo_world_def path_exists_def dict_keys_def append_eq_Cons_conv)
  have 2: "''new-mac'' = map lower_char ''New-Mac''" by code_simp
  have 3: "''src/new-mac'' = path_join ''src'' ''new-mac''" by code_simp
  have 4: "is_dir demo_world (path_dirname ''src/new-mac'')" by code_simp
  have 5: "valid_name ''new-mac''" "\<not> path_exists demo_world ''src/new-mac''"
    "include_guard ''new-mac'' ''_HELPER_H'' = ''NEW_MAC_HELPER_H''" by code_simp+
  show ?thesis
    using create_main_outcome [OF 1 2 3 4, of "''src/new-mac/helper/new-mac-helper.h''"] 5
    by (auto simp: module_files_def)
qed

theorem wscript_lists_sources_witness:
  "set (sources (filled wscript_template [(''MODULE'', ''ab'')])) =
     {r. ''src/ab/'' @ r \<in> set (dict_keys (module_files ''src/ab'' ''ab'')) \<and> cpp_file r \<and> \<not> prefix ''examples/'' r}"
proof -
  have "valid_name ''ab''" by code_simp
  from wscript_lists_sources [OF this, of "''src/ab''"] show ?thesis by simp
qed

text \<open>A name that starts with a digit is accepted, but its include guard is no identifier.\<close>

lemma guard_starts_with_digit: "valid_name ''3g'' \<and> include_guard ''3g'' ''_H'' = ''3G_H''"
  by code_simp

end
