(* ===== verification/VizBase.thy ===== *)
theory VizBase
  imports PyPath Complex_Main
begin

text \<open>
  The module \<open>src/src/visualizer/visualizer/base.py\<close>: the traits of network device classes, the
  transforms between the coordinates of the simulation and of the canvas, and the loading of
  plugins; and the snapshot of the simulator that the visualizer reads through the C++ bindings.
  Classes are named by strings, floats are exact rationals, modules are what importing them gives.
\<close>

section \<open>The simulator as the visualizer reads it\<close>

datatype mac = StaMac | ApMac | OtherMac

record device =
  d_class :: string
  d_channel :: "nat option"
  d_mac :: mac
  d_address :: string
  d_bssid :: string
  d_link_up :: bool

text \<open>
  \<open>w_channel\<close> gives the nodes of the devices of a channel, \<open>w_tx\<close> and \<open>w_drops\<close> are the samples
  of the last run of the simulator and \<open>w_pauses\<close> the messages with which it asked for a pause.
\<close>

record world =
  w_now :: rat
  w_nodes :: nat
  w_mobility :: "nat \<Rightarrow> (rat \<times> rat) option"
  w_devices :: "nat \<Rightarrow> device list"
  w_channel :: "nat \<Rightarrow> nat list"
  w_tx :: "(nat \<times> nat \<times> nat) list"
  w_drops :: "(nat \<times> nat) list"
  w_pauses :: "string list"

section \<open>Device traits\<close>

record device_traits =
  is_wireless :: "bool option"
  is_virtual :: bool

definition new_traits :: "bool option \<Rightarrow> bool \<Rightarrow> device_traits result" where
  "new_traits wireless virtual =
     (if virtual \<or> wireless \<noteq> None then Inr \<lparr>is_wireless = wireless, is_virtual = virtual\<rparr>
      else Inl AssertionError)"

definition netdevice_traits :: "(string, device_traits) pydict" where
  "netdevice_traits =
     [(''PointToPointNetDevice'', \<lparr>is_wireless = Some False, is_virtual = False\<rparr>),
      (''CsmaNetDevice'', \<lparr>is_wireless = Some False, is_virtual = False\<rparr>),
      (''WifiNetDevice'', \<lparr>is_wireless = Some True, is_virtual = False\<rparr>),
      (''BridgeNetDevice'', \<lparr>is_wireless = None, is_virtual = True\<rparr>),
      (''LoopbackNetDevice'', \<lparr>is_wireless = Some False, is_virtual = True\<rparr>),
      (''MeshPointDevice'', \<lparr>is_wireless = None, is_virtual = True\<rparr>),
      (''SubscriberStationNetDevice'', \<lparr>is_wireless = Some True, is_virtual = False\<rparr>),
      (''BaseStationNetDevice'', \<lparr>is_wireless = Some True, is_virtual = False\<rparr>),
      (''LteUeNetDevice'', \<lparr>is_wireless = Some True, is_virtual = False\<rparr>),
      (''LteEnbNetDevice'', \<lparr>is_wireless = Some True, is_virtual = False\<rparr>)]"

text \<open>An unknown class is taken for a wireless device, once with a warning that names it.\<close>

definition lookup_netdevice_traits ::
  "string \<Rightarrow> (string, device_traits) pydict \<times> string list \<Rightarrow> ((string, device_traits) pydict \<times> string list) \<times> device_traits" where
  "lookup_netdevice_traits c st =
     (case st of (known, warned) \<Rightarrow>
        (case dict_get known c of
           Some t \<Rightarrow> (st, t)
         | None \<Rightarrow>
             (let t = \<lparr>is_wireless = Some True, is_virtual = False\<rparr>
              in ((dict_put c t known, warned @ [c]), t))))"

text \<open>Whether the device gets links: the two \<open>continue\<close> of the scan of the topology.\<close>

definition is_wired :: "device_traits \<Rightarrow> bool" where
  "is_wired t \<longleftrightarrow> is_wireless t \<noteq> Some True \<and> \<not> is_virtual t"

lemma lookup_get: "snd (lookup_netdevice_traits c st) =
    (case dict_get (fst st) c of Some t \<Rightarrow> t | None \<Rightarrow> \<lparr>is_wireless = Some True, is_virtual = False\<rparr>)"
  by (cases st) (simp add: lookup_netdevice_traits_def Let_def split: option.split)

lemma lookup_keeps:
  "dict_get (fst (fst (lookup_netdevice_traits c st))) c' =
     (case dict_get (fst st) c' of Some t \<Rightarrow> Some t
      | None \<Rightarrow> if c' = c then Some \<lparr>is_wireless = Some True, is_virtual = False\<rparr> else None)"
  by (cases st) (simp add: lookup_netdevice_traits_def Let_def dict_simps split: option.split)

text \<open>A class is warned about at most once, and the answer never changes.\<close>

lemma lookup_again:
  assumes "lookup_netdevice_traits c st = (st', t)"
  shows "lookup_netdevice_traits c st' = (st', t)"
  using assms
  by (cases st) (auto simp: lookup_netdevice_traits_def Let_def dict_simps split: option.splits)

lemma lookup_known:
  assumes "list_all (\<lambda>c. dict_get known c \<noteq> None) cs" and "c \<in> set cs"
  shows "fst (lookup_netdevice_traits c (known, warned)) = (known, warned)"
  using assms by (auto simp: list_all_iff lookup_netdevice_traits_def)

section \<open>Transforms\<close>

definition pixels_per_meter :: rat where
  "pixels_per_meter = 3"

definition transform_distance_simulation_to_canvas :: "rat \<Rightarrow> rat" where
  "transform_distance_simulation_to_canvas d = d * pixels_per_meter"

definition transform_point_simulation_to_canvas :: "rat \<times> rat \<Rightarrow> rat \<times> rat" where
  "transform_point_simulation_to_canvas p = (fst p * pixels_per_meter, snd p * pixels_per_meter)"

definition transform_distance_canvas_to_simulation :: "rat \<Rightarrow> rat" where
  "transform_distance_canvas_to_simulation d = d / pixels_per_meter"

definition transform_point_canvas_to_simulation :: "rat \<times> rat \<Rightarrow> rat \<times> rat" where
  "transform_point_canvas_to_simulation p = (fst p / pixels_per_meter, snd p / pixels_per_meter)"

lemma transform_inverse [simp]:
  "transform_point_canvas_to_simulation (transform_point_simulation_to_canvas p) = p"
  "transform_point_simulation_to_canvas (transform_point_canvas_to_simulation p) = p"
  "transform_distance_canvas_to_simulation (transform_distance_simulation_to_canvas d) = d"
  "transform_distance_simulation_to_canvas (transform_distance_canvas_to_simulation d) = d"
  by (simp_all add: transform_point_canvas_to_simulation_def transform_point_simulation_to_canvas_def
    transform_distance_canvas_to_simulation_def transform_distance_simulation_to_canvas_def
    pixels_per_meter_def)

section \<open>Plugins\<close>

text \<open>What \<open>__import__\<close> does with the name of a plugin, and what the module holds.\<close>

datatype plugin_import =
    FailsImport string | RaisesOther py_error | NoRegister | NotCallable | Registers

datatype plugin_message = CouldNotLoad string string | HasNoRegister string

record plugin_state =
  plugins :: "string list"
  plugin_modules :: "(string, string) pydict"
  plugins_loaded :: bool
  sys_path :: "string list"
  p_stderr :: "plugin_message list"

text \<open>The plugin function of a module is named by the module.\<close>

definition register_plugin ::
  "string \<Rightarrow> bool \<Rightarrow> string \<Rightarrow> string option \<Rightarrow> plugin_state \<Rightarrow> plugin_state \<times> unit result" where
  "register_plugin func callable name plugin_module st =
     (if \<not> callable then (st, Inl AssertionError)
      else
        (let st = st\<lparr>plugins := plugins st @ [func]\<rparr>
         in (case plugin_module of
               None \<Rightarrow> st
             | Some m \<Rightarrow> st\<lparr>plugin_modules := dict_put name m (plugin_modules st)\<rparr>, Inr ())))"

fun plugins_loop ::
  "(string \<Rightarrow> plugin_import) \<Rightarrow> string list \<Rightarrow> plugin_state \<Rightarrow> plugin_state \<times> unit result" where
  "plugins_loop imp [] st = (st, Inr ())"
| "plugins_loop imp (filename # rest) st =
     (case path_splitext filename of (name, ext) \<Rightarrow>
        if ext \<noteq> ''.py'' then plugins_loop imp rest st
        else (case imp name of
            FailsImport ex \<Rightarrow>
              plugins_loop imp rest (st\<lparr>p_stderr := p_stderr st @ [CouldNotLoad filename ex]\<rparr>)
          | RaisesOther e \<Rightarrow> (st, Inl e)
          | NoRegister \<Rightarrow> plugins_loop imp rest (st\<lparr>p_stderr := p_stderr st @ [HasNoRegister name]\<rparr>)
          | NotCallable \<Rightarrow> and_then (register_plugin name False name (Some name) st) (\<lambda>u. plugins_loop imp rest)
          | Registers \<Rightarrow> and_then (register_plugin name True name (Some name) st) (\<lambda>u. plugins_loop imp rest)))"

definition load_plugins ::
  "string \<Rightarrow> string list \<Rightarrow> (string \<Rightarrow> plugin_import) \<Rightarrow> plugin_state \<Rightarrow> plugin_state \<times> unit result" where
  "load_plugins plugins_dir files imp st =
     (if plugins_loaded st then (st, Inr ())
      else
        (let old_path = sys_path st
         in and_then
              (plugins_loop imp files (st\<lparr>plugins_loaded := True, sys_path := plugins_dir # old_path\<rparr>))
              (\<lambda>u st. (st\<lparr>sys_path := old_path\<rparr>, Inr ()))))"

section \<open>What loading the plugins does\<close>

definition plugin_names :: "string list \<Rightarrow> string list" where
  "plugin_names files = map (fst \<circ> path_splitext) (filter (\<lambda>f. snd (path_splitext f) = ''.py'') files)"

definition import_stops :: "plugin_import \<Rightarrow> bool" where
  "import_stops i \<longleftrightarrow> (case i of RaisesOther e \<Rightarrow> True | NotCallable \<Rightarrow> True | _ \<Rightarrow> False)"

definition stop_error :: "plugin_import \<Rightarrow> py_error" where
  "stop_error i = (case i of RaisesOther e \<Rightarrow> e | _ \<Rightarrow> AssertionError)"

lemma plugin_names_simps:
  "plugin_names [] = []"
  "plugin_names (f # fs) =
     (if snd (path_splitext f) = ''.py'' then fst (path_splitext f) # plugin_names fs else plugin_names fs)"
  by (simp_all add: plugin_names_def)

lemma import_stops_simps [simp]:
  "\<not> import_stops (FailsImport ex)" "import_stops (RaisesOther e)" "\<not> import_stops NoRegister"
  "import_stops NotCallable" "\<not> import_stops Registers"
  "stop_error (RaisesOther e) = e" "stop_error NotCallable = AssertionError"
  by (simp_all add: import_stops_def stop_error_def)

lemma register_plugin_simps [simp]:
  "register_plugin f False n q st = (st, Inl AssertionError)"
  "register_plugin f True n (Some m) st =
     (st\<lparr>plugins := plugins st @ [f], plugin_modules := dict_put n m (plugin_modules st)\<rparr>, Inr ())"
  by (simp_all add: register_plugin_def Let_def)

lemma plugins_loop_outcome:
  "plugins_loop imp files st = (st', r) \<Longrightarrow>
   plugins st' = plugins st @
     filter (\<lambda>n. imp n = Registers) (takeWhile (\<lambda>n. \<not> import_stops (imp n)) (plugin_names files)) \<and>
   r = (case dropWhile (\<lambda>n. \<not> import_stops (imp n)) (plugin_names files) of
          [] \<Rightarrow> Inr () | n # _ \<Rightarrow> Inl (stop_error (imp n))) \<and>
   plugins_loaded st' = plugins_loaded st \<and> sys_path st' = sys_path st"
proof (induction files arbitrary: st)
  case Nil
  then show ?case by (simp add: plugin_names_simps)
next
  case (Cons f fs)
  obtain n e where f: "path_splitext f = (n, e)" by fastforce
  have run: "plugins_loop imp (f # fs) st = (st', r)" by (rule Cons.prems)
  show ?case
  proof (cases "e = ''.py''")
    case False
    then show ?thesis using run Cons.IH [of st] by (simp add: f plugin_names_simps)
  next
    case e: True
    show ?thesis
    proof (cases "imp n")
      case Registers
      with run e f have "plugins_loop imp fs
          (st\<lparr>plugins := plugins st @ [n], plugin_modules := dict_put n n (plugin_modules st)\<rparr>) = (st', r)"
        by simp
      from Cons.IH [OF this] show ?thesis by (simp add: f e Registers plugin_names_simps)
    next
      case (FailsImport ex)
      with run e f have "plugins_loop imp fs (st\<lparr>p_stderr := p_stderr st @ [CouldNotLoad f ex]\<rparr>) = (st', r)"
        by simp
      from Cons.IH [OF this] show ?thesis by (simp add: f e FailsImport plugin_names_simps)
    next
      case NoRegister
      with run e f have "plugins_loop imp fs (st\<lparr>p_stderr := p_stderr st @ [HasNoRegister n]\<rparr>) = (st', r)"
        by simp
      from Cons.IH [OF this] show ?thesis by (simp add: f e NoRegister plugin_names_simps)
    next
      case (RaisesOther x)
      with run e f show ?thesis by (auto simp: plugin_names_simps)
    next
      case NotCallable
      with run e f show ?thesis by (auto simp: plugin_names_simps)
    qed
  qed
qed

text \<open>The first call of \<open>load_plugins\<close> registers, in the order of the directory, the plugins whose
  modules import and have a callable \<open>register\<close>, and restores \<open>sys.path\<close>. If a module raises
  something else than \<open>ImportError\<close>, or has a \<open>register\<close> that is not callable, the loading stops
  there with that error, \<open>sys.path\<close> keeps the plugin directory in front, and every later call
  returns at once: the plugins after it are never loaded.
\<close>

theorem load_plugins_outcome:
  assumes "\<not> plugins_loaded st" and "load_plugins dir files imp st = (st', r)"
  shows "plugins st' = plugins st @
      filter (\<lambda>n. imp n = Registers) (takeWhile (\<lambda>n. \<not> import_stops (imp n)) (plugin_names files)) \<and>
    r = (case dropWhile (\<lambda>n. \<not> import_stops (imp n)) (plugin_names files) of
      [] \<Rightarrow> Inr () | n # _ \<Rightarrow> Inl (stop_error (imp n))) \<and>
    sys_path st' = (if r = Inr () then sys_path st else dir # sys_path st) \<and>
    load_plugins dir files imp st' = (st', Inr ())"
proof -
  obtain t q where t: "plugins_loop imp files (st\<lparr>plugins_loaded := True, sys_path := dir # sys_path st\<rparr>) = (t, q)"
    by fastforce
  have "st' = (if q = Inr () then t\<lparr>sys_path := sys_path st\<rparr> else t)" and "r = q"
    using assms t by (auto simp: load_plugins_def Let_def and_then_def split: sum.splits)
  then show ?thesis
    using plugins_loop_outcome [OF t] by (simp add: load_plugins_def)
qed

theorem load_plugins_outcome_witness:
  "load_plugins ''/p'' [''a.py'', ''a.pyc'', ''b.py'', ''c.py'']
     (\<lambda>n. if n = ''b'' then RaisesOther (OtherException ''SyntaxError'') else Registers)
     \<lparr>plugins = [], plugin_modules = [], plugins_loaded = False, sys_path = [''/l''], p_stderr = []\<rparr> =
   (\<lparr>plugins = [''a''], plugin_modules = [(''a'', ''a'')], plugins_loaded = True,
     sys_path = [''/p'', ''/l''], p_stderr = []\<rparr>, Inl (OtherException ''SyntaxError''))
   \<and> sys_path (fst (load_plugins ''/p'' [''a.py'', ''a.pyc'', ''b.py'', ''c.py'']
     (\<lambda>n. if n = ''b'' then RaisesOther (OtherException ''SyntaxError'') else Registers)
     \<lparr>plugins = [], plugin_modules = [], plugins_loaded = False, sys_path = [''/l''], p_stderr = []\<rparr>))
     = [''/p'', ''/l'']"
proof -
  let ?st = "\<lparr>plugins = [], plugin_modules = [], plugins_loaded = False, sys_path = [''/l''], p_stderr = []\<rparr>"
  let ?imp = "\<lambda>n. if n = ''b'' then RaisesOther (OtherException ''SyntaxError'') else Registers"
  let ?files = "[''a.py'', ''a.pyc'', ''b.py'', ''c.py'']"
  have "load_plugins ''/p'' ?files ?imp ?st =
   (\<lparr>plugins = [''a''], plugin_modules = [(''a'', ''a'')], plugins_loaded = True,
     sys_path = [''/p'', ''/l''], p_stderr = []\<rparr>, Inl (OtherException ''SyntaxError''))"
    by (simp add: load_plugins_def path_splitext_def register_plugin_def Let_def)
  then show ?thesis
    using load_plugins_outcome [of ?st "''/p''" ?files ?imp] by simp
qed

end
