(* ===== verification/VizScene.thy ===== *)
theory VizScene
  imports VizBase
begin

text \<open>
  The objects on the canvas of \<open>src/src/visualizer/visualizer/core.py\<close>: nodes, channels and links,
  and the icons of \<open>svgitem.py\<close>. A node object is named by its index and a channel by the identity
  of the simulator's channel, which are the keys of the dictionaries \<open>nodes\<close> and \<open>channels\<close>; a link
  is named by its number in the order of creation. The properties of a canvas item are fields of the
  object it belongs to. Layers and other decoration of the canvas are left out; floats are exact
  rationals.
\<close>

unbundle bit_operations_syntax

section \<open>Icons\<close>

record svg_item =
  svg_x :: rat
  svg_y :: rat
  svg_sx :: rat
  svg_sy :: rat
  handle_width :: rat
  handle_height :: rat
  svg_width :: rat
  svg_height :: rat
  custom_width :: "rat option"
  custom_height :: "rat option"

definition new_svg :: "rat \<Rightarrow> rat \<Rightarrow> rat \<Rightarrow> rat \<Rightarrow> svg_item" where
  "new_svg x y hw hh =
     \<lparr>svg_x = x, svg_y = y, svg_sx = 1, svg_sy = 1, handle_width = hw, handle_height = hh,
      svg_width = hw, svg_height = hh, custom_width = None, custom_height = None\<rparr>"

text \<open>The assignments before a division by a zero extent of the picture remain.\<close>

definition size_changed :: "svg_item \<Rightarrow> svg_item \<times> unit result" where
  "size_changed i =
     (case (custom_width i, custom_height i) of
        (None, None) \<Rightarrow>
          (i\<lparr>svg_width := handle_width i, svg_height := handle_height i, svg_sx := 1, svg_sy := 1\<rparr>, Inr ())
      | (Some w, None) \<Rightarrow>
          (let i = i\<lparr>svg_width := w\<rparr>
           in if handle_width i = 0 then (i, Inl ZeroDivisionError)
              else (i\<lparr>svg_sx := w / handle_width i, svg_sy := w / handle_width i,
                      svg_height := handle_height i * (w / handle_width i)\<rparr>, Inr ()))
      | (None, Some h) \<Rightarrow>
          (let i = i\<lparr>svg_height := h\<rparr>
           in if handle_height i = 0 then (i, Inl ZeroDivisionError)
              else (i\<lparr>svg_sy := h / handle_height i, svg_sx := h / handle_height i,
                      svg_width := handle_width i * (h / handle_height i)\<rparr>, Inr ()))
      | (Some w, Some h) \<Rightarrow>
          (let i = i\<lparr>svg_width := w, svg_height := h\<rparr>
           in if handle_width i = 0 then (i, Inl ZeroDivisionError)
              else (let i = i\<lparr>svg_sx := w / handle_width i\<rparr>
                    in if handle_height i = 0 then (i, Inl ZeroDivisionError)
                       else (i\<lparr>svg_sy := h / handle_height i\<rparr>, Inr ()))))"

datatype svg_property = PropX | PropY | PropWidth | PropHeight | PropOther string

definition do_set_property :: "svg_property \<Rightarrow> rat \<Rightarrow> svg_item \<Rightarrow> svg_item \<times> unit result" where
  "do_set_property p v i =
     (case p of
        PropX \<Rightarrow> (i\<lparr>svg_x := v\<rparr>, Inr ())
      | PropY \<Rightarrow> (i\<lparr>svg_y := v\<rparr>, Inr ())
      | PropWidth \<Rightarrow> size_changed (i\<lparr>custom_width := Some v\<rparr>)
      | PropHeight \<Rightarrow> size_changed (i\<lparr>custom_height := Some v\<rparr>)
      | PropOther name \<Rightarrow> (i, Inl AttributeError))"

definition do_get_property :: "svg_property \<Rightarrow> svg_item \<Rightarrow> svg_item \<times> rat result" where
  "do_get_property p i =
     (case p of
        PropX \<Rightarrow> (i, Inr (svg_x i))
      | PropY \<Rightarrow> (i, Inr (svg_y i))
      | PropWidth \<Rightarrow>
          (let i = i\<lparr>svg_width := handle_width i, svg_height := handle_height i\<rparr> in (i, Inr (svg_width i)))
      | PropHeight \<Rightarrow> (i, Inr (svg_height i))
      | PropOther name \<Rightarrow> (i, Inl AttributeError))"

definition do_simple_update :: "svg_item \<Rightarrow> rat \<times> rat \<times> rat \<times> rat" where
  "do_simple_update i = (svg_x i, svg_y i, svg_x i + svg_width i, svg_y i + svg_height i)"

definition do_simple_is_item_at :: "rat \<Rightarrow> rat \<Rightarrow> svg_item \<Rightarrow> bool" where
  "do_simple_is_item_at x y i =
     (if (x < svg_x i \<or> x > svg_x i + svg_width i) \<or> (y < svg_y i \<or> y > svg_y i + svg_height i)
      then False else True)"

text \<open>
  The picture fills the rectangle of the item: its scaled extent is the size of the item. Reading
  the width of the item makes it forget the size it was given.
\<close>

definition svg_scaled :: "svg_item \<Rightarrow> bool" where
  "svg_scaled i \<longleftrightarrow> svg_width i = svg_sx i * handle_width i \<and> svg_height i = svg_sy i * handle_height i"

lemma svg_scaled_new: "svg_scaled (new_svg x y hw hh)"
  by (simp add: svg_scaled_def new_svg_def)

lemma svg_scaled_set:
  assumes "svg_scaled i" and "do_set_property p v i = (i', Inr ())"
  shows "svg_scaled i'"
  using assms
  by (cases p; cases "custom_width i"; cases "custom_height i")
     (auto simp: svg_scaled_def do_set_property_def size_changed_def Let_def split: if_splits)

section \<open>The scene\<close>

type_synonym point = "rat \<times> rat"

datatype stroke = Yellow | Black

record canvas_node =
  n_center :: point
  n_links :: "nat list"
  n_has_mobility :: "bool option"
  n_selected :: bool
  n_highlighted :: bool
  n_color :: int
  n_size :: rat
  n_label :: "string option"
  n_svg :: "(svg_item \<times> rat \<times> rat) option"
  i_radius :: rat
  i_fill :: int
  i_line_width :: rat
  i_stroke :: stroke
  i_label :: "(string \<times> point) option"

record channel =
  c_center :: point
  c_links :: "nat list"

datatype endpoint = NodeEnd nat | ChannelEnd nat

text \<open>
  A \<open>WiredLink\<close> has both ends for ever; a \<open>WifiLink\<close> may lack its second end, and both after
  \<open>destroy\<close>. \<open>l_path\<close> holds the points last drawn.
\<close>

record link =
  l_wired :: bool
  l_from :: "nat option"
  l_to :: "endpoint option"
  l_path :: "(point \<times> point) option"
  l_visible :: bool

datatype tx_mode = ShowAll | ShowNone | ShowSelected

record drag_state =
  canvas_0 :: point
  sim_0 :: point
  motion_on :: nat

record scene =
  nodes :: "nat list"
  node_at :: "nat \<Rightarrow> canvas_node"
  channels :: "nat list"
  channel_at :: "nat \<Rightarrow> channel"
  links :: "link list"
  canvas_bounds :: "(rat \<times> rat \<times> rat \<times> rat) option"
  selected_node :: "nat option"
  show_mode :: tx_mode
  interest :: "nat list"
  drag :: "drag_state option"
  motion_handlers :: "nat list"

definition blank_node :: canvas_node where
  "blank_node =
     \<lparr>n_center = (0, 0), n_links = [], n_has_mobility = None, n_selected = False, n_highlighted = False,
      n_color = 0x808080ff, n_size = 1, n_label = None, n_svg = None, i_radius = 0, i_fill = 0,
      i_line_width = 0, i_stroke = Black, i_label = None\<rparr>"

definition blank_channel :: channel where
  "blank_channel = \<lparr>c_center = (0, 0), c_links = []\<rparr>"

definition upd_node :: "nat \<Rightarrow> (canvas_node \<Rightarrow> canvas_node) \<Rightarrow> scene \<Rightarrow> scene" where
  "upd_node i f s = s\<lparr>node_at := (node_at s)(i := f (node_at s i))\<rparr>"

definition upd_channel :: "nat \<Rightarrow> (channel \<Rightarrow> channel) \<Rightarrow> scene \<Rightarrow> scene" where
  "upd_channel c f s = s\<lparr>channel_at := (channel_at s)(c := f (channel_at s c))\<rparr>"

definition position_of :: "scene \<Rightarrow> endpoint \<Rightarrow> point" where
  "position_of s e =
     (case e of NodeEnd i \<Rightarrow> n_center (node_at s i) | ChannelEnd c \<Rightarrow> c_center (channel_at s c))"

definition links_of :: "scene \<Rightarrow> endpoint \<Rightarrow> nat list" where
  "links_of s e =
     (case e of NodeEnd i \<Rightarrow> n_links (node_at s i) | ChannelEnd c \<Rightarrow> c_links (channel_at s c))"

definition update_points :: "nat \<Rightarrow> scene \<Rightarrow> scene" where
  "update_points k s =
     (case (l_from (links s ! k), l_to (links s ! k)) of
        (Some a, Some b) \<Rightarrow>
          s\<lparr>links := (links s)[k := (links s ! k)
             \<lparr>l_path := Some (position_of s (NodeEnd a), position_of s b)\<rparr>]\<rparr>
      | _ \<Rightarrow> s)"

definition update_svg_position :: "point \<Rightarrow> svg_item \<times> rat \<times> rat \<Rightarrow> svg_item \<times> rat \<times> rat" where
  "update_svg_position p v =
     (case v of (i, align_x, align_y) \<Rightarrow>
        (i\<lparr>svg_x := fst p - (1 - align_x) * svg_width i, svg_y := snd p - (1 - align_y) * svg_height i\<rparr>,
         align_x, align_y))"

definition grow_bounds :: "point \<Rightarrow> scene \<Rightarrow> scene" where
  "grow_bounds p s =
     (case canvas_bounds s of
        None \<Rightarrow> s
      | Some (min_x, min_y, max_x, max_y) \<Rightarrow>
          s\<lparr>canvas_bounds := Some (min (fst p) min_x, min (snd p) min_y, max (fst p) max_x, max (snd p) max_y)\<rparr>)"

definition set_position :: "nat \<Rightarrow> point \<Rightarrow> scene \<Rightarrow> scene" where
  "set_position i p s =
     (let s = upd_node i (\<lambda>n. n\<lparr>n_center := p, n_svg := map_option (update_svg_position p) (n_svg n)\<rparr>) s;
          s = fold update_points (n_links (node_at s i)) s;
          s = upd_node i (\<lambda>n. n\<lparr>i_label := map_option (\<lambda>(txt, q). (txt, (fst p, snd p + n_size n * 3))) (i_label n)\<rparr>) s
      in grow_bounds p s)"

definition set_channel_position :: "nat \<Rightarrow> point \<Rightarrow> scene \<Rightarrow> scene" where
  "set_channel_position c p s =
     (let s = upd_channel c (\<lambda>n. n\<lparr>c_center := p\<rparr>) s
      in fold update_points (c_links (channel_at s c)) s)"

text \<open>\<open>_update_appearance\<close>: first the ellipse, then the label, which is placed with the node.\<close>

definition node_alpha :: "canvas_node \<Rightarrow> int" where
  "node_alpha n = (if n_svg n \<noteq> None then 0x80 else 0xff)"

definition show_ellipse :: "canvas_node \<Rightarrow> canvas_node" where
  "show_ellipse n =
     (let r = transform_distance_simulation_to_canvas (n_size n)
      in n\<lparr>i_radius := r, i_fill := (n_color n AND 0xffffff00) OR node_alpha n,
           i_line_width := (if n_selected n then r * (3 / 10) else r * (15 / 100)),
           i_stroke := (if n_highlighted n then Yellow else Black)\<rparr>)"

definition show_label :: "canvas_node \<Rightarrow> canvas_node" where
  "show_label n =
     (case n_label n of
        None \<Rightarrow> n
      | Some txt \<Rightarrow> n\<lparr>i_label := Some (txt, (case i_label n of None \<Rightarrow> (0, 0) | Some (old, q) \<Rightarrow> q))\<rparr>)"

definition update_appearance :: "nat \<Rightarrow> scene \<Rightarrow> scene" where
  "update_appearance i s =
     (let s = upd_node i (show_label \<circ> show_ellipse) s
      in if n_label (node_at s i) \<noteq> None then set_position i (n_center (node_at s i)) s else s)"

definition set_selected :: "nat \<Rightarrow> bool \<Rightarrow> scene \<Rightarrow> scene" where
  "set_selected i b s = update_appearance i (upd_node i (\<lambda>n. n\<lparr>n_selected := b\<rparr>) s)"

definition set_highlighted :: "nat \<Rightarrow> bool \<Rightarrow> scene \<Rightarrow> scene" where
  "set_highlighted i b s = update_appearance i (upd_node i (\<lambda>n. n\<lparr>n_highlighted := b\<rparr>) s)"

definition set_size :: "nat \<Rightarrow> rat \<Rightarrow> scene \<Rightarrow> scene" where
  "set_size i d s = update_appearance i (upd_node i (\<lambda>n. n\<lparr>n_size := d\<rparr>) s)"

definition set_label :: "nat \<Rightarrow> string \<Rightarrow> scene \<Rightarrow> scene" where
  "set_label i label s = update_appearance i (upd_node i (\<lambda>n. n\<lparr>n_label := Some label\<rparr>) s)"

text \<open>A color is a number, or a name that \<open>Gdk.color_parse\<close> turns into 16 bit components.\<close>

datatype color_arg = ColorNumber int | ColorParsed int int int

definition color_rgba :: "color_arg \<Rightarrow> int" where
  "color_rgba c =
     (case c of
        ColorNumber v \<Rightarrow> v
      | ColorParsed r g b \<Rightarrow>
          push_bit 24 (drop_bit 8 r) OR push_bit 16 (drop_bit 8 g) OR push_bit 8 (drop_bit 8 b) OR 0xff)"

definition set_color :: "nat \<Rightarrow> color_arg \<Rightarrow> scene \<Rightarrow> scene" where
  "set_color i c s = update_appearance i (upd_node i (\<lambda>n. n\<lparr>n_color := color_rgba c\<rparr>) s)"

definition get_node :: "nat \<Rightarrow> scene \<Rightarrow> scene" where
  "get_node i s =
     (if i \<in> set (nodes s) then s
      else update_appearance i (upd_node i (\<lambda>n. blank_node) (s\<lparr>nodes := nodes s @ [i]\<rparr>)))"

definition get_channel :: "nat \<Rightarrow> scene \<Rightarrow> scene" where
  "get_channel c s =
     (if c \<in> set (channels s) then s
      else upd_channel c (\<lambda>n. blank_channel) (s\<lparr>channels := channels s @ [c]\<rparr>))"

definition add_link_to :: "endpoint \<Rightarrow> nat \<Rightarrow> scene \<Rightarrow> scene" where
  "add_link_to e k s =
     (case e of
        NodeEnd i \<Rightarrow> upd_node i (\<lambda>n. n\<lparr>n_links := n_links n @ [k]\<rparr>) s
      | ChannelEnd c \<Rightarrow> upd_channel c (\<lambda>n. n\<lparr>c_links := c_links n @ [k]\<rparr>) s)"

definition create_link :: "nat \<Rightarrow> endpoint \<Rightarrow> scene \<Rightarrow> scene" where
  "create_link a b s =
     (let k = length (links s);
          s = s\<lparr>links := links s @ [\<lparr>l_wired = True, l_from = Some a, l_to = Some b, l_path = None, l_visible = True\<rparr>]\<rparr>
      in add_link_to b k (add_link_to (NodeEnd a) k s))"

text \<open>
  \<open>set_svg_icon\<close>; the factory gives a picture of the size \<open>(hw, hh)\<close>. PyGObject prints an exception
  of \<open>do_set_property\<close> and goes on.
\<close>

definition set_svg_icon ::
  "rat \<Rightarrow> rat \<Rightarrow> nat \<Rightarrow> rat option \<Rightarrow> rat option \<Rightarrow> rat \<Rightarrow> rat \<Rightarrow> scene \<Rightarrow> scene \<times> unit result" where
  "set_svg_icon hw hh i width height align_x align_y s =
     (if width = None \<and> height = None then (s, Inl ValueError)
      else
        (let p = n_center (node_at s i);
             item = new_svg (fst p) (snd p) hw hh;
             item = (case width of None \<Rightarrow> item
               | Some w \<Rightarrow> fst (do_set_property PropWidth (transform_distance_simulation_to_canvas w) item));
             item = (case height of None \<Rightarrow> item
               | Some h \<Rightarrow> fst (do_set_property PropHeight (transform_distance_simulation_to_canvas h) item));
             s = upd_node i (\<lambda>n. n\<lparr>n_svg := Some (update_svg_position p (item, align_x, align_y))\<rparr>) s
         in (update_appearance i s, Inr ())))"

section \<open>Selection and transmissions\<close>

definition set_show_transmissions_mode :: "world \<Rightarrow> tx_mode \<Rightarrow> scene \<Rightarrow> scene" where
  "set_show_transmissions_mode w mode s =
     s\<lparr>show_mode := mode,
       interest := (case mode of
           ShowAll \<Rightarrow> [0..<w_nodes w]
         | ShowNone \<Rightarrow> []
         | ShowSelected \<Rightarrow> (case selected_node s of None \<Rightarrow> [] | Some i \<Rightarrow> [i]))\<rparr>"

text \<open>What can be handed to \<open>select_node\<close>: a node of the simulator, a number, a node object, nothing.\<close>

datatype node_ref = SimNode nat | NodeNumber int | NodeObject nat | NoNode | OtherObject

definition resolve_node :: "scene \<Rightarrow> node_ref \<Rightarrow> nat option result" where
  "resolve_node s r =
     (case r of
        SimNode i \<Rightarrow> if i \<in> set (nodes s) then Inr (Some i) else Inl KeyError
      | NodeNumber j \<Rightarrow> if 0 \<le> j \<and> nat j \<in> set (nodes s) then Inr (Some (nat j)) else Inl KeyError
      | NodeObject i \<Rightarrow> Inr (Some i)
      | NoNode \<Rightarrow> Inr None
      | OtherObject \<Rightarrow> Inl TypeError)"

definition change_selection :: "nat option \<Rightarrow> scene \<Rightarrow> scene" where
  "change_selection new s =
     (if new = selected_node s then s
      else
        (let s = (case selected_node s of None \<Rightarrow> s | Some i \<Rightarrow> set_selected i False s);
             s = s\<lparr>selected_node := new\<rparr>;
             s = (case new of None \<Rightarrow> s | Some i \<Rightarrow> set_selected i True s)
         in if show_mode s = ShowSelected
            then s\<lparr>interest := (case new of None \<Rightarrow> [] | Some i \<Rightarrow> [i])\<rparr> else s))"

definition select_node :: "node_ref \<Rightarrow> scene \<Rightarrow> scene \<times> unit result" where
  "select_node r s =
     (case resolve_node s r of Inl e \<Rightarrow> (s, Inl e) | Inr new \<Rightarrow> (change_selection new s, Inr ()))"

section \<open>Dragging a node\<close>

text \<open>
  The pointer is given in canvas units (\<open>convert_from_pixels\<close> of the device position). The position
  of the simulated node is read from and written to the world.
\<close>

definition begin_node_drag :: "world \<Rightarrow> point \<Rightarrow> nat \<Rightarrow> scene \<Rightarrow> scene" where
  "begin_node_drag w pointer i s =
     (case w_mobility w i of
        None \<Rightarrow> s
      | Some pos \<Rightarrow>
          if drag s \<noteq> None then s
          else s\<lparr>drag := Some \<lparr>canvas_0 = pointer, sim_0 = pos, motion_on = i\<rparr>,
                 motion_handlers := motion_handlers s @ [i]\<rparr>)"

definition node_drag_motion :: "point \<Rightarrow> nat \<Rightarrow> world \<times> scene \<Rightarrow> (world \<times> scene) \<times> bool" where
  "node_drag_motion pointer i ws =
     (case ws of (w, s) \<Rightarrow>
       (case (w_mobility w i, drag s) of
          (Some pos, Some d) \<Rightarrow>
            (let dx = fst pointer - fst (canvas_0 d); dy = snd pointer - snd (canvas_0 d);
                 pos = (fst (sim_0 d) + transform_distance_canvas_to_simulation dx,
                        snd (sim_0 d) + transform_distance_canvas_to_simulation dy)
             in ((w\<lparr>w_mobility := (w_mobility w)(i := Some pos)\<rparr>,
                  set_position i (transform_point_simulation_to_canvas pos) s), True))
        | _ \<Rightarrow> (ws, False)))"

text \<open>The handler is disconnected from the item it is not connected to in vain.\<close>

definition end_node_drag :: "nat \<Rightarrow> scene \<Rightarrow> scene" where
  "end_node_drag i s =
     (case drag s of
        None \<Rightarrow> s
      | Some d \<Rightarrow>
          s\<lparr>drag := None,
            motion_handlers := (if motion_on d = i then remove1 i (motion_handlers s) else motion_handlers s)\<rparr>)"

text \<open>The mobility of a node is asked for once.\<close>

definition has_mobility :: "world \<Rightarrow> nat \<Rightarrow> scene \<Rightarrow> scene \<times> bool" where
  "has_mobility w i s =
     (case n_has_mobility (node_at s i) of
        Some b \<Rightarrow> (s, b)
      | None \<Rightarrow>
          (let b = w_mobility w i \<noteq> None in (upd_node i (\<lambda>n. n\<lparr>n_has_mobility := Some b\<rparr>) s, b)))"

definition update_node_position :: "world \<Rightarrow> nat \<Rightarrow> scene \<Rightarrow> scene" where
  "update_node_position w i s =
     (case has_mobility w i s of (s, b) \<Rightarrow>
        if b then
          (case w_mobility w i of
             None \<Rightarrow> s | Some pos \<Rightarrow> set_position i (transform_point_simulation_to_canvas pos) s)
        else s)"

definition update_node_positions :: "world \<Rightarrow> scene \<Rightarrow> scene" where
  "update_node_positions w s = fold (update_node_position w) (nodes s) s"

definition set_bounds_hook :: "rat \<Rightarrow> rat \<Rightarrow> rat \<Rightarrow> rat \<Rightarrow> scene \<Rightarrow> scene \<times> unit result" where
  "set_bounds_hook x1 y1 x2 y2 s =
     (if \<not> x2 > x1 then (s, Inl AssertionError)
      else if \<not> y2 > y1 then (s, Inl AssertionError)
      else
        (let c1 = transform_point_simulation_to_canvas (x1, y1);
             c2 = transform_point_simulation_to_canvas (x2, y2)
         in (s\<lparr>canvas_bounds := Some (fst c1, snd c1, fst c2, snd c2)\<rparr>, Inr ())))"

definition node_size_changed :: "rat \<Rightarrow> scene \<Rightarrow> scene" where
  "node_size_changed d s = fold (\<lambda>i. set_size i d) (nodes s) s"

section \<open>What the operations leave alone\<close>

lemma upd_node_simps [simp]:
  "nodes (upd_node i f s) = nodes s" "channels (upd_node i f s) = channels s"
  "channel_at (upd_node i f s) = channel_at s" "links (upd_node i f s) = links s"
  "canvas_bounds (upd_node i f s) = canvas_bounds s" "selected_node (upd_node i f s) = selected_node s"
  "show_mode (upd_node i f s) = show_mode s" "interest (upd_node i f s) = interest s"
  "drag (upd_node i f s) = drag s" "motion_handlers (upd_node i f s) = motion_handlers s"
  "node_at (upd_node i f s) = (node_at s)(i := f (node_at s i))"
  by (simp_all add: upd_node_def)

lemma upd_channel_simps [simp]:
  "nodes (upd_channel i f s) = nodes s" "channels (upd_channel i f s) = channels s"
  "node_at (upd_channel i f s) = node_at s" "links (upd_channel i f s) = links s"
  "canvas_bounds (upd_channel i f s) = canvas_bounds s" "selected_node (upd_channel i f s) = selected_node s"
  "show_mode (upd_channel i f s) = show_mode s" "interest (upd_channel i f s) = interest s"
  "drag (upd_channel i f s) = drag s" "motion_handlers (upd_channel i f s) = motion_handlers s"
  "channel_at (upd_channel i f s) = (channel_at s)(i := f (channel_at s i))"
  by (simp_all add: upd_channel_def)

lemma grow_bounds_simps [simp]:
  "nodes (grow_bounds p s) = nodes s" "channels (grow_bounds p s) = channels s"
  "node_at (grow_bounds p s) = node_at s" "channel_at (grow_bounds p s) = channel_at s"
  "links (grow_bounds p s) = links s" "selected_node (grow_bounds p s) = selected_node s"
  "show_mode (grow_bounds p s) = show_mode s" "interest (grow_bounds p s) = interest s"
  "drag (grow_bounds p s) = drag s" "motion_handlers (grow_bounds p s) = motion_handlers s"
  by (simp_all add: grow_bounds_def split: option.split)

lemma update_points_simps [simp]:
  "nodes (update_points k s) = nodes s" "channels (update_points k s) = channels s"
  "node_at (update_points k s) = node_at s" "channel_at (update_points k s) = channel_at s"
  "canvas_bounds (update_points k s) = canvas_bounds s" "selected_node (update_points k s) = selected_node s"
  "show_mode (update_points k s) = show_mode s" "interest (update_points k s) = interest s"
  "drag (update_points k s) = drag s" "motion_handlers (update_points k s) = motion_handlers s"
  "length (links (update_points k s)) = length (links s)"
  by (simp_all add: update_points_def split: option.split)

lemma fold_update_points_simps [simp]:
  "nodes (fold update_points ks s) = nodes s" "channels (fold update_points ks s) = channels s"
  "node_at (fold update_points ks s) = node_at s" "channel_at (fold update_points ks s) = channel_at s"
  "canvas_bounds (fold update_points ks s) = canvas_bounds s"
  "selected_node (fold update_points ks s) = selected_node s"
  "show_mode (fold update_points ks s) = show_mode s" "interest (fold update_points ks s) = interest s"
  "drag (fold update_points ks s) = drag s" "motion_handlers (fold update_points ks s) = motion_handlers s"
  "length (links (fold update_points ks s)) = length (links s)"
  by (induction ks arbitrary: s) simp_all

lemma position_of_update [simp]:
  "position_of (update_points k s) e = position_of s e"
  "position_of (fold update_points ks s) e = position_of s e"
  "position_of (grow_bounds p s) e = position_of s e"
  by (simp_all add: position_of_def split: endpoint.split)

text \<open>A link after \<open>update_points\<close>: the points of its ends, if it has both.\<close>

definition redrawn :: "scene \<Rightarrow> link \<Rightarrow> link" where
  "redrawn s l =
     (case (l_from l, l_to l) of
        (Some a, Some b) \<Rightarrow> l\<lparr>l_path := Some (position_of s (NodeEnd a), position_of s b)\<rparr>
      | _ \<Rightarrow> l)"

lemma redrawn_simps [simp]:
  "l_wired (redrawn s l) = l_wired l" "l_from (redrawn s l) = l_from l" "l_to (redrawn s l) = l_to l"
  "l_visible (redrawn s l) = l_visible l" "redrawn s (redrawn s l) = redrawn s l"
  by (auto simp: redrawn_def split: option.splits)

lemma redrawn_update [simp]: "redrawn (update_points k s) l = redrawn s l"
  by (simp add: redrawn_def split: option.split)

lemma nth_update_points:
  "j < length (links s) \<Longrightarrow>
   links (update_points k s) ! j = (if j = k then redrawn s (links s ! j) else links s ! j)"
  by (auto simp: update_points_def redrawn_def split: option.split)

lemma nth_fold_update_points:
  "j < length (links s) \<Longrightarrow>
   links (fold update_points ks s) ! j = (if j \<in> set ks then redrawn s (links s ! j) else links s ! j)"
  by (induction ks arbitrary: s) (auto simp: nth_update_points)

text \<open>A node after \<open>set_position\<close>.\<close>

definition moved :: "point \<Rightarrow> canvas_node \<Rightarrow> canvas_node" where
  "moved p n =
     n\<lparr>n_center := p, n_svg := map_option (update_svg_position p) (n_svg n),
       i_label := map_option (\<lambda>(txt, q). (txt, (fst p, snd p + n_size n * 3))) (i_label n)\<rparr>"

lemma moved_simps [simp]:
  "n_center (moved p n) = p" "n_links (moved p n) = n_links n" "n_label (moved p n) = n_label n"
  "n_selected (moved p n) = n_selected n" "n_has_mobility (moved p n) = n_has_mobility n"
  "n_size (moved p n) = n_size n" "n_color (moved p n) = n_color n" "n_highlighted (moved p n) = n_highlighted n"
  "i_radius (moved p n) = i_radius n" "i_fill (moved p n) = i_fill n" "i_line_width (moved p n) = i_line_width n"
  "i_stroke (moved p n) = i_stroke n"
  by (simp_all add: moved_def)

lemma set_position_simps [simp]:
  "nodes (set_position i p s) = nodes s" "channels (set_position i p s) = channels s"
  "channel_at (set_position i p s) = channel_at s" "selected_node (set_position i p s) = selected_node s"
  "show_mode (set_position i p s) = show_mode s" "interest (set_position i p s) = interest s"
  "drag (set_position i p s) = drag s" "motion_handlers (set_position i p s) = motion_handlers s"
  "length (links (set_position i p s)) = length (links s)"
  by (simp_all add: set_position_def Let_def)

lemma node_at_set_position: "node_at (set_position i p s) = (node_at s)(i := moved p (node_at s i))"
  by (simp add: set_position_def Let_def moved_def)

definition with_position :: "endpoint \<Rightarrow> point \<Rightarrow> scene \<Rightarrow> scene" where
  "with_position e p s =
     (case e of
        NodeEnd i \<Rightarrow> upd_node i (\<lambda>n. n\<lparr>n_center := p\<rparr>) s
      | ChannelEnd c \<Rightarrow> upd_channel c (\<lambda>n. n\<lparr>c_center := p\<rparr>) s)"

lemma position_of_with: "position_of (with_position e p s) e' = (if e' = e then p else position_of s e')"
  by (auto simp: with_position_def position_of_def split: endpoint.splits)

lemma position_of_set_position:
  "position_of (set_position i p s) e = (if e = NodeEnd i then p else position_of s e)"
  by (auto simp: position_of_def node_at_set_position split: endpoint.splits)

lemma links_of_set_position [simp]: "links_of (set_position i p s) e = links_of s e"
  by (auto simp: links_of_def node_at_set_position split: endpoint.splits)

lemma redrawn_cong: "(\<And>e. position_of s e = position_of t e) \<Longrightarrow> redrawn s l = redrawn t l"
  by (simp add: redrawn_def split: option.split)

lemma nth_set_position:
  assumes "j < length (links s)"
  shows "links (set_position i p s) ! j =
    (if j \<in> set (n_links (node_at s i)) then redrawn (set_position i p s) (links s ! j) else links s ! j)"
proof -
  let ?t = "upd_node i (\<lambda>n. n\<lparr>n_center := p, n_svg := map_option (update_svg_position p) (n_svg n)\<rparr>) s"
  have "links (set_position i p s) = links (fold update_points (n_links (node_at s i)) ?t)"
    by (simp add: set_position_def Let_def)
  moreover have "redrawn ?t (links s ! j) = redrawn (set_position i p s) (links s ! j)"
    by (rule redrawn_cong) (auto simp: position_of_set_position, auto simp: position_of_def split: endpoint.splits)
  ultimately show ?thesis using assms nth_fold_update_points [of j ?t] by simp
qed

lemma update_appearance_simps [simp]:
  "nodes (update_appearance i s) = nodes s" "channels (update_appearance i s) = channels s"
  "channel_at (update_appearance i s) = channel_at s" "selected_node (update_appearance i s) = selected_node s"
  "show_mode (update_appearance i s) = show_mode s" "interest (update_appearance i s) = interest s"
  "drag (update_appearance i s) = drag s" "motion_handlers (update_appearance i s) = motion_handlers s"
  "length (links (update_appearance i s)) = length (links s)"
  by (simp_all add: update_appearance_def Let_def)

section \<open>Links join the positions of their ends\<close>

definition known :: "scene \<Rightarrow> endpoint \<Rightarrow> bool" where
  "known s e = (case e of NodeEnd i \<Rightarrow> i \<in> set (nodes s) | ChannelEnd c \<Rightarrow> c \<in> set (channels s))"

text \<open>
  A wired link is registered at exactly its two ends, which are on the canvas, and if it has been
  drawn then between the current positions of the two.
\<close>

definition link_ok :: "scene \<Rightarrow> nat \<Rightarrow> bool" where
  "link_ok s k \<longleftrightarrow>
     (l_wired (links s ! k) \<longrightarrow>
      (\<exists>a b. l_from (links s ! k) = Some a \<and> l_to (links s ! k) = Some b \<and>
         known s (NodeEnd a) \<and> known s b \<and>
         (\<forall>e. k \<in> set (links_of s e) \<longleftrightarrow> e = NodeEnd a \<or> e = b) \<and>
         (l_path (links s ! k) = None \<or>
          l_path (links s ! k) = Some (position_of s (NodeEnd a), position_of s b))))"

definition links_ok :: "scene \<Rightarrow> bool" where
  "links_ok s \<longleftrightarrow>
     (\<forall>k < length (links s). link_ok s k) \<and>
     (\<forall>e. \<forall>k \<in> set (links_of s e). k < length (links s) \<and> known s e)"

lemma links_ok_frame:
  assumes "links_ok s" and "links t = links s" and "\<And>e. links_of t e = links_of s e"
    and "\<And>e. known s e \<Longrightarrow> known t e \<and> position_of t e = position_of s e"
  shows "links_ok t"
proof -
  have "link_ok t k" if "k < length (links t)" for k
  proof -
    from assms(1,2) that have "link_ok s k" by (simp add: links_ok_def)
    then show ?thesis unfolding link_ok_def assms(2,3) using assms(4) by metis
  qed
  with assms show ?thesis unfolding links_ok_def by auto
qed

lemma links_ok_moved:
  assumes "links_ok s" and "length (links t) = length (links s)" and "\<And>e. links_of t e = links_of s e"
    and "\<And>e. known t e = known s e" and "\<And>e. e \<noteq> h \<Longrightarrow> position_of t e = position_of s e"
    and nth: "\<And>k. k < length (links s) \<Longrightarrow>
      links t ! k = (if k \<in> set (links_of s h) then redrawn t (links s ! k) else links s ! k)"
  shows "links_ok t"
proof -
  have "link_ok t k" if k: "k < length (links t)" for k
  proof -
    have "l_wired (links t ! k) = l_wired (links s ! k)" "l_from (links t ! k) = l_from (links s ! k)"
      "l_to (links t ! k) = l_to (links s ! k)"
      using nth [of k] k assms(2) by simp_all
    moreover have "link_ok s k" using assms(1,2) k by (simp add: links_ok_def)
    ultimately show ?thesis
      using nth [of k] k assms(2,3,4,5) by (auto simp: link_ok_def redrawn_def)
  qed
  with assms(1-4) show ?thesis unfolding links_ok_def by auto
qed

lemma known_set_position [simp]: "known (set_position i p s) e = known s e"
  by (simp add: known_def split: endpoint.split)

lemma links_of_simps:
  "links_of s (NodeEnd i) = n_links (node_at s i)" "links_of s (ChannelEnd c) = c_links (channel_at s c)"
  by (simp_all add: links_of_def)

lemma links_ok_set_position:
  assumes "links_ok s"
  shows "links_ok (set_position i p s)"
proof (rule links_ok_moved [OF assms])
  fix k
  assume "k < length (links s)"
  from nth_set_position [OF this, of i p]
  show "links (set_position i p s) ! k = (if k \<in> set (links_of s (NodeEnd i))
      then redrawn (set_position i p s) (links s ! k) else links s ! k)" by (simp add: links_of_simps)
qed (simp_all add: position_of_set_position)

lemma set_channel_position_simps [simp]:
  "nodes (set_channel_position c p s) = nodes s" "channels (set_channel_position c p s) = channels s"
  "node_at (set_channel_position c p s) = node_at s"
  "channel_at (set_channel_position c p s) = (channel_at s)(c := (channel_at s c)\<lparr>c_center := p\<rparr>)"
  "selected_node (set_channel_position c p s) = selected_node s"
  "show_mode (set_channel_position c p s) = show_mode s" "interest (set_channel_position c p s) = interest s"
  "drag (set_channel_position c p s) = drag s" "canvas_bounds (set_channel_position c p s) = canvas_bounds s"
  "length (links (set_channel_position c p s)) = length (links s)"
  by (simp_all add: set_channel_position_def Let_def)

lemma position_of_set_channel_position:
  "position_of (set_channel_position c p s) e = (if e = ChannelEnd c then p else position_of s e)"
  by (auto simp: position_of_def split: endpoint.splits)

lemma nth_set_channel_position:
  assumes "j < length (links s)"
  shows "links (set_channel_position c p s) ! j =
    (if j \<in> set (c_links (channel_at s c)) then redrawn (set_channel_position c p s) (links s ! j)
     else links s ! j)"
proof -
  let ?t = "upd_channel c (\<lambda>n. n\<lparr>c_center := p\<rparr>) s"
  have "links (set_channel_position c p s) = links (fold update_points (c_links (channel_at s c)) ?t)"
    by (simp add: set_channel_position_def Let_def)
  moreover have "redrawn ?t (links s ! j) = redrawn (set_channel_position c p s) (links s ! j)"
    by (rule redrawn_cong) (auto simp: position_of_set_channel_position, auto simp: position_of_def split: endpoint.splits)
  ultimately show ?thesis using assms nth_fold_update_points [of j ?t] by simp
qed

lemma links_ok_set_channel_position:
  assumes "links_ok s"
  shows "links_ok (set_channel_position c p s)"
proof (rule links_ok_moved [OF assms])
  fix k
  assume "k < length (links s)"
  from nth_set_channel_position [OF this, of c p]
  show "links (set_channel_position c p s) ! k = (if k \<in> set (links_of s (ChannelEnd c))
      then redrawn (set_channel_position c p s) (links s ! k) else links s ! k)" by (simp add: links_of_simps)
next
  fix e
  show "links_of (set_channel_position c p s) e = links_of s e" by (cases e) (simp_all add: links_of_simps)
  show "known (set_channel_position c p s) e = known s e" by (simp add: known_def split: endpoint.split)
qed (simp_all add: position_of_set_channel_position)

lemma links_ok_upd_node:
  assumes "links_ok s" and "\<And>n. n_links (f n) = n_links n" and "\<And>n. n_center (f n) = n_center n"
  shows "links_ok (upd_node i f s)"
proof (rule links_ok_frame [OF assms(1)])
  fix e
  show "links_of (upd_node i f s) e = links_of s e" by (cases e) (simp_all add: assms links_of_simps)
  show "known (upd_node i f s) e \<and> position_of (upd_node i f s) e = position_of s e" if "known s e"
    using that by (auto simp: known_def position_of_def assms split: endpoint.splits)
qed simp

lemma show_simps [simp]:
  "n_links (show_label n) = n_links n" "n_center (show_label n) = n_center n"
  "n_links (show_ellipse n) = n_links n" "n_center (show_ellipse n) = n_center n"
  "n_label (show_label n) = n_label n" "n_label (show_ellipse n) = n_label n"
  "n_selected (show_label n) = n_selected n" "n_selected (show_ellipse n) = n_selected n"
  by (simp_all add: show_label_def show_ellipse_def Let_def split: option.split)

lemma links_ok_update_appearance: "links_ok s \<Longrightarrow> links_ok (update_appearance i s)"
  by (auto simp: update_appearance_def Let_def intro!: links_ok_set_position links_ok_upd_node)

lemma node_at_update_appearance:
  "node_at (update_appearance i s) =
     (node_at s)(i := (let n = show_label (show_ellipse (node_at s i))
                       in if n_label n \<noteq> None then moved (n_center n) n else n))"
  by (auto simp: update_appearance_def Let_def node_at_set_position)

lemma links_ok_get_node:
  assumes "links_ok s"
  shows "links_ok (get_node i s)"
proof (cases "i \<in> set (nodes s)")
  case True
  then show ?thesis using assms by (simp add: get_node_def)
next
  case False
  let ?t = "upd_node i (\<lambda>n. blank_node) (s\<lparr>nodes := nodes s @ [i]\<rparr>)"
  have none: "n_links (node_at s i) = []"
  proof (rule ccontr)
    assume "n_links (node_at s i) \<noteq> []"
    then obtain k where "k \<in> set (links_of s (NodeEnd i))"
      by (cases "n_links (node_at s i)") (auto simp: links_of_simps)
    then have "known s (NodeEnd i)" using assms by (auto simp: links_ok_def)
    with False show False by (simp add: known_def)
  qed
  have "links_ok ?t"
  proof (rule links_ok_frame [OF assms])
    fix e
    show "links_of ?t e = links_of s e" using none by (cases e) (simp_all add: blank_node_def links_of_simps)
    show "known ?t e \<and> position_of ?t e = position_of s e" if "known s e"
      using that False by (auto simp: known_def position_of_def split: endpoint.splits)
  qed simp
  then show ?thesis using False by (simp add: get_node_def links_ok_update_appearance)
qed

lemma links_ok_get_channel:
  assumes "links_ok s"
  shows "links_ok (get_channel c s)"
proof (cases "c \<in> set (channels s)")
  case True
  then show ?thesis using assms by (simp add: get_channel_def)
next
  case False
  have none: "c_links (channel_at s c) = []"
  proof (rule ccontr)
    assume "c_links (channel_at s c) \<noteq> []"
    then obtain k where "k \<in> set (links_of s (ChannelEnd c))"
      by (cases "c_links (channel_at s c)") (auto simp: links_of_simps)
    then have "known s (ChannelEnd c)" using assms by (auto simp: links_ok_def)
    with False show False by (simp add: known_def)
  qed
  let ?t = "upd_channel c (\<lambda>n. blank_channel) (s\<lparr>channels := channels s @ [c]\<rparr>)"
  have "links_ok ?t"
  proof (rule links_ok_frame [OF assms])
    fix e
    show "links_of ?t e = links_of s e" using none by (cases e) (simp_all add: blank_channel_def links_of_simps)
    show "known ?t e \<and> position_of ?t e = position_of s e" if "known s e"
      using that False by (auto simp: known_def position_of_def split: endpoint.splits)
  qed simp
  then show ?thesis using False by (simp add: get_channel_def)
qed

lemma add_link_to_simps [simp]:
  "nodes (add_link_to e k s) = nodes s" "channels (add_link_to e k s) = channels s"
  "links (add_link_to e k s) = links s" "selected_node (add_link_to e k s) = selected_node s"
  "show_mode (add_link_to e k s) = show_mode s" "interest (add_link_to e k s) = interest s"
  "drag (add_link_to e k s) = drag s" "canvas_bounds (add_link_to e k s) = canvas_bounds s"
  "motion_handlers (add_link_to e k s) = motion_handlers s"
  "position_of (add_link_to e k s) e' = position_of s e'" "known (add_link_to e k s) e' = known s e'"
  by (auto simp: add_link_to_def position_of_def known_def split: endpoint.splits)

lemma links_of_add_link_to:
  "links_of (add_link_to e k s) e' = (if e' = e then links_of s e @ [k] else links_of s e')"
  by (cases e; cases e') (auto simp: add_link_to_def links_of_simps)

lemma links_ok_create_link:
  assumes "links_ok s" and "known s (NodeEnd a)" and "known s b"
  shows "links_ok (create_link a b s)"
proof -
  let ?k = "length (links s)" and ?t = "create_link a b s"
  have kn: "known ?t e = known s e" and pos: "position_of ?t e = position_of s e" for e
    by (simp_all add: create_link_def Let_def, simp_all add: known_def position_of_def split: endpoint.split)
  have lk: "set (links_of ?t e) = set (links_of s e) \<union> (if e = NodeEnd a \<or> e = b then {?k} else {})" for e
  proof -
    have eq: "links_of (s\<lparr>links := x\<rparr>) e' = links_of s e'" for x e'
      by (cases e') (simp_all add: links_of_simps)
    show ?thesis
      by (auto simp: create_link_def Let_def links_of_add_link_to eq)
  qed
  have nth: "links ?t = links s @ [\<lparr>l_wired = True, l_from = Some a, l_to = Some b, l_path = None, l_visible = True\<rparr>]"
    by (simp add: create_link_def Let_def)
  have old: "k < ?k" "known s e" if "k \<in> set (links_of s e)" for k e
    using assms(1) that by (auto simp: links_ok_def)
  have "link_ok ?t k" if k: "k < length (links ?t)" for k
  proof (cases "k < ?k")
    case True
    then have "link_ok s k" using assms(1) by (simp add: links_ok_def)
    with True show ?thesis unfolding link_ok_def nth kn pos lk by (auto simp: nth_append)
  next
    case False
    with k have "k = ?k" by (simp add: nth)
    then show ?thesis using assms(2,3) old(1) unfolding link_ok_def nth kn pos lk by fastforce
  qed
  moreover have "k < length (links ?t) \<and> known ?t e" if "k \<in> set (links_of ?t e)" for k e
    using that old assms(2,3) unfolding lk kn nth by (fastforce split: if_splits)
  ultimately show ?thesis by (auto simp: links_ok_def)
qed

section \<open>Nodes look as their state says\<close>

definition svg_placed :: "canvas_node \<Rightarrow> bool" where
  "svg_placed n \<longleftrightarrow>
     (case n_svg n of
        None \<Rightarrow> True
      | Some (i, align_x, align_y) \<Rightarrow>
          svg_x i = fst (n_center n) - (1 - align_x) * svg_width i \<and>
          svg_y i = snd (n_center n) - (1 - align_y) * svg_height i)"

definition node_shown :: "canvas_node \<Rightarrow> bool" where
  "node_shown n \<longleftrightarrow>
     i_radius n = 3 * n_size n \<and> i_fill n = (n_color n AND 0xffffff00) OR node_alpha n \<and>
     i_line_width n = (if n_selected n then 9 / 10 else 9 / 20) * n_size n \<and>
     i_stroke n = (if n_highlighted n then Yellow else Black) \<and>
     i_label n = map_option (\<lambda>t. (t, (fst (n_center n), snd (n_center n) + 3 * n_size n))) (n_label n) \<and>
     svg_placed n"

definition node_appearance :: "canvas_node \<Rightarrow> canvas_node" where
  "node_appearance n =
     (let n = show_label (show_ellipse n) in if n_label n \<noteq> None then moved (n_center n) n else n)"

lemma node_at_appearance: "node_at (update_appearance i s) = (node_at s)(i := node_appearance (node_at s i))"
  by (simp add: node_at_update_appearance node_appearance_def)

lemma svg_placed_moved: "svg_placed (moved p n)"
  by (auto simp: svg_placed_def moved_def update_svg_position_def split: option.splits)

lemma node_appearance_simps [simp]:
  "n_links (node_appearance n) = n_links n" "n_center (node_appearance n) = n_center n"
  "n_selected (node_appearance n) = n_selected n"
  by (simp_all add: node_appearance_def Let_def)

lemma node_shown_appearance:
  assumes "svg_placed n" and "i_label n \<noteq> None \<Longrightarrow> n_label n \<noteq> None"
  shows "node_shown (node_appearance n)"
proof (cases "n_label n")
  case None
  with assms(2) have "i_label n = None" by blast
  then show ?thesis using assms(1) None
    by (simp add: node_shown_def node_appearance_def show_label_def show_ellipse_def Let_def node_alpha_def
        svg_placed_def transform_distance_simulation_to_canvas_def pixels_per_meter_def
        split: option.splits prod.splits)
next
  case (Some t)
  have "svg_placed (node_appearance n)" using Some by (simp add: node_appearance_def Let_def svg_placed_moved)
  then show ?thesis using Some
    by (simp add: node_shown_def node_appearance_def show_label_def show_ellipse_def Let_def node_alpha_def moved_def
        transform_distance_simulation_to_canvas_def pixels_per_meter_def)
qed

lemma node_shown_moved: "node_shown n \<Longrightarrow> node_shown (moved p n)"
  using svg_placed_moved [of p n]
  by (cases "n_label n") (simp_all add: node_shown_def moved_def node_alpha_def mult.commute)

lemma node_shown_simps [simp]:
  "node_shown (n\<lparr>n_has_mobility := b\<rparr>) = node_shown n" "node_shown (n\<lparr>n_links := ks\<rparr>) = node_shown n"
  by (simp_all add: node_shown_def node_alpha_def svg_placed_def split: option.split prod.split)

section \<open>The operations together\<close>

definition selection_ok :: "scene \<Rightarrow> bool" where
  "selection_ok s \<longleftrightarrow>
     (\<forall>i \<in> set (nodes s). n_selected (node_at s i) \<longleftrightarrow> selected_node s = Some i) \<and>
     (\<forall>i. selected_node s = Some i \<longrightarrow> i \<in> set (nodes s)) \<and>
     (show_mode s = ShowSelected \<longrightarrow> interest s = (case selected_node s of None \<Rightarrow> [] | Some i \<Rightarrow> [i]))"

definition scene_ok :: "scene \<Rightarrow> bool" where
  "scene_ok s \<longleftrightarrow> links_ok s \<and> (\<forall>i \<in> set (nodes s). node_shown (node_at s i)) \<and> selection_ok s"

text \<open>The operations of the program, its plugins and its shell on the scene.\<close>

datatype scene_op =
    OpNode nat | OpChannel nat | OpLink nat endpoint | OpSelect node_ref | OpMode tx_mode
  | OpHighlight nat bool | OpSize nat rat | OpSizeAll rat | OpLabel nat string | OpColor nat color_arg
  | OpIcon rat rat nat "rat option" "rat option" rat rat
  | OpPosition nat point | OpChannelPosition nat point
  | OpBeginDrag nat point | OpDragMotion nat point | OpEndDrag nat | OpUpdatePositions
  | OpBounds rat rat rat rat

text \<open>The objects an operation is given have been made before.\<close>

definition op_possible :: "scene \<Rightarrow> scene_op \<Rightarrow> bool" where
  "op_possible s op \<longleftrightarrow>
     (case op of
        OpLink a b \<Rightarrow> known s (NodeEnd a) \<and> known s b
      | OpSelect r \<Rightarrow> (case r of NodeObject i \<Rightarrow> i \<in> set (nodes s) | _ \<Rightarrow> True)
      | OpHighlight i b \<Rightarrow> i \<in> set (nodes s) | OpSize i d \<Rightarrow> i \<in> set (nodes s)
      | OpLabel i t \<Rightarrow> i \<in> set (nodes s) | OpColor i c \<Rightarrow> i \<in> set (nodes s)
      | OpIcon hw hh i w h ax ay \<Rightarrow> i \<in> set (nodes s) | OpPosition i p \<Rightarrow> i \<in> set (nodes s)
      | OpChannelPosition c p \<Rightarrow> c \<in> set (channels s)
      | OpBeginDrag i p \<Rightarrow> i \<in> set (nodes s) | OpDragMotion i p \<Rightarrow> i \<in> set (motion_handlers s) \<inter> set (nodes s)
      | OpEndDrag i \<Rightarrow> i \<in> set (nodes s) | _ \<Rightarrow> True)"

definition run_op :: "scene_op \<Rightarrow> world \<times> scene \<Rightarrow> world \<times> scene" where
  "run_op op ws =
     (case ws of (w, s) \<Rightarrow>
       (case op of
          OpNode i \<Rightarrow> (w, get_node i s) | OpChannel c \<Rightarrow> (w, get_channel c s)
        | OpLink a b \<Rightarrow> (w, create_link a b s) | OpSelect r \<Rightarrow> (w, fst (select_node r s))
        | OpMode m \<Rightarrow> (w, set_show_transmissions_mode w m s)
        | OpHighlight i b \<Rightarrow> (w, set_highlighted i b s) | OpSize i d \<Rightarrow> (w, set_size i d s)
        | OpSizeAll d \<Rightarrow> (w, node_size_changed d s) | OpLabel i t \<Rightarrow> (w, set_label i t s)
        | OpColor i c \<Rightarrow> (w, set_color i c s)
        | OpIcon hw hh i width height ax ay \<Rightarrow> (w, fst (set_svg_icon hw hh i width height ax ay s))
        | OpPosition i p \<Rightarrow> (w, set_position i p s) | OpChannelPosition c p \<Rightarrow> (w, set_channel_position c p s)
        | OpBeginDrag i p \<Rightarrow> (w, begin_node_drag w p i s)
        | OpDragMotion i p \<Rightarrow> fst (node_drag_motion p i (w, s))
        | OpEndDrag i \<Rightarrow> (w, end_node_drag i s) | OpUpdatePositions \<Rightarrow> (w, update_node_positions w s)
        | OpBounds x1 y1 x2 y2 \<Rightarrow> (w, fst (set_bounds_hook x1 y1 x2 y2 s))))"

definition empty_scene :: "world \<Rightarrow> scene" where
  "empty_scene w =
     set_show_transmissions_mode w ShowAll
       \<lparr>nodes = [], node_at = (\<lambda>i. blank_node), channels = [], channel_at = (\<lambda>c. blank_channel), links = [],
        canvas_bounds = Some (-10000, -10000, 10000, 10000), selected_node = None, show_mode = ShowAll,
        interest = [], drag = None, motion_handlers = []\<rparr>"

inductive scene_reached :: "world \<times> scene \<Rightarrow> bool" where
  started: "scene_reached (w, empty_scene w)"
| simulated: "scene_reached (w, s) \<Longrightarrow> scene_reached (w', s)"
| operated: "scene_reached (w, s) \<Longrightarrow> op_possible s op \<Longrightarrow> scene_reached (run_op op (w, s))"

lemma scene_ok_empty: "scene_ok (empty_scene w)"
  by (simp add: scene_ok_def links_ok_def selection_ok_def empty_scene_def set_show_transmissions_mode_def
      links_of_def blank_node_def blank_channel_def split: endpoint.split)

text \<open>Moves and changes of the look keep it.\<close>

lemma scene_ok_set_position: "scene_ok s \<Longrightarrow> scene_ok (set_position i p s)"
  by (auto simp: scene_ok_def selection_ok_def node_at_set_position links_ok_set_position node_shown_moved)

lemma scene_ok_update_node_position: "scene_ok s \<Longrightarrow> scene_ok (update_node_position w i s)"
proof -
  assume s: "scene_ok s"
  have "scene_ok (upd_node i (\<lambda>n. n\<lparr>n_has_mobility := b\<rparr>) s)" for b
    using s by (auto simp: scene_ok_def selection_ok_def intro!: links_ok_upd_node)
  then show ?thesis using s
    by (auto simp: update_node_position_def has_mobility_def Let_def scene_ok_set_position split: option.split)
qed

lemma scene_ok_update_node_positions: "scene_ok s \<Longrightarrow> scene_ok (update_node_positions w s)"
  unfolding update_node_positions_def
proof -
  have "scene_ok s \<Longrightarrow> scene_ok (fold (update_node_position w) is s)" for "is"
    by (induction "is" arbitrary: s) (simp_all add: scene_ok_update_node_position)
  then show "scene_ok s \<Longrightarrow> scene_ok (fold (update_node_position w) (nodes s) s)" .
qed

lemma scene_ok_change:
  assumes "scene_ok s" and "\<And>n. n_links (f n) = n_links n" and "\<And>n. n_center (f n) = n_center n"
    and "\<And>n. n_selected (f n) = n_selected n"
    and "svg_placed (node_at s i) \<Longrightarrow> svg_placed (f (node_at s i))" and "\<And>n. i_label (f n) = i_label n"
    and "\<And>n. n_label n \<noteq> None \<Longrightarrow> n_label (f n) \<noteq> None"
    and "i \<in> set (nodes s)"
  shows "scene_ok (update_appearance i (upd_node i f s))"
proof -
  let ?n = "node_at s i"
  have n: "node_shown ?n" using assms(1,8) by (simp add: scene_ok_def)
  have "node_shown (node_appearance (f ?n))"
  proof (rule node_shown_appearance)
    show "svg_placed (f ?n)" using n assms(5) by (simp add: node_shown_def)
    show "n_label (f ?n) \<noteq> None" if "i_label (f ?n) \<noteq> None"
      using that n assms(6,7) by (auto simp: node_shown_def)
  qed
  then show ?thesis using assms(1-4,8)
    by (auto simp: scene_ok_def selection_ok_def node_at_appearance
        intro!: links_ok_update_appearance links_ok_upd_node)
qed

lemma svg_placed_simps [simp]:
  "svg_placed (n\<lparr>n_highlighted := b\<rparr>) = svg_placed n" "svg_placed (n\<lparr>n_size := d\<rparr>) = svg_placed n"
  "svg_placed (n\<lparr>n_label := t\<rparr>) = svg_placed n" "svg_placed (n\<lparr>n_color := c\<rparr>) = svg_placed n"
  "svg_placed (n\<lparr>n_selected := b\<rparr>) = svg_placed n"
  by (simp_all add: svg_placed_def split: option.split prod.split)

lemma svg_placed_update: "p = n_center n \<Longrightarrow> svg_placed (n\<lparr>n_svg := Some (update_svg_position p v)\<rparr>)"
  by (simp add: svg_placed_def update_svg_position_def split: prod.split)

lemma scene_ok_set_size: "scene_ok s \<Longrightarrow> i \<in> set (nodes s) \<Longrightarrow> scene_ok (set_size i d s)"
  unfolding set_size_def by (rule scene_ok_change) simp_all

lemma scene_ok_node_size_changed: "scene_ok s \<Longrightarrow> scene_ok (node_size_changed d s)"
proof -
  have "scene_ok s \<Longrightarrow> set is \<subseteq> set (nodes s) \<Longrightarrow> scene_ok (fold (\<lambda>i. set_size i d) is s)" for "is"
  proof (induction "is" arbitrary: s)
    case (Cons i "is")
    have "nodes (set_size i d s) = nodes s" by (simp add: set_size_def)
    with Cons show ?case by (simp add: scene_ok_set_size)
  qed simp
  then show "scene_ok s \<Longrightarrow> ?thesis" by (simp add: node_size_changed_def)
qed

lemma scene_ok_set_svg_icon:
  assumes "scene_ok s" and "i \<in> set (nodes s)"
  shows "scene_ok (fst (set_svg_icon hw hh i width height ax ay s))"
  using assms unfolding set_svg_icon_def Let_def
  by (auto intro!: scene_ok_change svg_placed_update)

lemma node_at_set_selected:
  "node_at (set_selected i b s) = (node_at s)(i := node_appearance ((node_at s i)\<lparr>n_selected := b\<rparr>))"
  by (simp add: set_selected_def node_at_appearance)

lemma set_selected_simps [simp]:
  "nodes (set_selected i b s) = nodes s" "channels (set_selected i b s) = channels s"
  "selected_node (set_selected i b s) = selected_node s" "show_mode (set_selected i b s) = show_mode s"
  "interest (set_selected i b s) = interest s"
  by (simp_all add: set_selected_def)

lemma links_ok_set_selected: "links_ok s \<Longrightarrow> links_ok (set_selected i b s)"
  by (simp add: set_selected_def links_ok_update_appearance links_ok_upd_node)

lemma node_shown_selected:
  "node_shown n \<Longrightarrow> node_shown (node_appearance (n\<lparr>n_selected := b\<rparr>))"
  by (rule node_shown_appearance) (auto simp: node_shown_def)

text \<open>Changes of the other fields of the scene.\<close>

lemma links_ok_same:
  assumes "nodes t = nodes s" "node_at t = node_at s" "channels t = channels s" "channel_at t = channel_at s"
    "links t = links s"
  shows "links_ok t = links_ok s"
proof -
  have "known t = known s" "position_of t = position_of s" "links_of t = links_of s"
    by (auto simp: known_def position_of_def links_of_def assms split: endpoint.split intro!: ext)
  then show ?thesis by (simp add: links_ok_def link_ok_def assms(5))
qed

lemma links_ok_more:
  "links_ok (s\<lparr>selected_node := x\<rparr>) = links_ok s" "links_ok (s\<lparr>interest := ks\<rparr>) = links_ok s"
  "links_ok (s\<lparr>show_mode := m\<rparr>) = links_ok s" "links_ok (s\<lparr>canvas_bounds := q\<rparr>) = links_ok s"
  "links_ok (s\<lparr>drag := d\<rparr>) = links_ok s" "links_ok (s\<lparr>motion_handlers := hs\<rparr>) = links_ok s"
  by (rule links_ok_same; simp)+

lemma scene_ok_change_selection:
  assumes s: "scene_ok s" and new: "\<And>i. new = Some i \<Longrightarrow> i \<in> set (nodes s)"
  shows "scene_ok (change_selection new s)"
proof (cases "new = selected_node s")
  case True
  then show ?thesis using s by (simp add: change_selection_def)
next
  case False
  let ?a = "case selected_node s of None \<Rightarrow> s | Some i \<Rightarrow> set_selected i False s"
  let ?b = "?a\<lparr>selected_node := new\<rparr>"
  let ?c = "case new of None \<Rightarrow> ?b | Some i \<Rightarrow> set_selected i True ?b"
  have l: "links_ok ?c" using s
    by (auto simp: scene_ok_def links_ok_set_selected links_ok_more split: option.split)
  have sh: "\<forall>i \<in> set (nodes s). node_shown (node_at ?c i)"
    using s by (auto simp: scene_ok_def node_at_set_selected node_shown_selected split: option.split)
  have sel: "\<forall>i \<in> set (nodes s). n_selected (node_at ?c i) \<longleftrightarrow> new = Some i"
    using s False by (auto simp: scene_ok_def selection_ok_def node_at_set_selected split: option.splits)
  have "nodes ?c = nodes s" "selected_node ?c = new" "show_mode ?c = show_mode s" "interest ?c = interest s"
    by (simp_all split: option.split)
  then show ?thesis using False l sh sel new
    by (auto simp: change_selection_def Let_def scene_ok_def selection_ok_def links_ok_more)
qed

lemma scene_ok_select_node:
  assumes "scene_ok s" and "\<And>i. r = NodeObject i \<Longrightarrow> i \<in> set (nodes s)"
  shows "scene_ok (fst (select_node r s))"
proof (cases "resolve_node s r")
  case (Inr new)
  then have "i \<in> set (nodes s)" if "new = Some i" for i
    using that assms(2) by (auto simp: resolve_node_def split: node_ref.splits if_splits)
  then show ?thesis using assms(1) Inr by (simp add: select_node_def scene_ok_change_selection)
qed (simp add: select_node_def assms)

lemma scene_ok_get_node:
  assumes "scene_ok s"
  shows "scene_ok (get_node i s)"
proof (cases "i \<in> set (nodes s)")
  case False
  have "node_shown (node_appearance blank_node)"
    by (rule node_shown_appearance) (simp_all add: svg_placed_def blank_node_def)
  moreover have "\<not> n_selected blank_node" by (simp add: blank_node_def)
  ultimately show ?thesis using assms False links_ok_get_node [of s i]
    by (auto simp: scene_ok_def selection_ok_def get_node_def node_at_appearance)
qed (simp add: get_node_def assms)

lemma node_at_add_link_to:
  "node_at (add_link_to e k s) j =
     (if e = NodeEnd j then (node_at s j)\<lparr>n_links := n_links (node_at s j) @ [k]\<rparr> else node_at s j)"
  by (simp add: add_link_to_def split: endpoint.split)

lemma scene_ok_create_link:
  assumes "scene_ok s" and "known s (NodeEnd a)" and "known s b"
  shows "scene_ok (create_link a b s)"
  using assms links_ok_create_link [of s a b]
  by (auto simp: scene_ok_def selection_ok_def create_link_def Let_def node_at_add_link_to)

lemma scene_ok_get_channel: "scene_ok s \<Longrightarrow> scene_ok (get_channel c s)"
  using links_ok_get_channel [of s c]
  by (auto simp: scene_ok_def selection_ok_def get_channel_def)

lemma scene_ok_set_channel_position: "scene_ok s \<Longrightarrow> scene_ok (set_channel_position c p s)"
  by (auto simp: scene_ok_def selection_ok_def links_ok_set_channel_position)

lemma scene_ok_more:
  assumes "scene_ok s"
  shows "scene_ok (set_show_transmissions_mode w m s)" "scene_ok (begin_node_drag w p i s)"
    "scene_ok (end_node_drag i s)" "scene_ok (fst (set_bounds_hook x1 y1 x2 y2 s))"
    "scene_ok (snd (fst (node_drag_motion p i (w, s))))"
proof -
  show "scene_ok (set_show_transmissions_mode w m s)" using assms
    by (auto simp: set_show_transmissions_mode_def scene_ok_def selection_ok_def links_ok_more split: tx_mode.split option.splits)
  show "scene_ok (begin_node_drag w p i s)" using assms
    by (auto simp: begin_node_drag_def scene_ok_def selection_ok_def links_ok_more split: option.split)
  show "scene_ok (end_node_drag i s)" using assms
    by (auto simp: end_node_drag_def scene_ok_def selection_ok_def links_ok_more split: option.split)
  show "scene_ok (fst (set_bounds_hook x1 y1 x2 y2 s))" using assms
    by (auto simp: set_bounds_hook_def Let_def scene_ok_def selection_ok_def links_ok_more)
  show "scene_ok (snd (fst (node_drag_motion p i (w, s))))" using assms
    by (auto simp: node_drag_motion_def Let_def scene_ok_set_position split: option.split)
qed

lemma scene_ok_run_op:
  assumes "scene_ok s" and "op_possible s op"
  shows "scene_ok (snd (run_op op (w, s)))"
  using assms
  by (cases op)
     (auto simp: run_op_def op_possible_def scene_ok_get_node scene_ok_get_channel scene_ok_create_link
       scene_ok_set_size scene_ok_node_size_changed scene_ok_set_svg_icon scene_ok_set_position
       scene_ok_set_channel_position scene_ok_more scene_ok_update_node_positions
       set_highlighted_def set_label_def set_color_def
       intro!: scene_ok_select_node scene_ok_change)

fun ops_possible :: "scene_op list \<Rightarrow> world \<times> scene \<Rightarrow> bool" where
  "ops_possible [] ws = True"
| "ops_possible (op # ops) ws = (op_possible (snd ws) op \<and> ops_possible ops (run_op op ws))"

lemma reached_ops: "scene_reached ws \<Longrightarrow> ops_possible ops ws \<Longrightarrow> scene_reached (fold run_op ops ws)"
proof (induction ops arbitrary: ws)
  case (Cons op ops)
  then show ?case using operated [of "fst ws" "snd ws" op] by simp
qed simp

lemma scene_ok_reached: "scene_reached ws \<Longrightarrow> scene_ok (snd ws)"
proof (induction rule: scene_reached.induct)
  case (started w)
  then show ?case by (simp add: scene_ok_empty)
next
  case (operated w s op)
  then show ?case using scene_ok_run_op by simp
qed simp

text \<open>C21: In every state the canvas can reach by operations of the program, its plugins and its shell
  on nodes, channels and links, at whatever positions the simulation has meanwhile put its nodes:
  each wired link is registered at exactly its two ends and drawn, if at all, between their current
  positions; each node has the size, color, line and label its state says, with the label and the
  icon at its position; the selected node and no other is marked as selected, and in the mode for
  the selected node it alone is of interest for transmissions.\<close>

theorem scene_consistent:
  assumes "scene_reached (w, s)"
  shows "links_ok s \<and> (\<forall>i \<in> set (nodes s). node_shown (node_at s i)) \<and> selection_ok s"
  using scene_ok_reached [OF assms] by (simp add: scene_ok_def)

theorem scene_consistent_witness:
  "\<exists>w s. scene_reached (w, s) \<and> selected_node s = Some 1 \<and> length (links s) = 1 \<and>
     l_path (links s ! 0) = Some ((0, 0), (30, 60)) \<and> interest s = [1] \<and> links_ok s"
proof -
  let ?w = "\<lparr>w_now = 0, w_nodes = 2, w_mobility = (\<lambda>i. None), w_devices = (\<lambda>i. []), w_channel = (\<lambda>c. []),
    w_tx = [], w_drops = [], w_pauses = []\<rparr>"
  let ?ops = "[OpNode 0, OpNode 1, OpLink 0 (NodeEnd 1), OpPosition 1 (30, 60), OpSelect (NodeNumber 1), OpMode ShowSelected]"
  let ?s = "snd (fold run_op ?ops (?w, empty_scene ?w))"
  have "fst (fold run_op ?ops (?w, empty_scene ?w)) = ?w" by (simp add: run_op_def)
  moreover have "ops_possible ?ops (?w, empty_scene ?w)"
    by code_simp
  then have "scene_reached (fold run_op ?ops (?w, empty_scene ?w))"
    by (rule reached_ops [OF started])
  ultimately have r: "scene_reached (?w, ?s)" by (metis prod.collapse)
  have "selected_node ?s = Some 1 \<and> length (links ?s) = 1 \<and>
     l_path (links ?s ! 0) = Some ((0, 0), (30, 60)) \<and> interest ?s = [1]"
    by code_simp
  then show ?thesis using r scene_consistent [OF r] by blast
qed

text \<open>A node that is dragged follows the pointer: after any movements of the pointer the simulated
  node is displaced by the way of the pointer in meters from where the drag began, and its picture
  by the same way in pixels. The movements do not add up, so a pointer that comes back brings the
  node back, and no other node moves.\<close>

theorem drag_follows_pointer:
  assumes "w_mobility w i = Some pos" and "drag s = None" and "path \<noteq> []"
    and "fold (\<lambda>p ws. fst (node_drag_motion p i ws)) path (w, begin_node_drag w start i s) = (w', s')"
  shows "w_mobility w' = (w_mobility w)(i \<mapsto>
      (fst pos + (fst (last path) - fst start) / 3, snd pos + (snd (last path) - snd start) / 3)) \<and>
    n_center (node_at s' i) = (3 * fst pos + (fst (last path) - fst start), 3 * snd pos + (snd (last path) - snd start)) \<and>
    (\<forall>j. j \<noteq> i \<longrightarrow> node_at s' j = node_at s j)"
proof -
  define d where "d = \<lparr>canvas_0 = start, sim_0 = pos, motion_on = i\<rparr>"
  have "w_mobility w' = (w_mobility w)(i \<mapsto>
      (fst pos + (fst (last path) - fst start) / 3, snd pos + (snd (last path) - snd start) / 3)) \<and>
    n_center (node_at s' i) = (3 * fst pos + (fst (last path) - fst start), 3 * snd pos + (snd (last path) - snd start)) \<and>
    (\<forall>j. j \<noteq> i \<longrightarrow> node_at s' j = node_at t j)"
    if "drag t = Some d" "w_mobility v i \<noteq> None" "path \<noteq> []" "\<forall>j. j \<noteq> i \<longrightarrow> w_mobility v j = w_mobility w j"
      "fold (\<lambda>p ws. fst (node_drag_motion p i ws)) path (v, t) = (w', s')" for v t
    using that
  proof (induction path arbitrary: v t)
    case (Cons p path)
    let ?pos = "(fst pos + (fst p - fst start) / 3, snd pos + (snd p - snd start) / 3)"
    let ?v = "v\<lparr>w_mobility := (w_mobility v)(i := Some ?pos)\<rparr>"
    let ?t = "set_position i (transform_point_simulation_to_canvas ?pos) t"
    have m: "fst (node_drag_motion p i (v, t)) = (?v, ?t)"
      using Cons.prems(1,2) by (auto simp: node_drag_motion_def d_def Let_def
          transform_distance_canvas_to_simulation_def pixels_per_meter_def)
    have others: "\<forall>j. j \<noteq> i \<longrightarrow> node_at ?t j = node_at t j" by (simp add: node_at_set_position)
    show ?case
    proof (cases "path = []")
      case True
      then have eq: "w' = ?v" "s' = ?t" using Cons.prems(5) m by simp_all
      have "w_mobility w' = (w_mobility w)(i \<mapsto> ?pos)" using Cons.prems(4) by (auto simp: eq fun_eq_iff)
      moreover have "n_center (node_at s' i) = (3 * fst pos + (fst p - fst start), 3 * snd pos + (snd p - snd start))"
        by (simp add: eq node_at_set_position transform_point_simulation_to_canvas_def pixels_per_meter_def field_simps)
      ultimately show ?thesis using True others by (simp add: eq)
    next
      case False
      have "fold (\<lambda>p ws. fst (node_drag_motion p i ws)) path (?v, ?t) = (w', s')" using Cons.prems(5) m by simp
      from Cons.IH [OF _ _ False _ this] show ?thesis using Cons.prems(1,4) False others by simp
    qed
  qed simp
  from this [of "begin_node_drag w start i s" w] assms show ?thesis
    by (simp add: begin_node_drag_def d_def)
qed

theorem drag_follows_pointer_witness:
  "\<exists>w w' s'. fold (\<lambda>p ws. fst (node_drag_motion p 0 ws)) [(9, 9), (4, 1)]
       (w, begin_node_drag w (1, 1) 0 (empty_scene w)) = (w', s') \<and>
     w_mobility w' 0 = Some (11, 20) \<and> n_center (node_at s' 0) = (33, 60)"
proof -
  let ?w = "\<lparr>w_now = 0, w_nodes = 1, w_mobility = (\<lambda>i. Some (10, 20)), w_devices = (\<lambda>i. []),
    w_channel = (\<lambda>c. []), w_tx = [], w_drops = [], w_pauses = []\<rparr>"
  obtain w' s' where run: "fold (\<lambda>p ws. fst (node_drag_motion p 0 ws)) [(9, 9), (4, 1)]
      (?w, begin_node_drag ?w (1, 1) 0 (empty_scene ?w)) = (w', s')" by fastforce
  have "drag (empty_scene ?w) = None" by (simp add: empty_scene_def set_show_transmissions_mode_def)
  from drag_follows_pointer [OF _ this _ run, of "(10, 20)"] run show ?thesis
    by (intro exI [of _ ?w] exI [of _ w'] exI [of _ s']) simp
qed

end
