(* ===== verification/VizScan.thy ===== *)
theory VizScan
  imports VizScene PyStr
begin

text \<open>
  \<open>Visualizer.scan_topology\<close> of \<open>core.py\<close>: the nodes, channels and links of the simulated network are
  put on the canvas, and what has no position of its own is laid out by graphviz. The layout is a
  parameter: it is given the graph and returns the names of the nodes of the graph with positions.
\<close>

section \<open>The graph for graphviz\<close>

text \<open>A strict undirected graph: an edge is kept once, and its ends become nodes of the graph.\<close>

record agraph =
  g_nodes :: "string list"
  g_edges :: "(string \<times> string) list"

definition add_node :: "string \<Rightarrow> agraph \<Rightarrow> agraph" where
  "add_node n g = (if n \<in> set (g_nodes g) then g else g\<lparr>g_nodes := g_nodes g @ [n]\<rparr>)"

definition add_edge :: "string \<Rightarrow> string \<Rightarrow> agraph \<Rightarrow> agraph" where
  "add_edge a b g =
     (let g = add_node b (add_node a g)
      in if (a, b) \<in> set (g_edges g) \<or> (b, a) \<in> set (g_edges g) then g
         else g\<lparr>g_edges := g_edges g @ [(a, b)]\<rparr>)"

definition node_name :: "nat \<Rightarrow> string" where
  "node_name i = ''Node '' @ show_nat i"

definition channel_name :: "nat \<Rightarrow> string" where
  "channel_name c = ''Channel '' @ show_nat c"

section \<open>The scan\<close>

record scan =
  sc_scene :: scene
  sc_graph :: agraph
  sc_traits :: "(string, device_traits) pydict \<times> string list"

definition on_scene :: "(scene \<Rightarrow> scene) \<Rightarrow> scan \<Rightarrow> scan" where
  "on_scene f c = c\<lparr>sc_scene := f (sc_scene c)\<rparr>"

definition on_graph :: "(agraph \<Rightarrow> agraph) \<Rightarrow> scan \<Rightarrow> scan" where
  "on_graph f c = c\<lparr>sc_graph := f (sc_graph c)\<rparr>"

text \<open>A device of another node on a channel of at most two: \<open>has_mobility\<close> is only asked without mobility.\<close>

definition link_other :: "world \<Rightarrow> nat \<Rightarrow> nat \<Rightarrow> scan \<Rightarrow> scan" where
  "link_other w i j c =
     (let c = on_scene (get_node j) c
      in if j = i then c
         else
           (let c = (if w_mobility w i = None
                     then (case has_mobility w j (sc_scene c) of (s, b) \<Rightarrow>
                        (let c = c\<lparr>sc_scene := s\<rparr>
                         in if b then c else on_graph (add_edge (node_name i) (node_name j)) c))
                     else c)
            in on_scene (create_link i (NodeEnd j) \<circ> get_node i) c))"

definition link_channel :: "world \<Rightarrow> nat \<Rightarrow> nat \<Rightarrow> scan \<Rightarrow> scan" where
  "link_channel w i ch c =
     (let c = (if w_mobility w i = None then on_graph (add_edge (node_name i) (channel_name ch)) c else c);
          c = on_scene (get_channel ch) c
      in on_scene (create_link i (ChannelEnd ch) \<circ> get_channel ch \<circ> get_node i) c)"

definition scan_device :: "world \<Rightarrow> nat \<Rightarrow> device \<Rightarrow> scan \<Rightarrow> scan result" where
  "scan_device w i dev c =
     (case lookup_netdevice_traits (d_class dev) (sc_traits c) of (ts, t) \<Rightarrow>
       (let c = c\<lparr>sc_traits := ts\<rparr>
        in if is_wireless t = Some True then Inr c
           else if is_virtual t then Inr c
           else (case d_channel dev of
               None \<Rightarrow> Inl AttributeError
             | Some ch \<Rightarrow>
                 Inr (if length (w_channel w ch) > 2 then link_channel w i ch c
                      else fold (link_other w i) (w_channel w ch) c))))"

definition gdk_red :: color_arg where
  "gdk_red = ColorParsed 65535 0 0"

definition scan_node :: "world \<Rightarrow> nat \<Rightarrow> scan \<Rightarrow> scan result" where
  "scan_node w i c =
     (let c = on_scene (get_node i) c;
          c = (case w_mobility w i of
                 Some pos \<Rightarrow> on_scene (set_position i (transform_point_simulation_to_canvas pos) \<circ> set_color i gdk_red) c
               | None \<Rightarrow> on_graph (add_node (node_name i)) c)
      in rfold (scan_device w i) (w_devices w i) c)"

text \<open>
  The loop over the laid out graph. \<open>obj\<close> keeps its value when a name is of neither type.
\<close>

definition parse_int :: "string \<Rightarrow> nat result" where
  "parse_int s = (if s \<noteq> [] \<and> list_all is_digit s then Inr (digits_val s) else Inl ValueError)"

definition place_object :: "endpoint \<Rightarrow> point \<Rightarrow> scene \<Rightarrow> scene" where
  "place_object e p s = (case e of NodeEnd i \<Rightarrow> set_position i p s | ChannelEnd c \<Rightarrow> set_channel_position c p s)"

definition place_item :: "string \<times> point \<Rightarrow> endpoint option \<times> scene \<Rightarrow> (endpoint option \<times> scene) result" where
  "place_item item st =
     (case (item, st) of ((name, pos), (obj, s)) \<Rightarrow>
       (case split_char CHR '' '' name of
          [node_type, node_id] \<Rightarrow>
            rbind
              (if node_type = ''Node'' then
                 rbind (parse_int node_id) (\<lambda>i. if i \<in> set (nodes s) then Inr (Some (NodeEnd i)) else Inl KeyError)
               else if node_type = ''Channel'' then
                 rbind (parse_int node_id) (\<lambda>c. if c \<in> set (channels s) then Inr (Some (ChannelEnd c)) else Inl KeyError)
               else Inr obj)
              (\<lambda>obj. case obj of
                  None \<Rightarrow> Inl UnboundLocalError
                | Some e \<Rightarrow> Inr (Some e, place_object e pos s))
        | _ \<Rightarrow> Inl ValueError))"

definition scan_topology ::
  "world \<Rightarrow> (agraph \<Rightarrow> (string \<times> point) list) \<Rightarrow> (string, device_traits) pydict \<Rightarrow> scene \<Rightarrow> scan result" where
  "scan_topology w layout known_traits s =
     rbind (rfold (scan_node w) [0..<w_nodes w]
              \<lparr>sc_scene = s, sc_graph = \<lparr>g_nodes = [], g_edges = []\<rparr>, sc_traits = (known_traits, [])\<rparr>)
       (\<lambda>c. rbind (rfold place_item (layout (sc_graph c)) (None, sc_scene c))
         (\<lambda>(obj, s). Inr (c\<lparr>sc_scene := s\<rparr>)))"

section \<open>What the scan should find\<close>

definition traits_of :: "(string, device_traits) pydict \<Rightarrow> string \<Rightarrow> device_traits" where
  "traits_of tr c = (case dict_get tr c of Some t \<Rightarrow> t | None \<Rightarrow> \<lparr>is_wireless = Some True, is_virtual = False\<rparr>)"

definition wired_channels :: "world \<Rightarrow> (string, device_traits) pydict \<Rightarrow> nat \<Rightarrow> nat list" where
  "wired_channels w tr i =
     map (the \<circ> d_channel) (filter (\<lambda>d. is_wired (traits_of tr (d_class d))) (w_devices w i))"

definition channel_ends :: "world \<Rightarrow> nat \<Rightarrow> nat \<Rightarrow> (nat \<times> endpoint) list" where
  "channel_ends w i ch =
     (if length (w_channel w ch) > 2 then [(i, ChannelEnd ch)]
      else map (\<lambda>j. (i, NodeEnd j)) (filter (\<lambda>j. j \<noteq> i) (w_channel w ch)))"

definition node_ends :: "world \<Rightarrow> (string, device_traits) pydict \<Rightarrow> nat \<Rightarrow> (nat \<times> endpoint) list" where
  "node_ends w tr i = concat (map (channel_ends w i) (wired_channels w tr i))"

definition name_of :: "endpoint \<Rightarrow> string" where
  "name_of e = (case e of NodeEnd i \<Rightarrow> node_name i | ChannelEnd c \<Rightarrow> channel_name c)"

text \<open>What graphviz has to place: nodes without mobility and the channels drawn as nodes they are on.\<close>

definition to_place :: "world \<Rightarrow> (string, device_traits) pydict \<Rightarrow> nat \<Rightarrow> endpoint set" where
  "to_place w tr i =
     (if w_mobility w i \<noteq> None then {}
      else insert (NodeEnd i) (ChannelEnd ` {ch \<in> set (wired_channels w tr i). length (w_channel w ch) > 2}))"

definition ends :: "scene \<Rightarrow> (nat \<times> endpoint) list" where
  "ends s = map (\<lambda>l. (the (l_from l), the (l_to l))) (links s)"

lemma lookup_traits_of:
  assumes "lookup_netdevice_traits c st = (st', t)"
  shows "t = traits_of (fst st) c" and "traits_of (fst st') = traits_of (fst st)"
proof -
  show "t = traits_of (fst st) c" using lookup_get [of c st] assms by (simp add: traits_of_def)
  show "traits_of (fst st') = traits_of (fst st)"
    using lookup_keeps [of c st] assms by (auto simp: traits_of_def fun_eq_iff split: option.split)
qed

lemma map_links_redrawn:
  assumes "length (links t) = length (links s)" and "\<And>l. f (redrawn t l) = f l"
    and "\<And>k. k < length (links s) \<Longrightarrow> links t ! k = redrawn t (links s ! k) \<or> links t ! k = links s ! k"
  shows "map f (links t) = map f (links s)"
  using assms by (intro nth_equalityI) (auto, metis)

lemma ends_set_position [simp]: "ends (set_position i p s) = ends s"
  unfolding ends_def by (rule map_links_redrawn) (auto simp: nth_set_position)

lemma ends_set_channel_position [simp]: "ends (set_channel_position c p s) = ends s"
  unfolding ends_def by (rule map_links_redrawn) (auto simp: nth_set_channel_position)

lemma ends_upd [simp]: "ends (upd_node i f s) = ends s" "ends (upd_channel c g s) = ends s"
  by (simp_all add: ends_def)

lemma ends_update_appearance [simp]: "ends (update_appearance i s) = ends s"
  by (simp add: update_appearance_def Let_def)

lemma ends_operations [simp]:
  "ends (get_node i s) = ends s" "ends (get_channel c s) = ends s" "ends (set_color i col s) = ends s"
  "ends (place_object e p s) = ends s" "ends (fst (has_mobility w i s)) = ends s"
  by (simp_all add: get_node_def get_channel_def set_color_def place_object_def has_mobility_def Let_def
      split: endpoint.split option.split, simp_all add: ends_def)

lemma ends_create_link [simp]: "ends (create_link a b s) = ends s @ [(a, b)]"
  by (simp add: create_link_def Let_def ends_def)

section \<open>Names\<close>

lemma show_nat_no_blank: "CHR '' '' \<notin> set (show_nat n)"
  using show_nat_digits [of n] by (auto simp: list_all_iff is_digit_def)

lemma split_name:
  "split_char CHR '' '' (node_name i) = [''Node'', show_nat i]"
  "split_char CHR '' '' (channel_name i) = [''Channel'', show_nat i]"
  using split_char_append [of "CHR '' ''" "''Node''" "show_nat i"]
    split_char_append [of "CHR '' ''" "''Channel''" "show_nat i"]
  by (simp_all add: node_name_def channel_name_def split_char_no_sep show_nat_no_blank)

lemma parse_int_show [simp]: "parse_int (show_nat n) = Inr n"
  using show_nat_digits [of n] by (simp add: parse_int_def digits_val_show_nat)

lemma name_of_inj: "name_of e = name_of e' \<longleftrightarrow> e = e'"
  by (cases e; cases e') (auto simp: name_of_def node_name_def channel_name_def show_nat_inj)

lemma place_item_name:
  "known s e \<Longrightarrow> place_item (name_of e, p) (obj, s) = Inr (Some e, place_object e p s)"
  by (cases e) (simp_all add: place_item_def name_of_def split_name known_def)

lemma known_place_object [simp]: "known (place_object e p s) e' = known s e'"
  by (auto simp: place_object_def known_def split: endpoint.split)

lemma position_of_place_object:
  "position_of (place_object e p s) e' = (if e' = e then p else position_of s e')"
  by (cases e) (simp_all add: place_object_def position_of_set_position position_of_set_channel_position)

lemma scene_ok_place_object: "scene_ok s \<Longrightarrow> scene_ok (place_object e p s)"
  by (simp add: place_object_def scene_ok_set_position scene_ok_set_channel_position split: endpoint.split)

lemma place_items:
  assumes "\<forall>x \<in> set items. \<exists>e. fst x = name_of e \<and> known s e" and "distinct (map fst items)" and "scene_ok s"
  shows "\<exists>obj' s'. rfold place_item items (obj, s) = Inr (obj', s') \<and> scene_ok s' \<and> ends s' = ends s \<and>
     nodes s' = nodes s \<and> channels s' = channels s \<and>
     (\<forall>e. position_of s' e = (case map_of items (name_of e) of Some p \<Rightarrow> p | None \<Rightarrow> position_of s e))"
  using assms
proof (induction items arbitrary: obj s)
  case (Cons x items)
  obtain e p where x: "x = (name_of e, p)" and e: "known s e" using Cons.prems(1) by (cases x) auto
  have same: "nodes (place_object e p s) = nodes s" "channels (place_object e p s) = channels s"
    by (auto simp: place_object_def split: endpoint.split)
  have none: "map_of items (name_of e) = None" using Cons.prems(2) by (simp add: x map_of_eq_None_iff)
  have "\<exists>obj' s'. rfold place_item items (Some e, place_object e p s) = Inr (obj', s') \<and> scene_ok s' \<and>
     ends s' = ends (place_object e p s) \<and>
     nodes s' = nodes (place_object e p s) \<and> channels s' = channels (place_object e p s) \<and>
     (\<forall>e'. position_of s' e' =
       (case map_of items (name_of e') of Some p \<Rightarrow> p | None \<Rightarrow> position_of (place_object e p s) e'))"
    by (rule Cons.IH) (use Cons.prems in \<open>auto simp: scene_ok_place_object\<close>)
  then show ?case using none
    by (fastforce simp: x place_item_name [OF e] same position_of_place_object name_of_inj split: option.split)
qed simp

section \<open>The scan keeps to the network\<close>

definition scan_inv :: "world \<Rightarrow> (string, device_traits) pydict \<Rightarrow> nat \<Rightarrow> scan \<Rightarrow> bool" where
  "scan_inv w tr k c \<longleftrightarrow>
     scene_ok (sc_scene c) \<and> {..<k} \<subseteq> set (nodes (sc_scene c)) \<and> set (nodes (sc_scene c)) \<subseteq> {..<w_nodes w} \<and>
     (\<forall>j. n_center (node_at (sc_scene c) j) =
        (case w_mobility w j of
           Some pos \<Rightarrow> if j < k then transform_point_simulation_to_canvas pos else (0, 0)
         | None \<Rightarrow> (0, 0))) \<and>
     (\<forall>ch. c_center (channel_at (sc_scene c) ch) = (0, 0)) \<and>
     (\<forall>j. n_has_mobility (node_at (sc_scene c) j) \<in> {None, Some (w_mobility w j \<noteq> None)}) \<and>
     traits_of (fst (sc_traits c)) = traits_of tr \<and>
     set (g_nodes (sc_graph c)) \<subseteq> name_of ` (\<Union>i < w_nodes w. to_place w tr i) \<and>
     (\<forall>e. name_of e \<in> set (g_nodes (sc_graph c)) \<longrightarrow> known (sc_scene c) e)"

definition extends :: "scan \<Rightarrow> scan \<Rightarrow> bool" where
  "extends c c' \<longleftrightarrow>
     set (nodes (sc_scene c)) \<subseteq> set (nodes (sc_scene c')) \<and> set (g_nodes (sc_graph c)) \<subseteq> set (g_nodes (sc_graph c'))"

lemma extends_refl [simp]: "extends c c"
  by (simp add: extends_def)

lemma extends_trans: "extends a b \<Longrightarrow> extends b c \<Longrightarrow> extends a c"
  by (auto simp: extends_def)

lemma on_simps [simp]:
  "sc_scene (on_scene f c) = f (sc_scene c)" "sc_graph (on_scene f c) = sc_graph c"
  "sc_traits (on_scene f c) = sc_traits c" "sc_scene (on_graph h c) = sc_scene c"
  "sc_graph (on_graph h c) = h (sc_graph c)" "sc_traits (on_graph h c) = sc_traits c"
  by (simp_all add: on_scene_def on_graph_def)

lemma set_nodes_get_node [simp]: "set (nodes (get_node i s)) = insert i (set (nodes s))"
  by (auto simp: get_node_def)

lemma known_get [simp]:
  "known (get_node i s) e \<longleftrightarrow> known s e \<or> e = NodeEnd i"
  "known (get_channel ch s) e \<longleftrightarrow> known s e \<or> e = ChannelEnd ch"
  by (auto simp: known_def get_node_def get_channel_def split: endpoint.split)

lemma node_at_get_node:
  "node_at (get_node i s) j =
     (if i \<notin> set (nodes s) \<and> j = i then node_appearance blank_node else node_at s j)"
  by (simp add: get_node_def node_at_appearance)

lemma node_appearance_mobility [simp]: "n_has_mobility (node_appearance n) = n_has_mobility n"
  by (simp add: node_appearance_def show_label_def show_ellipse_def Let_def split: option.split)

lemma blank_node_simps [simp]: "n_center blank_node = (0, 0)" "n_has_mobility blank_node = None"
  by (simp_all add: blank_node_def)

lemma inv_get_node:
  assumes "scan_inv w tr k c" and "j < w_nodes w"
  shows "scan_inv w tr k (on_scene (get_node j) c)"
  using assms
  by (auto simp: scan_inv_def scene_ok_get_node node_at_get_node, auto simp: get_node_def split: option.split)

lemma inv_get_channel:
  assumes "scan_inv w tr k c"
  shows "scan_inv w tr k (on_scene (get_channel ch) c)"
proof -
  have "nodes (get_channel ch s) = nodes s" "node_at (get_channel ch s) = node_at s"
    "\<forall>x. c_center (channel_at s x) = (0, 0) \<Longrightarrow> c_center (channel_at (get_channel ch s) x) = (0, 0)" for s x
    by (simp_all add: get_channel_def blank_channel_def)
  then show ?thesis using assms by (simp add: scan_inv_def scene_ok_get_channel)
qed

lemma create_link_simps [simp]:
  "nodes (create_link a b s) = nodes s" "channels (create_link a b s) = channels s"
  "n_center (node_at (create_link a b s) j) = n_center (node_at s j)"
  "n_has_mobility (node_at (create_link a b s) j) = n_has_mobility (node_at s j)"
  "c_center (channel_at (create_link a b s) ch) = c_center (channel_at s ch)"
  by (auto simp: create_link_def Let_def add_link_to_def split: endpoint.split)

lemma known_create_link [simp]: "known (create_link a b s) e = known s e"
  by (simp add: known_def split: endpoint.split)

lemma inv_create_link:
  assumes "scan_inv w tr k c" and "known (sc_scene c) (NodeEnd a)" and "known (sc_scene c) b"
  shows "scan_inv w tr k (on_scene (create_link a b) c)"
  using assms by (simp add: scan_inv_def scene_ok_create_link)

lemma g_nodes_add [simp]:
  "set (g_nodes (add_node a g)) = insert a (set (g_nodes g))"
  "set (g_nodes (add_edge a b g)) = insert a (insert b (set (g_nodes g)))"
  by (auto simp: add_node_def add_edge_def Let_def)

lemma inv_add_edge:
  assumes "scan_inv w tr k c" and "e \<in> (\<Union>i < w_nodes w. to_place w tr i)" and "e' \<in> (\<Union>i < w_nodes w. to_place w tr i)"
    and "known (sc_scene c) e" and "known (sc_scene c) e'"
  shows "scan_inv w tr k (on_graph (add_edge (name_of e) (name_of e')) c)"
  using assms by (auto simp: scan_inv_def name_of_inj)

lemma inv_mobility:
  assumes "scan_inv w tr k c"
  shows "scan_inv w tr k (c\<lparr>sc_scene := fst (has_mobility w j (sc_scene c))\<rparr>)"
    and "snd (has_mobility w j (sc_scene c)) \<longleftrightarrow> w_mobility w j \<noteq> None"
proof -
  have m: "n_has_mobility (node_at (sc_scene c) j) \<in> {None, Some (w_mobility w j \<noteq> None)}"
    using assms unfolding scan_inv_def by blast
  then show "snd (has_mobility w j (sc_scene c)) \<longleftrightarrow> w_mobility w j \<noteq> None"
    by (auto simp: has_mobility_def Let_def split: option.split)
  have ok: "scene_ok (upd_node j (\<lambda>n. n\<lparr>n_has_mobility := b\<rparr>) (sc_scene c))" if "scene_ok (sc_scene c)" for b
    using that by (auto simp: scene_ok_def selection_ok_def intro!: links_ok_upd_node)
  show "scan_inv w tr k (c\<lparr>sc_scene := fst (has_mobility w j (sc_scene c))\<rparr>)"
    using assms by (auto simp: scan_inv_def has_mobility_def Let_def ok known_def split: option.split endpoint.split)
qed

lemma has_mobility_simps [simp]:
  "nodes (fst (has_mobility w j s)) = nodes s" "known (fst (has_mobility w j s)) e = known s e"
  by (auto simp: has_mobility_def Let_def known_def split: option.split endpoint.split)

lemma to_place_node:
  "i < w_nodes w \<Longrightarrow> w_mobility w i = None \<Longrightarrow> NodeEnd i \<in> (\<Union>j < w_nodes w. to_place w tr j)"
  by (auto simp: to_place_def)

lemma to_place_channel:
  "i < w_nodes w \<Longrightarrow> w_mobility w i = None \<Longrightarrow> ch \<in> set (wired_channels w tr i) \<Longrightarrow>
   length (w_channel w ch) > 2 \<Longrightarrow> ChannelEnd ch \<in> (\<Union>j < w_nodes w. to_place w tr j)"
  by (force simp: to_place_def)

text \<open>The link to another node of a channel of two devices, and the link to a channel.\<close>

lemma link_other_step:
  assumes inv: "scan_inv w tr k c" and i: "i < w_nodes w" "i \<in> set (nodes (sc_scene c))" and j: "j < w_nodes w"
  shows "scan_inv w tr k (link_other w i j c) \<and> extends c (link_other w i j c) \<and>
    ends (sc_scene (link_other w i j c)) = ends (sc_scene c) @ (if j = i then [] else [(i, NodeEnd j)])"
proof (cases "j = i")
  case True
  then show ?thesis using inv_get_node [OF inv j]
    by (auto simp: link_other_def extends_def)
next
  case False
  define c1 where "c1 = on_scene (get_node j) c"
  have c1: "scan_inv w tr k c1" "known (sc_scene c1) (NodeEnd i)" "known (sc_scene c1) (NodeEnd j)" "extends c c1"
    "ends (sc_scene c1) = ends (sc_scene c)"
    using inv_get_node [OF inv j] i(2) by (auto simp: c1_def known_def extends_def)
  define c2 where "c2 = (if w_mobility w i = None
      then (case has_mobility w j (sc_scene c1) of (s, b) \<Rightarrow>
        (let c = c1\<lparr>sc_scene := s\<rparr> in if b then c else on_graph (add_edge (node_name i) (node_name j)) c))
      else c1)"
  have c2: "scan_inv w tr k c2 \<and> known (sc_scene c2) (NodeEnd i) \<and> known (sc_scene c2) (NodeEnd j) \<and>
      extends c1 c2 \<and> ends (sc_scene c2) = ends (sc_scene c1)"
  proof (cases "w_mobility w i = None")
    case True
    let ?h = "c1\<lparr>sc_scene := fst (has_mobility w j (sc_scene c1))\<rparr>"
    have h: "scan_inv w tr k ?h" "snd (has_mobility w j (sc_scene c1)) \<longleftrightarrow> w_mobility w j \<noteq> None"
      by (rule inv_mobility [OF c1(1)])+
    have eq: "c2 = (if w_mobility w j \<noteq> None then ?h
        else on_graph (add_edge (name_of (NodeEnd i)) (name_of (NodeEnd j))) ?h)"
      using h(2) True by (auto simp: c2_def Let_def name_of_def split: prod.split)
    have "scan_inv w tr k (on_graph (add_edge (name_of (NodeEnd i)) (name_of (NodeEnd j))) ?h)" if "w_mobility w j = None"
      by (rule inv_add_edge [OF h(1)]) (use that True i j c1 in \<open>auto simp: to_place_def\<close>)
    then show ?thesis using h(1) c1 by (cases "w_mobility w j") (auto simp: eq extends_def)
  next
    case False
    then have "c2 = c1" by (simp only: c2_def if_False)
    then show ?thesis using c1 by simp
  qed
  have r: "link_other w i j c = on_scene (create_link i (NodeEnd j)) (on_scene (get_node i) c2)"
    using False by (simp add: link_other_def Let_def c1_def c2_def on_scene_def)
  have "scan_inv w tr k (on_scene (get_node i) c2)" using c2 inv_get_node i(1) by blast
  then have "scan_inv w tr k (link_other w i j c)"
    unfolding r by (rule inv_create_link) (use c2 in simp_all)
  moreover have "extends c (link_other w i j c)"
    using c1(4) c2 unfolding r by (auto simp: extends_def)
  ultimately show ?thesis using False c1(5) c2 by (simp add: r)
qed

lemma link_others:
  assumes "scan_inv w tr k c" and "i < w_nodes w" "i \<in> set (nodes (sc_scene c))" and "set js \<subseteq> {..<w_nodes w}"
  shows "scan_inv w tr k (fold (link_other w i) js c) \<and> extends c (fold (link_other w i) js c) \<and>
    ends (sc_scene (fold (link_other w i) js c)) =
      ends (sc_scene c) @ map (\<lambda>j. (i, NodeEnd j)) (filter (\<lambda>j. j \<noteq> i) js)"
  using assms
proof (induction js arbitrary: c)
  case (Cons j js)
  have j: "j < w_nodes w" using Cons.prems(4) by simp
  from link_other_step [OF Cons.prems(1-3) j] have s: "scan_inv w tr k (link_other w i j c)"
    "extends c (link_other w i j c)"
    "ends (sc_scene (link_other w i j c)) = ends (sc_scene c) @ (if j = i then [] else [(i, NodeEnd j)])"
    by blast+
  have "i \<in> set (nodes (sc_scene (link_other w i j c)))"
    using s(2) Cons.prems(3) by (auto simp: extends_def)
  from Cons.IH [OF s(1) Cons.prems(2) this] Cons.prems(4) s show ?case
    by (auto intro: extends_trans)
qed simp

lemma link_channel_step:
  assumes inv: "scan_inv w tr k c" and i: "i < w_nodes w" "i \<in> set (nodes (sc_scene c))"
    and ch: "ch \<in> set (wired_channels w tr i)" "length (w_channel w ch) > 2"
  shows "scan_inv w tr k (link_channel w i ch c) \<and> extends c (link_channel w i ch c) \<and>
    ends (sc_scene (link_channel w i ch c)) = ends (sc_scene c) @ [(i, ChannelEnd ch)] \<and>
    (w_mobility w i = None \<longrightarrow> channel_name ch \<in> set (g_nodes (sc_graph (link_channel w i ch c))))"
proof -
  define c1 where "c1 = on_scene (get_channel ch) c"
  define c2 where "c2 = (if w_mobility w i = None then on_graph (add_edge (name_of (NodeEnd i)) (name_of (ChannelEnd ch))) c1 else c1)"
  have r: "link_channel w i ch c = on_scene (create_link i (ChannelEnd ch)) (on_scene (get_channel ch) (on_scene (get_node i) c2))"
    by (simp add: link_channel_def Let_def c1_def c2_def name_of_def on_scene_def on_graph_def)
  have nodes: "nodes (get_channel ch s) = nodes s" for s by (simp add: get_channel_def)
  have c1: "scan_inv w tr k c1" "known (sc_scene c1) (NodeEnd i)" "known (sc_scene c1) (ChannelEnd ch)"
    using inv_get_channel [OF inv] i(2) by (auto simp: c1_def known_def nodes, simp add: get_channel_def)
  have c2: "scan_inv w tr k c2"
    using c1 i(1) ch inv_add_edge [OF c1(1) to_place_node [OF i(1)] to_place_channel [OF i(1) _ ch] c1(2,3)]
    by (simp add: c2_def)
  have "scan_inv w tr k (on_scene (get_channel ch) (on_scene (get_node i) c2))"
    by (rule inv_get_channel) (rule inv_get_node [OF c2 i(1)])
  then have "scan_inv w tr k (link_channel w i ch c)"
    unfolding r by (rule inv_create_link) simp_all
  then show ?thesis by (auto simp: r c2_def c1_def extends_def nodes name_of_def)
qed

definition device_ends :: "world \<Rightarrow> (string, device_traits) pydict \<Rightarrow> nat \<Rightarrow> device \<Rightarrow> (nat \<times> endpoint) list" where
  "device_ends w tr i d =
     (if is_wired (traits_of tr (d_class d)) then channel_ends w i (the (d_channel d)) else [])"

definition has_channels :: "(string, device_traits) pydict \<Rightarrow> device \<Rightarrow> bool" where
  "has_channels tr d \<longleftrightarrow> (is_wired (traits_of tr (d_class d)) \<longrightarrow> d_channel d \<noteq> None)"

lemma scan_device_step:
  assumes inv: "scan_inv w tr k c" and i: "i < w_nodes w" "i \<in> set (nodes (sc_scene c))"
    and d: "d \<in> set (w_devices w i)" "has_channels tr d" and net: "\<forall>ch. set (w_channel w ch) \<subseteq> {..<w_nodes w}"
  shows "\<exists>c'. scan_device w i d c = Inr c' \<and> scan_inv w tr k c' \<and> extends c c' \<and>
    ends (sc_scene c') = ends (sc_scene c) @ device_ends w tr i d \<and>
    (w_mobility w i = None \<and> is_wired (traits_of tr (d_class d)) \<and> length (w_channel w (the (d_channel d))) > 2 \<longrightarrow>
      channel_name (the (d_channel d)) \<in> set (g_nodes (sc_graph c')))"
proof -
  obtain ts t where l: "lookup_netdevice_traits (d_class d) (sc_traits c) = (ts, t)" by fastforce
  from lookup_traits_of [OF l] inv have t: "t = traits_of tr (d_class d)" and ts: "traits_of (fst ts) = traits_of tr"
    by (simp_all add: scan_inv_def)
  let ?c = "c\<lparr>sc_traits := ts\<rparr>"
  have c: "scan_inv w tr k ?c" "extends c ?c" "i \<in> set (nodes (sc_scene ?c))" "ends (sc_scene ?c) = ends (sc_scene c)"
    using inv ts i(2) by (simp_all add: scan_inv_def extends_def)
  show ?thesis
  proof (cases "is_wired t")
    case False
    then have "scan_device w i d c = Inr ?c" by (auto simp: scan_device_def l Let_def is_wired_def)
    then show ?thesis using c False t by (simp add: device_ends_def)
  next
    case True
    then obtain ch where ch: "d_channel d = Some ch" using d(2) t by (auto simp: has_channels_def)
    have "d \<in> set (filter (\<lambda>d. is_wired (traits_of tr (d_class d))) (w_devices w i))" using d True t by simp
    then have "(the \<circ> d_channel) d \<in> set (wired_channels w tr i)"
      unfolding wired_channels_def set_map by (rule imageI)
    then have "ch \<in> set (wired_channels w tr i)" using ch by simp
    note chs = link_channel_step [OF c(1) i(1) c(3) this]
    have eq: "scan_device w i d c = Inr (if length (w_channel w ch) > 2 then link_channel w i ch ?c
        else fold (link_other w i) (w_channel w ch) ?c)"
      using True by (simp add: scan_device_def l Let_def is_wired_def ch)
    show ?thesis
    proof (cases "length (w_channel w ch) > 2")
      case True
      with chs eq c(2,4) ch \<open>is_wired t\<close> t show ?thesis
        by (auto simp: device_ends_def channel_ends_def intro: extends_trans)
    next
      case False
      have "set (w_channel w ch) \<subseteq> {..<w_nodes w}" using net by blast
      from link_others [OF c(1) i(1) c(3) this] False eq c(2,4) ch \<open>is_wired t\<close> t show ?thesis
        by (auto simp: device_ends_def channel_ends_def intro: extends_trans)
    qed
  qed
qed

lemma scan_devices:
  assumes "scan_inv w tr k c" and "i < w_nodes w" "i \<in> set (nodes (sc_scene c))"
    and "set ds \<subseteq> set (w_devices w i)" "\<forall>d \<in> set ds. has_channels tr d"
    and "\<forall>ch. set (w_channel w ch) \<subseteq> {..<w_nodes w}"
  shows "\<exists>c'. rfold (scan_device w i) ds c = Inr c' \<and> scan_inv w tr k c' \<and> extends c c' \<and>
    ends (sc_scene c') = ends (sc_scene c) @ concat (map (device_ends w tr i) ds) \<and>
    (\<forall>d \<in> set ds. w_mobility w i = None \<and> is_wired (traits_of tr (d_class d)) \<and>
        length (w_channel w (the (d_channel d))) > 2 \<longrightarrow>
      channel_name (the (d_channel d)) \<in> set (g_nodes (sc_graph c')))"
  using assms
proof (induction ds arbitrary: c)
  case (Cons d ds)
  obtain c1 where c1: "scan_device w i d c = Inr c1" "scan_inv w tr k c1" "extends c c1"
    "ends (sc_scene c1) = ends (sc_scene c) @ device_ends w tr i d"
    "w_mobility w i = None \<and> is_wired (traits_of tr (d_class d)) \<and> length (w_channel w (the (d_channel d))) > 2 \<longrightarrow>
      channel_name (the (d_channel d)) \<in> set (g_nodes (sc_graph c1))"
    using scan_device_step [OF Cons.prems(1-3), of d] Cons.prems(4-6) by auto
  have "i \<in> set (nodes (sc_scene c1))" using c1(3) Cons.prems(3) by (auto simp: extends_def)
  then obtain c2 where c2: "rfold (scan_device w i) ds c1 = Inr c2" "scan_inv w tr k c2" "extends c1 c2"
    "ends (sc_scene c2) = ends (sc_scene c1) @ concat (map (device_ends w tr i) ds)"
    "\<forall>d \<in> set ds. w_mobility w i = None \<and> is_wired (traits_of tr (d_class d)) \<and>
        length (w_channel w (the (d_channel d))) > 2 \<longrightarrow>
      channel_name (the (d_channel d)) \<in> set (g_nodes (sc_graph c2))"
    using Cons.IH [OF c1(2) Cons.prems(2)] Cons.prems(4-6) by auto
  have "set (g_nodes (sc_graph c1)) \<subseteq> set (g_nodes (sc_graph c2))" using c2(3) by (simp add: extends_def)
  then show ?case using c1 c2 extends_trans [OF c1(3) c2(3)] by (intro exI [of _ c2]) auto
qed simp

lemma node_ends_devices: "node_ends w tr i = concat (map (device_ends w tr i) (w_devices w i))"
proof -
  have "concat (map (channel_ends w i) (map (the \<circ> d_channel) (filter (\<lambda>d. is_wired (traits_of tr (d_class d))) ds))) =
      concat (map (device_ends w tr i) ds)" for ds
    by (induction ds) (simp_all add: device_ends_def)
  then show ?thesis by (simp add: node_ends_def wired_channels_def)
qed

definition net_ok :: "world \<Rightarrow> (string, device_traits) pydict \<Rightarrow> bool" where
  "net_ok w tr \<longleftrightarrow>
     (\<forall>i < w_nodes w. \<forall>d \<in> set (w_devices w i). has_channels tr d) \<and>
     (\<forall>ch. set (w_channel w ch) \<subseteq> {..<w_nodes w})"

lemma scan_node_step:
  assumes inv: "scan_inv w tr i c" and i: "i < w_nodes w" and net: "net_ok w tr"
  shows "\<exists>c'. scan_node w i c = Inr c' \<and> scan_inv w tr (Suc i) c' \<and> extends c c' \<and>
    ends (sc_scene c') = ends (sc_scene c) @ node_ends w tr i \<and>
    name_of ` to_place w tr i \<subseteq> set (g_nodes (sc_graph c'))"
proof -
  define c1 where "c1 = on_scene (get_node i) c"
  have c1: "scan_inv w tr i c1" "i \<in> set (nodes (sc_scene c1))" "extends c c1" "ends (sc_scene c1) = ends (sc_scene c)"
    using inv_get_node [OF inv i] by (auto simp: c1_def extends_def)
  define c2 where "c2 = (case w_mobility w i of
      Some pos \<Rightarrow> on_scene (set_position i (transform_point_simulation_to_canvas pos) \<circ> set_color i gdk_red) c1
    | None \<Rightarrow> on_graph (add_node (node_name i)) c1)"
  have c2: "scan_inv w tr (Suc i) c2 \<and> extends c1 c2 \<and> i \<in> set (nodes (sc_scene c2)) \<and> ends (sc_scene c2) = ends (sc_scene c1) \<and>
      (w_mobility w i = None \<longrightarrow> node_name i \<in> set (g_nodes (sc_graph c2)))"
  proof (cases "w_mobility w i")
    case None
    then have "name_of (NodeEnd i) \<in> name_of ` (\<Union>j < w_nodes w. to_place w tr j)"
      using to_place_node [OF i None] by blast
    then have "node_name i \<in> name_of ` (\<Union>j < w_nodes w. to_place w tr j)" by (simp add: name_of_def)
    moreover have "known (sc_scene c1) e" if "name_of e = node_name i" for e
      using that c1(2) name_of_inj [of e "NodeEnd i"] by (simp add: name_of_def known_def)
    ultimately show ?thesis using c1 None
      by (auto simp: c2_def scan_inv_def extends_def less_Suc_eq split: option.splits)
  next
    case (Some pos)
    have "scene_ok (set_color i gdk_red (sc_scene c1))" using c1 unfolding set_color_def scan_inv_def
      by (intro scene_ok_change) simp_all
    moreover have "known (set_color i col s) e = known s e" "nodes (set_color i col s) = nodes s"
      "channel_at (set_color i col s) = channel_at s" "n_center (node_at (set_color i col s) j) = n_center (node_at s j)"
      "n_has_mobility (node_at (set_color i col s) j) = n_has_mobility (node_at s j)" for col s e j
      by (auto simp: set_color_def known_def node_at_appearance split: endpoint.split)
    ultimately show ?thesis using c1 Some
      by (auto simp: c2_def scan_inv_def extends_def less_Suc_eq scene_ok_set_position node_at_set_position
          split: option.splits)
  qed
  obtain c3 where c3: "rfold (scan_device w i) (w_devices w i) c2 = Inr c3" "scan_inv w tr (Suc i) c3" "extends c2 c3"
    "ends (sc_scene c3) = ends (sc_scene c2) @ concat (map (device_ends w tr i) (w_devices w i))"
    "\<forall>d \<in> set (w_devices w i). w_mobility w i = None \<and> is_wired (traits_of tr (d_class d)) \<and>
        length (w_channel w (the (d_channel d))) > 2 \<longrightarrow>
      channel_name (the (d_channel d)) \<in> set (g_nodes (sc_graph c3))"
    using scan_devices [of w tr "Suc i" c2 i "w_devices w i"] c2 i net by (auto simp: net_ok_def)
  have "name_of ` to_place w tr i \<subseteq> set (g_nodes (sc_graph c3))"
  proof (cases "w_mobility w i")
    case None
    then show ?thesis using c2 c3(3,5) by (auto simp: to_place_def name_of_def wired_channels_def extends_def)
  qed (simp add: to_place_def)
  moreover have "scan_node w i c = Inr c3"
    unfolding scan_node_def Let_def c1_def [symmetric] c2_def [symmetric] by (rule c3(1))
  ultimately show ?thesis using c3 c2 c1 extends_trans [OF extends_trans [OF c1(3)] c3(3)]
    by (auto simp: node_ends_devices)
qed

lemma scan_nodes:
  assumes "scan_inv w tr 0 c" and "net_ok w tr" and "n \<le> w_nodes w"
  shows "\<exists>c'. rfold (scan_node w) [0..<n] c = Inr c' \<and> scan_inv w tr n c' \<and>
    ends (sc_scene c') = ends (sc_scene c) @ concat (map (node_ends w tr) [0..<n]) \<and>
    name_of ` (\<Union>i < n. to_place w tr i) \<subseteq> set (g_nodes (sc_graph c'))"
  using assms(3)
proof (induction n)
  case 0
  then show ?case using assms(1) by simp
next
  case (Suc n)
  then obtain c1 where c1: "rfold (scan_node w) [0..<n] c = Inr c1" "scan_inv w tr n c1"
    "ends (sc_scene c1) = ends (sc_scene c) @ concat (map (node_ends w tr) [0..<n])"
    "name_of ` (\<Union>i < n. to_place w tr i) \<subseteq> set (g_nodes (sc_graph c1))" by auto
  obtain c2 where c2: "scan_node w n c1 = Inr c2" "scan_inv w tr (Suc n) c2" "extends c1 c2"
    "ends (sc_scene c2) = ends (sc_scene c1) @ node_ends w tr n"
    "name_of ` to_place w tr n \<subseteq> set (g_nodes (sc_graph c2))"
    using scan_node_step [OF c1(2) _ assms(2)] Suc.prems by auto
  have "name_of ` (\<Union>i < Suc n. to_place w tr i) \<subseteq> set (g_nodes (sc_graph c2))"
    unfolding lessThan_Suc UN_insert image_Un using c1(4) c2(3,5) unfolding extends_def by blast
  then show ?case using c1 c2 by (simp add: rfold_append)
qed

text \<open>C22: Scanning a network whose wired devices all have a channel, with a layout that places exactly
  the nodes of the graph it is given, never fails. It puts every node on the canvas and makes, node
  by node and device by device, one link to the channel if more than two devices are on it and else
  one to each device of another node; so the channel of a point-to-point pair gets two links, one
  from either side. A node with mobility is shown at its place. Graphviz is asked for exactly the
  other nodes and the channels they are linked to, and decides where these are shown; a channel
  of which all nodes have mobility stays in the origin.
\<close>

theorem scan_topology_correct:
  assumes net: "net_ok w tr"
    and layout: "\<And>g. distinct (map fst (layout g)) \<and> set (map fst (layout g)) = set (g_nodes g)"
  shows "\<exists>c. scan_topology w layout tr (empty_scene w) = Inr c \<and>
    ends (sc_scene c) = concat (map (node_ends w tr) [0..<w_nodes w]) \<and>
    set (nodes (sc_scene c)) = {..<w_nodes w} \<and>
    set (g_nodes (sc_graph c)) = name_of ` (\<Union>i < w_nodes w. to_place w tr i) \<and>
    (\<forall>i pos. i < w_nodes w \<and> w_mobility w i = Some pos \<longrightarrow>
       n_center (node_at (sc_scene c) i) = transform_point_simulation_to_canvas pos) \<and>
    (\<forall>e p. (name_of e, p) \<in> set (layout (sc_graph c)) \<longrightarrow> position_of (sc_scene c) e = p) \<and>
    (\<forall>ch. ChannelEnd ch \<notin> (\<Union>i < w_nodes w. to_place w tr i) \<longrightarrow>
       c_center (channel_at (sc_scene c) ch) = (0, 0)) \<and>
    scene_ok (sc_scene c)"
proof -
  let ?c0 = "\<lparr>sc_scene = empty_scene w, sc_graph = \<lparr>g_nodes = [], g_edges = []\<rparr>, sc_traits = (tr, [])\<rparr>"
  have "node_at (empty_scene w) = (\<lambda>i. blank_node)" "channel_at (empty_scene w) = (\<lambda>c. blank_channel)"
    "nodes (empty_scene w) = []" "ends (empty_scene w) = []"
    by (simp_all add: empty_scene_def set_show_transmissions_mode_def ends_def)
  then have inv: "scan_inv w tr 0 ?c0" and e0: "ends (sc_scene ?c0) = []"
    by (auto simp: scan_inv_def scene_ok_empty blank_channel_def split: option.split)
  obtain c where c: "rfold (scan_node w) [0..<w_nodes w] ?c0 = Inr c" "scan_inv w tr (w_nodes w) c"
    "ends (sc_scene c) = concat (map (node_ends w tr) [0..<w_nodes w])"
    "name_of ` (\<Union>i < w_nodes w. to_place w tr i) \<subseteq> set (g_nodes (sc_graph c))"
    using scan_nodes [OF inv net order_refl] e0 by auto
  let ?g = "sc_graph c"
  have g: "set (g_nodes ?g) = name_of ` (\<Union>i < w_nodes w. to_place w tr i)"
    using c(2,4) by (auto simp: scan_inv_def)
  have kn: "\<forall>x \<in> set (layout ?g). \<exists>e. fst x = name_of e \<and> known (sc_scene c) e"
  proof
    fix x
    assume "x \<in> set (layout ?g)"
    then have x: "fst x \<in> set (g_nodes ?g)" using layout [of ?g] by force
    with g obtain e where "fst x = name_of e" by auto
    with x c(2) show "\<exists>e. fst x = name_of e \<and> known (sc_scene c) e" by (auto simp: scan_inv_def)
  qed
  have "scene_ok (sc_scene c)" using c(2) by (simp add: scan_inv_def)
  from place_items [OF kn _ this, of None] layout [of ?g] obtain obj s where
    s: "rfold place_item (layout ?g) (None, sc_scene c) = Inr (obj, s)" "scene_ok s" "ends s = ends (sc_scene c)"
      "nodes s = nodes (sc_scene c)"
      "\<And>e. position_of s e = (case map_of (layout ?g) (name_of e) of Some p \<Rightarrow> p | None \<Rightarrow> position_of (sc_scene c) e)"
    by auto
  have r: "scan_topology w layout tr (empty_scene w) = Inr (c\<lparr>sc_scene := s\<rparr>)"
    using c(1) s(1) by (simp add: scan_topology_def)
  have unplaced: "map_of (layout ?g) (name_of e) = None" if "e \<notin> (\<Union>i < w_nodes w. to_place w tr i)" for e
  proof -
    have "name_of e \<notin> set (map fst (layout ?g))" using that layout [of ?g] by (auto simp: g name_of_inj)
    then show ?thesis by (simp add: map_of_eq_None_iff)
  qed
  have "n_center (node_at s i) = transform_point_simulation_to_canvas pos"
    if "i < w_nodes w" "w_mobility w i = Some pos" for i pos
  proof -
    have "NodeEnd i \<notin> (\<Union>j < w_nodes w. to_place w tr j)" using that by (cases pos) (auto simp: to_place_def split: if_splits)
    then have "position_of s (NodeEnd i) = position_of (sc_scene c) (NodeEnd i)" using s(5) unplaced by simp
    then show ?thesis using c(2) that by (simp add: scan_inv_def position_of_def)
  qed
  moreover have "position_of s e = p" if "(name_of e, p) \<in> set (layout ?g)" for e p
  proof -
    have "distinct (map fst (layout ?g))" using layout by blast
    from map_of_is_SomeI [OF this that] show ?thesis using s(5) by simp
  qed
  moreover have "c_center (channel_at s ch) = (0, 0)" if "ChannelEnd ch \<notin> (\<Union>i < w_nodes w. to_place w tr i)" for ch
  proof -
    have "position_of s (ChannelEnd ch) = position_of (sc_scene c) (ChannelEnd ch)" using s(5) unplaced [OF that] by simp
    then show ?thesis using c(2) by (simp add: scan_inv_def position_of_def)
  qed
  moreover have "set (nodes s) = {..<w_nodes w}" using c(2) s(4) by (auto simp: scan_inv_def)
  ultimately show ?thesis using r s(2,3) c(3) g by simp
qed

definition example_net :: world where
  "example_net =
     (let dev = (\<lambda>cl ch. \<lparr>d_class = cl, d_channel = Some ch, d_mac = OtherMac, d_address = '''', d_bssid = '''', d_link_up = True\<rparr>);
          p2p = dev ''PointToPointNetDevice'' 7; csma = dev ''CsmaNetDevice'' 8
      in \<lparr>w_now = 0, w_nodes = 3, w_mobility = (\<lambda>i. if i = 2 then Some (5, 6) else None),
          w_devices = (\<lambda>i. if i = 0 then [p2p, csma] else if i = 1 then [csma, p2p] else [csma]),
          w_channel = (\<lambda>c. if c = 7 then [0, 1] else if c = 8 then [0, 1, 2] else []),
          w_tx = [], w_drops = [], w_pauses = []\<rparr>)"

theorem scan_topology_correct_witness:
  "\<exists>c. scan_topology example_net (\<lambda>g. map (\<lambda>n. (n, (1, 2))) (remdups (g_nodes g))) netdevice_traits
       (empty_scene example_net) = Inr c \<and>
     ends (sc_scene c) = [(0, NodeEnd 1), (0, ChannelEnd 8), (1, ChannelEnd 8), (1, NodeEnd 0), (2, ChannelEnd 8)] \<and>
     n_center (node_at (sc_scene c) 2) = (15, 18)"
proof -
  let ?tr = "netdevice_traits" and ?w = "example_net"
  have "traits_of ?tr ''PointToPointNetDevice'' = \<lparr>is_wireless = Some False, is_virtual = False\<rparr>"
    "traits_of ?tr ''CsmaNetDevice'' = \<lparr>is_wireless = Some False, is_virtual = False\<rparr>"
    by (simp_all add: traits_of_def netdevice_traits_def)
  then have net: "net_ok ?w ?tr"
    and ends: "concat (map (node_ends ?w ?tr) [0..<w_nodes ?w]) =
      [(0, NodeEnd 1), (0, ChannelEnd 8), (1, ChannelEnd 8), (1, NodeEnd 0), (2, ChannelEnd 8)]"
    by (auto simp: net_ok_def has_channels_def example_net_def Let_def node_ends_devices device_ends_def
        is_wired_def channel_ends_def upt_rec split: if_splits)
  have "distinct (map fst (map (\<lambda>n. (n, (1, 2))) (remdups (g_nodes g)))) \<and>
      set (map fst (map (\<lambda>n. (n, (1, 2))) (remdups (g_nodes g)))) = set (g_nodes g)" for g
    by (simp add: comp_def)
  from scan_topology_correct [of ?w ?tr "\<lambda>g. map (\<lambda>n. (n, (1, 2))) (remdups (g_nodes g))", OF net this] ends
  obtain c where "scan_topology ?w (\<lambda>g. map (\<lambda>n. (n, (1, 2))) (remdups (g_nodes g))) ?tr (empty_scene ?w) = Inr c"
    "ends (sc_scene c) = [(0, NodeEnd 1), (0, ChannelEnd 8), (1, ChannelEnd 8), (1, NodeEnd 0), (2, ChannelEnd 8)]"
    "\<forall>i pos. i < w_nodes ?w \<and> w_mobility ?w i = Some pos \<longrightarrow>
       n_center (node_at (sc_scene c) i) = transform_point_simulation_to_canvas pos"
    by auto
  then show ?thesis
    by (intro exI [of _ c]) (auto simp: example_net_def Let_def transform_point_simulation_to_canvas_def pixels_per_meter_def)
qed

end
