(* ===== verification/VizWifi.thy ===== *)
theory VizWifi
  imports VizScene "HOL-Library.Multiset"
begin

text \<open>
  The plugin \<open>plugins/wifi_intrastructure_link.py\<close>: a dashed link from every station of a wireless
  network to the access point with which it is associated. Links are those of the scene, without a
  wire: the second end comes and goes. A station is known by its node, the number of its device
  and its link; devices are never removed from a node.
\<close>

section \<open>The link of a station\<close>

definition upd_link :: "nat \<Rightarrow> (link \<Rightarrow> link) \<Rightarrow> scene \<Rightarrow> scene" where
  "upd_link k f s = s\<lparr>links := (links s)[k := f (links s ! k)]\<rparr>"

definition remove_link :: "nat \<Rightarrow> nat \<Rightarrow> scene \<Rightarrow> scene \<times> unit result" where
  "remove_link i k s =
     (if k \<in> set (n_links (node_at s i)) then (upd_node i (\<lambda>n. n\<lparr>n_links := remove1 k (n_links n)\<rparr>) s, Inr ())
      else (s, Inl ValueError))"

definition set_ap :: "nat \<Rightarrow> nat option \<Rightarrow> scene \<Rightarrow> scene \<times> unit result" where
  "set_ap k ap s =
     (if map_option NodeEnd ap = l_to (links s ! k) then (s, Inr ())
      else and_then (case l_to (links s ! k) of Some (NodeEnd old) \<Rightarrow> remove_link old k s | _ \<Rightarrow> (s, Inr ()))
        (\<lambda>u s.
          let s = upd_link k (\<lambda>l. l\<lparr>l_to := map_option NodeEnd ap\<rparr>) s;
              s = (case ap of
                  None \<Rightarrow> upd_link k (\<lambda>l. l\<lparr>l_visible := False\<rparr>) s
                | Some i \<Rightarrow> upd_link k (\<lambda>l. l\<lparr>l_visible := True\<rparr>) (add_link_to (NodeEnd i) k s))
          in (update_points k s, Inr ())))"

definition new_wifi_link :: "nat \<Rightarrow> scene \<Rightarrow> scene" where
  "new_wifi_link sta s =
     s\<lparr>links := links s @ [\<lparr>l_wired = False, l_from = Some sta, l_to = None, l_path = None, l_visible = True\<rparr>]\<rparr>"

definition destroy_wifi_link :: "nat \<Rightarrow> scene \<Rightarrow> scene" where
  "destroy_wifi_link k s = upd_link k (\<lambda>l. l\<lparr>l_visible := False, l_from := None, l_to := None\<rparr>) s"

section \<open>The monitor\<close>

record station =
  s_node :: nat
  s_device :: nat
  s_link :: nat

record monitor =
  access_points :: "(string, nat) pydict"
  stations :: "station list"

definition new_monitor :: monitor where
  "new_monitor = \<lparr>access_points = [], stations = []\<rparr>"

definition scan_wifi_device :: "world \<Rightarrow> nat \<Rightarrow> nat \<Rightarrow> monitor \<times> scene \<Rightarrow> monitor \<times> scene" where
  "scan_wifi_device w i j ms =
     (case ms of (m, s) \<Rightarrow>
       (let dev = w_devices w i ! j
        in if d_class dev \<noteq> ''WifiNetDevice'' then (m, s)
           else (case d_mac dev of
               StaMac \<Rightarrow>
                 (m\<lparr>stations := stations m @ [\<lparr>s_node = i, s_device = j, s_link = length (links s)\<rparr>]\<rparr>,
                  fst (set_ap (length (links s)) None (new_wifi_link i s)))
             | ApMac \<Rightarrow> (m\<lparr>access_points := dict_put (d_address dev) i (access_points m)\<rparr>, s)
             | OtherMac \<Rightarrow> (m, s))))"

definition scan_wifi_nodes :: "world \<Rightarrow> monitor \<times> scene \<Rightarrow> monitor \<times> scene" where
  "scan_wifi_nodes w ms =
     (case ms of (m, s) \<Rightarrow>
       (let s = fold (\<lambda>st. destroy_wifi_link (s_link st)) (stations m) s
        in fold (\<lambda>i. fold (scan_wifi_device w i) [0..<length (w_devices w i)]) (nodes s) (new_monitor, s)))"

definition no_bssid :: string where
  "no_bssid = ''00:00:00:00:00:00''"

definition station_device :: "world \<Rightarrow> station \<Rightarrow> device" where
  "station_device w st = w_devices w (s_node st) ! s_device st"

fun wifi_update_loop :: "world \<Rightarrow> (string, nat) pydict \<Rightarrow> station list \<Rightarrow> scene \<Rightarrow> scene \<times> unit result" where
  "wifi_update_loop w aps [] s = (s, Inr ())"
| "wifi_update_loop w aps (st # sts) s =
     (let dev = station_device w st
      in if \<not> d_link_up dev then and_then (set_ap (s_link st) None s) (\<lambda>u. wifi_update_loop w aps sts)
         else if d_bssid dev = no_bssid then and_then (set_ap (s_link st) None s) (\<lambda>u. wifi_update_loop w aps sts)
         else (case dict_get aps (d_bssid dev) of
             None \<Rightarrow> (s, Inl KeyError)
           | Some ap \<Rightarrow> and_then (set_ap (s_link st) (Some ap) s) (\<lambda>u. wifi_update_loop w aps sts)))"

definition wifi_periodic_update :: "world \<Rightarrow> monitor \<Rightarrow> scene \<Rightarrow> scene \<times> unit result" where
  "wifi_periodic_update w m s = wifi_update_loop w (access_points m) (stations m) s"

definition wifi_update_view :: "monitor \<Rightarrow> scene \<Rightarrow> scene" where
  "wifi_update_view m s = fold (\<lambda>st. update_points (s_link st)) (stations m) s"

text \<open>The monitor with the canvas, whatever else happens to the canvas and the simulation meanwhile.\<close>

inductive wifi_reached :: "monitor \<Rightarrow> world \<Rightarrow> scene \<Rightarrow> bool" where
  wifi_registered: "scene_reached (w, s) \<Longrightarrow> wifi_reached new_monitor w s"
| wifi_scanned: "wifi_reached m w s \<Longrightarrow> scan_wifi_nodes w (m, s) = (m', s') \<Longrightarrow> wifi_reached m' w s'"
| wifi_updated: "wifi_reached m w s \<Longrightarrow> wifi_reached m w (fst (wifi_periodic_update w m s))"
| wifi_viewed: "wifi_reached m w s \<Longrightarrow> wifi_reached m w (wifi_update_view m s)"
| wifi_simulated: "wifi_reached m w s \<Longrightarrow> wifi_reached m w' s"
| wifi_operated: "wifi_reached m w s \<Longrightarrow> op_possible s op \<Longrightarrow> run_op op (w, s) = (w', s') \<Longrightarrow> wifi_reached m w' s'"

section \<open>What the operations of the canvas do to links\<close>

text \<open>Links are drawn again if they have two ends, and new links are registered behind the old ones.\<close>

definition path_only :: "link \<Rightarrow> link \<Rightarrow> bool" where
  "path_only l l' \<longleftrightarrow> l' = l \<or> l_to l \<noteq> None \<and> l_path l' \<noteq> None \<and> l' = l\<lparr>l_path := l_path l'\<rparr>"

lemma path_only_refl [simp]: "path_only l l"
  by (simp add: path_only_def)

lemma path_only_trans: "path_only a b \<Longrightarrow> path_only b c \<Longrightarrow> path_only a c"
  by (cases a; cases b; cases c) (auto simp: path_only_def)

lemma path_only_redrawn: "path_only l (redrawn u l)"
  by (cases l) (simp add: path_only_def redrawn_def split: option.split)

definition keeps_links :: "scene \<Rightarrow> scene \<Rightarrow> bool" where
  "keeps_links s t \<longleftrightarrow>
     set (nodes s) \<subseteq> set (nodes t) \<and> length (links s) \<le> length (links t) \<and>
     (\<forall>k < length (links s). path_only (links s ! k) (links t ! k)) \<and>
     (\<forall>i. \<exists>ks. n_links (node_at t i) = n_links (node_at s i) @ ks \<and> (\<forall>k \<in> set ks. length (links s) \<le> k))"

lemma keeps_links_same:
  "set (nodes s) \<subseteq> set (nodes t) \<Longrightarrow> links t = links s \<Longrightarrow> (\<And>i. n_links (node_at t i) = n_links (node_at s i)) \<Longrightarrow>
   keeps_links s t"
  by (simp add: keeps_links_def)

lemma keeps_links_refl [simp]: "keeps_links s s"
  by (rule keeps_links_same) simp_all

lemma keeps_links_trans:
  assumes st: "keeps_links s t" and tu: "keeps_links t u"
  shows "keeps_links s u"
proof -
  have "path_only (links s ! k) (links u ! k)" if "k < length (links s)" for k
    using st tu that by (auto simp: keeps_links_def intro: path_only_trans)
  moreover have "\<exists>ks. n_links (node_at u i) = n_links (node_at s i) @ ks \<and> (\<forall>k \<in> set ks. length (links s) \<le> k)" for i
  proof -
    obtain ks where ks: "n_links (node_at t i) = n_links (node_at s i) @ ks" "\<forall>k \<in> set ks. length (links s) \<le> k"
      using st unfolding keeps_links_def by blast
    obtain js where js: "n_links (node_at u i) = n_links (node_at t i) @ js" "\<forall>k \<in> set js. length (links t) \<le> k"
      using tu unfolding keeps_links_def by blast
    have "length (links s) \<le> length (links t)" using st by (simp add: keeps_links_def)
    with ks js show ?thesis by (intro exI [of _ "ks @ js"]) auto
  qed
  moreover have "set (nodes s) \<subseteq> set (nodes u)" "length (links s) \<le> length (links u)"
    using st tu by (auto simp: keeps_links_def)
  ultimately show ?thesis unfolding keeps_links_def by blast
qed

lemma keeps_links_fold:
  assumes "\<And>x s. keeps_links s (f x s)"
  shows "keeps_links s (fold f xs s)"
proof (induction xs arbitrary: s)
  case (Cons x xs)
  then show ?case using keeps_links_trans [OF assms] by (metis fold_simps(2))
qed simp

lemma keeps_links_redrawn:
  assumes "set (nodes s) \<subseteq> set (nodes t)" and "length (links t) = length (links s)"
    and "\<And>i. n_links (node_at t i) = n_links (node_at s i)"
    and "\<And>k. k < length (links s) \<Longrightarrow> links t ! k = links s ! k \<or> (\<exists>u. links t ! k = redrawn u (links s ! k))"
  shows "keeps_links s t"
proof -
  have "path_only (links s ! k) (links t ! k)" if "k < length (links s)" for k
    using assms(4) [OF that] path_only_redrawn by (metis path_only_refl)
  then show ?thesis using assms(1-3) by (simp add: keeps_links_def)
qed

lemma keeps_links_set_position: "keeps_links s (set_position i p s)"
  by (rule keeps_links_redrawn) (auto simp: node_at_set_position nth_set_position)

lemma keeps_links_set_channel_position: "keeps_links s (set_channel_position c p s)"
  by (rule keeps_links_redrawn) (auto simp: nth_set_channel_position)

lemma keeps_links_update_points: "keeps_links s (update_points k s)"
  by (rule keeps_links_redrawn) (auto simp: nth_update_points)

lemma keeps_links_upd_node:
  "(\<And>n. n_links (f n) = n_links n) \<Longrightarrow> keeps_links s (upd_node i f s)"
  by (rule keeps_links_same) simp_all

lemma keeps_links_appearance: "keeps_links s (update_appearance i s)"
proof -
  have "keeps_links s (upd_node i (show_label \<circ> show_ellipse) s)" by (rule keeps_links_upd_node) simp
  from keeps_links_trans [OF this keeps_links_set_position] this show ?thesis
    by (simp add: update_appearance_def Let_def)
qed

lemma keeps_links_change:
  "(\<And>n. n_links (f n) = n_links n) \<Longrightarrow> keeps_links s (update_appearance i (upd_node i f s))"
  by (rule keeps_links_trans [OF keeps_links_upd_node keeps_links_appearance])

lemma keeps_links_get_node:
  assumes "links_ok s"
  shows "keeps_links s (get_node i s)"
proof (cases "i \<in> set (nodes s)")
  case False
  have "n_links (node_at s i) = []"
  proof (rule ccontr)
    assume "n_links (node_at s i) \<noteq> []"
    then obtain k where "k \<in> set (links_of s (NodeEnd i))"
      by (cases "n_links (node_at s i)") (auto simp: links_of_simps)
    then have "known s (NodeEnd i)" using assms by (auto simp: links_ok_def)
    with False show False by (simp add: known_def)
  qed
  then have "keeps_links s (upd_node i (\<lambda>n. blank_node) (s\<lparr>nodes := nodes s @ [i]\<rparr>))"
    by (intro keeps_links_same) (auto simp: blank_node_def)
  then show ?thesis using False keeps_links_trans [OF _ keeps_links_appearance] by (simp add: get_node_def)
qed (simp add: get_node_def)

lemma keeps_links_create: "keeps_links s (create_link a b s)"
proof -
  have "\<exists>ks. n_links (node_at (create_link a b s) i) = n_links (node_at s i) @ ks \<and> (\<forall>k \<in> set ks. length (links s) \<le> k)" for i
    by (auto simp: create_link_def Let_def node_at_add_link_to)
  then show ?thesis by (auto simp: keeps_links_def) (auto simp: create_link_def Let_def nth_append)
qed

lemma keeps_links_selection: "keeps_links s (fst (select_node r s))"
proof -
  have sel: "keeps_links s (set_selected i b s)" for i b s
    unfolding set_selected_def by (rule keeps_links_change) simp
  have more: "keeps_links s t \<Longrightarrow> keeps_links s (t\<lparr>selected_node := x\<rparr>)" "keeps_links s t \<Longrightarrow> keeps_links s (t\<lparr>interest := y\<rparr>)"
    for s t x y by (simp_all add: keeps_links_def)
  have "keeps_links s (change_selection new s)" for new
    unfolding change_selection_def Let_def
    by (auto split: option.split intro!: more sel intro: keeps_links_trans [OF _ sel])
  then show ?thesis by (simp add: select_node_def split: sum.split)
qed

lemma keeps_links_run_op:
  assumes "links_ok s"
  shows "keeps_links s (snd (run_op op (w, s)))"
proof (cases op)
  case (OpNode i)
  then show ?thesis using keeps_links_get_node [OF assms] by (simp add: run_op_def)
next
  case (OpChannel c)
  then show ?thesis by (auto simp: run_op_def get_channel_def intro!: keeps_links_same)
next
  case (OpSelect r)
  then show ?thesis using keeps_links_selection by (simp add: run_op_def)
next
  case (OpSizeAll d)
  have "keeps_links s (fold (\<lambda>i. set_size i d) (nodes s) s)"
    by (rule keeps_links_fold) (simp add: set_size_def keeps_links_change)
  then show ?thesis using OpSizeAll by (simp add: run_op_def node_size_changed_def)
next
  case (OpIcon hw hh i width height ax ay)
  then show ?thesis by (simp add: run_op_def set_svg_icon_def Let_def keeps_links_change)
next
  case OpUpdatePositions
  have step: "keeps_links t (update_node_position w i t)" for i t
  proof -
    have "keeps_links t (upd_node i (\<lambda>n. n\<lparr>n_has_mobility := b\<rparr>) t)" for b by (rule keeps_links_upd_node) simp
    then show ?thesis using keeps_links_trans [OF _ keeps_links_set_position]
      by (auto simp: update_node_position_def has_mobility_def Let_def keeps_links_set_position split: option.split)
  qed
  show ?thesis using OpUpdatePositions keeps_links_fold [OF step] by (simp add: run_op_def update_node_positions_def)
next
  case (OpDragMotion i p)
  then show ?thesis
    by (auto simp: run_op_def node_drag_motion_def Let_def keeps_links_set_position split: option.split)
next
  case (OpMode m)
  then show ?thesis by (auto simp: run_op_def set_show_transmissions_mode_def intro: keeps_links_same)
next
  case (OpBeginDrag i p)
  then show ?thesis by (auto simp: run_op_def begin_node_drag_def split: option.split intro: keeps_links_same)
next
  case (OpEndDrag i)
  then show ?thesis by (auto simp: run_op_def end_node_drag_def split: option.split intro: keeps_links_same)
next
  case (OpBounds x1 y1 x2 y2)
  then show ?thesis by (auto simp: run_op_def set_bounds_hook_def Let_def intro: keeps_links_same)
qed (simp_all add: run_op_def keeps_links_create keeps_links_change keeps_links_set_position
    keeps_links_set_channel_position set_highlighted_def set_size_def set_label_def set_color_def)

section \<open>A station has one link\<close>

text \<open>
  The link starts at the station and is registered at its access point alone, once; it is seen
  exactly if it has one.
\<close>

definition registered :: "scene \<Rightarrow> nat \<Rightarrow> nat \<Rightarrow> nat" where
  "registered s i k = count (mset (n_links (node_at s i))) k"

definition linked_to :: "scene \<Rightarrow> nat \<Rightarrow> nat option \<Rightarrow> bool" where
  "linked_to s k ap \<longleftrightarrow>
     l_to (links s ! k) = map_option NodeEnd ap \<and> (\<forall>i. registered s i k = (if ap = Some i then 1 else 0)) \<and>
     (l_visible (links s ! k) \<and> l_path (links s ! k) \<noteq> None \<longleftrightarrow> ap \<noteq> None)"

definition station_ok :: "scene \<Rightarrow> station \<Rightarrow> bool" where
  "station_ok s st \<longleftrightarrow>
     s_link st < length (links s) \<and> \<not> l_wired (links s ! s_link st) \<and>
     l_from (links s ! s_link st) = Some (s_node st) \<and> (\<exists>ap. linked_to s (s_link st) ap)"

lemma upd_link_simps [simp]:
  "nodes (upd_link k f s) = nodes s" "channels (upd_link k f s) = channels s"
  "node_at (upd_link k f s) = node_at s" "channel_at (upd_link k f s) = channel_at s"
  "canvas_bounds (upd_link k f s) = canvas_bounds s" "selected_node (upd_link k f s) = selected_node s"
  "show_mode (upd_link k f s) = show_mode s" "interest (upd_link k f s) = interest s"
  "drag (upd_link k f s) = drag s" "motion_handlers (upd_link k f s) = motion_handlers s"
  "length (links (upd_link k f s)) = length (links s)"
  "position_of (upd_link k f s) e = position_of s e"
  by (simp_all add: upd_link_def position_of_def split: endpoint.split)

lemma nth_upd_link:
  "j < length (links s) \<Longrightarrow> links (upd_link k f s) ! j = (if j = k then f (links s ! j) else links s ! j)"
  by (simp add: upd_link_def)

text \<open>The scenes that differ from another one in some links and in where these are registered.\<close>

definition relinked :: "nat set \<Rightarrow> scene \<Rightarrow> scene \<Rightarrow> bool" where
  "relinked K s t \<longleftrightarrow>
     nodes t = nodes s \<and> channels t = channels s \<and> channel_at t = channel_at s \<and>
     canvas_bounds t = canvas_bounds s \<and> selected_node t = selected_node s \<and> show_mode t = show_mode s \<and>
     interest t = interest s \<and> drag t = drag s \<and> motion_handlers t = motion_handlers s \<and>
     length (links t) = length (links s) \<and> (\<forall>j < length (links s). j \<notin> K \<longrightarrow> links t ! j = links s ! j) \<and>
     (\<forall>j < length (links s). l_wired (links t ! j) = l_wired (links s ! j)) \<and>
     (\<forall>i. node_at t i = (node_at s i)\<lparr>n_links := n_links (node_at t i)\<rparr>) \<and>
     (\<forall>i j. j \<notin> K \<longrightarrow> registered t i j = registered s i j)"

lemma relinked_refl [simp]: "relinked K s s"
  by (simp add: relinked_def)

lemma relinked_trans: "relinked K s t \<Longrightarrow> relinked K t u \<Longrightarrow> relinked K s u"
proof -
  assume st: "relinked K s t" and tu: "relinked K t u"
  have "node_at u i = (node_at s i)\<lparr>n_links := n_links (node_at u i)\<rparr>" for i
  proof -
    have "node_at t i = (node_at s i)\<lparr>n_links := n_links (node_at t i)\<rparr>"
      "node_at u i = (node_at t i)\<lparr>n_links := n_links (node_at u i)\<rparr>"
      using st tu unfolding relinked_def by blast+
    then show ?thesis by (cases "node_at u i"; cases "node_at t i"; cases "node_at s i") simp
  qed
  then show ?thesis using st tu unfolding relinked_def by simp
qed

lemma relinked_mono: "relinked K s t \<Longrightarrow> K \<subseteq> L \<Longrightarrow> relinked L s t"
  unfolding relinked_def by (elim conjE, intro conjI; (assumption | blast))

lemma relinked_upd_link:
  "k < length (links s) \<Longrightarrow> (\<And>l. l_wired (f l) = l_wired l) \<Longrightarrow> relinked {k} s (upd_link k f s)"
  by (simp add: relinked_def nth_upd_link registered_def)

lemma relinked_add_link: "relinked {k} s (add_link_to (NodeEnd i) k s)"
  by (auto simp: relinked_def registered_def node_at_add_link_to) (auto simp: add_link_to_def)

lemma relinked_remove: "relinked {k} s (upd_node i (\<lambda>n. n\<lparr>n_links := remove1 k (n_links n)\<rparr>) s)"
  by (auto simp: relinked_def registered_def)

lemma relinked_update_points:
  assumes "k < length (links s)"
  shows "relinked {k} s (update_points k s)"
  using assms by (auto simp: relinked_def registered_def nth_update_points)

lemma registered_simps [simp]:
  "registered (upd_link k f s) i j = registered s i j"
  "registered (update_points k s) i j = registered s i j"
  "registered (add_link_to (NodeEnd i') k s) i j = registered s i j + (if i = i' \<and> j = k then 1 else 0)"
  "registered (upd_node i' (\<lambda>n. n\<lparr>n_links := remove1 k (n_links n)\<rparr>) s) i j =
     registered s i j - (if i = i' \<and> j = k then 1 else 0)"
  by (auto simp: registered_def node_at_add_link_to)

lemma registered_in: "k \<in> set (n_links (node_at s i)) \<longleftrightarrow> registered s i k > 0"
  by (simp add: registered_def count_greater_zero_iff)

lemma set_ap_spec:
  assumes "station_ok s st"
  shows "\<exists>t. set_ap (s_link st) ap s = (t, Inr ()) \<and> relinked {s_link st} s t \<and>
    l_from (links t ! s_link st) = Some (s_node st) \<and> linked_to t (s_link st) ap"
proof -
  let ?k = "s_link st"
  obtain cur where k: "?k < length (links s)" and fr: "l_from (links s ! ?k) = Some (s_node st)"
    and cur: "linked_to s ?k cur"
    using assms by (auto simp: station_ok_def)
  show ?thesis
  proof (cases "ap = cur")
    case True
    then show ?thesis using cur fr by (simp add: set_ap_def linked_to_def)
  next
    case False
    then have diff: "map_option NodeEnd ap \<noteq> l_to (links s ! ?k)"
      using cur by (cases ap; cases cur) (auto simp: linked_to_def)
    define s1 where "s1 = (case cur of None \<Rightarrow> s | Some old \<Rightarrow> upd_node old (\<lambda>n. n\<lparr>n_links := remove1 ?k (n_links n)\<rparr>) s)"
    have rem: "(case l_to (links s ! ?k) of Some (NodeEnd old) \<Rightarrow> remove_link old ?k s | _ \<Rightarrow> (s, Inr ())) = (s1, Inr ())"
    proof (cases cur)
      case None
      then show ?thesis using cur by (simp add: s1_def linked_to_def)
    next
      case (Some old)
      then have "?k \<in> set (n_links (node_at s old))" using cur by (simp add: linked_to_def registered_in)
      then show ?thesis using Some cur by (simp add: s1_def linked_to_def remove_link_def)
    qed
    have s1: "relinked {?k} s s1" "links s1 = links s" "\<And>i. registered s1 i ?k = 0"
      using cur by (auto simp: s1_def relinked_remove linked_to_def split: option.split)
    define s2 where "s2 = upd_link ?k (\<lambda>l. l\<lparr>l_to := map_option NodeEnd ap\<rparr>) s1"
    have s2: "relinked {?k} s s2" "length (links s2) = length (links s)"
      "links s2 ! ?k = (links s ! ?k)\<lparr>l_to := map_option NodeEnd ap\<rparr>" "\<And>i. registered s2 i ?k = 0"
      using s1 k by (auto simp: s2_def nth_upd_link intro!: relinked_trans [OF s1(1)] relinked_upd_link)
    define s3 where "s3 = (case ap of None \<Rightarrow> upd_link ?k (\<lambda>l. l\<lparr>l_visible := False\<rparr>) s2
        | Some i \<Rightarrow> upd_link ?k (\<lambda>l. l\<lparr>l_visible := True\<rparr>) (add_link_to (NodeEnd i) ?k s2))"
    have "relinked {?k} s2 s3"
    proof (cases ap)
      case None
      then show ?thesis using s2(2) k by (simp add: s3_def relinked_upd_link)
    next
      case (Some i)
      have "relinked {?k} (add_link_to (NodeEnd i) ?k s2) s3" using s2(2) k Some
        by (simp add: s3_def relinked_upd_link)
      then show ?thesis by (rule relinked_trans [OF relinked_add_link])
    qed
    then have s3: "relinked {?k} s s3" "length (links s3) = length (links s)"
      "links s3 ! ?k = (links s ! ?k)\<lparr>l_to := map_option NodeEnd ap, l_visible := (ap \<noteq> None)\<rparr>"
      "\<And>i. registered s3 i ?k = (if ap = Some i then 1 else 0)"
      using s2 k relinked_trans [OF s2(1)] by (auto simp: s3_def nth_upd_link split: option.splits)
    have "set_ap ?k ap s = (update_points ?k s3, Inr ())"
      using diff unfolding set_ap_def rem s2_def s3_def by (simp add: Let_def)
    moreover have "relinked {?k} s (update_points ?k s3)"
      using s3 k by (intro relinked_trans [OF s3(1)] relinked_update_points) simp
    moreover have "l_from (links (update_points ?k s3) ! ?k) = Some (s_node st)"
      using s3 k fr by (simp add: nth_update_points)
    moreover have "linked_to (update_points ?k s3) ?k ap"
      using s3 k fr by (cases ap) (auto simp: linked_to_def nth_update_points redrawn_def)
    ultimately show ?thesis by blast
  qed
qed

lemma relinked_links_of:
  assumes "relinked K s t" and "j \<notin> K"
  shows "j \<in> set (links_of t e) \<longleftrightarrow> j \<in> set (links_of s e)"
proof (cases e)
  case (NodeEnd i)
  have "registered t i j = registered s i j" using assms by (simp add: relinked_def)
  then show ?thesis using NodeEnd by (simp add: links_of_simps registered_in)
next
  case (ChannelEnd c)
  then show ?thesis using assms(1) by (simp add: links_of_simps relinked_def)
qed

lemma relinked_places:
  assumes "relinked K s t"
  shows "position_of t e = position_of s e" "known t e = known s e" "redrawn t l = redrawn s l"
proof -
  have "n_center (node_at t i) = n_center (node_at s i)" for i
  proof -
    have "node_at t i = (node_at s i)\<lparr>n_links := n_links (node_at t i)\<rparr>" using assms unfolding relinked_def by blast
    then show ?thesis by (cases "node_at t i"; cases "node_at s i") simp
  qed
  then show pos: "position_of t e = position_of s e" for e
    using assms by (cases e) (simp_all add: position_of_def relinked_def)
  show "known t e = known s e" using assms by (simp add: known_def relinked_def split: endpoint.split)
  show "redrawn t l = redrawn s l" by (rule redrawn_cong) (rule pos)
qed

lemma scene_ok_relinked:
  assumes s: "scene_ok s" and r: "relinked K s t" and K: "\<And>k. k \<in> K \<Longrightarrow> k < length (links s) \<and> \<not> l_wired (links s ! k)"
    and reg: "\<And>k e. k \<in> K \<Longrightarrow> k \<in> set (links_of t e) \<Longrightarrow> known s e"
  shows "scene_ok t"
proof -
  note same = relinked_places [OF r]
  have len: "length (links t) = length (links s)" using r by (simp add: relinked_def)
  have wt: "\<not> l_wired (links t ! k)" if "k \<in> K" for k using r K [OF that] by (simp add: relinked_def)
  have old: "links_ok s" using s by (simp add: scene_ok_def)
  have ok: "link_ok t j" if "j < length (links t)" for j
  proof (cases "j \<in> K")
    case True
    then show ?thesis using wt by (simp add: link_ok_def)
  next
    case False
    then have "links t ! j = links s ! j" using r that len by (simp add: relinked_def)
    moreover have "link_ok s j" using old that len by (simp add: links_ok_def)
    ultimately show ?thesis by (simp add: link_ok_def same relinked_links_of [OF r False])
  qed
  have "j < length (links t) \<and> known t e" if "j \<in> set (links_of t e)" for j e
  proof (cases "j \<in> K")
    case True
    then show ?thesis using that reg K len by (simp add: same)
  next
    case False
    then have "j \<in> set (links_of s e)" using that relinked_links_of [OF r] by simp
    then show ?thesis using old len by (auto simp: links_ok_def same)
  qed
  with ok have "links_ok t" by (simp add: links_ok_def)
  moreover have shown: "node_shown (node_at t i) = node_shown (node_at s i)" "n_selected (node_at t i) = n_selected (node_at s i)" for i
  proof -
    have eq: "node_at t i = (node_at s i)\<lparr>n_links := n_links (node_at t i)\<rparr>" using r unfolding relinked_def by blast
    show "node_shown (node_at t i) = node_shown (node_at s i)" by (subst eq) simp
    show "n_selected (node_at t i) = n_selected (node_at s i)" by (subst eq) simp
  qed
  ultimately show ?thesis using s r by (simp add: scene_ok_def selection_ok_def relinked_def)
qed

lemma relinked_linked_to:
  assumes "relinked K s t" and "j \<notin> K" and "j < length (links s)"
  shows "linked_to t j ap = linked_to s j ap"
  using assms by (simp add: relinked_def linked_to_def)

lemma relinked_station:
  assumes "relinked K s t" and "s_link st \<notin> K" and "station_ok s st"
  shows "station_ok t st"
  using assms relinked_linked_to [OF assms(1,2)] by (auto simp: station_ok_def relinked_def)

section \<open>The update of the associations\<close>

text \<open>Where a station belongs, as far as the monitor knows the access points.\<close>

definition association :: "(string, nat) pydict \<Rightarrow> world \<Rightarrow> station \<Rightarrow> nat option result" where
  "association aps w st =
     (let dev = station_device w st
      in if \<not> d_link_up dev \<or> d_bssid dev = no_bssid then Inr None
         else (case dict_get aps (d_bssid dev) of None \<Rightarrow> Inl KeyError | Some ap \<Rightarrow> Inr (Some ap)))"

definition aps_known :: "(string, nat) pydict \<Rightarrow> scene \<Rightarrow> bool" where
  "aps_known aps s \<longleftrightarrow> (\<forall>b ap. dict_get aps b = Some ap \<longrightarrow> ap \<in> set (nodes s))"

definition stations_ok :: "station list \<Rightarrow> scene \<Rightarrow> bool" where
  "stations_ok sts s \<longleftrightarrow> distinct (map s_link sts) \<and> (\<forall>st \<in> set sts. station_ok s st)"

lemma update_loop_Cons:
  "wifi_update_loop w aps (st # sts) s =
     (case association aps w st of
        Inl e \<Rightarrow> (s, Inl e)
      | Inr ap \<Rightarrow> and_then (set_ap (s_link st) ap s) (\<lambda>u. wifi_update_loop w aps sts))"
  by (simp add: association_def Let_def split: option.split)

text \<open>
  The loop links every station as far as the first one with an unknown access point, where it raises.
\<close>

fun linked_stations :: "(string, nat) pydict \<Rightarrow> world \<Rightarrow> station list \<Rightarrow> (station \<times> nat option) list" where
  "linked_stations aps w [] = []"
| "linked_stations aps w (st # sts) =
     (case association aps w st of Inl e \<Rightarrow> [] | Inr ap \<Rightarrow> (st, ap) # linked_stations aps w sts)"

lemma linked_stations_subset: "(st, ap) \<in> set (linked_stations aps w sts) \<Longrightarrow> st \<in> set sts"
  by (induction sts) (auto split: sum.splits)

lemma scene_ok_set_ap:
  assumes s: "scene_ok s" and st: "station_ok s st" and r: "relinked {s_link st} s t"
    and ap: "linked_to t (s_link st) ap" "\<And>i. ap = Some i \<Longrightarrow> i \<in> set (nodes s)"
  shows "scene_ok t"
proof (rule scene_ok_relinked [OF s r])
  show "k < length (links s) \<and> \<not> l_wired (links s ! k)" if "k \<in> {s_link st}" for k
    using st that by (simp add: station_ok_def)
  fix k e
  assume "k \<in> {s_link st}" "k \<in> set (links_of t e)"
  then have e: "s_link st \<in> set (links_of t e)" by simp
  show "known s e"
  proof (cases e)
    case (NodeEnd i)
    then have "registered t i (s_link st) > 0" using e by (simp add: links_of_simps registered_in)
    then have "ap = Some i" using ap(1) by (simp add: linked_to_def split: if_splits)
    then show ?thesis using ap(2) NodeEnd by (simp add: known_def)
  next
    case (ChannelEnd c)
    then have "s_link st \<in> set (links_of s e)" using e r by (simp add: links_of_simps relinked_def)
    then show ?thesis using s by (auto simp: scene_ok_def links_ok_def)
  qed
qed

lemma wifi_update_loop_spec:
  assumes "scene_ok s" and "stations_ok sts s" and "aps_known aps s"
  shows "\<exists>t r. wifi_update_loop w aps sts s = (t, r) \<and> scene_ok t \<and> stations_ok sts t \<and>
    relinked (s_link ` set (map fst (linked_stations aps w sts))) s t \<and>
    (\<forall>(st, ap) \<in> set (linked_stations aps w sts). linked_to t (s_link st) ap) \<and>
    r = (if length (linked_stations aps w sts) = length sts then Inr () else Inl KeyError)"
  using assms
proof (induction sts arbitrary: s)
  case Nil
  then show ?case by simp
next
  case (Cons st sts)
  show ?case
  proof (cases "association aps w st")
    case (Inl e)
    then have "e = KeyError" by (auto simp: association_def Let_def split: if_splits option.splits)
    then show ?thesis using Cons.prems Inl by (simp add: update_loop_Cons del: wifi_update_loop.simps)
  next
    case (Inr ap)
    let ?K = "s_link ` set (map fst (linked_stations aps w sts))"
    have st: "station_ok s st" and new: "s_link st \<notin> s_link ` set sts" using Cons.prems(2) by (simp_all add: stations_ok_def)
    have sub: "?K \<subseteq> s_link ` set sts" using linked_stations_subset by fastforce
    obtain u where u: "set_ap (s_link st) ap s = (u, Inr ())" "relinked {s_link st} s u"
      "l_from (links u ! s_link st) = Some (s_node st)" "linked_to u (s_link st) ap"
      using set_ap_spec [OF st] by blast
    have ap: "i \<in> set (nodes s)" if "ap = Some i" for i
      using Inr that Cons.prems(3) by (auto simp: association_def aps_known_def Let_def split: if_splits option.splits)
    have others: "stations_ok sts u"
      unfolding stations_ok_def
    proof (intro conjI ballI)
      show "distinct (map s_link sts)" using Cons.prems(2) by (simp add: stations_ok_def)
      fix st'
      assume st': "st' \<in> set sts"
      then have "s_link st' \<notin> {s_link st}" using new by (metis imageI singletonD)
      moreover have "station_ok s st'" using Cons.prems(2) st' by (simp add: stations_ok_def)
      ultimately show "station_ok u st'" using relinked_station [OF u(2)] by blast
    qed
    have own: "station_ok u st" using st u by (auto simp: station_ok_def relinked_def)
    have "scene_ok u" using scene_ok_set_ap [OF Cons.prems(1) st u(2,4)] ap by blast
    moreover have "aps_known aps u" using Cons.prems(3) u(2) by (simp add: aps_known_def relinked_def)
    ultimately obtain t r where t: "wifi_update_loop w aps sts u = (t, r)" "scene_ok t" "stations_ok sts t"
      "relinked ?K u t" "\<forall>(st, ap) \<in> set (linked_stations aps w sts). linked_to t (s_link st) ap"
      "r = (if length (linked_stations aps w sts) = length sts then Inr () else Inl KeyError)"
      using Cons.IH [OF _ others] by blast
    have far: "s_link st \<notin> ?K" using new sub by blast
    have "relinked (insert (s_link st) ?K) s t"
      by (rule relinked_trans [OF relinked_mono [OF u(2)] relinked_mono [OF t(4)]]) auto
    moreover have "station_ok t st" by (rule relinked_station [OF t(4) far own])
    then have "stations_ok (st # sts) t" using t(3) new by (simp add: stations_ok_def)
    moreover have "linked_to t (s_link st) ap"
      using relinked_linked_to [OF t(4) far] u(4) own by (simp add: station_ok_def)
    ultimately show ?thesis using t u(1) Inr by (simp add: update_loop_Cons del: wifi_update_loop.simps)
  qed
qed

section \<open>Everything that can happen\<close>

definition wifi_inv :: "monitor \<Rightarrow> scene \<Rightarrow> bool" where
  "wifi_inv m s \<longleftrightarrow> scene_ok s \<and> stations_ok (stations m) s \<and> aps_known (access_points m) s"

lemma linked_to_keeps:
  assumes "keeps_links s t" and "k < length (links s)" and "linked_to s k ap"
  shows "linked_to t k ap"
proof -
  have "registered t i k = registered s i k" for i
  proof -
    obtain ks where "n_links (node_at t i) = n_links (node_at s i) @ ks" "\<forall>k \<in> set ks. length (links s) \<le> k"
      using assms(1) unfolding keeps_links_def by blast
    moreover from this have "k \<notin> set ks" using assms(2) by auto
    then have "count (mset ks) k = 0" by (simp add: count_eq_zero_iff)
    ultimately show ?thesis by (simp add: registered_def)
  qed
  moreover have po: "path_only (links s ! k) (links t ! k)" using assms(1,2) by (simp add: keeps_links_def)
  then have "l_to (links t ! k) = l_to (links s ! k)" "l_visible (links t ! k) = l_visible (links s ! k)"
    by (cases "links s ! k"; cases "links t ! k"; auto simp: path_only_def)+
  moreover have "links t ! k = links s ! k" if "ap = None" using po assms(3) that by (auto simp: path_only_def linked_to_def)
  moreover have "l_path (links t ! k) \<noteq> None" if "l_path (links s ! k) \<noteq> None" using po that by (auto simp: path_only_def)
  ultimately show ?thesis using assms(3) by (cases ap) (auto simp: linked_to_def)
qed

lemma stations_ok_keeps:
  assumes "keeps_links s t" and "stations_ok sts s"
  shows "stations_ok sts t"
proof -
  have "station_ok t st" if "st \<in> set sts" for st
  proof -
    have st: "station_ok s st" using assms(2) that by (simp add: stations_ok_def)
    then have k: "s_link st < length (links s)" by (simp add: station_ok_def)
    have "path_only (links s ! s_link st) (links t ! s_link st)" "s_link st < length (links t)"
      using assms(1) k by (simp_all add: keeps_links_def)
    moreover from this have "l_from (links t ! s_link st) = l_from (links s ! s_link st)"
      "l_wired (links t ! s_link st) = l_wired (links s ! s_link st)"
      by (cases "links s ! s_link st"; cases "links t ! s_link st"; auto simp: path_only_def)+
    ultimately show ?thesis using st linked_to_keeps [OF assms(1) k] by (auto simp: station_ok_def)
  qed
  then show ?thesis using assms(2) by (simp add: stations_ok_def)
qed

lemma wifi_inv_keeps:
  assumes "keeps_links s t" and "scene_ok t" and "wifi_inv m s"
  shows "wifi_inv m t"
proof -
  have "set (nodes s) \<subseteq> set (nodes t)" using assms(1) by (simp add: keeps_links_def)
  then show ?thesis using assms stations_ok_keeps by (auto simp: wifi_inv_def aps_known_def)
qed

text \<open>Changes of links without a wire that are registered where they were.\<close>

lemma scene_ok_unwired:
  assumes "scene_ok s" and "relinked {k} s t" and "k < length (links s)" and "\<not> l_wired (links s ! k)"
    and "\<And>i. node_at t i = node_at s i"
  shows "scene_ok t"
proof (rule scene_ok_relinked [OF assms(1,2)])
  fix j e
  assume "j \<in> {k}" "j \<in> set (links_of t e)"
  then have "j \<in> set (links_of s e)" using assms(2,5) by (cases e) (simp_all add: links_of_simps relinked_def)
  then show "known s e" using assms(1) by (auto simp: scene_ok_def links_ok_def)
qed (use assms(3,4) in auto)

lemma unwired_fold:
  assumes step: "\<And>k s. k < length (links s) \<Longrightarrow> relinked {k} s (f k s) \<and> node_at (f k s) = node_at s"
    and "scene_ok s" and "\<forall>k \<in> set ks. k < length (links s) \<and> \<not> l_wired (links s ! k)"
  shows "scene_ok (fold f ks s) \<and> nodes (fold f ks s) = nodes s"
  using assms(2,3)
proof (induction ks arbitrary: s)
  case (Cons k ks)
  have r: "relinked {k} s (f k s)" "node_at (f k s) = node_at s" using step Cons.prems(2) by simp_all
  have "scene_ok (f k s)" using scene_ok_unwired [OF Cons.prems(1) r(1)] Cons.prems(2) r(2) by simp
  moreover have "\<forall>j \<in> set ks. j < length (links (f k s)) \<and> \<not> l_wired (links (f k s) ! j)"
    using r(1) Cons.prems(2) by (simp add: relinked_def)
  moreover have "nodes (f k s) = nodes s" using r(1) by (simp add: relinked_def)
  ultimately show ?case using Cons.IH [of "f k s"] by simp
qed simp

lemma stations_unwired:
  "stations_ok sts s \<Longrightarrow> \<forall>k \<in> set (map s_link sts). k < length (links s) \<and> \<not> l_wired (links s ! k)"
  by (auto simp: stations_ok_def station_ok_def)

lemma wifi_inv_view:
  assumes "wifi_inv m s"
  shows "wifi_inv m (wifi_update_view m s)"
proof -
  have eq: "wifi_update_view m s = fold update_points (map s_link (stations m)) s"
    by (simp add: wifi_update_view_def fold_map comp_def)
  show ?thesis
  proof (rule wifi_inv_keeps [OF _ _ assms])
    show "keeps_links s (wifi_update_view m s)" unfolding eq by (rule keeps_links_fold) (rule keeps_links_update_points)
    have "stations_ok (stations m) s" "scene_ok s" using assms by (simp_all add: wifi_inv_def)
    with unwired_fold [of update_points s "map s_link (stations m)"] stations_unwired relinked_update_points
    show "scene_ok (wifi_update_view m s)" unfolding eq by (metis update_points_simps(3))
  qed
qed

lemma new_wifi_link_simps [simp]:
  "nodes (new_wifi_link i s) = nodes s" "node_at (new_wifi_link i s) = node_at s"
  "length (links (new_wifi_link i s)) = length (links s) + 1"
  "fst (set_ap (length (links s)) None (new_wifi_link i s)) = new_wifi_link i s"
  by (simp_all add: new_wifi_link_def set_ap_def)

lemma keeps_links_new: "keeps_links s (new_wifi_link i s)"
  by (auto simp: keeps_links_def new_wifi_link_def nth_append)

lemma scene_ok_new:
  assumes "scene_ok s"
  shows "scene_ok (new_wifi_link i s)"
proof -
  let ?t = "new_wifi_link i s"
  have same: "links_of ?t e = links_of s e" "known ?t e = known s e" "position_of ?t e = position_of s e" for e
    by (cases e; simp add: new_wifi_link_def links_of_simps known_def position_of_def)+
  have old: "links_ok s" using assms by (simp add: scene_ok_def)
  have "link_ok ?t k" if "k < length (links ?t)" for k
  proof (cases "k < length (links s)")
    case True
    then have "links ?t ! k = links s ! k" by (simp add: new_wifi_link_def nth_append)
    moreover have "link_ok s k" using old True by (simp add: links_ok_def)
    ultimately show ?thesis by (simp add: link_ok_def same)
  next
    case False
    then have "k = length (links s)" using that by simp
    then show ?thesis by (simp add: link_ok_def new_wifi_link_def)
  qed
  moreover have "k < length (links ?t) \<and> known ?t e" if "k \<in> set (links_of ?t e)" for k e
    using that old by (simp add: links_ok_def same) (meson less_SucI)
  ultimately have "links_ok ?t" unfolding links_ok_def by blast
  then show ?thesis using assms by (simp add: scene_ok_def selection_ok_def new_wifi_link_def)
qed

lemma station_ok_new:
  assumes "scene_ok s"
  shows "station_ok (new_wifi_link i s) \<lparr>s_node = i, s_device = j, s_link = length (links s)\<rparr>"
proof -
  have "length (links s) \<notin> set (links_of s (NodeEnd i'))" for i'
    using assms by (auto simp: scene_ok_def links_ok_def)
  then have "registered s i' (length (links s)) = 0" for i'
    using registered_in [of "length (links s)" s i'] by (auto simp: links_of_simps)
  then have "registered (new_wifi_link i s) i' (length (links s)) = 0" for i' by (simp add: registered_def)
  then have "linked_to (new_wifi_link i s) (length (links s)) None"
    by (simp add: linked_to_def) (simp add: new_wifi_link_def)
  then show ?thesis by (auto simp: station_ok_def) (simp_all add: new_wifi_link_def)
qed

definition is_station :: "device \<Rightarrow> bool" where
  "is_station dev \<longleftrightarrow> d_class dev = ''WifiNetDevice'' \<and> d_mac dev = StaMac"

definition is_access_point :: "device \<Rightarrow> bool" where
  "is_access_point dev \<longleftrightarrow> d_class dev = ''WifiNetDevice'' \<and> d_mac dev = ApMac"

definition station_places :: "station list \<Rightarrow> (nat \<times> nat) list" where
  "station_places sts = map (\<lambda>st. (s_node st, s_device st)) sts"

lemma scan_wifi_device_step:
  assumes inv: "wifi_inv m s" and i: "i \<in> set (nodes s)" and step: "scan_wifi_device w i j (m, s) = (m', s')"
  shows "wifi_inv m' s' \<and> nodes s' = nodes s \<and>
    station_places (stations m') = station_places (stations m) @ filter (\<lambda>(i, j). is_station (w_devices w i ! j)) [(i, j)] \<and>
    (\<forall>b. dict_get (access_points m') b =
       (if is_access_point (w_devices w i ! j) \<and> d_address (w_devices w i ! j) = b then Some i
        else dict_get (access_points m) b))"
proof (cases "is_station (w_devices w i ! j)")
  case True
  let ?st = "\<lparr>s_node = i, s_device = j, s_link = length (links s)\<rparr>"
  have m': "m' = m\<lparr>stations := stations m @ [?st]\<rparr>" and s': "s' = new_wifi_link i s"
    using True step by (auto simp: scan_wifi_device_def is_station_def Let_def)
  have s: "scene_ok s" using inv by (simp add: wifi_inv_def)
  have "wifi_inv m s'" using wifi_inv_keeps [OF keeps_links_new scene_ok_new [OF s] inv] s' by simp
  moreover have "length (links s) \<notin> s_link ` set (stations m)"
    using inv by (auto simp: wifi_inv_def stations_ok_def station_ok_def)
  ultimately have "wifi_inv m' s'" using station_ok_new [OF s] m' s'
    by (auto simp: wifi_inv_def stations_ok_def)
  then show ?thesis using m' s' True by (auto simp: station_places_def is_station_def is_access_point_def)
next
  case False
  then show ?thesis using step inv i
    by (auto simp: scan_wifi_device_def Let_def is_station_def is_access_point_def wifi_inv_def aps_known_def dict_simps
        split: if_splits mac.splits)
qed

lemma scan_wifi_devices:
  assumes "wifi_inv m s" and "i \<in> set (nodes s)" and "fold (scan_wifi_device w i) js (m, s) = (m', s')"
  shows "wifi_inv m' s' \<and> nodes s' = nodes s \<and>
    station_places (stations m') =
      station_places (stations m) @ filter (\<lambda>(i, j). is_station (w_devices w i ! j)) (map (Pair i) js) \<and>
    (\<forall>b. dict_get (access_points m') b =
       (if \<exists>j \<in> set js. is_access_point (w_devices w i ! j) \<and> d_address (w_devices w i ! j) = b then Some i
        else dict_get (access_points m) b))"
  using assms
proof (induction js arbitrary: m s)
  case Nil
  then show ?case by simp
next
  case (Cons j js)
  obtain m1 s1 where one: "scan_wifi_device w i j (m, s) = (m1, s1)" by (cases "scan_wifi_device w i j (m, s)")
  note step = scan_wifi_device_step [OF Cons.prems(1,2) one]
  have "fold (scan_wifi_device w i) js (m1, s1) = (m', s')" using Cons.prems(3) one by simp
  from Cons.IH [OF _ _ this] step Cons.prems(2) show ?case by auto
qed

definition device_places :: "world \<Rightarrow> nat list \<Rightarrow> (nat \<times> nat) list" where
  "device_places w is = concat (map (\<lambda>i. map (Pair i) [0..<length (w_devices w i)]) is)"

lemma scan_wifi_all:
  assumes "wifi_inv m s" and "set is \<subseteq> set (nodes s)"
    and "fold (\<lambda>i. fold (scan_wifi_device w i) [0..<length (w_devices w i)]) is (m, s) = (m', s')"
  shows "wifi_inv m' s' \<and> nodes s' = nodes s \<and>
    station_places (stations m') =
      station_places (stations m) @ filter (\<lambda>(i, j). is_station (w_devices w i ! j)) (device_places w is) \<and>
    (\<forall>b i. dict_get (access_points m') b = Some i \<longrightarrow> dict_get (access_points m) b = Some i \<or>
       i \<in> set is \<and> (\<exists>dev \<in> set (w_devices w i). is_access_point dev \<and> d_address dev = b)) \<and>
    (\<forall>i \<in> set is. \<forall>dev \<in> set (w_devices w i). is_access_point dev \<longrightarrow> dict_get (access_points m') (d_address dev) \<noteq> None) \<and>
    (\<forall>b. dict_get (access_points m) b \<noteq> None \<longrightarrow> dict_get (access_points m') b \<noteq> None)"
  using assms
proof (induction "is" arbitrary: m s)
  case Nil
  then show ?case by (simp add: device_places_def)
next
  case (Cons i "is")
  let ?js = "[0..<length (w_devices w i)]"
  obtain m1 s1 where one: "fold (scan_wifi_device w i) ?js (m, s) = (m1, s1)"
    by (cases "fold (scan_wifi_device w i) ?js (m, s)")
  have "i \<in> set (nodes s)" using Cons.prems(2) by simp
  note step = scan_wifi_devices [OF Cons.prems(1) this one]
  have "fold (\<lambda>i. fold (scan_wifi_device w i) [0..<length (w_devices w i)]) is (m1, s1) = (m', s')"
    using Cons.prems(3) one by simp
  from Cons.IH [OF _ _ this] step Cons.prems(2)
  have ih: "wifi_inv m' s'" "nodes s' = nodes s"
    "station_places (stations m') =
      station_places (stations m1) @ filter (\<lambda>(i, j). is_station (w_devices w i ! j)) (device_places w is)"
    "\<And>b i. dict_get (access_points m') b = Some i \<Longrightarrow> dict_get (access_points m1) b = Some i \<or>
       i \<in> set is \<and> (\<exists>dev \<in> set (w_devices w i). is_access_point dev \<and> d_address dev = b)"
    "\<And>i dev. i \<in> set is \<Longrightarrow> dev \<in> set (w_devices w i) \<Longrightarrow> is_access_point dev \<Longrightarrow> dict_get (access_points m') (d_address dev) \<noteq> None"
    "\<And>b. dict_get (access_points m1) b \<noteq> None \<Longrightarrow> dict_get (access_points m') b \<noteq> None"
    by simp_all
  have own: "(\<exists>j \<in> set ?js. P (w_devices w i ! j)) \<longleftrightarrow> (\<exists>dev \<in> set (w_devices w i). P dev)" for P
    by (force simp: in_set_conv_nth)
  have get: "dict_get (access_points m1) b =
      (if \<exists>dev \<in> set (w_devices w i). is_access_point dev \<and> d_address dev = b then Some i
       else dict_get (access_points m) b)" for b
    using step own [of "\<lambda>dev. is_access_point dev \<and> d_address dev = b"] by simp
  have "station_places (stations m') =
      station_places (stations m) @ filter (\<lambda>(i, j). is_station (w_devices w i ! j)) (device_places w (i # is))"
    using ih(3) step by (simp add: device_places_def)
  moreover have "dict_get (access_points m') (d_address dev) \<noteq> None"
    if "i' \<in> set (i # is)" "dev \<in> set (w_devices w i')" "is_access_point dev" for i' dev
  proof (cases "i' \<in> set is")
    case False
    then have "dict_get (access_points m1) (d_address dev) \<noteq> None" using that get by auto
    then show ?thesis by (rule ih(6))
  qed (use that ih(5) in blast)
  moreover have "dict_get (access_points m) b = Some i' \<or>
      i' \<in> set (i # is) \<and> (\<exists>dev \<in> set (w_devices w i'). is_access_point dev \<and> d_address dev = b)"
    if "dict_get (access_points m') b = Some i'" for b i'
    using ih(4) [OF that] get [of b] by (auto split: if_splits)
  moreover have "dict_get (access_points m') b \<noteq> None" if "dict_get (access_points m) b \<noteq> None" for b
    using ih(6) [of b] that get [of b] by (simp split: if_splits)
  ultimately show ?case using ih(1,2) by blast
qed

lemma scan_wifi_spec:
  assumes inv: "wifi_inv m s" and scan: "scan_wifi_nodes w (m, s) = (m', s')"
  shows "wifi_inv m' s' \<and> nodes s' = nodes s \<and>
    station_places (stations m') = filter (\<lambda>(i, j). is_station (w_devices w i ! j)) (device_places w (nodes s)) \<and>
    (\<forall>b i. dict_get (access_points m') b = Some i \<longrightarrow>
       i \<in> set (nodes s) \<and> (\<exists>dev \<in> set (w_devices w i). is_access_point dev \<and> d_address dev = b)) \<and>
    (\<forall>i \<in> set (nodes s). \<forall>dev \<in> set (w_devices w i). is_access_point dev \<longrightarrow>
       dict_get (access_points m') (d_address dev) \<noteq> None)"
proof -
  let ?d = "fold (\<lambda>st. destroy_wifi_link (s_link st)) (stations m) s"
  have eq: "?d = fold destroy_wifi_link (map s_link (stations m)) s" by (simp add: fold_map comp_def)
  have "\<forall>k \<in> set (map s_link (stations m)). k < length (links s) \<and> \<not> l_wired (links s ! k)"
    using inv stations_unwired [of "stations m" s] by (simp add: wifi_inv_def)
  then have d: "scene_ok ?d \<and> nodes ?d = nodes s"
    unfolding eq using inv
    by (intro unwired_fold) (auto simp: wifi_inv_def destroy_wifi_link_def relinked_upd_link)
  then have "wifi_inv new_monitor ?d"
    by (simp add: wifi_inv_def new_monitor_def stations_ok_def aps_known_def)
  moreover have "fold (\<lambda>i. fold (scan_wifi_device w i) [0..<length (w_devices w i)]) (nodes s) (new_monitor, ?d) = (m', s')"
    using scan d by (simp add: scan_wifi_nodes_def Let_def)
  ultimately show ?thesis
    using scan_wifi_all [of new_monitor ?d "nodes s" w m' s'] d
    by (simp add: new_monitor_def station_places_def)
qed

lemma wifi_inv_reached: "wifi_reached m w s \<Longrightarrow> wifi_inv m s"
proof (induction rule: wifi_reached.induct)
  case (wifi_registered w s)
  then show ?case using scene_ok_reached [of "(w, s)"]
    by (simp add: wifi_inv_def new_monitor_def stations_ok_def aps_known_def)
next
  case (wifi_scanned m w s m' s')
  then show ?case using scan_wifi_spec by blast
next
  case (wifi_updated m w s)
  let ?K = "s_link ` set (map fst (linked_stations (access_points m) w (stations m)))"
  have "scene_ok s" "stations_ok (stations m) s" "aps_known (access_points m) s"
    using wifi_updated.IH by (simp_all add: wifi_inv_def)
  from wifi_update_loop_spec [OF this, of w] obtain t r where
    "wifi_periodic_update w m s = (t, r)" "scene_ok t" "stations_ok (stations m) t" "relinked ?K s t"
    unfolding wifi_periodic_update_def by blast
  then show ?case using \<open>aps_known (access_points m) s\<close> by (simp add: wifi_inv_def aps_known_def relinked_def)
next
  case (wifi_viewed m w s)
  then show ?case by (simp add: wifi_inv_view)
next
  case (wifi_operated m w s op w' s')
  have s: "scene_ok s" using wifi_operated.IH by (simp add: wifi_inv_def)
  have "s' = snd (run_op op (w, s))" using wifi_operated by simp
  then show ?case using wifi_inv_keeps [OF _ _ wifi_operated.IH] s keeps_links_run_op scene_ok_run_op wifi_operated(2)
    by (simp add: scene_ok_def)
qed

text \<open>What \<open>update_view\<close> draws.\<close>

definition drawn :: "scene \<Rightarrow> nat \<Rightarrow> bool" where
  "drawn s k \<longleftrightarrow>
     (\<forall>a b. l_from (links s ! k) = Some a \<and> l_to (links s ! k) = Some b \<longrightarrow>
        l_path (links s ! k) = Some (position_of s (NodeEnd a), position_of s b))"

lemma view_draws:
  assumes "stations_ok (stations m) s" and "st \<in> set (stations m)"
  shows "drawn (wifi_update_view m s) (s_link st)"
proof -
  have eq: "wifi_update_view m s = fold update_points (map s_link (stations m)) s"
    by (simp add: wifi_update_view_def fold_map comp_def)
  have "s_link st < length (links s)" using assms by (simp add: stations_ok_def station_ok_def)
  moreover have "s_link st \<in> set (map s_link (stations m))" using assms(2) by simp
  ultimately have "links (wifi_update_view m s) ! s_link st = redrawn s (links s ! s_link st)"
    unfolding eq using nth_fold_update_points by simp
  moreover have "position_of (wifi_update_view m s) e = position_of s e" for e unfolding eq by simp
  ultimately show ?thesis by (auto simp: drawn_def redrawn_def split: option.splits)
qed

text \<open>C29: However the canvas and the simulation have changed: an update of the associations links each
  station to the access point with the BSSID of its network, or hides its link if it is down or has no network,
  registers the link there and nowhere else, and leaves all other links alone; at the first station with an unknown
  BSSID it raises KeyError, and the stations behind it keep their links. An update of the view draws all links between
  the current positions. A new scan finds exactly the stations of the nodes on the canvas.\<close>

theorem wifi_links_correct:
  assumes "wifi_reached m w s"
  shows "(\<exists>t r. wifi_periodic_update w m s = (t, r) \<and>
      (\<forall>(st, ap) \<in> set (linked_stations (access_points m) w (stations m)). linked_to t (s_link st) ap) \<and>
      (\<forall>k < length (links s). k \<notin> s_link ` set (map fst (linked_stations (access_points m) w (stations m))) \<longrightarrow>
         links t ! k = links s ! k) \<and>
      r = (if length (linked_stations (access_points m) w (stations m)) = length (stations m) then Inr ()
           else Inl KeyError)) \<and>
    (\<forall>st \<in> set (stations m). drawn (wifi_update_view m s) (s_link st)) \<and>
    station_places (stations (fst (scan_wifi_nodes w (m, s)))) =
      filter (\<lambda>(i, j). is_station (w_devices w i ! j)) (device_places w (nodes s))"
proof (intro conjI)
  have inv: "scene_ok s" "stations_ok (stations m) s" "aps_known (access_points m) s"
    using wifi_inv_reached [OF assms] by (simp_all add: wifi_inv_def)
  show "\<exists>t r. wifi_periodic_update w m s = (t, r) \<and>
      (\<forall>(st, ap) \<in> set (linked_stations (access_points m) w (stations m)). linked_to t (s_link st) ap) \<and>
      (\<forall>k < length (links s). k \<notin> s_link ` set (map fst (linked_stations (access_points m) w (stations m))) \<longrightarrow>
         links t ! k = links s ! k) \<and>
      r = (if length (linked_stations (access_points m) w (stations m)) = length (stations m) then Inr ()
           else Inl KeyError)"
    using wifi_update_loop_spec [OF inv, of w] unfolding wifi_periodic_update_def relinked_def by blast
  show "\<forall>st \<in> set (stations m). drawn (wifi_update_view m s) (s_link st)" using view_draws inv(2) by blast
  obtain m' s' where "scan_wifi_nodes w (m, s) = (m', s')" by (cases "scan_wifi_nodes w (m, s)")
  then show "station_places (stations (fst (scan_wifi_nodes w (m, s)))) =
      filter (\<lambda>(i, j). is_station (w_devices w i ! j)) (device_places w (nodes s))"
    using scan_wifi_spec wifi_inv_reached [OF assms] by auto
qed

text \<open>A network with an access point, one station in it, and one in a network that is not shown.\<close>

definition wifi_device :: "mac \<Rightarrow> string \<Rightarrow> device" where
  "wifi_device mac bssid =
     \<lparr>d_class = ''WifiNetDevice'', d_channel = None, d_mac = mac, d_address = bssid, d_bssid = bssid, d_link_up = True\<rparr>"

definition wifi_world :: world where
  "wifi_world =
     \<lparr>w_now = 0, w_nodes = 3, w_mobility = (\<lambda>i. None),
      w_devices = (\<lambda>i. [if i = 0 then wifi_device ApMac ''a'' else if i = 1 then wifi_device StaMac ''a''
         else wifi_device StaMac ''b'']),
      w_channel = (\<lambda>c. []), w_tx = [], w_drops = [], w_pauses = []\<rparr>"

definition wifi_scene :: scene where
  "wifi_scene = snd (fold run_op [OpNode 0, OpNode 1, OpNode 2] (wifi_world, empty_scene wifi_world))"

definition wifi_monitor :: monitor where
  "wifi_monitor = fst (scan_wifi_nodes wifi_world (new_monitor, wifi_scene))"

lemma wifi_demo_reached:
  "wifi_reached wifi_monitor wifi_world (snd (scan_wifi_nodes wifi_world (new_monitor, wifi_scene)))"
proof -
  have "scene_reached (fold run_op [OpNode 0, OpNode 1, OpNode 2] (wifi_world, empty_scene wifi_world))"
    by (rule reached_ops [OF started]) (simp add: op_possible_def)
  moreover have "fst (fold run_op [OpNode 0, OpNode 1, OpNode 2] (wifi_world, empty_scene wifi_world)) = wifi_world"
    by (simp add: run_op_def)
  ultimately have "scene_reached (wifi_world, wifi_scene)" unfolding wifi_scene_def by (metis prod.collapse)
  then have "wifi_reached new_monitor wifi_world wifi_scene" by (rule wifi_registered)
  then show ?thesis by (rule wifi_scanned) (simp add: wifi_monitor_def)
qed

lemma wifi_demo_stations:
  "linked_stations (access_points wifi_monitor) wifi_world (stations wifi_monitor) =
     [(\<lparr>s_node = 1, s_device = 0, s_link = 0\<rparr>, Some 0)] \<and> length (stations wifi_monitor) = 2"
  by code_simp

theorem wifi_links_correct_witness:
  "\<exists>t. wifi_periodic_update wifi_world wifi_monitor (snd (scan_wifi_nodes wifi_world (new_monitor, wifi_scene))) =
     (t, Inl KeyError) \<and> linked_to t 0 (Some 0)"
  using wifi_links_correct [OF wifi_demo_reached] wifi_demo_stations by auto

text \<open>
  The link is not registered at the station, so moving the station does not draw it again before the
  next update of the view.
\<close>

lemma moved_station_left_behind:
  assumes "stations_ok (stations m) s" and "st \<in> set (stations m)"
    and "registered s i (s_link st) = 0"
  shows "links (set_position i p s) ! s_link st = links s ! s_link st"
proof -
  have "s_link st < length (links s)" using assms(1,2) by (simp add: stations_ok_def station_ok_def)
  then show ?thesis using assms(3) registered_in [of "s_link st" s i] by (simp add: nth_set_position)
qed

end
