(* ===== verification/VizTraffic.thy ===== *)
theory VizTraffic
  imports VizScene
begin

text \<open>
  The transmissions and packet drops shown by \<open>core.py\<close>: the memory of the last samples, the averages
  per pair of nodes, and the pool of arrows on the canvas that is used again at every update. The
  logarithm is a parameter, as is the clipping of a line by the C++ library; floats are exact
  rationals, and a dictionary is gone through in the order of insertion.
\<close>

section \<open>The memory\<close>

record traffic =
  last_transmissions :: "(nat \<times> nat \<times> nat) list list"
  last_drops :: "(nat \<times> nat) list list"
  smoothing :: rat

text \<open>\<open>while len(xs) > n: xs.pop(0)\<close>\<close>

fun forget_old :: "nat \<Rightarrow> 'a list \<Rightarrow> 'a list" where
  "forget_old n xs = (if length xs > n then forget_old n (tl xs) else xs)"

declare forget_old.simps [simp del]

lemma forget_old_drop: "forget_old n xs = drop (length xs - n) xs"
proof (induction n xs rule: forget_old.induct)
  case (1 n xs)
  show ?case
  proof (cases "length xs > n")
    case True
    then obtain x ys where "xs = x # ys" by (cases xs) auto
    with 1 True show ?thesis by (subst forget_old.simps) (simp add: Suc_diff_le)
  qed (simp add: forget_old.simps)
qed

definition do_simulation_periodic_update :: "world \<Rightarrow> traffic \<Rightarrow> traffic" where
  "do_simulation_periodic_update w t =
     (let smooth_factor = nat \<lfloor>smoothing t * 10\<rfloor>
      in t\<lparr>last_transmissions := forget_old smooth_factor (last_transmissions t @ [w_tx w]),
           last_drops := forget_old smooth_factor (last_drops t @ [w_drops w])\<rparr>)"

section \<open>The averages\<close>

definition count_sample :: "'k \<times> nat \<Rightarrow> ('k, nat \<times> nat) pydict \<Rightarrow> ('k, nat \<times> nat) pydict" where
  "count_sample sample d =
     (case sample of (key, size_in_bytes) \<Rightarrow>
        (case (case dict_get d key of None \<Rightarrow> (0, 0) | Some v \<Rightarrow> v) of (total_bytes, n) \<Rightarrow>
           dict_put key (total_bytes + size_in_bytes, n + 1) d))"

definition transmissions_average :: "(nat \<times> nat \<times> nat) list list \<Rightarrow> (nat \<times> nat, nat \<times> nat) pydict" where
  "transmissions_average window =
     fold (\<lambda>samples d. fold (\<lambda>(t, r, b). count_sample ((t, r), b)) samples d) window []"

definition drops_average :: "(nat \<times> nat) list list \<Rightarrow> (nat, nat \<times> nat) pydict" where
  "drops_average window = fold (\<lambda>samples d. fold count_sample samples d) window []"

section \<open>The arrows\<close>

text \<open>An arrow and its label, which are made and used together.\<close>

record arrow =
  a_visible :: bool
  a_label_visible :: bool
  a_width :: rat
  a_from :: point
  a_to :: point
  a_rate :: rat
  a_rightwards :: bool
  a_label_at :: point
  a_font :: int

record arrow_heap =
  arrow_at :: "nat \<Rightarrow> arrow"
  arrow_count :: nat

definition new_arrow :: arrow where
  "new_arrow =
     \<lparr>a_visible = True, a_label_visible = True, a_width = 2, a_from = (0, 0), a_to = (0, 0), a_rate = 0,
      a_rightwards = True, a_label_at = (0, 0), a_font = 0\<rparr>"

definition upd_arrow :: "nat \<Rightarrow> (arrow \<Rightarrow> arrow) \<Rightarrow> arrow_heap \<Rightarrow> arrow_heap" where
  "upd_arrow a f h = h\<lparr>arrow_at := (arrow_at h)(a := f (arrow_at h a))\<rparr>"

definition hide_arrow :: "nat \<Rightarrow> arrow_heap \<Rightarrow> arrow_heap" where
  "hide_arrow a h = upd_arrow a (\<lambda>x. x\<lparr>a_visible := False, a_label_visible := False\<rparr>) h"

text \<open>\<open>old_arrows.pop()\<close>, or a new arrow\<close>

definition take_arrow :: "nat list \<times> arrow_heap \<Rightarrow> nat \<times> nat list \<times> arrow_heap" where
  "take_arrow st =
     (case st of (pool, h) \<Rightarrow>
        if pool = [] then
          (arrow_count h, [], upd_arrow (arrow_count h) (\<lambda>x. new_arrow) (h\<lparr>arrow_count := arrow_count h + 1\<rparr>))
        else (last pool, butlast pool, h))"

text \<open>
  An arrow is taken and shown before the logarithm is computed; \<open>setup\<close> is given its width and rate.
\<close>

definition draw_arrow ::
  "(rat \<Rightarrow> rat) \<Rightarrow> rat \<Rightarrow> rat \<Rightarrow> nat \<times> nat \<Rightarrow> (rat \<Rightarrow> rat \<Rightarrow> arrow \<Rightarrow> arrow) \<Rightarrow>
   nat list \<times> arrow_heap \<Rightarrow> (nat list \<times> arrow_heap) \<times> nat result" where
  "draw_arrow lg k period average setup st =
     (case (average, take_arrow st) of ((total_bytes, n), (a, pool, h)) \<Rightarrow>
        (let h = upd_arrow a (\<lambda>x. x\<lparr>a_visible := True\<rparr>) h;
             rate = of_nat total_bytes / of_nat n / period
         in if period = 0 then ((pool, h), Inl ZeroDivisionError)
            else if rate \<le> 0 then ((pool, h), Inl ValueError)
            else
              (let width = max (1 / 10) (lg rate * k);
                   kbps = of_nat (total_bytes * 8) / 1000 / of_nat n / period
               in ((pool, upd_arrow a (setup width kbps \<circ> (\<lambda>x. x\<lparr>a_width := width, a_label_visible := True\<rparr>)) h), Inr a))))"

definition bitrate_font_size :: int where
  "bitrate_font_size = 10"

definition label_font :: "rat \<Rightarrow> int" where
  "label_font k = \<lfloor>1 + of_int bitrate_font_size * k\<rfloor>"

text \<open>
  The label of a transmission is turned with the line: \<open>-PI/2 <= angle <= PI/2\<close> says that the
  receiver is not to the left.
\<close>

definition show_transmission ::
  "(point \<Rightarrow> point \<Rightarrow> point \<times> point) \<Rightarrow> rat \<Rightarrow> point \<Rightarrow> point \<Rightarrow> rat \<Rightarrow> rat \<Rightarrow> arrow \<Rightarrow> arrow" where
  "show_transmission clip k p q width kbps x =
     (case clip p q of (p', q') \<Rightarrow>
        x\<lparr>a_from := p, a_to := q, a_rate := kbps, a_font := label_font k,
          a_rightwards := (fst q - fst p \<ge> 0),
          a_label_at := ((fst p' + fst q') / 2, (snd p' + snd q') / 2)\<rparr>)"

definition show_drop :: "rat \<Rightarrow> rat \<Rightarrow> point \<Rightarrow> rat \<Rightarrow> rat \<Rightarrow> arrow \<Rightarrow> arrow" where
  "show_drop edge_y k p width kbps x =
     (let q = (fst p, edge_y)
      in x\<lparr>a_from := p, a_to := q, a_rate := kbps, a_font := label_font k,
           a_label_at := ((fst p + fst q) / 2, (snd p + snd q) / 2)\<rparr>)"

type_synonym drawing = "scene \<times> nat list \<times> arrow_heap"

definition draw_transmission ::
  "(rat \<Rightarrow> rat) \<Rightarrow> (point \<Rightarrow> point \<Rightarrow> point \<times> point) \<Rightarrow> rat \<Rightarrow> rat \<Rightarrow> (nat \<times> nat) \<times> nat \<times> nat \<Rightarrow>
   drawing \<Rightarrow> drawing \<times> nat result" where
  "draw_transmission lg clip k period item d =
     (case (item, d) of (((t, r), average), (s, st)) \<Rightarrow>
        (let s = get_node r (get_node t s);
             p = position_of s (NodeEnd t); q = position_of s (NodeEnd r)
         in (case draw_arrow lg k period average (show_transmission clip k p q) st of (st, res) \<Rightarrow> ((s, st), res))))"

definition draw_drop ::
  "(rat \<Rightarrow> rat) \<Rightarrow> rat \<Rightarrow> rat \<Rightarrow> rat \<Rightarrow> nat \<times> nat \<times> nat \<Rightarrow> drawing \<Rightarrow> drawing \<times> nat result" where
  "draw_drop lg edge_y k period item d =
     (case (item, d) of ((t, average), (s, st)) \<Rightarrow>
        (let s = get_node t s; p = position_of s (NodeEnd t)
         in (case draw_arrow lg k period average (show_drop edge_y k p) st of (st, res) \<Rightarrow> ((s, st), res))))"

text \<open>
  The loop pops from \<open>old_arrows\<close>, which is the list \<open>self._transmission_arrows\<close> itself: an exception
  leaves it without the arrows taken so far.
\<close>

fun draw_loop :: "('i \<Rightarrow> drawing \<Rightarrow> drawing \<times> nat result) \<Rightarrow> 'i list \<Rightarrow> nat list \<Rightarrow> drawing \<Rightarrow> drawing \<times> nat list result" where
  "draw_loop f [] new_arrows d = (d, Inr new_arrows)"
| "draw_loop f (x # xs) new_arrows d = and_then (f x d) (\<lambda>a. draw_loop f xs (new_arrows @ [a]))"

definition redraw_arrows ::
  "('i \<Rightarrow> drawing \<Rightarrow> drawing \<times> nat result) \<Rightarrow> 'i list \<Rightarrow> drawing \<Rightarrow> drawing \<times> unit result" where
  "redraw_arrows f items d =
     (case d of (s, old_arrows, h) \<Rightarrow>
        and_then (draw_loop f items [] (s, old_arrows, fold hide_arrow old_arrows h))
          (\<lambda>new_arrows (s, old_arrows, h). ((s, new_arrows @ old_arrows, h), Inr ())))"

definition update_transmissions_view ::
  "(rat \<Rightarrow> rat) \<Rightarrow> (point \<Rightarrow> point \<Rightarrow> point \<times> point) \<Rightarrow> rat \<Rightarrow> rat \<Rightarrow> traffic \<Rightarrow> drawing \<Rightarrow> drawing \<times> unit result" where
  "update_transmissions_view lg clip node_size period t d =
     redraw_arrows (draw_transmission lg clip (node_size / 5) period)
       (transmissions_average (last_transmissions t)) d"

definition update_drops_view ::
  "(rat \<Rightarrow> rat) \<Rightarrow> rat \<Rightarrow> rat \<Rightarrow> rat \<Rightarrow> traffic \<Rightarrow> drawing \<Rightarrow> drawing \<times> unit result" where
  "update_drops_view lg edge_y node_size period t d =
     redraw_arrows (draw_drop lg edge_y (node_size / 5) period) (drops_average (last_drops t)) d"

section \<open>The averages are sums and counts\<close>

definition flat_transmissions :: "(nat \<times> nat \<times> nat) list list \<Rightarrow> ((nat \<times> nat) \<times> nat) list" where
  "flat_transmissions window = map (\<lambda>(t, r, b). ((t, r), b)) (concat window)"

lemma get_count_sample:
  "dict_get (count_sample x d) key =
     (if key = fst x
      then (case dict_get d key of None \<Rightarrow> Some (snd x, 1) | Some (total_bytes, n) \<Rightarrow> Some (total_bytes + snd x, n + 1))
      else dict_get d key)"
  by (cases x) (auto simp: count_sample_def dict_simps split: option.split)

lemma fold_count:
  "dict_get (fold count_sample xs []) key =
     (let ys = filter (\<lambda>x. fst x = key) xs
      in if ys = [] then None else Some (sum_list (map snd ys), length ys))"
  by (induction xs arbitrary: key rule: rev_induct) (simp_all add: get_count_sample Let_def)

lemma dict_ok_fold_count: "dict_ok d \<Longrightarrow> dict_ok (fold count_sample xs d)"
proof (induction xs arbitrary: d)
  case (Cons x xs)
  have "dict_ok (count_sample x d)" using Cons.prems by (simp add: count_sample_def pd.ok_put split: prod.split)
  with Cons.IH show ?case by simp
qed simp

lemma transmissions_average_flat: "transmissions_average window = fold count_sample (flat_transmissions window) []"
proof -
  have "fold (\<lambda>samples d. fold (\<lambda>(t, r, b). count_sample ((t, r), b)) samples d) window d =
      fold count_sample (map (\<lambda>(t, r, b). ((t, r), b)) (concat window)) d" for d
    by (induction window arbitrary: d) (simp_all add: fold_map comp_def case_prod_unfold)
  then show ?thesis by (simp add: transmissions_average_def flat_transmissions_def)
qed

lemma drops_average_flat: "drops_average window = fold count_sample (concat window) []"
proof -
  have "fold (\<lambda>samples d. fold count_sample samples d) window d = fold count_sample (concat window) d" for d
    by (induction window arbitrary: d) simp_all
  then show ?thesis by (simp add: drops_average_def)
qed

lemma average_entry:
  assumes "(key, b, n) \<in> set (fold count_sample xs [])"
  shows "b = sum_list (map snd (filter (\<lambda>x. fst x = key) xs)) \<and> n = length (filter (\<lambda>x. fst x = key) xs) \<and> 0 < n"
proof -
  have "distinct (map fst (fold count_sample xs []))" using dict_ok_fold_count [of "[]" xs] by (simp add: dict_ok_def)
  then have "dict_get (fold count_sample xs []) key = Some (b, n)" using assms by (rule map_of_is_SomeI)
  then show ?thesis by (auto simp: fold_count Let_def split: if_splits)
qed

section \<open>The pool of arrows\<close>

lemma upd_arrow_simps [simp]:
  "arrow_count (upd_arrow a f h) = arrow_count h" "arrow_at (upd_arrow a f h) = (arrow_at h)(a := f (arrow_at h a))"
  by (simp_all add: upd_arrow_def)

lemma hide_arrows:
  "arrow_count (fold hide_arrow xs h) = arrow_count h"
  "arrow_at (fold hide_arrow xs h) a =
     (if a \<in> set xs then (arrow_at h a)\<lparr>a_visible := False, a_label_visible := False\<rparr> else arrow_at h a)"
  by (induction xs arbitrary: h) (auto simp: hide_arrow_def)

definition pool_ok :: "nat list \<Rightarrow> arrow_heap \<Rightarrow> bool" where
  "pool_ok pool h \<longleftrightarrow> distinct pool \<and> (\<forall>a \<in> set pool. a < arrow_count h)"

lemma take_arrow_facts:
  assumes "take_arrow (pool, h) = (a, pool1, h1)" and "pool_ok pool h"
  shows "pool1 = butlast pool \<and> a < arrow_count h1 \<and> arrow_count h \<le> arrow_count h1 \<and>
    (a \<in> set pool \<or> arrow_count h \<le> a) \<and> a \<notin> set pool1 \<and>
    (\<forall>b. b < arrow_count h \<longrightarrow> b \<noteq> a \<longrightarrow> arrow_at h1 b = arrow_at h b) \<and> pool_ok pool1 h1"
proof (cases pool rule: rev_cases)
  case Nil
  then show ?thesis using assms by (auto simp: take_arrow_def pool_ok_def)
next
  case (snoc ys y)
  then show ?thesis using assms by (auto simp: take_arrow_def pool_ok_def)
qed

definition same_places :: "scene \<Rightarrow> scene \<Rightarrow> bool" where
  "same_places s s' \<longleftrightarrow>
     set (nodes s) \<subseteq> set (nodes s') \<and> (\<forall>i \<in> set (nodes s). position_of s' (NodeEnd i) = position_of s (NodeEnd i))"

lemma same_places_refl: "same_places s s"
  by (simp add: same_places_def)

lemma same_places_trans: "same_places s t \<Longrightarrow> same_places t u \<Longrightarrow> same_places s u"
  by (auto simp: same_places_def)

lemma same_places_get_node:
  "same_places s (get_node i s)" "j \<in> set (nodes (get_node i s)) \<longleftrightarrow> j = i \<or> j \<in> set (nodes s)"
  by (auto simp: same_places_def get_node_def position_of_def node_at_appearance)

text \<open>What one step of the loop has to do; \<open>P\<close> says what the arrow shows.\<close>

definition draws_one :: "('i \<Rightarrow> drawing \<Rightarrow> drawing \<times> nat result) \<Rightarrow> ('i \<Rightarrow> scene \<Rightarrow> arrow \<Rightarrow> bool) \<Rightarrow> 'i \<Rightarrow> bool" where
  "draws_one f P x \<longleftrightarrow>
     (\<forall>s pool h. \<exists>s' h'. case take_arrow (pool, h) of (a, pool1, h1) \<Rightarrow>
        f x (s, pool, h) = ((s', pool1, h'), Inr a) \<and> arrow_count h' = arrow_count h1 \<and>
        (\<forall>b. b \<noteq> a \<longrightarrow> arrow_at h' b = arrow_at h1 b) \<and> P x s' (arrow_at h' a) \<and> same_places s s')"

lemma draw_loop_ok:
  assumes "\<forall>x \<in> set items. draws_one f P x" and "pool_ok pool h"
    and mono: "\<forall>x s s' a. P x s a \<longrightarrow> same_places s s' \<longrightarrow> P x s' a"
  shows "\<exists>s' h' shown. draw_loop f items new_arrows (s, pool, h) =
      ((s', take (length pool - length items) pool, h'), Inr (new_arrows @ shown)) \<and>
    length shown = length items \<and> arrow_count h \<le> arrow_count h' \<and> same_places s s' \<and>
    distinct shown \<and> (\<forall>a \<in> set shown. a < arrow_count h' \<and> (a \<in> set pool \<or> arrow_count h \<le> a)) \<and>
    set shown \<inter> set (take (length pool - length items) pool) = {} \<and>
    (\<forall>i < length items. P (items ! i) s' (arrow_at h' (shown ! i))) \<and>
    (\<forall>a. a < arrow_count h \<and> a \<notin> set shown \<longrightarrow> arrow_at h' a = arrow_at h a)"
  using assms(1,2)
proof (induction items arbitrary: s pool h new_arrows)
  case Nil
  then show ?case by (intro exI [of _ s] exI [of _ h] exI [of _ "[]"]) (simp add: same_places_refl)
next
  case (Cons x items)
  obtain a pool1 h1 where t: "take_arrow (pool, h) = (a, pool1, h1)" by (metis prod_cases3)
  have "draws_one f P x" using Cons.prems(1) by simp
  from this [unfolded draws_one_def, rule_format, of s pool h] obtain s2 h2 where
    f: "f x (s, pool, h) = ((s2, pool1, h2), Inr a)" "arrow_count h2 = arrow_count h1"
      "\<forall>b. b \<noteq> a \<longrightarrow> arrow_at h2 b = arrow_at h1 b" "P x s2 (arrow_at h2 a)" "same_places s s2"
    unfolding t by auto
  from take_arrow_facts [OF t Cons.prems(2)] have pool: "pool1 = butlast pool" "a < arrow_count h1"
    "arrow_count h \<le> arrow_count h1" "a \<in> set pool \<or> arrow_count h \<le> a" "a \<notin> set pool1"
    "\<And>b. b < arrow_count h \<Longrightarrow> b \<noteq> a \<Longrightarrow> arrow_at h1 b = arrow_at h b" and ok1: "pool_ok pool1 h1"
    by blast+
  have ok2: "pool_ok pool1 h2" using ok1 f(2) by (simp add: pool_ok_def)
  have items: "\<forall>x \<in> set items. draws_one f P x" using Cons.prems(1) by simp
  obtain s3 h3 shown where IH:
    "draw_loop f items (new_arrows @ [a]) (s2, pool1, h2) =
      ((s3, take (length pool1 - length items) pool1, h3), Inr ((new_arrows @ [a]) @ shown))"
    "length shown = length items" "arrow_count h2 \<le> arrow_count h3" "same_places s2 s3" "distinct shown"
    "\<forall>b \<in> set shown. b < arrow_count h3 \<and> (b \<in> set pool1 \<or> arrow_count h2 \<le> b)"
    "set shown \<inter> set (take (length pool1 - length items) pool1) = {}"
    "\<forall>i < length items. P (items ! i) s3 (arrow_at h3 (shown ! i))"
    "\<forall>b. b < arrow_count h2 \<and> b \<notin> set shown \<longrightarrow> arrow_at h3 b = arrow_at h2 b"
    using Cons.IH [OF items ok2, of "new_arrows @ [a]" s2] by (elim exE conjE) (rule that)
  have rest: "take (length pool1 - length items) pool1 = take (length pool - length (x # items)) pool"
    by (cases pool rule: rev_cases) (simp_all add: pool(1))
  have fresh: "a \<notin> set shown" using IH(6) pool(2,5) f(2) by (metis leD)
  have "P ((x # items) ! i) s3 (arrow_at h3 ((a # shown) ! i))" if "i < length (x # items)" for i
  proof (cases i)
    case 0
    have "arrow_at h3 a = arrow_at h2 a" using IH(9) fresh pool(2) f(2) by simp
    then show ?thesis using 0 mono [rule_format, OF f(4) IH(4)] by simp
  next
    case (Suc j)
    then show ?thesis using that IH(8) by simp
  qed
  moreover have "arrow_at h3 b = arrow_at h b" if "b < arrow_count h" "b \<notin> set (a # shown)" for b
    using that IH(9) f(2,3) pool(3,6) by auto
  moreover have "a \<notin> set (take (length pool1 - length items) pool1)" using pool(5) in_set_takeD by fast
  moreover have "draw_loop f (x # items) new_arrows (s, pool, h) =
      ((s3, take (length pool - length (x # items)) pool, h3), Inr (new_arrows @ a # shown))"
    using f(1) IH(1) unfolding rest by simp
  moreover have "b < arrow_count h3 \<and> (b \<in> set pool \<or> arrow_count h \<le> b)" if "b \<in> set (a # shown)" for b
  proof (cases "b = a")
    case True
    then show ?thesis using pool(2,4) IH(3) f(2) by simp
  next
    case False
    then have "b < arrow_count h3 \<and> (b \<in> set pool1 \<or> arrow_count h2 \<le> b)" using that IH(6) by simp
    then show ?thesis using pool(1,3) f(2) in_set_butlastD [of b pool] by auto
  qed
  moreover have "arrow_count h \<le> arrow_count h3" using IH(3) f(2) pool(3) by simp
  ultimately show ?case
    using IH(2,5,7) fresh rest same_places_trans [OF f(5) IH(4)]
    by (intro exI [of _ s3] exI [of _ h3] exI [of _ "a # shown"] conjI ballI allI impI) simp_all
qed

section \<open>What is on the canvas after an update\<close>

definition example_world :: world where
  "example_world = \<lparr>w_now = 0, w_nodes = 2, w_mobility = (\<lambda>i. None), w_devices = (\<lambda>i. []), w_channel = (\<lambda>c. []),
     w_tx = [], w_drops = [], w_pauses = []\<rparr>"


definition shows_transmission ::
  "(rat \<Rightarrow> rat) \<Rightarrow> rat \<Rightarrow> rat \<Rightarrow> (nat \<times> nat) \<times> nat \<times> nat \<Rightarrow> scene \<Rightarrow> arrow \<Rightarrow> bool" where
  "shows_transmission lg k period item s a \<longleftrightarrow>
     (case item of ((t, r), (b, n)) \<Rightarrow>
        t \<in> set (nodes s) \<and> r \<in> set (nodes s) \<and> a_visible a \<and> a_label_visible a \<and>
        a_from a = position_of s (NodeEnd t) \<and> a_to a = position_of s (NodeEnd r) \<and>
        a_width a = max (1 / 10) (lg (of_nat b / of_nat n / period) * k) \<and>
        a_rate a = of_nat (b * 8) / 1000 / of_nat n / period \<and>
        a_rightwards a = (fst (a_from a) \<le> fst (a_to a)))"

definition shows_drop :: "(rat \<Rightarrow> rat) \<Rightarrow> rat \<Rightarrow> rat \<Rightarrow> rat \<Rightarrow> nat \<times> nat \<times> nat \<Rightarrow> scene \<Rightarrow> arrow \<Rightarrow> bool" where
  "shows_drop lg edge_y k period item s a \<longleftrightarrow>
     (case item of (t, (b, n)) \<Rightarrow>
        t \<in> set (nodes s) \<and> a_visible a \<and> a_label_visible a \<and>
        a_from a = position_of s (NodeEnd t) \<and> a_to a = (fst (a_from a), edge_y) \<and>
        a_width a = max (1 / 10) (lg (of_nat b / of_nat n / period) * k) \<and>
        a_rate a = of_nat (b * 8) / 1000 / of_nat n / period)"

lemma shows_mono:
  "\<forall>x s s' a. shows_transmission lg k period x s a \<longrightarrow> same_places s s' \<longrightarrow> shows_transmission lg k period x s' a"
  "\<forall>y s s' a. shows_drop lg e k period y s a \<longrightarrow> same_places s s' \<longrightarrow> shows_drop lg e k period y s' a"
  by (auto simp: shows_transmission_def shows_drop_def same_places_def split: prod.splits)

lemma draw_arrow_ok:
  assumes "take_arrow st = (a, pool, h)" and "0 < period" and "0 < b" and "0 < n"
  shows "draw_arrow lg k period (b, n) setup st =
    ((pool, upd_arrow a (setup (max (1 / 10) (lg (of_nat b / of_nat n / period) * k)) (of_nat (b * 8) / 1000 / of_nat n / period)
       \<circ> (\<lambda>x. x\<lparr>a_width := max (1 / 10) (lg (of_nat b / of_nat n / period) * k), a_label_visible := True\<rparr>))
       (upd_arrow a (\<lambda>x. x\<lparr>a_visible := True\<rparr>) h)), Inr a)"
proof -
  have "0 < (of_nat b / of_nat n / period :: rat)" using assms(2-4) by simp
  then have "\<not> (of_nat b / of_nat n / period :: rat) \<le> 0" unfolding not_le .
  moreover have "period \<noteq> 0" using assms(2) by simp
  ultimately show ?thesis unfolding draw_arrow_def Let_def assms(1) prod.case by (simp only: if_False)
qed

lemma draw_transmission_ok:
  assumes "0 < period" and "0 < b" and "0 < n"
  shows "draws_one (draw_transmission lg clip k period) (shows_transmission lg k period) ((t, r), (b, n))"
  unfolding draws_one_def
proof (intro allI)
  fix s :: scene and pool h
  obtain a pool1 h1 where ta: "take_arrow (pool, h) = (a, pool1, h1)" by (metis prod_cases3)
  let ?s = "get_node r (get_node t s)"
  have R: "same_places s ?s" "t \<in> set (nodes ?s)" "r \<in> set (nodes ?s)"
    using same_places_trans [OF same_places_get_node(1) [of s t] same_places_get_node(1) [of "get_node t s" r]]
    by (simp_all add: same_places_get_node(2))
  show "\<exists>s' h'. case take_arrow (pool, h) of (a, pool1, h1) \<Rightarrow>
      draw_transmission lg clip k period ((t, r), (b, n)) (s, pool, h) = ((s', pool1, h'), Inr a) \<and>
      arrow_count h' = arrow_count h1 \<and> (\<forall>b. b \<noteq> a \<longrightarrow> arrow_at h' b = arrow_at h1 b) \<and>
      shows_transmission lg k period ((t, r), (b, n)) s' (arrow_at h' a) \<and> same_places s s'"
    using R by (simp add: ta draw_transmission_def Let_def draw_arrow_ok [OF ta assms] shows_transmission_def
        show_transmission_def split: prod.split)
qed

lemma draw_drop_ok:
  assumes "0 < period" and "0 < b" and "0 < n"
  shows "draws_one (draw_drop lg e k period) (shows_drop lg e k period) (t, (b, n))"
  unfolding draws_one_def
proof (intro allI)
  fix s :: scene and pool h
  obtain a pool1 h1 where ta: "take_arrow (pool, h) = (a, pool1, h1)" by (metis prod_cases3)
  show "\<exists>s' h'. case take_arrow (pool, h) of (a, pool1, h1) \<Rightarrow>
      draw_drop lg e k period (t, (b, n)) (s, pool, h) = ((s', pool1, h'), Inr a) \<and>
      arrow_count h' = arrow_count h1 \<and> (\<forall>b. b \<noteq> a \<longrightarrow> arrow_at h' b = arrow_at h1 b) \<and>
      shows_drop lg e k period (t, (b, n)) s' (arrow_at h' a) \<and> same_places s s'"
    using same_places_get_node(1) [of s t] 
    by (simp add: same_places_get_node(2) ta draw_drop_def Let_def draw_arrow_ok [OF ta assms] shows_drop_def show_drop_def)
qed

lemma redraw_arrows_ok:
  assumes "\<forall>x \<in> set items. draws_one f P x" and "pool_ok pool h"
    and mono: "\<forall>x s s' a. P x s a \<longrightarrow> same_places s s' \<longrightarrow> P x s' a"
  shows "\<exists>s' h' shown. redraw_arrows f items (s, pool, h) =
      ((s', shown @ take (length pool - length items) pool, h'), Inr ()) \<and>
    length shown = length items \<and> same_places s s' \<and>
    pool_ok (shown @ take (length pool - length items) pool) h' \<and>
    (\<forall>i < length items. P (items ! i) s' (arrow_at h' (shown ! i))) \<and>
    (\<forall>a \<in> set (take (length pool - length items) pool). \<not> a_visible (arrow_at h' a) \<and> \<not> a_label_visible (arrow_at h' a))"
proof -
  let ?h = "fold hide_arrow pool h" and ?rest = "take (length pool - length items) pool"
  have "pool_ok pool ?h" using assms(2) by (simp add: pool_ok_def hide_arrows)
  note loop = draw_loop_ok [OF assms(1) this mono, of "[]" s, unfolded append_Nil]
  obtain s' h' shown where l: "draw_loop f items [] (s, pool, ?h) = ((s', ?rest, h'), Inr shown)"
    "length shown = length items" "arrow_count ?h \<le> arrow_count h'" "same_places s s'" "distinct shown"
    "\<forall>a \<in> set shown. a < arrow_count h' \<and> (a \<in> set pool \<or> arrow_count ?h \<le> a)" "set shown \<inter> set ?rest = {}"
    "\<forall>i < length items. P (items ! i) s' (arrow_at h' (shown ! i))"
    "\<forall>a. a < arrow_count ?h \<and> a \<notin> set shown \<longrightarrow> arrow_at h' a = arrow_at ?h a"
    using loop by (elim exE conjE) (rule that)
  have rest: "a \<in> set pool \<and> a < arrow_count ?h \<and> a \<notin> set shown" if "a \<in> set ?rest" for a
    using that in_set_takeD [OF that] assms(2) l(7) by (auto simp: pool_ok_def hide_arrows)
  have "pool_ok (shown @ ?rest) h'"
    using l(3,5,6,7) rest assms(2) by (fastforce simp: pool_ok_def)
  moreover have "\<not> a_visible (arrow_at h' a) \<and> \<not> a_label_visible (arrow_at h' a)" if "a \<in> set ?rest" for a
    using rest [OF that] l(9) by (simp add: hide_arrows)
  ultimately show ?thesis using l(1,2,4,8)
    by (intro exI [of _ s'] exI [of _ h'] exI [of _ shown]) (simp add: redraw_arrows_def)
qed

text \<open>The bytes of the remembered samples from one node to another, and of the drops at a node.\<close>

definition bytes_between :: "(nat \<times> nat \<times> nat) list list \<Rightarrow> nat \<Rightarrow> nat \<Rightarrow> nat list" where
  "bytes_between window t r = map (snd \<circ> snd) (filter (\<lambda>x. fst x = t \<and> fst (snd x) = r) (concat window))"

definition bytes_dropped :: "(nat \<times> nat) list list \<Rightarrow> nat \<Rightarrow> nat list" where
  "bytes_dropped window t = map snd (filter (\<lambda>x. fst x = t) (concat window))"

lemma transmissions_average_get:
  "dict_get (transmissions_average window) (t, r) =
     (let bs = bytes_between window t r in if bs = [] then None else Some (sum_list bs, length bs))"
proof -
  have "map snd (filter (\<lambda>x. fst x = (t, r)) (flat_transmissions window)) = bytes_between window t r"
    and "length (filter (\<lambda>x. fst x = (t, r)) (flat_transmissions window)) = length (bytes_between window t r)"
    and "filter (\<lambda>x. fst x = (t, r)) (flat_transmissions window) = [] \<longleftrightarrow> bytes_between window t r = []"
    by (simp_all add: flat_transmissions_def bytes_between_def filter_map comp_def case_prod_unfold prod_eq_iff)
  then show ?thesis by (simp add: transmissions_average_flat fold_count Let_def)
qed

lemma drops_average_get:
  "dict_get (drops_average window) t =
     (let bs = bytes_dropped window t in if bs = [] then None else Some (sum_list bs, length bs))"
  by (simp add: drops_average_flat fold_count Let_def bytes_dropped_def)

lemma average_ok: "dict_ok (transmissions_average window)" "dict_ok (drops_average dwindow)"
  by (simp_all add: transmissions_average_flat drops_average_flat dict_ok_fold_count)

lemma dict_entry: "dict_ok d \<Longrightarrow> (k, v) \<in> set d \<Longrightarrow> dict_get d k = Some v"
  by (simp add: dict_ok_def)

lemma positive_entry:
  assumes "\<forall>b \<in> set (bs :: nat list). 0 < b" and "(if bs = [] then None else Some (sum_list bs, length bs)) = Some (b, n)"
  shows "0 < b \<and> 0 < (n :: nat)"
  using assms by (cases bs) (auto split: if_splits)

text \<open>C27: After an update of the view the arrows shown for transmissions are exactly one for each pair
  of nodes with a remembered sample: from the sender to the receiver where they are drawn now, as
  wide as the logarithm of the mean rate says and labelled with that rate, the bytes of the samples
  over their number and the sample period. Arrows of the last update are used again before new ones
  are made, those not needed are hidden and stay in the pool, and no arrow is in the pool twice.\<close>

theorem transmissions_view_correct:
  assumes "pool_ok pool h" and "0 < period" and "\<forall>(t, r, b) \<in> set (concat (last_transmissions tr)). 0 < b"
  shows "\<exists>s' h' shown rest average. update_transmissions_view lg clip node_size period tr (s, pool, h) =
      ((s', shown @ rest, h'), Inr ()) \<and>
    dict_ok average \<and>
    (\<forall>t r. dict_get average (t, r) =
       (let bs = bytes_between (last_transmissions tr) t r in if bs = [] then None else Some (sum_list bs, length bs))) \<and>
    length shown = length average \<and>
    (\<forall>i < length average. shows_transmission lg (node_size / 5) period (average ! i) s' (arrow_at h' (shown ! i))) \<and>
    rest = take (length pool - length average) pool \<and> (\<forall>a \<in> set rest. \<not> a_visible (arrow_at h' a)) \<and>
    pool_ok (shown @ rest) h' \<and> same_places s s'"
proof -
  let ?average = "transmissions_average (last_transmissions tr)"
  have "draws_one (draw_transmission lg clip (node_size / 5) period) (shows_transmission lg (node_size / 5) period) x"
    if "x \<in> set ?average" for x
  proof -
    obtain t r b n where x: "x = ((t, r), (b, n))" by (metis prod.collapse)
    have "dict_get ?average (t, r) = Some (b, n)" using that dict_entry [OF average_ok(1)] by (simp add: x)
    then have e: "(if bytes_between (last_transmissions tr) t r = [] then None else
        Some (sum_list (bytes_between (last_transmissions tr) t r), length (bytes_between (last_transmissions tr) t r))) = Some (b, n)"
      by (simp add: transmissions_average_get Let_def)
    have "\<forall>b \<in> set (bytes_between (last_transmissions tr) t r). 0 < b"
      using assms(3) by (fastforce simp: bytes_between_def)
    from positive_entry [OF this e] show ?thesis unfolding x using draw_transmission_ok assms(2) by blast
  qed
  then have "\<forall>x \<in> set ?average. draws_one (draw_transmission lg clip (node_size / 5) period)
      (shows_transmission lg (node_size / 5) period) x" by blast
  from redraw_arrows_ok [OF this assms(1) shows_mono(1), of s] obtain s' h' shown where
    "redraw_arrows (draw_transmission lg clip (node_size / 5) period) ?average (s, pool, h) =
      ((s', shown @ take (length pool - length ?average) pool, h'), Inr ())"
    "length shown = length ?average" "same_places s s'"
    "pool_ok (shown @ take (length pool - length ?average) pool) h'"
    "\<forall>i < length ?average. shows_transmission lg (node_size / 5) period (?average ! i) s' (arrow_at h' (shown ! i))"
    "\<forall>a \<in> set (take (length pool - length ?average) pool).
      \<not> a_visible (arrow_at h' a) \<and> \<not> a_label_visible (arrow_at h' a)"
    by (elim exE conjE) (rule that)
  then show ?thesis
    by (intro exI [of _ s'] exI [of _ h'] exI [of _ shown] exI [of _ "take (length pool - length ?average) pool"]
        exI [of _ ?average]) (simp add: update_transmissions_view_def average_ok(1) transmissions_average_get)
qed

lemma drops_view_correct:
  assumes "pool_ok pool h" and "0 < period" and "\<forall>(t, b) \<in> set (concat (last_drops tr)). 0 < b"
  shows "\<exists>s' h' shown rest average. update_drops_view lg edge_y node_size period tr (s, pool, h) =
      ((s', shown @ rest, h'), Inr ()) \<and>
    dict_ok average \<and>
    (\<forall>t. dict_get average t =
       (let bs = bytes_dropped (last_drops tr) t in if bs = [] then None else Some (sum_list bs, length bs))) \<and>
    length shown = length average \<and>
    (\<forall>i < length average. shows_drop lg edge_y (node_size / 5) period (average ! i) s' (arrow_at h' (shown ! i))) \<and>
    rest = take (length pool - length average) pool \<and> (\<forall>a \<in> set rest. \<not> a_visible (arrow_at h' a)) \<and>
    pool_ok (shown @ rest) h' \<and> same_places s s'"
proof -
  let ?average = "drops_average (last_drops tr)"
  have "draws_one (draw_drop lg edge_y (node_size / 5) period) (shows_drop lg edge_y (node_size / 5) period) x"
    if "x \<in> set ?average" for x
  proof -
    obtain t b n where x: "x = (t, (b, n))" by (metis prod.collapse)
    have "dict_get ?average t = Some (b, n)" using that dict_entry [OF average_ok(2)] by (simp add: x)
    then have e: "(if bytes_dropped (last_drops tr) t = [] then None else
        Some (sum_list (bytes_dropped (last_drops tr) t), length (bytes_dropped (last_drops tr) t))) = Some (b, n)"
      by (simp add: drops_average_get Let_def)
    have "\<forall>b \<in> set (bytes_dropped (last_drops tr) t). 0 < b"
      using assms(3) by (fastforce simp: bytes_dropped_def)
    from positive_entry [OF this e] show ?thesis unfolding x using draw_drop_ok assms(2) by blast
  qed
  then have "\<forall>x \<in> set ?average. draws_one (draw_drop lg edge_y (node_size / 5) period)
      (shows_drop lg edge_y (node_size / 5) period) x" by blast
  from redraw_arrows_ok [OF this assms(1) shows_mono(2), of s] obtain s' h' shown where
    "redraw_arrows (draw_drop lg edge_y (node_size / 5) period) ?average (s, pool, h) =
      ((s', shown @ take (length pool - length ?average) pool, h'), Inr ())"
    "length shown = length ?average" "same_places s s'"
    "pool_ok (shown @ take (length pool - length ?average) pool) h'"
    "\<forall>i < length ?average. shows_drop lg edge_y (node_size / 5) period (?average ! i) s' (arrow_at h' (shown ! i))"
    "\<forall>a \<in> set (take (length pool - length ?average) pool).
      \<not> a_visible (arrow_at h' a) \<and> \<not> a_label_visible (arrow_at h' a)"
    by (elim exE conjE) (rule that)
  then show ?thesis
    by (intro exI [of _ s'] exI [of _ h'] exI [of _ shown] exI [of _ "take (length pool - length ?average) pool"]
        exI [of _ ?average]) (simp add: update_drops_view_def average_ok(2) drops_average_get)
qed

theorem transmissions_view_correct_witness:
  "\<exists>s' h' shown rest. update_transmissions_view (\<lambda>x. x) (\<lambda>p q. (p, q)) 1 (1 / 10)
       \<lparr>last_transmissions = [[(0, 1, 100)], [(0, 1, 300)]], last_drops = [], smoothing = 1 / 2\<rparr>
       (empty_scene example_world, [0, 1], \<lparr>arrow_at = (\<lambda>a. new_arrow), arrow_count = 2\<rparr>) = ((s', shown @ rest, h'), Inr ())
     \<and> (\<forall>a \<in> set rest. \<not> a_visible (arrow_at h' a)) \<and> same_places (empty_scene example_world) s'"
proof -
  let ?t = "\<lparr>last_transmissions = [[(0, 1, 100)], [(0, 1, 300)]], last_drops = [], smoothing = 1 / 2\<rparr>"
  let ?h = "\<lparr>arrow_at = (\<lambda>a. new_arrow), arrow_count = 2\<rparr>"
  have "pool_ok [0, 1] ?h" "\<forall>(t, r, b) \<in> set (concat (last_transmissions ?t)). 0 < b" "0 < (1 / 10 :: rat)"
    by (simp_all add: pool_ok_def)
  from transmissions_view_correct [OF this(1,3,2), of "\<lambda>x. x" "\<lambda>p q. (p, q)" 1 "empty_scene example_world"]
  show ?thesis by blast
qed

lemma memory_of_samples:
  "last_transmissions (do_simulation_periodic_update w t) =
     (let n = nat \<lfloor>smoothing t * 10\<rfloor>; window = last_transmissions t @ [w_tx w] in drop (length window - n) window)"
  by (simp add: do_simulation_periodic_update_def forget_old_drop Let_def)

text \<open>An average of no bytes at all ends the update, and the arrow taken for it stays where it was
  on the canvas but is in no pool any more.\<close>

lemma no_bytes_loses_arrow:
  assumes "period \<noteq> 0"
  shows "\<exists>s' h'. update_transmissions_view lg clip node_size period
       \<lparr>last_transmissions = [[(0, 1, 0)]], last_drops = [], smoothing = 1 / 2\<rparr> (s, [a], h) = ((s', [], h'), Inl ValueError) \<and>
     a_visible (arrow_at h' a) \<and> a_from (arrow_at h' a) = a_from (arrow_at h a)"
  using assms
  by (auto simp: update_transmissions_view_def redraw_arrows_def transmissions_average_def count_sample_def
      draw_transmission_def draw_arrow_def take_arrow_def Let_def hide_arrow_def)

end
