(* ===== verification/VizSim.thy ===== *)
theory VizSim
  imports VizTraffic
begin

text \<open>
  The two threads of the visualizer (\<open>core.py\<close>): the simulation thread, which runs the simulator
  for one sample period whenever it is told to go, and the main thread, which dispatches events, and
  among them the timer of the view and the idle calls of \<open>update_model\<close>. They share the simulator and
  a lock. While the timer of the view waits for the lock it runs events in a nested main loop, so the
  callbacks of the main thread are a stack. The state has the sources of GLib (timers and idle calls)
  with GLib's rules: a source is not dispatched while its own callback runs, a callback that
  returns \<open>False\<close> or raises ends its source, and removing a source that is gone is only a warning.
\<close>

section \<open>The view\<close>

record gui =
  g_scene :: scene
  g_traffic :: traffic
  transmission_arrows :: "nat list"
  drop_arrows :: "nat list"
  g_arrows :: arrow_heap
  time_label :: rat
  node_size :: rat

text \<open>
  What is not Python of the visualizer: the simulator, the logarithm, the clipping, the place of the
  lower edge of the window; and the update of the information windows, which are plugins.
\<close>

record viz_env =
  run_until :: "rat \<Rightarrow> world \<Rightarrow> world"
  viz_log :: "rat \<Rightarrow> rat"
  clip_line :: "point \<Rightarrow> point \<Rightarrow> point \<times> point"
  edge_of_screen :: rat
  update_windows :: "world \<Rightarrow> gui \<Rightarrow> unit result"

definition draw_on_gui ::
  "(gui \<Rightarrow> nat list) \<Rightarrow> (nat list \<Rightarrow> gui \<Rightarrow> gui) \<Rightarrow> (drawing \<Rightarrow> drawing \<times> unit result) \<Rightarrow> gui \<Rightarrow> gui \<times> unit result" where
  "draw_on_gui pool set_pool f g =
     (case f (g_scene g, pool g, g_arrows g) of
        ((s, p, h), r) \<Rightarrow> (set_pool p (g\<lparr>g_scene := s, g_arrows := h\<rparr>), r))"

definition update_view :: "viz_env \<Rightarrow> rat \<Rightarrow> world \<Rightarrow> gui \<Rightarrow> gui \<times> unit result" where
  "update_view env period w g =
     (let g = g\<lparr>time_label := w_now w\<rparr>;
          g = g\<lparr>g_scene := update_node_positions w (g_scene g)\<rparr>
      in and_then (g, update_windows env w g) (\<lambda>u g.
         and_then (draw_on_gui transmission_arrows (\<lambda>p. transmission_arrows_update (\<lambda>x. p))
             (update_transmissions_view (viz_log env) (clip_line env) (node_size g) period (g_traffic g)) g) (\<lambda>u g.
         draw_on_gui drop_arrows (\<lambda>p. drop_arrows_update (\<lambda>x. p))
             (update_drops_view (viz_log env) (edge_of_screen env) (node_size g) period (g_traffic g)) g)))"

section \<open>The state\<close>

datatype sim_pc = AtLoop | AtWait | AtClear | AtCheck | AtAcquire | Running | AtRelease | Ended

datatype thread_id = SimThread | MainThread

datatype locked_call = CallModel | CallOp scene_op

text \<open>
  The callbacks of the main thread and where they are: \<open>update_view_timeout\<close> of a timer trying to get
  the lock (with whether it has failed before), holding it, and after it; calls that wait for the lock
  and hold it; \<open>_quit\<close> before \<open>go.set()\<close> and in \<open>join()\<close>.
\<close>

datatype frame =
    ViewTry nat bool | ViewHold nat "string list" | ViewDone nat "string list"
  | CallWait locked_call | CallHold locked_call | QuitGo | QuitJoin

record viz =
  v_world :: world
  v_gui :: gui
  v_quit :: bool
  v_go :: bool
  v_lock :: "thread_id option"
  v_pc :: sim_pc
  target_time :: rat
  pause_messages :: "string list"
  idle_calls :: nat
  play :: bool
  v_speed :: rat
  sample_period :: rat
  timers :: "nat list"
  next_timer :: nat
  timer_id :: "nat option"
  timer_interval :: int
  frames :: "frame list"
  dialogs :: "string list list"
  main_left :: bool
  glib_warnings :: nat
  v_errors :: nat

section \<open>The simulation thread\<close>

definition sim_step :: "viz_env \<Rightarrow> viz \<Rightarrow> viz option" where
  "sim_step env s =
     (case v_pc s of
        AtLoop \<Rightarrow> Some (s\<lparr>v_pc := if v_quit s then Ended else AtWait\<rparr>)
      | AtWait \<Rightarrow> if v_go s then Some (s\<lparr>v_pc := AtClear\<rparr>) else None
      | AtClear \<Rightarrow> Some (s\<lparr>v_go := False, v_pc := AtCheck\<rparr>)
      | AtCheck \<Rightarrow> Some (s\<lparr>v_pc := if v_quit s then Ended else AtAcquire\<rparr>)
      | AtAcquire \<Rightarrow> if v_lock s = None then Some (s\<lparr>v_lock := Some SimThread, v_pc := Running\<rparr>) else None
      | Running \<Rightarrow>
          (let w = run_until env (target_time s) (v_world s)
           in Some (s\<lparr>v_world := w, pause_messages := pause_messages s @ w_pauses w,
                      idle_calls := idle_calls s + 1, v_pc := AtRelease\<rparr>))
      | AtRelease \<Rightarrow> Some (s\<lparr>v_lock := None, v_pc := AtLoop\<rparr>)
      | Ended \<Rightarrow> None)"

section \<open>Timers\<close>

definition base_period :: rat where
  "base_period = 1 / 10"

definition source_remove :: "nat \<Rightarrow> viz \<Rightarrow> viz" where
  "source_remove k s =
     (if k \<in> set (timers s) then s\<lparr>timers := removeAll k (timers s)\<rparr>
      else s\<lparr>glib_warnings := glib_warnings s + 1\<rparr>)"

definition remove_update_timer :: "viz \<Rightarrow> viz" where
  "remove_update_timer s = (case timer_id s of None \<Rightarrow> s | Some k \<Rightarrow> source_remove k s)"

definition start_update_timer :: "viz \<Rightarrow> viz" where
  "start_update_timer s =
     (let s = remove_update_timer s; k = next_timer s
      in s\<lparr>timers := timers s @ [k], next_timer := k + 1, timer_id := Some k,
           timer_interval := \<lfloor>base_period / min (v_speed s) 1 * 1000\<rfloor>\<rparr>)"

definition speed_changed :: "rat \<Rightarrow> viz \<Rightarrow> viz" where
  "speed_changed v s = start_update_timer (s\<lparr>v_speed := v, sample_period := base_period * v\<rparr>)"

definition set_play :: "bool \<Rightarrow> viz \<Rightarrow> viz" where
  "set_play b s =
     (if play s = b then s
      else
        (let s = s\<lparr>play := b\<rparr>
         in if b then start_update_timer s else remove_update_timer s))"

section \<open>The main thread\<close>

definition frame_timer :: "frame \<Rightarrow> nat option" where
  "frame_timer f = (case f of ViewTry i b \<Rightarrow> Some i | ViewHold i ms \<Rightarrow> Some i | ViewDone i ms \<Rightarrow> Some i | _ \<Rightarrow> None)"

text \<open>The end of \<open>update_view_timeout\<close>, after the lock is released.\<close>

definition finish_view :: "nat \<Rightarrow> string list \<Rightarrow> viz \<Rightarrow> viz" where
  "finish_view i msgs s =
     (let s = (if msgs \<noteq> [] then set_play False (s\<lparr>dialogs := dialogs s @ [msgs]\<rparr>) else s)
      in if \<not> play s then s\<lparr>timer_id := None, timers := removeAll i (timers s)\<rparr>
         else s\<lparr>v_go := True\<rparr>)"

definition run_call :: "locked_call \<Rightarrow> viz \<Rightarrow> viz" where
  "run_call c s =
     (case c of
        CallModel \<Rightarrow>
          s\<lparr>v_gui := (v_gui s)\<lparr>g_traffic := do_simulation_periodic_update (v_world s) (g_traffic (v_gui s))\<rparr>\<rparr>
      | CallOp op \<Rightarrow>
          (case run_op op (v_world s, g_scene (v_gui s)) of
             (w, sc) \<Rightarrow> s\<lparr>v_world := w, v_gui := (v_gui s)\<lparr>g_scene := sc\<rparr>\<rparr>))"

text \<open>The operations on the scene that talk to the simulator take the lock.\<close>

definition needs_lock :: "scene \<Rightarrow> scene_op \<Rightarrow> bool" where
  "needs_lock sc op \<longleftrightarrow>
     (case op of
        OpMode m \<Rightarrow> True | OpBeginDrag i p \<Rightarrow> True | OpDragMotion i p \<Rightarrow> True
      | OpSelect r \<Rightarrow> show_mode sc = ShowSelected \<and>
          (case resolve_node sc r of Inr new \<Rightarrow> new \<noteq> selected_node sc | Inl e \<Rightarrow> False)
      | _ \<Rightarrow> False)"

text \<open>One step of the callback on top of the stack; \<open>None\<close> if it has to wait.\<close>

definition callback_step :: "viz_env \<Rightarrow> viz \<Rightarrow> viz option" where
  "callback_step env s =
     (case frames s of
        [] \<Rightarrow> None
      | f # fs \<Rightarrow>
         (case f of
            ViewTry i b \<Rightarrow>
              (if v_lock s = None
               then Some (s\<lparr>v_lock := Some MainThread, pause_messages := [],
                            frames := ViewHold i (pause_messages s) # fs\<rparr>)
               else Some (s\<lparr>frames := ViewTry i True # fs\<rparr>))
          | ViewHold i msgs \<Rightarrow>
              (case update_view env (sample_period s) (v_world s) (v_gui s) of
                 (g, Inr u) \<Rightarrow>
                   Some (s\<lparr>v_gui := g, target_time := w_now (v_world s) + sample_period s, v_lock := None,
                           frames := ViewDone i msgs # fs\<rparr>)
               | (g, Inl e) \<Rightarrow>
                   Some (s\<lparr>v_gui := g, v_lock := None, frames := fs, timers := removeAll i (timers s),
                           v_errors := v_errors s + 1\<rparr>))
          | ViewDone i msgs \<Rightarrow> Some (finish_view i msgs (s\<lparr>frames := fs\<rparr>))
          | CallWait c \<Rightarrow>
              (if v_lock s = None then Some (s\<lparr>v_lock := Some MainThread, frames := CallHold c # fs\<rparr>) else None)
          | CallHold c \<Rightarrow> Some ((run_call c s)\<lparr>v_lock := None, frames := fs\<rparr>)
          | QuitGo \<Rightarrow> Some (s\<lparr>v_go := True, frames := QuitJoin # fs\<rparr>)
          | QuitJoin \<Rightarrow> if v_pc s = Ended then Some (s\<lparr>main_left := True, frames := fs\<rparr>) else None))"

text \<open>
  Events are dispatched by the main loop, which ends at \<open>Gtk.main_quit()\<close>, and if \<open>nested\<close> also by the
  loop in which \<open>update_view_timeout\<close> waits for the lock.
\<close>

datatype viz_event = FireTimer nat | FireModel | TogglePlay | ChangeSpeed rat | CloseWindow | UseScene scene_op

definition dispatching :: "bool \<Rightarrow> viz \<Rightarrow> bool" where
  "dispatching nested s \<longleftrightarrow>
     (case frames s of [] \<Rightarrow> \<not> main_left s | f # fs \<Rightarrow> nested \<and> (case f of ViewTry i b \<Rightarrow> b | _ \<Rightarrow> False))"

definition event_possible :: "viz_event \<Rightarrow> viz \<Rightarrow> bool" where
  "event_possible e s \<longleftrightarrow>
     (case e of
        FireTimer i \<Rightarrow> i \<in> set (timers s) \<and> Some i \<notin> set (map frame_timer (frames s))
      | FireModel \<Rightarrow> idle_calls s > 0
      | ChangeSpeed v \<Rightarrow> 1 / 100 \<le> v \<and> v \<le> 10 \<and> v \<noteq> v_speed s
      | CloseWindow \<Rightarrow> \<not> v_quit s
      | UseScene op \<Rightarrow> op_possible (g_scene (v_gui s)) op
      | TogglePlay \<Rightarrow> True)"

definition push_frame :: "frame \<Rightarrow> viz \<Rightarrow> viz" where
  "push_frame f s = s\<lparr>frames := f # frames s\<rparr>"

definition handle_event :: "viz_event \<Rightarrow> viz \<Rightarrow> viz" where
  "handle_event e s =
     (case e of
        FireTimer i \<Rightarrow> push_frame (ViewTry i False) s
      | FireModel \<Rightarrow> push_frame (CallWait CallModel) (s\<lparr>idle_calls := idle_calls s - 1\<rparr>)
      | TogglePlay \<Rightarrow> set_play (\<not> play s) s
      | ChangeSpeed v \<Rightarrow> speed_changed v s
      | CloseWindow \<Rightarrow>
          push_frame QuitGo ((remove_update_timer s)\<lparr>timer_id := None, v_quit := True\<rparr>)
      | UseScene op \<Rightarrow> if needs_lock (g_scene (v_gui s)) op then push_frame (CallWait (CallOp op)) s else run_call (CallOp op) s)"

text \<open>Building the window calls \<open>_speed_changed\<close>, so the timer runs before the simulation is started.\<close>

definition start_viz :: "world \<Rightarrow> gui \<Rightarrow> viz" where
  "start_viz w g =
     speed_changed 1
       \<lparr>v_world = w, v_gui = g, v_quit = False, v_go = False, v_lock = None, v_pc = AtLoop, target_time = 0,
        pause_messages = [], idle_calls = 0, play = False, v_speed = 1, sample_period = base_period,
        timers = [], next_timer = 1, timer_id = None, timer_interval = 0, frames = [], dialogs = [],
        main_left = False, glib_warnings = 0, v_errors = 0\<rparr>"

definition start_gui :: "scene \<Rightarrow> gui" where
  "start_gui sc =
     \<lparr>g_scene = sc, g_traffic = \<lparr>last_transmissions = [], last_drops = [], smoothing = 1 / 2\<rparr>,
      transmission_arrows = [], drop_arrows = [], g_arrows = \<lparr>arrow_at = (\<lambda>a. new_arrow), arrow_count = 0\<rparr>,
      time_label = 0, node_size = 1\<rparr>"

inductive viz_reached :: "viz_env \<Rightarrow> bool \<Rightarrow> viz \<Rightarrow> bool" for env nested where
  viz_started: "w_now w = 0 \<Longrightarrow> viz_reached env nested (start_viz w (start_gui sc))"
| simulates: "viz_reached env nested s \<Longrightarrow> sim_step env s = Some t \<Longrightarrow> viz_reached env nested t"
| called_back: "viz_reached env nested s \<Longrightarrow> callback_step env s = Some t \<Longrightarrow> viz_reached env nested t"
| dispatched: "viz_reached env nested s \<Longrightarrow> dispatching nested s \<Longrightarrow> event_possible e s \<Longrightarrow>
    viz_reached env nested (handle_event e s)"

section \<open>What the operations leave alone\<close>

lemma source_remove_simps [simp]:
  "v_world (source_remove k s) = v_world s" "v_gui (source_remove k s) = v_gui s" "v_quit (source_remove k s) = v_quit s"
  "v_go (source_remove k s) = v_go s" "v_lock (source_remove k s) = v_lock s" "v_pc (source_remove k s) = v_pc s"
  "target_time (source_remove k s) = target_time s" "pause_messages (source_remove k s) = pause_messages s"
  "idle_calls (source_remove k s) = idle_calls s" "play (source_remove k s) = play s"
  "v_speed (source_remove k s) = v_speed s" "sample_period (source_remove k s) = sample_period s"
  "timers (source_remove k s) = removeAll k (timers s)" "next_timer (source_remove k s) = next_timer s"
  "timer_id (source_remove k s) = timer_id s" "frames (source_remove k s) = frames s"
  "dialogs (source_remove k s) = dialogs s" "main_left (source_remove k s) = main_left s"
  "v_errors (source_remove k s) = v_errors s"
  by (simp_all add: source_remove_def)

lemma remove_update_timer_simps [simp]:
  "v_world (remove_update_timer s) = v_world s" "v_gui (remove_update_timer s) = v_gui s"
  "v_quit (remove_update_timer s) = v_quit s" "v_go (remove_update_timer s) = v_go s"
  "v_lock (remove_update_timer s) = v_lock s" "v_pc (remove_update_timer s) = v_pc s"
  "target_time (remove_update_timer s) = target_time s" "pause_messages (remove_update_timer s) = pause_messages s"
  "idle_calls (remove_update_timer s) = idle_calls s" "play (remove_update_timer s) = play s"
  "v_speed (remove_update_timer s) = v_speed s" "sample_period (remove_update_timer s) = sample_period s"
  "timers (remove_update_timer s) = (case timer_id s of None \<Rightarrow> timers s | Some k \<Rightarrow> removeAll k (timers s))"
  "next_timer (remove_update_timer s) = next_timer s" "timer_id (remove_update_timer s) = timer_id s"
  "frames (remove_update_timer s) = frames s" "dialogs (remove_update_timer s) = dialogs s"
  "main_left (remove_update_timer s) = main_left s" "v_errors (remove_update_timer s) = v_errors s"
  by (simp_all add: remove_update_timer_def split: option.split)

lemma start_update_timer_simps [simp]:
  "v_world (start_update_timer s) = v_world s" "v_gui (start_update_timer s) = v_gui s"
  "v_quit (start_update_timer s) = v_quit s" "v_go (start_update_timer s) = v_go s"
  "v_lock (start_update_timer s) = v_lock s" "v_pc (start_update_timer s) = v_pc s"
  "target_time (start_update_timer s) = target_time s" "pause_messages (start_update_timer s) = pause_messages s"
  "idle_calls (start_update_timer s) = idle_calls s" "play (start_update_timer s) = play s"
  "v_speed (start_update_timer s) = v_speed s" "sample_period (start_update_timer s) = sample_period s"
  "timers (start_update_timer s) = timers (remove_update_timer s) @ [next_timer s]"
  "next_timer (start_update_timer s) = next_timer s + 1" "timer_id (start_update_timer s) = Some (next_timer s)"
  "frames (start_update_timer s) = frames s" "dialogs (start_update_timer s) = dialogs s"
  "main_left (start_update_timer s) = main_left s" "v_errors (start_update_timer s) = v_errors s"
  by (simp_all add: start_update_timer_def Let_def)

lemma set_play_simps [simp]:
  "v_world (set_play b s) = v_world s" "v_gui (set_play b s) = v_gui s" "v_quit (set_play b s) = v_quit s"
  "v_go (set_play b s) = v_go s" "v_lock (set_play b s) = v_lock s" "v_pc (set_play b s) = v_pc s"
  "target_time (set_play b s) = target_time s" "pause_messages (set_play b s) = pause_messages s"
  "idle_calls (set_play b s) = idle_calls s" "play (set_play b s) = b"
  "v_speed (set_play b s) = v_speed s" "sample_period (set_play b s) = sample_period s"
  "frames (set_play b s) = frames s" "dialogs (set_play b s) = dialogs s"
  "main_left (set_play b s) = main_left s" "v_errors (set_play b s) = v_errors s"
  by (auto simp: set_play_def Let_def)

lemma speed_changed_simps [simp]:
  "v_world (speed_changed v s) = v_world s" "v_gui (speed_changed v s) = v_gui s" "v_quit (speed_changed v s) = v_quit s"
  "v_go (speed_changed v s) = v_go s" "v_lock (speed_changed v s) = v_lock s" "v_pc (speed_changed v s) = v_pc s"
  "target_time (speed_changed v s) = target_time s" "pause_messages (speed_changed v s) = pause_messages s"
  "idle_calls (speed_changed v s) = idle_calls s" "play (speed_changed v s) = play s"
  "v_speed (speed_changed v s) = v" "sample_period (speed_changed v s) = base_period * v"
  "frames (speed_changed v s) = frames s" "dialogs (speed_changed v s) = dialogs s"
  "main_left (speed_changed v s) = main_left s" "v_errors (speed_changed v s) = v_errors s"
  by (simp_all add: speed_changed_def)

lemma finish_view_simps [simp]:
  "v_world (finish_view i ms s) = v_world s" "v_gui (finish_view i ms s) = v_gui s"
  "v_quit (finish_view i ms s) = v_quit s" "v_lock (finish_view i ms s) = v_lock s"
  "v_pc (finish_view i ms s) = v_pc s" "target_time (finish_view i ms s) = target_time s"
  "pause_messages (finish_view i ms s) = pause_messages s" "idle_calls (finish_view i ms s) = idle_calls s"
  "v_speed (finish_view i ms s) = v_speed s" "sample_period (finish_view i ms s) = sample_period s"
  "frames (finish_view i ms s) = frames s" "main_left (finish_view i ms s) = main_left s"
  "v_errors (finish_view i ms s) = v_errors s" "play (finish_view i ms s) = (play s \<and> ms = [])"
  "v_go (finish_view i ms s) = (v_go s \<or> (play s \<and> ms = []))"
  "dialogs (finish_view i ms s) = (if ms = [] then dialogs s else dialogs s @ [ms])"
  by (auto simp: finish_view_def Let_def)

lemma run_call_simps [simp]:
  "v_quit (run_call c s) = v_quit s" "v_go (run_call c s) = v_go s" "v_lock (run_call c s) = v_lock s"
  "v_pc (run_call c s) = v_pc s" "target_time (run_call c s) = target_time s"
  "pause_messages (run_call c s) = pause_messages s" "idle_calls (run_call c s) = idle_calls s"
  "play (run_call c s) = play s" "v_speed (run_call c s) = v_speed s" "sample_period (run_call c s) = sample_period s"
  "timers (run_call c s) = timers s" "next_timer (run_call c s) = next_timer s" "timer_id (run_call c s) = timer_id s"
  "frames (run_call c s) = frames s" "dialogs (run_call c s) = dialogs s" "main_left (run_call c s) = main_left s"
  "v_errors (run_call c s) = v_errors s"
  by (simp_all add: run_call_def split: locked_call.split prod.split)

lemma push_frame_simps [simp]:
  "v_world (push_frame f s) = v_world s" "v_gui (push_frame f s) = v_gui s" "v_quit (push_frame f s) = v_quit s"
  "v_go (push_frame f s) = v_go s" "v_lock (push_frame f s) = v_lock s" "v_pc (push_frame f s) = v_pc s"
  "target_time (push_frame f s) = target_time s" "pause_messages (push_frame f s) = pause_messages s"
  "idle_calls (push_frame f s) = idle_calls s" "play (push_frame f s) = play s"
  "v_speed (push_frame f s) = v_speed s" "sample_period (push_frame f s) = sample_period s"
  "timers (push_frame f s) = timers s" "next_timer (push_frame f s) = next_timer s" "timer_id (push_frame f s) = timer_id s"
  "frames (push_frame f s) = f # frames s" "dialogs (push_frame f s) = dialogs s"
  "main_left (push_frame f s) = main_left s" "v_errors (push_frame f s) = v_errors s"
  by (simp_all add: push_frame_def)

section \<open>The lock\<close>

definition holds :: "frame \<Rightarrow> bool" where
  "holds f \<longleftrightarrow> (case f of ViewHold i ms \<Rightarrow> True | CallHold c \<Rightarrow> True | _ \<Rightarrow> False)"

lemma holds_simps [simp]:
  "\<not> holds (ViewTry i b)" "holds (ViewHold i ms)" "\<not> holds (ViewDone i ms)" "\<not> holds (CallWait c)" "holds (CallHold c)"
  "\<not> holds QuitGo" "\<not> holds QuitJoin"
  by (simp_all add: holds_def)

text \<open>Only the callback on top can hold the lock, the others are views that wait for it.\<close>

definition lock_inv :: "viz \<Rightarrow> bool" where
  "lock_inv s \<longleftrightarrow>
     (v_lock s = Some SimThread \<longleftrightarrow> v_pc s = Running \<or> v_pc s = AtRelease) \<and>
     (v_lock s = Some MainThread \<longleftrightarrow> (\<exists>f fs. frames s = f # fs \<and> holds f)) \<and>
     (\<forall>f \<in> set (tl (frames s)). \<exists>i. f = ViewTry i True)"

lemma lock_inv_sim: "lock_inv s \<Longrightarrow> sim_step env s = Some t \<Longrightarrow> lock_inv t"
  by (auto simp: lock_inv_def sim_step_def Let_def split: sim_pc.splits if_splits)

lemma lock_inv_pop:
  assumes "lock_inv s" and "frames s = f # fs"
  shows "\<forall>f \<in> set fs. \<not> holds f" and "\<forall>f \<in> set (tl fs). \<exists>i. f = ViewTry i True"
  using assms by (force simp: lock_inv_def, cases fs, auto simp: lock_inv_def)

lemma lock_inv_callback: "lock_inv s \<Longrightarrow> callback_step env s = Some t \<Longrightarrow> lock_inv t"
proof -
  assume inv: "lock_inv s" and step: "callback_step env s = Some t"
  then obtain f fs where fs: "frames s = f # fs" by (auto simp: callback_step_def split: list.splits)
  note pop = lock_inv_pop [OF inv fs]
  have none: "\<not> (\<exists>g gs. fs = g # gs \<and> holds g)" using pop(1) by auto
  have tops: "\<forall>f \<in> set fs. \<exists>i. f = ViewTry i True" using inv fs by (simp add: lock_inv_def)
  show ?thesis
    using step inv fs none tops pop(2)
    by (cases f) (auto simp: callback_step_def lock_inv_def split: if_splits sum.splits prod.splits)
qed

lemma lock_inv_event: "lock_inv s \<Longrightarrow> dispatching nested s \<Longrightarrow> lock_inv (handle_event e s)"
proof -
  assume inv: "lock_inv s" and d: "dispatching nested s"
  have "\<forall>f \<in> set (frames s). \<exists>i. f = ViewTry i True"
    using inv d by (auto simp: lock_inv_def dispatching_def split: list.splits frame.splits)
  moreover from this have "\<not> (\<exists>f fs. frames s = f # fs \<and> holds f)" by auto
  ultimately show ?thesis using inv
    by (auto simp: lock_inv_def handle_event_def split: viz_event.split)
qed

lemma lock_inv_reached: "viz_reached env nested s \<Longrightarrow> lock_inv s"
proof (induction rule: viz_reached.induct)
  case (viz_started w sc)
  then show ?case by (simp add: start_viz_def lock_inv_def)
qed (blast intro: lock_inv_sim lock_inv_callback lock_inv_event)+

section \<open>The main thread is never blocked for ever\<close>

fun sim_run :: "viz_env \<Rightarrow> nat \<Rightarrow> viz \<Rightarrow> viz option" where
  "sim_run env 0 s = Some s"
| "sim_run env (Suc n) s = Option.bind (sim_step env s) (sim_run env n)"

definition quit_inv :: "viz \<Rightarrow> bool" where
  "quit_inv s \<longleftrightarrow>
     (v_quit s \<and> v_pc s = AtWait \<longrightarrow> v_go s \<or> QuitGo \<in> set (frames s)) \<and>
     (QuitGo \<in> set (frames s) \<or> QuitJoin \<in> set (frames s) \<longrightarrow> v_quit s)"

lemma quit_inv_sim: "quit_inv s \<Longrightarrow> sim_step env s = Some t \<Longrightarrow> quit_inv t"
  by (auto simp: quit_inv_def sim_step_def Let_def split: sim_pc.splits if_splits)

lemma quit_inv_callback: "quit_inv s \<Longrightarrow> callback_step env s = Some t \<Longrightarrow> quit_inv t"
proof -
  assume inv: "quit_inv s" and step: "callback_step env s = Some t"
  then obtain f fs where fs: "frames s = f # fs" by (auto simp: callback_step_def split: list.splits)
  show ?thesis using step inv fs
    by (cases f) (auto simp: callback_step_def quit_inv_def split: if_splits sum.splits prod.splits)
qed

lemma quit_inv_event: "quit_inv s \<Longrightarrow> quit_inv (handle_event e s)"
  by (auto simp: quit_inv_def handle_event_def split: viz_event.split)

lemma quit_inv_reached: "viz_reached env nested s \<Longrightarrow> quit_inv s"
proof (induction rule: viz_reached.induct)
  case (viz_started w sc)
  then show ?case by (simp add: start_viz_def quit_inv_def)
qed (blast intro: quit_inv_sim quit_inv_callback quit_inv_event)+

lemma joined_soon:
  assumes "lock_inv s" and "quit_inv s" and "v_quit s" and "frames s = QuitJoin # fs"
  shows "\<exists>n \<le> 4. \<exists>t. sim_run env n s = Some t \<and> v_pc t = Ended \<and> frames t = frames s"
proof -
  have lock: "v_lock s \<noteq> Some MainThread" and fs: "QuitGo \<notin> set fs"
    using assms(1,4) by (auto simp: lock_inv_def)
  have go: "v_pc s = AtWait \<Longrightarrow> v_go s" using assms(2,3,4) fs by (auto simp: quit_inv_def)
  have free: "v_pc s = AtAcquire \<Longrightarrow> v_lock s = None"
    using assms(1) lock by (cases "v_lock s"; cases "the (v_lock s)") (auto simp: lock_inv_def)
  show ?thesis
  proof (cases "v_pc s")
    case AtLoop
    then show ?thesis using assms(3) by (intro exI [of _ 1]) (simp add: sim_step_def)
  next
    case AtWait
    then show ?thesis using assms(3) go by (intro exI [of _ 3]) (simp add: sim_step_def eval_nat_numeral)
  next
    case AtClear
    then show ?thesis using assms(3) by (intro exI [of _ 2]) (simp add: sim_step_def eval_nat_numeral)
  next
    case AtCheck
    then show ?thesis using assms(3) by (intro exI [of _ 1]) (simp add: sim_step_def)
  next
    case AtAcquire
    then show ?thesis using assms(3) free
      by (intro exI [of _ 4]) (simp add: sim_step_def eval_nat_numeral Let_def)
  next
    case Running
    then show ?thesis using assms(3) by (intro exI [of _ 3]) (simp add: sim_step_def eval_nat_numeral Let_def)
  next
    case AtRelease
    then show ?thesis using assms(3) by (intro exI [of _ 2]) (simp add: sim_step_def eval_nat_numeral)
  next
    case Ended
    then show ?thesis by (intro exI [of _ 0]) simp
  qed
qed

lemma released_soon:
  assumes "lock_inv s" and "v_lock s = Some SimThread"
  shows "\<exists>n \<le> 2. \<exists>t. sim_run env n s = Some t \<and> v_lock t = None \<and> frames t = frames s"
proof (cases "v_pc s = Running")
  case True
  then show ?thesis by (intro exI [of _ 2]) (simp add: sim_step_def eval_nat_numeral Let_def)
next
  case False
  then have "v_pc s = AtRelease" using assms by (simp add: lock_inv_def)
  then show ?thesis by (intro exI [of _ 1]) (simp add: sim_step_def)
qed

text \<open>C23: In every state the two threads can reach, with any events and also after exceptions, a
  callback of the main thread can go on at once or after at most four steps of the simulation
  thread alone: the lock it waits for is never its own, and \<open>_quit\<close> never waits in vain for the end
  of the simulation thread.\<close>

theorem main_never_stuck:
  assumes "viz_reached env nested s" and "frames s \<noteq> []"
  shows "\<exists>n \<le> 4. \<exists>t. sim_run env n s = Some t \<and> callback_step env t \<noteq> None"
proof -
  have inv: "lock_inv s" "quit_inv s" using assms(1) by (rule lock_inv_reached, rule quit_inv_reached)
  obtain f fs where fs: "frames s = f # fs" using assms(2) by (cases "frames s") auto
  have here: ?thesis if "callback_step env s \<noteq> None"
    using that by (intro exI [of _ 0]) simp
  show ?thesis
  proof (cases f)
    case (CallWait c)
    then have "v_lock s \<noteq> Some MainThread" using inv(1) fs by (auto simp: lock_inv_def)
    then consider "v_lock s = None" | "v_lock s = Some SimThread"
      by (cases "v_lock s"; cases "the (v_lock s)") auto
    then show ?thesis
    proof cases
      case 1
      then show ?thesis using here CallWait fs by (simp add: callback_step_def)
    next
      case 2
      from released_soon [OF inv(1) this, of env] obtain n t where
        "n \<le> 2" "sim_run env n s = Some t" "v_lock t = None" "frames t = frames s" by blast
      then show ?thesis using CallWait fs by (intro exI [of _ n]) (simp add: callback_step_def)
    qed
  next
    case QuitJoin
    then have "v_quit s" using inv(2) fs by (simp add: quit_inv_def)
    from joined_soon [OF inv this] QuitJoin fs obtain n t where
      "n \<le> 4" "sim_run env n s = Some t" "v_pc t = Ended" "frames t = frames s" by metis
    then show ?thesis using QuitJoin fs by (intro exI [of _ n]) (simp add: callback_step_def)
  qed (use here fs in \<open>auto simp: callback_step_def split: sum.split prod.split\<close>)
qed

section \<open>The clock\<close>

lemma draw_on_gui_time:
  assumes "\<And>p x. time_label (set_pool p x) = time_label x"
  shows "time_label (fst (draw_on_gui pool set_pool f g)) = time_label g"
  using assms by (simp add: draw_on_gui_def split: prod.split)

lemma update_view_time [simp]: "time_label (fst (update_view env period w g)) = w_now w"
proof -
  let ?g = "g\<lparr>time_label := w_now w, g_scene := update_node_positions w (g_scene g)\<rparr>"
  have tx: "time_label (fst (draw_on_gui transmission_arrows (\<lambda>p. transmission_arrows_update (\<lambda>x. p)) f x)) = time_label x"
    and dr: "time_label (fst (draw_on_gui drop_arrows (\<lambda>p. drop_arrows_update (\<lambda>x. p)) f' x)) = time_label x" for f f' x
    by (simp_all add: draw_on_gui_time)
  show ?thesis by (simp add: update_view_def Let_def fst_and_then tx dr split: sum.split)
qed

definition simulator_ok :: "viz_env \<Rightarrow> bool" where
  "simulator_ok env \<longleftrightarrow>
     (\<forall>t w. w_now w \<le> w_now (run_until env t w) \<and> w_now (run_until env t w) \<le> max (w_now w) t)"

definition clock_inv :: "viz \<Rightarrow> bool" where
  "clock_inv s \<longleftrightarrow>
     time_label (v_gui s) \<le> w_now (v_world s) \<and> w_now (v_world s) \<le> target_time s \<and>
     target_time s \<le> time_label (v_gui s) + 1 \<and> 0 < sample_period s \<and> sample_period s \<le> 1"

lemma run_op_now [simp]: "w_now (fst (run_op op (w, s))) = w_now w"
  by (cases op) (auto simp: run_op_def node_drag_motion_def Let_def split: option.split)

lemma clock_inv_sim: "simulator_ok env \<Longrightarrow> clock_inv s \<Longrightarrow> sim_step env s = Some t \<Longrightarrow> clock_inv t"
proof -
  assume env: "simulator_ok env" and inv: "clock_inv s" and step: "sim_step env s = Some t"
  have "w_now (v_world s) \<le> w_now (run_until env (target_time s) (v_world s))"
    and "w_now (run_until env (target_time s) (v_world s)) \<le> max (w_now (v_world s)) (target_time s)"
    using env by (auto simp: simulator_ok_def)
  with inv step show ?thesis
    by (auto simp: clock_inv_def sim_step_def Let_def max_def split: sim_pc.splits if_splits)
qed

lemma run_call_clock: "clock_inv s \<Longrightarrow> clock_inv (run_call c s)"
proof (cases c)
  case (CallOp op)
  assume "clock_inv s"
  then show ?thesis using CallOp by (simp add: clock_inv_def run_call_def case_prod_unfold)
qed (simp add: clock_inv_def run_call_def)

lemma clock_inv_callback: "clock_inv s \<Longrightarrow> callback_step env s = Some t \<Longrightarrow> clock_inv t"
proof -
  assume inv: "clock_inv s" and step: "callback_step env s = Some t"
  obtain f fs where fs: "frames s = f # fs" using step by (auto simp: callback_step_def split: list.splits)
  show ?thesis
  proof (cases f)
    case (ViewHold i ms)
    obtain g r where u: "update_view env (sample_period s) (v_world s) (v_gui s) = (g, r)" by fastforce
    have "time_label g = w_now (v_world s)" using update_view_time [of env "sample_period s" "v_world s" "v_gui s"] u by simp
    then show ?thesis using step inv fs ViewHold u
      by (cases r) (auto simp: callback_step_def clock_inv_def)
  next
    case (CallHold c)
    then show ?thesis using step fs run_call_clock [OF inv, of c]
      by (auto simp: callback_step_def clock_inv_def)
  qed (use step inv fs in \<open>auto simp: callback_step_def clock_inv_def split: if_splits\<close>)
qed

lemma clock_inv_event: "clock_inv s \<Longrightarrow> event_possible e s \<Longrightarrow> clock_inv (handle_event e s)"
proof (cases e)
  case (UseScene op)
  assume "clock_inv s"
  then show ?thesis using UseScene run_call_clock [of s "CallOp op"]
    by (auto simp: handle_event_def, simp add: clock_inv_def)
qed (auto simp: handle_event_def clock_inv_def event_possible_def base_period_def)

lemma clock_inv_reached:
  assumes "simulator_ok env"
  shows "viz_reached env nested s \<Longrightarrow> clock_inv s"
proof (induction rule: viz_reached.induct)
  case (viz_started w sc)
  then show ?case by (simp add: start_viz_def start_gui_def clock_inv_def base_period_def)
next
  case (simulates s t)
  then show ?case using clock_inv_sim [OF assms] by blast
qed (blast intro: clock_inv_callback clock_inv_event)+

text \<open>C25: If the simulator runs forward and not beyond the time it is given, then in every state the
  time of the simulation is at least the time the window shows and at most one second ahead of it;
  it never passes the target the view has set, whatever the speed is set to and however the two
  threads and the timers interleave.\<close>

theorem clock_bounded:
  assumes "simulator_ok env" and "viz_reached env nested s"
  shows "time_label (v_gui s) \<le> w_now (v_world s) \<and> w_now (v_world s) \<le> target_time s \<and>
    target_time s \<le> time_label (v_gui s) + 1"
  using clock_inv_reached [OF assms] by (simp add: clock_inv_def)

section \<open>The update timer\<close>

text \<open>
  While the simulation plays its timer is alive, as long as no update has raised. Without nested
  dispatching there is no other timer.
\<close>

definition timer_inv :: "bool \<Rightarrow> viz \<Rightarrow> bool" where
  "timer_inv nested s \<longleftrightarrow>
     distinct (timers s) \<and> (\<forall>k \<in> set (timers s). k < next_timer s) \<and>
     (v_errors s = 0 \<and> play s \<and> \<not> v_quit s \<longrightarrow> (\<exists>k. timer_id s = Some k \<and> k \<in> set (timers s))) \<and>
     (\<not> nested \<longrightarrow> (\<forall>k \<in> set (timers s). timer_id s = Some k) \<and>
        (\<forall>f \<in> set (frames s). \<forall>i. frame_timer f = Some i \<longrightarrow> set (timers s) \<subseteq> {i}))"

lemma frame_timer_simps [simp]:
  "frame_timer (ViewTry i b) = Some i" "frame_timer (ViewHold i ms) = Some i" "frame_timer (ViewDone i ms) = Some i"
  "frame_timer (CallWait c) = None" "frame_timer (CallHold c) = None" "frame_timer QuitGo = None" "frame_timer QuitJoin = None"
  by (simp_all add: frame_timer_def)

lemma sim_step_keeps:
  "sim_step env s = Some t \<Longrightarrow>
   timers t = timers s \<and> next_timer t = next_timer s \<and> timer_id t = timer_id s \<and> play t = play s \<and>
   v_quit t = v_quit s \<and> v_errors t = v_errors s \<and> frames t = frames s \<and> dialogs t = dialogs s"
  by (cases "v_pc s") (auto simp: sim_step_def Let_def split: if_splits)

lemma timer_inv_sim: "timer_inv nested s \<Longrightarrow> sim_step env s = Some t \<Longrightarrow> timer_inv nested t"
  using sim_step_keeps [of env s t] by (simp add: timer_inv_def)

lemma remaining_timers:
  "set (timers (remove_update_timer s)) = set (timers s) - set_option (timer_id s)"
  "distinct (timers s) \<Longrightarrow> distinct (timers (remove_update_timer s))"
  by (cases "timer_id s"; simp add: distinct_removeAll)+

lemma timer_inv_started:
  assumes inv: "timer_inv nested (s\<lparr>play := b\<rparr>)" and flat: "nested \<or> frames s = []"
  shows "timer_inv nested (start_update_timer s)"
proof -
  have d: "distinct (timers s)" "\<forall>k \<in> set (timers s). k < next_timer s"
    and own: "\<not> nested \<Longrightarrow> set (timers s) \<subseteq> set_option (timer_id s)"
    using inv by (auto simp: timer_inv_def)
  have "set (timers (start_update_timer s)) = insert (next_timer s) (set (timers s) - set_option (timer_id s))"
    by (simp only: start_update_timer_simps set_append remaining_timers(1), simp)
  moreover have "distinct (timers (start_update_timer s))"
    using remaining_timers(2) [OF d(1)] d(2) by (auto simp: remaining_timers(1) simp del: remove_update_timer_simps)
  ultimately show ?thesis using d(2) flat own by (auto simp: timer_inv_def)
qed

lemma timer_inv_removed:
  assumes "timer_inv nested s" and "\<not> play s \<or> v_quit s"
  shows "timer_inv nested (remove_update_timer s)"
proof -
  have "set (timers (remove_update_timer s)) \<subseteq> set (timers s)"
    unfolding remaining_timers(1) by (rule Diff_subset)
  moreover have "distinct (timers (remove_update_timer s))"
    using assms(1) remaining_timers(2) by (simp add: timer_inv_def)
  ultimately show ?thesis using assms
    by (auto simp: timer_inv_def subset_iff simp del: remove_update_timer_simps(13))
qed

lemma timer_inv_set_play:
  assumes "timer_inv nested s" and "nested \<or> frames s = [] \<or> \<not> b"
  shows "timer_inv nested (set_play b s)"
proof (cases "play s = b")
  case True
  then show ?thesis using assms(1) by (simp add: set_play_def)
next
  case False
  show ?thesis
  proof (cases b)
    case True
    have "set_play b s = start_update_timer (s\<lparr>play := True\<rparr>)" using False True by (simp add: set_play_def)
    moreover have "timer_inv nested (s\<lparr>play := True\<rparr>\<lparr>play := False\<rparr>)"
      using assms(1) False True by (simp add: timer_inv_def)
    ultimately show ?thesis using timer_inv_started [where s = "s\<lparr>play := True\<rparr>" and b = False and nested = nested] assms(2) True by simp
  next
    case b: False
    have "set_play b s = remove_update_timer (s\<lparr>play := False\<rparr>)" using False b by (simp add: set_play_def)
    moreover have "timer_inv nested (s\<lparr>play := False\<rparr>)" using assms(1) by (simp add: timer_inv_def)
    ultimately show ?thesis using timer_inv_removed [of nested "s\<lparr>play := False\<rparr>"] by simp
  qed
qed

lemma timer_inv_finish:
  assumes "timer_inv nested s" and "\<not> nested \<longrightarrow> set (timers s) \<subseteq> {i} \<and> frames s = []"
  shows "timer_inv nested (finish_view i ms s)"
proof -
  define s1 where "s1 = (if ms \<noteq> [] then set_play False (s\<lparr>dialogs := dialogs s @ [ms]\<rparr>) else s)"
  have "timer_inv nested (s\<lparr>dialogs := dialogs s @ [ms]\<rparr>)" using assms(1) by (simp add: timer_inv_def)
  then have inv: "timer_inv nested s1" using assms(1) timer_inv_set_play [of nested _ False] by (simp add: s1_def)
  have "set (timers s1) \<subseteq> set (timers s)"
    by (auto simp: s1_def set_play_def split: option.splits if_splits)
  then have "\<not> nested \<longrightarrow> set (timers s1) \<subseteq> {i} \<and> frames s1 = []" using assms(2) by (auto simp: s1_def)
  moreover have "finish_view i ms s = (if \<not> play s1 then s1\<lparr>timer_id := None, timers := removeAll i (timers s1)\<rparr>
      else s1\<lparr>v_go := True\<rparr>)" by (simp add: finish_view_def s1_def Let_def)
  ultimately show ?thesis using inv
    by (auto simp: timer_inv_def distinct_removeAll)
qed

lemma timer_inv_callback:
  assumes "timer_inv nested s" and "callback_step env s = Some t" and "\<not> nested \<longrightarrow> length (frames s) \<le> 1"
  shows "timer_inv nested t"
proof -
  obtain f fs where fs: "frames s = f # fs" using assms(2) by (auto simp: callback_step_def split: list.splits)
  have flat: "\<not> nested \<longrightarrow> fs = []" using assms(3) fs by simp
  show ?thesis
  proof (cases f)
    case (ViewDone i ms)
    have "timer_inv nested (s\<lparr>frames := fs\<rparr>)" using assms(1) fs by (auto simp: timer_inv_def)
    moreover have "\<not> nested \<longrightarrow> set (timers s) \<subseteq> {i}" using assms(1) fs ViewDone by (auto simp: timer_inv_def)
    ultimately show ?thesis using assms(2) fs ViewDone flat timer_inv_finish [of nested "s\<lparr>frames := fs\<rparr>" i ms]
      by (auto simp: callback_step_def)
  next
    case (ViewHold i ms)
    then show ?thesis using assms(1,2) fs flat
      by (auto simp: callback_step_def timer_inv_def distinct_removeAll split: prod.splits sum.splits)
  qed (use assms(1,2) fs flat in \<open>auto simp: callback_step_def timer_inv_def split: if_splits\<close>)
qed

lemma flat_frames: "viz_reached env False s \<Longrightarrow> length (frames s) \<le> 1"
proof (induction rule: viz_reached.induct)
  case (viz_started w sc)
  then show ?case by (simp add: start_viz_def)
next
  case (simulates s t)
  then show ?case by (auto simp: sim_step_def Let_def split: sim_pc.splits if_splits)
next
  case (called_back s t)
  then show ?case by (auto simp: callback_step_def split: list.splits frame.splits if_splits sum.splits prod.splits)
next
  case (dispatched s e)
  then have "frames s = []" by (auto simp: dispatching_def split: list.splits frame.splits)
  then show ?case by (auto simp: handle_event_def split: viz_event.split)
qed

lemma timer_inv_event:
  assumes "timer_inv nested s" and "dispatching nested s" and "event_possible e s"
  shows "timer_inv nested (handle_event e s)"
proof -
  have flat: "nested \<or> frames s = []" using assms(2) by (auto simp: dispatching_def split: list.splits frame.splits)
  show ?thesis
  proof (cases e)
    case (FireTimer i)
    then have i: "i \<in> set (timers s)" using assms(3) by (simp add: event_possible_def)
    have "\<not> nested \<Longrightarrow> set (timers s) \<subseteq> {i}"
    proof -
      assume "\<not> nested"
      then have "\<forall>k \<in> set (timers s). timer_id s = Some k" using assms(1) by (simp add: timer_inv_def)
      then show "set (timers s) \<subseteq> {i}" using i by (metis option.inject singletonI subsetI)
    qed
    then show ?thesis using FireTimer assms(1) flat by (simp add: timer_inv_def handle_event_def)
  next
    case (ChangeSpeed v)
    let ?s = "s\<lparr>v_speed := v, sample_period := base_period * v\<rparr>"
    have "timer_inv nested (?s\<lparr>play := play s\<rparr>)" using assms(1) by (simp add: timer_inv_def)
    from timer_inv_started [OF this] show ?thesis using ChangeSpeed flat
      by (simp add: handle_event_def speed_changed_def)
  next
    case TogglePlay
    have "nested \<or> frames s = [] \<or> play s" using flat by blast
    then show ?thesis using timer_inv_set_play [OF assms(1), of "\<not> play s"] TogglePlay
      by (simp add: handle_event_def)
  next
    case CloseWindow
    have "distinct (timers (remove_update_timer s))"
      using assms(1) remaining_timers(2) by (simp add: timer_inv_def)
    moreover have "set (timers (remove_update_timer s)) = set (timers s) - set_option (timer_id s)"
      by (rule remaining_timers)
    moreover have "\<not> nested \<Longrightarrow> set (timers s) \<subseteq> set_option (timer_id s)" "\<forall>k \<in> set (timers s). k < next_timer s"
      using assms(1) by (auto simp: timer_inv_def)
    ultimately show ?thesis using CloseWindow flat
      by (auto simp: handle_event_def timer_inv_def simp del: remove_update_timer_simps(13))
  qed (use assms(1) flat in \<open>auto simp: handle_event_def timer_inv_def\<close>)
qed

lemma timer_inv_reached: "viz_reached env nested s \<Longrightarrow> timer_inv nested s"
proof (induction rule: viz_reached.induct)
  case (viz_started w sc)
  then show ?case by (simp add: start_viz_def speed_changed_def timer_inv_def)
next
  case (called_back s t)
  have "\<not> nested \<longrightarrow> length (frames s) \<le> 1" using called_back(1) flat_frames by (cases nested) auto
  then show ?case using called_back timer_inv_callback by blast
qed (blast intro: timer_inv_sim timer_inv_event)+

text \<open>C26: While the simulation plays, is not being quit and no update of the view has raised, the timer that the window
  remembers is alive, so the view goes on being updated; and if events were only dispatched by the
  main loop there would never be a second timer.\<close>

theorem update_timer_alive:
  assumes "viz_reached env nested s"
  shows "(v_errors s = 0 \<and> play s \<and> \<not> v_quit s \<longrightarrow> (\<exists>k. timer_id s = Some k \<and> k \<in> set (timers s))) \<and>
    (\<not> nested \<longrightarrow> length (timers s) \<le> 1 \<and> (\<forall>k \<in> set (timers s). timer_id s = Some k))"
proof -
  have inv: "timer_inv nested s" by (rule timer_inv_reached [OF assms])
  have "length (timers s) \<le> 1" if "\<not> nested"
  proof -
    have "set (timers s) \<subseteq> set_option (timer_id s)" using inv that by (auto simp: timer_inv_def)
    then have "card (set (timers s)) \<le> card (set_option (timer_id s))" by (intro card_mono) simp_all
    also have "\<dots> \<le> 1" by (cases "timer_id s") simp_all
    finally show ?thesis using inv by (simp add: timer_inv_def distinct_card)
  qed
  with inv show ?thesis by (auto simp: timer_inv_def)
qed

section \<open>Pause messages\<close>

definition frame_messages :: "frame \<Rightarrow> string list" where
  "frame_messages f = (case f of ViewHold i ms \<Rightarrow> ms | ViewDone i ms \<Rightarrow> ms | _ \<Rightarrow> [])"

text \<open>The messages shown, on their way in \<open>update_view_timeout\<close>, and still to be fetched, in this order.\<close>

definition all_messages :: "viz \<Rightarrow> string list" where
  "all_messages s = concat (dialogs s) @ concat (map frame_messages (frames s)) @ pause_messages s"

lemma frame_messages_simps [simp]:
  "frame_messages (ViewTry i b) = []" "frame_messages (ViewHold i ms) = ms" "frame_messages (ViewDone i ms) = ms"
  "frame_messages (CallWait c) = []" "frame_messages (CallHold c) = []" "frame_messages QuitGo = []" "frame_messages QuitJoin = []"
  by (simp_all add: frame_messages_def)

text \<open>C24: As long as no update of the view raises, no pause message is lost, doubled or reordered: a run of the
  simulator appends its messages, every other step of the simulation thread, every event and every callback keeps the
  sequence of the messages shown and still to be shown. An update of the view that raises drops exactly the
  messages it has fetched.\<close>

theorem messages_conserved:
  assumes "viz_reached env nested s"
  shows "(\<forall>t. sim_step env s = Some t \<longrightarrow>
      all_messages t = all_messages s @ (if v_pc s = Running then w_pauses (v_world t) else [])) \<and>
    (\<forall>e. all_messages (handle_event e s) = all_messages s) \<and>
    (\<forall>t. callback_step env s = Some t \<longrightarrow>
      all_messages t = (if v_errors t = v_errors s then all_messages s else concat (dialogs s) @ pause_messages s))"
proof (intro conjI allI impI)
  fix t
  assume "sim_step env s = Some t"
  then show "all_messages t = all_messages s @ (if v_pc s = Running then w_pauses (v_world t) else [])"
    by (cases "v_pc s") (auto simp: sim_step_def Let_def all_messages_def split: if_splits)
next
  fix e
  show "all_messages (handle_event e s) = all_messages s"
    by (simp add: handle_event_def all_messages_def split: viz_event.split)
next
  fix t
  assume step: "callback_step env s = Some t"
  obtain f fs where fs: "frames s = f # fs" using step by (auto simp: callback_step_def split: list.splits)
  have "\<forall>g \<in> set fs. \<exists>i. g = ViewTry i True" using lock_inv_reached [OF assms] fs by (simp add: lock_inv_def)
  then have rest: "concat (map frame_messages fs) = []" by (force simp: concat_eq_Nil_conv)
  show "all_messages t = (if v_errors t = v_errors s then all_messages s else concat (dialogs s) @ pause_messages s)"
  proof (cases f)
    case (ViewHold i ms)
    then show ?thesis using step fs rest
      by (auto simp: callback_step_def all_messages_def simp del: concat_eq_Nil_conv split: prod.splits sum.splits)
  qed (use step fs rest in \<open>auto simp: callback_step_def all_messages_def
      simp del: concat_eq_Nil_conv split: if_splits\<close>)
qed

section \<open>Schedules\<close>

datatype viz_action = Sim | Callback | Event viz_event

definition act :: "viz_env \<Rightarrow> bool \<Rightarrow> viz_action \<Rightarrow> viz \<Rightarrow> viz option" where
  "act env nested a s =
     (case a of
        Sim \<Rightarrow> sim_step env s
      | Callback \<Rightarrow> callback_step env s
      | Event e \<Rightarrow> if dispatching nested s \<and> event_possible e s then Some (handle_event e s) else None)"

fun viz_run :: "viz_env \<Rightarrow> bool \<Rightarrow> viz_action list \<Rightarrow> viz \<Rightarrow> viz option" where
  "viz_run env nested [] s = Some s"
| "viz_run env nested (a # as) s = Option.bind (act env nested a s) (viz_run env nested as)"

lemma viz_run_reached:
  "viz_reached env nested s \<Longrightarrow> viz_run env nested as s = Some t \<Longrightarrow> viz_reached env nested t"
proof (induction "as" arbitrary: s)
  case (Cons a "as")
  then obtain u where u: "act env nested a s = Some u" "viz_run env nested as u = Some t"
    by (auto simp: bind_eq_Some_conv)
  have "viz_reached env nested u"
    using u(1) Cons.prems(1) by (cases a) (auto simp: act_def split: if_splits intro: simulates called_back dispatched)
  with Cons.IH u(2) show ?case by blast
qed simp

text \<open>A simulator that counts its runs: every run sends as many bytes as the time in tenths of seconds.\<close>

definition demo_world :: world where
  "demo_world = \<lparr>w_now = 0, w_nodes = 2, w_mobility = (\<lambda>i. None), w_devices = (\<lambda>i. []), w_channel = (\<lambda>c. []),
     w_tx = [], w_drops = [], w_pauses = []\<rparr>"

definition demo_env :: viz_env where
  "demo_env =
     \<lparr>run_until = (\<lambda>t w. w\<lparr>w_now := max (w_now w) t, w_tx := [(0, 1, nat \<lfloor>t * 10\<rfloor>)]\<rparr>),
      viz_log = (\<lambda>x. x), clip_line = (\<lambda>p q. (p, q)), edge_of_screen = 0, update_windows = (\<lambda>w g. Inr ())\<rparr>"

definition demo_start :: viz where
  "demo_start = start_viz demo_world (start_gui (empty_scene demo_world))"

lemma viz_demo_reached: "viz_reached demo_env nested demo_start"
  unfolding demo_start_def by (rule viz_started) (simp add: demo_world_def)

lemma demo_ok: "simulator_ok demo_env"
  by (simp add: simulator_ok_def demo_env_def)

definition view_tick :: "nat \<Rightarrow> viz_action list" where
  "view_tick i = [Event (FireTimer i), Callback, Callback, Callback]"

definition sim_to_run :: "viz_action list" where
  "sim_to_run = [Sim, Sim, Sim, Sim, Sim]"

text \<open>
  Pausing, changing the speed and playing again while the view waits for the lock leaves two timers:
  the first is forgotten when the waiting view sees that the simulation is paused.
\<close>

definition two_timers :: "viz_action list" where
  "two_timers = [Event TogglePlay] @ view_tick 2 @ sim_to_run @ [Event (FireTimer 2), Callback,
     Event TogglePlay, Event (ChangeSpeed 2), Sim, Sim, Callback, Callback, Callback, Event TogglePlay]"

lemma two_timers_run:
  "map_option (\<lambda>s. (play s, timers s, timer_id s, glib_warnings s, v_errors s)) (viz_run demo_env True two_timers demo_start) =
     Some (True, [3, 4], Some 4, 1, 0)"
  by code_simp

text \<open>
  A run of the simulator whose samples are fetched twice: the view waits for the lock, gets it before the
  idle call of \<open>update_model\<close> is dispatched and starts the next run; the samples of the first are lost.
\<close>

definition samples_overtaken :: "viz_action list" where
  "samples_overtaken = [Event TogglePlay] @ view_tick 2 @ sim_to_run @ [Event (FireTimer 2), Callback, Sim, Sim,
     Callback, Callback, Callback] @ sim_to_run @ [Sim, Sim] @
     [Event FireModel, Callback, Callback, Event FireModel, Callback, Callback]"

lemma samples_overtaken_run:
  "map_option (\<lambda>s. last_transmissions (g_traffic (v_gui s))) (viz_run demo_env False samples_overtaken demo_start) =
     Some [[(0, 1, 2)], [(0, 1, 2)]]"
  by code_simp

text \<open>An update of the view that raises ends the timer: the window still shows that it plays.\<close>

lemma raising_view_stops:
  "map_option (\<lambda>s. (play s, timers s, timer_id s, v_go s, v_errors s))
     (viz_run (demo_env\<lparr>update_windows := (\<lambda>w g. Inl ValueError)\<rparr>) False
        [Event TogglePlay, Event (FireTimer 2), Callback, Callback] demo_start) =
     Some (True, [], Some 2, False, 1)"
  by code_simp

section \<open>The theorems at concrete states\<close>

definition demo_state :: "bool \<Rightarrow> viz_action list \<Rightarrow> viz" where
  "demo_state nested as = the (viz_run demo_env nested as demo_start)"

lemma demo_state_reached:
  assumes "viz_run demo_env nested as demo_start \<noteq> None"
  shows "viz_reached demo_env nested (demo_state nested as)"
  using assms viz_demo_reached [of nested] by (auto simp: demo_state_def intro: viz_run_reached)

lemma map_option_not_None: "map_option f x = Some y \<Longrightarrow> x \<noteq> None \<and> f (the x) = y"
  by (cases x) simp_all

definition closing :: "viz_action list" where
  "closing = [Event TogglePlay] @ view_tick 2 @ sim_to_run @ [Event CloseWindow, Callback]"

lemma closing_run:
  "map_option (\<lambda>s. length (frames s)) (viz_run demo_env False closing demo_start) = Some 1"
  by code_simp

theorem main_never_stuck_witness:
  "\<exists>n \<le> 4. \<exists>t. sim_run demo_env n (demo_state False closing) = Some t \<and> callback_step demo_env t \<noteq> None"
  by (rule main_never_stuck [OF demo_state_reached])
    (use map_option_not_None [OF closing_run] in \<open>auto simp: demo_state_def\<close>)

theorem clock_bounded_witness:
  "w_now (v_world (demo_state False samples_overtaken)) = 1 / 5 \<and>
   w_now (v_world (demo_state False samples_overtaken)) \<le> target_time (demo_state False samples_overtaken)"
proof -
  have run: "map_option (\<lambda>s. w_now (v_world s)) (viz_run demo_env False samples_overtaken demo_start) = Some (1 / 5)"
    by code_simp
  have "viz_reached demo_env False (demo_state False samples_overtaken)"
    using map_option_not_None [OF run] by (intro demo_state_reached) simp
  from clock_bounded [OF demo_ok this] show ?thesis
    using map_option_not_None [OF run] by (simp add: demo_state_def)
qed

theorem update_timer_alive_witness:
  "\<exists>k. timer_id (demo_state True two_timers) = Some k \<and> k \<in> set (timers (demo_state True two_timers))"
proof -
  note run = map_option_not_None [OF two_timers_run]
  have quit: "map_option v_quit (viz_run demo_env True two_timers demo_start) = Some False"
    by code_simp
  have "viz_reached demo_env True (demo_state True two_timers)" using run by (intro demo_state_reached) simp
  from update_timer_alive [OF this] show ?thesis
    using run map_option_not_None [OF quit] by (simp add: demo_state_def)
qed

theorem messages_conserved_witness:
  "all_messages (handle_event TogglePlay (demo_state False closing)) = all_messages (demo_state False closing)"
proof -
  have "viz_reached demo_env False (demo_state False closing)"
    using map_option_not_None [OF closing_run] by (intro demo_state_reached) simp
  from messages_conserved [OF this] show ?thesis by blast
qed

end
