(* ===== verification/VizWindows.thy ===== *)
theory VizWindows
  imports VizSim
begin

text \<open>
  The information windows of the visualizer, which plugins open from the menu of a node: the
  statistics of its interfaces (\<open>plugins/interface_statistics.py\<close>), its routing tables
  (\<open>plugins/ipv4_routing_table.py\<close>, \<open>plugins/olsr.py\<close>) and its last packets
  (\<open>plugins/show_last_packets.py\<close>), with the list of windows of \<open>core.py\<close>. Tables are the rows of
  their list stores, numbers in them are not printed; what the windows ask the simulator is the
  record \<open>net_info\<close>.
\<close>

section \<open>Interface statistics\<close>

record iface_stats =
  tx_packets :: nat
  tx_bytes :: nat
  rx_packets :: nat
  rx_bytes :: nat

definition node_statistics_memory :: nat where
  "node_statistics_memory = 10"

type_synonym statistics = "(nat, iface_stats list list) pydict"

definition collect_node :: "nat \<times> iface_stats list \<Rightarrow> statistics \<Rightarrow> statistics" where
  "collect_node sample d =
     (case sample of (i, x) \<Rightarrow>
        (let raw_stats_list = (case dict_get d i of None \<Rightarrow> [] | Some l \<Rightarrow> l)
         in dict_put i (forget_old node_statistics_memory (raw_stats_list @ [x])) d))"

definition collect_statistics :: "(nat \<times> iface_stats list) list \<Rightarrow> statistics \<Rightarrow> statistics" where
  "collect_statistics nodes_statistics d = fold collect_node nodes_statistics d"

record net_dev_stats =
  o_tx_packets :: nat
  o_tx_bytes :: nat
  o_rx_packets :: nat
  o_rx_bytes :: nat
  tx_packet_rate :: rat
  rx_packet_rate :: rat
  tx_bit_rate :: rat
  rx_bit_rate :: rat

definition rates_between :: "rat \<Rightarrow> iface_stats \<Rightarrow> iface_stats \<Rightarrow> net_dev_stats" where
  "rates_between k old new =
     \<lparr>o_tx_packets = tx_packets new, o_tx_bytes = tx_bytes new, o_rx_packets = rx_packets new, o_rx_bytes = rx_bytes new,
      tx_packet_rate = (of_nat (tx_packets new) - of_nat (tx_packets old)) / k,
      rx_packet_rate = (of_nat (rx_packets new) - of_nat (rx_packets old)) / k,
      tx_bit_rate = (of_nat (tx_bytes new) - of_nat (tx_bytes old)) * 8 / k,
      rx_bit_rate = (of_nat (rx_bytes new) - of_nat (rx_bytes old)) * 8 / k\<rparr>"

text \<open>The loop over the interfaces of the newest sample; the lists of the oldest one are indexed.\<close>

fun rates_loop :: "rat \<Rightarrow> iface_stats list \<Rightarrow> nat \<Rightarrow> iface_stats list \<Rightarrow> net_dev_stats list \<Rightarrow> net_dev_stats list result" where
  "rates_loop k first iface [] retval = Inr retval"
| "rates_loop k first iface (x # xs) retval =
     rbind (py_index first (int iface)) (\<lambda>old.
       if k = 0 then Inl ZeroDivisionError else rates_loop k first (iface + 1) xs (retval @ [rates_between k old x]))"

definition get_interface_statistics :: "rat \<Rightarrow> statistics \<Rightarrow> nat \<Rightarrow> net_dev_stats list result" where
  "get_interface_statistics period d i =
     (case dict_get d i of
        None \<Rightarrow> Inr []
      | Some raw_stats_list \<Rightarrow>
          if length raw_stats_list < node_statistics_memory then Inr []
          else if length raw_stats_list \<noteq> node_statistics_memory then Inl AssertionError
          else rates_loop (period * of_nat (node_statistics_memory - 1)) (hd raw_stats_list) 0 (last raw_stats_list) [])"

section \<open>What the windows ask\<close>

record route =
  dest :: string
  gateway :: string
  route_iface :: nat

datatype routing_protocol = StaticRouting "route list" | GlobalRouting "route list" | OtherRouting

datatype node_routing = NoRouting | OneProtocol routing_protocol | ListRouting "(routing_protocol \<times> int) list"

record packet_sample =
  p_time :: rat
  p_device :: "nat option"
  p_size :: nat
  p_contents :: string

text \<open>
  \<open>iface_device\<close> gives the device of an interface of a node, if it is not the loopback;
  \<open>device_name\<close> is empty for a device without a name.
\<close>

record net_info =
  has_ipv4 :: "nat \<Rightarrow> bool"
  routing :: "nat \<Rightarrow> node_routing"
  olsr_entries :: "nat \<Rightarrow> (route \<times> nat) list option"
  iface_device :: "nat \<Rightarrow> nat \<Rightarrow> nat option"
  device_name :: "nat \<Rightarrow> nat \<Rightarrow> string"
  last_packets :: "nat \<Rightarrow> packet_sample list \<times> packet_sample list \<times> packet_sample list"
  iface_statistics :: statistics
  stats_period :: rat

datatype row =
    StatRow string net_dev_stats | RouteRow string string string string int | OlsrRow string string string nat
  | PacketRow rat string nat string | EmptyRow

definition numbered_interface :: "nat \<Rightarrow> string" where
  "numbered_interface k = ''(interface '' @ show_nat k @ '')''"

definition device_label :: "net_info \<Rightarrow> nat \<Rightarrow> nat \<Rightarrow> nat \<Rightarrow> string" where
  "device_label net i dev k =
     (let interface_name = device_name net i dev in if interface_name = [] then numbered_interface k else interface_name)"

definition route_interface :: "net_info \<Rightarrow> nat \<Rightarrow> nat \<Rightarrow> string" where
  "route_interface net i k =
     (case iface_device net i k of None \<Rightarrow> ''lo'' | Some dev \<Rightarrow> device_label net i dev k)"

section \<open>The windows\<close>

datatype window_kind = StatisticsWindow | RoutesWindow | OlsrWindow | PacketsWindow

record info_window =
  win_kind :: window_kind
  win_node :: nat
  win_tables :: "row list list"

text \<open>\<open>ShowInterfaceStatistics.update\<close>: the statistics are asked for before the table is cleared.\<close>

definition update_statistics_window :: "net_info \<Rightarrow> nat \<Rightarrow> row list list \<Rightarrow> row list list \<times> unit result" where
  "update_statistics_window net i tables =
     (case get_interface_statistics (stats_period net) (iface_statistics net) i of
        Inl e \<Rightarrow> (tables, Inl e)
      | Inr stats_list \<Rightarrow>
          ([map (\<lambda>(iface, x). StatRow (device_label net i iface iface) x) (zip [0..<length stats_list] stats_list)], Inr ()))"

definition routing_protocols :: "node_routing \<Rightarrow> (route list \<times> string \<times> int) list" where
  "routing_protocols r =
     (case r of
        NoRouting \<Rightarrow> []
      | OneProtocol p \<Rightarrow> (case p of StaticRouting rs \<Rightarrow> [(rs, ''static'', 0)] | _ \<Rightarrow> [])
      | ListRouting ps \<Rightarrow>
          concat (map (\<lambda>(p, prio). case p of
              StaticRouting rs \<Rightarrow> [(rs, ''static'', prio)]
            | GlobalRouting rs \<Rightarrow> [(rs, ''global'', prio)]
            | OtherRouting \<Rightarrow> []) ps))"

definition route_row :: "net_info \<Rightarrow> nat \<Rightarrow> string \<Rightarrow> int \<Rightarrow> route \<Rightarrow> row" where
  "route_row net i type_string prio r =
     RouteRow (dest r) (gateway r) (route_interface net i (route_iface r)) type_string prio"

definition update_routes_window :: "net_info \<Rightarrow> nat \<Rightarrow> row list list \<Rightarrow> row list list \<times> unit result" where
  "update_routes_window net i tables =
     (if \<not> has_ipv4 net i then (tables, Inl AttributeError)
      else if routing net i = NoRouting then (tables, Inr ())
      else
        (let protocols = routing_protocols (routing net i)
         in if protocols = [] then (tables, Inr ())
            else ([concat (map (\<lambda>(rs, type_string, prio). map (route_row net i type_string prio) rs) protocols)], Inr ())))"

text \<open>\<open>ShowOlsrRoutingTable.update\<close>: without IPv4 the first entry raises, after its row was appended.\<close>

definition update_olsr_window :: "net_info \<Rightarrow> nat \<Rightarrow> row list list \<Rightarrow> row list list \<times> unit result" where
  "update_olsr_window net i tables =
     (case olsr_entries net i of
        None \<Rightarrow> (tables, Inr ())
      | Some entries \<Rightarrow>
          if entries \<noteq> [] \<and> \<not> has_ipv4 net i then ([[EmptyRow]], Inl AttributeError)
          else ([map (\<lambda>(r, hops). OlsrRow (dest r) (gateway r) (route_interface net i (route_iface r)) hops) entries], Inr ()))"

definition packet_row :: "net_info \<Rightarrow> nat \<Rightarrow> packet_sample \<Rightarrow> row" where
  "packet_row net i x =
     PacketRow (p_time x)
       (case p_device x of None \<Rightarrow> ''(unknown)'' | Some dev \<Rightarrow> device_label net i dev dev) (p_size x) (p_contents x)"

definition update_packets_window :: "net_info \<Rightarrow> nat \<Rightarrow> row list list \<Rightarrow> row list list \<times> unit result" where
  "update_packets_window net i tables =
     (case last_packets net i of (tx, rx, dropped) \<Rightarrow>
        ([map (packet_row net i) tx, map (packet_row net i) rx, map (packet_row net i) dropped], Inr ()))"

definition update_window :: "net_info \<Rightarrow> info_window \<Rightarrow> info_window \<times> unit result" where
  "update_window net x =
     (case (case win_kind x of
              StatisticsWindow \<Rightarrow> update_statistics_window net (win_node x) (win_tables x)
            | RoutesWindow \<Rightarrow> update_routes_window net (win_node x) (win_tables x)
            | OlsrWindow \<Rightarrow> update_olsr_window net (win_node x) (win_tables x)
            | PacketsWindow \<Rightarrow> update_packets_window net (win_node x) (win_tables x)) of
        (tables, r) \<Rightarrow> (x\<lparr>win_tables := tables\<rparr>, r))"

definition new_window :: "window_kind \<Rightarrow> nat \<Rightarrow> info_window" where
  "new_window kind i =
     \<lparr>win_kind = kind, win_node = i, win_tables = replicate (if kind = PacketsWindow then 3 else 1) []\<rparr>"

section \<open>The list of windows\<close>

text \<open>The loop of \<open>update_view\<close>: an exception leaves the windows behind as they are.\<close>

fun update_windows_loop :: "net_info \<Rightarrow> info_window list \<Rightarrow> info_window list \<times> unit result" where
  "update_windows_loop net [] = ([], Inr ())"
| "update_windows_loop net (x # xs) =
     (case update_window net x of
        (x, Inl e) \<Rightarrow> (x # xs, Inl e)
      | (x, Inr u) \<Rightarrow> (case update_windows_loop net xs of (xs, r) \<Rightarrow> (x # xs, r)))"

definition add_information_window :: "net_info \<Rightarrow> info_window \<Rightarrow> info_window list \<Rightarrow> info_window list \<times> unit result" where
  "add_information_window net x xs = (case update_window net x of (x, r) \<Rightarrow> (xs @ [x], r))"

text \<open>A window is named by its place in the list.\<close>

definition remove_information_window :: "nat \<Rightarrow> info_window list \<Rightarrow> info_window list" where
  "remove_information_window k xs = take k xs @ drop (Suc k) xs"

section \<open>The rates are those of the last ten samples\<close>

definition samples_of :: "nat \<Rightarrow> (nat \<times> iface_stats list) list list \<Rightarrow> iface_stats list list" where
  "samples_of i batches = map snd (filter (\<lambda>(j, x). j = i) (concat batches))"

lemma drop_window: "drop (length (drop (length l - n) l @ [x]) - n) (drop (length l - n) l @ [x]) = drop (length (l @ [x]) - n) (l @ [x])"
  by (cases "length l < n") (auto simp: Suc_diff_le)

lemma collect_node_get:
  assumes "\<And>i. dict_get d i = (if l i = [] then None else Some (drop (length (l i) - 10) (l i)))"
  shows "dict_get (collect_node (j, x) d) i =
    (let l' = (if i = j then l i @ [x] else l i) in if l' = [] then None else Some (drop (length l' - 10) l'))"
proof -
  have "(case dict_get d j of None \<Rightarrow> [] | Some l \<Rightarrow> l) = drop (length (l j) - 10) (l j)" by (simp add: assms)
  then have "dict_get (collect_node (j, x) d) j = Some (drop (length (l j @ [x]) - 10) (l j @ [x]))"
    using drop_window [of "l j" 10 x]
    by (simp add: collect_node_def Let_def dict_simps node_statistics_memory_def forget_old_drop)
  then show ?thesis by (simp add: Let_def) (auto simp: collect_node_def Let_def dict_simps assms)
qed

lemma collect_statistics_get:
  "dict_get (fold collect_statistics batches []) i =
     (let l = samples_of i batches in if l = [] then None else Some (drop (length l - 10) l))"
proof -
  have eq: "fold collect_statistics batches d = fold collect_node (concat batches) d" for d
    by (induction batches arbitrary: d) (simp_all add: collect_statistics_def)
  have "dict_get (fold collect_node xs []) i =
      (let l = map snd (filter (\<lambda>(j, x). j = i) xs) in if l = [] then None else Some (drop (length l - 10) l))" for xs i
  proof (induction xs arbitrary: i rule: rev_induct)
    case Nil
    then show ?case by (simp add: dict_simps)
  next
    case (snoc y xs)
    obtain j x where y: "y = (j, x)" by (cases y)
    from collect_node_get [of "fold collect_node xs []" "\<lambda>i. map snd (filter (\<lambda>(j, x). j = i) xs)" j x i] snoc.IH
    show ?case by (simp add: y Let_def)
  qed
  then show ?thesis by (simp add: eq samples_of_def)
qed

lemma rates_loop_eq:
  assumes "k \<noteq> 0"
  shows "rates_loop k first n xs acc =
    (if xs = [] \<or> n + length xs \<le> length first then Inr (acc @ map2 (rates_between k) (drop n first) xs) else Inl IndexError)"
proof (induction xs arbitrary: n acc)
  case Nil
  then show ?case by simp
next
  case (Cons x xs)
  show ?case
  proof (cases "n < length first")
    case True
    then have "py_index first (int n) = Inr (first ! n)" by (simp add: py_index_nonneg)
    moreover have "drop n first = first ! n # drop (Suc n) first" using True by (simp add: Cons_nth_drop_Suc)
    ultimately have "rates_loop k first n (x # xs) acc = rates_loop k first (Suc n) xs (acc @ [rates_between k (first ! n) x])"
      and "map2 (rates_between k) (drop n first) (x # xs) =
        rates_between k (first ! n) x # map2 (rates_between k) (drop (Suc n) first) xs"
      using assms by simp_all
    then show ?thesis using True unfolding Cons.IH [of "Suc n"] by (cases "xs = []") (simp_all add: Suc_le_eq)
  next
    case False
    then have "py_index first (int n) = Inl IndexError" by (simp add: py_index_def)
    then show ?thesis using False by simp
  qed
qed

text \<open>The statistics of a node are empty until ten samples have been taken of it; then they are
  the rates between the tenth last and the last sample over nine sample periods, however the samples
  of the nodes arrived; if the node got interfaces since the tenth last sample, IndexError is raised.\<close>

theorem interface_statistics_correct:
  assumes "period \<noteq> 0"
  shows "get_interface_statistics period (fold collect_statistics batches []) i =
    (let l = samples_of i batches
     in if length l < 10 then Inr []
        else (let old = l ! (length l - 10); new = last l
              in if length old < length new then Inl IndexError
                 else Inr (map2 (rates_between (9 * period)) old new)))"
proof -
  let ?l = "samples_of i batches"
  show ?thesis
  proof (cases "length ?l < 10")
    case True
    then show ?thesis
      by (simp add: get_interface_statistics_def collect_statistics_get Let_def node_statistics_memory_def)
  next
    case False
    let ?w = "drop (length ?l - 10) ?l"
    have w: "length ?w = 10" "?l \<noteq> []" using False by auto
    then have "hd ?w = ?l ! (length ?l - 10)" "last ?w = last ?l"
      using False by (simp_all add: hd_drop_conv_nth last_drop)
    moreover have "period * 9 \<noteq> 0" using assms by simp
    ultimately show ?thesis using False w
      by (auto simp: get_interface_statistics_def collect_statistics_get Let_def node_statistics_memory_def
          rates_loop_eq not_less mult.commute)
  qed
qed

theorem interface_statistics_correct_witness:
  "get_interface_statistics 1 (fold collect_statistics
      (map (\<lambda>k. [(0, [\<lparr>tx_packets = k, tx_bytes = 9 * k, rx_packets = 0, rx_bytes = 0\<rparr>])]) [0..<10]) []) 0 =
   Inr [\<lparr>o_tx_packets = 9, o_tx_bytes = 81, o_rx_packets = 0, o_rx_bytes = 0, tx_packet_rate = 1,
     rx_packet_rate = 0, tx_bit_rate = 72, rx_bit_rate = 0\<rparr>]"
  by (subst interface_statistics_correct)
     (simp_all add: samples_of_def upt_rec numeral_eq_Suc rates_between_def)

section \<open>What an update of the windows can raise\<close>

definition window_error :: "net_info \<Rightarrow> info_window \<Rightarrow> py_error option" where
  "window_error net x =
     (case win_kind x of
        StatisticsWindow \<Rightarrow>
          (case get_interface_statistics (stats_period net) (iface_statistics net) (win_node x) of
             Inl e \<Rightarrow> Some e | Inr rs \<Rightarrow> None)
      | RoutesWindow \<Rightarrow> if has_ipv4 net (win_node x) then None else Some AttributeError
      | OlsrWindow \<Rightarrow>
          if has_ipv4 net (win_node x) \<or> olsr_entries net (win_node x) \<in> {None, Some []} then None
          else Some AttributeError
      | PacketsWindow \<Rightarrow> None)"

definition unit_result :: "py_error option \<Rightarrow> unit result" where
  "unit_result e = (case e of None \<Rightarrow> Inr () | Some e \<Rightarrow> Inl e)"

lemma update_window_spec:
  "snd (update_window net x) = unit_result (window_error net x)"
  "win_kind (fst (update_window net x)) = win_kind x" "win_node (fst (update_window net x)) = win_node x"
proof -
  show "snd (update_window net x) = unit_result (window_error net x)"
    by (cases "win_kind x")
       (auto simp: update_window_def window_error_def unit_result_def update_statistics_window_def
         update_routes_window_def update_olsr_window_def update_packets_window_def Let_def
         split: sum.split prod.split option.split)
  show "win_kind (fst (update_window net x)) = win_kind x" "win_node (fst (update_window net x)) = win_node x"
    by (simp_all add: update_window_def split: prod.split)
qed

lemma window_error_update [simp]: "window_error net' (fst (update_window net x)) = window_error net' x"
  by (cases "win_kind x") (simp_all add: window_error_def update_window_spec)

fun first_error :: "net_info \<Rightarrow> info_window list \<Rightarrow> py_error option" where
  "first_error net [] = None"
| "first_error net (x # xs) = (case window_error net x of None \<Rightarrow> first_error net xs | Some e \<Rightarrow> Some e)"

lemma first_error_None: "first_error net xs = None \<longleftrightarrow> (\<forall>x \<in> set xs. window_error net x = None)"
  by (induction xs) (auto split: option.splits)

lemma update_windows_loop_spec:
  "snd (update_windows_loop net xs) = unit_result (first_error net xs)"
  "fst (update_windows_loop net xs) =
     (let good = takeWhile (\<lambda>x. window_error net x = None) xs; rest = dropWhile (\<lambda>x. window_error net x = None) xs
      in map (\<lambda>x. fst (update_window net x)) good @
         (case rest of [] \<Rightarrow> [] | x # xs \<Rightarrow> fst (update_window net x) # xs))"
proof (induction xs)
  case (Cons x xs)
  obtain y r where u: "update_window net x = (y, r)" by (cases "update_window net x")
  have r: "r = unit_result (window_error net x)" using update_window_spec(1) [of net x] u by simp
  {
    case 1
    show ?case using Cons.IH(1) u r by (cases "window_error net x") (auto simp: unit_result_def split: prod.split)
  next
    case 2
    show ?case using Cons.IH(2) u r
      by (cases "window_error net x") (auto simp: unit_result_def Let_def split: prod.split)
  }
qed (simp_all add: unit_result_def)

lemma add_window_spec:
  "snd (add_information_window net x xs) = unit_result (window_error net x)"
  "fst (add_information_window net x xs) = xs @ [fst (update_window net x)]"
  using update_window_spec(1) [of net x]
  by (cases "update_window net x"; simp add: add_information_window_def)+

text \<open>C28: A window is on the list of windows from the moment it is opened, even if its first update
  raises. From then on, whenever its update has an error (the statistics of a node that got
  interfaces, the routing table of a node without IPv4), the update of the view raises, whatever the other windows do:
  then the lock is free and the timer of the view is gone, and the simulation is not told to go on
  although it plays.\<close>

theorem broken_window_stops_view:
  assumes "\<And>w g. update_windows env w g = snd (update_windows_loop (net w) (fst (add_information_window old x xs) @ later))"
    and "window_error (net (v_world s)) x \<noteq> None" and "frames s = ViewHold i ms # fs"
  shows "snd (add_information_window old x xs) = unit_result (window_error old x) \<and>
    (\<exists>t. callback_step env s = Some t \<and> v_lock t = None \<and> i \<notin> set (timers t) \<and> frames t = fs \<and>
       v_go t = v_go s \<and> play t = play s)"
proof
  let ?net = "net (v_world s)" and ?xs = "fst (add_information_window old x xs) @ later"
  show "snd (add_information_window old x xs) = unit_result (window_error old x)" by (rule add_window_spec)
  have "first_error ?net ?xs \<noteq> None" using assms(2) by (auto simp: first_error_None add_window_spec(2))
  then obtain e where "first_error ?net ?xs = Some e" by blast
  then have "update_windows env (v_world s) g = Inl e" for g
    by (simp add: assms(1) update_windows_loop_spec unit_result_def)
  then have "snd (update_view env p (v_world s) g) = Inl e" for p g
    by (simp add: update_view_def Let_def)
  then obtain g where "update_view env (sample_period s) (v_world s) (v_gui s) = (g, Inl e)" by (metis prod.collapse)
  then show "\<exists>t. callback_step env s = Some t \<and> v_lock t = None \<and> i \<notin> set (timers t) \<and> frames t = fs \<and>
       v_go t = v_go s \<and> play t = play s"
    using assms(3) by (simp add: callback_step_def)
qed

definition demo_net :: net_info where
  "demo_net =
     \<lparr>has_ipv4 = (\<lambda>i. False), routing = (\<lambda>i. NoRouting), olsr_entries = (\<lambda>i. None), iface_device = (\<lambda>i k. None),
      device_name = (\<lambda>i k. ''''), last_packets = (\<lambda>i. ([], [], [])), iface_statistics = [], stats_period = 1\<rparr>"

theorem broken_window_stops_view_witness:
  "\<exists>t. callback_step (demo_env\<lparr>update_windows := (\<lambda>w g. snd (update_windows_loop demo_net
        (fst (add_information_window demo_net (new_window RoutesWindow 0) []) @ [])))\<rparr>)
      (demo_start\<lparr>frames := [ViewHold 1 []]\<rparr>) = Some t \<and> 1 \<notin> set (timers t)"
proof -
  let ?env = "demo_env\<lparr>update_windows := (\<lambda>w g. snd (update_windows_loop demo_net
      (fst (add_information_window demo_net (new_window RoutesWindow 0) []) @ [])))\<rparr>"
  let ?s = "demo_start\<lparr>frames := [ViewHold 1 []]\<rparr>"
  have "update_windows ?env w g = snd (update_windows_loop demo_net
      (fst (add_information_window demo_net (new_window RoutesWindow 0) []) @ []))" for w g by simp
  moreover have "window_error demo_net (new_window RoutesWindow 0) \<noteq> None"
    by (simp add: window_error_def demo_net_def new_window_def)
  moreover have "frames ?s = ViewHold 1 [] # []" by simp
  ultimately show ?thesis
    using broken_window_stops_view [of ?env "\<lambda>w. demo_net" demo_net "new_window RoutesWindow 0" "[]" "[]" ?s 1 "[]" "[]"]
    by blast
qed

section \<open>The filter of the last packets\<close>

text \<open>
  The loop up the parents of a type. Types are numbers; whether it ends depends on the parents,
  so not ending is \<open>None\<close>.
\<close>

partial_function (option) type_is_good :: "(nat \<Rightarrow> nat option) \<Rightarrow> nat \<Rightarrow> nat \<Rightarrow> nat \<Rightarrow> bool option" where
  "type_is_good parent header trailer t =
     (if t = header \<or> t = trailer then Some True
      else (case parent t of
          None \<Rightarrow> Some False
        | Some p \<Rightarrow> type_is_good parent header trailer p))"

fun packet_filter_loop :: "(nat \<Rightarrow> nat option) \<Rightarrow> nat \<Rightarrow> nat \<Rightarrow> nat list \<Rightarrow> nat list \<Rightarrow> nat list option" where
  "packet_filter_loop parent header trailer [] found = Some found"
| "packet_filter_loop parent header trailer (t # ts) found =
     Option.bind (type_is_good parent header trailer t) (\<lambda>good.
       if \<not> good then packet_filter_loop parent header trailer ts found
       else if t \<in> {header, trailer} then packet_filter_loop parent header trailer ts found
       else packet_filter_loop parent header trailer ts (found @ [t]))"

definition packet_filter_list :: "(nat \<Rightarrow> nat option) \<Rightarrow> nat \<Rightarrow> nat \<Rightarrow> nat \<Rightarrow> nat list option" where
  "packet_filter_list parent header trailer n = packet_filter_loop parent header trailer [0..<n] []"

definition parent_rel :: "(nat \<Rightarrow> nat option) \<Rightarrow> (nat \<times> nat) set" where
  "parent_rel parent = {(p, t). parent t = Some p}"

definition derived :: "(nat \<Rightarrow> nat option) \<Rightarrow> nat \<Rightarrow> nat \<Rightarrow> bool" where
  "derived parent base t \<longleftrightarrow> (base, t) \<in> (parent_rel parent)\<^sup>*"

lemma derived_step: "derived parent base t \<longleftrightarrow> t = base \<or> (\<exists>p. parent t = Some p \<and> derived parent base p)"
  unfolding derived_def
  by (subst rtrancl.simps) (auto simp: parent_rel_def)

lemma type_is_good_eq:
  assumes "wf (parent_rel parent)"
  shows "type_is_good parent header trailer t = Some (derived parent header t \<or> derived parent trailer t)"
  using assms
proof (induction t rule: wf_induct_rule)
  case (less t)
  show ?case
  proof (cases "parent t")
    case None
    then show ?thesis
      by (subst type_is_good.simps) (auto simp: derived_step [of parent header t] derived_step [of parent trailer t])
  next
    case (Some p)
    then have "type_is_good parent header trailer p = Some (derived parent header p \<or> derived parent trailer p)"
      by (intro less) (simp add: parent_rel_def)
    then show ?thesis using Some
      by (subst type_is_good.simps) (auto simp: derived_step [of parent header t] derived_step [of parent trailer t])
  qed
qed

lemma packet_filter_loop_eq:
  assumes "wf (parent_rel parent)"
  shows "packet_filter_loop parent header trailer ts found =
    Some (found @ filter (\<lambda>t. t \<notin> {header, trailer} \<and> (derived parent header t \<or> derived parent trailer t)) ts)"
  by (induction ts arbitrary: found) (auto simp: type_is_good_eq [OF assms])

text \<open>\<open>PyViz.PacketCaptureOptions\<close> and the widgets from which \<open>update_capture_options\<close> fills them.\<close>

record capture_options =
  mode_and :: bool
  num_last_packets :: nat
  headers :: "nat list"

record packet_filter =
  filter_types :: "(nat \<times> bool) list"
  op_and :: bool
  sent_options :: capture_options

definition update_capture_options :: "packet_filter \<Rightarrow> packet_filter" where
  "update_capture_options f =
     f\<lparr>sent_options :=
        \<lparr>mode_and = op_and f, num_last_packets = 100, headers = map fst (filter snd (filter_types f))\<rparr>\<rparr>"

definition open_filter :: "nat list \<Rightarrow> packet_filter" where
  "open_filter types =
     update_capture_options
       \<lparr>filter_types = map (\<lambda>t. (t, True)) types, op_and = False,
        sent_options = \<lparr>mode_and = False, num_last_packets = 100, headers = []\<rparr>\<rparr>"

datatype filter_op = SelectAll | SelectNone | EditCell nat bool | ToggleOp

definition filter_step :: "filter_op \<Rightarrow> packet_filter \<Rightarrow> packet_filter" where
  "filter_step op f =
     update_capture_options
       (case op of
          SelectAll \<Rightarrow> f\<lparr>filter_types := map (\<lambda>(t, b). (t, True)) (filter_types f)\<rparr>
        | SelectNone \<Rightarrow> f\<lparr>filter_types := map (\<lambda>(t, b). (t, False)) (filter_types f)\<rparr>
        | EditCell k b \<Rightarrow> f\<lparr>filter_types := map (\<lambda>(j, (t, old)). (t, if j = k then b else old))
            (zip [0..<length (filter_types f)] (filter_types f))\<rparr>
        | ToggleOp \<Rightarrow> f\<lparr>op_and := \<not> op_and f\<rparr>)"

lemma filter_step_types: "map fst (filter_types (filter_step op f)) = map fst (filter_types f)"
proof (cases op)
  case (EditCell k b)
  have "map fst (filter_types (filter_step op f)) = map (fst \<circ> snd) (zip [0..<length (filter_types f)] (filter_types f))"
    using EditCell by (simp add: filter_step_def update_capture_options_def comp_def case_prod_beta)
  also have "\<dots> = map fst (map snd (zip [0..<length (filter_types f)] (filter_types f)))" by (simp only: map_map)
  also have "\<dots> = map fst (filter_types f)" by simp
  finally show ?thesis .
qed (simp_all add: filter_step_def update_capture_options_def comp_def case_prod_beta)

lemma filter_steps_types: "map fst (filter_types (fold filter_step ops f)) = map fst (filter_types f)"
  by (induction ops arbitrary: f) (simp_all add: filter_step_types)

lemma filter_sent:
  "sent_options (fold filter_step ops (open_filter types)) =
     \<lparr>mode_and = op_and (fold filter_step ops (open_filter types)), num_last_packets = 100,
      headers = map fst (filter snd (filter_types (fold filter_step ops (open_filter types))))\<rparr>"
  by (induction ops rule: rev_induct) (simp_all add: filter_step_def update_capture_options_def open_filter_def)

text \<open>If no type is its own ancestor, the window opens with the list of exactly the types derived
  from Header or Trailer, without these two; and after any clicks the simulator has been sent the
  marked types of the list, in its order, and the mode that is shown.\<close>

theorem packet_filter_correct:
  assumes "wf (parent_rel parent)"
  shows "\<exists>types. packet_filter_list parent header trailer n = Some types \<and>
    types = filter (\<lambda>t. t \<notin> {header, trailer} \<and> (derived parent header t \<or> derived parent trailer t)) [0..<n] \<and>
    (let f = fold filter_step ops (open_filter types)
     in map fst (filter_types f) = types \<and> headers (sent_options f) = map fst (filter snd (filter_types f)) \<and>
        mode_and (sent_options f) = op_and f \<and> num_last_packets (sent_options f) = 100)"
proof -
  let ?types = "filter (\<lambda>t. t \<notin> {header, trailer} \<and> (derived parent header t \<or> derived parent trailer t)) [0..<n]"
  have "packet_filter_list parent header trailer n = Some ?types"
    by (simp add: packet_filter_list_def packet_filter_loop_eq [OF assms])
  moreover have "map fst (filter_types (fold filter_step ops (open_filter ?types))) = ?types"
    by (simp add: filter_steps_types open_filter_def update_capture_options_def comp_def)
  ultimately show ?thesis using filter_sent [of ops ?types] by (simp add: Let_def)
qed

theorem packet_filter_correct_witness:
  "packet_filter_list (\<lambda>t. if t = 0 then None else if t = 3 then Some 1 else Some 0) 1 2 4 = Some [3]"
proof -
  let ?parent = "\<lambda>t::nat. if t = 0 then None else if t = 3 then Some 1 else Some (0::nat)"
  have "parent_rel ?parent \<subseteq> less_than" by (auto simp: parent_rel_def split: if_splits)
  then have "wf (parent_rel ?parent)" by (rule wf_subset [OF wf_less_than])
  from packet_filter_correct [OF this, of 1 2 4 "[]"]
  have "packet_filter_list ?parent 1 2 4 =
      Some (filter (\<lambda>t. t \<notin> {1, 2} \<and> (derived ?parent 1 t \<or> derived ?parent 2 t)) [0..<4])" by auto
  moreover have "\<not> derived ?parent 1 0" "\<not> derived ?parent 2 0" "derived ?parent 1 3"
    by (subst derived_step; simp)+ (subst derived_step, simp, subst derived_step, simp)?
  moreover have "[0..<4] = [0, 1, 2, 3::nat]" by (simp add: upt_rec numeral_eq_Suc)
  ultimately show ?thesis by simp
qed

end
