(* ===== verification/VizShell.thy ===== *)
theory VizShell
  imports PyStr
begin

text \<open>
  The Python shell of the visualizer, \<open>src/src/visualizer/visualizer/ipython_view.py\<close>: walking
  through the history, completing a line, writing coloured text, and the keys that are handled.
  The completions of IPython and the text buffer of GTK are arguments: a mark is the offset it
  stands at, and a write is the list of the pieces inserted with their tags.
\<close>

section \<open>History\<close>

text \<open>The entries of \<open>In\<close> and the current level.\<close>

record history =
  in_list :: "string list"
  history_level :: int

definition strip_newlines :: "string \<Rightarrow> string" where
  "strip_newlines s =
     rev (dropWhile (\<lambda>c. c = CHR 0x0A) (rev (dropWhile (\<lambda>c. c = CHR 0x0A) s)))"

definition get_history :: "history \<Rightarrow> string" where
  "get_history h = (case py_index (in_list h) (history_level h) of Inr s \<Rightarrow> strip_newlines s | Inl e \<Rightarrow> [])"

definition history_back :: "history \<Rightarrow> history \<times> string" where
  "history_back h =
     (let h = h\<lparr>history_level := history_level h - 1\<rparr>;
          h = (if get_history h = [] then h\<lparr>history_level := history_level h + 1\<rparr> else h)
      in (h, get_history h))"

definition history_forward :: "history \<Rightarrow> history \<times> string" where
  "history_forward h =
     (let h = (if history_level h < 0 then h\<lparr>history_level := history_level h + 1\<rparr> else h)
      in (h, get_history h))"

text \<open>The number of entries that can be reached: up to the last blank one.\<close>

definition reachable_entries :: "string list \<Rightarrow> nat" where
  "reachable_entries xs = length (takeWhile (\<lambda>s. strip_newlines s \<noteq> []) (rev xs))"

lemma reachable_le: "reachable_entries xs \<le> length xs"
  using length_takeWhile_le [of "\<lambda>s. strip_newlines s \<noteq> []" "rev xs"] by (simp add: reachable_entries_def)

lemma get_history_negative:
  assumes "0 < n"
  shows "get_history \<lparr>in_list = xs, history_level = - int n\<rparr> =
    (if n \<le> length xs then strip_newlines (xs ! (length xs - n)) else [])"
  using assms by (auto simp: get_history_def py_index_def nat_int_diff)

lemma reachable_iff:
  assumes "n \<le> reachable_entries xs" and "n < length xs"
  shows "strip_newlines (xs ! (length xs - Suc n)) \<noteq> [] \<longleftrightarrow> n < reachable_entries xs"
proof -
  let ?P = "\<lambda>s. strip_newlines s \<noteq> []"
  let ?t = "takeWhile ?P (rev xs)"
  have nth: "rev xs ! n = xs ! (length xs - Suc n)" using assms(2) by (simp add: rev_nth)
  show ?thesis
  proof (cases "n < length ?t")
    case True
    then have "?t ! n \<in> set ?t" by (rule nth_mem)
    moreover have "?t ! n = rev xs ! n" using True by (rule takeWhile_nth)
    ultimately have "?P (rev xs ! n)" using set_takeWhileD by metis
    then show ?thesis using True nth by (simp add: reachable_entries_def)
  next
    case False
    then have "n = length ?t" using assms(1) by (simp add: reachable_entries_def)
    then have "\<not> ?P (rev xs ! n)" using nth_length_takeWhile [of ?P "rev xs"] assms(2) by simp
    then show ?thesis using False nth by (simp add: reachable_entries_def)
  qed
qed

lemma entry_blank:
  assumes "n \<le> reachable_entries xs"
  shows "get_history \<lparr>in_list = xs, history_level = - int n - 1\<rparr> = [] \<longleftrightarrow> n = reachable_entries xs"
proof -
  have level: "- int n - 1 = - int (Suc n)" by simp
  show ?thesis
  proof (cases "n < length xs")
    case True
    then show ?thesis
      using reachable_iff [OF assms True] assms
      by (simp only: level get_history_negative) auto
  next
    case False
    then show ?thesis
      using assms reachable_le [of xs] by (simp only: level get_history_negative) auto
  qed
qed

lemma history_back_level:
  assumes "n \<le> reachable_entries xs"
  shows "fst (history_back \<lparr>in_list = xs, history_level = - int n\<rparr>) =
    \<lparr>in_list = xs, history_level = - int (min (Suc n) (reachable_entries xs))\<rparr>"
  using entry_blank [OF assms] assms by (auto simp: history_back_def Let_def min_def)

definition walk :: "nat \<Rightarrow> nat \<Rightarrow> history \<Rightarrow> history" where
  "walk n k h = ((fst \<circ> history_forward) ^^ k) (((fst \<circ> history_back) ^^ n) h)"

lemma back_levels:
  "((fst \<circ> history_back) ^^ n) \<lparr>in_list = xs, history_level = 0\<rparr> =
   \<lparr>in_list = xs, history_level = - int (min n (reachable_entries xs))\<rparr>"
proof (induction n)
  case (Suc n)
  have "min (Suc (min n r)) r = min (Suc n) r" for r :: nat by auto
  then show ?case using Suc by (simp add: history_back_level del: of_nat_Suc of_nat_min)
qed simp

lemma forward_levels:
  "((fst \<circ> history_forward) ^^ k) \<lparr>in_list = xs, history_level = - int m\<rparr> =
   \<lparr>in_list = xs, history_level = - int (m - k)\<rparr>"
proof (induction k)
  case (Suc k)
  then show ?case by (cases "m \<le> k") (auto simp: history_forward_def Let_def of_nat_diff)
qed simp

text \<open>
  Going back \<open>n\<close> times and forward \<open>k\<close> times from the empty line shows the entry this many places
  from the end; going back stops at the first blank entry, and going forward ends at the first
  entry of the list, which IPython keeps empty.
\<close>
theorem history_walk:
  "let m = min n (reachable_entries xs) - k; h = walk n k \<lparr>in_list = xs, history_level = 0\<rparr>
   in h = \<lparr>in_list = xs, history_level = - int m\<rparr> \<and>
      get_history h = (if m = 0 then (if xs = [] then [] else strip_newlines (hd xs))
                       else strip_newlines (xs ! (length xs - m)))"
proof -
  let ?m = "min n (reachable_entries xs) - k"
  have h: "walk n k \<lparr>in_list = xs, history_level = 0\<rparr> = \<lparr>in_list = xs, history_level = - int ?m\<rparr>"
    by (simp only: walk_def back_levels forward_levels)
  have "?m \<le> length xs" using reachable_le [of xs] by linarith
  then have "get_history \<lparr>in_list = xs, history_level = - int ?m\<rparr> =
      (if ?m = 0 then (if xs = [] then [] else strip_newlines (hd xs))
       else strip_newlines (xs ! (length xs - ?m)))"
    using get_history_negative [of ?m xs] py_index_nonneg [of 0 xs]
    by (cases "?m = 0") (auto simp: get_history_def py_index_def hd_conv_nth)
  then show ?thesis by (simp only: Let_def h)
qed

section \<open>Completion\<close>

definition separator :: "char \<Rightarrow> bool" where
  "separator c \<longleftrightarrow> is_ws c \<or> c \<in> set ''{}[]()''"

text \<open>\<open>split_line[-1]\<close>: the word at the end of the line.\<close>

definition last_word :: "string \<Rightarrow> string" where
  "last_word line = rev (takeWhile (\<lambda>c. \<not> separator c) (rev line))"

fun common_prefix_from :: "nat \<Rightarrow> nat \<Rightarrow> string \<Rightarrow> string \<Rightarrow> string" where
  "common_prefix_from i 0 str1 str2 = str1"
| "common_prefix_from i (Suc left) str1 str2 =
     (if \<not> startswith (take (Suc i) str1) str2 then take i str1
      else common_prefix_from (Suc i) left str1 str2)"

definition common_prefix :: "string \<Rightarrow> string \<Rightarrow> string" where
  "common_prefix str1 str2 = common_prefix_from 0 (length str1) str1 str2"

text \<open>
  The completed line and the possibilities; \<open>candidates\<close> is the list that IPython finds for a
  word. Without a common prefix the last character of the line is taken for it.
\<close>

definition complete :: "(string \<Rightarrow> string list) \<Rightarrow> string \<Rightarrow> string \<times> string list" where
  "complete candidates line =
     (let w = last_word line;
          possibilities = (if w \<noteq> [] then candidates w else [])
      in case possibilities of
           [] \<Rightarrow> (line, [])
         | p # ps \<Rightarrow>
             let c = foldl common_prefix p ps;
                 c = (if c \<noteq> [] then c else [last line])
             in (take (length line - length w) line @ c, possibilities))"

lemma common_prefix_from:
  "i + left = length a \<Longrightarrow> prefix (take i a) b \<Longrightarrow>
   common_prefix_from i left a b = longest_common_prefix a b"
proof (induction left arbitrary: i)
  case 0
  then show ?case by (metis add.right_neutral longest_common_prefix_max_prefix
        longest_common_prefix_prefix1 prefix_order.antisym prefix_order.refl take_all order_refl
        common_prefix_from.simps(1))
next
  case (Suc left)
  show ?case
  proof (cases "prefix (take (Suc i) a) b")
    case True
    then show ?thesis using Suc by (simp add: startswith_iff)
  next
    case False
    have "longest_common_prefix a b = take i a"
    proof (rule prefix_order.antisym)
      let ?l = "longest_common_prefix a b"
      have l: "prefix ?l a" "prefix ?l b"
        by (rule longest_common_prefix_prefix1, rule longest_common_prefix_prefix2)
      then have "?l = take (length ?l) a" by (metis append_eq_conv_conj prefix_def)
      moreover have "length ?l \<le> i"
      proof (rule ccontr)
        assume "\<not> length ?l \<le> i"
        then have "prefix (take (Suc i) a) ?l"
          using \<open>?l = take (length ?l) a\<close> by (metis not_less_eq_eq take_is_prefix take_take min.absorb1)
        then show False using False l(2) by (meson prefix_order.trans)
      qed
      ultimately show "prefix ?l (take i a)" by (metis take_is_prefix take_take min.absorb1)
      show "prefix (take i a) ?l"
        by (rule longest_common_prefix_max_prefix) (use Suc.prems take_is_prefix in auto)
    qed
    then show ?thesis using False by (simp add: startswith_iff)
  qed
qed

lemma common_prefix_eq: "common_prefix a b = longest_common_prefix a b"
  by (simp add: common_prefix_def common_prefix_from)

lemma fold_common_prefix:
  "prefix w (foldl common_prefix p ps) \<longleftrightarrow> list_all (prefix w) (p # ps)"
proof (induction ps arbitrary: p)
  case (Cons q ps)
  have "prefix w (longest_common_prefix p q) \<longleftrightarrow> prefix w p \<and> prefix w q"
    by (meson longest_common_prefix_max_prefix longest_common_prefix_prefix1
        longest_common_prefix_prefix2 prefix_order.trans)
  then show ?case using Cons by (simp add: common_prefix_eq)
qed simp

text \<open>
  If every possibility continues the last word, the line is continued, by all that the
  possibilities have in common. The result is never empty for a line that is not empty.
\<close>
theorem complete_correct:
  assumes "list_all (prefix (last_word line)) (candidates (last_word line))"
  shows "\<exists>more. fst (complete candidates line) = line @ more \<and>
    (snd (complete candidates line) \<noteq> [] \<longrightarrow>
      (\<forall>u. prefix u (last_word line @ more) \<longleftrightarrow> list_all (prefix u) (candidates (last_word line))))"
proof -
  let ?w = "last_word line"
  have line: "line = take (length line - length ?w) line @ ?w"
  proof -
    have "rev line = takeWhile (\<lambda>c. \<not> separator c) (rev line) @ dropWhile (\<lambda>c. \<not> separator c) (rev line)"
      by simp
    then have "line = rev (dropWhile (\<lambda>c. \<not> separator c) (rev line)) @ ?w"
      by (metis last_word_def rev_append rev_rev_ident)
    then show ?thesis by (metis append_eq_conv_conj length_append diff_add_inverse2)
  qed
  show ?thesis
  proof (cases "?w = [] \<or> candidates ?w = []")
    case True
    then show ?thesis by (auto simp: complete_def Let_def)
  next
    case False
    then obtain p ps where c: "candidates ?w = p # ps" by (cases "candidates ?w") auto
    have "prefix ?w (foldl common_prefix p ps)"
      using assms by (simp only: fold_common_prefix c)
    then obtain m where m: "foldl common_prefix p ps = ?w @ m" by (auto simp: prefix_def)
    have "fst (complete candidates line) = line @ m"
      using False c m line by (simp add: complete_def Let_def)
    moreover have "prefix u (?w @ m) \<longleftrightarrow> list_all (prefix u) (candidates ?w)" for u
      using fold_common_prefix [of u p ps] by (simp only: m c)
    ultimately show ?thesis by blast
  qed
qed

theorem complete_correct_witness:
  "fst (complete (\<lambda>_. [''range'', ''ranges'']) ''x = ra'') = ''x = range''"
proof -
  have "list_all (prefix (last_word ''x = ra'')) [''range'', ''ranges'']" by code_simp
  from complete_correct [of "''x = ra''" "\<lambda>_. [''range'', ''ranges'']", OF this]
  obtain m where m: "fst (complete (\<lambda>_. [''range'', ''ranges'']) ''x = ra'') = ''x = ra'' @ m" by blast
  have "fst (complete (\<lambda>_. [''range'', ''ranges'']) ''x = ra'') = ''x = range''" by code_simp
  then show ?thesis using m by simp
qed

text \<open>Possibilities without a common prefix: the word that was typed is lost but for one character.\<close>

lemma typed_word_lost:
  "complete (\<lambda>_. [''%time'', ''time'']) ''x tim'' = (''x m'', [''%time'', ''time''])"
  by code_simp

section \<open>Coloured text\<close>

text \<open>
  \<open>color_pat\<close> at the start of a text: the tag and the rest behind the sequence.
\<close>

definition match_color :: "string \<Rightarrow> (string \<times> string) option" where
  "match_color s =
     (let s = (if startswith [CHR 0x01] s then tl s else s)
      in if \<not> startswith [CHR 0x1B, CHR ''[''] s then None
         else
           let body = takeWhile (\<lambda>c. c \<noteq> CHR ''m'' \<and> c \<noteq> CHR 0x0A) (drop 2 s);
               after = drop (length body) (drop 2 s)
           in if \<not> startswith ''m'' after then None
              else Some (body, if startswith [CHR 0x02] (tl after) then tl (tl after) else tl after))"

lemma match_color_shorter: "match_color s = Some (tag, rest) \<Longrightarrow> length rest < length s"
  by (cases s) (auto simp: match_color_def Let_def startswith_def split: if_splits)

text \<open>\<open>color_pat.split\<close>: the text before the first sequence, and each tag with the text behind it.\<close>

function color_split :: "string \<Rightarrow> string \<times> (string \<times> string) list" where
  "color_split s =
     (case match_color s of
        Some (tag, rest) \<Rightarrow> (case color_split rest of (t, ps) \<Rightarrow> ([], (tag, t) # ps))
      | None \<Rightarrow>
          (case s of
             [] \<Rightarrow> ([], [])
           | c # rest \<Rightarrow> (case color_split rest of (t, ps) \<Rightarrow> (c # t, ps))))"
  by pat_completeness auto
termination
  by (relation "measure length") (auto dest: match_color_shorter)

declare color_split.simps [simp del]

text \<open>
  The loop of \<open>_write\<close> over the tags: the list \<open>segments\<close> holds tags and texts, a tag is searched
  from the start, the piece behind it is inserted and only the tag is removed.
\<close>

fun list_index :: "'a \<Rightarrow> 'a list \<Rightarrow> nat result" where
  "list_index x [] = Inl ValueError"
| "list_index x (y # ys) = (if y = x then Inr 0 else rbind (list_index x ys) (\<lambda>i. Inr (Suc i)))"

fun insert_segments ::
    "string list \<Rightarrow> string list \<Rightarrow> (string \<times> string option) list \<Rightarrow> (string \<times> string option) list result" where
  "insert_segments [] segments inserted = Inr inserted"
| "insert_segments (tag # tags) segments inserted =
     rbind (list_index tag segments) (\<lambda>i.
     rbind (py_index segments (int (i + 1))) (\<lambda>text.
     insert_segments tags (take i segments @ drop (Suc i) segments) (inserted @ [(text, Some tag)])))"

text \<open>The pieces that \<open>_write\<close> inserts at the end of the buffer.\<close>

definition write_pieces :: "string \<Rightarrow> (string \<times> string option) list result" where
  "write_pieces text =
     (case color_split text of (segment, ps) \<Rightarrow>
       insert_segments (map fst ps) (concat (map (\<lambda>(tag, t). [tag, t]) ps)) [(segment, None)])"

lemma list_index_append:
  "x \<notin> set xs \<Longrightarrow> list_index x (xs @ x # ys) = Inr (length xs)"
  by (induction xs) auto

lemma insert_segments_plain:
  assumes "set (map fst ps) \<inter> (set texts \<union> set (map snd ps)) = {}"
  shows "insert_segments (map fst ps) (texts @ concat (map (\<lambda>(tag, t). [tag, t]) ps)) inserted =
    Inr (inserted @ map (\<lambda>(tag, t). (t, Some tag)) ps)"
  using assms
proof (induction ps arbitrary: texts inserted)
  case (Cons p ps)
  obtain tag t where p: "p = (tag, t)" by (cases p)
  let ?rest = "concat (map (\<lambda>(tag, t). [tag, t]) ps)"
  have index: "list_index tag (texts @ tag # t # ?rest) = Inr (length texts)"
    using Cons.prems by (intro list_index_append) (simp add: p)
  have piece: "py_index (texts @ tag # t # ?rest) (int (length texts + 1)) = Inr t"
    by (subst py_index_nonneg) (simp_all add: nth_append)
  have "set (map fst ps) \<inter> (set (texts @ [t]) \<union> set (map snd ps)) = {}"
    using Cons.prems by (auto simp: p)
  then show ?case using Cons.IH [of "texts @ [t]" "inserted @ [(t, Some tag)]"] index piece by (simp add: p)
qed simp

text \<open>A text with colours as terminals write it.\<close>

definition color_code :: "string \<times> string \<Rightarrow> string" where
  "color_code p = [CHR 0x1B, CHR ''[''] @ fst p @ ''m'' @ snd p"

definition plain_text :: "string \<Rightarrow> bool" where
  "plain_text t \<longleftrightarrow> set t \<inter> {CHR 0x01, CHR 0x02, CHR 0x1B} = {}"

definition tag_ok :: "string \<Rightarrow> bool" where
  "tag_ok tag \<longleftrightarrow> CHR ''m'' \<notin> set tag \<and> CHR 0x0A \<notin> set tag"

lemma match_color_code:
  assumes "tag_ok tag" and "\<not> startswith [CHR 0x02] s"
  shows "match_color ([CHR 0x1B, CHR ''[''] @ tag @ ''m'' @ s) = Some (tag, s)"
proof -
  have "takeWhile (\<lambda>c. c \<noteq> CHR ''m'' \<and> c \<noteq> CHR 0x0A) (tag @ CHR ''m'' # s) = tag"
    using assms(1) by (induction tag) (auto simp: tag_ok_def)
  then show ?thesis using assms(2) by (simp add: match_color_def startswith_def)
qed

lemma color_split_plain:
  "plain_text t \<Longrightarrow> (s = [] \<or> hd s = CHR 0x1B) \<Longrightarrow> color_split (t @ s) =
     (case color_split s of (u, ps) \<Rightarrow> (t @ u, ps))"
proof (induction t)
  case (Cons c t)
  have "match_color (c # t @ s) = None"
    using Cons.prems by (auto simp: match_color_def plain_text_def startswith_def Let_def)
  then show ?case
    using Cons by (simp add: color_split.simps [of "c # t @ s"] plain_text_def split: prod.splits)
qed (simp split: prod.splits)

lemma color_split_codes:
  "list_all (\<lambda>p. tag_ok (fst p) \<and> plain_text (snd p)) ps \<Longrightarrow>
   color_split (concat (map color_code ps)) = ([], ps)"
proof (induction ps)
  case (Cons p ps)
  let ?rest = "concat (map color_code ps)"
  have rest: "?rest = [] \<or> hd ?rest = CHR 0x1B" by (cases ps) (simp_all add: color_code_def)
  have "\<not> startswith [CHR 0x02] (snd p @ ?rest)"
  proof (cases "snd p")
    case Nil
    have "\<not> startswith [CHR 0x02] u" if "u = [] \<or> hd u = CHR 0x1B" for u
      using that by (cases u) (auto simp: startswith_def)
    then show ?thesis using Nil rest by simp
  next
    case c: (Cons c t)
    then show ?thesis using Cons.prems by (auto simp: plain_text_def startswith_def)
  qed
  then have "match_color (color_code p @ ?rest) = Some (fst p, snd p @ ?rest)"
    using Cons.prems match_color_code [of "fst p" "snd p @ ?rest"] by (simp add: color_code_def)
  moreover have "color_split (snd p @ ?rest) = (snd p, ps)"
    using Cons color_split_plain [OF _ rest, of "snd p"] by simp
  ultimately show ?case by (simp add: color_split.simps [of "color_code p @ ?rest"])
qed (simp add: color_split.simps match_color_def startswith_def)

text \<open>
  A coloured text is inserted piece by piece, each with its tag, if no piece reads like a tag.
\<close>
theorem write_correct:
  assumes "plain_text t" and "list_all (\<lambda>p. tag_ok (fst p) \<and> plain_text (snd p)) ps"
    and "set (map fst ps) \<inter> set (map snd ps) = {}"
  shows "write_pieces (t @ concat (map color_code ps)) =
    Inr ((t, None) # map (\<lambda>(tag, text). (text, Some tag)) ps)"
proof -
  have rest: "concat (map color_code ps) = [] \<or> hd (concat (map color_code ps)) = CHR 0x1B"
    by (cases ps) (simp_all add: color_code_def)
  have "color_split (t @ concat (map color_code ps)) = (t, ps)"
    using color_split_plain [OF assms(1) rest] color_split_codes [OF assms(2)] by simp
  then show ?thesis
    using insert_segments_plain [of ps "[]" "[(t, None)]"] assms(3) by (simp add: write_pieces_def)
qed

theorem write_correct_witness:
  "write_pieces (''In '' @ concat (map color_code [(''0;32'', ''[1]''), (''0'', '': '')])) =
     Inr [(''In '', None), (''[1]'', Some ''0;32''), ('': '', Some ''0'')]"
  by (subst write_correct) (simp_all add: plain_text_def tag_ok_def)

text \<open>A red zero: the piece after it is replaced by the tag itself.\<close>

lemma text_like_tag:
  "write_pieces (concat (map color_code [(''0;31'', ''0''), (''0'', ''!'')])) =
     Inr [([], None), (''0'', Some ''0;31''), (''0'', Some ''0'')]"
  by code_simp

section \<open>Keys\<close>

text \<open>The offsets of the cursor, of the other end of the selection, and of the start of the line.\<close>

record marks =
  insert_mark :: int
  selection_mark :: int
  line_start :: int

definition place_cursor :: "int \<Rightarrow> marks \<Rightarrow> marks" where
  "place_cursor i m = m\<lparr>insert_mark := i, selection_mark := i\<rparr>"

datatype keyval = KeyHome | KeyLeft | KeyReturn | KeyUp | KeyDown | KeyTab | KeyC | OtherKey

record key_event =
  keyval :: keyval
  ctrl :: bool
  alt :: bool
  shift :: bool
  has_string :: bool

text \<open>
  The first part of \<open>onKeyPress\<close>; \<open>editable\<close> says whether text can be entered at an offset.
  \<open>True\<close> ends the handling, else \<open>onKeyPressExtend\<close> is asked.
\<close>

definition on_key_press :: "(int \<Rightarrow> bool) \<Rightarrow> key_event \<Rightarrow> marks \<Rightarrow> marks \<times> bool" where
  "on_key_press editable e m =
     (if keyval e = KeyHome then
        (if ctrl e \<or> alt e then (m, False)
         else if shift e then (m\<lparr>insert_mark := line_start m\<rparr>, True)
         else (place_cursor (line_start m) m, True))
      else if keyval e = KeyLeft then (m, \<not> editable (insert_mark m - 1))
      else if \<not> has_string e then (m, False)
      else if line_start m \<le> insert_mark m \<and> line_start m \<le> selection_mark m then (m, False)
      else if line_start m > insert_mark m \<and> line_start m > selection_mark m
        then (place_cursor (line_start m) m, False)
      else if insert_mark m < selection_mark m then (m\<lparr>insert_mark := line_start m\<rparr>, False)
      else if insert_mark m > selection_mark m then (m\<lparr>selection_mark := line_start m\<rparr>, False)
      else (m, False))"

text \<open>The state of the console that the keys of \<open>IPythonView\<close> change, and what they write.\<close>

datatype console_action =
    ProcessLine bool | ChangeLine string | Write string | ShowPrompt

text \<open>
  \<open>onKeyPressExtend\<close> with the current line: the new history, the actions in order, and the
  result (nothing is returned at the end). \<open>ProcessLine\<close> is with the flag \<open>interrupt\<close> set or not.
\<close>

definition on_key_press_extend ::
    "(string \<Rightarrow> string list) \<Rightarrow> key_event \<Rightarrow> string \<Rightarrow> history \<Rightarrow>
     (history \<times> console_action list \<times> bool option) result" where
  "on_key_press_extend candidates e line h =
     (if ctrl e \<and> keyval e = KeyC then Inr (h, [ProcessLine True], Some True)
      else
        case keyval e of
          KeyReturn \<Rightarrow> Inr (h, [ProcessLine False], Some True)
        | KeyUp \<Rightarrow> (case history_back h of (h, s) \<Rightarrow> Inr (h, [ChangeLine s], Some True))
        | KeyDown \<Rightarrow> (case history_forward h of (h, s) \<Rightarrow> Inr (h, [ChangeLine s], Some True))
        | KeyTab \<Rightarrow>
            if strip line = [] then Inr (h, [], Some False)
            else (case complete candidates line of
              (completed, possibilities) \<Rightarrow>
                let listing = (if length possibilities > 1
                      then Write [CHR 0x0A] # map (\<lambda>s. Write (s @ [CHR 0x0A])) possibilities @ [ShowPrompt]
                      else [])
                in if completed \<noteq> [] then Inr (h, listing @ [ChangeLine completed], Some True)
                   else if length possibilities > 1 then Inr (h, listing @ [ChangeLine line], Some True)
                   else Inl UnboundLocalError)
        | _ \<Rightarrow> Inr (h, [], None))"

text \<open>\<open>raw_input\<close>: an interrupt is raised once.\<close>

definition raw_input :: "bool \<Rightarrow> string \<Rightarrow> bool \<times> string result" where
  "raw_input interrupt line =
     (if interrupt then (False, Inl (OtherException ''KeyboardInterrupt'')) else (interrupt, Inr line))"

text \<open>
  A key that enters text never changes anything before the line: afterwards the cursor and the
  selection are behind the prompt, and the part of the selection in the line is kept.
\<close>
theorem keys_keep_output:
  assumes "has_string e" and "keyval e \<noteq> KeyHome" and "keyval e \<noteq> KeyLeft"
  shows "let m' = fst (on_key_press editable e m)
    in line_start m' = line_start m \<and>
       insert_mark m' = max (line_start m) (insert_mark m) \<and>
       selection_mark m' = max (line_start m) (selection_mark m) \<and>
       \<not> snd (on_key_press editable e m)"
  using assms by (auto simp: on_key_press_def place_cursor_def Let_def max_def)

theorem keys_keep_output_witness:
  "fst (on_key_press (\<lambda>_. True) \<lparr>keyval = OtherKey, ctrl = False, alt = False, shift = False, has_string = True\<rparr>
     \<lparr>insert_mark = 2, selection_mark = 7, line_start = 4\<rparr>) =
   \<lparr>insert_mark = 4, selection_mark = 7, line_start = 4\<rparr>"
  using keys_keep_output [of "\<lparr>keyval = OtherKey, ctrl = False, alt = False, shift = False, has_string = True\<rparr>"
      "\<lambda>_. True" "\<lparr>insert_mark = 2, selection_mark = 7, line_start = 4\<rparr>"]
  by (simp add: Let_def on_key_press_def)

text \<open>The completion never leaves the line empty, so the key never fails.\<close>

lemma complete_not_empty:
  assumes "line \<noteq> []"
  shows "fst (complete candidates line) \<noteq> []"
  using assms by (auto simp: complete_def Let_def split: list.splits)

lemma keys_total: "\<exists>r. on_key_press_extend candidates e line h = Inr r"
proof -
  have "strip line \<noteq> [] \<longrightarrow> fst (complete candidates line) \<noteq> []"
    by (metis complete_not_empty strip_Nil)
  then show ?thesis
    by (auto simp: on_key_press_extend_def Let_def split: keyval.split prod.split)
qed

end
