(* ===== verification/Flowmon.thy ===== *)
theory Flowmon
  imports TestReport Complex_Main
begin

text \<open>
  The program \<open>src/flow-monitor/examples/flowmon-parse-results.py\<close>: it reads the report a flow monitor
  writes, computes rates, delays and losses of every flow, and prints them. XML elements are parsed trees, as the
  events of \<open>iterparse\<close> see them; \<open>float\<close> of a text is the parameter \<open>float_of\<close>; floats are exact rationals, and what is
  printed is the list of the values, not yet formatted.
\<close>

section \<open>Numbers in attributes\<close>

text \<open>\<open>int(s)\<close> and \<open>long(s)\<close>: white space around, an optional sign, decimal digits.\<close>

definition py_int :: "string \<Rightarrow> int result" where
  "py_int s =
     (let s = strip s; digits = (if s \<noteq> [] \<and> hd s \<in> {CHR ''+'', CHR ''-''} then tl s else s)
      in if digits = [] \<or> \<not> list_all is_digit digits then Inl ValueError
         else Inr ((if hd s = CHR ''-'' then -1 else 1) * int (digits_val digits)))"

text \<open>\<open>el.get(k)\<close> is \<open>None\<close> for a missing attribute, of which numbers and slices raise TypeError.\<close>

definition attr_get :: "xml \<Rightarrow> string \<Rightarrow> string option" where
  "attr_get el k = map_of (attrs el) k"

definition attr_text :: "xml \<Rightarrow> string \<Rightarrow> string result" where
  "attr_text el k = (case attr_get el k of None \<Rightarrow> Inl TypeError | Some s \<Rightarrow> Inr s)"

definition attr_int :: "xml \<Rightarrow> string \<Rightarrow> int result" where
  "attr_int el k = rbind (attr_text el k) py_int"

definition to_float_text :: "(string \<Rightarrow> rat option) \<Rightarrow> string \<Rightarrow> rat result" where
  "to_float_text float_of s = (case float_of s of None \<Rightarrow> Inl ValueError | Some q \<Rightarrow> Inr q)"

definition attr_float :: "(string \<Rightarrow> rat option) \<Rightarrow> xml \<Rightarrow> string \<Rightarrow> rat result" where
  "attr_float float_of el k = rbind (attr_text el k) (to_float_text float_of)"

text \<open>\<open>long(el.get(k)[:-4])\<close>: times end in \<open>.0ns\<close>.\<close>

definition attr_ticks :: "xml \<Rightarrow> string \<Rightarrow> int result" where
  "attr_ticks el k = rbind (attr_text el k) (\<lambda>s. py_int (slice_to s (-4)))"

definition parse_time_ns :: "string option \<Rightarrow> int result" where
  "parse_time_ns tm =
     (case tm of
        None \<Rightarrow> Inl AttributeError
      | Some s \<Rightarrow> if endswith ''ns'' s then py_int (slice_to s (-4)) else Inl ValueError)"

definition findall2 :: "string \<Rightarrow> string \<Rightarrow> xml \<Rightarrow> xml list" where
  "findall2 t u el = concat (map (findall u) (findall t el))"

section \<open>The classes\<close>

record five_tuple =
  source_address :: "string option"
  destination_address :: "string option"
  protocol :: int
  source_port :: int
  destination_port :: int

definition parse_five_tuple :: "xml \<Rightarrow> five_tuple result" where
  "parse_five_tuple el =
     rbind (attr_int el ''sourcePort'') (\<lambda>sp.
     rbind (attr_int el ''destinationPort'') (\<lambda>dp.
     rbind (attr_int el ''protocol'') (\<lambda>pr.
       Inr \<lparr>source_address = attr_get el ''sourceAddress'', destination_address = attr_get el ''destinationAddress'',
            protocol = pr, source_port = sp, destination_port = dp\<rparr>)))"

definition parse_bin :: "(string \<Rightarrow> rat option) \<Rightarrow> xml \<Rightarrow> (rat \<times> rat \<times> int) result" where
  "parse_bin float_of el =
     rbind (attr_float float_of el ''start'') (\<lambda>s.
     rbind (attr_float float_of el ''width'') (\<lambda>w.
     rbind (attr_int el ''count'') (\<lambda>n. Inr (s, w, n))))"

definition parse_histogram :: "(string \<Rightarrow> rat option) \<Rightarrow> xml \<Rightarrow> (rat \<times> rat \<times> int) list result" where
  "parse_histogram float_of el =
     rfold (\<lambda>b bins. rbind (parse_bin float_of b) (\<lambda>x. Inr (bins @ [x]))) (findall ''bin'' el) []"

record probe_stats =
  probe_id :: int
  pr_packets :: int
  pr_bytes :: int
  delay_from_first_probe :: rat

record flow =
  flow_id :: int
  rx_duration :: rat
  hop_count :: rat
  delay_mean :: "rat option"
  packet_size_mean :: "rat option"
  rx_bitrate :: "rat option"
  tx_bitrate :: "rat option"
  loss_ratio :: "rat option"
  interruptions :: "(rat \<times> rat \<times> int) list option"
  flow_tuple :: "five_tuple option"
  probe_stats_unsorted :: "probe_stats list"

text \<open>
  \<open>Flow.__init__\<close>, in the order of its reads; the slot \<open>fiveTuple\<close> stays unset. The division by
  \<open>rxPackets + lost\<close> is the only one that can be by zero.
\<close>

definition parse_flow :: "(string \<Rightarrow> rat option) \<Rightarrow> xml \<Rightarrow> flow result" where
  "parse_flow float_of el =
     rbind (attr_int el ''flowId'') (\<lambda>fid.
     rbind (attr_int el ''rxPackets'') (\<lambda>rx.
     rbind (attr_int el ''txPackets'') (\<lambda>tx.
     rbind (attr_ticks el ''timeLastTxPacket'') (\<lambda>last_tx.
     rbind (attr_ticks el ''timeFirstTxPacket'') (\<lambda>first_tx.
     rbind (attr_ticks el ''timeLastRxPacket'') (\<lambda>last_rx.
     rbind (attr_ticks el ''timeFirstRxPacket'') (\<lambda>first_rx.
     (let tx_dur = of_int (last_tx - first_tx) / 10 ^ 9; rx_dur = of_int (last_rx - first_rx) / 10 ^ 9
      in
     rbind (if rx \<noteq> 0 then rbind (attr_float float_of el ''timesForwarded'') (\<lambda>f. Inr (f / of_int rx + 1))
            else Inr (-1000)) (\<lambda>hops.
     rbind (if rx \<noteq> 0 then
              rbind (attr_text el ''delaySum'') (\<lambda>s.
              rbind (to_float_text float_of (slice_to s (-4))) (\<lambda>d.
              rbind (attr_float float_of el ''rxBytes'') (\<lambda>b.
                Inr (Some (d / of_int rx / 10 ^ 9), Some (b / of_int rx)))))
            else Inr (None, None)) (\<lambda>(delay, size_mean).
     rbind (if rx_dur > 0 then rbind (attr_int el ''rxBytes'') (\<lambda>b. Inr (Some (of_int (b * 8) / rx_dur)))
            else Inr None) (\<lambda>rx_rate.
     rbind (if tx_dur > 0 then rbind (attr_int el ''txBytes'') (\<lambda>b. Inr (Some (of_int (b * 8) / tx_dur)))
            else Inr None) (\<lambda>tx_rate.
     rbind (attr_float float_of el ''lostPackets'') (\<lambda>lost.
     rbind (if rx = 0 then Inr None
            else if of_int rx + lost = 0 then Inl ZeroDivisionError
            else Inr (Some (lost / (of_int rx + lost)))) (\<lambda>loss.
     rbind (case find_kid ''flowInterruptionsHistogram'' el of
              None \<Rightarrow> Inr None | Some h \<Rightarrow> rbind (parse_histogram float_of h) (\<lambda>bins. Inr (Some bins))) (\<lambda>hist.
       Inr \<lparr>flow_id = fid, rx_duration = rx_dur, hop_count = hops, delay_mean = delay,
            packet_size_mean = size_mean, rx_bitrate = rx_rate, tx_bitrate = tx_rate, loss_ratio = loss,
            interruptions = hist, flow_tuple = None, probe_stats_unsorted = []\<rparr>)))))))))))))))"

section \<open>The report of a simulation\<close>

text \<open>
  \<open>flow_map\<close> holds the flow objects of the list, by their place in it.
\<close>

type_synonym flows = "flow list \<times> (int, nat) pydict"

definition add_flow :: "(string \<Rightarrow> rat option) \<Rightarrow> xml \<Rightarrow> flows \<Rightarrow> flows result" where
  "add_flow float_of el fs =
     (case fs of (flows, flow_map) \<Rightarrow>
        rbind (parse_flow float_of el) (\<lambda>f. Inr (flows @ [f], dict_put (flow_id f) (length flows) flow_map)))"

definition update_flow :: "(int, nat) pydict \<Rightarrow> int \<Rightarrow> (flow \<Rightarrow> flow) \<Rightarrow> flow list \<Rightarrow> flow list result" where
  "update_flow flow_map i f flows =
     (case dict_get flow_map i of None \<Rightarrow> Inl KeyError | Some k \<Rightarrow> Inr (flows[k := f (flows ! k)]))"

definition classify_flow :: "(int, nat) pydict \<Rightarrow> xml \<Rightarrow> flow list \<Rightarrow> flow list result" where
  "classify_flow flow_map el flows =
     rbind (attr_int el ''flowId'') (\<lambda>i.
     rbind (parse_five_tuple el) (\<lambda>t. update_flow flow_map i (flow_tuple_update (\<lambda>x. Some t)) flows))"

definition add_probe_stats :: "(int, nat) pydict \<Rightarrow> int \<Rightarrow> xml \<Rightarrow> flow list \<Rightarrow> flow list result" where
  "add_probe_stats flow_map pid el flows =
     rbind (attr_int el ''flowId'') (\<lambda>i.
     rbind (attr_int el ''packets'') (\<lambda>n.
     rbind (attr_int el ''bytes'') (\<lambda>b.
     rbind (if n > 0 then rbind (parse_time_ns (attr_get el ''delayFromFirstProbeSum'')) (\<lambda>d. Inr (of_int d / of_int n))
            else Inr 0) (\<lambda>d.
       update_flow flow_map i
         (\<lambda>f. f\<lparr>probe_stats_unsorted := probe_stats_unsorted f @
            [\<lparr>probe_id = pid, pr_packets = n, pr_bytes = b, delay_from_first_probe = d\<rparr>]\<rparr>) flows))))"

definition add_probe :: "(int, nat) pydict \<Rightarrow> xml \<Rightarrow> flow list \<Rightarrow> flow list result" where
  "add_probe flow_map el flows =
     rbind (attr_int el ''index'') (\<lambda>pid. rfold (add_probe_stats flow_map pid) (findall ''FlowStats'' el) flows)"

definition parse_simulation :: "(string \<Rightarrow> rat option) \<Rightarrow> xml \<Rightarrow> flow list result" where
  "parse_simulation float_of el =
     (case findall ''Ipv4FlowClassifier'' el of
        [cls] \<Rightarrow>
          rbind (rfold (add_flow float_of) (findall2 ''FlowStats'' ''Flow'' el) ([], [])) (\<lambda>(flows, flow_map).
          rbind (rfold (classify_flow flow_map) (findall ''Flow'' cls) flows) (\<lambda>flows.
            rfold (add_probe flow_map) (findall2 ''FlowProbes'' ''FlowProbe'' el) flows))
      | _ \<Rightarrow> Inl ValueError)"

section \<open>The main program\<close>

datatype xml_event = StartOf xml | EndOf xml

fun iterparse :: "xml \<Rightarrow> xml_event list" where
  "iterparse (Elem t a x ks) = [StartOf (Elem t a x ks)] @ concat (map iterparse ks) @ [EndOf (Elem t a x ks)]"

fun read_loop :: "(string \<Rightarrow> rat option) \<Rightarrow> xml_event list \<Rightarrow> int \<Rightarrow> flow list list \<Rightarrow> flow list list result" where
  "read_loop float_of [] level sims = Inr sims"
| "read_loop float_of (StartOf el # es) level sims = read_loop float_of es (level + 1) sims"
| "read_loop float_of (EndOf el # es) level sims =
     (if level - 1 = 0 \<and> tag el = ''FlowMonitor''
      then rbind (parse_simulation float_of el) (\<lambda>sim. read_loop float_of es (level - 1) (sims @ [sim]))
      else read_loop float_of es (level - 1) sims)"

record flow_report =
  r_id :: int
  r_protocol :: string
  r_tuple :: five_tuple
  tx_kbps :: "rat option"
  rx_kbps :: "rat option"
  delay_ms :: "rat option"
  loss_percent :: "rat option"

definition report_flow :: "flow \<Rightarrow> flow_report result" where
  "report_flow f =
     (case flow_tuple f of
        None \<Rightarrow> Inl AttributeError
      | Some t \<Rightarrow>
          rbind (if protocol t = 6 then Inr ''TCP'' else if protocol t = 17 then Inr ''UDP'' else Inl KeyError) (\<lambda>proto.
            Inr \<lparr>r_id = flow_id f, r_protocol = proto, r_tuple = t,
                 tx_kbps = map_option (\<lambda>q. q / 1000) (tx_bitrate f), rx_kbps = map_option (\<lambda>q. q / 1000) (rx_bitrate f),
                 delay_ms = map_option (\<lambda>q. q * 1000) (delay_mean f), loss_percent = map_option (\<lambda>q. q * 100) (loss_ratio f)\<rparr>))"

text \<open>What is printed before an exception stays printed.\<close>

fun print_flows :: "flow list \<Rightarrow> flow_report list \<times> unit result" where
  "print_flows [] = ([], Inr ())"
| "print_flows (f # fs) =
     (case report_flow f of
        Inl e \<Rightarrow> ([], Inl e)
      | Inr r \<Rightarrow> (case print_flows fs of (rs, res) \<Rightarrow> (r # rs, res)))"

definition flowmon_main :: "(string \<Rightarrow> rat option) \<Rightarrow> xml \<Rightarrow> flow_report list \<times> unit result" where
  "flowmon_main float_of document =
     (case read_loop float_of (iterparse document) 0 [] of
        Inl e \<Rightarrow> ([], Inl e)
      | Inr sims \<Rightarrow> print_flows (concat sims))"

section \<open>What is printed\<close>

lemma read_loop_below:
  "l \<ge> 1 \<Longrightarrow> read_loop float_of (iterparse el @ es) l sims = read_loop float_of es l sims"
proof (induction el arbitrary: l es)
  case (Elem t a x ks)
  have "l \<ge> 1 \<Longrightarrow> read_loop float_of (concat (map iterparse ks') @ es) l sims = read_loop float_of es l sims"
    if "set ks' \<subseteq> set ks" for ks' l es
    using that
  proof (induction ks' arbitrary: es)
    case (Cons k ks')
    then show ?case using Elem.IH [of k l "concat (map iterparse ks') @ es"] by simp
  qed simp
  then show ?case using Elem.prems by simp
qed

lemma read_loop_document:
  "read_loop float_of (iterparse el) 0 [] =
     (if tag el = ''FlowMonitor'' then rbind (parse_simulation float_of el) (\<lambda>sim. Inr [sim]) else Inr [])"
proof (cases el)
  case (Elem t a x ks)
  have "read_loop float_of (concat (map iterparse ks) @ es) 1 [] = read_loop float_of es 1 []" for es ks
  proof (induction ks)
    case (Cons k ks)
    then show ?case using read_loop_below [of 1 float_of k "concat (map iterparse ks) @ es" "[]"] by simp
  qed simp
  then show ?thesis using Elem by simp
qed

text \<open>Flows with an address whose protocol is TCP or UDP.\<close>

definition printable :: "flow \<Rightarrow> bool" where
  "printable f = (case flow_tuple f of None \<Rightarrow> False | Some t \<Rightarrow> protocol t = 6 \<or> protocol t = 17)"

lemma report_printable:
  "printable f \<longleftrightarrow> (\<exists>r. report_flow f = Inr r)"
  "\<not> printable f \<Longrightarrow> report_flow f = Inl (if flow_tuple f = None then AttributeError else KeyError)"
  by (auto simp: printable_def report_flow_def split: option.split)

lemma print_flows_spec:
  "map r_id (fst (print_flows fs)) = map flow_id (takeWhile printable fs)"
  "snd (print_flows fs) =
     (case dropWhile printable fs of
        [] \<Rightarrow> Inr () | f # rest \<Rightarrow> Inl (if flow_tuple f = None then AttributeError else KeyError))"
proof (induction fs)
  case (Cons f fs)
  have id: "r_id r = flow_id f" if "report_flow f = Inr r" for r
    using that by (auto simp: report_flow_def split: option.splits if_splits)
  {
    case 1
    show ?case using Cons.IH(1) report_printable [of f] id
      by (cases "report_flow f") (auto split: prod.split)
  next
    case 2
    show ?case using Cons.IH(2) report_printable [of f]
      by (cases "report_flow f") (auto split: prod.split)
  }
qed simp_all

text \<open>The program prints nothing for a document that is no report, and raises what reading the report
  raises; else it prints the flows in order until the first that has no address (it was not in the
  IPv4 classifier: AttributeError) or is neither TCP nor UDP (KeyError), where it stops.\<close>

theorem flowmon_main_outcome:
  "if tag document \<noteq> ''FlowMonitor'' then flowmon_main float_of document = ([], Inr ())
   else
     (case parse_simulation float_of document of
        Inl e \<Rightarrow> flowmon_main float_of document = ([], Inl e)
      | Inr flows \<Rightarrow>
          map r_id (fst (flowmon_main float_of document)) = map flow_id (takeWhile printable flows) \<and>
          snd (flowmon_main float_of document) =
            (case dropWhile printable flows of
               [] \<Rightarrow> Inr () | f # rest \<Rightarrow> Inl (if flow_tuple f = None then AttributeError else KeyError)))"
  by (simp add: flowmon_main_def read_loop_document print_flows_spec split: sum.split)

text \<open>The suffix of four characters is taken off whatever it is, so a time without a fraction loses two digits.\<close>

lemma whole_times_lose_digits: "parse_time_ns (Some ''123ns'') = Inr 1"
  by (simp add: parse_time_ns_def endswith_def startswith_def slice_to_def slice_pos_def py_int_def strip_def
      is_ws_def is_digit_def digits_val_def)

end
