(* ===== verification/FlowReport.thy ===== *)
theory FlowReport
  imports Flowmon
begin

text \<open>
  What \<open>Flowmon\<close> reads: the report a flow monitor writes, from \<open>SerializeToXmlStream\<close> of
  \<open>src/flow-monitor/model/flow-monitor.cc\<close>, \<open>flow-probe.cc\<close>, \<open>histogram.cc\<close>, \<open>ipv4-flow-classifier.cc\<close> and
  \<open>ipv6-flow-classifier.cc\<close>, as element trees: the white space between the elements is left out. A
  \<open>std::map\<close> is the list of its entries in the order of its keys, a time its number of nanoseconds (the default
  resolution), an address the text it is printed as, and \<open>show_double\<close> how a stream prints a double.
  Counters do not wrap.
\<close>

section \<open>The data of a monitor\<close>

record histogram_data =
  bin_width :: rat
  bin_counts :: "nat list"

record flow_data =
  first_tx :: int
  first_rx :: int
  last_tx :: int
  last_rx :: int
  delay_sum :: int
  jitter_sum :: int
  last_delay :: int
  tx_bytes :: nat
  rx_bytes :: nat
  tx_packets :: nat
  rx_packets :: nat
  lost_packets :: nat
  times_forwarded :: nat
  packets_dropped :: "nat list"
  bytes_dropped :: "nat list"
  delay_histogram :: histogram_data
  jitter_histogram :: histogram_data
  packet_size_histogram :: histogram_data
  flow_interruptions_histogram :: histogram_data

record probe_data =
  b_packets :: nat
  b_bytes :: nat
  b_delay_sum :: int
  b_packets_dropped :: "nat list"
  b_bytes_dropped :: "nat list"

record tuple_data =
  t_source :: string
  t_destination :: string
  t_protocol :: nat
  t_source_port :: nat
  t_destination_port :: nat

text \<open>A classifier: the flow of each five-tuple, and per flow the packets of each DSCP value.\<close>

record classifier_data =
  flow_map :: "(tuple_data \<times> nat) list"
  flow_dscp_map :: "(nat \<times> (nat \<times> nat) list) list"

datatype classifier = Ipv4Classifier classifier_data | Ipv6Classifier classifier_data

text \<open>The tracked packets, by flow and number, with the time they were last seen.\<close>

record flow_monitor =
  flow_stats :: "(nat \<times> flow_data) list"
  classifiers :: "classifier list"
  flow_probes :: "(nat \<times> probe_data) list list"
  tracked_packets :: "((nat \<times> nat) \<times> int) list"

definition count_lost :: "nat \<Rightarrow> flow_monitor \<Rightarrow> flow_monitor" where
  "count_lost i m =
     m\<lparr>flow_stats := map (\<lambda>(j, d). (j, if j = i then d\<lparr>lost_packets := lost_packets d + 1\<rparr> else d)) (flow_stats m)\<rparr>"

definition check_for_lost_packets :: "int \<Rightarrow> int \<Rightarrow> flow_monitor \<Rightarrow> flow_monitor" where
  "check_for_lost_packets now max_delay m =
     (let lost = filter (\<lambda>(key, seen). now - seen \<ge> max_delay) (tracked_packets m)
      in (fold (\<lambda>((i, packet), seen). count_lost i) lost m)
           \<lparr>tracked_packets := filter (\<lambda>(key, seen). now - seen < max_delay) (tracked_packets m)\<rparr>)"

section \<open>Writing\<close>

definition signed_text :: "int \<Rightarrow> string" where
  "signed_text t = (if t < 0 then CHR ''-'' # show_nat (nat (- t)) else CHR ''+'' # show_nat (nat t))"

definition time_text :: "int \<Rightarrow> string" where
  "time_text t = signed_text t @ ''.0ns''"

fun show_hex :: "nat \<Rightarrow> string" where
  "show_hex n =
     (let d = n mod 16; c = (if d < 10 then char_of (48 + d) else char_of (87 + d))
      in if n < 16 then [c] else show_hex (n div 16) @ [c])"

declare show_hex.simps [simp del]

definition bin_element :: "(rat \<Rightarrow> string) \<Rightarrow> histogram_data \<Rightarrow> nat \<Rightarrow> xml" where
  "bin_element show_double h i =
     Elem ''bin''
       [(''index'', show_nat i), (''start'', show_double (of_nat i * bin_width h)),
        (''width'', show_double (bin_width h)), (''count'', show_nat (bin_counts h ! i))] None []"

definition histogram_element :: "(rat \<Rightarrow> string) \<Rightarrow> string \<Rightarrow> histogram_data \<Rightarrow> xml" where
  "histogram_element show_double name h =
     Elem name [(''nBins'', show_nat (length (bin_counts h)))] None
       (map (bin_element show_double h) (filter (\<lambda>i. bin_counts h ! i \<noteq> 0) [0..<length (bin_counts h)]))"

definition dropped_elements :: "string \<Rightarrow> string \<Rightarrow> nat list \<Rightarrow> xml list" where
  "dropped_elements name number ns =
     map (\<lambda>(reason, n). Elem name [(''reasonCode'', show_nat reason), (number, show_nat n)] None [])
       (enumerate 0 ns)"

definition flow_element :: "(rat \<Rightarrow> string) \<Rightarrow> bool \<Rightarrow> nat \<times> flow_data \<Rightarrow> xml" where
  "flow_element show_double enable_histograms f =
     (case f of (i, d) \<Rightarrow>
       Elem ''Flow''
         [(''flowId'', show_nat i), (''timeFirstTxPacket'', time_text (first_tx d)),
          (''timeFirstRxPacket'', time_text (first_rx d)), (''timeLastTxPacket'', time_text (last_tx d)),
          (''timeLastRxPacket'', time_text (last_rx d)), (''delaySum'', time_text (delay_sum d)),
          (''jitterSum'', time_text (jitter_sum d)), (''lastDelay'', time_text (last_delay d)),
          (''txBytes'', show_nat (tx_bytes d)), (''rxBytes'', show_nat (rx_bytes d)),
          (''txPackets'', show_nat (tx_packets d)), (''rxPackets'', show_nat (rx_packets d)),
          (''lostPackets'', show_nat (lost_packets d)), (''timesForwarded'', show_nat (times_forwarded d))] None
         (dropped_elements ''packetsDropped'' ''number'' (packets_dropped d) @
          dropped_elements ''bytesDropped'' ''bytes'' (bytes_dropped d) @
          (if enable_histograms then
             [histogram_element show_double ''delayHistogram'' (delay_histogram d),
              histogram_element show_double ''jitterHistogram'' (jitter_histogram d),
              histogram_element show_double ''packetSizeHistogram'' (packet_size_histogram d),
              histogram_element show_double ''flowInterruptionsHistogram'' (flow_interruptions_histogram d)]
           else [])))"

definition dscp_element :: "nat \<times> nat \<Rightarrow> xml" where
  "dscp_element x =
     Elem ''Dscp'' [(''value'', ''0x'' @ show_hex (fst x)), (''packets'', show_nat (snd x))] None []"

definition class_element :: "classifier_data \<Rightarrow> tuple_data \<times> nat \<Rightarrow> xml" where
  "class_element c x =
     (case x of (t, i) \<Rightarrow>
       Elem ''Flow''
         [(''flowId'', show_nat i), (''sourceAddress'', t_source t), (''destinationAddress'', t_destination t),
          (''protocol'', show_nat (t_protocol t)), (''sourcePort'', show_nat (t_source_port t)),
          (''destinationPort'', show_nat (t_destination_port t))] None
         (case map_of (flow_dscp_map c) i of None \<Rightarrow> [] | Some ds \<Rightarrow> map dscp_element ds))"

definition classifier_element :: "classifier \<Rightarrow> xml" where
  "classifier_element c =
     (case c of
        Ipv4Classifier d \<Rightarrow> Elem ''Ipv4FlowClassifier'' [] None (map (class_element d) (flow_map d))
      | Ipv6Classifier d \<Rightarrow> Elem ''Ipv6FlowClassifier'' [] None (map (class_element d) (flow_map d)))"

definition stats_element :: "nat \<times> probe_data \<Rightarrow> xml" where
  "stats_element x =
     (case x of (i, b) \<Rightarrow>
       Elem ''FlowStats''
         [(''flowId'', show_nat i), (''packets'', show_nat (b_packets b)), (''bytes'', show_nat (b_bytes b)),
          (''delayFromFirstProbeSum'', time_text (b_delay_sum b))] None
         (dropped_elements ''packetsDropped'' ''number'' (b_packets_dropped b) @
          dropped_elements ''bytesDropped'' ''bytes'' (b_bytes_dropped b)))"

definition probe_element :: "nat \<times> (nat \<times> probe_data) list \<Rightarrow> xml" where
  "probe_element p = Elem ''FlowProbe'' [(''index'', show_nat (fst p))] None (map stats_element (snd p))"

definition serialize ::
    "(rat \<Rightarrow> string) \<Rightarrow> int \<Rightarrow> int \<Rightarrow> bool \<Rightarrow> bool \<Rightarrow> flow_monitor \<Rightarrow> xml" where
  "serialize show_double now max_delay enable_histograms enable_probes m =
     (let m = check_for_lost_packets now max_delay m
      in Elem ''FlowMonitor'' [] None
        ([Elem ''FlowStats'' [] None (map (flow_element show_double enable_histograms) (flow_stats m))] @
         map classifier_element (classifiers m) @
         (if enable_probes
          then [Elem ''FlowProbes'' [] None (map probe_element (enumerate 0 (flow_probes m)))] else [])))"

section \<open>What the numbers mean\<close>

definition rate_of :: "nat \<Rightarrow> int \<Rightarrow> rat option" where
  "rate_of size_in_bytes ns = (if ns > 0 then Some (8 * of_nat size_in_bytes * 10 ^ 9 / of_int ns) else None)"

definition probe_of :: "nat \<Rightarrow> probe_data \<Rightarrow> probe_stats" where
  "probe_of i b =
     \<lparr>probe_id = int i, pr_packets = int (b_packets b), pr_bytes = int (b_bytes b),
      delay_from_first_probe = (if b_packets b > 0 then of_int (b_delay_sum b) / of_nat (b_packets b) else 0)\<rparr>"

definition probes_of :: "(nat \<times> (nat \<times> probe_data) list) list \<Rightarrow> nat \<Rightarrow> probe_stats list" where
  "probes_of ps i =
     concat (map (\<lambda>(pid, bs). map (\<lambda>x. probe_of pid (snd x)) (filter (\<lambda>x. fst x = i) bs)) ps)"

definition tuple_of :: "tuple_data \<Rightarrow> five_tuple" where
  "tuple_of t =
     \<lparr>source_address = Some (t_source t), destination_address = Some (t_destination t),
      protocol = int (t_protocol t), source_port = int (t_source_port t),
      destination_port = int (t_destination_port t)\<rparr>"

text \<open>The five-tuple of a flow: of several entries with its number the last.\<close>

definition tuple_in :: "(tuple_data \<times> nat) list \<Rightarrow> nat \<Rightarrow> five_tuple option" where
  "tuple_in ts i = map_option tuple_of (map_of (rev (map (\<lambda>(t, j). (j, t)) ts)) i)"

text \<open>The bins of a histogram that are not empty; \<open>v\<close> is what is read of a number that was printed.\<close>

definition bins_of :: "(rat \<Rightarrow> rat) \<Rightarrow> histogram_data \<Rightarrow> (rat \<times> rat \<times> int) list" where
  "bins_of v h =
     map (\<lambda>i. (v (of_nat i * bin_width h), v (bin_width h), int (bin_counts h ! i)))
       (filter (\<lambda>i. bin_counts h ! i \<noteq> 0) [0..<length (bin_counts h)])"

definition flow_of :: "(rat \<Rightarrow> rat) \<Rightarrow> bool \<Rightarrow> nat \<times> flow_data \<Rightarrow> flow" where
  "flow_of v histograms f =
     (let i = fst f; d = snd f; rx = of_nat (rx_packets d); received = rx_packets d > 0
      in \<lparr>flow_id = int i, rx_duration = of_int (last_rx d - first_rx d) / 10 ^ 9,
          hop_count = (if received then of_nat (times_forwarded d) / rx + 1 else - 1000),
          delay_mean = (if received then Some (of_int (delay_sum d) / rx / 10 ^ 9) else None),
          packet_size_mean = (if received then Some (of_nat (rx_bytes d) / rx) else None),
          rx_bitrate = rate_of (rx_bytes d) (last_rx d - first_rx d),
          tx_bitrate = rate_of (tx_bytes d) (last_tx d - first_tx d),
          loss_ratio = (if received then Some (of_nat (lost_packets d) / (rx + of_nat (lost_packets d))) else None),
          interruptions = (if histograms then Some (bins_of v (flow_interruptions_histogram d)) else None),
          flow_tuple = None, probe_stats_unsorted = []\<rparr>)"

text \<open>Python's \<open>float\<close> reads what a stream prints: integers as they are, doubles rounded.\<close>

definition reads_numbers :: "(string \<Rightarrow> rat option) \<Rightarrow> (rat \<Rightarrow> string) \<Rightarrow> bool" where
  "reads_numbers float_of show_double \<longleftrightarrow>
     (\<forall>n. float_of (show_nat n) = Some (of_nat n)) \<and> (\<forall>t. float_of (signed_text t) = Some (of_int t)) \<and>
     (\<forall>q. float_of (show_double q) \<noteq> None)"

definition read_back :: "(string \<Rightarrow> rat option) \<Rightarrow> (rat \<Rightarrow> string) \<Rightarrow> rat \<Rightarrow> rat" where
  "read_back float_of show_double q = the (float_of (show_double q))"

lemma show_nat_ends: "\<not> is_ws (hd (show_nat n))" "\<not> is_ws (last (show_nat n))"
proof -
  have d: "list_all is_digit (show_nat n)" "show_nat n \<noteq> []" using show_nat_digits [of n] by simp_all
  have "\<not> is_ws c" if "is_digit c" for c using that by (auto simp: is_digit_def is_ws_def)
  with d show "\<not> is_ws (hd (show_nat n))" "\<not> is_ws (last (show_nat n))" by (auto simp: list_all_iff)
qed

lemma py_int_show [simp]: "py_int (show_nat n) = Inr (int n)"
proof -
  have d: "list_all is_digit (show_nat n)" "show_nat n \<noteq> []" using show_nat_digits [of n] by simp_all
  have "strip (show_nat n) = show_nat n" using d(2) show_nat_ends by (rule strip_id)
  moreover have "is_digit (hd (show_nat n))" using d by (cases "show_nat n") auto
  then have "hd (show_nat n) \<noteq> CHR ''+''" "hd (show_nat n) \<noteq> CHR ''-''" by (auto simp: is_digit_def)
  ultimately show ?thesis using d by (simp add: py_int_def digits_val_show_nat)
qed

lemma py_int_signed [simp]: "py_int (signed_text t) = Inr t"
proof -
  have s: "py_int (c # show_nat n) = Inr ((if c = CHR ''-'' then -1 else 1) * int n)"
    if c: "c \<in> {CHR ''+'', CHR ''-''}" for c n
  proof -
    have d: "list_all is_digit (show_nat n)" "show_nat n \<noteq> []" using show_nat_digits [of n] by simp_all
    have "\<not> is_ws c" using c by (auto simp: is_ws_def)
    then have "strip (c # show_nat n) = c # show_nat n"
      using d(2) show_nat_ends(2) by (intro strip_id) simp_all
    then show ?thesis using d c by (auto simp: py_int_def digits_val_show_nat)
  qed
  show ?thesis by (simp add: signed_text_def s)
qed

lemma time_text_slice [simp]: "slice_to (time_text t) (-4) = signed_text t"
  using slice_to_neg [of 4 "time_text t"] by (simp add: time_text_def)

lemma parse_time_text [simp]: "parse_time_ns (Some (time_text t)) = Inr t"
proof -
  have "endswith ''ns'' (time_text t)" by (simp add: endswith_def startswith_def time_text_def)
  then show ?thesis by (simp add: parse_time_ns_def)
qed

section \<open>Reading a flow\<close>

lemma rfold_append_each:
  assumes "\<And>x. x \<in> set xs \<Longrightarrow> f (e x) = Inr (g x)"
  shows "rfold (\<lambda>x acc. rbind (f x) (\<lambda>y. Inr (acc @ [y]))) (map e xs) acc = Inr (acc @ map g xs)"
  using assms by (induction xs arbitrary: acc) auto

lemma parse_histogram_element:
  assumes "reads_numbers float_of show_double"
  shows "parse_histogram float_of (histogram_element show_double name h) =
    Inr (bins_of (read_back float_of show_double) h)"
proof -
  let ?b = "\<lambda>i. (read_back float_of show_double (of_nat i * bin_width h),
      read_back float_of show_double (bin_width h), int (bin_counts h ! i))"
  have "float_of (show_double q) \<noteq> None" for q using assms by (simp add: reads_numbers_def)
  then have "to_float_text float_of (show_double q) = Inr (read_back float_of show_double q)" for q
    by (auto simp: to_float_text_def read_back_def split: option.split)
  then have "parse_bin float_of (bin_element show_double h i) = Inr (?b i)" for i
    by (simp add: parse_bin_def bin_element_def attr_int_def attr_float_def attr_text_def attr_get_def)
  note bins = rfold_append_each [of _ "parse_bin float_of" "bin_element show_double h", OF this]
  show ?thesis
    by (simp add: parse_histogram_def findall_def histogram_element_def bin_element_def [abs_def] filter_map comp_def
        bins_of_def) (simp add: bin_element_def [symmetric] bins)
qed

lemma kids_not_dropped:
  assumes "name \<noteq> t"
  shows "find_kid t (Elem x a y (dropped_elements name number ns @ ks)) = find_kid t (Elem x a y ks)"
proof -
  have "List.find (\<lambda>k. tag k = t) (xs @ ks) = List.find (\<lambda>k. tag k = t) ks" if "\<forall>k \<in> set xs. tag k \<noteq> t" for xs
    using that by (induction xs) auto
  moreover have "\<forall>k \<in> set (dropped_elements name number ns). tag k \<noteq> t"
    using assms by (auto simp: dropped_elements_def)
  ultimately show ?thesis by (simp add: find_kid_def)
qed

lemma parse_flow_element:
  assumes "reads_numbers float_of show_double"
  shows "parse_flow float_of (flow_element show_double histograms f) =
    Inr (flow_of (read_back float_of show_double) histograms f)"
proof -
  obtain i d where f: "f = (i, d)" by (cases f)
  have "find_kid ''flowInterruptionsHistogram'' (flow_element show_double histograms f) =
      (if histograms
       then Some (histogram_element show_double ''flowInterruptionsHistogram'' (flow_interruptions_histogram d))
       else None)"
    by (simp add: flow_element_def f kids_not_dropped) (simp add: find_kid_def histogram_element_def)
  with assms show ?thesis
    by (simp add: parse_flow_def flow_element_def f attr_int_def attr_text_def attr_get_def attr_ticks_def
        attr_float_def to_float_text_def reads_numbers_def flow_of_def rate_of_def Let_def
        parse_histogram_element [OF assms])
qed

section \<open>Reading a report\<close>

text \<open>The flow objects by their place in the list.\<close>

definition map_ok :: "nat list \<Rightarrow> (int, nat) pydict \<Rightarrow> bool" where
  "map_ok ids m \<longleftrightarrow>
     (\<forall>k < length ids. dict_get m (int (ids ! k)) = Some k) \<and>
     (\<forall>i. i \<notin> set ids \<longrightarrow> dict_get m (int i) = None)"

lemma add_flows:
  assumes "reads_numbers float_of show_double" and "distinct (map fst fs)"
  shows "\<exists>m. rfold (add_flow float_of) (map (flow_element show_double histograms) fs) ([], []) =
      Inr (map (flow_of (read_back float_of show_double) histograms) fs, m) \<and> map_ok (map fst fs) m"
  using assms(2)
proof (induction fs rule: rev_induct)
  case Nil
  then show ?case by (simp add: map_ok_def)
next
  case (snoc f fs)
  let ?r = "rfold (add_flow float_of) (map (flow_element show_double histograms) fs) ([], [])"
  let ?g = "flow_of (read_back float_of show_double) histograms"
  from snoc obtain m where m: "?r = Inr (map ?g fs, m)" "map_ok (map fst fs) m" by auto
  let ?m = "dict_put (int (fst f)) (length fs) m"
  have "flow_id (?g f) = int (fst f)" by (simp add: flow_of_def Let_def)
  then have "rfold (add_flow float_of) (map (flow_element show_double histograms) (fs @ [f])) ([], []) =
      Inr (map ?g (fs @ [f]), ?m)"
    by (simp add: rfold_append m(1) add_flow_def parse_flow_element [OF assms(1)])
  moreover have "map_ok (map fst (fs @ [f])) ?m"
  proof -
    have "fst (fs ! k) \<noteq> fst f" if "k < length fs" for k
      using snoc.prems that by simp (metis image_eqI nth_mem)
    then show ?thesis using m(2) by (auto simp: map_ok_def nth_append dict_simps less_Suc_eq)
  qed
  ultimately show ?case by blast
qed

lemma update_flow_map:
  assumes "map_ok (map fst fs) m" and "distinct (map fst fs)"
  shows "update_flow m (int i) u (map g fs) =
    (if i \<in> fst ` set fs then Inr (map (\<lambda>f. if fst f = i then u (g f) else g f) fs) else Inl KeyError)"
proof (cases "i \<in> fst ` set fs")
  case True
  then obtain k where k: "k < length fs" "fst (fs ! k) = i" by (auto simp: in_set_conv_nth)
  then have "dict_get m (int i) = Some k" using assms(1) by (auto simp: map_ok_def)
  moreover have "fst (fs ! j) = i \<longleftrightarrow> j = k" if "j < length fs" for j
    using k that assms(2) by (metis length_map nth_eq_iff_index_eq nth_map)
  then have "(map g fs)[k := u (map g fs ! k)] = map (\<lambda>f. if fst f = i then u (g f) else g f) fs"
    using k by (intro nth_equalityI) (auto simp: nth_list_update)
  ultimately show ?thesis using True by (simp add: update_flow_def)
next
  case False
  then show ?thesis using assms(1) by (simp add: update_flow_def map_ok_def)
qed

lemma five_tuple_element:
  "rbind (attr_int (class_element c (t, i)) ''flowId'') (\<lambda>j. rbind (parse_five_tuple (class_element c (t, i))) (h j)) =
   h (int i) (tuple_of t)"
  by (simp add: class_element_def parse_five_tuple_def attr_int_def attr_text_def attr_get_def tuple_of_def)

lemma tuple_in_Cons:
  "tuple_in (x # ts) i = (case tuple_in ts i of None \<Rightarrow> if snd x = i then Some (tuple_of (fst x)) else None | Some t \<Rightarrow> Some t)"
  by (auto simp: tuple_in_def map_add_def case_prod_beta split: option.split)

lemma classify_flows:
  assumes "map_ok (map fst fs) m" and "distinct (map fst fs)"
  shows "rfold (classify_flow m) (map (class_element c) ts) (map g fs) =
    (if snd ` set ts \<subseteq> fst ` set fs
     then Inr (map (\<lambda>f. case tuple_in ts (fst f) of None \<Rightarrow> g f | Some t \<Rightarrow> (g f)\<lparr>flow_tuple := Some t\<rparr>) fs)
     else Inl KeyError)"
proof (induction ts arbitrary: g)
  case Nil
  then show ?case by (simp add: tuple_in_def)
next
  case (Cons x ts)
  obtain t i where x: "x = (t, i)" by (cases x)
  let ?u = "flow_tuple_update (\<lambda>y. Some (tuple_of t))"
  let ?h = "\<lambda>f. if fst f = i then ?u (g f) else g f"
  have step: "classify_flow m (class_element c x) (map g fs) =
      (if i \<in> fst ` set fs then Inr (map ?h fs) else Inl KeyError)"
    using update_flow_map [OF assms, of i ?u g] by (simp add: classify_flow_def x five_tuple_element)
  have "(case tuple_in ts (fst f) of None \<Rightarrow> ?h f | Some t \<Rightarrow> (?h f)\<lparr>flow_tuple := Some t\<rparr>) =
      (case tuple_in (x # ts) (fst f) of None \<Rightarrow> g f | Some t \<Rightarrow> (g f)\<lparr>flow_tuple := Some t\<rparr>)" for f
    by (auto simp: tuple_in_Cons x split: option.split)
  with Cons.IH [of ?h] step show ?case by (simp add: x)
qed

lemma probe_stats_element:
  "add_probe_stats m (int pid) (stats_element x) flows =
     update_flow m (int (fst x))
       (\<lambda>f. f\<lparr>probe_stats_unsorted := probe_stats_unsorted f @ [probe_of pid (snd x)]\<rparr>) flows"
  by (cases x) (simp add: add_probe_stats_def stats_element_def attr_int_def attr_text_def attr_get_def probe_of_def)

lemma add_probe_rows:
  assumes "map_ok (map fst fs) m" and "distinct (map fst fs)"
  shows "rfold (add_probe_stats m (int pid)) (map stats_element bs) (map g fs) =
    (if fst ` set bs \<subseteq> fst ` set fs
     then Inr (map (\<lambda>f. (g f)\<lparr>probe_stats_unsorted := probe_stats_unsorted (g f) @
       map (\<lambda>x. probe_of pid (snd x)) (filter (\<lambda>x. fst x = fst f) bs)\<rparr>) fs)
     else Inl KeyError)"
proof (induction bs arbitrary: g)
  case Nil
  then show ?case by simp
next
  case (Cons b bs)
  let ?u = "\<lambda>r. r\<lparr>probe_stats_unsorted := probe_stats_unsorted r @ [probe_of pid (snd b)]\<rparr>"
  let ?h = "\<lambda>f. if fst f = fst b then ?u (g f) else g f"
  have "add_probe_stats m (int pid) (stats_element b) (map g fs) =
      (if fst b \<in> fst ` set fs then Inr (map ?h fs) else Inl KeyError)"
    using update_flow_map [OF assms, of "fst b" ?u g] by (simp add: probe_stats_element)
  then show ?case using Cons.IH [of ?h] by (auto intro!: map_cong)
qed

lemma add_probes:
  assumes "map_ok (map fst fs) m" and "distinct (map fst fs)"
  shows "rfold (add_probe m) (map probe_element ps) (map g fs) =
    (if \<forall>p \<in> set ps. fst ` set (snd p) \<subseteq> fst ` set fs
     then Inr (map (\<lambda>f. (g f)\<lparr>probe_stats_unsorted := probe_stats_unsorted (g f) @ probes_of ps (fst f)\<rparr>) fs)
     else Inl KeyError)"
proof (induction ps arbitrary: g)
  case Nil
  then show ?case by (simp add: probes_of_def)
next
  case (Cons p ps)
  have "findall ''FlowStats'' (probe_element p) = map stats_element (snd p)"
    by (simp add: findall_def probe_element_def stats_element_def filter_map comp_def case_prod_beta)
  moreover have "attr_int (probe_element p) ''index'' = Inr (int (fst p))"
    by (simp add: attr_int_def attr_text_def attr_get_def probe_element_def)
  ultimately have "add_probe m (probe_element p) (map g fs) =
      (if fst ` set (snd p) \<subseteq> fst ` set fs
       then Inr (map (\<lambda>f. (g f)\<lparr>probe_stats_unsorted := probe_stats_unsorted (g f) @
         map (\<lambda>x. probe_of (fst p) (snd x)) (filter (\<lambda>x. fst x = fst f) (snd p))\<rparr>) fs)
       else Inl KeyError)"
    using add_probe_rows [OF assms] by (simp add: add_probe_def)
  then show ?case using Cons.IH by (simp add: probes_of_def case_prod_beta)
qed

text \<open>A check for lost packets adds the overdue packets of a flow to its losses.\<close>

lemma count_lost_stats:
  "flow_stats (fold (\<lambda>((i, packet), seen). count_lost i) lost m) =
     map (\<lambda>(j, d). (j, d\<lparr>lost_packets := lost_packets d + length (filter (\<lambda>((i, packet), seen). i = j) lost)\<rparr>))
       (flow_stats m)"
proof (induction lost arbitrary: m)
  case Nil
  then show ?case by (simp add: case_prod_beta)
next
  case (Cons x lost)
  then show ?case by (auto simp: count_lost_def case_prod_beta intro!: map_cong)
qed

lemma count_lost_rest:
  "classifiers (fold (\<lambda>((i, packet), seen). count_lost i) lost m) = classifiers m"
  "flow_probes (fold (\<lambda>((i, packet), seen). count_lost i) lost m) = flow_probes m"
  by (induction lost arbitrary: m) (auto simp: count_lost_def case_prod_beta)

lemma check_for_lost_packets_stats:
  "flow_stats (check_for_lost_packets now max_delay m) =
     map (\<lambda>(j, d). (j, d\<lparr>lost_packets := lost_packets d +
         length (filter (\<lambda>((i, packet), seen). i = j \<and> now - seen \<ge> max_delay) (tracked_packets m))\<rparr>))
       (flow_stats m)"
  by (simp add: check_for_lost_packets_def Let_def case_prod_unfold count_lost_stats [unfolded case_prod_unfold]
      conj_commute)

lemma check_for_lost_packets_rest:
  "classifiers (check_for_lost_packets now max_delay m) = classifiers m"
  "flow_probes (check_for_lost_packets now max_delay m) = flow_probes m"
  by (simp_all add: check_for_lost_packets_def count_lost_rest Let_def)

lemma check_for_lost_packets_ids:
  "map fst (flow_stats (check_for_lost_packets now max_delay m)) = map fst (flow_stats m)"
  "fst ` set (flow_stats (check_for_lost_packets now max_delay m)) = fst ` set (flow_stats m)"
  by (simp_all add: check_for_lost_packets_stats case_prod_beta comp_def image_image)

definition ipv4_classifiers :: "flow_monitor \<Rightarrow> classifier_data list" where
  "ipv4_classifiers m =
     concat (map (\<lambda>c. case c of Ipv4Classifier d \<Rightarrow> [d] | Ipv6Classifier d \<Rightarrow> []) (classifiers m))"

lemma tag_classifier [simp]:
  "tag (classifier_element c) =
     (case c of Ipv4Classifier d \<Rightarrow> ''Ipv4FlowClassifier'' | Ipv6Classifier d \<Rightarrow> ''Ipv6FlowClassifier'')"
  by (simp add: classifier_element_def split: classifier.split)

lemma findall_classifiers:
  "filter (\<lambda>k. tag k = ''Ipv4FlowClassifier'') (map classifier_element cs) =
     map (\<lambda>d. Elem ''Ipv4FlowClassifier'' [] None (map (class_element d) (flow_map d)))
       (concat (map (\<lambda>c. case c of Ipv4Classifier d \<Rightarrow> [d] | Ipv6Classifier d \<Rightarrow> []) cs))"
  "filter (\<lambda>k. tag k = ''FlowStats'') (map classifier_element cs) = []"
  "filter (\<lambda>k. tag k = ''FlowProbes'') (map classifier_element cs) = []"
  by (induction cs) (auto simp: classifier_element_def split: classifier.splits)

lemma filter_tag: "(\<And>x. tag (e x) = t) \<Longrightarrow> filter (\<lambda>k. tag k = t) (map e xs) = map e xs"
  by (induction xs) auto

lemma findall_report:
  shows "findall ''Ipv4FlowClassifier'' (serialize show_double now max_delay histograms probes m) =
      map (\<lambda>d. Elem ''Ipv4FlowClassifier'' [] None (map (class_element d) (flow_map d))) (ipv4_classifiers m)"
    and "findall2 ''FlowStats'' ''Flow'' (serialize show_double now max_delay histograms probes m) =
      map (flow_element show_double histograms) (flow_stats (check_for_lost_packets now max_delay m))"
    and "findall2 ''FlowProbes'' ''FlowProbe'' (serialize show_double now max_delay histograms probes m) =
      (if probes then map probe_element (enumerate 0 (flow_probes m)) else [])"
    and "findall ''Flow'' (Elem ''Ipv4FlowClassifier'' [] None (map (class_element d) ts)) = map (class_element d) ts"
proof -
  have "tag (flow_element show_double histograms f) = ''Flow''" "tag (class_element d x) = ''Flow''"
    "tag (probe_element p) = ''FlowProbe''" for f d x p
    by (simp_all add: flow_element_def class_element_def probe_element_def split: prod.split)
  note tags = this [THEN filter_tag]
  show "findall ''Ipv4FlowClassifier'' (serialize show_double now max_delay histograms probes m) =
      map (\<lambda>d. Elem ''Ipv4FlowClassifier'' [] None (map (class_element d) (flow_map d))) (ipv4_classifiers m)"
    and "findall2 ''FlowStats'' ''Flow'' (serialize show_double now max_delay histograms probes m) =
      map (flow_element show_double histograms) (flow_stats (check_for_lost_packets now max_delay m))"
    and "findall2 ''FlowProbes'' ''FlowProbe'' (serialize show_double now max_delay histograms probes m) =
      (if probes then map probe_element (enumerate 0 (flow_probes m)) else [])"
    and "findall ''Flow'' (Elem ''Ipv4FlowClassifier'' [] None (map (class_element d) ts)) = map (class_element d) ts"
    by (simp_all add: findall_def findall2_def serialize_def Let_def findall_classifiers ipv4_classifiers_def
        check_for_lost_packets_rest tags)
qed

text \<open>Each classifier counts its flows from 1, and the statistics are kept by the number alone: an IPv6 flow shares them
  with the IPv4 flow of its number.\<close>

text \<open>C30: The report that a flow monitor writes, with or without histograms and probes, is read back when the
  monitor has one IPv4 classifier and numbered flows with statistics: all flows in the order of their numbers, with
  rates in bits per second over the time between the first and the last packet, mean delay and size per received
  packet, losses (with the packets overdue at the time of writing) relative to what was received or lost, the bins
  of the interruptions histogram that are not empty, the addresses of the last entry of the IPv4 classifier with
  the flow's number, and the statistics of the probes on its way in order; what cannot be computed is None, and a
  flow whose number the IPv4 classifier does not have has no address. A flow of the IPv4 classifier, or a flow of a probe that
  is written, without statistics is a KeyError; no IPv4 classifier, or two, a ValueError.\<close>

theorem flowmon_roundtrip:
  assumes "reads_numbers float_of show_double" and "distinct (map fst (flow_stats m))"
  shows "parse_simulation float_of (serialize show_double now max_delay histograms probes m) =
    (case ipv4_classifiers m of
       [c] \<Rightarrow>
         let ids = fst ` set (flow_stats m); ps = (if probes then enumerate 0 (flow_probes m) else [])
         in if snd ` set (flow_map c) \<subseteq> ids \<and> (\<forall>p \<in> set ps. fst ` set (snd p) \<subseteq> ids)
            then Inr (map (\<lambda>(i, d).
              (flow_of (read_back float_of show_double) histograms
                 (i, d\<lparr>lost_packets := lost_packets d +
                    length (filter (\<lambda>((j, packet), seen). j = i \<and> now - seen \<ge> max_delay) (tracked_packets m))\<rparr>))
                \<lparr>flow_tuple := tuple_in (flow_map c) i, probe_stats_unsorted := probes_of ps i\<rparr>) (flow_stats m))
            else Inl KeyError
     | _ \<Rightarrow> Inl ValueError)"
proof -
  define ps where "ps = (if probes then enumerate 0 (flow_probes m) else [])"
  let ?fs = "flow_stats (check_for_lost_packets now max_delay m)"
  let ?g = "flow_of (read_back float_of show_double) histograms"
  have d: "distinct (map fst ?fs)" using assms(2) by (simp add: check_for_lost_packets_ids)
  obtain fm where fm: "rfold (add_flow float_of) (map (flow_element show_double histograms) ?fs) ([], []) =
      Inr (map ?g ?fs, fm)" "map_ok (map fst ?fs) fm"
    using add_flows [OF assms(1) d] by blast
  have g: "(case t of None \<Rightarrow> ?g f | Some t \<Rightarrow> (?g f)\<lparr>flow_tuple := Some t\<rparr>) = (?g f)\<lparr>flow_tuple := t\<rparr>"
    "probe_stats_unsorted (?g f) = []" for f t
    by (simp_all add: flow_of_def Let_def split: option.split)
  have ps: "(if probes then map probe_element (enumerate 0 (flow_probes m)) else []) = map probe_element ps"
    by (simp add: ps_def)
  show ?thesis
  proof (cases "ipv4_classifiers m")
    case one: (Cons c cs)
    show ?thesis
    proof (cases cs)
      case Nil
      with one have c: "ipv4_classifiers m = [c]" by simp
      have "parse_simulation float_of (serialize show_double now max_delay histograms probes m) =
        (if snd ` set (flow_map c) \<subseteq> fst ` set ?fs \<and> (\<forall>p \<in> set ps. fst ` set (snd p) \<subseteq> fst ` set ?fs)
         then Inr (map (\<lambda>f. (?g f)\<lparr>flow_tuple := tuple_in (flow_map c) (fst f),
           probe_stats_unsorted := probes_of ps (fst f)\<rparr>) ?fs)
         else Inl KeyError)"
        by (simp only: parse_simulation_def findall_report c list.map list.case fm(1) rbind_simps prod.case
            classify_flows [OF fm(2) d] g(1) ps) 
          (simp add: add_probes [OF fm(2) d] g(2))
      then show ?thesis
        by (simp only: c list.case Let_def ps_def [symmetric] check_for_lost_packets_ids(2))
          (simp only: check_for_lost_packets_stats list.map_comp comp_def case_prod_unfold fst_conv)
    next
      case (Cons c' cs')
      with one show ?thesis by (simp add: parse_simulation_def findall_report)
    qed
  next
    case Nil
    then show ?thesis by (simp add: parse_simulation_def findall_report)
  qed
qed

section \<open>A report\<close>

text \<open>Doubles with three digits after the point, and the numbers that are printed.\<close>

definition show_decimal :: "rat \<Rightarrow> string" where
  "show_decimal q =
     (let n = nat \<lfloor>\<bar>q\<bar> * 1000\<rfloor>
      in (if q < 0 then ''-'' else '''') @ show_nat (n div 1000) @ CHR ''.'' # tl (show_nat (1000 + n mod 1000)))"

definition read_decimal :: "string \<Rightarrow> rat option" where
  "read_decimal s =
     (let whole = takeWhile (\<lambda>c. c \<noteq> CHR ''.'') s; frac = drop (length whole + 1) s
      in case py_int whole of
           Inl e \<Rightarrow> None
         | Inr i \<Rightarrow>
             if list_all is_digit frac
             then Some (of_int i + (if hd s = CHR ''-'' then -1 else 1) * of_nat (digits_val frac) / 10 ^ length frac)
             else None)"

lemma show_nat_no_point: "takeWhile (\<lambda>c. c \<noteq> CHR ''.'') (show_nat n @ s) = show_nat n @ takeWhile (\<lambda>c. c \<noteq> CHR ''.'') s"
proof -
  have "c \<noteq> CHR ''.''" if "is_digit c" for c using that by (auto simp: is_digit_def)
  then have "\<forall>c \<in> set (show_nat n). c \<noteq> CHR ''.''" using show_nat_digits [of n] by (auto simp: list_all_iff)
  then show ?thesis by (simp add: takeWhile_append2)
qed

lemma read_decimal_whole:
  assumes "takeWhile (\<lambda>c. c \<noteq> CHR ''.'') s = s" and "py_int s = Inr i"
  shows "read_decimal s = Some (of_int i)"
  unfolding read_decimal_def Let_def assms by (simp add: digits_val_def)

lemma read_decimal_nat: "read_decimal (show_nat n) = Some (of_nat n)"
  using read_decimal_whole [OF _ py_int_show, of n] show_nat_no_point [of n "[]"]
  by (simp del: takeWhile_eq_all_conv)

lemma read_decimal_signed: "read_decimal (signed_text t) = Some (of_int t)"
proof (rule read_decimal_whole [OF _ py_int_signed])
  show "takeWhile (\<lambda>c. c \<noteq> CHR ''.'') (signed_text t) = signed_text t"
    using show_nat_no_point [of "nat (- t)" "[]"] show_nat_no_point [of "nat t" "[]"]
    by (simp add: signed_text_def del: takeWhile_eq_all_conv)
qed

lemma read_show_decimal: "read_decimal (show_decimal q) \<noteq> None"
proof -
  define a where "a = nat \<lfloor>\<bar>q\<bar> * 1000\<rfloor> div 1000"
  define r where "r = tl (show_nat (1000 + nat \<lfloor>\<bar>q\<bar> * 1000\<rfloor> mod 1000))"
  define sign where "sign = (if q < 0 then ''-'' else '''')"
  have q: "show_decimal q = sign @ show_nat a @ CHR ''.'' # r"
    by (simp add: show_decimal_def a_def r_def sign_def Let_def)
  have whole: "takeWhile (\<lambda>c. c \<noteq> CHR ''.'') (show_decimal q) = sign @ show_nat a"
    by (simp add: q sign_def show_nat_no_point)
  moreover have "py_int (sign @ show_nat a) = Inr (if q < 0 then - int a else int a)"
  proof (cases "q < 0")
    case True
    have "strip (CHR ''-'' # show_nat a) = CHR ''-'' # show_nat a"
      using show_nat_digits [of a] show_nat_ends(2) by (intro strip_id) (simp_all add: is_ws_def)
    then show ?thesis using True show_nat_digits [of a] by (simp add: sign_def py_int_def digits_val_show_nat)
  qed (simp add: sign_def)
  moreover have "list_all is_digit r"
    using show_nat_digits by (simp add: r_def list_all_iff) (metis list.set_sel(2))
  moreover have "drop (length (sign @ show_nat a) + 1) (show_decimal q) = r" by (simp add: q)
  ultimately show ?thesis unfolding read_decimal_def Let_def whole by simp
qed

lemma reads_decimal: "reads_numbers read_decimal show_decimal"
  by (simp only: reads_numbers_def read_decimal_nat read_decimal_signed) (simp add: read_show_decimal)

definition demo_histogram :: "nat list \<Rightarrow> histogram_data" where
  "demo_histogram counts = \<lparr>bin_width = 1 / 4, bin_counts = counts\<rparr>"

definition demo_flow :: "nat \<Rightarrow> flow_data" where
  "demo_flow received =
     \<lparr>first_tx = 0, first_rx = 500, last_tx = 1000, last_rx = 500 * int received, delay_sum = 500 * int received,
      jitter_sum = 0, last_delay = 500, tx_bytes = 500, rx_bytes = 100 * received, tx_packets = 5,
      rx_packets = received, lost_packets = 0, times_forwarded = received, packets_dropped = [0, 1],
      bytes_dropped = [0, 100], delay_histogram = demo_histogram [4], jitter_histogram = demo_histogram [],
      packet_size_histogram = demo_histogram [0, 0, 4], flow_interruptions_histogram = demo_histogram [0, 3, 0, 2]\<rparr>"

definition demo_tuple :: "string \<Rightarrow> string \<Rightarrow> tuple_data" where
  "demo_tuple source destination =
     \<lparr>t_source = source, t_destination = destination, t_protocol = 17, t_source_port = 5000, t_destination_port = 9\<rparr>"

definition demo_monitor :: flow_monitor where
  "demo_monitor =
     \<lparr>flow_stats = [(1, demo_flow 4), (2, demo_flow 0)],
      classifiers =
        [Ipv4Classifier \<lparr>flow_map = [(demo_tuple ''10.1.1.1'' ''10.1.2.1'', 1)], flow_dscp_map = [(1, [(46, 5)])]\<rparr>,
         Ipv6Classifier \<lparr>flow_map = [(demo_tuple ''2001::1'' ''2001::2'', 1), (demo_tuple ''2001::1'' ''2001::3'', 2)], flow_dscp_map = []\<rparr>],
      flow_probes =
        [[(1, \<lparr>b_packets = 5, b_bytes = 500, b_delay_sum = 0, b_packets_dropped = [], b_bytes_dropped = []\<rparr>)],
         [(1, \<lparr>b_packets = 4, b_bytes = 400, b_delay_sum = 2000, b_packets_dropped = [], b_bytes_dropped = []\<rparr>)]],
      tracked_packets = [((1, 4), 100)]\<rparr>"

lemma read_demo_bins:
  "bins_of (read_back read_decimal show_decimal) (demo_histogram [0, 3, 0, 2]) = [(1 / 4, 1 / 4, 3), (3 / 4, 1 / 4, 2)]"
proof -
  have "read_back read_decimal show_decimal (1 / 4) = 1 / 4" "read_back read_decimal show_decimal (3 / 4) = 3 / 4"
    by code_simp+
  then show ?thesis by (simp add: bins_of_def demo_histogram_def upt_rec)
qed

theorem flowmon_roundtrip_witness:
  "\<exists>f g. parse_simulation read_decimal (serialize show_decimal 20000 10000 True True demo_monitor) = Inr [f, g] \<and>
     tx_bitrate f = Some 4000000000 \<and> rx_bitrate f = Some (6400000000 / 3) \<and> loss_ratio f = Some (1 / 5) \<and>
     interruptions f = Some [(1 / 4, 1 / 4, 3), (3 / 4, 1 / 4, 2)] \<and>
     map_option source_address (flow_tuple f) = Some (Some ''10.1.1.1'') \<and>
     map delay_from_first_probe (probe_stats_unsorted f) = [0, 500] \<and> delay_mean g = None \<and> flow_tuple g = None"
  using flowmon_roundtrip [OF reads_decimal, of demo_monitor 20000 10000 True True]
  by (simp add: demo_monitor_def ipv4_classifiers_def demo_flow_def flow_of_def read_demo_bins rate_of_def
      tuple_in_def tuple_of_def demo_tuple_def probes_of_def probe_of_def Let_def)

end
