(* ===== verification/ScanPaths.thy ===== *)
theory ScanPaths
  imports PyPath
begin

text \<open>
  How the binding scanners find the name of a header below \<open>ns3\<close>: \<open>get_ns3_relative_path\<close> of
  \<open>bindings/python/ns3modulescan.py\<close>, whose loop need not end, and of \<open>ns3modulescan-modular.py\<close>, which
  ends. \<open>os.path.split\<close> is \<open>path_dirname\<close> and \<open>path_basename\<close>.
\<close>

section \<open>The two functions\<close>

text \<open>\<open>os.path.join(*l)\<close> takes at least one argument.\<close>

fun path_join_all :: "string list \<Rightarrow> string result" where
  "path_join_all [] = Inl TypeError"
| "path_join_all (c # cs) = Inr (foldl path_join c cs)"

partial_function (option) ns3_path_loop :: "string \<Rightarrow> string list \<Rightarrow> string result option" where
  "ns3_path_loop head l =
     (if head = [] then Some (Inl AssertionError)
      else if path_basename head = ''ns3'' then Some (path_join_all l)
      else ns3_path_loop (path_dirname head) (path_basename head # l))"

definition get_ns3_relative_path :: "string \<Rightarrow> string result option" where
  "get_ns3_relative_path path = ns3_path_loop path []"

lemma all_slashes_Nil: "list_all (\<lambda>c. c = CHR ''/'') p \<Longrightarrow> path_dirname p = p"
proof -
  assume p: "list_all (\<lambda>c. c = CHR ''/'') p"
  then have "dropWhile (\<lambda>c. c \<noteq> CHR ''/'') (rev p) = rev p"
    by (cases p rule: rev_cases) (auto simp: list_all_iff)
  then show ?thesis using p by (simp add: path_dirname_def)
qed

lemma path_dirname_prefix: "prefix (path_dirname p) p"
proof -
  have one: "prefix (rev (dropWhile P (rev xs))) xs" for P and xs :: string
    using suffix_dropWhile [of P "rev xs"] by (simp add: suffix_to_prefix)
  let ?h = "rev (dropWhile (\<lambda>c. c \<noteq> CHR ''/'') (rev p))"
  show ?thesis
    using one [of _ p] prefix_order.trans [OF one [of _ ?h] one [of _ p]] by (simp add: path_dirname_def Let_def)
qed

lemma path_dirname_shorter: "path_dirname p \<noteq> p \<Longrightarrow> length (path_dirname p) < length p"
  using path_dirname_prefix [of p] by (meson prefix_length_less prefix_order.le_neq_trans)

function ns3_path_loop_modular :: "string \<Rightarrow> string list \<Rightarrow> string result" where
  "ns3_path_loop_modular head l =
     (if head = [] then Inl AssertionError
      else if path_dirname head = head then Inl ValueError
      else if path_basename head = ''ns3'' then path_join_all l
      else ns3_path_loop_modular (path_dirname head) (path_basename head # l))"
  by pat_completeness auto
termination by (relation "measure (\<lambda>(head, l). length head)") (auto dest: path_dirname_shorter)

declare ns3_path_loop_modular.simps [simp del]

definition get_ns3_relative_path_modular :: "string \<Rightarrow> string option result" where
  "get_ns3_relative_path_modular path =
     (if path = [] then Inr None else rbind (ns3_path_loop_modular path []) (\<lambda>h. Inr (Some h)))"

section \<open>What they answer\<close>

lemma path_dirname_fixed: "path_dirname p = p \<Longrightarrow> path_basename p = []"
proof -
  assume p: "path_dirname p = p"
  let ?h = "rev (dropWhile (\<lambda>c. c \<noteq> CHR ''/'') (rev p))"
  have one: "prefix (rev (dropWhile P (rev xs))) xs" for P and xs :: string
    using suffix_dropWhile [of P "rev xs"] by (simp add: suffix_to_prefix)
  have "prefix p ?h" using one [of _ ?h] p unfolding path_dirname_def Let_def by (metis prefix_order.order_refl)
  then have "?h = p" using one [of _ p] by (metis prefix_order.antisym)
  then have "dropWhile (\<lambda>c. c \<noteq> CHR ''/'') (rev p) = rev p" by (metis rev_rev_ident)
  then have "takeWhile (\<lambda>c. c \<noteq> CHR ''/'') (rev p) = []"
    by (metis append_Nil append_same_eq takeWhile_dropWhile_id)
  then show ?thesis by (simp add: path_basename_def)
qed

text \<open>At a path of slashes the old loop turns for ever.\<close>

lemma ns3_path_loop_slashes:
  assumes "h \<noteq> []" and "path_dirname h = h"
  shows "ns3_path_loop h l = None"
proof (cases "ns3_path_loop h l")
  case (Some r)
  have "path_dirname h = h \<longrightarrow> h = []"
  proof (rule ns3_path_loop.raw_induct [where P = "\<lambda>h l r. path_dirname h = h \<longrightarrow> h = []", OF _ Some])
    fix loop h l and r :: "string result"
    assume "\<And>h l r. loop h l = Some r \<Longrightarrow> path_dirname h = h \<longrightarrow> h = []"
      and "(if h = [] then Some (Inl AssertionError)
            else if path_basename h = ''ns3'' then Some (path_join_all l)
            else loop (path_dirname h) (path_basename h # l)) = Some r"
    then show "path_dirname h = h \<longrightarrow> h = []"
      using path_dirname_fixed [of h] by (auto split: if_splits)
  qed
  then show ?thesis using assms by simp
qed

lemma ns3_path_loops:
  "ns3_path_loop_modular h l = (case ns3_path_loop h l of None \<Rightarrow> Inl ValueError | Some r \<Rightarrow> r)"
proof (induction h l rule: ns3_path_loop_modular.induct)
  case (1 h l)
  show ?case
  proof (cases "h \<noteq> [] \<and> path_dirname h = h")
    case True
    then show ?thesis by (subst ns3_path_loop_modular.simps) (simp add: ns3_path_loop_slashes)
  next
    case False
    note step = ns3_path_loop_modular.simps [of h l] ns3_path_loop.simps [of h l]
    show ?thesis
    proof (cases "h = [] \<or> path_basename h = ''ns3''")
      case True
      with False show ?thesis unfolding step by auto
    next
      case go: False
      then have "ns3_path_loop_modular h l = ns3_path_loop_modular (path_dirname h) (path_basename h # l)"
        and "ns3_path_loop h l = ns3_path_loop (path_dirname h) (path_basename h # l)"
        using False unfolding step by auto
      then show ?thesis using 1 go False by auto
    qed
  qed
qed

text \<open>C31: The modular scanner finds the same header names as the old one, and raises ValueError
  exactly where the loop of the old one does not end; only the empty path is answered without an error.\<close>

theorem ns3_relative_paths_agree:
  "get_ns3_relative_path_modular path =
     (if path = [] then Inr None
      else case get_ns3_relative_path path of
             None \<Rightarrow> Inl ValueError | Some (Inl e) \<Rightarrow> Inl e | Some (Inr h) \<Rightarrow> Inr (Some h))"
  by (auto simp: get_ns3_relative_path_modular_def get_ns3_relative_path_def ns3_path_loops
      split: option.split sum.split)

section \<open>Paths given by their components\<close>

definition path_of :: "bool \<Rightarrow> string list \<Rightarrow> string" where
  "path_of absolute cs = (if absolute then ''/'' else []) @ join ''/'' cs"

definition names_ok :: "string list \<Rightarrow> bool" where
  "names_ok cs \<longleftrightarrow> (\<forall>c \<in> set cs. c \<noteq> [] \<and> CHR ''/'' \<notin> set c)"

lemma join_snoc: "cs \<noteq> [] \<Longrightarrow> join sep (cs @ [c]) = join sep cs @ sep @ c"
  by (induction cs rule: induct_list012) (auto simp: join_Cons)

lemma join_ends: "names_ok cs \<Longrightarrow> cs \<noteq> [] \<Longrightarrow> join ''/'' cs \<noteq> [] \<and> last (join ''/'' cs) \<noteq> CHR ''/''"
proof (induction cs rule: rev_induct)
  case (snoc c cs)
  have c: "c \<noteq> []" "last c \<noteq> CHR ''/''" using snoc.prems(1) by (auto simp: names_ok_def) (metis last_in_set)
  then show ?case by (cases "cs = []") (auto simp: join_snoc)
qed simp

lemma split_path:
  assumes "c \<noteq> []" and "CHR ''/'' \<notin> set c"
  shows "path_basename (p @ ''/'' @ c) = c" and "path_basename c = c" and "path_dirname c = []"
    and "p \<noteq> [] \<Longrightarrow> last p \<noteq> CHR ''/'' \<Longrightarrow> path_dirname (p @ ''/'' @ c) = p" and "path_dirname (''/'' @ c) = ''/''"
proof -
  have t: "takeWhile (\<lambda>c. c \<noteq> CHR ''/'') (rev c @ CHR ''/'' # r) = rev c"
    and d: "dropWhile (\<lambda>c. c \<noteq> CHR ''/'') (rev c @ CHR ''/'' # r) = CHR ''/'' # r" for r
    using assms by (auto simp: takeWhile_append dropWhile_append)
  have n: "dropWhile (\<lambda>c. c \<noteq> CHR ''/'') (rev c) = []" using assms by auto
  show "path_basename (p @ ''/'' @ c) = c" by (simp add: path_basename_def t)
  show "path_basename c = c" by (rule path_basename_plain [OF assms(2)])
  show "path_dirname c = []" by (simp only: path_dirname_def n) simp
  show "path_dirname (''/'' @ c) = ''/''" by (simp add: path_dirname_def d)
  show "path_dirname (p @ ''/'' @ c) = p" if "p \<noteq> []" "last p \<noteq> CHR ''/''"
    using that by (cases p rule: rev_cases) (simp_all add: path_dirname_def d Let_def)
qed

lemma path_of_snoc:
  assumes "names_ok (cs @ [c])"
  shows "path_basename (path_of absolute (cs @ [c])) = c"
    and "path_dirname (path_of absolute (cs @ [c])) = path_of absolute cs"
proof -
  have c: "c \<noteq> []" "CHR ''/'' \<notin> set c" and cs: "names_ok cs" using assms by (auto simp: names_ok_def)
  note split = split_path [OF c]
  show "path_basename (path_of absolute (cs @ [c])) = c"
    using split(1) [of "''/'' @ join ''/'' cs"] split(1) [of "join ''/'' cs"] split(1) [of "[]"] split(2)
    by (cases "cs = []") (simp_all add: path_of_def join_snoc)
  show "path_dirname (path_of absolute (cs @ [c])) = path_of absolute cs"
    using split(4) [of "''/'' @ join ''/'' cs"] split(4) [of "join ''/'' cs"] split(3) split(5) join_ends [OF cs]
    by (cases "cs = []") (simp_all add: path_of_def join_snoc)
qed

lemma ns3_path_loop_components:
  "names_ok cs \<Longrightarrow>
   ns3_path_loop (path_of absolute cs) l =
     (if ''ns3'' \<notin> set cs then if absolute then None else Some (Inl AssertionError)
      else Some (path_join_all (rev (takeWhile (\<lambda>c. c \<noteq> ''ns3'') (rev cs)) @ l)))"
proof (induction cs arbitrary: l rule: rev_induct)
  case Nil
  have "path_dirname ''/'' = ''/''" by (simp add: path_dirname_def)
  then show ?case
    using ns3_path_loop_slashes [of "''/''"] by (simp add: path_of_def ns3_path_loop.simps [of "[]"])
next
  case (snoc c cs)
  have cs: "names_ok cs" and c: "c \<noteq> []" using snoc.prems by (simp_all add: names_ok_def)
  have ne: "path_of absolute (cs @ [c]) \<noteq> []"
    using path_of_snoc(1) [OF snoc.prems, of absolute] c by (auto simp: path_basename_def)
  show ?case
    unfolding ns3_path_loop.simps [of "path_of absolute (cs @ [c])"] path_of_snoc [OF snoc.prems]
    using snoc.IH [OF cs] ne by auto
qed

text \<open>The old scanner answers the components behind the last one named \<open>ns3\<close>; it raises TypeError for
  the directory itself, and where there is none AssertionError, if the path is relative: for an
  absolute path it does not return.\<close>

theorem ns3_relative_path_outcome:
  assumes "names_ok cs"
  shows "get_ns3_relative_path (path_of absolute cs) =
    (if ''ns3'' \<notin> set cs then if absolute then None else Some (Inl AssertionError)
     else case rev (takeWhile (\<lambda>c. c \<noteq> ''ns3'') (rev cs)) of
            [] \<Rightarrow> Some (Inl TypeError)
          | c # rest \<Rightarrow> Some (Inr (join ''/'' (c # rest))))"
proof -
  have "path_join_all ds = (case ds of [] \<Rightarrow> Inl TypeError | c # rest \<Rightarrow> Inr (join ''/'' (c # rest)))"
    if "names_ok ds" for ds
  proof (cases ds)
    case (Cons c rest)
    then have c: "c \<noteq> []" "last c \<noteq> CHR ''/''" and rest: "\<forall>x \<in> set rest. x \<noteq> [] \<and> CHR ''/'' \<notin> set x"
      using that last_in_set [of c] by (auto simp: names_ok_def simp del: last_in_set)
    show ?thesis using foldl_path_join [OF c rest] Cons by simp
  qed simp
  moreover have "names_ok (rev (takeWhile (\<lambda>c. c \<noteq> ''ns3'') (rev cs)))"
    using assms set_takeWhileD [of _ _ "rev cs"] by (simp add: names_ok_def)
  ultimately show ?thesis
    by (simp add: get_ns3_relative_path_def ns3_path_loop_components [OF assms] split: list.split)
qed

theorem ns3_relative_path_outcome_witness:
  "get_ns3_relative_path ''/build/ns3/bridge-helper.h'' = Some (Inr ''bridge-helper.h'') \<and>
   get_ns3_relative_path ''/usr/include/stdio.h'' = None"
  using ns3_relative_path_outcome [of "[''build'', ''ns3'', ''bridge-helper.h'']" True]
    ns3_relative_path_outcome [of "[''usr'', ''include'', ''stdio.h'']" True]
  by (simp add: names_ok_def path_of_def)

end
