(* ===== verification/ModuleScan.thy ===== *)
theory ModuleScan
  imports ScanPaths Topsort "HOL-Library.List_Lexorder" "HOL-Library.Char_ord"
begin

text \<open>
  The scanners of the Python bindings, \<open>bindings/python/ns3modulescan.py\<close> and \<open>ns3modulescan-modular.py\<close>: the
  table of annotations, the hooks that annotate a declaration before it is scanned, the classifier, and
  the sections of the generated files in the order of the modules. What pygccxml knows of a declaration is
  the record \<open>decl\<close>, its functions on templates are the record \<open>cpp\<close>.
\<close>

section \<open>Annotations\<close>

text \<open>Values are \<open>None\<close>, \<open>True\<close>, strings, and under \<open>params\<close> the annotations of each parameter.\<close>

type_synonym texts = "(string, string) pydict"

datatype ann = AnnNone | AnnTrue | AnnText string | AnnParams "(string, texts) pydict"

type_synonym anns = "(string, ann) pydict"

definition dict_update :: "('k, 'v) pydict \<Rightarrow> ('k, 'v) pydict \<Rightarrow> ('k, 'v) pydict" where
  "dict_update new d = fold (\<lambda>(k, v). dict_put k v) new d"

definition type_annotations :: "(string, anns) pydict" where
  "type_annotations =
     (let ignore_true = [(''ignore'', AnnText ''true'')]; ignore = [(''ignore'', AnnNone)];
          keeps = (\<lambda>p. [(''params'', AnnParams [(p, [(''transfer_ownership'', ''false'')])])]);
          trace = ''const [member function]''
      in
      [(''::ns3::AttributeChecker'', [(''automatic_type_narrowing'', AnnText ''true''), (''allow_subclassing'', AnnText ''false'')]),
       (''::ns3::AttributeValue'', [(''automatic_type_narrowing'', AnnText ''true''), (''allow_subclassing'', AnnText ''false'')]),
       (''::ns3::CommandLine'', [(''allow_subclassing'', AnnText ''true'')]),
       (''::ns3::NscTcpL4Protocol'', ignore_true),
       (''ns3::RandomVariable::RandomVariable(ns3::RandomVariableBase const & variable) [constructor]'', ignore),
       (''ns3::RandomVariableBase * ns3::RandomVariable::Peek() const [member function]'', ignore),
       (''void ns3::RandomVariable::GetSeed(uint32_t * seed) const [member function]'',
        [(''params'', AnnParams [(''seed'', [(''direction'', ''out''), (''array_length'', ''6'')])])]),
       (''bool ns3::TypeId::LookupAttributeByName(std::string name, ns3::TypeId::AttributeInformation * info) '' @ trace,
        keeps ''info''),
       (''static bool ns3::TypeId::LookupByNameFailSafe(std::string name, ns3::TypeId * tid) [member function]'', ignore),
       (''bool ns3::TraceSourceAccessor::ConnectWithoutContext(ns3::ObjectBase * obj, ns3::CallbackBase const & cb) '' @ trace,
        keeps ''obj''),
       (''bool ns3::TraceSourceAccessor::Connect(ns3::ObjectBase * obj, std::string context, ns3::CallbackBase const & cb) '' @ trace,
        keeps ''obj''),
       (''bool ns3::TraceSourceAccessor::DisconnectWithoutContext(ns3::ObjectBase * obj, ns3::CallbackBase const & cb) '' @ trace,
        keeps ''obj''),
       (''bool ns3::TraceSourceAccessor::Disconnect(ns3::ObjectBase * obj, std::string context, ns3::CallbackBase const & cb) '' @ trace,
        keeps ''obj''),
       (''bool ns3::AttributeAccessor::Set(ns3::ObjectBase * object, ns3::AttributeValue const & value) '' @ trace, keeps ''object''),
       (''ns3::EmpiricalVariable::EmpiricalVariable(ns3::RandomVariableBase const & variable) [constructor]'', ignore),
       (''static ns3::AttributeList * ns3::AttributeList::GetGlobal() [member function]'', [(''caller_owns_return'', AnnText ''false'')]),
       (''void ns3::CommandLine::Parse(int argc, char * * argv) const [member function]'', ignore),
       (''extern void ns3::PythonCompleteConstruct(ns3::Ptr<ns3::Object> object, ns3::TypeId typeId, ns3::AttributeList const & attributes) [free function]'',
        ignore),
       (''ns3::Ptr<ns3::Ipv4RoutingProtocol> ns3::Ipv4ListRouting::GetRoutingProtocol(uint32_t index, int16_t & priority) const [member function]'',
        [(''params'', AnnParams [(''priority'', [(''direction'', ''out'')])])]),
       (''ns3::Ipv4RoutingTableEntry * ns3::GlobalRouter::GetInjectedRoute(uint32_t i) [member function]'',
        [(''params'', AnnParams [(''return'', [(''caller_owns_return'', ''false'')])])]),
       (''ns3::Ipv4RoutingTableEntry * ns3::Ipv4GlobalRouting::GetRoute(uint32_t i) const [member function]'',
        [(''params'', AnnParams [(''return'', [(''caller_owns_return'', ''false'')])])]),
       (''::ns3::TestCase'', ignore_true),
       (''::ns3::TestRunner'', ignore_true),
       (''::ns3::TestSuite'', ignore_true)])"

section \<open>Declarations and the annotations of one\<close>

datatype decl_kind = MemberFunction | FreeFunction | Constructor | OtherCalldef | ClassDecl | EnumDecl | OtherDecl

record decl =
  d_kind :: decl_kind
  d_name :: string
  d_text :: string
  d_string :: string
  d_demangled :: string
  d_file :: string
  d_parent :: string
  d_defaults :: "string option list"

text \<open>
  \<open>templates.args\<close>, \<open>is_instantiation\<close>, \<open>split\<close>, and the file of the declaration that
  \<open>find_declaration_from_name\<close> finds, if it has a location.
\<close>

record cpp =
  template_args :: "string \<Rightarrow> string list"
  is_instantiation :: "string \<Rightarrow> bool"
  template_split :: "string \<Rightarrow> string \<times> string list"
  location_of :: "string \<Rightarrow> string option"

record scan_state =
  s_global :: anns
  s_params :: "(string, texts) pydict"
  s_table :: "(string, anns) pydict"
  s_defaults :: "string option list"

definition put_global :: "string \<Rightarrow> ann \<Rightarrow> scan_state \<Rightarrow> scan_state" where
  "put_global k v s = s\<lparr>s_global := dict_put k v (s_global s)\<rparr>"

text \<open>Member functions of \<open>Object\<close> and \<open>Simulator\<close>; the template arguments are an argument.\<close>

definition annotate_members :: "string list \<Rightarrow> decl \<Rightarrow> scan_state \<Rightarrow> scan_state" where
  "annotate_members targs d s =
     (if d_kind d \<noteq> MemberFunction then s
      else
        let s = (if d_parent d = ''Object'' \<and> d_name d = ''GetObject'' \<and> targs = [''ns3::Object'']
                 then put_global ''template_instance_names'' (AnnText ''ns3::Object=>GetObject'') s else s);
            s = (if d_parent d = ''Simulator'' \<and> startswith ''Schedule'' (d_name d) then put_global ''ignore'' AnnNone s else s)
        in if d_parent d = ''Simulator'' \<and> d_name d = ''Run'' then put_global ''ignore'' AnnTrue s else s)"

definition is_calldef :: "decl_kind \<Rightarrow> bool" where
  "is_calldef k \<longleftrightarrow> k \<in> {MemberFunction, FreeFunction, Constructor, OtherCalldef}"

definition fix_default :: "string option \<Rightarrow> string option" where
  "fix_default v =
     (case v of
        None \<Rightarrow> None
      | Some v \<Rightarrow>
          let v = (if v = ''ns3::MilliSeconds( )'' then ''ns3::MilliSeconds(0)'' else v)
          in Some (if v = ''ns3::Seconds( )'' then ''ns3::Seconds(0)'' else v))"

definition fix_defaults :: "decl \<Rightarrow> scan_state \<Rightarrow> scan_state" where
  "fix_defaults d s = (if is_calldef (d_kind d) then s\<lparr>s_defaults := map fix_default (s_defaults s)\<rparr> else s)"

text \<open>Classes; the flag says that the hook returns here.\<close>

definition annotate_class :: "decl \<Rightarrow> scan_state \<Rightarrow> scan_state \<times> bool" where
  "annotate_class d s =
     (if d_kind d \<noteq> ClassDecl then (s, False)
      else if startswith ''::ns3::SimpleRefCount<'' (d_string d)
      then (put_global ''automatic_type_narrowing'' (AnnText ''true'')
             (put_global ''peekref_method'' (AnnText ''GetReferenceCount'')
               (put_global ''decref_method'' (AnnText ''Unref'')
                 (put_global ''incref_method'' (AnnText ''Ref'') s))), True)
      else if startswith ''::ns3::Callback<'' (d_string d) then (put_global ''ignore'' AnnNone s, True)
      else if startswith ''::ns3::TracedCallback<'' (d_string d) then (put_global ''ignore'' AnnNone s, True)
      else if startswith ''::ns3::Ptr<'' (d_string d) then (put_global ''ignore'' AnnNone s, True)
      else (case dict_get (s_table s) (d_string d) of
              None \<Rightarrow> (s, False)
            | Some anns \<Rightarrow> (s\<lparr>s_global := dict_update anns (s_global s)\<rparr>, False)))"

text \<open>
  The table for functions: \<open>annotations\<close> is the entry of the table itself, so the deletion of its
  \<open>params\<close> changes the table. Only \<open>params\<close> holds a dictionary.
\<close>

definition apply_table :: "decl \<Rightarrow> scan_state \<Rightarrow> scan_state" where
  "apply_table d s =
     (if d_kind d \<notin> {FreeFunction, MemberFunction, Constructor} then s
      else (case dict_get (s_table s) (d_text d) of
              None \<Rightarrow> s
            | Some anns \<Rightarrow>
                (case dict_get anns ''params'' of
                   Some (AnnParams ps) \<Rightarrow>
                     let rest = dict_del ''params'' anns
                     in s\<lparr>s_params := dict_update ps (s_params s),
                          s_table := dict_put (d_text d) rest (s_table s),
                          s_global := dict_update rest (s_global s)\<rparr>
                 | _ \<Rightarrow> s\<lparr>s_global := dict_update anns (s_global s)\<rparr>)))"

text \<open>What both hooks do with a declaration of the module, given the comment.\<close>

definition annotate_decl :: "string \<Rightarrow> string list \<Rightarrow> decl \<Rightarrow> scan_state \<Rightarrow> scan_state" where
  "annotate_decl comment targs d s =
     (let s = fix_defaults d (annotate_members targs d (put_global ''pygen_comment'' (AnnText comment) s))
      in case annotate_class d s of (s, done) \<Rightarrow>
           if done then s
           else if d_kind d = FreeFunction \<and> d_name d = ''PeekPointer'' then put_global ''ignore'' AnnNone s
           else apply_table d s)"

text \<open>The hook of the old scanner; \<open>None\<close> when the search for the header name does not end.\<close>

definition pre_scan_hook :: "cpp \<Rightarrow> decl \<Rightarrow> scan_state \<Rightarrow> (scan_state \<times> unit result) option" where
  "pre_scan_hook c d s =
     (case get_ns3_relative_path (d_file d) of
        None \<Rightarrow> None
      | Some (Inl e) \<Rightarrow> Some (s, Inl e)
      | Some (Inr h) \<Rightarrow>
          Some (annotate_decl (h @ '': '' @ d_text d) (template_args c (d_demangled d)) d s, Inr ()))"

section \<open>The hook of the modular scanner\<close>

type_synonym headers = "(string, string) pydict"

text \<open>The modules of the template parameters that are declared in a header of ns-3.\<close>

fun template_modules :: "cpp \<Rightarrow> headers \<Rightarrow> string list \<Rightarrow> string list result" where
  "template_modules c hm [] = Inr []"
| "template_modules c hm (p # ps) =
     (case location_of c p of
        None \<Rightarrow> template_modules c hm ps
      | Some f \<Rightarrow>
          (case get_ns3_relative_path_modular f of
             Inl ValueError \<Rightarrow> template_modules c hm ps
           | Inl e \<Rightarrow> Inl e
           | Inr None \<Rightarrow> Inl KeyError
           | Inr (Some h) \<Rightarrow>
               (case dict_get hm h of
                  None \<Rightarrow> Inl KeyError
                | Some m \<Rightarrow> rbind (template_modules c hm ps) (\<lambda>ms. Inr (m # ms)))))"

text \<open>An instance of a template belongs to the module of one of its parameters, if that is this module.\<close>

definition class_module :: "cpp \<Rightarrow> headers \<Rightarrow> string \<Rightarrow> decl \<Rightarrow> string \<Rightarrow> string result" where
  "class_module c hm own d m =
     (if d_kind d = ClassDecl \<and> is_instantiation c (d_string d)
      then rbind (template_modules c hm (snd (template_split c (d_name d)))) (\<lambda>ms.
             Inr (if own \<in> set ms then own else m))
      else Inr m)"

definition dashes_replaced :: "string \<Rightarrow> string" where
  "dashes_replaced m = map (\<lambda>c. if c = CHR ''-'' then CHR ''_'' else c) m"

definition annotate_in_module :: "string \<Rightarrow> string \<Rightarrow> decl \<Rightarrow> scan_state \<Rightarrow> scan_state" where
  "annotate_in_module own m d s =
     (let s = (if d_kind d = ClassDecl \<and> m \<noteq> own
               then put_global ''import_from_module'' (AnnText (''ns.'' @ dashes_replaced m)) s else s)
      in case annotate_class d s of (s, done) \<Rightarrow>
           if done then s
           else
             let s = (if d_kind d = EnumDecl \<and> m \<noteq> own
                      then put_global ''import_from_module'' (AnnText (''ns.'' @ m)) s else s)
             in if d_kind d = FreeFunction \<and> (m \<noteq> own \<or> d_name d = ''PeekPointer'')
                then put_global ''ignore'' AnnNone s else apply_table d s)"

definition annotate_decl_modular ::
  "cpp \<Rightarrow> headers \<Rightarrow> string \<Rightarrow> string \<Rightarrow> string \<Rightarrow> decl \<Rightarrow> scan_state \<Rightarrow> scan_state \<times> unit result" where
  "annotate_decl_modular c hm own h m d s =
     (let s = put_global ''pygen_comment'' (AnnText (h @ '' (module '' @ py_repr m @ ''): '' @ d_text d)) s;
          s = fix_defaults d (annotate_members (template_args c (d_text d)) d s)
      in case class_module c hm own d m of Inl e \<Rightarrow> (s, Inl e) | Inr m \<Rightarrow> (annotate_in_module own m d s, Inr ()))"

definition pre_scan_hook_modular :: "cpp \<Rightarrow> headers \<Rightarrow> string \<Rightarrow> decl \<Rightarrow> scan_state \<Rightarrow> scan_state \<times> unit result" where
  "pre_scan_hook_modular c hm own d s =
     (case get_ns3_relative_path_modular (d_file d) of
        Inl ValueError \<Rightarrow> (s, Inr ())
      | Inl e \<Rightarrow> (s, Inl e)
      | Inr None \<Rightarrow> (s, Inr ())
      | Inr (Some h) \<Rightarrow>
          if h = [] then (s, Inr ())
          else (case dict_get hm h of
                  None \<Rightarrow> (s, Inl KeyError)
                | Some m \<Rightarrow> annotate_decl_modular c hm own h m d s))"

section \<open>The callback classes\<close>

text \<open>
  The lines written for the classes of the namespace (name and declaration text); a class that is not an
  instance fails the assertion and the file stays without its last line.
\<close>

fun scan_callback_loop :: "cpp \<Rightarrow> (string \<times> string) list \<Rightarrow> string list \<times> unit result" where
  "scan_callback_loop c [] = ([], Inr ())"
| "scan_callback_loop c ((name, text) # cs) =
     (if \<not> startswith ''Callback<'' name then scan_callback_loop c cs
      else if \<not> is_instantiation c text then ([], Inl AssertionError)
      else (case scan_callback_loop c cs of (ls, r) \<Rightarrow>
              ((''    ['' @ join '', '' (map py_repr (snd (template_split c text))) @ ''],'') # ls, r)))"

definition scan_callback_classes :: "cpp \<Rightarrow> (string \<times> string) list \<Rightarrow> string list \<times> unit result" where
  "scan_callback_classes c cs =
     (case scan_callback_loop c cs of
        (ls, Inl e) \<Rightarrow> (''callback_classes = ['' # ls, Inl e)
      | (ls, Inr ()) \<Rightarrow> (''callback_classes = ['' # ls @ ['']''], Inr ()))"

section \<open>Sections and their order\<close>

type_synonym modules = "(string, string list \<times> string list) pydict"

definition module_graph :: "modules \<Rightarrow> (string \<times> string) list" where
  "module_graph ms =
     concat (map (\<lambda>m. case dict_get ms m of None \<Rightarrow> [] | Some (deps, hs) \<Rightarrow> map (\<lambda>dep. (dep, m)) (sort deps))
       (sort (dict_keys ms)))"

definition section_name :: "string \<Rightarrow> string" where
  "section_name m = ''ns3_module_'' @ dashes_replaced m"

text \<open>The sections with the files opened for them and their local names, and the two dictionaries.\<close>

record scan_sections =
  sec_list :: "(string \<times> string \<times> string option) list"
  sec_headers :: "(string, string) pydict"
  sec_precedences :: "(string, int) pydict"

definition add_section :: "modules \<Rightarrow> string \<Rightarrow> nat \<times> string \<Rightarrow> scan_sections \<Rightarrow> scan_sections result" where
  "add_section ms dir pm s =
     (case pm of (prec, m) \<Rightarrow>
        let sec = section_name m;
            s = s\<lparr>sec_list := sec_list s @ [(sec, path_join dir (sec @ ''.py''), Some (sec @ ''__local''))]\<rparr>
        in case dict_get ms m of
             None \<Rightarrow> Inl KeyError
           | Some (deps, hs) \<Rightarrow>
               Inr (s\<lparr>sec_headers := fold (\<lambda>h. dict_put h sec) hs (sec_headers s),
                      sec_precedences := dict_put sec (int prec) (sec_precedences s)\<rparr>))"

definition cycle_error :: "string sort_error \<Rightarrow> py_error" where
  "cycle_error e = (case e of SortKeyError \<Rightarrow> KeyError | _ \<Rightarrow> OtherException ''CycleError'')"

definition make_sections ::
  "(string list \<Rightarrow> string list) \<Rightarrow> modules \<Rightarrow> string \<Rightarrow> scan_sections result" where
  "make_sections key_order ms pygen_file_name =
     (case topsort key_order (module_graph ms) of
        Inl e \<Rightarrow> Inl (cycle_error e)
      | Inr sorted_modules \<Rightarrow>
          rfold (add_section ms (path_dirname pygen_file_name)) (enumerate 0 sorted_modules)
            \<lparr>sec_list = [(''__main__'', pygen_file_name, None)], sec_headers = [], sec_precedences = []\<rparr>)"

text \<open>\<open>MyPygenClassifier\<close>.\<close>

definition classify :: "scan_sections \<Rightarrow> string \<Rightarrow> string" where
  "classify s file_name =
     (case dict_get (sec_headers s) (path_basename file_name) of Some sec \<Rightarrow> sec | None \<Rightarrow> ''__main__'')"

definition get_section_precedence :: "scan_sections \<Rightarrow> string \<Rightarrow> int result" where
  "get_section_precedence s sec =
     (if sec = ''__main__'' then Inr (-1)
      else case dict_get (sec_precedences s) sec of None \<Rightarrow> Inl KeyError | Some p \<Rightarrow> Inr p)"

section \<open>The hooks\<close>

text \<open>For a declaration in a header of the scanned module the modular hook annotates as the old
  one does, but for the comment, which also names the module.\<close>

theorem hooks_agree:
  assumes "get_ns3_relative_path (d_file d) = Some (Inr h)" and "h \<noteq> []" and "dict_get hm h = Some own"
    and "template_args c (d_text d) = template_args c (d_demangled d)"
    and "class_module c hm own d own = Inr m"
  shows "pre_scan_hook c d s =
      Some (annotate_decl (h @ '': '' @ d_text d) (template_args c (d_demangled d)) d s, Inr ()) \<and>
    pre_scan_hook_modular c hm own d s =
      (annotate_decl (h @ '' (module '' @ py_repr own @ ''): '' @ d_text d) (template_args c (d_demangled d)) d s, Inr ())"
proof -
  have "d_file d \<noteq> []" using assms(1) by (auto simp: get_ns3_relative_path_def ns3_path_loop.simps [of "[]"])
  then have path: "get_ns3_relative_path_modular (d_file d) = Inr (Some h)"
    using assms(1) by (simp add: get_ns3_relative_path_modular_def get_ns3_relative_path_def ns3_path_loops)
  have m: "m = own" using assms(5) by (auto simp: class_module_def rbind_Inr_iff split: if_splits)
  have "pre_scan_hook c d s =
      Some (annotate_decl (h @ '': '' @ d_text d) (template_args c (d_demangled d)) d s, Inr ())"
    by (simp add: pre_scan_hook_def assms(1))
  moreover have "pre_scan_hook_modular c hm own d s =
      (annotate_decl (h @ '' (module '' @ py_repr own @ ''): '' @ d_text d) (template_args c (d_demangled d)) d s, Inr ())"
    by (simp add: pre_scan_hook_modular_def path assms(2-5) m annotate_decl_modular_def annotate_in_module_def annotate_decl_def Let_def
        split: prod.split)
  ultimately show ?thesis ..
qed

definition demo_cpp :: cpp where
  "demo_cpp = \<lparr>template_args = (\<lambda>s. []), is_instantiation = (\<lambda>s. False), template_split = (\<lambda>s. (s, [])),
     location_of = (\<lambda>s. None)\<rparr>"

definition demo_decl :: decl where
  "demo_decl = \<lparr>d_kind = MemberFunction, d_name = ''GetInjectedRoute'',
     d_text = ''GetInjectedRoute() [member function]'',
     d_string = ''::ns3::GlobalRouter::GetInjectedRoute'', d_demangled = '''', d_file = ''/b/ns3/r.h'',
     d_parent = ''GlobalRouter'', d_defaults = [None]\<rparr>"

definition fresh :: "(string, anns) pydict \<Rightarrow> decl \<Rightarrow> scan_state" where
  "fresh t d = \<lparr>s_global = [], s_params = [], s_table = t, s_defaults = d_defaults d\<rparr>"

lemma demo_path: "get_ns3_relative_path (d_file demo_decl) = Some (Inr ''r.h'')"
  using ns3_path_loop_components [of "[''b'', ''ns3'', ''r.h'']" True "[]"]
  by (simp add: demo_decl_def get_ns3_relative_path_def names_ok_def path_of_def)

definition demo_table :: "(string, anns) pydict" where
  "demo_table = [(''GetInjectedRoute() [member function]'', [(''params'', AnnParams [(''return'', [])])])]"

lemma demo_annotated: "s_params (annotate_decl x [] demo_decl (fresh demo_table demo_decl)) = [(''return'', [])]"
  by (simp add: annotate_decl_def annotate_members_def fix_defaults_def annotate_class_def apply_table_def put_global_def
      fresh_def demo_decl_def demo_table_def dict_update_def is_calldef_def)

theorem hooks_agree_witness:
  "\<exists>s. pre_scan_hook_modular demo_cpp [(''r.h'', ''internet'')] ''internet'' demo_decl (fresh demo_table demo_decl) =
       (s, Inr ()) \<and> s_params s = [(''return'', [])]"
proof -
  have "class_module demo_cpp hm own demo_decl own = Inr own" for hm own by (simp add: class_module_def demo_decl_def)
  then show ?thesis
    using hooks_agree [OF demo_path, of "[(''r.h'', ''internet'')]" "''internet''" demo_cpp "''internet''" "fresh demo_table demo_decl"]
    by (simp add: demo_cpp_def demo_annotated)
qed

text \<open>
  A scan hands each declaration with empty annotations to the hook; what the hook changes in the table
  the next one sees. A class is looked up under its declaration, everything else under its text.
\<close>

fun scan_all :: "cpp \<Rightarrow> headers \<Rightarrow> string \<Rightarrow> (string, anns) pydict \<Rightarrow> decl list \<Rightarrow>
    (anns \<times> (string, texts) pydict \<times> string option list \<times> unit result) list" where
  "scan_all c hm own t [] = []"
| "scan_all c hm own t (d # ds) =
     (case pre_scan_hook_modular c hm own d (fresh t d) of
        (s, r) \<Rightarrow> (s_global s, s_params s, s_defaults s, r) # scan_all c hm own (s_table s) ds)"

text \<open>
  \<open>scan_all\<close> goes on after an exception, so it says what the hook does on every declaration; the scan itself ends with
  the first exception.
\<close>

fun scan_decls :: "cpp \<Rightarrow> headers \<Rightarrow> string \<Rightarrow> (string, anns) pydict \<Rightarrow> decl list \<Rightarrow>
    (anns \<times> (string, texts) pydict \<times> string option list \<times> unit result) list" where
  "scan_decls c hm own t [] = []"
| "scan_decls c hm own t (d # ds) =
     (case pre_scan_hook_modular c hm own d (fresh t d) of
        (s, r) \<Rightarrow>
          (s_global s, s_params s, s_defaults s, r) #
            (case r of Inl e \<Rightarrow> [] | Inr u \<Rightarrow> scan_decls c hm own (s_table s) ds))"

text \<open>The outcomes up to the first exception.\<close>

fun until_error :: "('a \<times> 'b \<times> 'c \<times> 'd result) list \<Rightarrow> ('a \<times> 'b \<times> 'c \<times> 'd result) list" where
  "until_error [] = []"
| "until_error ((g, p, d, r) # xs) = (g, p, d, r) # (case r of Inl e \<Rightarrow> [] | Inr u \<Rightarrow> until_error xs)"

lemma scan_decls_until_error: "scan_decls c hm own t ds = until_error (scan_all c hm own t ds)"
  by (induction ds arbitrary: t) (auto split: prod.split sum.split)

definition table_key :: "decl \<Rightarrow> string" where
  "table_key d = (if d_kind d = ClassDecl then d_string d else d_text d)"

text \<open>Only the lookup under this key reads the table, and only this entry changes.\<close>

definition same_but_table :: "string \<Rightarrow> scan_state \<Rightarrow> scan_state \<Rightarrow> bool" where
  "same_but_table k s s' \<longleftrightarrow>
     s_global s = s_global s' \<and> s_params s = s_params s' \<and> s_defaults s = s_defaults s' \<and>
     dict_get (s_table s) k = dict_get (s_table s') k"

lemma same_steps:
  assumes "same_but_table k s s'"
  shows "same_but_table k (put_global x v s) (put_global x v s')"
    and "same_but_table k (annotate_members targs d s) (annotate_members targs d s')"
    and "same_but_table k (fix_defaults d s) (fix_defaults d s')"
  using assms
  by (auto simp: same_but_table_def put_global_def annotate_members_def fix_defaults_def Let_def)

lemma same_class:
  "same_but_table (table_key d) s s' \<Longrightarrow>
   same_but_table (table_key d) (fst (annotate_class d s)) (fst (annotate_class d s')) \<and>
   snd (annotate_class d s) = snd (annotate_class d s')"
  by (auto simp: annotate_class_def same_but_table_def put_global_def table_key_def split: option.split)

lemma same_apply_table:
  "same_but_table (table_key d) s s' \<Longrightarrow>
   s_global (apply_table d s) = s_global (apply_table d s') \<and> s_params (apply_table d s) = s_params (apply_table d s') \<and>
   s_defaults (apply_table d s) = s_defaults (apply_table d s')"
  by (auto simp: apply_table_def same_but_table_def table_key_def Let_def split: option.split ann.split)

lemma other_entries_kept:
  "dict_get (s_table (put_global x v s)) k = dict_get (s_table s) k"
  "dict_get (s_table (annotate_members targs d s)) k = dict_get (s_table s) k"
  "dict_get (s_table (fix_defaults d s)) k = dict_get (s_table s) k"
  "dict_get (s_table (fst (annotate_class d s))) k = dict_get (s_table s) k"
  "k \<noteq> table_key d \<Longrightarrow> dict_get (s_table (apply_table d s)) k = dict_get (s_table s) k"
  by (auto simp: put_global_def annotate_members_def fix_defaults_def annotate_class_def apply_table_def table_key_def
      Let_def pd.get_put split: option.split ann.split)

lemma same_in_module:
  assumes "same_but_table (table_key d) s s'"
  shows "s_global (annotate_in_module own m d s) = s_global (annotate_in_module own m d s') \<and>
    s_params (annotate_in_module own m d s) = s_params (annotate_in_module own m d s') \<and>
    s_defaults (annotate_in_module own m d s) = s_defaults (annotate_in_module own m d s')"
proof -
  define g where "g s = (if d_kind d = ClassDecl \<and> m \<noteq> own
      then put_global ''import_from_module'' (AnnText (''ns.'' @ dashes_replaced m)) s else s)" for s
  define e where "e s = (if d_kind d = EnumDecl \<and> m \<noteq> own
      then put_global ''import_from_module'' (AnnText (''ns.'' @ m)) s else s)" for s
  have g: "same_but_table (table_key d) (g s) (g s')" using assms same_steps(1) [OF assms] by (simp add: g_def)
  obtain t b t' where c: "annotate_class d (g s) = (t, b)" "annotate_class d (g s') = (t', b)"
    and t: "same_but_table (table_key d) t t'"
    using same_class [OF g] by (cases "annotate_class d (g s)"; cases "annotate_class d (g s')") auto
  have e: "same_but_table (table_key d) (e t) (e t')" using t same_steps(1) [OF t] by (simp add: e_def)
  have "annotate_in_module own m d s = (case annotate_class d (g s) of (s, done) \<Rightarrow>
      if done then s
      else if d_kind d = FreeFunction \<and> (m \<noteq> own \<or> d_name d = ''PeekPointer'')
           then put_global ''ignore'' AnnNone (e s) else apply_table d (e s))" for s
    unfolding annotate_in_module_def g_def e_def Let_def ..
  then show ?thesis
    using t same_apply_table [OF e] same_steps(1) [OF e, of "''ignore''" AnnNone]
    by (cases "d_kind d = FreeFunction \<and> (m \<noteq> own \<or> d_name d = ''PeekPointer'')")
      (auto simp: c same_but_table_def)
qed

lemma same_annotate:
  assumes "same_but_table (table_key d) s s'"
  shows "(\<lambda>(s, r). (s_global s, s_params s, s_defaults s, r)) (annotate_decl_modular c hm own h m d s) =
    (\<lambda>(s, r). (s_global s, s_params s, s_defaults s, r)) (annotate_decl_modular c hm own h m d s')"
proof -
  let ?f = "\<lambda>s. fix_defaults d (annotate_members (template_args c (d_text d)) d
      (put_global ''pygen_comment'' (AnnText (h @ '' (module '' @ py_repr m @ ''): '' @ d_text d)) s))"
  have f: "same_but_table (table_key d) (?f s) (?f s')" by (intro same_steps assms)
  show ?thesis
    using f same_in_module [OF f]
    by (cases "class_module c hm own d m") (simp_all add: annotate_decl_modular_def same_but_table_def)
qed

lemma in_module_keeps_table:
  assumes "k \<noteq> table_key d"
  shows "dict_get (s_table (annotate_in_module own m d s)) k = dict_get (s_table s) k"
proof -
  define g where "g = (if d_kind d = ClassDecl \<and> m \<noteq> own
      then put_global ''import_from_module'' (AnnText (''ns.'' @ dashes_replaced m)) s else s)"
  obtain t b where t: "annotate_class d g = (t, b)" by fastforce
  have "dict_get (s_table g) k = dict_get (s_table s) k" by (simp add: g_def other_entries_kept)
  then have "dict_get (s_table t) k = dict_get (s_table s) k" using other_entries_kept(4) [of d g k] t by simp
  moreover have "annotate_in_module own m d s = (case annotate_class d g of (s, done) \<Rightarrow>
                  if done then s
                  else
                    let s = (if d_kind d = EnumDecl \<and> m \<noteq> own
                             then put_global ''import_from_module'' (AnnText (''ns.'' @ m)) s else s)
                    in if d_kind d = FreeFunction \<and> (m \<noteq> own \<or> d_name d = ''PeekPointer'')
                       then put_global ''ignore'' AnnNone s else apply_table d s)"
    by (simp add: annotate_in_module_def g_def)
  ultimately show ?thesis using assms by (simp add: t Let_def other_entries_kept)
qed

lemma annotate_keeps_table:
  assumes "k \<noteq> table_key d"
  shows "dict_get (s_table (fst (annotate_decl_modular c hm own h m d s))) k = dict_get (s_table s) k"
  by (cases "class_module c hm own d m")
    (simp_all add: annotate_decl_modular_def other_entries_kept in_module_keeps_table [OF assms])

definition outcome_of :: "scan_state \<times> unit result \<Rightarrow> anns \<times> (string, texts) pydict \<times> string option list \<times> unit result" where
  "outcome_of sr = (s_global (fst sr), s_params (fst sr), s_defaults (fst sr), snd sr)"

lemma hook_same:
  assumes "dict_get t (table_key d) = dict_get t' (table_key d)"
  shows "outcome_of (pre_scan_hook_modular c hm own d (fresh t d)) = outcome_of (pre_scan_hook_modular c hm own d (fresh t' d))"
proof -
  have "same_but_table (table_key d) (fresh t d) (fresh t' d)" using assms by (simp add: same_but_table_def fresh_def)
  then have "outcome_of (annotate_decl_modular c hm own h m d (fresh t d)) =
      outcome_of (annotate_decl_modular c hm own h m d (fresh t' d))" for h m
    using same_annotate [of d "fresh t d" "fresh t' d" c hm own h m] by (simp add: outcome_of_def split_beta)
  moreover have "outcome_of (fresh t d, r) = outcome_of (fresh t' d, r)" for r
    by (simp add: outcome_of_def fresh_def)
  ultimately show ?thesis
    by (simp add: pre_scan_hook_modular_def split: sum.split option.split py_error.split)
qed

lemma hook_keeps_table:
  "k \<noteq> table_key d \<Longrightarrow> dict_get (s_table (fst (pre_scan_hook_modular c hm own d (fresh t d)))) k = dict_get t k"
  by (simp add: pre_scan_hook_modular_def annotate_keeps_table fresh_def split: sum.split option.split py_error.split)

lemma scan_all_eq:
  assumes "distinct (map table_key ds)" and "\<forall>d \<in> set ds. dict_get t (table_key d) = dict_get t' (table_key d)"
  shows "scan_all c hm own t ds = map (\<lambda>d. outcome_of (pre_scan_hook_modular c hm own d (fresh t' d))) ds"
  using assms
proof (induction ds arbitrary: t)
  case (Cons d ds)
  obtain s r where s: "pre_scan_hook_modular c hm own d (fresh t d) = (s, r)" by fastforce
  have "\<forall>e \<in> set ds. dict_get (s_table s) (table_key e) = dict_get t' (table_key e)"
  proof
    fix e assume e: "e \<in> set ds"
    then have "table_key e \<noteq> table_key d" using Cons.prems(1) by (auto simp: image_iff)
    then show "dict_get (s_table s) (table_key e) = dict_get t' (table_key e)"
      using hook_keeps_table [of "table_key e" d c hm own t] s Cons.prems(2) e by simp
  qed
  then have "scan_all c hm own (s_table s) ds = map (\<lambda>d. outcome_of (pre_scan_hook_modular c hm own d (fresh t' d))) ds"
    using Cons.prems(1) by (intro Cons.IH) simp_all
  moreover have "outcome_of (s, r) = outcome_of (pre_scan_hook_modular c hm own d (fresh t' d))"
    using hook_same [of t d t' c hm own] Cons.prems(2) s by simp
  ultimately show ?case by (simp add: s) (simp add: outcome_of_def)
qed simp

text \<open>C32: Although the hook takes the entries of the table apart, a scan of declarations with different
  texts gives each the annotations it would get alone, in whatever order they come; the scan ends with the first
  declaration on which the hook raises.\<close>

theorem scan_order_independent:
  assumes "distinct (map table_key ds)"
  shows "scan_all c hm own type_annotations ds =
      map (\<lambda>d. outcome_of (pre_scan_hook_modular c hm own d (fresh type_annotations d))) ds \<and>
    scan_decls c hm own type_annotations ds =
      until_error (map (\<lambda>d. outcome_of (pre_scan_hook_modular c hm own d (fresh type_annotations d))) ds)"
  using scan_all_eq [OF assms, of type_annotations type_annotations c hm own] by (simp add: scan_decls_until_error)

text \<open>A declaration that is scanned a second time has lost the annotations of its parameters.\<close>

lemma apply_table_again:
  assumes "d_kind d \<in> {FreeFunction, MemberFunction, Constructor}"
    and "dict_get t (d_text d) = Some anns" and "dict_get anns ''params'' = Some (AnnParams ps)"
  shows "s_params (apply_table d (fresh t d)) = dict_update ps [] \<and>
    s_params (apply_table d (fresh (s_table (apply_table d (fresh t d))) d)) = []"
  using assms by (simp add: apply_table_def fresh_def Let_def pd.get_put dict_del_get)

definition demo_class :: decl where
  "demo_class = \<lparr>d_kind = ClassDecl, d_name = ''TestCase'', d_text = ''ns3::TestCase [class]'', d_string = ''::ns3::TestCase'',
     d_demangled = '''', d_file = ''/b/ns3/test.h'', d_parent = ''ns3'', d_defaults = []\<rparr>"

theorem scan_order_independent_witness:
  "scan_all demo_cpp [(''r.h'', ''internet'')] ''internet'' type_annotations [demo_decl, demo_class] =
    map (\<lambda>d. outcome_of (pre_scan_hook_modular demo_cpp [(''r.h'', ''internet'')] ''internet'' d (fresh type_annotations d)))
      [demo_decl, demo_class]"
  by (rule conjunct1 [OF scan_order_independent]) (simp add: table_key_def demo_decl_def demo_class_def)

section \<open>The sections\<close>

definition headers_of :: "modules \<Rightarrow> string \<Rightarrow> string list" where
  "headers_of ms m = (case dict_get ms m of None \<Rightarrow> [] | Some (deps, hs) \<Rightarrow> hs)"

definition deps_of :: "modules \<Rightarrow> string \<Rightarrow> string list" where
  "deps_of ms m = (case dict_get ms m of None \<Rightarrow> [] | Some (deps, hs) \<Rightarrow> deps)"

lemma module_graph_edges: "(d, m) \<in> set (module_graph ms) \<longleftrightarrow> d \<in> set (deps_of ms m)"
proof -
  define entry where "entry m = (case dict_get ms m of None \<Rightarrow> [] | Some (deps, hs) \<Rightarrow> map (\<lambda>dep. (dep, m)) (sort deps))" for m
  have entry: "(d, m) \<in> set (entry m') \<longleftrightarrow> m' = m \<and> d \<in> set (deps_of ms m')" for m'
    by (cases "dict_get ms m'") (auto simp: entry_def deps_of_def)
  have "set (module_graph ms) = (\<Union>m' \<in> set (dict_keys ms). set (entry m'))" by (simp add: module_graph_def entry_def)
  moreover have "m \<in> set (dict_keys ms)" if "d \<in> set (deps_of ms m)"
    using that by (cases "dict_get ms m") (auto simp: deps_of_def pd.keys_get)
  ultimately show ?thesis by (auto simp: entry)
qed

lemma get_fold_headers:
  "dict_get (fold (\<lambda>h. dict_put h sec) hs d) h = (if h \<in> set hs then Some sec else dict_get d h)"
  by (induction hs arbitrary: d) (auto simp: pd.get_put)

text \<open>What the two dictionaries hold after the sections of the modules \<open>past\<close>.\<close>

definition sections_of :: "modules \<Rightarrow> string list \<Rightarrow> scan_sections \<Rightarrow> bool" where
  "sections_of ms past s \<longleftrightarrow>
     (\<forall>h. dict_get (sec_headers s) h =
        map_option section_name (find (\<lambda>m. h \<in> set (headers_of ms m)) (rev past))) \<and>
     (\<forall>i < length past. dict_get (sec_precedences s) (section_name (past ! i)) = Some (int i))"

lemma add_section_known:
  assumes "sections_of ms past s" and "dict_get ms m \<noteq> None" and "section_name m \<notin> section_name ` set past"
  shows "\<exists>s'. add_section ms dir (length past, m) s = Inr s' \<and> sections_of ms (past @ [m]) s'"
proof -
  obtain deps hs where m: "dict_get ms m = Some (deps, hs)" using assms(2) by auto
  have "section_name (past ! i) \<noteq> section_name m" if "i < length past" for i
    using assms(3) that by (metis image_eqI nth_mem)
  then show ?thesis
    using assms(1) by (auto simp: add_section_def m sections_of_def Let_def get_fold_headers headers_of_def pd.get_put
        nth_append less_Suc_eq)
qed

lemma add_sections_known:
  assumes "sections_of ms past s" and "\<forall>m \<in> set todo. dict_get ms m \<noteq> None"
    and "distinct (map section_name (past @ todo))"
  shows "\<exists>s'. rfold (add_section ms dir) (enumerate (length past) todo) s = Inr s' \<and> sections_of ms (past @ todo) s'"
  using assms
proof (induction todo arbitrary: past s)
  case (Cons m todo)
  obtain t where t: "add_section ms dir (length past, m) s = Inr t" "sections_of ms (past @ [m]) t"
    using add_section_known [of ms past s m dir] Cons.prems by auto
  then show ?case using Cons.IH [OF t(2)] Cons.prems by simp
qed simp

lemma add_sections_unknown:
  "\<exists>m \<in> set todo. dict_get ms m = None \<Longrightarrow> rfold (add_section ms dir) (enumerate n todo) s = Inl KeyError"
proof (induction todo arbitrary: n s)
  case (Cons m todo)
  then show ?case
    by (cases "dict_get ms m") (auto simp: add_section_def Let_def)
qed simp

text \<open>
  The modules with a dependency, or on which one depends; the others get no section.
\<close>

definition sectioned :: "modules \<Rightarrow> string \<Rightarrow> bool" where
  "sectioned ms m \<longleftrightarrow> deps_of ms m \<noteq> [] \<or> (\<exists>c. m \<in> set (deps_of ms c))"

lemma graph_elems: "elems (module_graph ms) = {m. sectioned ms m}"
proof -
  have "elems (module_graph ms) = {d. \<exists>m. (d, m) \<in> set (module_graph ms)} \<union> {m. \<exists>d. (d, m) \<in> set (module_graph ms)}"
    by (force simp: elems_def)
  moreover have ne: "deps_of ms m \<noteq> [] \<longleftrightarrow> (\<exists>d. d \<in> set (deps_of ms m))" for m by (cases "deps_of ms m") auto
  ultimately show ?thesis using ne unfolding module_graph_edges by (auto simp: sectioned_def)
qed

lemma section_name_main: "section_name m \<noteq> ''__main__''"
  by (simp add: section_name_def)

lemma sections_facts:
  assumes sorted: "distinct ans" "set ans = {m. sectioned ms m}" "\<And>d m. d \<in> set (deps_of ms m) \<Longrightarrow> before ans d m"
    and "sections_of ms ans s" and disjoint: "\<And>h m m'. h \<in> set (headers_of ms m) \<Longrightarrow> h \<in> set (headers_of ms m') \<Longrightarrow> m = m'"
  shows "path_basename file \<in> set (headers_of ms m) \<Longrightarrow>
      classify s file = (if sectioned ms m then section_name m else ''__main__'')"
    and "d \<in> set (deps_of ms m) \<Longrightarrow> \<exists>p q. get_section_precedence s (section_name d) = Inr p \<and>
      get_section_precedence s (section_name m) = Inr q \<and> 0 \<le> p \<and> p < q"
proof -
  assume h: "path_basename file \<in> set (headers_of ms m)"
  have "find (\<lambda>m'. path_basename file \<in> set (headers_of ms m')) (rev ans) = (if sectioned ms m then Some m else None)"
  proof (cases "sectioned ms m")
    case True
    then have "m \<in> set ans" using sorted(2) by simp
    then have "find (\<lambda>m'. path_basename file \<in> set (headers_of ms m')) (rev ans) \<noteq> None"
      using h by (auto simp: find_None_iff)
    then obtain m' where "find (\<lambda>m'. path_basename file \<in> set (headers_of ms m')) (rev ans) = Some m'" by auto
    then show ?thesis using True h disjoint by (auto simp: find_Some_iff)
  next
    case False
    then have "\<forall>m' \<in> set ans. path_basename file \<notin> set (headers_of ms m')"
      using h disjoint sorted(2) by auto
    then show ?thesis using False by (auto simp: find_None_iff)
  qed
  then show "classify s file = (if sectioned ms m then section_name m else ''__main__'')"
    using assms(4) by (simp add: classify_def sections_of_def)
next
  assume d: "d \<in> set (deps_of ms m)"
  have b: "before ans d m" by (rule sorted(3) [OF d])
  obtain i j where i: "i < length ans" "ans ! i = d" and j: "j < length ans" "ans ! j = m"
    using before_in [OF b] by (auto simp: in_set_conv_nth)
  have "i < j" using before_index [OF sorted(1) _ i(1) j(1)] b i(2) j(2) by simp
  moreover have "dict_get (sec_precedences s) (section_name d) = Some (int i)"
    "dict_get (sec_precedences s) (section_name m) = Some (int j)"
    using assms(4) i j by (auto simp: sections_of_def)
  ultimately show "\<exists>p q. get_section_precedence s (section_name d) = Inr p \<and>
      get_section_precedence s (section_name m) = Inr q \<and> 0 \<le> p \<and> p < q"
    by (simp add: get_section_precedence_def section_name_main)
qed

text \<open>C33: The scanner raises CycleError exactly if the modules depend on each other in a cycle, and
  KeyError if one depends on a module that is not described. Else every header of a module with some
  dependency is classified under the section of its module, the headers of all other modules under the main
  section, and a section has a higher precedence than those of the modules it depends on.\<close>

theorem sections_outcome:
  assumes "lists_keys ko" and "inj_on section_name {m. sectioned ms m}"
    and disjoint: "\<forall>h m m'. h \<in> set (headers_of ms m) \<and> h \<in> set (headers_of ms m') \<longrightarrow> m = m'"
  shows "if \<not> acyclic (set (module_graph ms)) then make_sections ko ms f = Inl (OtherException ''CycleError'')
    else if \<exists>m. \<exists>d \<in> set (deps_of ms m). dict_get ms d = None then make_sections ko ms f = Inl KeyError
    else \<exists>s. make_sections ko ms f = Inr s \<and>
      (\<forall>m file. path_basename file \<in> set (headers_of ms m) \<longrightarrow>
         classify s file = (if sectioned ms m then section_name m else ''__main__'')) \<and>
      (\<forall>m. \<forall>d \<in> set (deps_of ms m). \<exists>p q. get_section_precedence s (section_name d) = Inr p \<and>
         get_section_precedence s (section_name m) = Inr q \<and> 0 \<le> p \<and> p < q)"
proof (cases "topsort ko (module_graph ms)")
  case (Inl e)
  then have "\<not> acyclic (set (module_graph ms))" "cycle_error e = OtherException ''CycleError''"
    using topsort_spec [OF assms(1), of "module_graph ms"] by (auto simp: cycle_error_def)
  then show ?thesis using Inl by (simp add: make_sections_def)
next
  case (Inr ans)
  then have sorted: "sorted_so_far (module_graph ms) ans" and elems: "set ans = elems (module_graph ms)"
    using topsort_spec [OF assms(1), of "module_graph ms"] by auto
  have acyclic: "acyclic (set (module_graph ms))" by (rule topsort_acyclic [OF sorted elems])
  have ans: "distinct ans" "set ans = {m. sectioned ms m}" using sorted elems graph_elems [of ms] by (simp_all add: sorted_so_far_def)
  have order: "before ans d m" if "d \<in> set (deps_of ms m)" for d m
  proof -
    have "m \<in> set ans" using that ans(2) by (auto simp: sectioned_def)
    then show ?thesis using that sorted by (auto simp: sorted_so_far_def module_graph_edges)
  qed
  let ?s = "\<lparr>sec_list = [(''__main__'', f, None)], sec_headers = [], sec_precedences = []\<rparr>"
  show ?thesis
  proof (cases "\<exists>m. \<exists>d \<in> set (deps_of ms m). dict_get ms d = None")
    case True
    then have "\<exists>d \<in> set ans. dict_get ms d = None" using ans(2) by (auto simp: sectioned_def)
    then show ?thesis using True acyclic Inr add_sections_unknown [of ans ms _ 0] by (simp add: make_sections_def)
  next
    case False
    have "deps_of ms m = []" if "dict_get ms m = None" for m using that by (simp add: deps_of_def)
    then have "dict_get ms m \<noteq> None" if "m \<in> set ans" for m
      using that False ans(2) by (cases "deps_of ms m = []") (force simp: sectioned_def)+
    moreover have "sections_of ms [] ?s" by (simp add: sections_of_def)
    moreover have "inj_on section_name (set ans)" using assms(2) ans(2) by simp
    ultimately obtain s where s: "rfold (add_section ms (path_dirname f)) (enumerate 0 ans) ?s = Inr s" "sections_of ms ans s"
      using add_sections_known [of ms "[]" ?s ans "path_dirname f"] ans(1) by (auto simp: distinct_map)
    have "make_sections ko ms f = Inr s" by (simp add: make_sections_def Inr s(1))
    moreover have "classify s file_name = (if sectioned ms m then section_name m else ''__main__'')"
      if "path_basename file_name \<in> set (headers_of ms m)" for m file_name
      using sections_facts(1) [OF ans order s(2) _ that] disjoint by blast
    moreover have "\<exists>p q. get_section_precedence s (section_name d) = Inr p \<and>
        get_section_precedence s (section_name m) = Inr q \<and> 0 \<le> p \<and> p < q" if "d \<in> set (deps_of ms m)" for d m
      using sections_facts(2) [OF ans order s(2) _ that] disjoint by blast
    ultimately show ?thesis using False acyclic by (simp only: not_True_eq_False if_False) blast
  qed
qed

definition demo_modules :: modules where
  "demo_modules = [(''core'', ([], [''object.h''])), (''network'', ([''core''], [''node.h''])), (''stats'', ([], [''gnuplot.h'']))]"

lemma demo_modules_facts:
  "deps_of demo_modules m = (if m = ''network'' then [''core''] else [])"
  "headers_of demo_modules m = (if m = ''core'' then [''object.h''] else if m = ''network'' then [''node.h'']
     else if m = ''stats'' then [''gnuplot.h''] else [])"
  "sectioned demo_modules m \<longleftrightarrow> m = ''network'' \<or> m = ''core''"
proof -
  show d: "deps_of demo_modules m = (if m = ''network'' then [''core''] else [])" for m
    by (simp add: deps_of_def demo_modules_def)
  show "headers_of demo_modules m = (if m = ''core'' then [''object.h''] else if m = ''network'' then [''node.h'']
     else if m = ''stats'' then [''gnuplot.h''] else [])"
    by (simp add: headers_of_def demo_modules_def)
  show "sectioned demo_modules m \<longleftrightarrow> m = ''network'' \<or> m = ''core''" by (auto simp: sectioned_def d)
qed

theorem sections_outcome_witness:
  "\<exists>s. make_sections (\<lambda>ks. ks) demo_modules ''out.py'' = Inr s \<and> classify s ''/usr/node.h'' = ''ns3_module_network'' \<and>
    classify s ''gnuplot.h'' = ''__main__''"
proof -
  have "set (module_graph demo_modules) = {(''core'', ''network'')}"
    using module_graph_edges [of _ _ demo_modules] by (auto simp: demo_modules_facts(1) split: if_splits)
  then have acyclic: "acyclic (set (module_graph demo_modules))" by (simp add: acyclic_def trancl_insert)
  have inj: "inj_on section_name {m. sectioned demo_modules m}"
    by (auto simp: inj_on_def demo_modules_facts(3) section_name_def dashes_replaced_def)
  have keys: "lists_keys (\<lambda>ks. ks :: string list)" by (simp add: lists_keys_def)
  have disjoint: "\<forall>h m m'. h \<in> set (headers_of demo_modules m) \<and> h \<in> set (headers_of demo_modules m') \<longrightarrow> m = m'"
    by (auto simp: demo_modules_facts(2) split: if_splits)
  have "dict_get demo_modules ''core'' \<noteq> None" by (simp add: demo_modules_def)
  then have known: "\<not> (\<exists>m. \<exists>d \<in> set (deps_of demo_modules m). dict_get demo_modules d = None)"
    using demo_modules_facts(1) by (simp split: if_splits)
  obtain s where s: "make_sections (\<lambda>ks. ks) demo_modules ''out.py'' = Inr s"
    "\<And>m file. path_basename file \<in> set (headers_of demo_modules m) \<Longrightarrow>
       classify s file = (if sectioned demo_modules m then section_name m else ''__main__'')"
    using sections_outcome [of "\<lambda>ks. ks" demo_modules "''out.py''", OF keys inj disjoint] acyclic known
    by (simp only: not_True_eq_False if_False) blast
  have "path_basename ''/usr/node.h'' = ''node.h''" "path_basename ''gnuplot.h'' = ''gnuplot.h''"
    by (simp_all add: path_basename_def)
  then show ?thesis
    using s(1) s(2) [of "''/usr/node.h''" "''network''"] s(2) [of "''gnuplot.h''" "''stats''"]
    by (simp add: demo_modules_facts section_name_def dashes_replaced_def)
qed

text \<open>The name of the module an enumeration is imported from keeps its dashes; that of a class does not.\<close>

lemma enum_import_keeps_dashes:
  assumes "d_kind d = EnumDecl" and "m \<noteq> own"
  shows "dict_get (s_global (annotate_in_module own m d s)) ''import_from_module'' = Some (AnnText (''ns.'' @ m))"
  using assms by (simp add: annotate_in_module_def annotate_class_def apply_table_def put_global_def pd.get_put)

end
