(* ===== verification/ModuleGen.thy ===== *)
theory ModuleGen
  imports ModuleScan
begin

text \<open>
  The generators of the Python bindings: the customizations of
  \<open>bindings/python/ns3modulegen_core_customizations.py\<close> (smart pointers, callbacks, objects, attributes), the
  main programs of \<open>ns3modulegen.py\<close> and \<open>ns3modulegen-modular.py\<close>. The type handlers and modules of
  pybindgen are parameters.
\<close>

section \<open>Smart pointers\<close>

text \<open>
  The pattern \<open>(ns3::|::ns3::|)Ptr<([^>]+)>\s*$\<close>, its second group. No text matches two of the
  alternatives.
\<close>

definition ptr_body :: "string \<Rightarrow> string option" where
  "ptr_body s =
     (let body = takeWhile (\<lambda>c. c \<noteq> CHR ''>'') s; rest = dropWhile (\<lambda>c. c \<noteq> CHR ''>'') s
      in if body \<noteq> [] \<and> rest \<noteq> [] \<and> list_all is_ws (tl rest) then Some body else None)"

definition match_ptr :: "string \<Rightarrow> string option" where
  "match_ptr name =
     (case match_text ''ns3::Ptr<'' name of
        Some r \<Rightarrow> ptr_body r
      | None \<Rightarrow>
          (case match_text ''::ns3::Ptr<'' name of
             Some r \<Rightarrow> ptr_body r
           | None \<Rightarrow> (case match_text ''Ptr<'' name of Some r \<Rightarrow> ptr_body r | None \<Rightarrow> None)))"

definition untransformed_type_traits :: "string \<Rightarrow> string option \<times> bool" where
  "untransformed_type_traits name =
     (case match_ptr name of
        None \<Rightarrow> (None, False)
      | Some g \<Rightarrow>
          let name1 = strip g;
              (name1, is_const) = (if startswith ''const '' name1 then (drop 6 name1, True) else (name1, False));
              (name1, is_const) =
                (if endswith '' const'' name1 then (take (length name1 - 6) name1, True) else (name1, is_const));
              new_name = name1 @ '' *'';
              new_name = (if startswith ''::'' new_name then drop 2 new_name else new_name)
          in (Some new_name, is_const))"

definition get_untransformed_name :: "string \<Rightarrow> string option" where
  "get_untransformed_name name = fst (untransformed_type_traits name)"

text \<open>
  The handler made: its class is one of parameters or of return values, with the argument that is set to \<open>False\<close>
  for it.
\<close>

datatype handler_kind = ParameterHandler | ReturnHandler | OtherHandler

record handler =
  h_option :: string
  h_ctype :: string
  h_untransformed :: string

definition create_type_handler :: "handler_kind \<Rightarrow> string \<Rightarrow> handler result" where
  "create_type_handler k ctype =
     rbind (case k of ParameterHandler \<Rightarrow> Inr ''transfer_ownership'' | ReturnHandler \<Rightarrow> Inr ''caller_owns_return''
              | OtherHandler \<Rightarrow> Inl AssertionError) (\<lambda>opt.
       case untransformed_type_traits ctype of
         (None, _) \<Rightarrow> Inl TypeError
       | (Some orig, is_const) \<Rightarrow>
           let t = take (length orig - 2) orig
           in Inr \<lparr>h_option = opt, h_ctype = ''ns3::Ptr< '' @ t @ (if is_const then '' const >'' else '' >''),
                   h_untransformed = orig\<rparr>)"

definition untransform :: "handler \<Rightarrow> string \<Rightarrow> string" where
  "untransform h expression = ''const_cast<'' @ h_untransformed h @ ''> (ns3::PeekPointer ('' @ expression @ ''))''"

definition transform :: "handler \<Rightarrow> string \<Rightarrow> string result" where
  "transform h expression =
     rbind (py_index (h_untransformed h) (-1)) (\<lambda>c.
       if c = CHR ''*'' then Inr (''ns3::Ptr< '' @ butlast (h_untransformed h) @ '' > ('' @ expression @ '')'')
       else Inl AssertionError)"

section \<open>Callbacks\<close>

definition callback_name :: "string list \<Rightarrow> string" where
  "callback_name args = ''ns3::Callback< '' @ join '', '' args @ '' >''"

definition callback_impl_name :: "nat \<Rightarrow> string" where
  "callback_impl_name i = ''PythonCallbackImpl'' @ show_nat i"

record callback_handler =
  c_ctype :: string
  c_impl :: string
  c_args :: "string list"

definition register_callback_classes :: "string list list \<Rightarrow> callback_handler list" where
  "register_callback_classes callbacks =
     map (\<lambda>(i, args). \<lparr>c_ctype = callback_name args, c_impl = callback_impl_name i, c_args = args\<rparr>)
       (enumerate 0 callbacks)"

text \<open>
  The wrapper code for a parameter of this type: the declarations, the code before the call and the parameter of the
  call. \<open>DISABLED\<close> is looked up when the code is generated. The names of declared variables are taken to be
  free.
\<close>

datatype code_item = Code string | ErrorCheck string string

definition callable_check :: "string \<Rightarrow> code_item" where
  "callable_check name =
     ErrorCheck (''!PyCallable_Check('' @ name @ '')'')
       (''PyErr_SetString(PyExc_TypeError, '' @ [CHR 0x22] @ ''parameter '' @ [CHR 0x27] @ name @ [CHR 0x27] @
        '' must be callbale'' @ [CHR 0x22] @ '');'')"

record wrapper_code =
  w_declarations :: "(string \<times> string \<times> string option) list"
  w_before :: "code_item list"
  w_call :: string

definition convert_python_to_c :: "callback_handler \<Rightarrow> bool \<Rightarrow> string \<Rightarrow> string option \<Rightarrow> wrapper_code result" where
  "convert_python_to_c h disabled name default_value =
     (let cb = ''ns3::Callback<'' @ join '', '' (c_args h) @ ''>'';
          create = ''ns3::Create<'' @ c_impl h @ ''> ('' @ name @ '')''
      in if disabled then Inl (OtherException ''CodeGenerationError'')
         else case default_value of
           None \<Rightarrow>
             let impl = name @ ''_cb_impl''
             in Inr \<lparr>w_declarations = [(''PyObject*'', name, None), (''ns3::Ptr<'' @ c_impl h @ ''>'', impl, None)],
                     w_before = [callable_check name, Code (impl @ '' = '' @ create @ '';'')],
                     w_call = cb @ '' ('' @ impl @ '')''\<rparr>
         | Some v \<Rightarrow>
             let value = name @ ''_value''
             in Inr \<lparr>w_declarations = [(''PyObject*'', name, Some ''NULL''), (cb, value, Some v)],
                     w_before = [Code (''if ('' @ name @ '') {''), callable_check name,
                                 Code (value @ '' = '' @ cb @ '' ('' @ create @ '');''), Code ''}''],
                     w_call = value\<rparr>)"

text \<open>
  What \<open>generate_callback_classes\<close> asks pybindgen: the text of a parsed type and whether it is const,
  whether there is a return value or parameter for a type, and which registered handlers the two matchers find for a name.
\<close>

record type_handlers =
  parse_ctype :: "string \<Rightarrow> string \<times> bool"
  has_return :: "string \<Rightarrow> bool \<Rightarrow> bool"
  has_param :: "string \<Rightarrow> bool \<Rightarrow> bool"
  return_lookup :: "string \<Rightarrow> nat option"
  param_lookup :: "string \<Rightarrow> nat option"

record emitted =
  e_name :: string
  e_head :: "string list"
  e_return :: string
  e_params :: "(string \<times> string) list"

definition class_head :: "string \<Rightarrow> string list \<Rightarrow> string list" where
  "class_head n args =
     ['''', ''class '' @ n @ '' : public ns3::CallbackImpl<'' @ join '', '' args @ ''>'', ''{'', ''public:'',
      ''    PyObject *m_callback;'', ''    '' @ n @ ''(PyObject *callback)'', ''    {'', ''        Py_INCREF(callback);'',
      ''        m_callback = callback;'', ''    }'', ''    virtual ~'' @ n @ ''()'', ''    {'',
      ''        PyGILState_STATE __py_gil_state;'',
      ''        __py_gil_state = (PyEval_ThreadsInitialized() ? PyGILState_Ensure() : (PyGILState_STATE) 0);'',
      ''        Py_DECREF(m_callback);'', ''        m_callback = NULL;'', ''        PyGILState_Release(__py_gil_state);'',
      ''    }'', '''', ''    virtual bool IsEqual(ns3::Ptr<const ns3::CallbackImplBase> other_base) const'', ''    {'',
      ''        const '' @ n @ '' *other = dynamic_cast<const '' @ n @ ''*> (ns3::PeekPointer (other_base));'',
      ''        if (other != NULL)'', ''            return (other->m_callback == m_callback);'', ''        else'',
      ''            return false;'', ''    }'', '''', '''']"

text \<open>A callback without any argument raises IndexError; \<open>disabled\<close> are the handlers switched off.\<close>

definition returns_ok :: "type_handlers \<Rightarrow> string \<Rightarrow> bool" where
  "returns_ok th ret = (case parse_ctype th ret of (t, c) \<Rightarrow> has_return th t c)"

definition arguments_ok :: "type_handlers \<Rightarrow> string list \<Rightarrow> bool" where
  "arguments_ok th params =
     list_all (\<lambda>p. case parse_ctype th p of (t, c) \<Rightarrow> has_param th t c) (filter (\<lambda>p. p \<noteq> ''ns3::empty'') params)"

definition emit_class :: "type_handlers \<Rightarrow> nat \<Rightarrow> string \<Rightarrow> string list \<Rightarrow> emitted" where
  "emit_class th i ret params =
     \<lparr>e_name = callback_impl_name i, e_head = class_head (callback_impl_name i) (ret # params),
      e_return = fst (parse_ctype th ret),
      e_params = map (\<lambda>(k, p). (fst (parse_ctype th p), ''arg'' @ show_nat (k + 1)))
        (enumerate 0 (filter (\<lambda>p. p \<noteq> ''ns3::empty'') params))\<rparr>"

definition generate_callback ::
  "type_handlers \<Rightarrow> nat \<times> string list \<Rightarrow> emitted list \<times> nat set \<Rightarrow> (emitted list \<times> nat set) result" where
  "generate_callback th icb st =
     (case (icb, st) of ((i, args), (out, disabled)) \<Rightarrow>
        (case args of
           [] \<Rightarrow> Inl IndexError
         | ret # params \<Rightarrow>
             if \<not> returns_ok th ret then Inr (out, disabled)
             else if \<not> arguments_ok th params
             then Inr (out, disabled \<union> set_option (return_lookup th (callback_name args))
                                     \<union> set_option (param_lookup th (callback_name args)))
             else Inr (out @ [emit_class th i ret params], disabled)))"

definition generate_callback_classes :: "type_handlers \<Rightarrow> string list list \<Rightarrow> (emitted list \<times> nat set) result" where
  "generate_callback_classes th callbacks = rfold (generate_callback th) (enumerate 0 callbacks) ([], {})"

section \<open>Objects and attributes\<close>

definition helper_class_decl :: "string \<Rightarrow> string \<Rightarrow> string list" where
  "helper_class_decl n full =
     ['''', ''static ns3::TypeId GetTypeId (void)'', ''{'',
      ''  static ns3::TypeId tid = ns3::TypeId ('' @ [CHR 0x22] @ n @ [CHR 0x22] @ '')'', ''    .SetParent< '' @ full @ '' > ()'',
      ''    ;'', ''  return tid;'', ''}'']"

definition helper_class_post_code :: "string \<Rightarrow> string" where
  "helper_class_post_code n = ''NS_OBJECT_ENSURE_REGISTERED ('' @ n @ '');''"

record cpp_class =
  k_full_name :: string
  k_cannot_be_constructed :: string
  k_incomplete :: bool

text \<open>
  The message for a class that cannot be constructed has two places and one value, so making it raises TypeError.
\<close>

definition instance_creation :: "cpp_class \<Rightarrow> string \<Rightarrow> string \<Rightarrow> string \<Rightarrow> string list result" where
  "instance_creation c lvalue parameters construct_name =
     (if lvalue = [] \<or> startswith ''None'' lvalue then Inl AssertionError
      else if k_cannot_be_constructed c \<noteq> [] then Inl TypeError
      else if k_incomplete c then Inl (OtherException ''CodeGenerationError'')
      else Inr [lvalue @ '' = new '' @ construct_name @ ''('' @ parameters @ '');'', lvalue @ ''->Ref ();''])"

definition post_instance_creation :: "string \<Rightarrow> string" where
  "post_instance_creation lvalue = ''ns3::CompleteConstruct('' @ lvalue @ '');''"

text \<open>The parameters of the methods of the classes: whether it is a class reference, of which class, the default.\<close>

record gen_param =
  g_ref_class :: "string option"
  g_default :: "string option"
  g_default_type :: "string option"

definition fix_attribute_param :: "gen_param \<Rightarrow> gen_param" where
  "fix_attribute_param p =
     (if g_ref_class p = Some ''AttributeValue'' \<and> g_default p \<noteq> None \<and> g_default_type p = None
      then p\<lparr>g_default_type := Some ''ns3::EmptyAttributeValue''\<rparr> else p)"

definition attribute_customizations :: "gen_param list list list \<Rightarrow> gen_param list list list" where
  "attribute_customizations classes = map (map (map fix_attribute_param)) classes"

definition ios_openmode_code :: "string list" where
  "ios_openmode_code =
     map (\<lambda>(upper, flag). ''PyModule_AddIntConstant(m, (char *) '' @ [CHR 0x22] @ ''STD_IOS_'' @ upper @ [CHR 0x22] @
          '', std::ios::'' @ flag @ '');'')
       [(''IN'', ''in''), (''OUT'', ''out''), (''ATE'', ''ate''), (''APP'', ''app''), (''TRUNC'', ''trunc''), (''BINARY'', ''binary'')]"

section \<open>The reports of errors\<close>

text \<open>
  A wrapper may have the stack where it was defined, as pairs of file and line. The modular generator
  reverses the list of the wrapper itself; the old one a copy.
\<close>

type_synonym stack = "(string \<times> nat) list"

definition handle_error_modular :: "string \<Rightarrow> stack option \<Rightarrow> stack option \<times> (string \<times> nat) option" where
  "handle_error_modular apidefs_file wrapper_stack =
     (case wrapper_stack of
        None \<Rightarrow> (None, None)
      | Some st \<Rightarrow> (Some (rev st), find (\<lambda>l. fst l = apidefs_file) (rev st)))"

definition handle_error :: "string \<Rightarrow> string \<Rightarrow> stack option \<Rightarrow> (string \<times> nat) option" where
  "handle_error cwd this_script_dir wrapper_stack =
     (case wrapper_stack of
        None \<Rightarrow> None
      | Some st \<Rightarrow>
          map_option (\<lambda>(f, l). (path_join (path_join (path_join ''..'' ''bindings'') ''python'') (path_basename f), l))
            (find (\<lambda>(f, l). startswith this_script_dir (path_dirname (path_abspath cwd f))) (rev st)))"

section \<open>Features that are switched off\<close>

text \<open>
  The module of pybindgen has lists of classes and enumerations and a lookup by name, which may depend on them.
  \<open>list.remove\<close> raises ValueError.
\<close>

record 'o gen_module =
  m_classes :: "'o list"
  m_enums :: "'o list"

definition list_remove :: "'o \<Rightarrow> 'o list \<Rightarrow> 'o list result" where
  "list_remove x xs = (if x \<in> set xs then Inr (remove1 x xs) else Inl ValueError)"

definition remove_class :: "('o gen_module \<Rightarrow> string \<Rightarrow> 'o option) \<Rightarrow> string \<Rightarrow> 'o gen_module \<Rightarrow> 'o gen_module result" where
  "remove_class lookup n m =
     (case lookup m (''ns3::'' @ n) of
        None \<Rightarrow> Inl KeyError
      | Some x \<Rightarrow> rbind (list_remove x (m_classes m)) (\<lambda>cs. Inr (m\<lparr>m_classes := cs\<rparr>)))"

definition remove_enum :: "('o gen_module \<Rightarrow> string \<Rightarrow> 'o option) \<Rightarrow> string \<Rightarrow> 'o gen_module \<Rightarrow> 'o gen_module result" where
  "remove_enum lookup n m =
     (case lookup m (''ns3::'' @ n) of
        None \<Rightarrow> Inl KeyError
      | Some x \<Rightarrow> rbind (list_remove x (m_enums m)) (\<lambda>es. Inr (m\<lparr>m_enums := es\<rparr>)))"

definition try_remove_class :: "('o gen_module \<Rightarrow> string \<Rightarrow> 'o option) \<Rightarrow> string \<Rightarrow> 'o gen_module \<Rightarrow> 'o gen_module result" where
  "try_remove_class lookup n m =
     (case remove_class lookup n m of Inl KeyError \<Rightarrow> Inr m | r \<Rightarrow> r)"

definition unless_enabled ::
  "string list \<Rightarrow> string \<Rightarrow> ('o gen_module \<Rightarrow> 'o gen_module result) \<Rightarrow> 'o gen_module \<Rightarrow> 'o gen_module result" where
  "unless_enabled enabled feature f m = (if feature \<in> set enabled then Inr m else f m)"

definition remove_classes ::
  "('o gen_module \<Rightarrow> string \<Rightarrow> 'o option) \<Rightarrow> string list \<Rightarrow> string list \<Rightarrow> 'o gen_module \<Rightarrow> 'o gen_module result" where
  "remove_classes lookup cs es m = rbind (rfold (remove_class lookup) cs m) (rfold (remove_enum lookup) es)"

definition disable_features ::
  "('o gen_module \<Rightarrow> string \<Rightarrow> 'o option) \<Rightarrow> string \<Rightarrow> 'o gen_module \<Rightarrow> 'o gen_module result" where
  "disable_features lookup features m =
     (let unless = unless_enabled (split_char CHR '','' features); remove = remove_classes lookup
      in rbind (unless ''GtkConfigStore'' (try_remove_class lookup ''GtkConfigStore'') m) (\<lambda>m.
         rbind (unless ''SqliteDataOutput'' (try_remove_class lookup ''SqliteDataOutput'') m) (\<lambda>m.
         rbind (unless ''Threading''
             (remove [''SystemThread'', ''SystemMutex'', ''SystemCondition'', ''CriticalSection'',
                ''SimpleRefCount< ns3::SystemThread, ns3::empty, ns3::DefaultDeleter<ns3::SystemThread> >''] []) m) (\<lambda>m.
         rbind (unless ''EmuNetDevice'' (remove [''EmuNetDevice'', ''EmuHelper''] [''EmuNetDevice::EncapsulationMode'']) m) (\<lambda>m.
         rbind (unless ''RealTime''
             (remove [''WallClockSynchronizer'', ''RealtimeSimulatorImpl''] [''RealtimeSimulatorImpl::SynchronizationMode'']) m) (\<lambda>m.
           unless ''TapBridge'' (remove [''TapBridge'', ''TapBridgeHelper'', ''TapBridgeFdReader''] [''TapBridge::Mode'']) m))))))"

section \<open>The main program of the modular generator\<close>

text \<open>
  What the imports of the description of the module, of its customizations and of the list of callbacks give:
  the file, the hooks there are, the list; or an exception. The program is the sequence of its calls.
\<close>

record hooks =
  post_register_types :: bool
  post_register_methods :: bool
  post_register_functions :: bool

record gen_imports =
  import_apidefs :: "string result"
  import_customizations :: "hooks result"
  import_callbacks :: "string list list result"

datatype gen_action =
    OpenFile string | ErrorHandlerFor string | ModuleInit | SetName string | AddInclude string | IosOpenmode
  | RegisterTypes | PostRegisterTypes | RegisterCallbacks "string list list"
  | RegisterMethods | PostRegisterMethods | ObjectCustomizations | AttributeCustomizations
  | GenerateCallbacks "string list list" | RegisterFunctions | PostRegisterFunctions | Generate

definition no_hooks :: hooks where
  "no_hooks = \<lparr>post_register_types = False, post_register_methods = False, post_register_functions = False\<rparr>"

definition catch_import :: "'a \<Rightarrow> 'a result \<Rightarrow> 'a result" where
  "catch_import x r = (case r of Inl e \<Rightarrow> if e = OtherException ''ImportError'' then Inr x else Inl e | Inr y \<Rightarrow> Inr y)"

text \<open>The imports, with the path that \<open>finally\<close> takes back; \<open>target\<close> names the description.\<close>

definition gen_imports_of ::
  "(string list \<Rightarrow> string \<Rightarrow> gen_imports) \<Rightarrow> string \<Rightarrow> string \<Rightarrow> string list \<Rightarrow>
   string list \<times> (string \<times> hooks \<times> string list list) result" where
  "gen_imports_of world src target path =
     (let path = path_join src ''bindings'' # path;
          w = world path (''modulegen__'' @ target)
      in (tl path,
          rbind (import_apidefs w) (\<lambda>f.
          rbind (catch_import no_hooks (import_customizations w)) (\<lambda>h.
          rbind (catch_import [] (import_callbacks w)) (\<lambda>cbs. Inr (f, h, cbs))))))"

definition gen_actions :: "string \<Rightarrow> string \<Rightarrow> string \<times> hooks \<times> string list list \<Rightarrow> gen_action list" where
  "gen_actions src extension_name fhc =
     (case fhc of (f, h, cbs) \<Rightarrow>
        let hook = (\<lambda>b a. if b then [a] else [])
        in [ErrorHandlerFor (fst (path_splitext f) @ ''.py''), ModuleInit, SetName extension_name,
            AddInclude ([CHR 0x22] @ ''ns3/'' @ path_basename src @ ''-module.h'' @ [CHR 0x22]), IosOpenmode, RegisterTypes] @
           hook (post_register_types h) PostRegisterTypes @
           [RegisterCallbacks cbs, RegisterMethods] @
           hook (post_register_methods h) PostRegisterMethods @
           [ObjectCustomizations, AttributeCustomizations, GenerateCallbacks cbs, RegisterFunctions] @
           hook (post_register_functions h) PostRegisterFunctions @ [Generate])"

definition modulegen_main ::
  "(string list \<Rightarrow> string \<Rightarrow> gen_imports) \<Rightarrow> string list \<Rightarrow> string list \<Rightarrow> string list \<times> gen_action list \<times> unit result" where
  "modulegen_main world argv path =
     (case argv of
        [prog, src, target, extension_name, output] \<Rightarrow>
          let opens = [OpenFile output, OpenFile (path_join (path_dirname output) ''ns3module.h'')]
          in (case gen_imports_of world src target path of
                (path, Inl e) \<Rightarrow> (path, opens, Inl e)
              | (path, Inr fhc) \<Rightarrow> (path, opens @ gen_actions src extension_name fhc, Inr ()))
      | _ \<Rightarrow> (path, [], Inl ValueError))"

section \<open>Smart pointers have one normal form\<close>

lemma endswith_append: "endswith p (s @ p)"
  by (simp add: endswith_def startswith_def)

lemma startswith_word:
  assumes "CHR '' '' \<notin> set x"
  shows "\<not> startswith (w @ '' '') x" and "startswith (w @ '' '') (x @ '' '' @ s) \<Longrightarrow> CHR '' '' \<notin> set w \<Longrightarrow> x = w"
proof -
  show "\<not> startswith (w @ '' '') x"
  proof
    assume "startswith (w @ '' '') x"
    then have "set (w @ '' '') \<subseteq> set x" unfolding startswith_def by (metis set_take_subset)
    then show False using assms by simp
  qed
  assume "startswith (w @ '' '') (x @ '' '' @ s)" and w: "CHR '' '' \<notin> set w"
  then obtain t where t: "x @ '' '' @ s = (w @ '' '') @ t" by (auto simp: startswith_iff prefix_def)
  then have "takeWhile (\<lambda>c. c \<noteq> CHR '' '') (x @ CHR '' '' # s) = takeWhile (\<lambda>c. c \<noteq> CHR '' '') (w @ CHR '' '' # t)" by simp
  moreover have "takeWhile (\<lambda>c. c \<noteq> CHR '' '') (y @ CHR '' '' # u) = y" if "CHR '' '' \<notin> set y" for y u :: string
    using that by (induction y) auto
  ultimately show "x = w" using assms w by simp
qed

lemma endswith_word: "CHR '' '' \<notin> set x \<Longrightarrow> \<not> endswith ('' '' @ w) x"
  using startswith_word(1) [of "rev x" "rev w"] by (simp add: endswith_def)

lemma strip_around:
  assumes "list_all is_ws u" and "list_all is_ws v" and "b \<noteq> []" and "\<not> is_ws (hd b)" and "\<not> is_ws (last b)"
  shows "strip (u @ b @ v) = b"
proof -
  have "dropWhile is_ws (u @ b @ v) = b @ v" using assms(1,3,4) by (cases b) (auto simp: dropWhile_append list_all_iff)
  moreover have "dropWhile is_ws (rev (b @ v)) = rev b"
    using assms(2,3,5) by (cases b rule: rev_cases) (auto simp: dropWhile_append list_all_iff)
  ultimately show ?thesis by (simp add: strip_def)
qed

text \<open>The ways to write a pointer to the class \<open>t\<close>: \<open>const\<close> before or behind it, and \<open>::\<close> before it.\<close>

definition const_before :: "bool \<Rightarrow> string" where "const_before b = (if b then ''const '' else [])"
definition const_behind :: "bool \<Rightarrow> string" where "const_behind b = (if b then '' const'' else [])"
definition globally :: "bool \<Rightarrow> string" where "globally b = (if b then ''::'' else [])"

definition class_name_ok :: "string \<Rightarrow> bool" where
  "class_name_ok t \<longleftrightarrow> t \<noteq> [] \<and> t \<noteq> ''const'' \<and> (\<forall>c \<in> set t. \<not> is_ws c \<and> c \<noteq> CHR ''>'') \<and> \<not> startswith ''::'' t"

lemma traits_of_body:
  assumes t: "class_name_ok t" and g: "match_ptr name = Some g" "strip g = const_before b @ globally q @ t @ const_behind e"
  shows "untransformed_type_traits name = (Some (t @ '' *''), b \<or> e)"
proof -
  define x where "x = globally q @ t"
  have "is_ws CHR '' ''" by (simp add: is_ws_def)
  then have space: "CHR '' '' \<notin> set t" using t by (auto simp: class_name_ok_def)
  then have x: "CHR '' '' \<notin> set x" "x \<noteq> ''const''" using t by (auto simp: x_def globally_def class_name_ok_def)
  let ?rest = "x @ const_behind e"
  have first: "(if startswith ''const '' (const_before b @ ?rest) then (drop 6 (const_before b @ ?rest), True)
      else (const_before b @ ?rest, False)) = (?rest, b)"
  proof (cases b)
    case True
    then show ?thesis by (simp add: const_before_def startswith_def)
  next
    case False
    have "\<not> startswith ''const '' ?rest"
      using startswith_word [OF x(1), of "''const''"] x(2) by (cases e) (auto simp: const_behind_def)
    then show ?thesis using False by (simp add: const_before_def)
  qed
  have second: "(if endswith '' const'' ?rest then (take (length ?rest - 6) ?rest, True) else (?rest, b)) = (x, b \<or> e)"
    using endswith_append [of "'' const''" x] endswith_word [OF x(1), of "''const''"]
    by (cases e) (simp_all add: const_behind_def)
  have third: "(if startswith ''::'' (x @ '' *'') then drop 2 (x @ '' *'') else x @ '' *'') = t @ '' *''"
  proof (cases q)
    case True
    then show ?thesis by (simp add: x_def globally_def startswith_def)
  next
    case False
    have "\<not> startswith ''::'' (t @ '' *'')"
      using t space by (cases t; cases "tl t") (auto simp: class_name_ok_def startswith_def)
    then show ?thesis using False by (simp add: x_def globally_def)
  qed
  have "untransformed_type_traits name =
      (case (if startswith ''const '' (const_before b @ ?rest) then (drop 6 (const_before b @ ?rest), True)
             else (const_before b @ ?rest, False)) of (name1, c1) \<Rightarrow>
       case (if endswith '' const'' name1 then (take (length name1 - 6) name1, True) else (name1, c1)) of (name1, c1) \<Rightarrow>
         (Some (if startswith ''::'' (name1 @ '' *'') then drop 2 (name1 @ '' *'') else name1 @ '' *''), c1))"
    using g by (simp add: untransformed_type_traits_def x_def Let_def)
  then show ?thesis unfolding first second third prod.case .
qed

lemma match_ptr_text:
  assumes "p \<in> {[], ''ns3::'', ''::ns3::''}" and "g \<noteq> []" and "CHR ''>'' \<notin> set g" and "list_all is_ws w"
  shows "match_ptr (p @ ''Ptr<'' @ g @ ''>'' @ w) = Some g"
proof -
  have "takeWhile (\<lambda>c. c \<noteq> CHR ''>'') (g @ CHR ''>'' # w) = g" "dropWhile (\<lambda>c. c \<noteq> CHR ''>'') (g @ CHR ''>'' # w) = CHR ''>'' # w"
    using assms(3) by (induction g) auto
  then have "ptr_body (g @ ''>'' @ w) = Some g" using assms(2,4) by (simp add: ptr_body_def Let_def)
  then show ?thesis using assms(1) by (auto simp: match_ptr_def match_text_def startswith_def)
qed

lemma handler_of_traits:
  "untransformed_type_traits n = (Some (t @ '' *''), c) \<Longrightarrow> create_type_handler ParameterHandler n =
     Inr \<lparr>h_option = ''transfer_ownership'', h_ctype = ''ns3::Ptr< '' @ t @ const_behind c @ '' >'', h_untransformed = t @ '' *''\<rparr>"
  by (cases c) (simp_all add: create_type_handler_def const_behind_def)

text \<open>C34: However a pointer to a class is written, with or without the name space, with white space,
  with \<open>const\<close> before or behind the class, the handler gets the same normal type and the type of the plain
  pointer, and the normal type is mapped to itself.\<close>

theorem smart_pointer_normal:
  assumes "class_name_ok t" and "p \<in> {[], ''ns3::'', ''::ns3::''}"
    and "list_all is_ws u" and "list_all is_ws v" and "list_all is_ws w"
  shows "\<exists>h. create_type_handler ParameterHandler
        (p @ ''Ptr<'' @ (u @ (const_before b @ globally q @ t @ const_behind e) @ v) @ ''>'' @ w) = Inr h \<and>
      h_untransformed h = t @ '' *'' \<and> h_ctype h = ''ns3::Ptr< '' @ t @ const_behind (b \<or> e) @ '' >'' \<and>
      create_type_handler ParameterHandler (h_ctype h) = Inr h"
proof -
  have ws: "\<not> is_ws CHR ''c''" "\<not> is_ws CHR '':''" "\<not> is_ws CHR ''t''" "is_ws CHR '' ''" by (simp_all add: is_ws_def)
  have t: "t \<noteq> []" "\<not> is_ws (hd t)" "\<not> is_ws (last t)" "CHR ''>'' \<notin> set t"
    using assms(1) hd_in_set [of t] last_in_set [of t] by (auto simp: class_name_ok_def simp del: hd_in_set last_in_set)
  have handled: "create_type_handler ParameterHandler (p' @ ''Ptr<'' @ (u' @ (const_before b' @ globally q' @ t @ const_behind e') @ v') @ ''>'' @ w') =
      Inr \<lparr>h_option = ''transfer_ownership'', h_ctype = ''ns3::Ptr< '' @ t @ const_behind (b' \<or> e') @ '' >'', h_untransformed = t @ '' *''\<rparr>"
    if p': "p' \<in> {[], ''ns3::'', ''::ns3::''}" and ws': "list_all is_ws u'" "list_all is_ws v'" "list_all is_ws w'"
    for p' u' v' w' b' q' e'
  proof -
    let ?b = "const_before b' @ globally q' @ t @ const_behind e'"
    have b: "?b \<noteq> []" "\<not> is_ws (hd ?b)" "\<not> is_ws (last ?b)" "CHR ''>'' \<notin> set ?b"
      using t ws by (auto simp: const_before_def globally_def const_behind_def)
    have "\<not> is_ws CHR ''>''" by (simp add: is_ws_def)
    then have "CHR ''>'' \<notin> set (u' @ ?b @ v')" using b(4) ws' by (auto simp: list_all_iff)
    then have m: "match_ptr (p' @ ''Ptr<'' @ (u' @ ?b @ v') @ ''>'' @ w') = Some (u' @ ?b @ v')"
      using t(1) ws'(3) by (intro match_ptr_text p') simp_all
    have s: "strip (u' @ ?b @ v') = ?b" by (rule strip_around [OF ws'(1,2) b(1-3)])
    show ?thesis by (rule handler_of_traits [OF traits_of_body [OF assms(1) m s]])
  qed
  have "create_type_handler ParameterHandler (''ns3::Ptr< '' @ t @ const_behind (b \<or> e) @ '' >'') =
      Inr \<lparr>h_option = ''transfer_ownership'', h_ctype = ''ns3::Ptr< '' @ t @ const_behind (b \<or> e) @ '' >'', h_untransformed = t @ '' *''\<rparr>"
    using handled [of "''ns3::''" "'' ''" "'' ''" "[]" False False "b \<or> e"] ws(4)
    by (simp add: const_before_def globally_def)
  then show ?thesis using handled [OF assms(2-5), of b q e] by simp
qed

theorem smart_pointer_normal_witness:
  "\<exists>h. create_type_handler ParameterHandler ''Ptr<const ns3::Node>'' = Inr h \<and> h_untransformed h = ''ns3::Node *'' \<and>
     h_ctype h = ''ns3::Ptr< ns3::Node const >'' \<and> create_type_handler ParameterHandler (h_ctype h) = Inr h"
  using smart_pointer_normal [of "''ns3::Node''" "[]" "[]" "[]" "[]" True False False]
  by (simp add: class_name_ok_def is_ws_def startswith_def const_before_def globally_def const_behind_def)

section \<open>Which callbacks can be used\<close>

text \<open>A registered handler is found under its name, by the one matcher or by both.\<close>

definition finds_own :: "type_handlers \<Rightarrow> string list list \<Rightarrow> bool" where
  "finds_own th callbacks \<longleftrightarrow>
     (\<forall>i < length callbacks. param_lookup th (callback_name (callbacks ! i)) = Some i \<and>
        return_lookup th (callback_name (callbacks ! i)) \<in> {None, Some i})"

definition usable :: "type_handlers \<Rightarrow> string list \<Rightarrow> bool" where
  "usable th args \<longleftrightarrow> returns_ok th (hd args) \<and> arguments_ok th (tl args)"

definition switched_off :: "type_handlers \<Rightarrow> string list \<Rightarrow> bool" where
  "switched_off th args \<longleftrightarrow> returns_ok th (hd args) \<and> \<not> arguments_ok th (tl args)"

lemma generate_callback_Cons:
  "generate_callback th (i, ret # params) (out, off) =
     (if \<not> returns_ok th ret then Inr (out, off)
      else if \<not> arguments_ok th params
      then Inr (out, off \<union> set_option (return_lookup th (callback_name (ret # params)))
                         \<union> set_option (param_lookup th (callback_name (ret # params))))
      else Inr (out @ [emit_class th i ret params], off))"
  "generate_callback th (i, []) (out, off) = Inl IndexError"
  by (simp_all add: generate_callback_def)

lemma generate_all:
  "rfold (generate_callback th) xs (out, off) =
     (if \<exists>x \<in> set xs. snd x = [] then Inl IndexError
      else Inr (out @ map (\<lambda>(i, args). emit_class th i (hd args) (tl args)) (filter (\<lambda>x. usable th (snd x)) xs),
                off \<union> (\<Union>x \<in> {x \<in> set xs. switched_off th (snd x)}.
                  set_option (return_lookup th (callback_name (snd x))) \<union> set_option (param_lookup th (callback_name (snd x))))))"
proof (induction xs arbitrary: out off)
  case (Cons x xs)
  obtain i args where x: "x = (i, args)" by fastforce
  show ?case
  proof (cases args)
    case Nil
    then show ?thesis by (simp add: x generate_callback_Cons)
  next
    case args: (Cons ret params)
    consider "\<not> returns_ok th ret" | "returns_ok th ret" "\<not> arguments_ok th params" | "returns_ok th ret" "arguments_ok th params"
      by blast
    then show ?thesis
    proof cases
      case 1
      then have "{y. (y = x \<or> y \<in> set xs) \<and> switched_off th (snd y)} = {y \<in> set xs. switched_off th (snd y)}"
        by (auto simp: x args switched_off_def)
      then show ?thesis using 1 by (simp add: x args generate_callback_Cons Cons.IH usable_def)
    next
      case 2
      then have "{y. (y = x \<or> y \<in> set xs) \<and> switched_off th (snd y)} = insert x {y \<in> set xs. switched_off th (snd y)}"
        by (auto simp: x args switched_off_def)
      then show ?thesis using 2 by (simp add: x args generate_callback_Cons Cons.IH usable_def Un_assoc)
    next
      case 3
      then have "{y. (y = x \<or> y \<in> set xs) \<and> switched_off th (snd y)} = {y \<in> set xs. switched_off th (snd y)}"
        by (auto simp: x args switched_off_def)
      then show ?thesis using 3 by (simp add: x args generate_callback_Cons Cons.IH usable_def)
    qed
  qed
qed simp

lemma callback_impl_name_inj: "callback_impl_name i = callback_impl_name j \<longleftrightarrow> i = j"
  by (simp add: callback_impl_name_def show_nat_inj)

lemma enumerated: "(j, a) \<in> set (enumerate 0 xs) \<longleftrightarrow> j < length xs \<and> a = xs ! j"
  by (auto simp: in_set_enumerate_eq)

lemma enumerated_such: "fst ` {x \<in> set (enumerate 0 xs). P (snd x)} = {j. j < length xs \<and> P (xs ! j)}"
proof -
  have "{x \<in> set (enumerate 0 xs). P (snd x)} = (\<lambda>j. (j, xs ! j)) ` {j. j < length xs \<and> P (xs ! j)}"
  proof (rule set_eqI)
    fix x
    show "x \<in> {x \<in> set (enumerate 0 xs). P (snd x)} \<longleftrightarrow> x \<in> (\<lambda>j. (j, xs ! j)) ` {j. j < length xs \<and> P (xs ! j)}"
      by (cases x) (auto simp: enumerated)
  qed
  then show ?thesis by (simp add: image_image)
qed

lemma emitted_names:
  assumes "generate_callback_classes th callbacks = Inr (out, off)"
  shows "e_name ` set out = callback_impl_name ` {j. j < length callbacks \<and> usable th (callbacks ! j)}"
proof -
  have out: "out = map (\<lambda>(i, args). emit_class th i (hd args) (tl args)) (filter (\<lambda>x. usable th (snd x)) (enumerate 0 callbacks))"
    using assms unfolding generate_callback_classes_def generate_all by (simp split: if_splits)
  have "e_name \<circ> (\<lambda>(i, args). emit_class th i (hd args) (tl args)) = callback_impl_name \<circ> fst"
    by (auto simp: emit_class_def)
  then have "e_name ` set out = callback_impl_name ` fst ` {x \<in> set (enumerate 0 callbacks). usable th (snd x)}"
    unfolding out by (simp only: set_map image_comp set_filter)
  then show ?thesis by (simp only: enumerated_such)
qed

lemma switched_off_handlers:
  assumes "generate_callback_classes th callbacks = Inr (out, off)" and "finds_own th callbacks"
  shows "off = {j. j < length callbacks \<and> switched_off th (callbacks ! j)}"
proof -
  define own where "own x = set_option (return_lookup th (callback_name (snd x))) \<union> set_option (param_lookup th (callback_name (snd x)))"
    for x :: "nat \<times> string list"
  have off: "off = (\<Union>x \<in> {x \<in> set (enumerate 0 callbacks). switched_off th (snd x)}. own x)"
    using assms(1) unfolding generate_callback_classes_def generate_all own_def by (simp split: if_splits)
  have "own x = {fst x}" if "x \<in> set (enumerate 0 callbacks)" for x
    using assms(2) that by (cases x) (auto simp: enumerated finds_own_def own_def)
  then have "off = (\<Union>x \<in> {x \<in> set (enumerate 0 callbacks). switched_off th (snd x)}. {fst x})"
    unfolding off by (intro SUP_cong) auto
  also have "\<dots> = fst ` {x \<in> set (enumerate 0 callbacks). switched_off th (snd x)}" by blast
  finally show ?thesis by (simp only: enumerated_such)
qed

lemma convert_disabled:
  "convert_python_to_c h b name v = Inl (OtherException ''CodeGenerationError'') \<longleftrightarrow> b"
  by (simp add: convert_python_to_c_def Let_def split: option.split)

text \<open>If the matchers find the registered handlers, then after the generation the class a handler creates
  objects of is there if the types of the return value and of all arguments are known; if only an argument is not,
  there is no class and the handler is switched off, so that its use raises CodeGenerationError. If the type of
  the return value is not known, there is no class either, but the handler stays on and makes code that names it.\<close>

theorem callbacks_usable:
  assumes "generate_callback_classes th callbacks = Inr (out, off)" and "finds_own th callbacks" and "i < length callbacks"
  shows "(callback_impl_name i \<in> e_name ` set out \<longleftrightarrow> usable th (callbacks ! i)) \<and>
    (i \<in> off \<longleftrightarrow> switched_off th (callbacks ! i)) \<and>
    (convert_python_to_c (register_callback_classes callbacks ! i) (i \<in> off) name v =
       Inl (OtherException ''CodeGenerationError'') \<longleftrightarrow> switched_off th (callbacks ! i))"
  using assms(3) by (auto simp: emitted_names [OF assms(1)] switched_off_handlers [OF assms(1,2)] convert_disabled
      callback_impl_name_inj)

definition demo_handlers :: type_handlers where
  "demo_handlers = \<lparr>parse_ctype = (\<lambda>t. (t, False)), has_return = (\<lambda>t c. t = ''void''), has_param = (\<lambda>t c. t = ''int''),
     return_lookup = (\<lambda>n. None), param_lookup = (\<lambda>n. if n = callback_name [''void'', ''int''] then Some 0 else Some 1)\<rparr>"

theorem callbacks_usable_witness:
  "\<exists>out off. generate_callback_classes demo_handlers [[''void'', ''int''], [''void'', ''Foo'']] = Inr (out, off) \<and>
     callback_impl_name 0 \<in> e_name ` set out \<and> (1::nat) \<in> off"
proof -
  let ?cbs = "[[''void'', ''int''], [''void'', ''Foo'']]"
  obtain out off where g: "generate_callback_classes demo_handlers ?cbs = Inr (out, off)"
    unfolding generate_callback_classes_def generate_all by simp
  have own: "finds_own demo_handlers ?cbs"
    by (auto simp: finds_own_def demo_handlers_def less_Suc_eq callback_name_def)
  have "usable demo_handlers (?cbs ! 0)" "switched_off demo_handlers (?cbs ! 1)"
    by (simp_all add: usable_def switched_off_def returns_ok_def arguments_ok_def demo_handlers_def)
  then show ?thesis
    using g callbacks_usable [OF g own, of 0] callbacks_usable [OF g own, of 1] by auto
qed

section \<open>Errors and the main program\<close>

text \<open>The second report of an error for the same wrapper reads the stack from its other end.\<close>

lemma second_report_other_end:
  "snd (handle_error_modular f (fst (handle_error_modular f (Some st)))) = find (\<lambda>l. fst l = f) st"
  by (simp add: handle_error_modular_def)

lemma abstract_class_type_error:
  assumes "lvalue \<noteq> []" and "\<not> startswith ''None'' lvalue" and "k_cannot_be_constructed c \<noteq> []"
  shows "instance_creation c lvalue ps n = Inl TypeError"
  using assms by (simp add: instance_creation_def)

lemma attribute_customizations_idem: "attribute_customizations (attribute_customizations cs) = attribute_customizations cs"
  by (simp add: attribute_customizations_def fix_attribute_param_def)

text \<open>Whatever the imports do, the path is as before, and callbacks are registered behind the types and generated
  behind the methods.\<close>

lemma modulegen_main_path: "fst (modulegen_main world argv path) = path"
  by (auto simp: modulegen_main_def gen_imports_of_def Let_def split: list.split sum.split)

lemma gen_actions_order:
  "filter (\<lambda>a. a \<in> {RegisterTypes, RegisterMethods, RegisterFunctions, Generate} \<or> a = RegisterCallbacks cbs \<or> a = GenerateCallbacks cbs)
     (gen_actions src n (f, h, cbs)) =
   [RegisterTypes, RegisterCallbacks cbs, RegisterMethods, GenerateCallbacks cbs, RegisterFunctions, Generate]"
  by (simp add: gen_actions_def Let_def)

section \<open>The files of the sections\<close>

definition section_sinks :: "string \<Rightarrow> string list \<Rightarrow> (string, string) pydict" where
  "section_sinks main_file_name modules =
     fold (\<lambda>m. dict_put (section_name m) (path_join (path_dirname main_file_name) (section_name m @ ''.cc'')))
       modules [(''__main__'', main_file_name)]"

definition get_section_code_sink :: "(string, string) pydict \<Rightarrow> string \<Rightarrow> string result" where
  "get_section_code_sink sinks sec = (case dict_get sinks sec of None \<Rightarrow> Inl KeyError | Some f \<Rightarrow> Inr f)"

text \<open>The generator has a file for every section of the modules it is given, and for no other.\<close>

lemma section_sinks_known:
  "(\<exists>f. get_section_code_sink (section_sinks main_file modules) sec = Inr f) \<longleftrightarrow>
     sec = ''__main__'' \<or> sec \<in> section_name ` set modules"
proof -
  have "set (dict_keys (section_sinks main_file modules)) = insert ''__main__'' (section_name ` set modules)"
    unfolding section_sinks_def pd.keys_fold_put by (simp add: dict_keys_def)
  then show ?thesis
    using pd.keys_get [of sec "section_sinks main_file modules"]
    by (auto simp: get_section_code_sink_def split: option.split)
qed

end
