(* ===== verification/VizView.thy ===== *)
theory VizView
  imports VizBase
begin

text \<open>
  What the visualizer shows of its canvas (\<open>core.py\<close>: panning, zooming, centring, \<open>autoscale_view\<close>; \<open>hud.py\<close>: the
  axes). Floats are exact rationals. The canvas and the adjustments of the scrolled window are the
  record \<open>canvas_lib\<close>; what is used of them is \<open>canvas_law\<close>.
\<close>

section \<open>The window on the canvas\<close>

text \<open>
  The conversions between canvas and pixels at a scale, the values the adjustments accept, and what becomes of
  them when the scale changes.
\<close>

record canvas_lib =
  to_px_h :: "rat \<Rightarrow> rat \<Rightarrow> rat"
  to_px_v :: "rat \<Rightarrow> rat \<Rightarrow> rat"
  from_px_h :: "rat \<Rightarrow> rat \<Rightarrow> rat"
  from_px_v :: "rat \<Rightarrow> rat \<Rightarrow> rat"
  clamp_h :: "rat \<Rightarrow> rat \<Rightarrow> rat"
  clamp_v :: "rat \<Rightarrow> rat \<Rightarrow> rat"
  rescale_h :: "rat \<Rightarrow> rat \<Rightarrow> rat \<Rightarrow> rat"
  rescale_v :: "rat \<Rightarrow> rat \<Rightarrow> rat \<Rightarrow> rat"
  clamp_zoom :: "rat \<Rightarrow> rat"

text \<open>Pixels are proportional to canvas units, with the scale as the factor.\<close>

definition canvas_law :: "canvas_lib \<Rightarrow> bool" where
  "canvas_law c \<longleftrightarrow>
     (\<forall>s x. s > 0 \<longrightarrow> from_px_h c s (to_px_h c s x) = x \<and> to_px_h c s (from_px_h c s x) = x \<and>
                     from_px_v c s (to_px_v c s x) = x \<and> to_px_v c s (from_px_v c s x) = x) \<and>
     (\<forall>s x y. s > 0 \<longrightarrow> to_px_h c s x - to_px_h c s y = (x - y) * s \<and> to_px_v c s x - to_px_v c s y = (x - y) * s)"

record window_view =
  v_scale :: rat
  v_h :: rat
  v_v :: rat
  page_h :: rat
  page_v :: rat

definition set_h :: "canvas_lib \<Rightarrow> rat \<Rightarrow> window_view \<Rightarrow> window_view" where
  "set_h c x v = v\<lparr>v_h := clamp_h c (v_scale v) x\<rparr>"

definition set_v :: "canvas_lib \<Rightarrow> rat \<Rightarrow> window_view \<Rightarrow> window_view" where
  "set_v c y v = v\<lparr>v_v := clamp_v c (v_scale v) y\<rparr>"

text \<open>A new value of the zoom sets the scale of the canvas.\<close>

definition set_zoom :: "canvas_lib \<Rightarrow> rat \<Rightarrow> window_view \<Rightarrow> window_view" where
  "set_zoom c z v =
     (let z = clamp_zoom c z
      in if z = v_scale v then v
         else v\<lparr>v_scale := z, v_h := rescale_h c (v_scale v) z (v_h v), v_v := rescale_v c (v_scale v) z (v_v v)\<rparr>)"

datatype scroll_direction = ScrollUp | ScrollDown | OtherScroll

definition canvas_scroll_event :: "canvas_lib \<Rightarrow> scroll_direction \<Rightarrow> window_view \<Rightarrow> window_view \<times> bool" where
  "canvas_scroll_event c d v =
     (case d of
        ScrollUp \<Rightarrow> (set_zoom c (v_scale v * (5 / 4)) v, True)
      | ScrollDown \<Rightarrow> (set_zoom c (v_scale v / (5 / 4)) v, True)
      | OtherScroll \<Rightarrow> (v, False))"

text \<open>\<open>center_on_node\<close>, and \<open>_update_node_positions\<close> for the followed node, with its position.\<close>

definition center_on :: "canvas_lib \<Rightarrow> rat \<times> rat \<Rightarrow> window_view \<Rightarrow> window_view" where
  "center_on c p v =
     set_v c (to_px_v c (v_scale v) (snd p) - page_v v / 2) (set_h c (to_px_h c (v_scale v) (fst p) - page_h v / 2) v)"

text \<open>\<open>center_on_node\<close> takes a node of the simulator or its number, or the node itself.\<close>

datatype node_arg = NodeNumber nat | CanvasNode "rat \<times> rat" | OtherArg

definition center_on_node :: "canvas_lib \<Rightarrow> (nat \<Rightarrow> (rat \<times> rat) option) \<Rightarrow> node_arg \<Rightarrow> window_view \<Rightarrow> window_view \<times> unit result" where
  "center_on_node c nodes a v =
     (case a of
        NodeNumber i \<Rightarrow> (case nodes i of None \<Rightarrow> (v, Inl KeyError) | Some p \<Rightarrow> (center_on c p v, Inr ()))
      | CanvasNode p \<Rightarrow> (center_on c p v, Inr ())
      | OtherArg \<Rightarrow> (v, Inl TypeError))"

text \<open>\<open>autoscale_view\<close> with the positions of the nodes; \<open>scroll_to\<close> places a point at the top left.\<close>

definition scroll_to :: "canvas_lib \<Rightarrow> rat \<times> rat \<Rightarrow> window_view \<Rightarrow> window_view" where
  "scroll_to c p v = set_v c (to_px_v c (v_scale v) (snd p)) (set_h c (to_px_h c (v_scale v) (fst p)) v)"

definition autoscale_view :: "canvas_lib \<Rightarrow> (rat \<times> rat) list \<Rightarrow> window_view \<Rightarrow> window_view" where
  "autoscale_view c positions v =
     (if positions = [] then v
      else
        let min_x = Min (fst ` set positions); min_y = Min (snd ` set positions);
            max_x = Max (fst ` set positions); max_y = Max (snd ` set positions);
            s = v_scale v;
            new_dx = 3 / 2 * (to_px_h c s max_x - to_px_h c s min_x);
            new_dy = 3 / 2 * (to_px_v c s max_y - to_px_v c s min_y)
        in if new_dx = 0 \<or> new_dy = 0 then v
           else
             let v = set_zoom c (min (page_h v / new_dx) (page_v v / new_dy)) v;
                 s = v_scale v;
                 width = from_px_h c s (v_h v + page_h v) - from_px_h c s (v_h v);
                 height = from_px_v c s (v_v v + page_v v) - from_px_v c s (v_v v)
             in scroll_to c ((min_x + max_x) / 2 - width / 2, (min_y + max_y) / 2 - height / 2) v)"

section \<open>Panning\<close>

text \<open>
  The state of a panning: the place of the mouse and the values of the adjustments at its begin, and the handler connected
  for motions. \<open>motion_handlers\<close> are all that are connected.
\<close>

record panning =
  mouse_pos :: "rat \<times> rat"
  canvas_pos :: "rat \<times> rat"
  motion_signal :: nat

record pan_state =
  p_view :: window_view
  p_panning :: "panning option"
  motion_handlers :: "nat list"
  next_handler :: nat

definition begin_panning :: "rat \<times> rat \<Rightarrow> pan_state \<Rightarrow> pan_state" where
  "begin_panning pos s =
     s\<lparr>p_panning := Some \<lparr>mouse_pos = pos, canvas_pos = (v_h (p_view s), v_v (p_view s)), motion_signal = next_handler s\<rparr>,
       motion_handlers := motion_handlers s @ [next_handler s], next_handler := next_handler s + 1\<rparr>"

definition end_panning :: "pan_state \<Rightarrow> pan_state" where
  "end_panning s =
     (case p_panning s of
        None \<Rightarrow> s
      | Some p \<Rightarrow> s\<lparr>p_panning := None, motion_handlers := remove1 (motion_signal p) (motion_handlers s)\<rparr>)"

definition panning_motion :: "canvas_lib \<Rightarrow> rat \<times> rat \<Rightarrow> pan_state \<Rightarrow> pan_state \<times> unit result" where
  "panning_motion c pos s =
     (case p_panning s of
        None \<Rightarrow> (s, Inl AssertionError)
      | Some p \<Rightarrow>
          (s\<lparr>p_view := set_v c (snd (canvas_pos p) - (snd pos - snd (mouse_pos p)))
                        (set_h c (fst (canvas_pos p) - (fst pos - fst (mouse_pos p))) (p_view s))\<rparr>, Inr ()))"

datatype pan_event = PressAt nat "rat \<times> rat" | ReleaseOf nat | MoveTo "rat \<times> rat"

text \<open>
  The events of the mouse; a motion is handled by the first connected handler, all are the same function.
\<close>

definition pan_step :: "canvas_lib \<Rightarrow> pan_event \<Rightarrow> pan_state \<Rightarrow> pan_state \<times> unit result" where
  "pan_step c e s =
     (case e of
        PressAt b pos \<Rightarrow> (if b = 2 then begin_panning pos s else s, Inr ())
      | ReleaseOf b \<Rightarrow> (if b = 2 then end_panning s else s, Inr ())
      | MoveTo pos \<Rightarrow> if motion_handlers s = [] then (s, Inr ()) else panning_motion c pos s)"

section \<open>Centring and scaling\<close>

lemma canvas_px:
  assumes "canvas_law c" and "s > 0"
  shows "from_px_h c s (to_px_h c s x) = x" "to_px_h c s (from_px_h c s x) = x"
    "from_px_v c s (to_px_v c s x) = x" "to_px_v c s (from_px_v c s x) = x"
    "from_px_h c s p - from_px_h c s q = (p - q) / s" "from_px_v c s p - from_px_v c s q = (p - q) / s"
proof -
  show h: "from_px_h c s (to_px_h c s x) = x" "to_px_h c s (from_px_h c s x) = x"
    "from_px_v c s (to_px_v c s x) = x" "to_px_v c s (from_px_v c s x) = x" for x
    using assms by (auto simp: canvas_law_def)
  have "to_px_h c s (from_px_h c s p) - to_px_h c s (from_px_h c s q) = (from_px_h c s p - from_px_h c s q) * s"
    "to_px_v c s (from_px_v c s p) - to_px_v c s (from_px_v c s q) = (from_px_v c s p - from_px_v c s q) * s"
    using assms unfolding canvas_law_def by blast+
  then show "from_px_h c s p - from_px_h c s q = (p - q) / s" "from_px_v c s p - from_px_v c s q = (p - q) / s"
    using assms(2) by (simp_all add: h field_simps)
qed

lemma from_px_add:
  assumes "canvas_law c" and "s > 0"
  shows "from_px_h c s (to_px_h c s x + d) = x + d / s" "from_px_v c s (to_px_v c s x + d) = x + d / s"
  using canvas_px(5,6) [OF assms, of "to_px_h c s x + d" "to_px_h c s x"] canvas_px(5,6) [OF assms, of "to_px_v c s x + d" "to_px_v c s x"]
    canvas_px(1,3) [OF assms, of x]
  by (simp_all add: algebra_simps)

text \<open>After centring on a node it is in the middle, if the adjustments let it.\<close>

lemma center_on_middle:
  assumes "canvas_law c" and "v_scale v > 0"
    and "clamp_h c (v_scale v) (to_px_h c (v_scale v) x - page_h v / 2) = to_px_h c (v_scale v) x - page_h v / 2"
    and "clamp_v c (v_scale v) (to_px_v c (v_scale v) y - page_v v / 2) = to_px_v c (v_scale v) y - page_v v / 2"
  defines "v' \<equiv> center_on c (x, y) v"
  shows "from_px_h c (v_scale v') (v_h v' + page_h v' / 2) = x \<and> from_px_v c (v_scale v') (v_v v' + page_v v' / 2) = y"
  using assms(3,4) canvas_px [OF assms(1,2)] by (simp add: v'_def center_on_def set_h_def set_v_def)

text \<open>The extent of the nodes, their middle, and the zoom that makes the window half as wide again.\<close>

definition extent_h :: "(rat \<times> rat) list \<Rightarrow> rat" where
  "extent_h ps = Max (fst ` set ps) - Min (fst ` set ps)"

definition extent_v :: "(rat \<times> rat) list \<Rightarrow> rat" where
  "extent_v ps = Max (snd ` set ps) - Min (snd ` set ps)"

definition middle_h :: "(rat \<times> rat) list \<Rightarrow> rat" where
  "middle_h ps = (Min (fst ` set ps) + Max (fst ` set ps)) / 2"

definition middle_v :: "(rat \<times> rat) list \<Rightarrow> rat" where
  "middle_v ps = (Min (snd ` set ps) + Max (snd ` set ps)) / 2"

definition fitting_zoom :: "window_view \<Rightarrow> (rat \<times> rat) list \<Rightarrow> rat" where
  "fitting_zoom v ps = min (page_h v / (3 / 2 * extent_h ps)) (page_v v / (3 / 2 * extent_v ps))"

text \<open>The edges of what the window shows.\<close>

definition left_edge :: "canvas_lib \<Rightarrow> window_view \<Rightarrow> rat" where "left_edge c v = from_px_h c (v_scale v) (v_h v)"
definition right_edge :: "canvas_lib \<Rightarrow> window_view \<Rightarrow> rat" where "right_edge c v = from_px_h c (v_scale v) (v_h v + page_h v)"
definition top_edge :: "canvas_lib \<Rightarrow> window_view \<Rightarrow> rat" where "top_edge c v = from_px_v c (v_scale v) (v_v v)"
definition bottom_edge :: "canvas_lib \<Rightarrow> window_view \<Rightarrow> rat" where "bottom_edge c v = from_px_v c (v_scale v) (v_v v + page_v v)"

lemma set_zoom_fields:
  "page_h (set_zoom c z v) = page_h v" "page_v (set_zoom c z v) = page_v v" "v_scale (set_zoom c z v) = clamp_zoom c z"
  by (simp_all add: set_zoom_def Let_def)

lemma autoscale_edges:
  assumes law: "canvas_law c" and scale: "v_scale v = 1" and page: "page_h v > 0" "page_v v > 0"
    and ps: "ps \<noteq> []" "extent_h ps > 0" "extent_v ps > 0"
    and z: "z = fitting_zoom v ps" "clamp_zoom c z = z"
    and fits: "\<And>x. x = to_px_h c z (middle_h ps - page_h v / z / 2) \<Longrightarrow> clamp_h c z x = x"
      "\<And>y. y = to_px_v c z (middle_v ps - page_v v / z / 2) \<Longrightarrow> clamp_v c z y = y"
  shows "v_scale (autoscale_view c ps v) = z \<and>
    left_edge c (autoscale_view c ps v) = middle_h ps - page_h v / z / 2 \<and>
    right_edge c (autoscale_view c ps v) = middle_h ps + page_h v / z / 2 \<and>
    top_edge c (autoscale_view c ps v) = middle_v ps - page_v v / z / 2 \<and>
    bottom_edge c (autoscale_view c ps v) = middle_v ps + page_v v / z / 2"
proof -
  have pos: "z > 0" using page ps by (simp add: z(1) fitting_zoom_def)
  have one: "to_px_h c 1 x - to_px_h c 1 y = x - y" "to_px_v c 1 x - to_px_v c 1 y = x - y" for x y
    using law by (auto simp: canvas_law_def)
  let ?v = "set_zoom c z v"
  have width: "from_px_h c z (v_h ?v + page_h v) - from_px_h c z (v_h ?v) = page_h v / z"
    "from_px_v c z (v_v ?v + page_v v) - from_px_v c z (v_v ?v) = page_v v / z"
    by (simp_all add: canvas_px(5,6) [OF law pos])
  have "autoscale_view c ps v = scroll_to c (middle_h ps - page_h v / z / 2, middle_v ps - page_v v / z / 2) ?v"
    unfolding autoscale_view_def Let_def scale one extent_h_def [symmetric] extent_v_def [symmetric]
      fitting_zoom_def [symmetric] z(1) [symmetric] set_zoom_fields z(2) width middle_h_def [symmetric] middle_v_def [symmetric]
    using ps by simp
  then show ?thesis
    using pos by (simp add: scroll_to_def set_h_def set_v_def set_zoom_fields z(2) fits left_edge_def right_edge_def
        top_edge_def bottom_edge_def canvas_px(1,3) [OF law pos] from_px_add [OF law pos])
qed

text \<open>From the zoom 1 and where the limits of the zoom and the scroll bars allow it, \<open>autoscale_view\<close>
  brings every node into the window, with a quarter of the extent of the nodes free on each side.\<close>

theorem autoscale_shows_all:
  assumes "canvas_law c" and "v_scale v = 1" and "page_h v > 0" and "page_v v > 0"
    and "ps \<noteq> []" and "extent_h ps > 0" and "extent_v ps > 0"
    and "clamp_zoom c (fitting_zoom v ps) = fitting_zoom v ps"
    and "x = to_px_h c (fitting_zoom v ps) (middle_h ps - page_h v / fitting_zoom v ps / 2)"
    and "clamp_h c (fitting_zoom v ps) x = x"
    and "y = to_px_v c (fitting_zoom v ps) (middle_v ps - page_v v / fitting_zoom v ps / 2)"
    and "clamp_v c (fitting_zoom v ps) y = y"
  shows "\<forall>(x, y) \<in> set ps. left_edge c (autoscale_view c ps v) + extent_h ps / 4 \<le> x \<and>
    x \<le> right_edge c (autoscale_view c ps v) - extent_h ps / 4 \<and>
    top_edge c (autoscale_view c ps v) + extent_v ps / 4 \<le> y \<and>
    y \<le> bottom_edge c (autoscale_view c ps v) - extent_v ps / 4"
proof -
  let ?z = "fitting_zoom v ps"
  have pos: "?z > 0" using assms by (simp add: fitting_zoom_def)
  have "?z \<le> page_h v / (3 / 2 * extent_h ps)" "?z \<le> page_v v / (3 / 2 * extent_v ps)" by (simp_all add: fitting_zoom_def)
  then have wide: "3 / 2 * extent_h ps \<le> page_h v / ?z" "3 / 2 * extent_v ps \<le> page_v v / ?z"
    using pos assms(6,7) by (simp_all add: field_simps)
  have edges: "left_edge c (autoscale_view c ps v) = middle_h ps - page_h v / ?z / 2"
    "right_edge c (autoscale_view c ps v) = middle_h ps + page_h v / ?z / 2"
    "top_edge c (autoscale_view c ps v) = middle_v ps - page_v v / ?z / 2"
    "bottom_edge c (autoscale_view c ps v) = middle_v ps + page_v v / ?z / 2"
    using autoscale_edges [OF assms(1-7) refl assms(8)] assms(9-12) by simp_all
  have "Min (fst ` set ps) \<le> x \<and> x \<le> Max (fst ` set ps) \<and> Min (snd ` set ps) \<le> y \<and> y \<le> Max (snd ` set ps)"
    if "(x, y) \<in> set ps" for x y
    using that by (force intro: Min_le Max_ge)
  moreover have "l - w / 2 + d / 4 \<le> m \<and> M \<le> l + w / 2 - d / 4" if "l = (m + M) / 2" "d = M - m" "3 / 2 * d \<le> w" for l w d m M :: rat
    using that by (simp add: field_simps)
  note this [OF middle_h_def extent_h_def wide(1)] this [OF middle_v_def extent_v_def wide(2)]
  ultimately show ?thesis
    unfolding edges by (blast intro: order_trans)
qed

text \<open>From another zoom it does not: at one half the window is too small for the nodes.\<close>

definition plain_canvas :: canvas_lib where
  "plain_canvas = \<lparr>to_px_h = (\<lambda>s x. (x + 10000) * s), to_px_v = (\<lambda>s x. (x + 10000) * s), from_px_h = (\<lambda>s p. p / s - 10000),
     from_px_v = (\<lambda>s p. p / s - 10000), clamp_h = (\<lambda>s x. max 0 (min (20000 * s - 600) x)),
     clamp_v = (\<lambda>s y. max 0 (min (20000 * s - 450) y)), rescale_h = (\<lambda>s z x. x / s * z),
     rescale_v = (\<lambda>s z x. x / s * z), clamp_zoom = (\<lambda>z. max (1 / 100) (min 10 z))\<rparr>"

lemma plain_canvas_law: "canvas_law plain_canvas"
  by (simp add: canvas_law_def plain_canvas_def field_simps)

definition demo_view :: "rat \<Rightarrow> window_view" where
  "demo_view s = \<lparr>v_scale = s, v_h = 0, v_v = 0, page_h = 600, page_v = 450\<rparr>"

theorem autoscale_shows_all_witness:
  "\<forall>(x, y) \<in> set [(0, 0), (400, 300)]. left_edge plain_canvas (autoscale_view plain_canvas [(0, 0), (400, 300)] (demo_view 1)) + 100 \<le> x"
proof -
  let ?ps = "[(0, 0), (400, 300)] :: (rat \<times> rat) list"
  have e: "extent_h ?ps = 400" "extent_v ?ps = 300" by (simp_all add: extent_h_def extent_v_def)
  have "fitting_zoom (demo_view 1) ?ps = 1" by (simp add: fitting_zoom_def e demo_view_def)
  moreover have "middle_h ?ps = 200" "middle_v ?ps = 150" by (simp_all add: middle_h_def middle_v_def)
  ultimately show ?thesis
    using autoscale_shows_all [OF plain_canvas_law, of "demo_view 1" ?ps] by (simp add: e plain_canvas_def demo_view_def)
qed

lemma autoscale_from_half:
  "right_edge plain_canvas (autoscale_view plain_canvas [(0, 0), (400, 300)] (demo_view (1 / 2))) = 350"
  by (simp add: autoscale_view_def Let_def demo_view_def plain_canvas_def set_zoom_def scroll_to_def set_h_def set_v_def right_edge_def)

section \<open>Panning\<close>

text \<open>An adjustment keeps its value between its lower limit and the upper one less the page, here \<open>lo\<close> and \<open>hi\<close> at
  the scale of the panning.\<close>

definition clamps_between :: "(rat \<Rightarrow> rat) \<Rightarrow> rat \<Rightarrow> rat \<Rightarrow> bool" where
  "clamps_between f lo hi \<longleftrightarrow> lo \<le> hi \<and> (\<forall>x. f x = max lo (min hi x))"

lemma clamped_within: "clamps_between f lo hi \<Longrightarrow> lo \<le> x \<Longrightarrow> x \<le> hi \<Longrightarrow> f x = x"
  by (simp add: clamps_between_def)

text \<open>The motion handlers that are connected belong to the panning; without one there are none.\<close>

definition pan_clean :: "pan_state \<Rightarrow> bool" where
  "pan_clean s \<longleftrightarrow> motion_handlers s = (case p_panning s of None \<Rightarrow> [] | Some p \<Rightarrow> [motion_signal p])"

lemma pan_clean_step:
  assumes "pan_clean s" and "\<And>pos. e = PressAt 2 pos \<Longrightarrow> p_panning s = None"
  shows "pan_clean (fst (pan_step c e s)) \<and> snd (pan_step c e s) = Inr ()"
  using assms
  by (cases e; cases "p_panning s")
    (auto simp: pan_clean_def pan_step_def begin_panning_def end_panning_def panning_motion_def)

fun pan_steps :: "canvas_lib \<Rightarrow> pan_event list \<Rightarrow> pan_state \<Rightarrow> pan_state \<times> unit result" where
  "pan_steps c [] s = (s, Inr ())"
| "pan_steps c (e # es) s = and_then (pan_step c e s) (\<lambda>_. pan_steps c es)"

text \<open>C35: From the press of the middle button to its release, with motions of the mouse between and nothing else,
  the window follows the mouse on each axis as far as the scroll bars go: while the place it would need lies between
  the limits of the adjustment, the point of the canvas that was under the mouse at the press is under it, wherever the
  mouse was moved before, and else the adjustment is at the limit that is nearest. No motion raises, and the
  release ends the panning and leaves no handler for motions.\<close>

theorem panning_keeps_point:
  fixes moves :: "(rat \<times> rat) list" and x0 y0 x y :: rat
  assumes "canvas_law c" and "v_scale (p_view s) > 0" and "pan_clean s" and "p_panning s = None"
    and "clamps_between (clamp_h c (v_scale (p_view s))) left_limit right_limit"
    and "clamps_between (clamp_v c (v_scale (p_view s))) top_limit bottom_limit"
  defines "s' \<equiv> fst (pan_steps c (PressAt 2 (x0, y0) # map MoveTo moves @ [MoveTo (x, y)]) s)"
    and "h \<equiv> v_h (p_view s) - (x - x0)" and "v \<equiv> v_v (p_view s) - (y - y0)"
  shows "snd (pan_steps c (PressAt 2 (x0, y0) # map MoveTo moves @ [MoveTo (x, y)]) s) = Inr () \<and>
    v_scale (p_view s') = v_scale (p_view s) \<and>
    v_h (p_view s') = (if h < left_limit then left_limit else if h > right_limit then right_limit else h) \<and>
    v_v (p_view s') = (if v < top_limit then top_limit else if v > bottom_limit then bottom_limit else v) \<and>
    (left_limit \<le> h \<and> h \<le> right_limit \<longrightarrow>
       from_px_h c (v_scale (p_view s')) (v_h (p_view s') + x) = from_px_h c (v_scale (p_view s)) (v_h (p_view s) + x0)) \<and>
    (top_limit \<le> v \<and> v \<le> bottom_limit \<longrightarrow>
       from_px_v c (v_scale (p_view s')) (v_v (p_view s') + y) = from_px_v c (v_scale (p_view s)) (v_v (p_view s) + y0)) \<and>
    motion_handlers (fst (pan_step c (ReleaseOf 2) s')) = [] \<and> p_panning (fst (pan_step c (ReleaseOf 2) s')) = None"
proof -
  define t where "t = begin_panning (x0, y0) s"
  define inv where "inv u \<longleftrightarrow> p_panning u = p_panning t \<and> motion_handlers u = motion_handlers t \<and>
      v_scale (p_view u) = v_scale (p_view s)" for u :: pan_state
  let ?h = "clamp_h c (v_scale (p_view s))" and ?v = "clamp_v c (v_scale (p_view s))"
  have hand: "motion_handlers t = [next_handler s]" "p_panning t = Some \<lparr>mouse_pos = (x0, y0),
      canvas_pos = (v_h (p_view s), v_v (p_view s)), motion_signal = next_handler s\<rparr>" "v_scale (p_view t) = v_scale (p_view s)"
    using assms(3,4) by (simp_all add: t_def begin_panning_def pan_clean_def)
  have move: "pan_step c (MoveTo (mx, my)) u =
      (u\<lparr>p_view := (p_view u)\<lparr>v_h := ?h (v_h (p_view s) - (mx - x0)), v_v := ?v (v_v (p_view s) - (my - y0))\<rparr>\<rparr>, Inr ())"
    if "inv u" for u mx my
    using that hand by (simp add: inv_def pan_step_def panning_motion_def set_h_def set_v_def)
  have moves: "\<exists>u'. pan_steps c (map MoveTo ms @ es) u = pan_steps c es u' \<and> inv u'" if "inv u" for ms es u
    using that
  proof (induction ms arbitrary: u)
    case (Cons m ms)
    obtain mx my where m: "m = (mx, my)" by fastforce
    have "inv (fst (pan_step c (MoveTo m) u))" using Cons.prems by (simp add: m move [OF Cons.prems]) (simp add: inv_def)
    then show ?case using Cons.IH by (simp add: m move [OF Cons.prems])
  qed auto
  have "inv t" by (simp add: inv_def hand(3))
  then obtain u where u: "pan_steps c (map MoveTo moves @ [MoveTo (x, y)]) t = pan_steps c [MoveTo (x, y)] u" "inv u"
    using moves by blast
  have "pan_steps c (PressAt 2 (x0, y0) # map MoveTo moves @ [MoveTo (x, y)]) s =
      (u\<lparr>p_view := (p_view u)\<lparr>v_h := ?h h, v_v := ?v v\<rparr>\<rparr>, Inr ())"
    using u by (simp add: h_def v_def pan_step_def t_def [symmetric] move [OF u(2), unfolded pan_step_def, simplified])
  moreover have "?h h = (if h < left_limit then left_limit else if h > right_limit then right_limit else h)"
    "?v v = (if v < top_limit then top_limit else if v > bottom_limit then bottom_limit else v)"
    using assms(5,6) by (auto simp: clamps_between_def max_def min_def)
  ultimately show ?thesis
    using u(2) hand by (simp add: s'_def inv_def pan_step_def end_panning_def) (simp add: h_def v_def)
qed

definition demo_pan :: pan_state where
  "demo_pan = \<lparr>p_view = demo_view 2, p_panning = None, motion_handlers = [], next_handler = 0\<rparr>"

text \<open>Near the top left corner the window follows the mouse to the left and stays at the top.\<close>

theorem panning_keeps_point_witness:
  "let w = p_view (fst (pan_steps plain_canvas [PressAt 2 (100, 100), MoveTo (7, 8), MoveTo (60, 130)] demo_pan))
   in v_h w = 40 \<and> v_v w = 0 \<and> from_px_h plain_canvas 2 (v_h w + 60) = from_px_h plain_canvas 2 100"
proof -
  have p: "v_scale (p_view demo_pan) > 0" "pan_clean demo_pan" "p_panning demo_pan = None"
    "clamps_between (clamp_h plain_canvas (v_scale (p_view demo_pan))) 0 39400"
    "clamps_between (clamp_v plain_canvas (v_scale (p_view demo_pan))) 0 39550"
    by (simp_all add: clamps_between_def plain_canvas_def demo_pan_def demo_view_def pan_clean_def)
  show ?thesis
    using panning_keeps_point [OF plain_canvas_law p, where moves = "[(7, 8)]" and ?x0.0 = 100 and ?y0.0 = 100 and x = 60 and y = 130]
    by (simp add: demo_pan_def demo_view_def Let_def)
qed

text \<open>A press that comes before the release of the last one, as the second event of a double click does, leaves a
  handler behind: every later motion of the mouse raises AssertionError.\<close>

lemma second_press_leaks:
  assumes "p_panning s = None" and "motion_handlers s = []"
  shows "snd (pan_steps c [PressAt 2 p, PressAt 2 p, ReleaseOf 2, MoveTo q] s) = Inl AssertionError"
  using assms by (simp add: pan_step_def begin_panning_def end_panning_def panning_motion_def)

section \<open>The axes\<close>

text \<open>
  \<open>rint (log10 x)\<close> is the parameter \<open>rlog\<close>; powers of ten have integer exponents.
\<close>

definition pow10 :: "int \<Rightarrow> rat" where
  "pow10 k = (if k \<ge> 0 then 10 ^ nat k else 1 / 10 ^ nat (- k))"

definition compute_division :: "(rat \<Rightarrow> int) \<Rightarrow> rat \<Rightarrow> rat" where
  "compute_division rlog dx_over_ndiv =
     (let d = pow10 (rlog dx_over_ndiv)
      in if \<bar>d / 2 - dx_over_ndiv\<bar> < \<bar>d - dx_over_ndiv\<bar> then d / 2
         else if \<bar>d * 2 - dx_over_ndiv\<bar> < \<bar>d - dx_over_ndiv\<bar> then d * 2
         else d)"

text \<open>
  The five iterations, with the variables \<open>ndiv\<close>, \<open>x0\<close> and \<open>div\<close>; \<open>n\<close> counts down.
\<close>

fun divisions_loop :: "(rat \<Rightarrow> int) \<Rightarrow> rat \<Rightarrow> rat \<Rightarrow> rat \<Rightarrow> rat \<Rightarrow> nat \<Rightarrow> rat \<times> rat \<times> rat \<Rightarrow> rat \<times> rat \<times> rat" where
  "divisions_loop rlog xi dx_over_ndiv len text_width 0 st = st"
| "divisions_loop rlog xi dx_over_ndiv len text_width (Suc k) (ndiv, x0, d) =
     (let d = compute_division rlog dx_over_ndiv;
          x0 = d * of_int \<lceil>xi / d\<rceil> - d;
          ndiv = (if 4 - k > 1 then of_int \<lfloor>len / text_width + 1 / 2\<rfloor> else ndiv)
      in divisions_loop rlog xi dx_over_ndiv len text_width k (ndiv, x0, d))"

definition compute_divisions :: "(rat \<Rightarrow> int) \<Rightarrow> rat \<Rightarrow> rat \<Rightarrow> (rat \<times> rat) result" where
  "compute_divisions rlog xi xf =
     (if \<not> xf > xi then Inl AssertionError
      else Inr (snd (divisions_loop rlog xi ((xf - xi) / 5) (xf - xi) ((xf - xi) / 5 / 2) 5 (5, 0, 0))))"

text \<open>The loop over the ticks, which ends only for positive divisions.\<close>

partial_function (option) ticks :: "rat \<Rightarrow> rat \<Rightarrow> rat \<Rightarrow> rat list option" where
  "ticks x hi d =
     (if x < hi then Option.bind (ticks (x + d) hi d) (\<lambda>ts. Some (x # ts)) else Some [])"

record axis_label =
  l_id :: nat
  l_visible :: bool
  l_value :: rat
  l_pos :: "rat \<times> rat"

text \<open>\<open>get_label\<close> and the properties that are set: the first unused label, or a new one.\<close>

definition get_label :: "rat \<times> rat \<times> rat \<Rightarrow> axis_label list \<times> axis_label list \<times> nat \<Rightarrow> axis_label list \<times> axis_label list \<times> nat" where
  "get_label vxy st =
     (case (vxy, st) of ((value, pos), (labels, unused, next)) \<Rightarrow>
        (case unused of
           [] \<Rightarrow> (labels @ [\<lparr>l_id = next, l_visible = True, l_value = value, l_pos = pos\<rparr>], [], next + 1)
         | l # rest \<Rightarrow> (labels @ [l\<lparr>l_visible := True, l_value := value, l_pos := pos\<rparr>], rest, next)))"

record axes =
  x_labels :: "axis_label list"
  x_next :: nat
  x_visible :: bool
  lines_visible :: bool
  hlines :: "(rat \<times> rat \<times> rat \<times> rat) list"
  vlines :: "(rat \<times> rat \<times> rat \<times> rat) list"
  axes_line_width :: rat

definition set_axes_visible :: "bool \<Rightarrow> axes \<Rightarrow> axes" where
  "set_axes_visible b a =
     (if b then a\<lparr>x_visible := True, lines_visible := True\<rparr>
      else a\<lparr>x_visible := False, lines_visible := False, x_labels := map (l_visible_update (\<lambda>_. False)) (x_labels a)\<rparr>)"

text \<open>
  \<open>update_view\<close> of the axes while the zoom exists: hide and take the labels, draw the axis of x, then that of y, put the
  labels that are left behind the used ones. \<open>None\<close> would be a loop over the ticks that does not end; an
  exception keeps the labels used so far.
\<close>

definition hide_labels :: "axis_label list \<Rightarrow> axis_label list" where
  "hide_labels ls = map (l_visible_update (\<lambda>_. False)) ls"

definition axes_update :: "canvas_lib \<Rightarrow> (rat \<Rightarrow> int) \<Rightarrow> window_view \<Rightarrow> axes \<Rightarrow> (axes \<times> unit result) option" where
  "axes_update c rlog v a =
     (let s = v_scale v; offset = 10 / s; lw = 5 / s;
          x1 = from_px_h c s (v_h v); y1 = from_px_v c s (v_v v);
          x2 = from_px_h c s (v_h v + page_h v); y2 = from_px_v c s (v_v v + page_v v);
          yc = y2 - lw / 2; xc = x1 + lw / 2; ppm = pixels_per_meter;
          unused = hide_labels (x_labels a)
      in case compute_divisions rlog (x1 / ppm) (x2 / ppm) of
           Inl e \<Rightarrow> Some (a\<lparr>x_labels := [], axes_line_width := lw\<rparr>, Inl e)
         | Inr (x0, xdiv) \<Rightarrow>
             (case ticks x0 (x2 / ppm) xdiv of
                None \<Rightarrow> None
              | Some xs \<Rightarrow>
                  (case fold (\<lambda>x. get_label (x, ppm * x, yc - offset)) xs ([], unused, x_next a) of (ls, unused, nx) \<Rightarrow>
                     let a = a\<lparr>axes_line_width := lw, hlines := (x1, yc, x2, yc) # map (\<lambda>x. (ppm * x, yc - offset, ppm * x, yc)) xs\<rparr>
                     in case compute_divisions rlog (y1 / ppm) (y2 / ppm) of
                          Inl e \<Rightarrow> Some (a\<lparr>x_labels := ls, x_next := nx\<rparr>, Inl e)
                        | Inr (y0, ydiv) \<Rightarrow>
                            (case ticks y0 (y2 / ppm) ydiv of
                               None \<Rightarrow> None
                             | Some ys \<Rightarrow>
                                 (case fold (\<lambda>y. get_label (y, xc + offset, ppm * y)) ys (ls, unused, nx) of (ls, unused, nx) \<Rightarrow>
                                    Some (a\<lparr>x_labels := ls @ unused, x_next := nx,
                                      vlines := (xc, y1, xc, y2) # map (\<lambda>y. (xc, ppm * y, xc + offset, ppm * y)) ys\<rparr>, Inr ()))))))"

subsection \<open>The divisions\<close>

lemma pow10_pos: "pow10 k > 0"
  by (simp add: pow10_def)

text \<open>The loop computes the same five times: the new \<open>ndiv\<close> is not used.\<close>

lemma divisions_loop_const:
  "snd (divisions_loop rlog xi D len w (Suc k) st) =
     (compute_division rlog D * of_int \<lceil>xi / compute_division rlog D\<rceil> - compute_division rlog D, compute_division rlog D)"
proof (induction k arbitrary: st)
  case 0
  then show ?case by (cases st) (simp add: Let_def)
next
  case (Suc k)
  obtain n x d where st: "st = (n, x, d)" by (cases st)
  show ?case unfolding st divisions_loop.simps(2) [of rlog xi D len w "Suc k"] Let_def by (rule Suc.IH)
qed

lemma compute_divisions_once:
  "compute_divisions rlog xi xf =
     (if xf > xi
      then let d = compute_division rlog ((xf - xi) / 5) in Inr (d * of_int \<lceil>xi / d\<rceil> - d, d)
      else Inl AssertionError)"
  using divisions_loop_const [of rlog xi "(xf - xi) / 5" "xf - xi" "(xf - xi) / 5 / 2" 4 "(5, 0, 0)"]
  by (simp add: compute_divisions_def Let_def eval_nat_numeral del: divisions_loop.simps)

text \<open>\<open>rint (log10 x)\<close>: the logarithm of \<open>x\<close> is within one half below and above.\<close>

definition rlog_law :: "(rat \<Rightarrow> int) \<Rightarrow> bool" where
  "rlog_law rlog \<longleftrightarrow> (\<forall>x > 0. pow10 (rlog x) ^ 2 \<le> 10 * x ^ 2 \<and> x ^ 2 < 10 * pow10 (rlog x) ^ 2)"

lemma square_less: "x ^ 2 < y ^ 2 \<Longrightarrow> y > 0 \<Longrightarrow> x < (y :: rat)"
  by (rule power2_less_imp_less) simp_all

lemma compute_division_bounds:
  assumes "rlog_law rlog" and "D > 0"
  shows "compute_division rlog D > 0" and "3 * compute_division rlog D < 5 * D" and "5 * D < 8 * compute_division rlog D"
proof -
  define p where "p = pow10 (rlog D)"
  have p: "p > 0" by (simp add: p_def pow10_pos)
  have "p ^ 2 \<le> 10 * D ^ 2" "D ^ 2 < 10 * p ^ 2" using assms by (auto simp: rlog_law_def p_def)
  then have "(3 * p) ^ 2 < (10 * D) ^ 2" "(5 * D) ^ 2 < (16 * p) ^ 2"
    using p assms(2) by (simp_all add: power2_eq_square)
  then have low: "3 * p < 10 * D" and high: "5 * D < 16 * p"
    using square_less [of "3 * p" "10 * D"] square_less [of "5 * D" "16 * p"] p assms(2) by simp_all
  have d: "compute_division rlog D = (if \<bar>p / 2 - D\<bar> < \<bar>p - D\<bar> then p / 2 else if \<bar>p * 2 - D\<bar> < \<bar>p - D\<bar> then p * 2 else p)"
    by (simp add: compute_division_def p_def Let_def)
  show "compute_division rlog D > 0" using p by (simp add: d)
  show "3 * compute_division rlog D < 5 * D" using p low assms(2) by (auto simp: d abs_if split: if_splits)
  show "5 * D < 8 * compute_division rlog D" using p high assms(2) by (auto simp: d abs_if split: if_splits)
qed

lemma ticks_Some:
  assumes "d > 0"
  shows "ticks x hi d = Some (map (\<lambda>i. x + of_nat i * d) [0..<nat \<lceil>(hi - x) / d\<rceil>])"
proof (induction "nat \<lceil>(hi - x) / d\<rceil>" arbitrary: x)
  case 0
  then have "(hi - x) / d \<le> 0" by simp
  then have "\<not> x < hi" using assms by (simp add: divide_le_0_iff)
  then show ?case using 0 by (simp add: ticks.simps [of x])
next
  case (Suc n)
  then have "(hi - x) / d > 0" by linarith
  then have x: "x < hi" using assms by (simp add: zero_less_divide_iff)
  have "(hi - x) / d = (hi - (x + d)) / d + 1" using assms by (simp add: field_simps)
  then have n: "n = nat \<lceil>(hi - (x + d)) / d\<rceil>" using Suc.hyps(2) by simp
  have "ticks (x + d) hi d = Some (map (\<lambda>i. x + d + of_nat i * d) [0..<n])" using Suc.hyps(1) [OF n] n by simp
  moreover have "[0..<Suc n] = 0 # map Suc [0..<n]" by (simp add: map_Suc_upt upt_conv_Cons)
  ultimately show ?case
    using x Suc.hyps(2) by (simp add: ticks.simps [of x] algebra_simps del: upt_Suc)
qed

text \<open>The axis of a range has between four and nine ticks, evenly spaced at multiples of the division, the
  first one division or less before the range and the last in it; the loop over them ends.\<close>

theorem axis_ticks_bounds:
  assumes "rlog_law rlog" and "xi < xf"
  shows "\<exists>k d n. compute_divisions rlog xi xf = Inr (of_int k * d, d) \<and> 0 < d \<and> 4 \<le> n \<and> n \<le> 9 \<and>
    ticks (of_int k * d) xf d = Some (map (\<lambda>i. of_int (k + int i) * d) [0..<n]) \<and>
    of_int k * d < xi \<and> xi \<le> of_int (k + 1) * d \<and> of_int (k + int n - 1) * d < xf \<and> xf \<le> of_int (k + int n) * d"
proof -
  define d where "d = compute_division rlog ((xf - xi) / 5)"
  define k where "k = \<lceil>xi / d\<rceil> - 1"
  define n where "n = nat \<lceil>(xf - of_int k * d) / d\<rceil>"
  have "(xf - xi) / 5 > 0" using assms(2) by simp
  note b = compute_division_bounds [OF assms(1) this, folded d_def]
  have d: "d > 0" and low: "3 * d < xf - xi" and high: "xf - xi < 8 * d" using b by simp_all
  have ceil: "of_int k < xi / d" "xi / d \<le> of_int k + 1"
    using ceiling_correct [of "xi / d"] by (auto simp: k_def)
  then have k: "of_int k * d < xi" "xi \<le> of_int (k + 1) * d" using d by (simp_all add: field_simps)
  have pos: "(xf - of_int k * d) / d > 3" "(xf - of_int k * d) / d < 9"
    using k low high d by (simp_all add: field_simps)
  then have n: "int n = \<lceil>(xf - of_int k * d) / d\<rceil>" by (simp add: n_def)
  have n_bounds: "4 \<le> n" "n \<le> 9" using pos n by linarith+
  have "of_int (int n) - 1 < (xf - of_int k * d) / d" "(xf - of_int k * d) / d \<le> of_int (int n)"
    unfolding n using ceiling_correct [of "(xf - of_int k * d) / d"] by auto
  then have ends: "of_int (k + int n - 1) * d < xf" "xf \<le> of_int (k + int n) * d" using d by (simp_all add: field_simps)
  have "ticks (of_int k * d) xf d = Some (map (\<lambda>i. of_int k * d + of_nat i * d) [0..<n])"
    unfolding n_def by (rule ticks_Some [OF d])
  then have "ticks (of_int k * d) xf d = Some (map (\<lambda>i. of_int (k + int i) * d) [0..<n])"
    by (simp add: algebra_simps)
  moreover have "compute_divisions rlog xi xf = Inr (of_int k * d, d)"
    using assms(2) by (simp add: compute_divisions_once Let_def d_def [symmetric] k_def algebra_simps)
  ultimately show ?thesis using d n_bounds k ends by blast
qed

text \<open>The logarithm of the reals gives such a function.\<close>

definition round_log :: "rat \<Rightarrow> int" where
  "round_log x = \<lfloor>log 10 (real_of_rat x) + 1 / 2\<rfloor>"

lemma of_rat_pow10: "real_of_rat (pow10 k) = 10 powr (real_of_int k)"
proof (cases "k \<ge> 0")
  case True
  then show ?thesis by (simp add: pow10_def of_rat_power powr_realpow [symmetric])
next
  case False
  then have "10 ^ nat (- k) = 10 powr (- real_of_int k)" using powr_realpow [of 10 "nat (- k)"] by simp
  then show ?thesis using False by (simp add: pow10_def of_rat_power of_rat_divide powr_minus inverse_eq_divide)
qed

lemma round_log_law: "rlog_law round_log"
  unfolding rlog_law_def
proof (intro allI impI)
  fix x :: rat
  assume "x > 0"
  then have x: "real_of_rat x > 0" by simp
  let ?k = "real_of_int (round_log x)" and ?l = "log 10 (real_of_rat x)"
  have "?k \<le> ?l + 1 / 2" "?l + 1 / 2 < ?k + 1" by (simp_all add: round_log_def)
  then have k: "10 powr (2 * ?k) \<le> 10 powr (1 + 2 * ?l)" "10 powr (2 * ?l) < 10 powr (1 + 2 * ?k)" by simp_all
  have square: "10 powr (2 * y) = (10 powr y) ^ 2" for y :: real
    by (simp add: power2_eq_square powr_add [symmetric])
  have "10 powr ?l = real_of_rat x" using x by simp
  then have "(real_of_rat (pow10 (round_log x))) ^ 2 \<le> 10 * (real_of_rat x) ^ 2"
    "(real_of_rat x) ^ 2 < 10 * (real_of_rat (pow10 (round_log x))) ^ 2"
    using k by (simp_all add: powr_add square of_rat_pow10)
  then have "real_of_rat (pow10 (round_log x) ^ 2) \<le> real_of_rat (10 * x ^ 2)"
    "real_of_rat (x ^ 2) < real_of_rat (10 * pow10 (round_log x) ^ 2)"
    by (simp_all add: of_rat_power of_rat_mult)
  then show "pow10 (round_log x) ^ 2 \<le> 10 * x ^ 2 \<and> x ^ 2 < 10 * pow10 (round_log x) ^ 2"
    by (simp only: of_rat_less_eq of_rat_less)
qed

theorem axis_ticks_bounds_witness:
  "\<exists>d n. compute_divisions round_log 0 100 = Inr (- d, d) \<and> 4 \<le> n \<and> n \<le> 9 \<and>
     ticks (- d) 100 d = Some (map (\<lambda>i. (of_nat i - 1) * d) [0..<n])"
proof -
  obtain k d n where a: "compute_divisions round_log 0 100 = Inr (of_int k * d, d)" "0 < d" "4 \<le> n" "n \<le> 9"
    "ticks (of_int k * d) 100 d = Some (map (\<lambda>i. of_int (k + int i) * d) [0..<n])"
    "of_int k * d < 0" "0 \<le> of_int (k + 1) * d"
    using axis_ticks_bounds [OF round_log_law, of 0 100] by auto
  have "k < 0" using a(2,6) by (simp add: mult_less_0_iff)
  moreover have "k + 1 \<ge> 0" using a(2,7) by (simp add: zero_le_mult_iff flip: of_int_add)
  ultimately have "k = - 1" by simp
  then show ?thesis using a by (intro exI [of _ d] exI [of _ n]) (simp add: algebra_simps)
qed

subsection \<open>The labels\<close>

lemma get_labels:
  "fold (\<lambda>x. get_label x) items (ls, un, nx) =
     (ls @ map2 (\<lambda>i (v, p). \<lparr>l_id = i, l_visible = True, l_value = v, l_pos = p\<rparr>)
        (map l_id un @ [nx..<nx + (length items - length un)]) items,
      drop (length items) un, nx + (length items - length un))"
proof (induction items arbitrary: ls un nx)
  case (Cons vp items)
  obtain v p where vp: "vp = (v, p)" by (cases vp)
  show ?case
  proof (cases un)
    case Nil
    have "[nx..<nx + Suc (length items)] = nx # [Suc nx..<Suc nx + length items]" by (subst upt_conv_Cons) simp_all
    then show ?thesis using Cons.IH [of _ "[]" "nx + 1"] by (simp add: vp Nil get_label_def del: upt_Suc)
  next
    case un: (Cons l un')
    then show ?thesis using Cons.IH [of _ un' nx] by (simp add: vp get_label_def)
  qed
qed simp

text \<open>The labels of the axes have different numbers below the next one.\<close>

definition labels_ok :: "axes \<Rightarrow> bool" where
  "labels_ok a \<longleftrightarrow> distinct (map l_id (x_labels a)) \<and> (\<forall>l \<in> set (x_labels a). l_id l < x_next a)"

lemma two_axes_of_labels:
  assumes "distinct (map l_id ls)" and "\<forall>l \<in> set ls. l_id l < nx"
    and "fold get_label xs ([], hide_labels ls, nx) = (l1, u1, n1)" and "fold get_label ys (l1, u1, n1) = (l2, u2, n2)"
  shows "distinct (map l_id (l2 @ u2)) \<and> (\<forall>l \<in> set (l2 @ u2). l_id l < n2) \<and> set (map l_id ls) \<subseteq> set (map l_id (l2 @ u2)) \<and>
    filter l_visible (l2 @ u2) = l2 \<and> map (\<lambda>l. (l_value l, l_pos l)) l2 = xs @ ys \<and>
    length (l2 @ u2) = max (length ls) (length xs + length ys)"
proof -
  let ?items = "xs @ ys" and ?un = "hide_labels ls"
  let ?ids = "map l_id ?un @ [nx..<nx + (length ?items - length ?un)]"
  let ?mk = "\<lambda>i (v, p). \<lparr>l_id = i, l_visible = True, l_value = v, l_pos = p\<rparr>"
  have "fold get_label ?items ([], ?un, nx) = (l2, u2, n2)" using assms(3,4) by simp
  then have l2: "l2 = map2 ?mk ?ids ?items" and u2: "u2 = drop (length ?items) ?un"
    and n2: "n2 = nx + (length ?items - length ?un)"
    using get_labels [of ?items "[]" ?un nx] by simp_all
  have un: "map l_id ?un = map l_id ls" "length ?un = length ls" "\<forall>l \<in> set ?un. \<not> l_visible l"
    by (auto simp: hide_labels_def)
  have len: "length ?items \<le> length ?ids" using un(2) by simp
  have mk: "map l_id (map2 ?mk is its) = take (length its) is" "map (\<lambda>l. (l_value l, l_pos l)) (map2 ?mk is its) = take (length is) its"
    "\<forall>l \<in> set (map2 ?mk is its). l_visible l" for "is" and its :: "(rat \<times> rat \<times> rat) list"
    by (induction "is" its rule: list_induct2') auto
  have l2_ids: "map l_id l2 = take (length ?items) ?ids" unfolding l2 by (rule mk(1))
  have l2_values: "map (\<lambda>l. (l_value l, l_pos l)) l2 = take (length ?ids) ?items" unfolding l2 by (rule mk(2))
  have u2_ids: "map l_id u2 = drop (length ?items) (map l_id ?un)" unfolding u2 by (rule drop_map [symmetric])
  have ids: "map l_id (l2 @ u2) = ?ids" unfolding map_append l2_ids u2_ids by (cases "length ?items \<le> length ?un") simp_all
  have "distinct ?ids" using assms(1,2) un(1) by auto
  moreover have "\<forall>i \<in> set ?ids. i < n2" using assms(2) by (auto simp: n2 un(1))
  moreover have "filter l_visible l2 = l2" "filter l_visible u2 = []"
    using mk(3) un(3) by (auto simp: l2 u2 filter_id_conv filter_empty_conv dest: in_set_dropD)
  moreover have "map (\<lambda>l. (l_value l, l_pos l)) l2 = ?items" unfolding l2_values using len by simp
  moreover have "length (l2 @ u2) = max (length ls) (length xs + length ys)"
    using arg_cong [OF ids, of length] un(2) by simp
  moreover have "(\<forall>l \<in> set (l2 @ u2). l_id l < n2) \<longleftrightarrow> (\<forall>i \<in> set (map l_id (l2 @ u2)). i < n2)" by auto
  ultimately show ?thesis unfolding ids by (auto simp: un(1))
qed

text \<open>The ranges of the axes in the window, in meters.\<close>

definition axis_ticks :: "(rat \<Rightarrow> int) \<Rightarrow> rat \<Rightarrow> rat \<Rightarrow> rat list" where
  "axis_ticks rlog xi xf =
     (let d = compute_division rlog ((xf - xi) / 5); x0 = d * of_int \<lceil>xi / d\<rceil> - d
      in map (\<lambda>i. x0 + of_nat i * d) [0..<nat \<lceil>(xf - x0) / d\<rceil>])"

lemma axis_ticks_computed:
  assumes "rlog_law rlog" and "xi < xf"
  shows "\<exists>x0 d. compute_divisions rlog xi xf = Inr (x0, d) \<and> ticks x0 xf d = Some (axis_ticks rlog xi xf)"
proof -
  have "(xf - xi) / 5 > 0" using assms(2) by simp
  then have "compute_division rlog ((xf - xi) / 5) > 0" by (rule compute_division_bounds(1) [OF assms(1)])
  then show ?thesis using assms(2) by (simp add: compute_divisions_once axis_ticks_def Let_def ticks_Some)
qed

text \<open>C36: The update of the axes shows exactly one label per tick, those of x and then those of y: a tick of the x
  axis (in meters, three units of the canvas each) has its label at its place above the lower edge of the window, one of the y
  axis at its place right of the left edge, each beside its tick's line; no label is lost or shared, and new ones are made only
  when there are too few.\<close>

theorem axes_labels_correct:
  assumes "canvas_law c" and "rlog_law rlog" and "v_scale v > 0" and "page_h v > 0" and "page_v v > 0" and "labels_ok a"
  shows "\<exists>a'. axes_update c rlog v a = Some (a', Inr ()) \<and> labels_ok a' \<and>
    set (map l_id (x_labels a)) \<subseteq> set (map l_id (x_labels a')) \<and>
    map (\<lambda>l. (l_value l, l_pos l)) (filter l_visible (x_labels a')) =
      map (\<lambda>x. (x, 3 * x, bottom_edge c v - 25 / 2 / v_scale v)) (axis_ticks rlog (left_edge c v / 3) (right_edge c v / 3)) @
      map (\<lambda>y. (y, left_edge c v + 25 / 2 / v_scale v, 3 * y)) (axis_ticks rlog (top_edge c v / 3) (bottom_edge c v / 3)) \<and>
    hlines a' = (left_edge c v, bottom_edge c v - 5 / 2 / v_scale v, right_edge c v, bottom_edge c v - 5 / 2 / v_scale v) #
      map (\<lambda>x. (3 * x, bottom_edge c v - 25 / 2 / v_scale v, 3 * x, bottom_edge c v - 5 / 2 / v_scale v))
        (axis_ticks rlog (left_edge c v / 3) (right_edge c v / 3)) \<and>
    vlines a' = (left_edge c v + 5 / 2 / v_scale v, top_edge c v, left_edge c v + 5 / 2 / v_scale v, bottom_edge c v) #
      map (\<lambda>y. (left_edge c v + 5 / 2 / v_scale v, 3 * y, left_edge c v + 25 / 2 / v_scale v, 3 * y))
        (axis_ticks rlog (top_edge c v / 3) (bottom_edge c v / 3)) \<and>
    length (x_labels a') = max (length (x_labels a))
      (length (axis_ticks rlog (left_edge c v / 3) (right_edge c v / 3)) +
       length (axis_ticks rlog (top_edge c v / 3) (bottom_edge c v / 3)))"
proof -
  have edges: "left_edge c v < right_edge c v" "top_edge c v < bottom_edge c v"
    using canvas_px(5,6) [OF assms(1,3), of "v_h v + page_h v" "v_h v"] canvas_px(5,6) [OF assms(1,3), of "v_v v + page_v v" "v_v v"]
      assms(3-5) by (simp_all add: left_edge_def right_edge_def top_edge_def bottom_edge_def algebra_simps)
  let ?xs = "axis_ticks rlog (left_edge c v / 3) (right_edge c v / 3)" and ?ys = "axis_ticks rlog (top_edge c v / 3) (bottom_edge c v / 3)"
  obtain x0 xd where x: "compute_divisions rlog (left_edge c v / 3) (right_edge c v / 3) = Inr (x0, xd)"
    "ticks x0 (right_edge c v / 3) xd = Some ?xs"
    using axis_ticks_computed [OF assms(2), of "left_edge c v / 3" "right_edge c v / 3"] edges by auto
  obtain y0 yd where y: "compute_divisions rlog (top_edge c v / 3) (bottom_edge c v / 3) = Inr (y0, yd)"
    "ticks y0 (bottom_edge c v / 3) yd = Some ?ys"
    using axis_ticks_computed [OF assms(2), of "top_edge c v / 3" "bottom_edge c v / 3"] edges by auto
  define xp where "xp = map (\<lambda>x. (x, 3 * x, bottom_edge c v - 5 / v_scale v / 2 - 10 / v_scale v)) ?xs"
  define yp where "yp = map (\<lambda>y. (y, left_edge c v + 5 / v_scale v / 2 + 10 / v_scale v, 3 * y)) ?ys"
  obtain l1 u1 n1 where f1: "fold get_label xp ([], hide_labels (x_labels a), x_next a) = (l1, u1, n1)" by (metis surj_pair)
  obtain l2 u2 n2 where f2: "fold get_label yp (l1, u1, n1) = (l2, u2, n2)" by (metis surj_pair)
  have f1': "fold (\<lambda>x. get_label (x, 3 * x, bottom_edge c v - 5 / v_scale v / 2 - 10 / v_scale v)) ?xs
      ([], hide_labels (x_labels a), x_next a) = (l1, u1, n1)"
    using f1 by (simp add: xp_def fold_map comp_def)
  have f2': "fold (\<lambda>y. get_label (y, left_edge c v + 5 / v_scale v / 2 + 10 / v_scale v, 3 * y)) ?ys (l1, u1, n1) = (l2, u2, n2)"
    using f2 by (simp add: yp_def fold_map comp_def)
  note spec = two_axes_of_labels [OF _ _ f1 f2]
  have ok: "distinct (map l_id (x_labels a))" "\<forall>l \<in> set (x_labels a). l_id l < x_next a" using assms(6) by (simp_all add: labels_ok_def)
  obtain a' where "axes_update c rlog v a = Some (a', Inr ())" "x_labels a' = l2 @ u2" "x_next a' = n2"
    "hlines a' = (left_edge c v, bottom_edge c v - 5 / v_scale v / 2, right_edge c v, bottom_edge c v - 5 / v_scale v / 2) #
      map (\<lambda>x. (3 * x, bottom_edge c v - 5 / v_scale v / 2 - 10 / v_scale v, 3 * x, bottom_edge c v - 5 / v_scale v / 2)) ?xs"
    "vlines a' = (left_edge c v + 5 / v_scale v / 2, top_edge c v, left_edge c v + 5 / v_scale v / 2, bottom_edge c v) #
      map (\<lambda>y. (left_edge c v + 5 / v_scale v / 2, 3 * y, left_edge c v + 5 / v_scale v / 2 + 10 / v_scale v, 3 * y)) ?ys"
    using x y f1' f2'
    by (simp add: axes_update_def Let_def pixels_per_meter_def left_edge_def right_edge_def top_edge_def bottom_edge_def)
  moreover have "5 / v_scale v / 2 + 10 / v_scale v = 25 / 2 / v_scale v" by simp
  ultimately show ?thesis using spec [OF ok] by (simp add: labels_ok_def xp_def yp_def) blast
qed

definition demo_axes :: axes where
  "demo_axes = \<lparr>x_labels = [], x_next = 0, x_visible = True, lines_visible = True, hlines = [], vlines = [], axes_line_width = 0\<rparr>"

theorem axes_labels_correct_witness:
  "\<exists>a'. axes_update plain_canvas round_log (demo_view 1) demo_axes = Some (a', Inr ()) \<and> labels_ok a' \<and>
     map (\<lambda>l. (l_value l, l_pos l)) (filter l_visible (x_labels a')) =
       map (\<lambda>x. (x, 3 * x, - 19125 / 2)) (axis_ticks round_log (- 10000 / 3) (- 9400 / 3)) @
       map (\<lambda>y. (y, - 19975 / 2, 3 * y)) (axis_ticks round_log (- 10000 / 3) (- 9550 / 3))"
  using axes_labels_correct [OF plain_canvas_law round_log_law, of "demo_view 1" demo_axes]
  by (auto simp: labels_ok_def demo_axes_def demo_view_def plain_canvas_def left_edge_def right_edge_def top_edge_def bottom_edge_def)

text \<open>Showing the axes again shows their lines only; the labels stay hidden until the next update.\<close>

lemma shown_axes_without_labels:
  "lines_visible (set_axes_visible True (set_axes_visible False a)) \<and>
   filter l_visible (x_labels (set_axes_visible True (set_axes_visible False a))) = []"
  by (simp add: set_axes_visible_def filter_empty_conv)

end
