(* ===== verification/ShLex.thy ===== *)
theory ShLex
  imports ShellCmd
begin

text \<open>
  The words of a command line: \<open>shlex.split\<close>, with which \<open>Pipeline.parse\<close> of
  \<open>src/waf-tools/shellcmd.py\<close> cuts a string into tokens, as the state machine of the Python
  library in its POSIX mode, and \<open>shell_quote\<close> of \<open>src/waf-tools/clang_compilation_database.py\<close>
  (\<open>shlex.quote\<close>). Cutting the quoted words gives the words back, so that a pipeline can be printed
  to one string and parsed again.
\<close>

section \<open>Cutting\<close>

text \<open>Between words, in a word, in quotes, and after a backslash (in quotes or not).\<close>

datatype lex_state = Blank | InWord | Quoted char | Escaped "char option"

definition sh_space :: "char \<Rightarrow> bool" where
  "sh_space c \<longleftrightarrow> of_char c \<in> {9::nat, 10, 13, 32}"

definition sh_quote :: "char \<Rightarrow> bool" where
  "sh_quote c \<longleftrightarrow> c = CHR 0x27 \<or> c = CHR 0x22"

fun lex :: "lex_state \<Rightarrow> string \<Rightarrow> string \<Rightarrow> string list result" where
  "lex Blank t [] = Inr []"
| "lex InWord t [] = Inr [t]"
| "lex (Quoted q) t [] = Inl ValueError"
| "lex (Escaped q) t [] = Inl ValueError"
| "lex Blank t (c # s) =
     (if sh_space c then lex Blank [] s
      else if c = CHR 0x5C then lex (Escaped None) [] s
      else if sh_quote c then lex (Quoted c) [] s
      else lex InWord [c] s)"
| "lex InWord t (c # s) =
     (if sh_space c then rbind (lex Blank [] s) (\<lambda>ts. Inr (t # ts))
      else if sh_quote c then lex (Quoted c) t s
      else if c = CHR 0x5C then lex (Escaped None) t s
      else lex InWord (t @ [c]) s)"
| "lex (Quoted q) t (c # s) =
     (if c = q then lex InWord t s
      else if c = CHR 0x5C \<and> q = CHR 0x22 then lex (Escaped (Some q)) t s
      else lex (Quoted q) (t @ [c]) s)"
| "lex (Escaped None) t (c # s) = lex InWord (t @ [c]) s"
| "lex (Escaped (Some q)) t (c # s) =
     lex (Quoted q) (t @ (if c \<noteq> CHR 0x5C \<and> c \<noteq> q then [CHR 0x5C] else []) @ [c]) s"

definition split_words :: "string \<Rightarrow> string list result" where
  "split_words s = lex Blank [] s"

text \<open>\<open>Pipeline.parse\<close> of a string.\<close>

definition parse_string :: "string \<Rightarrow> ShellCmd.node list result" where
  "parse_string command = rbind (split_words command) parse"

section \<open>Quoting\<close>

definition quote_safe :: "char \<Rightarrow> bool" where
  "quote_safe c \<longleftrightarrow> name_char c \<or> c \<in> set ''@%+=:,./-''"

definition quote_char :: "char \<Rightarrow> string" where
  "quote_char c =
     (if c = CHR 0x27 then [CHR 0x27, CHR 0x22, CHR 0x27, CHR 0x22, CHR 0x27] else [c])"

definition shell_quote :: "string \<Rightarrow> string" where
  "shell_quote s =
     (if s = [] then [CHR 0x27, CHR 0x27]
      else if list_all quote_safe s then s
      else CHR 0x27 # concat (map quote_char s) @ [CHR 0x27])"

lemma quote_safe_plain: "quote_safe c \<Longrightarrow> \<not> sh_space c \<and> \<not> sh_quote c \<and> c \<noteq> CHR 0x5C"
  by (auto simp: quote_safe_def name_char_def sh_space_def sh_quote_def Let_def)

lemma lex_safe: "list_all quote_safe p \<Longrightarrow> lex InWord t (p @ s) = lex InWord (t @ p) s"
  by (induction p arbitrary: t) (simp_all add: quote_safe_plain)

lemma lex_single_quoted:
  "lex (Quoted (CHR 0x27)) t (concat (map quote_char p) @ CHR 0x27 # s) = lex InWord (t @ p) s"
  by (induction p arbitrary: t) (simp_all add: quote_char_def sh_quote_def sh_space_def)

lemma lex_quote: "lex Blank u (shell_quote t @ s) = lex InWord t s"
proof (cases "t = [] \<or> \<not> list_all quote_safe t")
  case True
  then show ?thesis
    using lex_single_quoted [of "[]" t s]
    by (auto simp: shell_quote_def sh_quote_def sh_space_def)
next
  case False
  then obtain c p where t: "t = c # p" and safe: "quote_safe c" "list_all quote_safe p"
    by (cases t) auto
  then have "shell_quote t = c # p" by (simp add: shell_quote_def)
  then show ?thesis
    using quote_safe_plain [OF safe(1)] lex_safe [OF safe(2), of "[c]" s] by (simp add: t)
qed

text \<open>Cutting the quoted words of a line gives the words.\<close>

theorem split_quote: "split_words (join '' '' (map shell_quote ts)) = Inr ts"
proof (induction ts)
  case (Cons t ts)
  show ?case
  proof (cases "ts = []")
    case True
    then show ?thesis using lex_quote [of "[]" t "[]"] by (simp add: split_words_def)
  next
    case False
    then show ?thesis
      using lex_quote [of "[]" t "'' '' @ join '' '' (map shell_quote ts)"] Cons.IH
      by (simp add: split_words_def join_Cons sh_space_def)
  qed
qed (simp add: split_words_def)

text \<open>
  A parsed line, printed as one string with its words quoted, is read back unchanged.
\<close>

theorem parse_string_roundtrip:
  "parse_string (join '' '' (map shell_quote (unparse nodes))) = Inr nodes \<longleftrightarrow>
   line_ok nodes \<and> list_all printable nodes"
  using parse_unparse parse_printable parse_line_ok by (auto simp: parse_string_def split_quote)

end
