(* ===== verification/WafCommand.thy ===== *)
theory WafCommand
  imports ShLex
begin

text \<open>
  The task class \<open>command\<close> of \<open>src/waf-tools/command.py\<close>: \<open>_subst_arg\<close>, which replaces \<open>$$\<close> and
  \<open>${...}\<close> in an argument, and \<open>run\<close>, which parses the command of the generator, substitutes in
  every part of it and runs it with the small shell of \<open>ShellCmd\<close>; \<open>__str__\<close> and \<open>apply_command\<close>.
  Evaluating the Python expression between the braces is an argument of the definitions; a node of
  the build tree is given by the paths its methods return. Arguments are ASCII.
\<close>

section \<open>Substitution\<close>

text \<open>A list of calls that can raise.\<close>

fun rmap :: "('a \<Rightarrow> 'e + 'b) \<Rightarrow> 'a list \<Rightarrow> 'e + 'b list" where
  "rmap f [] = Inr []"
| "rmap f (x # xs) = rbind (f x) (\<lambda>y. rbind (rmap f xs) (\<lambda>ys. Inr (y # ys)))"

lemma rmap_Inr_iff: "rmap f xs = Inr ys \<longleftrightarrow> list_all2 (\<lambda>x y. f x = Inr y) xs ys"
  by (induction xs arbitrary: ys) (auto simp: rbind_Inr_iff list_all2_Cons1)

record file_node =
  srcpath :: string
  abspath_in_build :: string
  bldpath :: string

text \<open>
  What an expression evaluates to: a node, the very list of the inputs or of the outputs of the
  task, another list, a string, \<open>None\<close>, or something else.
\<close>

datatype py_value =
    NodeValue file_node | InputsList | OutputsList | ListValue "py_value list"
  | StrValue string | NoneValue | OtherValue

record command_task =
  inputs :: "file_node list"
  outputs :: "file_node list"

text \<open>\<open>arg_rx\<close>: a text is cut into two dollar signs, \<open>${var code}\<close>, and other characters.\<close>

datatype piece = Dollar | Subst string string | Plain char

definition match_braces :: "string \<Rightarrow> (string \<times> string \<times> string) option" where
  "match_braces s =
     (let var = takeWhile name_char s;
          more = dropWhile name_char s;
          code = takeWhile (\<lambda>c. c \<noteq> CHR ''}'' \<and> c \<noteq> CHR 0x0A) more
      in case drop (length code) more of
           c # rest \<Rightarrow> if c = CHR ''}'' \<and> var \<noteq> [] then Some (var, code, rest) else None
         | [] \<Rightarrow> None)"

lemma match_braces_shorter: "match_braces s = Some (var, code, rest) \<Longrightarrow> length rest < length s"
proof -
  assume "match_braces s = Some (var, code, rest)"
  then obtain c n where "drop n (dropWhile name_char s) = c # rest"
    by (auto simp: match_braces_def Let_def split: list.splits if_splits)
  then have "length (c # rest) \<le> length (dropWhile name_char s)"
    by (metis length_drop diff_le_self)
  then show ?thesis using length_dropWhile_le [of name_char s] by simp
qed

function pieces :: "string \<Rightarrow> piece list" where
  "pieces s =
     (case s of
        [] \<Rightarrow> []
      | c # t \<Rightarrow>
          if c = CHR ''$'' then
            (case t of
               [] \<Rightarrow> [Plain c]
             | d # u \<Rightarrow>
                 if d = CHR ''$'' then Dollar # pieces u
                 else if d = CHR ''{'' then
                   (case match_braces u of
                      Some (var, code, rest) \<Rightarrow> Subst var code # pieces rest
                    | None \<Rightarrow> Plain c # pieces t)
                 else Plain c # pieces t)
          else Plain c # pieces t)"
  by pat_completeness auto
termination
  by (relation "measure length") (auto dest: match_braces_shorter)

declare pieces.simps [simp del]

text \<open>The value of \<open>${var code}\<close>, as \<open>repl\<close> returns it.\<close>

definition subst_value :: "command_task \<Rightarrow> string \<Rightarrow> py_value \<Rightarrow> py_value result" where
  "subst_value task var v =
     (case v of
        NodeValue n \<Rightarrow>
          if var = ''TGT'' then Inr (StrValue (abspath_in_build n))
          else if var = ''SRC'' then Inr (StrValue (srcpath n))
          else Inl ValueError
      | InputsList \<Rightarrow>
          (case inputs task of [n] \<Rightarrow> Inr (StrValue (srcpath n)) | _ \<Rightarrow> Inl ValueError)
      | OutputsList \<Rightarrow>
          (case outputs task of [n] \<Rightarrow> Inr (StrValue (abspath_in_build n)) | _ \<Rightarrow> Inl ValueError)
      | ListValue vs \<Rightarrow> (case vs of [x] \<Rightarrow> Inr x | _ \<Rightarrow> Inl AssertionError)
      | _ \<Rightarrow> Inr v)"

definition repl :: "command_task \<Rightarrow> (string \<Rightarrow> py_value result) \<Rightarrow> piece \<Rightarrow> py_value result" where
  "repl task evaluate p =
     (case p of
        Dollar \<Rightarrow> Inr (StrValue ''$'')
      | Subst var code \<Rightarrow> rbind (evaluate (var @ code)) (subst_value task var)
      | Plain c \<Rightarrow> Inr (StrValue [c]))"

text \<open>\<open>re.sub\<close> drops \<open>None\<close> and joins the rest at the end, which fails for other values.\<close>

definition joined_value :: "py_value \<Rightarrow> string result" where
  "joined_value v = (case v of StrValue s \<Rightarrow> Inr s | NoneValue \<Rightarrow> Inr [] | _ \<Rightarrow> Inl TypeError)"

definition subst_arg :: "command_task \<Rightarrow> (string \<Rightarrow> py_value result) \<Rightarrow> string \<Rightarrow> string result" where
  "subst_arg task evaluate arg =
     rbind (rmap (repl task evaluate) (pieces arg)) (\<lambda>vs.
     rbind (rmap joined_value vs) (\<lambda>ss. Inr (concat ss)))"

section \<open>Running a command\<close>

definition subst_opt :: "(string \<Rightarrow> string result) \<Rightarrow> string option \<Rightarrow> string option result" where
  "subst_opt f v = (case v of None \<Rightarrow> Inr None | Some s \<Rightarrow> rbind (f s) (\<lambda>s'. Inr (Some s')))"

definition subst_redirect :: "(string \<Rightarrow> string result) \<Rightarrow> redirect option \<Rightarrow> redirect option result" where
  "subst_redirect f v =
     (case v of Some (Filename s) \<Rightarrow> rbind (f s) (\<lambda>s'. Inr (Some (Filename s'))) | _ \<Rightarrow> Inr v)"

definition subst_env :: "(string \<Rightarrow> string result) \<Rightarrow> (string, string) pydict \<Rightarrow> (string, string) pydict result" where
  "subst_env f = rmap (\<lambda>(name, v). rbind (f v) (\<lambda>v'. Inr (name, v')))"

definition subst_command :: "(string \<Rightarrow> string result) \<Rightarrow> ShellCmd.command \<Rightarrow> ShellCmd.command result" where
  "subst_command f c =
     rbind (subst_opt f (cmd_stdin c)) (\<lambda>sin.
     rbind (subst_redirect f (cmd_stdout c)) (\<lambda>sout.
     rbind (subst_redirect f (cmd_stderr c)) (\<lambda>serr.
     rbind (rmap f (cmd_argv c)) (\<lambda>argv.
     rbind (subst_env f (cmd_env c)) (\<lambda>env.
     Inr (c\<lparr>cmd_stdin := sin, cmd_stdout := sout, cmd_stderr := serr, cmd_argv := argv,
            cmd_env := env\<rparr>))))))"

text \<open>A \<open>cd\<close> without a directory: \<open>arg_rx.sub(repl, None)\<close> raises.\<close>

definition subst_node :: "(string \<Rightarrow> string result) \<Rightarrow> ShellCmd.node \<Rightarrow> ShellCmd.node result" where
  "subst_node f n =
     (case n of
        Command c \<Rightarrow> rbind (subst_command f c) (\<lambda>c'. Inr (Command c'))
      | Chdir None \<Rightarrow> Inl TypeError
      | Chdir (Some d) \<Rightarrow> rbind (f d) (\<lambda>d'. Inr (Chdir (Some d')))
      | _ \<Rightarrow> Inr n)"

text \<open>
  The names an expression can use: the variables of the environment, over them those of the
  generator, over them \<open>SRC\<close> and \<open>TGT\<close> (and \<open>env\<close>, which has a value of another kind).
\<close>

definition namespace_of ::
    "(string, py_value) pydict \<Rightarrow> (string, py_value) pydict option \<Rightarrow> (string, py_value) pydict" where
  "namespace_of merged variables =
     (let ns = (case variables of None \<Rightarrow> merged
                | Some vs \<Rightarrow> fold (\<lambda>(name, v). dict_put name v) vs merged)
      in dict_put ''TGT'' OutputsList (dict_put ''SRC'' InputsList (dict_put ''env'' OtherValue ns)))"

definition run_command ::
    "command_task \<Rightarrow> ((string, py_value) pydict \<Rightarrow> string \<Rightarrow> py_value result) \<Rightarrow>
     (string, py_value) pydict \<Rightarrow> (string, py_value) pydict option \<Rightarrow> shell_os \<Rightarrow> int \<Rightarrow> string \<Rightarrow>
     (int option \<times> runner) result" where
  "run_command task evaluate merged variables os verbosity command =
     rbind (parse_string command) (\<lambda>pipeline.
     rbind (rmap (subst_node (subst_arg task (evaluate (namespace_of merged variables)))) pipeline)
       (ShellCmd.run os (verbosity > 0)))"

text \<open>\<open>__str__\<close>: what is shown to the user.\<close>

definition command_str :: "command_task \<Rightarrow> string \<Rightarrow> string result" where
  "command_str task command =
     rbind (parse_string command) (\<lambda>pipeline.
     Inr (''command ('' @ get_abbreviated_command pipeline @ ''): '' @
       join '' '' (map bldpath (inputs task)) @ (if outputs task \<noteq> [] then '' -> '' else []) @
       join '' '' (map bldpath (outputs task))))"

text \<open>\<open>apply_command\<close>: the task of a generator.\<close>

definition apply_command :: "(string \<Rightarrow> file_node) \<Rightarrow> file_node list \<Rightarrow> string list \<Rightarrow> command_task" where
  "apply_command find_or_declare source target =
     \<lparr>inputs = source, outputs = map find_or_declare target\<rparr>"

section \<open>What a substitution gives\<close>

text \<open>
  A template is a list of texts and references; in the printed template the dollar signs of a text
  are doubled.
\<close>

datatype segment = Text string | Ref string string

definition escape_char :: "char \<Rightarrow> string" where
  "escape_char c = (if c = CHR ''$'' then [c, c] else [c])"

fun render_segment :: "segment \<Rightarrow> string" where
  "render_segment (Text s) = concat (map escape_char s)"
| "render_segment (Ref var code) = ''${'' @ var @ code @ ''}''"

fun segment_ok :: "segment \<Rightarrow> bool" where
  "segment_ok (Text s) \<longleftrightarrow> True"
| "segment_ok (Ref var code) \<longleftrightarrow>
     var \<noteq> [] \<and> list_all name_char var \<and> list_all (\<lambda>c. c \<noteq> CHR ''}'' \<and> c \<noteq> CHR 0x0A) code \<and>
     (code \<noteq> [] \<longrightarrow> \<not> name_char (hd code))"

fun segment_value :: "command_task \<Rightarrow> (string \<Rightarrow> py_value result) \<Rightarrow> segment \<Rightarrow> string result" where
  "segment_value task evaluate (Text s) = Inr s"
| "segment_value task evaluate (Ref var code) =
     rbind (rbind (evaluate (var @ code)) (subst_value task var)) joined_value"

fun segment_pieces :: "segment \<Rightarrow> piece list" where
  "segment_pieces (Text s) = map (\<lambda>c. if c = CHR ''$'' then Dollar else Plain c) s"
| "segment_pieces (Ref var code) = [Subst var code]"

lemma pieces_text: "pieces (concat (map escape_char s) @ t) = segment_pieces (Text s) @ pieces t"
  by (induction s) (auto simp: escape_char_def pieces.simps)

lemma span_at:
  assumes "list_all P xs" and "ys \<noteq> [] \<longrightarrow> \<not> P (hd ys)"
  shows "takeWhile P (xs @ ys) = xs \<and> dropWhile P (xs @ ys) = ys"
  using assms by (induction xs) (cases ys; simp)+

lemma match_braces_ref:
  assumes "segment_ok (Ref var code)"
  shows "match_braces (var @ code @ CHR ''}'' # s) = Some (var, code, s)"
proof -
  let ?rest = "code @ CHR ''}'' # s"
  have "\<not> name_char (hd ?rest)" using assms by (cases code) (simp_all add: name_char_def)
  then have word: "takeWhile name_char (var @ ?rest) = var \<and> dropWhile name_char (var @ ?rest) = ?rest"
    using assms by (intro span_at) simp_all
  have "takeWhile (\<lambda>c. c \<noteq> CHR ''}'' \<and> c \<noteq> CHR 0x0A) ?rest = code"
    using assms span_at [of "\<lambda>c. c \<noteq> CHR ''}'' \<and> c \<noteq> CHR 0x0A" code "CHR ''}'' # s"] by simp
  then show ?thesis using word assms by (simp add: match_braces_def)
qed

lemma pieces_segments:
  "list_all segment_ok segs \<Longrightarrow>
   pieces (concat (map render_segment segs)) = concat (map segment_pieces segs)"
proof (induction segs)
  case (Cons g segs)
  show ?case
  proof (cases g)
    case (Ref var code)
    then show ?thesis
      using Cons match_braces_ref [of var code "concat (map render_segment segs)"]
      by (simp add: pieces.simps [of "CHR ''$'' # _"])
  qed (use Cons pieces_text in simp)
qed (simp add: pieces.simps)

lemma rmap_append:
  "rmap f (xs @ ys) = rbind (rmap f xs) (\<lambda>us. rbind (rmap f ys) (\<lambda>vs. Inr (us @ vs)))"
  by (induction xs) (auto simp: rbind_def split: sum.splits)

definition piece_text :: "command_task \<Rightarrow> (string \<Rightarrow> py_value result) \<Rightarrow> piece \<Rightarrow> string result" where
  "piece_text task evaluate p = rbind (repl task evaluate p) joined_value"

lemma rmap_rmap_Inr:
  "(\<exists>ys. rmap f xs = Inr ys \<and> rmap g ys = Inr zs) \<longleftrightarrow> rmap (\<lambda>x. rbind (f x) g) xs = Inr zs"
  by (induction xs arbitrary: zs) (fastforce simp: rbind_Inr_iff)+

lemma subst_arg_Inr_iff:
  "subst_arg task evaluate arg = Inr t \<longleftrightarrow>
   (\<exists>ss. rmap (piece_text task evaluate) (pieces arg) = Inr ss \<and> t = concat ss)"
  unfolding subst_arg_def piece_text_def rbind_Inr_iff
  by (simp add: rmap_rmap_Inr [of "repl task evaluate" "pieces arg" joined_value, symmetric]) blast

lemma piece_texts_text:
  "rmap (piece_text task evaluate) (segment_pieces (Text s)) = Inr (map (\<lambda>c. [c]) s)"
  by (induction s) (auto simp: piece_text_def repl_def joined_value_def)

abbreviation concatenated :: "'e + string list \<Rightarrow> 'e + string" where
  "concatenated r \<equiv> rbind r (\<lambda>ss. Inr (concat ss))"

lemma concatenated_append:
  "concatenated (rbind r (\<lambda>us. rbind r' (\<lambda>vs. Inr (us @ vs)))) =
   rbind (concatenated r) (\<lambda>u. rbind (concatenated r') (\<lambda>v. Inr (u @ v)))"
  by (auto simp: rbind_def split: sum.splits)

lemma concatenated_Cons:
  "concatenated (rbind r (\<lambda>u. rbind r' (\<lambda>vs. Inr (u # vs)))) =
   rbind r (\<lambda>u. rbind (concatenated r') (\<lambda>v. Inr (u @ v)))"
  by (auto simp: rbind_def split: sum.splits)

lemma concat_chars: "concat (map (\<lambda>c. [c]) s) = s"
  by (induction s) auto

lemma segment_text:
  "concatenated (rmap (piece_text task evaluate) (segment_pieces g)) = segment_value task evaluate g"
proof (cases g)
  case (Text s)
  then show ?thesis by (simp add: piece_texts_text concat_chars del: segment_pieces.simps)
next
  case (Ref var code)
  then show ?thesis
    by (cases "evaluate (var @ code)") (auto simp: piece_text_def repl_def rbind_def split: sum.splits)
qed

lemma segment_texts:
  "concatenated (rmap (piece_text task evaluate) (concat (map segment_pieces segs))) =
   concatenated (rmap (segment_value task evaluate) segs)"
  by (induction segs)
    (simp_all add: rmap_append concatenated_append concatenated_Cons segment_text)

text \<open>
  The substitution of a template puts the value of each reference in its place and leaves every
  other text as it is, dollar signs and braces included; it fails exactly if a reference has no
  value that is a string or \<open>None\<close>.
\<close>
theorem subst_arg_correct:
  assumes "list_all segment_ok segs"
  shows "subst_arg task evaluate (concat (map render_segment segs)) = Inr t \<longleftrightarrow>
    (\<exists>ss. rmap (segment_value task evaluate) segs = Inr ss \<and> t = concat ss)"
proof -
  have "(\<exists>ss. r = Inr ss \<and> t = concat ss) \<longleftrightarrow> concatenated r = Inr t" for r :: "string list result"
    by (cases r) auto
  then show ?thesis by (simp add: subst_arg_Inr_iff pieces_segments [OF assms] segment_texts)
qed

theorem subst_arg_correct_witness:
  "subst_arg \<lparr>inputs = [\<lparr>srcpath = ''a b.cc'', abspath_in_build = ''x'', bldpath = ''y''\<rparr>], outputs = []\<rparr>
     (\<lambda>e. if e = ''SRC'' then Inr InputsList else Inl (OtherException ''NameError''))
     (concat (map render_segment [Text ''-I$'', Ref ''SRC'' [], Text ''}''])) = Inr ''-I$a b.cc}''"
  by (rule iffD2 [OF subst_arg_correct])
    (simp_all add: name_char_def subst_value_def joined_value_def)

section \<open>What a task runs\<close>

text \<open>A program started for a command of the line: its words are the words of the command, each substituted.\<close>

fun started_from :: "(string \<Rightarrow> string result) \<Rightarrow> popen_call \<Rightarrow> ShellCmd.node \<Rightarrow> bool" where
  "started_from f call (Command c) \<longleftrightarrow> list_all2 (\<lambda>a a'. f a = Inr a') (cmd_argv c) (call_argv call)"
| "started_from f call _ \<longleftrightarrow> False"

text \<open>Substitution keeps the form of the line.\<close>

definition same_form :: "ShellCmd.node \<Rightarrow> ShellCmd.node \<Rightarrow> bool" where
  "same_form n n' \<longleftrightarrow>
     (case n of
        Command c \<Rightarrow> (\<exists>c'. n' = Command c' \<and> (cmd_stdout c' = Some PIPE \<longleftrightarrow> cmd_stdout c = Some PIPE))
      | Chdir d \<Rightarrow> (\<exists>d'. n' = Chdir (Some d'))
      | _ \<Rightarrow> n' = n)"

lemma subst_redirect_pipe:
  "subst_redirect f v = Inr v' \<Longrightarrow> v' = Some PIPE \<longleftrightarrow> v = Some PIPE"
  by (auto simp: subst_redirect_def rbind_Inr_iff split: option.splits redirect.splits)

lemma subst_command_Inr:
  assumes "subst_command f c = Inr c'"
  shows "list_all2 (\<lambda>a a'. f a = Inr a') (cmd_argv c) (cmd_argv c') \<and>
    (cmd_stdout c' = Some PIPE \<longleftrightarrow> cmd_stdout c = Some PIPE)"
  using assms by (auto simp: subst_command_def rbind_Inr_iff rmap_Inr_iff subst_redirect_pipe)

lemma subst_node_Inr:
  assumes "subst_node f n = Inr n'"
  shows "same_form n n' \<and> (\<forall>c'. n' = Command c' \<longrightarrow>
    (\<exists>c. n = Command c \<and> list_all2 (\<lambda>a a'. f a = Inr a') (cmd_argv c) (cmd_argv c')))"
  using assms
  by (cases n) (auto simp: subst_node_def same_form_def rbind_Inr_iff
      dest: subst_command_Inr split: option.splits)

lemma linked_same_form: "same_form x x' \<Longrightarrow> same_form y y' \<Longrightarrow> linked x y \<Longrightarrow> linked x' y'"
  by (cases x; cases y) (auto simp: same_form_def)

lemma closing_same_form: "same_form x x' \<Longrightarrow> closing x \<Longrightarrow> closing x'"
  by (cases x) (auto simp: same_form_def)

lemma line_ok_same_form: "list_all2 same_form nodes nodes' \<Longrightarrow> line_ok nodes \<Longrightarrow> line_ok nodes'"
proof (induction nodes arbitrary: nodes' rule: line_ok.induct)
  case (2 x)
  then show ?case by (auto simp: list_all2_Cons1 closing_same_form)
next
  case (3 x operator rest)
  then show ?case by (auto simp: list_all2_Cons1 dest: linked_same_form)
qed auto

text \<open>Every program that is started belongs to a command of the line.\<close>

lemma stages_commands:
  "(cs, operator) \<in> set (stages cwd acc nodes) \<Longrightarrow> (d, c) \<in> set cs \<Longrightarrow>
   (d, c) \<in> set acc \<or> Command c \<in> set nodes"
  by (induction cwd acc nodes rule: stages.induct) (auto split: if_splits)

lemma stage_calls_from:
  "call \<in> set (stage_calls os fed cs) \<Longrightarrow> \<exists>x \<in> set cs. call_argv call = cmd_argv (snd x)"
proof (induction cs arbitrary: fed)
  case (Cons x cs)
  then show ?case by (cases x) (fastforce simp: call_for_def)
qed simp

lemma eval_stages_from:
  "call \<in> set (snd (eval_stages os prior sts)) \<Longrightarrow>
   call \<in> set prior \<or> (\<exists>st \<in> set sts. \<exists>x \<in> set (fst st). call_argv call = cmd_argv (snd x))"
proof (induction os prior sts rule: eval_stages.induct)
  case (2 os prior cs operator rest)
  let ?after = "prior @ stage_calls os False cs"
  have "call \<in> set ?after \<or> (\<exists>st \<in> set rest. \<exists>x \<in> set (fst st). call_argv call = cmd_argv (snd x))"
    using 2 by (cases "decides operator (exit_code os ?after)") (simp_all add: Let_def)
  then show ?case using stage_calls_from [of call os False cs] by auto
qed simp

lemma substituted_calls:
  assumes sub: "list_all2 (\<lambda>n n'. subst_node f n = Inr n') nodes nodes'"
    and call: "call \<in> set (snd (eval_stages os [] (stages ''.'' [] nodes')))"
  shows "\<exists>n \<in> set nodes. started_from f call n"
proof -
  obtain cs operator d c' where c': "(cs, operator) \<in> set (stages ''.'' [] nodes')"
    "(d, c') \<in> set cs" "call_argv call = cmd_argv c'"
    using eval_stages_from [OF call] by auto
  then have "Command c' \<in> set nodes'" using stages_commands [OF c'(1,2)] by simp
  then obtain i where i: "i < length nodes'" "nodes' ! i = Command c'"
    by (auto simp: in_set_conv_nth)
  then have n: "nodes ! i \<in> set nodes" "subst_node f (nodes ! i) = Inr (Command c')"
    using sub by (auto simp: list_all2_conv_all_nth)
  obtain c where "nodes ! i = Command c" "list_all2 (\<lambda>a a'. f a = Inr a') (cmd_argv c) (cmd_argv c')"
    using subst_node_Inr [OF n(2)] by blast
  then have "started_from f call (nodes ! i)" using c'(3) by simp
  then show ?thesis using n(1) by (rule bexI)
qed


end
