(* ===== verification/WafDb.thy ===== *)
theory WafDb
  imports ShLex
begin

text \<open>
  Two small tools of the build: \<open>src/waf-tools/clang_compilation_database.py\<close>, which collects the
  compile tasks of a build and writes their commands to a JSON file, and
  \<open>src/waf-tools/relocation.py\<close>, which moves the nodes of the build tree when the project directory
  was moved. A compile task is given by what the code reads of it; the nodes of the tree are a heap.
\<close>

section \<open>The compilation database\<close>

record compile_task =
  last_cmd :: "string list option"
  task_cwd :: "string option"
  input_paths :: "string list"

record build_context =
  clang_tasks :: "compile_task list option"
  post_funs :: "string list"

definition start_build :: build_context where
  "start_build = \<lparr>clang_tasks = None, post_funs = []\<rparr>"

text \<open>The tasks of a generator come with whether they are C or C++ compile tasks.\<close>

definition collect_compilation_db_tasks :: "(bool \<times> compile_task) list \<Rightarrow> build_context \<Rightarrow> build_context" where
  "collect_compilation_db_tasks compiled_tasks bld =
     (let bld = (case clang_tasks bld of
                   Some _ \<Rightarrow> bld
                 | None \<Rightarrow> bld\<lparr>clang_tasks := Some [],
                            post_funs := post_funs bld @ [''write_compilation_database'']\<rparr>)
      in fold (\<lambda>(is_cxx, task) bld.
           if is_cxx then bld\<lparr>clang_tasks := map_option (\<lambda>ts. ts @ [task]) (clang_tasks bld)\<rparr> else bld)
         compiled_tasks bld)"

record db_entry =
  entry_directory :: string
  entry_command :: string
  entry_file :: string

definition task_directory :: "string \<Rightarrow> compile_task \<Rightarrow> string" where
  "task_directory variant_dir task = (case task_cwd task of Some d \<Rightarrow> d | None \<Rightarrow> variant_dir)"

text \<open>The entry of a task, if it was run; \<open>task.inputs[0]\<close> can fail.\<close>

definition task_entry :: "string \<Rightarrow> string \<Rightarrow> compile_task \<Rightarrow> db_entry option result" where
  "task_entry cwd variant_dir task =
     (case last_cmd task of
        None \<Rightarrow> Inr None
      | Some cmd \<Rightarrow>
          rbind (py_index (input_paths task) 0) (\<lambda>path.
          let directory = task_directory variant_dir task
          in Inr (Some \<lparr>entry_directory = directory, entry_command = join '' '' (map shell_quote cmd),
                   entry_file = path_relpath cwd path directory\<rparr>)))"

definition add_task ::
    "string \<Rightarrow> string \<Rightarrow> compile_task \<Rightarrow> (string, db_entry) pydict \<Rightarrow> (string, db_entry) pydict result" where
  "add_task cwd variant_dir task db =
     rbind (task_entry cwd variant_dir task) (\<lambda>e.
       Inr (case e of None \<Rightarrow> db | Some e \<Rightarrow> dict_put (entry_file e) e db))"

text \<open>
  The database after a build: \<open>stored\<close> is the result of reading the old file. A file that cannot
  be opened is an empty one.
\<close>

definition write_compilation_database ::
    "string \<Rightarrow> string \<Rightarrow> db_entry list result \<Rightarrow> build_context \<Rightarrow> db_entry list result" where
  "write_compilation_database cwd variant_dir stored bld =
     rbind (if stored = Inl (OtherException ''IOError'') then Inr [] else stored) (\<lambda>root.
     let clang_db = fold (\<lambda>x. dict_put (entry_file x) x) root []
     in rbind (rfold (add_task cwd variant_dir) (case clang_tasks bld of None \<Rightarrow> [] | Some ts \<Rightarrow> ts) clang_db)
          (\<lambda>db. Inr (map snd db)))"

subsection \<open>What the database holds\<close>

text \<open>The compile tasks of the generators of a build.\<close>

definition compile_tasks :: "(bool \<times> compile_task) list list \<Rightarrow> compile_task list" where
  "compile_tasks gens = map snd (filter fst (concat gens))"

lemma collect_simp:
  "collect_compilation_db_tasks ts bld =
     bld\<lparr>clang_tasks := Some ((case clang_tasks bld of None \<Rightarrow> [] | Some us \<Rightarrow> us) @ map snd (filter fst ts)),
         post_funs := (if clang_tasks bld = None then post_funs bld @ [''write_compilation_database'']
                       else post_funs bld)\<rparr>"
proof -
  have "fold (\<lambda>(is_cxx, task) bld.
           if is_cxx then bld\<lparr>clang_tasks := map_option (\<lambda>ts. ts @ [task]) (clang_tasks bld)\<rparr> else bld) ts b =
      b\<lparr>clang_tasks := Some (us @ map snd (filter fst ts))\<rparr>"
    if "clang_tasks b = Some us" for us and b :: build_context
    using that by (induction ts arbitrary: b us) auto
  then show ?thesis
    by (auto simp: collect_compilation_db_tasks_def Let_def split: option.splits)
qed

lemma collected:
  "gens \<noteq> [] \<Longrightarrow> fold collect_compilation_db_tasks gens start_build =
     \<lparr>clang_tasks = Some (compile_tasks gens), post_funs = [''write_compilation_database'']\<rparr>"
proof (induction gens rule: rev_induct)
  case (snoc ts gens)
  then show ?case
    by (cases "gens = []") (simp_all add: collect_simp start_build_def compile_tasks_def)
qed simp

text \<open>The entry of a task that was run and has an input.\<close>

definition entry_of :: "string \<Rightarrow> string \<Rightarrow> compile_task \<Rightarrow> db_entry" where
  "entry_of cwd variant_dir task =
     (let directory = task_directory variant_dir task
      in \<lparr>entry_directory = directory, entry_command = join '' '' (map shell_quote (the (last_cmd task))),
          entry_file = path_relpath cwd (hd (input_paths task)) directory\<rparr>)"

definition was_run :: "compile_task \<Rightarrow> bool" where
  "was_run task \<longleftrightarrow> last_cmd task \<noteq> None"

lemma add_task_simp:
  assumes "input_paths task \<noteq> []"
  shows "add_task cwd variant_dir task db =
    Inr (if was_run task
         then dict_put (entry_file (entry_of cwd variant_dir task)) (entry_of cwd variant_dir task) db
         else db)"
  using assms py_index_nonneg [of 0 "input_paths task"]
  by (auto simp: add_task_def task_entry_def entry_of_def was_run_def hd_conv_nth Let_def)

lemma rfold_add_task:
  assumes "list_all (\<lambda>t. input_paths t \<noteq> []) ts"
  shows "rfold (add_task cwd variant_dir) ts db =
    Inr (fold (\<lambda>t. dict_put (entry_file (entry_of cwd variant_dir t)) (entry_of cwd variant_dir t))
           (filter was_run ts) db)"
  using assms by (induction ts arbitrary: db) (simp_all add: add_task_simp)

text \<open>Every entry is stored under its file.\<close>

definition keyed :: "(string, db_entry) pydict \<Rightarrow> bool" where
  "keyed db \<longleftrightarrow> dict_ok db \<and> list_all (\<lambda>(f, e). entry_file e = f) db"

lemma keyed_put: "keyed db \<Longrightarrow> keyed (dict_put (entry_file e) e db)"
proof -
  assume db: "keyed db"
  have "set (dict_put (entry_file e) e db) \<subseteq> insert (entry_file e, e) (set db)"
    by (induction db) auto
  then show ?thesis
    using db pd.ok_put [of db "entry_file e" e] by (auto simp: keyed_def list_all_iff)
qed

lemma keyed_fold: "keyed db \<Longrightarrow> keyed (fold (\<lambda>x. dict_put (entry_file (g x)) (g x)) xs db)"
  by (induction xs arbitrary: db) (auto simp: keyed_put)

lemma keyed_files: "keyed db \<Longrightarrow> map entry_file (map snd db) = map fst db"
  by (auto simp: keyed_def list_all_iff)

lemma keyed_find: "keyed db \<Longrightarrow> find (\<lambda>e. entry_file e = f) (map snd db) = dict_get db f"
  unfolding keyed_def dict_ok_def by (induction db) auto

text \<open>C38:
  After a build the database has one entry per file: that of the last task run for it, or else
  the old one; the command of an entry, cut as a shell does, is the command that was run.
\<close>
theorem compilation_database_correct:
  assumes "gens \<noteq> []" and "list_all (\<lambda>t. input_paths t \<noteq> []) (compile_tasks gens)"
  shows "\<exists>db. write_compilation_database cwd variant_dir (Inr root)
        (fold collect_compilation_db_tasks gens start_build) = Inr db \<and>
      distinct (map entry_file db) \<and>
      (\<forall>f. find (\<lambda>e. entry_file e = f) db =
        (case filter (\<lambda>t. was_run t \<and> entry_file (entry_of cwd variant_dir t) = f) (rev (compile_tasks gens)) of
           t # _ \<Rightarrow> Some (entry_of cwd variant_dir t)
         | [] \<Rightarrow> find (\<lambda>e. entry_file e = f) (rev root))) \<and>
      (\<forall>t. was_run t \<longrightarrow> split_words (entry_command (entry_of cwd variant_dir t)) = Inr (the (last_cmd t)))"
proof -
  let ?e = "entry_of cwd variant_dir"
  let ?old = "fold (\<lambda>x. dict_put (entry_file x) x) root []"
  let ?db = "fold (\<lambda>t. dict_put (entry_file (?e t)) (?e t)) (filter was_run (compile_tasks gens)) ?old"
  have "keyed ?old" by (rule keyed_fold [where g = "\<lambda>x. x"]) (simp add: keyed_def)
  then have keyed: "keyed ?db" by (rule keyed_fold)
  have hd_find: "(case filter P xs of [] \<Rightarrow> None | x # _ \<Rightarrow> Some x) = find P xs"
    for P and xs :: "db_entry list" by (induction xs) auto
  have old: "dict_get ?old f = find (\<lambda>e. entry_file e = f) (rev root)" for f
    by (simp add: pd.get_fold_put [where f = entry_file and g = "\<lambda>x. x"] hd_find [symmetric]
        cong: list.case_cong)
  have "dict_get ?db f =
      (case filter (\<lambda>t. was_run t \<and> entry_file (?e t) = f) (rev (compile_tasks gens)) of
         t # _ \<Rightarrow> Some (?e t) | [] \<Rightarrow> find (\<lambda>e. entry_file e = f) (rev root))" for f
    by (simp add: pd.get_fold_put [where f = "\<lambda>t. entry_file (?e t)" and g = ?e] old
        rev_filter [symmetric] conj_commute cong: list.case_cong)
  then have "\<forall>f. find (\<lambda>e. entry_file e = f) (map snd ?db) =
      (case filter (\<lambda>t. was_run t \<and> entry_file (?e t) = f) (rev (compile_tasks gens)) of
         t # _ \<Rightarrow> Some (?e t) | [] \<Rightarrow> find (\<lambda>e. entry_file e = f) (rev root))"
    using keyed_find [OF keyed] by simp
  moreover have "distinct (map entry_file (map snd ?db))"
    using keyed by (simp only: keyed_files [OF keyed]) (simp add: keyed_def dict_ok_def)
  moreover have "write_compilation_database cwd variant_dir (Inr root)
      (fold collect_compilation_db_tasks gens start_build) = Inr (map snd ?db)"
    by (simp add: write_compilation_database_def collected [OF assms(1)] rfold_add_task [OF assms(2)])
  moreover have "\<forall>t. was_run t \<longrightarrow> split_words (entry_command (?e t)) = Inr (the (last_cmd t))"
    by (simp add: entry_of_def Let_def split_quote)
  ultimately show ?thesis by (intro exI [of _ "map snd ?db"] conjI)
qed

theorem compilation_database_correct_witness:
  "\<exists>db. write_compilation_database ''/'' ''/b'' (Inr [])
      (fold collect_compilation_db_tasks
        [[(True, \<lparr>last_cmd = Some [''g++'', ''a b.cc''], task_cwd = None, input_paths = [''/b/a b.cc'']\<rparr>)]]
        start_build) = Inr db \<and> distinct (map entry_file db)"
  using compilation_database_correct [of
      "[[(True, \<lparr>last_cmd = Some [''g++'', ''a b.cc''], task_cwd = None, input_paths = [''/b/a b.cc'']\<rparr>)]]"
      "''/''" "''/b''" "[]"]
  by (simp add: compile_tasks_def) blast

text \<open>
  The file is relative to the directory of the task, but it is the only key: of two files with
  the same relative path in different directories only the later one is kept.
\<close>

lemma same_relative_file_lost:
  "write_compilation_database ''/'' ''/v'' (Inr [])
     \<lparr>clang_tasks = Some
        [\<lparr>last_cmd = Some [''cc''], task_cwd = Some ''/a'', input_paths = [''/a/main.c'']\<rparr>,
         \<lparr>last_cmd = Some [''cc''], task_cwd = Some ''/b'', input_paths = [''/b/main.c'']\<rparr>],
      post_funs = []\<rparr> =
   Inr [\<lparr>entry_directory = ''/b'', entry_command = ''cc'', entry_file = ''main.c''\<rparr>]"
  by code_simp

section \<open>A moved project directory\<close>

text \<open>The nodes of the build tree: a heap of parents and children.\<close>

record tree_node =
  parent :: nat
  children :: "(string, nat) pydict"

type_synonym tree = "nat \<Rightarrow> tree_node"

definition adopt :: "nat \<Rightarrow> string \<times> nat \<Rightarrow> tree \<Rightarrow> tree" where
  "adopt srcnode kv h =
     (case kv of (k, v) \<Rightarrow>
       let h = h(srcnode := (h srcnode)\<lparr>children := dict_put k v (children (h srcnode))\<rparr>)
       in h(v := (h v)\<lparr>parent := srcnode\<rparr>))"

definition move_children :: "nat \<Rightarrow> nat \<Rightarrow> tree \<Rightarrow> tree" where
  "move_children d srcnode h =
     (let h = h(srcnode := (h srcnode)\<lparr>children := []\<rparr>);
          h = fold (adopt srcnode) (children (h d)) h
      in h(d := (h d)\<lparr>children := []\<rparr>))"

text \<open>
  \<open>init_dirs\<close> before the original function is called: \<open>srcdir\<close> is what was stored by \<open>store\<close> and
  could be loaded, \<open>find_node\<close> and \<open>make_node\<close> are the functions of the root node.
\<close>

definition init_dirs ::
    "(string \<Rightarrow> bool) \<Rightarrow> (tree \<Rightarrow> string \<Rightarrow> nat option) \<Rightarrow> (string \<Rightarrow> tree \<Rightarrow> tree \<times> nat) \<Rightarrow>
     string \<Rightarrow> string \<Rightarrow> string option \<Rightarrow> tree \<Rightarrow> tree result" where
  "init_dirs isabs find_node make_node top_dir out_dir srcdir h =
     (if \<not> (isabs top_dir \<and> isabs out_dir) then Inl (OtherException ''WafError'')
      else (case srcdir of
              None \<Rightarrow> Inr h
            | Some src \<Rightarrow>
                if src = [] then Inr h
                else (case find_node h src of
                        None \<Rightarrow> Inr h
                      | Some d \<Rightarrow>
                          if src \<noteq> top_dir \<and> children (h d) \<noteq> []
                          then (case make_node top_dir h of (h, srcnode) \<Rightarrow> Inr (move_children d srcnode h))
                          else Inr h)))"

text \<open>The path of an include directory for the compiler: relative inside the project.\<close>

definition incpath :: "bool \<Rightarrow> string \<Rightarrow> string \<Rightarrow> string" where
  "incpath below_srcnode path_from_build abspath =
     (if below_srcnode \<and> path_from_build \<noteq> [] then path_from_build else abspath)"

text \<open>Every child knows its parent.\<close>

definition tree_ok :: "tree \<Rightarrow> bool" where
  "tree_ok h \<longleftrightarrow> (\<forall>n. dict_ok (children (h n)) \<and> (\<forall>k v. (k, v) \<in> set (children (h n)) \<longrightarrow> parent (h v) = n))"

lemma fold_adopt_other:
  "m \<noteq> s \<Longrightarrow> children (fold (adopt s) kvs h m) = children (h m)"
  by (induction kvs arbitrary: h) (auto simp: adopt_def Let_def)

lemma fold_adopt_parent:
  "parent (fold (adopt s) kvs h m) = (if m \<in> snd ` set kvs then s else parent (h m))"
  by (induction kvs arbitrary: h) (auto simp: adopt_def Let_def)

lemma fold_adopt_self:
  "distinct (map fst (children (h s) @ kvs)) \<Longrightarrow> children (fold (adopt s) kvs h s) = children (h s) @ kvs"
proof (induction kvs arbitrary: h)
  case (Cons kv kvs)
  obtain k v where kv: "kv = (k, v)" by (cases kv)
  have "dict_put k v (children (h s)) = children (h s) @ [(k, v)]"
    by (rule dict_put_new) (use Cons.prems in \<open>auto simp: kv\<close>)
  then have "children (adopt s kv h s) = children (h s) @ [kv]"
    by (cases "s = v") (simp_all add: adopt_def kv Let_def)
  then show ?case using Cons.IH [of "adopt s kv h"] Cons.prems by simp
qed simp

lemma move_children_result:
  assumes "dict_ok (children (h d))" and "s \<noteq> d"
  shows "children (move_children d s h m) =
      (if m = s then children (h d) else if m = d then [] else children (h m))"
    and "parent (move_children d s h m) = (if m \<in> snd ` set (children (h d)) then s else parent (h m))"
  using assms
  by (auto simp: move_children_def Let_def fold_adopt_other fold_adopt_parent fold_adopt_self dict_ok_def)

text \<open>
  When the project was moved, the nodes under the old directory become, with all that is below
  them, the nodes under the new one, and the tree stays consistent.
\<close>
theorem relocation_correct:
  assumes "tree_ok h" and "isabs top_dir" and "isabs out_dir"
    and "find_node h0 src = Some d" and "src \<noteq> []" and "src \<noteq> top_dir" and "children (h0 d) \<noteq> []"
    and "make_node top_dir h0 = (h, s)" and "s \<noteq> d"
  shows "\<exists>h'. init_dirs isabs find_node make_node top_dir out_dir (Some src) h0 = Inr h' \<and> tree_ok h' \<and>
      children (h' s) = children (h d) \<and> children (h' d) = [] \<and>
      (\<forall>m. m \<noteq> s \<and> m \<noteq> d \<longrightarrow> children (h' m) = children (h m))"
proof -
  have ok: "dict_ok (children (h d))" using assms(1) by (simp add: tree_ok_def)
  note moved = move_children_result [where h = h and d = d and s = s, OF ok assms(9)]
  have "tree_ok (move_children d s h)"
    unfolding tree_ok_def
  proof (intro allI conjI impI)
    fix n k v
    show "dict_ok (children (move_children d s h n))"
      using assms(1) by (simp add: moved tree_ok_def)
    assume kv: "(k, v) \<in> set (children (move_children d s h n))"
    show "parent (move_children d s h v) = n"
    proof (cases "n = s")
      case True
      then show ?thesis using kv by (force simp: moved)
    next
      case False
      then have "n \<noteq> d" "parent (h v) = n" using kv assms(1) by (auto simp: moved tree_ok_def split: if_splits)
      moreover have "v \<notin> snd ` set (children (h d))"
        using \<open>n \<noteq> d\<close> \<open>parent (h v) = n\<close> assms(1) by (auto simp: tree_ok_def)
      ultimately show ?thesis by (simp add: moved)
    qed
  qed
  then show ?thesis using assms(2-8) by (simp add: init_dirs_def moved assms(9) not_sym [OF assms(9)])
qed

definition sample_tree :: tree where
  "sample_tree =
     (\<lambda>n. if n = 0 then \<lparr>parent = 0, children = [(''old'', 1), (''new'', 2)]\<rparr>
          else if n = 1 then \<lparr>parent = 0, children = [(''src'', 3)]\<rparr>
          else if n = 3 then \<lparr>parent = 1, children = []\<rparr> else \<lparr>parent = 0, children = []\<rparr>)"

theorem relocation_correct_witness:
  "\<exists>h'. init_dirs (\<lambda>_. True) (\<lambda>_ _. Some 1) (\<lambda>_ h. (h, 2)) ''/new'' ''/new/build'' (Some ''/old'') sample_tree
      = Inr h' \<and> children (h' 2) = [(''src'', 3)]"
proof -
  have "tree_ok sample_tree"
    by (auto simp: tree_ok_def sample_tree_def dict_ok_def)
  from relocation_correct [OF this, of "\<lambda>_. True" "''/new''" "''/new/build''" "\<lambda>_ _. Some 1" sample_tree
      "''/old''" 1 "\<lambda>_ h. (h, 2)" 2]
  show ?thesis by (auto simp: sample_tree_def)
qed

text \<open>
  A project that was moved into a directory below its old place: the new directory is a child of
  the old one, and becomes its own parent.
\<close>

lemma relocation_below:
  assumes "dict_ok (children (h d))" and "s \<noteq> d" and "(k, s) \<in> set (children (h d))"
  shows "parent (move_children d s h s) = s \<and> (k, s) \<in> set (children (move_children d s h s))"
  using assms move_children_result [where h = h and d = d and s = s, OF assms(1,2)] by force

end
