(* ===== verification/WafMisc.thy ===== *)
theory WafMisc
  imports WafCommand
begin

text \<open>
  The older task generators of \<open>src/waf-tools/misc.py\<close>: \<open>subst_func\<close> with \<open>apply_subst\<close>, which
  replace \<open>@name@\<close> in template files, \<open>copy_func\<close> with \<open>apply_copy\<close>, and the generator
  \<open>command-output\<close>: \<open>apply_cmd_output\<close> makes a task of it and \<open>command_output.run\<close> starts the
  program. The nodes of the build tree are given by their paths, the lookup functions of the
  directory node, the variables of the environment and the file system are arguments.
\<close>

section \<open>Substitution in a file\<close>

text \<open>\<open>m4_re\<close>: a text is cut into \<open>@name@\<close> and other characters.\<close>

datatype m4_piece = Lit char | Var string

function m4_pieces :: "string \<Rightarrow> m4_piece list" where
  "m4_pieces s =
     (case s of
        [] \<Rightarrow> []
      | c # t \<Rightarrow>
          if c = CHR ''@'' \<and> takeWhile name_char t \<noteq> [] \<and> startswith ''@'' (dropWhile name_char t)
          then Var (takeWhile name_char t) # m4_pieces (tl (dropWhile name_char t))
          else Lit c # m4_pieces t)"
  by pat_completeness auto
termination
proof (relation "measure length")
  fix s t :: string and c
  assume "s = c # t"
  then show "(tl (dropWhile name_char t), s) \<in> measure length"
    using length_dropWhile_le [of name_char t] by simp
qed auto

declare m4_pieces.simps [simp del]

text \<open>\<open>code.replace('%', '%%')\<close>, and the replacement of \<open>@name@\<close> by \<open>%(name)s\<close>.\<close>

definition double_percent :: "string \<Rightarrow> string" where
  "double_percent s = concat (map (\<lambda>c. if c = CHR ''%'' then [c, c] else [c]) s)"

definition marked :: "m4_piece \<Rightarrow> string" where
  "marked p = (case p of Lit c \<Rightarrow> [c] | Var w \<Rightarrow> ''%('' @ w @ '')s'')"

definition m4_names :: "string \<Rightarrow> string list" where
  "m4_names s = concat (map (\<lambda>p. case p of Var w \<Rightarrow> [w] | Lit c \<Rightarrow> []) (m4_pieces s))"

text \<open>
  \<open>subst_func\<close>: the tasks of a generator share its dictionary, which is filled when it is empty.
  The result is the text for the output and the dictionary afterwards.
\<close>

definition flat_value :: "(string \<Rightarrow> string) \<Rightarrow> string \<Rightarrow> string" where
  "flat_value get_flat i = (if get_flat i \<noteq> [] then get_flat i else get_flat (map upper_char i))"

definition subst_func ::
    "(string \<Rightarrow> string) \<Rightarrow> string \<Rightarrow> (string, string) pydict \<Rightarrow> string result \<times> (string, string) pydict" where
  "subst_func get_flat input di =
     (let code = double_percent input;
          s = concat (map marked (m4_pieces code));
          di = (if di = [] then fold (\<lambda>i. dict_put i (flat_value get_flat i)) (m4_names code) di else di)
      in (percent_dict s di, di))"

text \<open>The tasks of one generator, in the order they are run.\<close>

fun run_substs ::
    "(string \<Rightarrow> string) \<Rightarrow> string list \<Rightarrow> (string, string) pydict \<Rightarrow> string result list" where
  "run_substs get_flat [] di = []"
| "run_substs get_flat (input # later) di =
     (case subst_func get_flat input di of (r, di) \<Rightarrow> r # run_substs get_flat later di)"

subsection \<open>Reference\<close>

text \<open>The text with each \<open>@name@\<close> replaced directly.\<close>

definition direct_subst :: "(string \<Rightarrow> string) \<Rightarrow> string \<Rightarrow> string" where
  "direct_subst val s = concat (map (\<lambda>p. case p of Lit c \<Rightarrow> [c] | Var w \<Rightarrow> val w) (m4_pieces s))"

lemma takeWhile_double: "takeWhile name_char (double_percent s) = takeWhile name_char s"
  by (induction s) (auto simp: double_percent_def name_char_def Let_def)

lemma dropWhile_double: "dropWhile name_char (double_percent s) = double_percent (dropWhile name_char s)"
  by (induction s) (auto simp: double_percent_def name_char_def Let_def)

lemma startswith_double: "startswith ''@'' (double_percent s) \<longleftrightarrow> startswith ''@'' s"
  by (cases s) (auto simp: double_percent_def startswith_def)

lemma tl_double: "startswith ''@'' s \<Longrightarrow> tl (double_percent s) = double_percent (tl s)"
  by (cases s) (auto simp: double_percent_def startswith_def)

definition double_piece :: "m4_piece \<Rightarrow> m4_piece list" where
  "double_piece p = (if p = Lit (CHR ''%'') then [p, p] else [p])"

lemma double_percent_Cons:
  "double_percent (c # t) = (if c = CHR ''%'' then [c, c] else [c]) @ double_percent t"
  by (simp add: double_percent_def)

lemma m4_pieces_double: "m4_pieces (double_percent s) = concat (map double_piece (m4_pieces s))"
proof (induction s rule: m4_pieces.induct)
  case (1 s)
  show ?case
  proof (cases s)
    case Nil
    then show ?thesis by (simp add: double_percent_def m4_pieces.simps)
  next
    case (Cons c t)
    let ?var = "c = CHR ''@'' \<and> takeWhile name_char t \<noteq> [] \<and> startswith ''@'' (dropWhile name_char t)"
    show ?thesis
    proof (cases ?var)
      case True
      then have "m4_pieces (c # double_percent t) =
          Var (takeWhile name_char t) # m4_pieces (double_percent (tl (dropWhile name_char t)))"
        by (subst m4_pieces.simps) (simp add: takeWhile_double dropWhile_double startswith_double tl_double)
      moreover have "m4_pieces (c # t) = Var (takeWhile name_char t) # m4_pieces (tl (dropWhile name_char t))"
        using True by (subst m4_pieces.simps) simp
      ultimately show ?thesis
        using True 1(1) [OF Cons True] by (simp add: Cons double_percent_Cons double_piece_def)
    next
      case False
      have "m4_pieces (c # double_percent t) = Lit c # m4_pieces (double_percent t)"
        using False by (auto simp: m4_pieces.simps [of "c # double_percent t"] takeWhile_double
            dropWhile_double startswith_double)
      moreover have "m4_pieces (c # t) = Lit c # m4_pieces t"
        using False by (auto simp: m4_pieces.simps [of "c # t"])
      ultimately show ?thesis
        using 1(2) [OF Cons False]
        by (simp add: Cons double_percent_Cons double_piece_def m4_pieces.simps [of "CHR ''%'' # _"])
    qed
  qed
qed

text \<open>Formatting the marked text puts the values in.\<close>

definition piece_ok :: "m4_piece \<Rightarrow> bool" where
  "piece_ok p = (case p of Lit c \<Rightarrow> True | Var w \<Rightarrow> list_all name_char w)"

lemma m4_pieces_ok: "list_all piece_ok (m4_pieces s)"
proof (induction s rule: m4_pieces.induct)
  case (1 s)
  have "piece_ok (Var (takeWhile name_char t))" "piece_ok (Lit c)" for t c
    using set_takeWhileD by (fastforce simp: piece_ok_def list_all_iff)+
  then show ?case
    using 1 by (subst m4_pieces.simps) (auto split: list.splits)
qed

lemma percent_name:
  assumes "list_all name_char w"
  shows "percent_dict (''%('' @ w @ '')s'' @ s) di =
    (case dict_get di w of None \<Rightarrow> Inl KeyError | Some v \<Rightarrow> rbind (percent_dict s di) (\<lambda>r. Inr (v @ r)))"
proof -
  have "list_all (\<lambda>c. c \<noteq> CHR '')'') w"
    using assms by (auto simp: list_all_iff name_char_def)
  then have "takeWhile (\<lambda>c. c \<noteq> CHR '')'') (w @ CHR '')'' # CHR ''s'' # s) = w"
    "dropWhile (\<lambda>c. c \<noteq> CHR '')'') (w @ CHR '')'' # CHR ''s'' # s) = CHR '')'' # CHR ''s'' # s"
    using span_at [of "\<lambda>c. c \<noteq> CHR '')''" w "CHR '')'' # CHR ''s'' # s"] by simp_all
  then show ?thesis by (simp add: conversion_def split: option.split)
qed

definition piece_value :: "(string, string) pydict \<Rightarrow> m4_piece \<Rightarrow> string result" where
  "piece_value di p =
     (case p of Lit c \<Rightarrow> Inr [c]
      | Var w \<Rightarrow> (case dict_get di w of None \<Rightarrow> Inl KeyError | Some v \<Rightarrow> Inr v))"

lemma percent_marked:
  "list_all piece_ok ps \<Longrightarrow>
   percent_dict (concat (map marked (concat (map double_piece ps)))) di =
   rbind (rmap (piece_value di) ps) (\<lambda>ss. Inr (concat ss))"
proof (induction ps)
  case (Cons p ps)
  let ?rest = "concat (map marked (concat (map double_piece ps)))"
  have "percent_dict (concat (map marked (double_piece p)) @ ?rest) di =
      rbind (piece_value di p) (\<lambda>v. rbind (percent_dict ?rest di) (\<lambda>r. Inr (v @ r)))"
  proof (cases p)
    case (Lit c)
    then show ?thesis by (simp add: double_piece_def marked_def piece_value_def)
  next
    case (Var w)
    then show ?thesis
      using Cons.prems percent_name [of w ?rest di]
      by (simp add: double_piece_def marked_def piece_value_def piece_ok_def split: option.split)
  qed
  then show ?case using Cons by (simp add: concatenated_Cons)
qed simp

lemma names_double: "m4_names (double_percent s) = m4_names s"
proof -
  have "concat (map (\<lambda>p. case p of Var w \<Rightarrow> [w] | Lit c \<Rightarrow> []) (concat (map double_piece ps))) =
      concat (map (\<lambda>p. case p of Var w \<Rightarrow> [w] | Lit c \<Rightarrow> []) ps)" for ps
    by (induction ps) (auto simp: double_piece_def)
  then show ?thesis by (simp add: m4_names_def m4_pieces_double)
qed

lemma rmap_values:
  "concatenated (rmap (piece_value di) ps) =
   (if list_all (\<lambda>p. \<forall>w. p = Var w \<longrightarrow> dict_get di w \<noteq> None) ps
    then Inr (concat (map (\<lambda>p. case p of Lit c \<Rightarrow> [c] | Var w \<Rightarrow> the (dict_get di w)) ps))
    else Inl KeyError)"
  by (induction ps) (auto simp: concatenated_Cons piece_value_def split: m4_piece.splits option.splits)

lemma names_of_pieces:
  "list_all (\<lambda>p. \<forall>w. p = Var w \<longrightarrow> dict_get di w \<noteq> None) (m4_pieces s) \<longleftrightarrow>
   set (m4_names s) \<subseteq> set (dict_keys di)"
proof -
  have "w \<in> set (m4_names s) \<longleftrightarrow> Var w \<in> set (m4_pieces s)" for w
    by (auto simp: m4_names_def split: m4_piece.splits)
  then show ?thesis by (auto simp: list_all_iff pd.keys_get)
qed

lemma values_of_pieces:
  "concatenated (rmap (piece_value di) (m4_pieces s)) =
   (if set (m4_names s) \<subseteq> set (dict_keys di) then Inr (direct_subst (\<lambda>w. the (dict_get di w)) s)
    else Inl KeyError)"
  by (simp only: rmap_values names_of_pieces direct_subst_def)

lemma direct_subst_cong:
  "(\<And>w. w \<in> set (m4_names s) \<Longrightarrow> f w = g w) \<Longrightarrow> direct_subst f s = direct_subst g s"
  unfolding direct_subst_def
  by (intro arg_cong [where f = concat] map_cong) (auto simp: m4_names_def split: m4_piece.splits)

lemma subst_func_eq:
  "subst_func get_flat input di =
   (let di' = (if di = [] then fold (\<lambda>i. dict_put i (flat_value get_flat i)) (m4_names input) [] else di)
    in (if set (m4_names input) \<subseteq> set (dict_keys di')
        then Inr (direct_subst (\<lambda>w. the (dict_get di' w)) input) else Inl KeyError, di'))"
  by (simp add: subst_func_def Let_def names_double m4_pieces_double percent_marked [OF m4_pieces_ok]
      values_of_pieces)

lemma filled_get:
  "dict_get (fold (\<lambda>i. dict_put i (g i)) xs []) w = (if w \<in> set xs then Some (g w) else None)"
proof (induction xs rule: rev_induct)
  case (snoc x xs)
  then show ?case by (auto simp: pd.get_put)
qed simp

text \<open>C39:
  The output is the input with each \<open>@name@\<close> replaced and nothing else changed, percent signs
  included: with a dictionary by its values, where a missing name is a \<open>KeyError\<close>, and without one
  by the variables of the environment. An empty dictionary is filled with these.
\<close>
theorem subst_func_correct:
  "fst (subst_func get_flat input di) =
     (if di = [] then Inr (direct_subst (flat_value get_flat) input)
      else if set (m4_names input) \<subseteq> set (dict_keys di)
      then Inr (direct_subst (\<lambda>w. the (dict_get di w)) input)
      else Inl KeyError) \<and>
   (\<forall>w. dict_get (snd (subst_func get_flat input di)) w =
     (if di = [] \<and> w \<in> set (m4_names input) then Some (flat_value get_flat w) else dict_get di w))"
proof (cases "di = []")
  case True
  let ?di = "fold (\<lambda>i. dict_put i (flat_value get_flat i)) (m4_names input) []"
  have "direct_subst (\<lambda>w. the (dict_get ?di w)) input = direct_subst (flat_value get_flat) input"
    by (rule direct_subst_cong) (simp add: filled_get)
  then show ?thesis
    using True by (simp add: subst_func_eq Let_def filled_get pd.keys_fold_put)
qed (simp add: subst_func_eq Let_def)

text \<open>
  The dictionary is shared by the files of a generator, so a second file with another variable
  fails.
\<close>

lemma second_file_fails:
  "run_substs (\<lambda>_. ''1'') [''@a@'', ''@b@''] [] = [Inr ''1'', Inl KeyError]"
  by code_simp

section \<open>Copying and substituting files\<close>

definition build_error :: py_error where
  "build_error = OtherException ''WafError''"

text \<open>The result of the function of a copy task: whether the copy worked, the mode of the file set.\<close>

definition copy_func :: "(string \<Rightarrow> string \<Rightarrow> bool) \<Rightarrow> string \<Rightarrow> string \<Rightarrow> nat \<Rightarrow> int \<times> (string \<times> nat) option" where
  "copy_func copy2 infile outfile chmod =
     (if \<not> copy2 infile outfile then (1, None)
      else (0, if chmod \<noteq> 0 then Some (outfile, chmod) else None))"

text \<open>A directory node: what the lookup functions find.\<close>

record bnode =
  node_name :: string
  node_abspath :: string
  node_srcpath :: string
  node_bldpath :: string

record dir_node =
  find_resource :: "string \<Rightarrow> bnode option"
  find_or_declare :: "string \<Rightarrow> bnode option"
  find_dir :: "string \<Rightarrow> bnode option"

text \<open>The tasks of a generator: pairs of an input and an output node.\<close>

definition copy_task :: "dir_node \<Rightarrow> string \<Rightarrow> nat \<Rightarrow> string \<Rightarrow> (bnode \<times> bnode option) result" where
  "copy_task path target n filename =
     (case find_resource path filename of
        None \<Rightarrow> Inl build_error
      | Some node \<Rightarrow>
          Inr (node, find_or_declare path (if target = [] \<or> n > 1 then node_name node else target)))"

definition apply_copy :: "dir_node \<Rightarrow> string \<Rightarrow> string list \<Rightarrow> (bnode \<times> bnode option) list result" where
  "apply_copy path target sources = rmap (copy_task path target (length sources)) sources"

text \<open>\<open>change_ext('')\<close> is given with the node of the source.\<close>

definition subst_task ::
    "dir_node \<Rightarrow> (bnode \<Rightarrow> bnode) \<Rightarrow> string \<Rightarrow> string \<Rightarrow> (bnode \<times> bnode option) result" where
  "subst_task path change_ext target filename =
     (case find_resource path filename of
        None \<Rightarrow> Inl build_error
      | Some node \<Rightarrow>
          Inr (node, if target \<noteq> [] then find_or_declare path target else Some (change_ext node)))"

definition apply_subst ::
    "dir_node \<Rightarrow> (bnode \<Rightarrow> bnode) \<Rightarrow> string \<Rightarrow> string list \<Rightarrow> (bnode \<times> bnode option) list result" where
  "apply_subst path change_ext target sources = rmap (subst_task path change_ext target) sources"

text \<open>\<open>copy_attrs\<close>: a missing attribute is an empty tuple, which is false.\<close>

definition copy_attrs ::
    "(string, 'v) pydict \<Rightarrow> 'v \<Rightarrow> ('v \<Rightarrow> bool) \<Rightarrow> string list \<Rightarrow> bool \<Rightarrow> (string, 'v) pydict \<Rightarrow> (string, 'v) pydict" where
  "copy_attrs orig empty_tuple truth names only_if_set =
     fold (\<lambda>a dest.
       let u = (case dict_get orig a of Some v \<Rightarrow> v | None \<Rightarrow> empty_tuple)
       in if truth u \<or> \<not> only_if_set then dict_put a u dest else dest) names"

text \<open>Of several sources the copies keep their names, but all substituted files get the one target.\<close>

lemma copy_targets:
  assumes "apply_copy path target sources = Inr tasks" and "length sources > 1"
  shows "map snd tasks = map (\<lambda>t. find_or_declare path (node_name (fst t))) tasks"
proof -
  define n where "n = length sources"
  have "list_all2 (\<lambda>x y. copy_task path target n x = Inr y) sources tasks" "n > 1"
    using assms by (simp_all add: apply_copy_def rmap_Inr_iff n_def)
  then show ?thesis
    by (induction rule: list_all2_induct) (auto simp: copy_task_def split: option.splits)
qed

lemma subst_targets:
  assumes "apply_subst path change_ext target sources = Inr tasks" and "target \<noteq> []"
  shows "map snd tasks = replicate (length sources) (find_or_declare path target)"
proof -
  have "list_all2 (\<lambda>x y. subst_task path change_ext target x = Inr y) sources tasks"
    using assms(1) by (simp add: apply_subst_def rmap_Inr_iff)
  then show ?thesis
    using assms(2) by (induction rule: list_all2_induct) (auto simp: subst_task_def split: option.splits)
qed

section \<open>The output of a command\<close>

text \<open>The classes of arguments; a template is the function \<open>template % path\<close>.\<close>

datatype arg_class = InputFile | OutputFile | InputDir | OutputDir

record cmd_arg =
  arg_class :: arg_class
  arg_name :: string
  template :: "string \<Rightarrow> string"
  arg_node :: "bnode option"

definition lookup_arg :: "dir_node \<Rightarrow> cmd_arg \<Rightarrow> bnode option" where
  "lookup_arg path a =
     (case arg_class a of
        InputFile \<Rightarrow> find_resource path (arg_name a)
      | OutputFile \<Rightarrow> find_or_declare path (arg_name a)
      | _ \<Rightarrow> find_dir path (arg_name a))"

text \<open>\<open>find_node\<close>: the message for a missing node has one place for two values, a \<open>TypeError\<close>.\<close>

definition find_node :: "dir_node \<Rightarrow> cmd_arg \<Rightarrow> cmd_arg result" where
  "find_node path a =
     (case lookup_arg path a of
        None \<Rightarrow> Inl TypeError
      | Some n \<Rightarrow> Inr (a\<lparr>arg_node := Some n\<rparr>))"

definition get_path :: "bool \<Rightarrow> cmd_arg \<Rightarrow> string result" where
  "get_path absolute a =
     (case arg_node a of
        None \<Rightarrow> Inl AttributeError
      | Some n \<Rightarrow>
          Inr (template a
            (case arg_class a of
               InputFile \<Rightarrow> if absolute then node_abspath n else node_srcpath n
             | OutputFile \<Rightarrow> if absolute then node_abspath n else node_bldpath n
             | _ \<Rightarrow> node_abspath n)))"

datatype argument = StrArg string | FileArg cmd_arg

datatype program = External string | InTree bnode

record command_output =
  co_command :: program
  co_args :: "argument list"
  co_stdin :: "bnode option"
  co_stdout :: "bnode option"
  co_stderr :: "bnode option"
  co_cwd :: "string option"
  co_env :: "(string, string) pydict option"
  co_inputs :: "bnode list"
  co_outputs :: "bnode list"
  co_always :: bool
  co_after :: "nat list"

text \<open>The attributes of the generator; a dependency is \<open>None\<close> for the generator itself, else its tasks.\<close>

record cmd_generator =
  g_command :: "string option"
  command_is_external :: bool
  g_argv :: "argument list"
  g_stdin :: "string option"
  g_stdout :: "string option"
  g_stderr :: "string option"
  hidden_inputs :: "string list"
  hidden_outputs :: "string list"
  no_inputs :: bool
  no_outputs :: bool
  g_cwd :: "string option"
  os_env :: "(string, string) pydict option"
  dependencies :: "nat list option list"

definition command_program :: "dir_node \<Rightarrow> cmd_generator \<Rightarrow> program result" where
  "command_program path g =
     (case g_command g of
        None \<Rightarrow> Inl build_error
      | Some c \<Rightarrow>
          if command_is_external g then Inr (External c)
          else (case find_resource path c of None \<Rightarrow> Inl AssertionError | Some n \<Rightarrow> Inr (InTree n)))"

definition resolve_arg :: "dir_node \<Rightarrow> argument \<Rightarrow> argument result" where
  "resolve_arg path arg =
     (case arg of StrArg s \<Rightarrow> Inr arg | FileArg a \<Rightarrow> rbind (find_node path a) (\<lambda>a. Inr (FileArg a)))"

definition nodes_of :: "arg_class \<Rightarrow> argument list \<Rightarrow> bnode list" where
  "nodes_of k args =
     concat (map (\<lambda>arg. case arg of
       StrArg s \<Rightarrow> []
     | FileArg a \<Rightarrow> (case arg_node a of Some n \<Rightarrow> if arg_class a = k then [n] else [] | None \<Rightarrow> [])) args)"

definition find_opt :: "(string \<Rightarrow> bnode option) \<Rightarrow> string option \<Rightarrow> bnode option result" where
  "find_opt lookup f =
     (case f of
        None \<Rightarrow> Inr None
      | Some name \<Rightarrow> (case lookup name of None \<Rightarrow> Inl build_error | Some n \<Rightarrow> Inr (Some n)))"

definition find_hidden :: "(string \<Rightarrow> bnode option) \<Rightarrow> string list \<Rightarrow> bnode list result" where
  "find_hidden lookup = rmap (\<lambda>f. case lookup f of None \<Rightarrow> Inl build_error | Some n \<Rightarrow> Inr n)"

definition run_after :: "nat list option list \<Rightarrow> nat list result" where
  "run_after deps =
     rbind (rmap (\<lambda>d. case d of None \<Rightarrow> Inl AssertionError | Some tasks \<Rightarrow> Inr tasks) deps)
       (\<lambda>ts. Inr (concat ts))"

definition opt_list :: "'a option \<Rightarrow> 'a list" where
  "opt_list v = (case v of None \<Rightarrow> [] | Some n \<Rightarrow> [n])"

text \<open>
  The end of \<open>apply_cmd_output\<close>: the checks of the inputs and outputs and the new task. Its local variable
  \<open>cwd\<close> is assigned the variant directory here, whatever it held.
\<close>

definition make_cmd_task ::
    "string \<Rightarrow> cmd_generator \<Rightarrow> program \<Rightarrow> argument list \<Rightarrow> bnode option \<Rightarrow> bnode option \<Rightarrow>
     bnode option \<Rightarrow> bnode list \<Rightarrow> bnode list \<Rightarrow> command_output result" where
  "make_cmd_task variant_dir g cmd args stdin stdout stderr ins outs =
     (if ins = [] \<and> \<not> no_inputs g then Inl build_error
      else if outs = [] \<and> \<not> no_outputs g then Inl build_error
      else rbind (run_after (dependencies g)) (\<lambda>after.
        let cwd = Some variant_dir in
        Inr \<lparr>co_command = cmd, co_args = args, co_stdin = stdin, co_stdout = stdout,
             co_stderr = stderr, co_cwd = cwd, co_env = os_env g,
             co_inputs = ins, co_outputs = outs, co_always = (ins = []),
             co_after = after\<rparr>))"

text \<open>
  The attribute \<open>cwd\<close> of the generator is only compared with \<open>None\<close>: the local variable \<open>cwd\<close> is
  \<open>None\<close> then (here \<open>Some None\<close>) and has no value otherwise.
\<close>

definition apply_cmd_output :: "dir_node \<Rightarrow> string \<Rightarrow> cmd_generator \<Rightarrow> command_output result" where
  "apply_cmd_output path variant_dir g =
     rbind (command_program path g) (\<lambda>cmd.
     let cwd = (if g_cwd g = None then Some (None :: string option) else None) in
     rbind (rmap (resolve_arg path) (g_argv g)) (\<lambda>args.
     rbind (find_opt (find_or_declare path) (g_stdout g)) (\<lambda>stdout.
     rbind (find_opt (find_or_declare path) (g_stderr g)) (\<lambda>stderr.
     rbind (find_opt (find_resource path) (g_stdin g)) (\<lambda>stdin.
     rbind (find_hidden (find_resource path) (hidden_inputs g)) (\<lambda>hidden_in.
     rbind (find_hidden (find_or_declare path) (hidden_outputs g)) (\<lambda>hidden_out.
     make_cmd_task variant_dir g cmd args stdin stdout stderr
       (nodes_of InputFile args @ opt_list stdin @ hidden_in)
       (nodes_of OutputFile args @ opt_list stdout @ opt_list stderr @ hidden_out))))))))"

text \<open>What \<open>Popen\<close> is called with.\<close>

record co_call =
  co_argv :: "string list"
  co_files :: "string option \<times> string option \<times> string option"
  co_dir :: "string option"
  co_environ :: "(string, string) pydict"

definition input_path :: "string option \<Rightarrow> bnode \<Rightarrow> string" where
  "input_path cwd node = (if cwd = None then node_bldpath node else node_abspath node)"

definition arg_text :: "command_output \<Rightarrow> argument \<Rightarrow> string result" where
  "arg_text task arg =
     (case arg of StrArg s \<Rightarrow> Inr s | FileArg a \<Rightarrow> get_path (co_cwd task \<noteq> None) a)"

definition run_cmd_output :: "(string, string) pydict \<Rightarrow> command_output \<Rightarrow> co_call result" where
  "run_cmd_output sys_env task =
     rbind (rmap (arg_text task) (co_args task)) (\<lambda>args.
     let path = map_option (input_path (co_cwd task))
     in Inr \<lparr>co_argv = (case co_command task of InTree n \<Rightarrow> input_path (co_cwd task) n | External c \<Rightarrow> c) # args,
             co_files = (path (co_stdin task), path (co_stdout task), path (co_stderr task)),
             co_dir = co_cwd task,
             co_environ = (case co_env task of None \<Rightarrow> sys_env | Some e \<Rightarrow> e)\<rparr>)"

subsection \<open>The outcome\<close>

definition found :: "(string \<Rightarrow> bnode option) \<Rightarrow> string \<Rightarrow> bool" where
  "found lookup f \<longleftrightarrow> lookup f \<noteq> None"

definition arg_found :: "dir_node \<Rightarrow> argument \<Rightarrow> bool" where
  "arg_found path arg = (case arg of StrArg s \<Rightarrow> True | FileArg a \<Rightarrow> lookup_arg path a \<noteq> None)"

definition is_class :: "arg_class \<Rightarrow> argument \<Rightarrow> bool" where
  "is_class k arg = (case arg of StrArg s \<Rightarrow> False | FileArg a \<Rightarrow> arg_class a = k)"

text \<open>The generator names a command and only files that are found, and has inputs and outputs.\<close>

definition files_found :: "dir_node \<Rightarrow> cmd_generator \<Rightarrow> bool" where
  "files_found path g \<longleftrightarrow>
     pred_option (found (find_or_declare path)) (g_stdout g) \<and>
     pred_option (found (find_or_declare path)) (g_stderr g) \<and>
     pred_option (found (find_resource path)) (g_stdin g) \<and>
     list_all (found (find_resource path)) (hidden_inputs g) \<and>
     list_all (found (find_or_declare path)) (hidden_outputs g)"

definition has_inputs :: "cmd_generator \<Rightarrow> bool" where
  "has_inputs g \<longleftrightarrow>
     list_ex (is_class InputFile) (g_argv g) \<or> g_stdin g \<noteq> None \<or> hidden_inputs g \<noteq> []"

definition has_outputs :: "cmd_generator \<Rightarrow> bool" where
  "has_outputs g \<longleftrightarrow>
     list_ex (is_class OutputFile) (g_argv g) \<or> g_stdout g \<noteq> None \<or> g_stderr g \<noteq> None \<or>
     hidden_outputs g \<noteq> []"

definition program_found :: "dir_node \<Rightarrow> cmd_generator \<Rightarrow> bool" where
  "program_found path g \<longleftrightarrow>
     pred_option (\<lambda>c. command_is_external g \<or> found (find_resource path) c) (g_command g) \<and>
     g_command g \<noteq> None"

definition complete_generator :: "dir_node \<Rightarrow> cmd_generator \<Rightarrow> bool" where
  "complete_generator path g \<longleftrightarrow>
     program_found path g \<and> list_all (arg_found path) (g_argv g) \<and> files_found path g \<and>
     (no_inputs g \<or> has_inputs g) \<and> (no_outputs g \<or> has_outputs g) \<and> None \<notin> set (dependencies g)"

text \<open>The word the program gets for an argument.\<close>

definition arg_word :: "dir_node \<Rightarrow> argument \<Rightarrow> string" where
  "arg_word path arg =
     (case arg of StrArg s \<Rightarrow> s | FileArg a \<Rightarrow> template a (node_abspath (the (lookup_arg path a))))"

definition program_word :: "dir_node \<Rightarrow> cmd_generator \<Rightarrow> string" where
  "program_word path g =
     (let c = the (g_command g)
      in if command_is_external g then c else node_abspath (the (find_resource path c)))"

definition resolved :: "dir_node \<Rightarrow> argument \<Rightarrow> argument" where
  "resolved path arg =
     (case arg of StrArg s \<Rightarrow> arg | FileArg a \<Rightarrow> FileArg (a\<lparr>arg_node := lookup_arg path a\<rparr>))"

lemma rmap_cases:
  assumes "\<And>x. x \<in> set xs \<Longrightarrow> f x = (if P x then Inr (g x) else Inl e)"
  shows "rmap f xs = (if list_all P xs then Inr (map g xs) else Inl e)"
  using assms by (induction xs) auto

lemma rmap_resolve:
  "rmap (resolve_arg path) args =
     (if list_all (arg_found path) args then Inr (map (resolved path) args) else Inl TypeError)"
  by (rule rmap_cases)
    (auto simp: resolve_arg_def arg_found_def resolved_def find_node_def split: argument.splits option.splits)

lemma find_hidden_cases:
  "find_hidden lookup fs = (if list_all (found lookup) fs then Inr (map (the \<circ> lookup) fs) else Inl build_error)"
  unfolding find_hidden_def by (rule rmap_cases) (auto simp: found_def)

lemma find_opt_cases:
  "find_opt lookup f =
     (if pred_option (found lookup) f then Inr (map_option (the \<circ> lookup) f) else Inl build_error)"
  by (auto simp: find_opt_def found_def split: option.splits)

lemma run_after_cases:
  "run_after deps = (if None \<in> set deps then Inl AssertionError else Inr (concat (map the deps)))"
proof -
  have "rmap (\<lambda>d. case d of None \<Rightarrow> Inl AssertionError | Some tasks \<Rightarrow> Inr tasks) deps =
      (if list_all (\<lambda>d. d \<noteq> None) deps then Inr (map the deps) else Inl AssertionError)"
    by (rule rmap_cases) auto
  then show ?thesis by (auto simp: run_after_def list_all_iff)
qed

lemma nodes_of_resolved:
  "list_all (arg_found path) args \<Longrightarrow>
   nodes_of k (map (resolved path) args) = [] \<longleftrightarrow> \<not> list_ex (is_class k) args"
  by (induction args)
    (auto simp: nodes_of_def resolved_def is_class_def arg_found_def split: argument.splits option.splits)

lemma arg_text_resolved:
  "co_cwd task = Some d \<Longrightarrow> list_all (arg_found path) args \<Longrightarrow>
   rmap (arg_text task) (map (resolved path) args) = Inr (map (arg_word path) args)"
  by (induction args)
    (auto simp: arg_text_def resolved_def arg_found_def arg_word_def get_path_def
      split: argument.splits arg_class.splits)

definition program_of :: "dir_node \<Rightarrow> cmd_generator \<Rightarrow> program" where
  "program_of path g =
     (let c = the (g_command g)
      in if command_is_external g then External c else InTree (the (find_resource path c)))"

lemma command_program_cases:
  "program_found path g \<Longrightarrow> command_program path g = Inr (program_of path g)"
  "\<not> program_found path g \<Longrightarrow> \<exists>e \<in> {build_error, AssertionError}. command_program path g = Inl e"
  by (auto simp: command_program_def program_of_def program_found_def found_def Let_def
      split: option.splits if_splits)

text \<open>The task of a complete generator.\<close>

definition inputs_of :: "dir_node \<Rightarrow> cmd_generator \<Rightarrow> bnode list" where
  "inputs_of path g =
     nodes_of InputFile (map (resolved path) (g_argv g)) @
     opt_list (map_option (the \<circ> find_resource path) (g_stdin g)) @
     map (the \<circ> find_resource path) (hidden_inputs g)"

definition outputs_of :: "dir_node \<Rightarrow> cmd_generator \<Rightarrow> bnode list" where
  "outputs_of path g =
     nodes_of OutputFile (map (resolved path) (g_argv g)) @
     opt_list (map_option (the \<circ> find_or_declare path) (g_stdout g)) @
     opt_list (map_option (the \<circ> find_or_declare path) (g_stderr g)) @
     map (the \<circ> find_or_declare path) (hidden_outputs g)"

definition task_of :: "dir_node \<Rightarrow> string \<Rightarrow> cmd_generator \<Rightarrow> command_output" where
  "task_of path variant_dir g =
     \<lparr>co_command = program_of path g, co_args = map (resolved path) (g_argv g),
      co_stdin = map_option (the \<circ> find_resource path) (g_stdin g),
      co_stdout = map_option (the \<circ> find_or_declare path) (g_stdout g),
      co_stderr = map_option (the \<circ> find_or_declare path) (g_stderr g),
      co_cwd = Some variant_dir, co_env = os_env g, co_inputs = inputs_of path g,
      co_outputs = outputs_of path g, co_always = (inputs_of path g = []),
      co_after = concat (map the (dependencies g))\<rparr>"

lemma no_nodes:
  assumes "list_all (arg_found path) (g_argv g)"
  shows "inputs_of path g = [] \<longleftrightarrow> \<not> has_inputs g" and "outputs_of path g = [] \<longleftrightarrow> \<not> has_outputs g"
  using nodes_of_resolved [OF assms]
  by (auto simp: inputs_of_def outputs_of_def has_inputs_def has_outputs_def opt_list_def split: option.splits)

lemma make_cmd_task_eq:
  assumes "list_all (arg_found path) (g_argv g)"
  shows "make_cmd_task variant_dir g (program_of path g) (map (resolved path) (g_argv g))
      (map_option (the \<circ> find_resource path) (g_stdin g))
      (map_option (the \<circ> find_or_declare path) (g_stdout g))
      (map_option (the \<circ> find_or_declare path) (g_stderr g)) (inputs_of path g) (outputs_of path g) =
    (if \<not> (no_inputs g \<or> has_inputs g) \<or> \<not> (no_outputs g \<or> has_outputs g) then Inl build_error
     else if None \<in> set (dependencies g) then Inl AssertionError
     else Inr (task_of path variant_dir g))"
  by (simp add: make_cmd_task_def no_nodes [OF assms] run_after_cases task_of_def Let_def)

lemma apply_cmd_output_eq:
  assumes "program_found path g"
  shows "apply_cmd_output path variant_dir g =
    (if \<not> list_all (arg_found path) (g_argv g) then Inl TypeError
     else if \<not> files_found path g \<or> \<not> (no_inputs g \<or> has_inputs g) \<or> \<not> (no_outputs g \<or> has_outputs g)
     then Inl build_error
     else if None \<in> set (dependencies g) then Inl AssertionError
     else Inr (task_of path variant_dir g))"
proof (cases "list_all (arg_found path) (g_argv g) \<and> files_found path g")
  case True
  then have "apply_cmd_output path variant_dir g =
      make_cmd_task variant_dir g (program_of path g) (map (resolved path) (g_argv g))
      (map_option (the \<circ> find_resource path) (g_stdin g))
      (map_option (the \<circ> find_or_declare path) (g_stdout g))
      (map_option (the \<circ> find_or_declare path) (g_stderr g)) (inputs_of path g) (outputs_of path g)"
    by (simp add: apply_cmd_output_def command_program_cases(1) [OF assms] rmap_resolve find_opt_cases
        find_hidden_cases files_found_def inputs_of_def outputs_of_def Let_def)
  then show ?thesis using True by (simp add: make_cmd_task_eq)
next
  case False
  then show ?thesis
    unfolding apply_cmd_output_def
    by (auto simp add: command_program_cases(1) [OF assms] rmap_resolve find_opt_cases
        find_hidden_cases files_found_def Let_def)
qed

lemma task_call:
  assumes "list_all (arg_found path) (g_argv g)"
  shows "run_cmd_output sys_env (task_of path variant_dir g) =
    Inr \<lparr>co_argv = program_word path g # map (arg_word path) (g_argv g),
         co_files = (map_option (\<lambda>f. node_abspath (the (find_resource path f))) (g_stdin g),
           map_option (\<lambda>f. node_abspath (the (find_or_declare path f))) (g_stdout g),
           map_option (\<lambda>f. node_abspath (the (find_or_declare path f))) (g_stderr g)),
         co_dir = Some variant_dir,
         co_environ = (case os_env g of None \<Rightarrow> sys_env | Some e \<Rightarrow> e)\<rparr>"
  using arg_text_resolved [of "task_of path variant_dir g" variant_dir path "g_argv g"] assms
  by (simp add: run_cmd_output_def task_of_def program_of_def program_word_def input_path_def
      option.map_comp comp_def Let_def)

lemma cwd_not_used: "apply_cmd_output path variant_dir (g\<lparr>g_cwd := d\<rparr>) = apply_cmd_output path variant_dir g"
proof -
  have "command_program path (g\<lparr>g_cwd := d\<rparr>) = command_program path g"
    by (simp add: command_program_def split: option.split)
  moreover have "make_cmd_task variant_dir (g\<lparr>g_cwd := d\<rparr>) = make_cmd_task variant_dir g"
    by (intro ext) (simp add: make_cmd_task_def cong: if_cong)
  ultimately show ?thesis by (simp add: apply_cmd_output_def Let_def)
qed

text \<open>C40:
  A generator is made a task exactly if its command, arguments and files are found, it has inputs
  and outputs (or says that it has none) and does not depend on itself. The task then calls the
  program with the words of the generator, each file by its absolute path in its template, with
  the given streams and environment; it is run every time if there are no inputs. Else the outcome is
  one of three errors. The directory of the program is always the variant directory: the outcome is the same for
  every value of the attribute \<open>cwd\<close>, although its comment says that the program runs there.
\<close>
theorem cmd_output_correct:
  "(if complete_generator path g
   then \<exists>task. apply_cmd_output path variant_dir g = Inr task \<and>
     co_inputs task = inputs_of path g \<and> co_outputs task = outputs_of path g \<and>
     (co_always task \<longleftrightarrow> \<not> has_inputs g) \<and>
     run_cmd_output sys_env task =
       Inr \<lparr>co_argv = program_word path g # map (arg_word path) (g_argv g),
         co_files = (map_option (\<lambda>f. node_abspath (the (find_resource path f))) (g_stdin g),
           map_option (\<lambda>f. node_abspath (the (find_or_declare path f))) (g_stdout g),
           map_option (\<lambda>f. node_abspath (the (find_or_declare path f))) (g_stderr g)),
         co_dir = Some variant_dir,
         co_environ = (case os_env g of None \<Rightarrow> sys_env | Some e \<Rightarrow> e)\<rparr>
   else \<exists>e. apply_cmd_output path variant_dir g = Inl e \<and> e \<in> {build_error, AssertionError, TypeError}) \<and>
   apply_cmd_output path variant_dir (g\<lparr>g_cwd := d\<rparr>) = apply_cmd_output path variant_dir g"
proof (cases "complete_generator path g")
  case True
  then have "apply_cmd_output path variant_dir g = Inr (task_of path variant_dir g)"
    by (simp add: complete_generator_def apply_cmd_output_eq)
  then show ?thesis
    using True by (simp add: task_call complete_generator_def cwd_not_used) (simp add: task_of_def no_nodes)
next
  case False
  then show ?thesis
    using command_program_cases(2) [of path g]
    by (cases "program_found path g")
      (auto simp: apply_cmd_output_eq complete_generator_def cwd_not_used, auto simp: apply_cmd_output_def Let_def)
qed

text \<open>A missing input file is not reported: its message cannot be formatted.\<close>

lemma missing_file_type_error:
  "lookup_arg path a = None \<Longrightarrow> find_node path a = Inl TypeError"
  by (simp add: find_node_def)

end
