(* ===== verification/WafBoost.thy ===== *)
theory WafBoost
  imports ShLex WafCommand "HOL-Library.List_Lexorder" "HOL-Library.Char_ord" "HOL-Library.Product_Lexorder"
begin

text \<open>
  The search for the Boost libraries, \<open>src/waf-tools/boost.py\<close>: the directory of the headers, the
  version, the name of the toolset, the files of the libraries and the test whether they can be
  linked. Regular expressions (\<open>re.search\<close>), the file system, the test programs and the
  environment of the compiler are arguments.
\<close>

section \<open>The outside\<close>

text \<open>A failed configuration; a call with \<open>mandatory=False\<close> catches it, but no other exception.\<close>

definition config_error :: py_error where
  "config_error = OtherException ''ConfigurationError''"

text \<open>
  \<open>headers\<close>: whether a directory has the version file, \<open>header_text\<close>: what it holds if it can be
  read, \<open>boost_files\<close>: the files \<open>*boost_*\<close> of a directory if it exists, \<open>checked_version\<close>: the
  result of the test program.
\<close>

record boost_host =
  platform :: string
  include_var :: string
  lib_var :: string
  headers :: "string \<Rightarrow> bool"
  header_text :: "string \<Rightarrow> string option"
  checked_version :: "string \<Rightarrow> string result"
  boost_files :: "string \<Rightarrow> string list option"
  all_files :: "string \<Rightarrow> string list"
  rsearch :: "string \<Rightarrow> string \<Rightarrow> bool"
  cxx_path :: string
  cxx_name :: string
  cc_name :: string
  shlib_pattern :: string
  stlib_pattern :: string

definition boost_libs :: "string list" where
  "boost_libs = [''/usr/lib/x86_64-linux-gnu'', ''/usr/lib/i386-linux-gnu'', ''/usr/lib'',
     ''/usr/local/lib'', ''/opt/local/lib'', ''/sw/lib'', ''/lib'']"

definition boost_includes :: "string list" where
  "boost_includes = [''/usr/include'', ''/usr/local/include'', ''/opt/local/include'', ''/sw/include'']"

section \<open>Headers and version\<close>

definition has_version_file :: "boost_host \<Rightarrow> string \<Rightarrow> bool" where
  "has_version_file host d \<longleftrightarrow> d \<noteq> [] \<and> headers host d"

definition boost_get_includes :: "boost_host \<Rightarrow> string \<Rightarrow> string result" where
  "boost_get_includes host includes =
     (if includes \<noteq> [] \<and> has_version_file host includes then Inr includes
      else (case find (has_version_file host) (split_char CHR '';'' (include_var host) @ boost_includes) of
              Some d \<Rightarrow> Inr d
            | None \<Rightarrow> Inl config_error))"

text \<open>\<open>^#define\s+BOOST_LIB_VERSION\s+"(.*)"\<close> at the start of a line.\<close>

definition skip_spaces :: "string \<Rightarrow> string option" where
  "skip_spaces s = (case s of [] \<Rightarrow> None | c # t \<Rightarrow> if is_ws c then Some (dropWhile is_ws t) else None)"

definition version_line :: "string \<Rightarrow> string option" where
  "version_line s =
     Option.bind (match_text ''#define'' s) (\<lambda>s.
     Option.bind (skip_spaces s) (\<lambda>s.
     Option.bind (match_text ''BOOST_LIB_VERSION'' s) (\<lambda>s.
     Option.bind (skip_spaces s) (\<lambda>s.
     Option.bind (match_text [CHR 0x22] s) (\<lambda>s.
     (case dropWhile (\<lambda>c. c \<noteq> CHR 0x22) (rev (takeWhile (\<lambda>c. c \<noteq> CHR 0x0A) s)) of
        [] \<Rightarrow> None
      | q # t \<Rightarrow> Some (rev t)))))))"

fun version_search :: "bool \<Rightarrow> string \<Rightarrow> string option" where
  "version_search line_start [] = None"
| "version_search line_start (c # s) =
     (case (if line_start then version_line (c # s) else None) of
        Some v \<Rightarrow> Some v
      | None \<Rightarrow> version_search (c = CHR 0x0A) s)"

definition boost_get_version :: "boost_host \<Rightarrow> string \<Rightarrow> string result" where
  "boost_get_version host d =
     (let found = (if has_version_file host d then Option.bind (header_text host d) (version_search True) else None)
      in case found of Some v \<Rightarrow> Inr v | None \<Rightarrow> checked_version host d)"

section \<open>Toolset\<close>

datatype toolset = Name string | DetectIntel | DetectClang | DetectMingw

definition boost_toolsets :: "(string, toolset) pydict" where
  "boost_toolsets =
     [(''borland'', Name ''bcb''), (''clang'', DetectClang), (''como'', Name ''como''), (''cw'', Name ''cw''),
      (''darwin'', Name ''xgcc''), (''edg'', Name ''edg''), (''g++'', DetectMingw), (''gcc'', DetectMingw),
      (''icpc'', DetectIntel), (''intel'', DetectIntel), (''kcc'', Name ''kcc''), (''kylix'', Name ''bck''),
      (''mipspro'', Name ''mp''), (''mingw'', Name ''mgw''), (''msvc'', Name ''vc''), (''qcc'', Name ''qcc''),
      (''sun'', Name ''sw''), (''sunc++'', Name ''sw''), (''tru64cxx'', Name ''tru''), (''vacpp'', Name ''xlc'')]"

definition detect :: "boost_host \<Rightarrow> toolset \<Rightarrow> string" where
  "detect host t =
     (case t of
        Name s \<Rightarrow> s
      | DetectIntel \<Rightarrow> if platform host = ''win32'' then ''iw'' else ''il''
      | DetectClang \<Rightarrow> if platform host = ''darwin'' then ''clang-darwin'' else ''clang''
      | DetectMingw \<Rightarrow> if rsearch host ''MinGW'' (cxx_path host) then ''mgw'' else ''gcc'')"

text \<open>Without a name and for an unknown compiler the empty string is called.\<close>

definition boost_get_toolset :: "boost_host \<Rightarrow> string \<Rightarrow> string result" where
  "boost_get_toolset host cc =
     (let key = (if cc \<noteq> [] then cc
                 else if dict_get boost_toolsets (platform host) \<noteq> None then platform host
                 else cxx_name host)
      in case dict_get boost_toolsets key of
           Some t \<Rightarrow> Inr (detect host t)
         | None \<Rightarrow> if cc \<noteq> [] then Inr cc else Inl TypeError)"

section \<open>The files of the libraries\<close>

text \<open>The loop over the known directories: the last lookup and the files found.\<close>

fun search_dirs ::
    "boost_host \<Rightarrow> string list \<Rightarrow> (string \<times> string list option) \<times> string list \<Rightarrow>
     (string \<times> string list option) \<times> string list" where
  "search_dirs host [] st = st"
| "search_dirs host (d # ds) (path, files) =
     (if d = [] then search_dirs host ds (path, files)
      else
        let fs = boost_files host d; files = (case fs of Some xs \<Rightarrow> xs | None \<Rightarrow> files)
        in if fs \<noteq> None \<and> files \<noteq> [] then ((d, fs), files)
           else
             let d64 = d @ ''64''; fs64 = boost_files host d64;
                 files = (case fs64 of Some xs \<Rightarrow> xs | None \<Rightarrow> files)
             in if fs64 \<noteq> None \<and> files \<noteq> [] then ((d64, fs64), files)
                else search_dirs host ds ((d64, fs64), files))"

definition boost_get_libs_path :: "boost_host \<Rightarrow> string \<Rightarrow> (string \<times> string list) result" where
  "boost_get_libs_path host libs =
     (let search = (\<lambda>st. case search_dirs host (split_char CHR '';'' (lib_var host) @ boost_libs) st of
            ((d, fs), files) \<Rightarrow> if fs = None then Inl config_error else Inr (d, files))
      in if libs \<noteq> [] then
           (case boost_files host libs of
              None \<Rightarrow> Inl AttributeError
            | Some files \<Rightarrow>
                if files \<noteq> [] then Inr (libs, files) else search ((libs, Some files), files))
         else search (([], None), []))"

section \<open>Choosing the libraries\<close>

text \<open>\<open>sorted(files, key=(len, name), reverse=True)\<close>.\<close>

definition sort_files :: "string list \<Rightarrow> string list" where
  "sort_files files = rev (sort_key (\<lambda>f. (length f, f)) (rev files))"

definition find_lib :: "boost_host \<Rightarrow> string list \<Rightarrow> string \<Rightarrow> string option" where
  "find_lib host files pattern = find (rsearch host pattern) files"

text \<open>\<open>name[:name.rfind('.')]\<close>: without a dot the last character is cut off.\<close>

definition before_last_dot :: "string \<Rightarrow> string" where
  "before_last_dot name =
     (case dropWhile (\<lambda>c. c \<noteq> CHR ''.'') (rev name) of [] \<Rightarrow> butlast name | d # t \<Rightarrow> rev t)"

definition format_lib_name :: "boost_host \<Rightarrow> string \<Rightarrow> string" where
  "format_lib_name host name =
     before_last_dot (if startswith ''lib'' name \<and> cc_name host \<noteq> ''msvc'' then drop 3 name else name)"

text \<open>The names are a text or a list; \<open>to_list\<close> cuts a text at white space.\<close>

datatype lib_names = LibText string | LibList "string list"

definition ws_words :: "string \<Rightarrow> string list" where
  "ws_words s = filter (\<lambda>w. w \<noteq> []) (split_char CHR '' '' (map (\<lambda>c. if is_ws c then CHR '' '' else c) s))"

definition to_list :: "lib_names \<Rightarrow> string list" where
  "to_list l = (case l of LibText s \<Rightarrow> ws_words s | LibList xs \<Rightarrow> xs)"

definition given :: "lib_names \<Rightarrow> bool" where
  "given l \<longleftrightarrow> (case l of LibText s \<Rightarrow> s \<noteq> [] | LibList xs \<Rightarrow> xs \<noteq> [])"

definition lib_in :: "string \<Rightarrow> lib_names \<Rightarrow> bool" where
  "lib_in name l \<longleftrightarrow> (case l of LibText s \<Rightarrow> str_in name s | LibList xs \<Rightarrow> name \<in> set xs)"

record boost_params =
  p_includes :: string
  p_libs :: string
  p_mt :: bool
  p_abi :: string
  p_autodetect :: bool
  p_toolset :: string
  p_python :: string
  p_lib :: lib_names
  p_stlib :: lib_names

definition tags_pat :: "boost_params \<Rightarrow> bool \<Rightarrow> string" where
  "tags_pat p is_static =
     (if p_mt p then ''-mt'' else []) @
     (if p_abi p \<noteq> [] then (if is_static then ''-s'' else ''-'') @ p_abi p
      else if is_static then ''-s'' else [])"

text \<open>The part of a library pattern behind \<open>%s\<close>: \<open>partition('%s')[2]\<close>.\<close>

fun after_place :: "string \<Rightarrow> string" where
  "after_place [] = []"
| "after_place (c # s) = (if startswith ''%s'' (c # s) then tl s else after_place s)"

definition lib_ext :: "boost_host \<Rightarrow> bool \<Rightarrow> string" where
  "lib_ext host is_static = after_place (if is_static then stlib_pattern host else shlib_pattern host)"

text \<open>The tags of the Python library, with \<open>kw['python'][0]\<close>.\<close>

definition python_tags :: "string \<Rightarrow> string \<Rightarrow> string result" where
  "python_tags tags python =
     rbind (py_index python 0) (\<lambda>c.
     Inr (''('' @ tags @ '')?((-py'' @ python @ '')|(-py'' @ [c] @ ''(?=[^0-9]))|('' @ python @ '')|('' @ [c] @
       ''(?=[^0-9]))|(?=[^0-9])(?!-py))''))"

text \<open>The patterns for a library, from the strictest to the weakest.\<close>

definition lib_patterns :: "string \<Rightarrow> string \<Rightarrow> string \<Rightarrow> string \<Rightarrow> string \<Rightarrow> string list" where
  "lib_patterns toolset_pat tags version ext lib =
     [''boost_'' @ lib @ toolset_pat @ tags @ version @ ext @ ''$'',
      ''boost_'' @ lib @ tags @ version @ ext @ ''$'',
      ''boost_'' @ lib @ toolset_pat @ tags @ ext @ ''$'',
      ''boost_'' @ lib @ tags @ ext @ ''$'',
      ''boost_'' @ lib @ ext @ ''$'',
      ''boost_'' @ lib]"

definition first_some :: "('a \<Rightarrow> 'b option) \<Rightarrow> 'a list \<Rightarrow> 'b option" where
  "first_some f xs = foldr (\<lambda>x r. case f x of Some y \<Rightarrow> Some y | None \<Rightarrow> r) xs None"

definition match_lib ::
    "boost_host \<Rightarrow> boost_params \<Rightarrow> string list \<Rightarrow> string \<Rightarrow> string \<Rightarrow> bool \<Rightarrow> string \<Rightarrow> string result" where
  "match_lib host p files toolset_pat version is_static lib =
     rbind (if lib = ''python'' then python_tags (tags_pat p is_static) (p_python p)
            else Inr (tags_pat p is_static)) (\<lambda>tags.
     case first_some (find_lib host files)
            (lib_patterns toolset_pat tags version (lib_ext host is_static) lib) of
       Some f \<Rightarrow> Inr (format_lib_name host f)
     | None \<Rightarrow> Inl config_error)"

definition match_libs ::
    "boost_host \<Rightarrow> boost_params \<Rightarrow> string list \<Rightarrow> string \<Rightarrow> string \<Rightarrow> lib_names \<Rightarrow> bool \<Rightarrow> string list result" where
  "match_libs host p files toolset_pat version names is_static =
     rmap (match_lib host p files toolset_pat version is_static) (to_list names)"

definition boost_get_libs ::
    "boost_host \<Rightarrow> boost_params \<Rightarrow> string \<Rightarrow> (string \<times> string list \<times> string list) result" where
  "boost_get_libs host p boost_version =
     rbind (boost_get_libs_path host (p_libs p)) (\<lambda>(path, files).
     let files = sort_files files
     in rbind (boost_get_toolset host (p_toolset p)) (\<lambda>toolset.
        let toolset_pat = ''(-'' @ toolset @ ''[0-9]{0,3})''; version = ''-'' @ boost_version
        in rbind (match_libs host p files toolset_pat version (p_lib p) False) (\<lambda>libs.
           rbind (match_libs host p files toolset_pat version (p_stlib p) True) (\<lambda>stlibs.
           Inr (path, libs, stlibs)))))"

section \<open>Checking Boost\<close>

text \<open>The environment of the build: lists of strings; a missing variable is empty.\<close>

type_synonym conf_env = "(string, string list) pydict"

definition env_get :: "conf_env \<Rightarrow> string \<Rightarrow> string list" where
  "env_get env k = (case dict_get env k of Some v \<Rightarrow> v | None \<Rightarrow> [])"

definition env_append :: "string \<Rightarrow> string list \<Rightarrow> conf_env \<Rightarrow> conf_env" where
  "env_append k xs env = dict_put k (env_get env k @ xs) env"

text \<open>A command line option that is set wins over the keyword.\<close>

definition merge_params :: "boost_params \<Rightarrow> boost_params \<Rightarrow> boost_params" where
  "merge_params opts kw =
     (let text = (\<lambda>f. if f opts \<noteq> [] then f opts else f kw)
      in \<lparr>p_includes = text p_includes, p_libs = text p_libs, p_mt = (p_mt opts \<or> p_mt kw),
          p_abi = text p_abi, p_autodetect = (p_autodetect opts \<or> p_autodetect kw),
          p_toolset = text p_toolset, p_python = text p_python, p_lib = p_lib kw, p_stlib = p_stlib kw\<rparr>)"

text \<open>The test programs that are linked; \<open>links\<close> says whether one can be in an environment.\<close>

definition link_tests :: "boost_params \<Rightarrow> string list" where
  "link_tests p =
     (if lib_in ''system'' (p_lib p) \<or> lib_in ''system'' (p_stlib p) then [''BOOST_ERROR_CODE''] else []) @
     (if lib_in ''thread'' (p_lib p) \<or> lib_in ''thread'' (p_stlib p) then [''BOOST_THREAD_CODE''] else [])"

definition try_link :: "(conf_env \<Rightarrow> string \<Rightarrow> bool) \<Rightarrow> boost_params \<Rightarrow> conf_env \<Rightarrow> bool" where
  "try_link links p env \<longleftrightarrow> list_all (links env) (link_tests p)"

text \<open>The combinations of flags: the environment is restored after a failed one.\<close>

fun try_flags :: "(conf_env \<Rightarrow> bool) \<Rightarrow> string \<Rightarrow> string list list \<Rightarrow> conf_env \<Rightarrow> conf_env \<times> unit result" where
  "try_flags link var [] env = (env, Inl config_error)"
| "try_flags link var (flags # combinations) env =
     (let env' = env_append (''CXXFLAGS_'' @ var) flags env
      in if link env' then (env', Inr ()) else try_flags link var combinations env)"

text \<open>\<open>pattern % ''\<close>.\<close>

fun fill_place :: "string \<Rightarrow> string \<Rightarrow> string" where
  "fill_place [] v = []"
| "fill_place (c # s) v = (if startswith ''%s'' (c # s) then v @ tl s else c # fill_place s v)"

definition without_shared :: "string \<Rightarrow> string \<Rightarrow> string list \<Rightarrow> conf_env \<Rightarrow> conf_env" where
  "without_shared var path libs env =
     dict_del (''LIBPATH_'' @ var) (dict_del (''LIB_'' @ var)
       (dict_put (''STLIB_'' @ var) libs (dict_put (''STLIBPATH_'' @ var) [path] env)))"

definition detect_linkage ::
    "boost_host \<Rightarrow> (conf_env \<Rightarrow> string \<Rightarrow> bool) \<Rightarrow> boost_params \<Rightarrow> string \<Rightarrow> string \<Rightarrow> string \<Rightarrow> string list \<Rightarrow>
     conf_env \<Rightarrow> conf_env \<times> unit result" where
  "detect_linkage host links p kw_toolset var path libs env =
     (case boost_get_toolset host kw_toolset of
        Inl e \<Rightarrow> (env, Inl e)
      | Inr toolset \<Rightarrow>
          if toolset \<noteq> ''vc'' then (env, Inl config_error)
          else
            let env = env_append (''DEFINES_'' @ var) [''BOOST_ALL_NO_LIB''] env;
                has_dlls = list_ex (endswith (fill_place (shlib_pattern host) [])) (all_files host path);
                env = (if has_dlls then env else without_shared var path libs env)
            in try_flags (try_link links p) var [[''/MD'', ''/EHsc''], []] env)"

text \<open>The linking stage, with the environment holding the libraries already.\<close>

definition check_linkage ::
    "boost_host \<Rightarrow> (conf_env \<Rightarrow> string \<Rightarrow> bool) \<Rightarrow> boost_params \<Rightarrow> string \<Rightarrow> string \<Rightarrow> string \<Rightarrow> string list \<Rightarrow>
     conf_env \<Rightarrow> conf_env \<times> unit result" where
  "check_linkage host links p kw_toolset var path libs env =
     (if p_autodetect p then detect_linkage host links p kw_toolset var path libs env
      else if try_link links p env then (env, Inr ()) else (env, Inl config_error))"

definition store_libs :: "string \<Rightarrow> string \<Rightarrow> string list \<Rightarrow> string list \<Rightarrow> conf_env \<Rightarrow> conf_env" where
  "store_libs var path libs stlibs env =
     dict_put (''STLIB_'' @ var) stlibs (dict_put (''LIB_'' @ var) libs
       (dict_put (''STLIBPATH_'' @ var) [path] (dict_put (''LIBPATH_'' @ var) [path] env)))"

text \<open>\<open>check_boost\<close>: the environment afterwards, also when it raises.\<close>

definition check_boost ::
    "boost_host \<Rightarrow> (conf_env \<Rightarrow> string \<Rightarrow> bool) \<Rightarrow> boost_params \<Rightarrow> string \<Rightarrow> boost_params \<Rightarrow> conf_env \<Rightarrow>
     conf_env \<times> unit result" where
  "check_boost host links opts var kw env =
     (if env_get env ''CXX'' = [] then (env, Inl config_error)
      else
        let p = merge_params opts kw
        in case boost_get_includes host (p_includes p) of
             Inl e \<Rightarrow> (env, Inl e)
           | Inr inc \<Rightarrow>
               let env = dict_put (''INCLUDES_'' @ var) [inc] env
               in case boost_get_version host inc of
                    Inl e \<Rightarrow> (env, Inl e)
                  | Inr version \<Rightarrow>
                      let env = dict_put ''BOOST_VERSION'' [version] env
                      in if \<not> given (p_lib p) \<and> \<not> given (p_stlib p) then (env, Inr ())
                         else (case boost_get_libs host p version of
                                 Inl e \<Rightarrow> (env, Inl e)
                               | Inr (path, libs, stlibs) \<Rightarrow>
                                   check_linkage host links p (p_toolset kw) var path libs
                                     (store_libs var path libs stlibs env)))"

section \<open>What is found\<close>

text \<open>The best file for a library: the first pattern that fits any, and the greatest file it fits.\<close>

definition fits :: "boost_host \<Rightarrow> string list \<Rightarrow> string \<Rightarrow> string list" where
  "fits host files pattern = filter (rsearch host pattern) files"

definition greatest :: "string list \<Rightarrow> string" where
  "greatest fs = snd (Max ((\<lambda>f. (length f, f)) ` set fs))"

lemma find_sort_files:
  "find P (sort_files files) = (if filter P files = [] then None else Some (greatest (filter P files)))"
proof -
  let ?k = "\<lambda>f :: string. (length f, f)"
  let ?s = "sort_files files"
  have set: "set ?s = set files" by (simp add: sort_files_def)
  have sorted: "sorted (map ?k (rev ?s))" by (simp add: sort_files_def)
  show ?thesis
  proof (cases "find P ?s")
    case None
    then have "filter P files = []" by (simp add: find_None_iff set filter_empty_conv)
    then show ?thesis using None by simp
  next
    case (Some f)
    then obtain i where i: "i < length ?s" "P (?s ! i)" "f = ?s ! i" "\<forall>j < i. \<not> P (?s ! j)"
      by (auto simp: find_Some_iff)
    have desc: "?k (?s ! b) \<le> ?k (?s ! a)" if "a \<le> b" "b < length ?s" for a b
    proof -
      have "sorted_wrt (\<lambda>x y. y \<le> x) (map ?k ?s)"
        using sorted by (simp add: rev_map [symmetric] sorted_wrt_rev)
      then show ?thesis
        using that by (cases "a = b") (auto simp: sorted_wrt_iff_nth_less)
    qed
    have "?k g \<le> ?k f" if "g \<in> set (filter P files)" for g
    proof -
      from that have "g \<in> set ?s" "P g" using set by auto
      then obtain j where "j < length ?s" "?s ! j = g" "P g" by (auto simp: in_set_conv_nth)
      then show ?thesis using desc [of i j] i by (cases "j < i") auto
    qed
    moreover have f: "f \<in> set (filter P files)" using i set nth_mem [OF i(1)] by auto
    ultimately have "Max (?k ` set (filter P files)) = ?k f" by (intro Max_eqI) auto
    then have "greatest (filter P files) = f" unfolding greatest_def by (simp only: snd_conv)
    moreover have "filter P files \<noteq> []" using f by (metis list.set_cases empty_iff list.set(1))
    ultimately show ?thesis using Some by simp
  qed
qed

lemma first_some_find:
  "(\<And>x. f x = (if P x then Some (g x) else None)) \<Longrightarrow> first_some f xs = map_option g (find P xs)"
  by (induction xs) (auto simp: first_some_def)

definition tags_for :: "boost_params \<Rightarrow> bool \<Rightarrow> string \<Rightarrow> string" where
  "tags_for p is_static lib =
     (if lib = ''python'' then (case python_tags (tags_pat p is_static) (p_python p) of Inr t \<Rightarrow> t | Inl e \<Rightarrow> [])
      else tags_pat p is_static)"

definition best_pattern ::
    "boost_host \<Rightarrow> boost_params \<Rightarrow> string list \<Rightarrow> string \<Rightarrow> string \<Rightarrow> bool \<Rightarrow> string \<Rightarrow> string option" where
  "best_pattern host p files toolset_pat version is_static lib =
     find (\<lambda>pattern. fits host files pattern \<noteq> [])
       (lib_patterns toolset_pat (tags_for p is_static lib) version (lib_ext host is_static) lib)"

lemma match_lib_eq:
  assumes "p_python p \<noteq> []"
  shows "match_lib host p (sort_files files) toolset_pat version is_static lib =
    (case best_pattern host p files toolset_pat version is_static lib of
       None \<Rightarrow> Inl config_error
     | Some pattern \<Rightarrow> Inr (format_lib_name host (greatest (fits host files pattern))))"
proof -
  have python: "\<exists>t. python_tags (tags_pat p is_static) (p_python p) = Inr t"
    using assms py_index_nonneg [of 0 "p_python p"] by (simp add: python_tags_def)
  have "first_some (find_lib host (sort_files files)) pats =
      map_option (\<lambda>pattern. greatest (fits host files pattern)) (find (\<lambda>pattern. fits host files pattern \<noteq> []) pats)"
    for pats
    by (rule first_some_find) (simp add: find_lib_def find_sort_files fits_def)
  then show ?thesis
    using python by (auto simp: match_lib_def best_pattern_def tags_for_def split: option.split)
qed

text \<open>
  The libraries are found exactly if each has a file that fits one of its patterns; then each is
  linked with the file that fits its strictest such pattern, and of several with the longest
  (and then greatest) name.
\<close>
theorem match_libs_correct:
  assumes "p_python p \<noteq> []"
  shows "match_libs host p (sort_files files) toolset_pat version names is_static =
    (let best = best_pattern host p files toolset_pat version is_static
     in if list_all (\<lambda>lib. best lib \<noteq> None) (to_list names)
        then Inr (map (\<lambda>lib. format_lib_name host (greatest (fits host files (the (best lib))))) (to_list names))
        else Inl config_error)"
proof -
  have "rmap (match_lib host p (sort_files files) toolset_pat version is_static) libs =
    (let best = best_pattern host p files toolset_pat version is_static
     in if list_all (\<lambda>lib. best lib \<noteq> None) libs
        then Inr (map (\<lambda>lib. format_lib_name host (greatest (fits host files (the (best lib))))) libs)
        else Inl config_error)" for libs
    by (induction libs) (auto simp: match_lib_eq [OF assms] Let_def split: option.splits)
  then show ?thesis by (simp add: match_libs_def)
qed

section \<open>Use by the build\<close>

text \<open>
  \<open>configure\<close> of \<open>src/src/wscript\<close>: two attempts, of which the second adds a keyword that
  \<open>check_boost\<close> does not read. \<open>mandatory=False\<close> catches a failed configuration only.
\<close>

definition optional_boost ::
    "boost_host \<Rightarrow> (conf_env \<Rightarrow> string \<Rightarrow> bool) \<Rightarrow> boost_params \<Rightarrow> boost_params \<Rightarrow> conf_env \<Rightarrow> conf_env result" where
  "optional_boost host links opts kw env =
     (case check_boost host links opts ''BOOST'' kw env of
        (env, Inl e) \<Rightarrow> if e = config_error then Inr env else Inl e
      | (env, Inr u) \<Rightarrow> Inr env)"

definition configure_boost ::
    "boost_host \<Rightarrow> (conf_env \<Rightarrow> string \<Rightarrow> bool) \<Rightarrow> boost_params \<Rightarrow> boost_params \<Rightarrow> conf_env \<Rightarrow> conf_env result" where
  "configure_boost host links opts kw env =
     rbind (optional_boost host links opts kw env) (\<lambda>env.
     if env_get env ''LIB_BOOST'' \<noteq> [] then Inr env
     else rbind (optional_boost host links opts kw env) (\<lambda>env.
       Inr (if env_get env ''LIB_BOOST'' \<noteq> [] then env else dict_put ''LIB_BOOST'' [] env)))"

text \<open>The check of \<open>src/src/openflow/wscript\<close>.\<close>

definition present_lib :: "string \<Rightarrow> string" where
  "present_lib name =
     (let name = (if startswith ''boost_'' name then drop 6 name else name)
      in if endswith ''-mt'' name then take (length name - 3) name else name)"

definition missing_boost_libs :: "string list \<Rightarrow> string list \<Rightarrow> string list" where
  "missing_boost_libs required lib_boost =
     filter (\<lambda>lib. lib \<notin> set (map present_lib lib_boost)) required"

lemma env_get_put [simp]: "env_get (dict_put k v env) k' = (if k' = k then v else env_get env k')"
  by (simp add: env_get_def pd.get_put)

lemma env_get_append [simp]:
  "env_get (env_append k xs env) k' = (if k' = k then env_get env k @ xs else env_get env k')"
  by (simp add: env_append_def)

text \<open>Once the files are found the libraries are recorded, even if linking fails.\<close>

lemma libs_kept_without_link:
  assumes "env_get env ''CXX'' \<noteq> []" and "\<not> p_autodetect (merge_params opts kw)"
    and "boost_get_includes host (p_includes (merge_params opts kw)) = Inr inc"
    and "boost_get_version host inc = Inr version"
    and "given (p_lib kw)"
    and "boost_get_libs host (merge_params opts kw) version = Inr (path, libs, stlibs)"
    and "libs \<noteq> []"
  shows "\<exists>env'. configure_boost host (\<lambda>_ _. False) opts kw env = Inr env' \<and> env_get env' ''LIB_BOOST'' = libs"
proof -
  have "p_lib (merge_params opts kw) = p_lib kw" by (simp add: merge_params_def Let_def)
  then have "\<exists>r. check_boost host (\<lambda>_ _. False) opts ''BOOST'' kw env =
      (store_libs ''BOOST'' path libs stlibs
        (dict_put ''BOOST_VERSION'' [version] (dict_put ''INCLUDES_BOOST'' [inc] env)), r) \<and>
      (r = Inr () \<or> r = Inl config_error)"
    using assms by (simp add: check_boost_def Let_def check_linkage_def)
  then show ?thesis
    using assms(7) by (auto simp: configure_boost_def optional_boost_def store_libs_def)
qed

text \<open>
  A module that needs libraries is built if their files are named as expected: \<open>lib\<close>, the name,
  \<open>-mt\<close> if wanted, and one ending. A file with a version behind the ending is found by the
  weakest pattern, but its name is cut at the last dot only.
\<close>

lemma expected_name:
  assumes "CHR ''.'' \<notin> set e"
  shows "format_lib_name host (''libboost_'' @ name @ ''.'' @ e) = (if cc_name host \<noteq> ''msvc'' then [] else ''lib'') @ ''boost_'' @ name"
proof -
  have cut: "before_last_dot (s @ ''.'' @ e) = s" for s
  proof -
    have "dropWhile (\<lambda>c. c \<noteq> CHR ''.'') (rev e @ CHR ''.'' # rev s) = CHR ''.'' # rev s"
      using assms by (subst dropWhile_append2) auto
    then show ?thesis by (simp add: before_last_dot_def)
  qed
  show ?thesis
    using cut [of "''boost_'' @ name"] cut [of "''libboost_'' @ name"]
    by (simp add: format_lib_name_def startswith_def)
qed

lemma expected_names_present:
  assumes "cc_name host \<noteq> ''msvc''" and "list_all (\<lambda>l. \<not> endswith ''-mt'' l) required"
    and "\<And>l. l \<in> set required \<Longrightarrow> CHR ''.'' \<notin> set (ending l)"
    and "set lib_boost = (\<lambda>l. format_lib_name host (''libboost_'' @ l @ ''.'' @ ending l)) ` set required"
  shows "missing_boost_libs required lib_boost = []"
proof -
  have "present_lib (format_lib_name host (''libboost_'' @ l @ ''.'' @ ending l)) = l" if "l \<in> set required" for l
    using that assms(1,2) expected_name [OF assms(3), of l host]
    by (simp add: present_lib_def startswith_def list_all_iff)
  then have "l \<in> present_lib ` set lib_boost" if "l \<in> set required" for l
    using that assms(4) by (metis (no_types, lifting) image_eqI)
  then show ?thesis by (simp add: missing_boost_libs_def filter_empty_conv)
qed

definition sample_host :: boost_host where
  "sample_host =
     \<lparr>platform = ''linux'', include_var = [], lib_var = [], headers = (\<lambda>d. d = ''/usr/include''),
      header_text = (\<lambda>_. Some (''#define BOOST_LIB_VERSION '' @ [CHR 0x22] @ ''1_55'' @ [CHR 0x22])),
      checked_version = (\<lambda>_. Inl config_error),
      boost_files = (\<lambda>d. if d = ''/usr/lib'' then Some [''libboost_system.so.1.55.0''] else None),
      all_files = (\<lambda>_. []), rsearch = str_in, cxx_path = ''g++'', cxx_name = ''g++'', cc_name = ''gcc'',
      shlib_pattern = ''lib%s.so'', stlib_pattern = ''lib%s.a''\<rparr>"

definition sample_params :: boost_params where
  "sample_params = \<lparr>p_includes = [], p_libs = [], p_mt = False, p_abi = [], p_autodetect = False,
     p_toolset = [], p_python = ''27'', p_lib = LibText ''system'', p_stlib = LibList []\<rparr>"

theorem match_libs_correct_witness:
  "match_libs sample_host sample_params (sort_files [''libboost_system.so.1.55.0'']) ''-gcc'' ''-1_55'' (LibText ''system'') False =
     Inr [''boost_system.so.1.55'']"
  by (subst match_libs_correct) (simp add: sample_params_def, code_simp)

text \<open>The library that was found under such a name counts as missing.\<close>

lemma versioned_file_missing:
  "missing_boost_libs [''system''] [''boost_system.so.1.55''] = [''system'']"
  by code_simp

text \<open>A directory given by the user that does not exist is no failed configuration, but a crash.\<close>

lemma missing_libs_dir_crashes:
  "libs \<noteq> [] \<Longrightarrow> boost_files host libs = None \<Longrightarrow> boost_get_libs_path host libs = Inl AttributeError"
  by (simp add: boost_get_libs_path_def)

lemma unknown_compiler_crashes:
  "dict_get boost_toolsets (platform host) = None \<Longrightarrow> dict_get boost_toolsets (cxx_name host) = None \<Longrightarrow>
   boost_get_toolset host [] = Inl TypeError"
  by (simp add: boost_get_toolset_def)

text \<open>The linkage detection reads the keyword only, not the option \<open>--boost-toolset\<close>.\<close>

lemma toolset_option_ignored:
  "boost_get_toolset host (p_toolset kw) = Inr t \<Longrightarrow> t \<noteq> ''vc'' \<Longrightarrow>
   detect_linkage host links (merge_params (opts\<lparr>p_toolset := ''msvc''\<rparr>) kw) (p_toolset kw) var path libs env =
     (env, Inl config_error)"
  by (simp add: detect_linkage_def)

end
