(* ===== verification/WafTests.thy ===== *)
theory WafTests
  imports PyPath Complex_Main
begin

text \<open>
  The portability tests of the tools, \<open>src/utils/tests\<close>: \<open>TestBase.py\<close>, which runs a list of
  shell commands and counts the failures, \<open>test-test.py\<close> and \<open>test-waf.py\<close>, which make the lists
  for \<open>test.py\<close> and for \<open>waf\<close>. The exit codes of the commands and the options read by \<open>argparse\<close>
  are arguments.
\<close>

section \<open>The runner\<close>

text \<open>\<open>s.replace(old, '')\<close> for a text \<open>old\<close> that is not empty.\<close>

function remove_all :: "string \<Rightarrow> string \<Rightarrow> string" where
  "remove_all old s =
     (case s of
        [] \<Rightarrow> []
      | c # t \<Rightarrow>
          if old \<noteq> [] \<and> startswith old s then remove_all old (drop (length old) s)
          else c # remove_all old t)"
  by pat_completeness auto
termination
  by (relation "measure (length \<circ> snd)") auto

declare remove_all.simps [simp del]

text \<open>\<open>set_workdir\<close>: \<open>dir_files\<close> are the files of the current directory.\<close>

definition set_workdir :: "string list \<Rightarrow> string \<Rightarrow> string result" where
  "set_workdir dir_files cwd =
     (if ''VERSION'' \<notin> set dir_files \<and> ''waf'' \<notin> set dir_files then
        if path_basename cwd = ''tests'' \<and> path_basename (path_dirname cwd) = ''utils''
        then Inr (path_dirname (path_dirname cwd))
        else Inl (OtherException ''SystemExit'')
      else Inr cwd)"

record test_options =
  out_file :: string
  list_cmds :: bool
  mute :: bool
  custcmd :: "string option"

text \<open>Where the standard output of a command goes.\<close>

datatype cmd_sink = ToFile | ToNull

text \<open>What is printed, and what is done with the commands, in order.\<close>

datatype entry =
    ListHeader | ListLine string
  | RunningCase string | CaseInFile string | Called string cmd_sink
  | PassedOf nat nat rat
  | FailedCases "string list" | AllPassed | DetailsIn string

record test_run =
  final_return :: int
  passed_count :: nat
  progress :: nat
  failed_cases :: "string list"
  entries :: "entry list"

definition start_run :: test_run where
  "start_run = \<lparr>final_return = 0, passed_count = 0, progress = 0, failed_cases = [], entries = []\<rparr>"

text \<open>The body of the loop; the exit code may depend on how many commands ran before.\<close>

definition run_case ::
    "string \<Rightarrow> test_options \<Rightarrow> nat \<Rightarrow> (nat \<Rightarrow> string \<Rightarrow> int) \<Rightarrow> string \<Rightarrow> test_run \<Rightarrow> test_run" where
  "run_case executable opts n code cmd r =
     (let case_string = remove_all executable cmd;
          ret = code (progress r) cmd;
          r = r\<lparr>progress := progress r + 1,
                entries := entries r @ [RunningCase case_string, CaseInFile case_string,
                  Called cmd (if mute opts then ToNull else ToFile)]\<rparr>;
          r = (if ret = 0 then r\<lparr>passed_count := passed_count r + 1\<rparr>
               else r\<lparr>final_return := 1, failed_cases := failed_cases r @ [case_string]\<rparr>)
      in r\<lparr>entries := entries r @
             [PassedOf (passed_count r) n (of_nat (progress r) * 100 / of_nat n)]\<rparr>)"

text \<open>\<open>runtests\<close>: the return value (none for \<open>-c\<close>) and what was printed and done.\<close>

definition runtests ::
    "string \<Rightarrow> test_options \<Rightarrow> (nat \<Rightarrow> string \<Rightarrow> int) \<Rightarrow> string list \<Rightarrow> int option \<times> entry list" where
  "runtests executable opts code cmds =
     (if list_cmds opts then (None, ListHeader # map (\<lambda>cmd. ListLine (remove_all executable cmd)) cmds)
      else
        let r = fold (run_case executable opts (length cmds) code) cmds start_run
        in (Some (final_return r),
            entries r @
              [if final_return r \<noteq> 0 then FailedCases (failed_cases r) else AllPassed,
               DetailsIn (out_file opts)]))"

section \<open>The tests of test.py\<close>

text \<open>The list as Python reads it: a missing comma joins the cases \<open>--fullness\<close> and \<open>-g\<close>.\<close>

definition test_cases :: "string list" where
  "test_cases =
     [[], ''-h'', ''--help'', ''-b build/'', ''--buildpath=build/'', ''-c performance'',
      ''--constrain=performance'', ''-d'', ''--duration'', ''-e socket-options-ipv6'',
      ''--example=socket-options-ipv6'', ''-u'', ''--update-data'',
      ''-f EXTENSIVE --fullness=EXTENSIVE'' @ ''-g'', ''--grind'', ''-l'', ''--list'', ''-m'',
      ''--multiple'', ''-n'', ''--nowaf'', ''-p first'', ''--pyexample=first'', ''-r'', ''--retain'',
      ''-s ns3-tcp-interoperability'', ''--suite=ns3-tcp-interoperability'', ''-t t_opt.txt'',
      ''--text=t_opt.txt && rm -rf t_opt.txt'', ''-v'', ''--verbose'',
      ''-w t_opt.html && rm -rf t_opt.html'', ''--web=t_opt.html && rm -rf t_opt.html'',
      ''--html=t_opt.html && rm -rf t_opt.html'', ''-x t_opt.xml && rm -rf t_opt.xml'',
      ''--xml=t_opt.xml && rm -rf t_opt.xml'']"

definition test_py_commands :: "string \<Rightarrow> string list" where
  "test_py_commands executable =
     (let configure_string = executable @ '' waf configure --enable-tests --enable-examples'';
          clean_string = executable @ '' waf clean''
      in map (\<lambda>option. configure_string @ '' && '' @ executable @ '' test.py '' @ option @ '' && '' @ clean_string)
           test_cases)"

section \<open>The tests of waf\<close>

definition wrap_commands :: "string \<Rightarrow> string \<Rightarrow> string list \<Rightarrow> string list" where
  "wrap_commands pre post main_cmd_list =
     (let pre = (if pre \<noteq> [] then pre @ '' && '' else []);
          post = (if post \<noteq> [] then '' && '' @ post else [])
      in map (\<lambda>main_cmd. pre @ main_cmd @ post) main_cmd_list)"

definition common_test_cases :: "string list" where
  "common_test_cases =
     [[], ''-k'', ''--keep'', ''-v'', ''--verbose'', ''--nocache'', ''--zones=task_gen'', ''--zones=deps'',
      ''--zones=tasks'', ''--no-task-lines'']"

definition config_test_cases :: "string list" where
  "config_test_cases =
     [''--enable-gcov'', ''--enable-sudo'', ''--enable-sudo'', ''--enable-tests'', ''--disable-tests'',
      ''--enable-examples'', ''--disable-examples'', ''--doxygen-no-build'', ''--enable-static'',
      ''--enable-mpi'', ''--enable-rpath'', ''--enable-modules=build/utils/test-runner.cc.1.o'',
      ''--boost-static'', ''--boost-mt'', ''--boost-linkage_autodetect'', ''--boost-python=33'',
      ''--disable-gtk'', ''--int64x64=cairo'', ''--disable-pthread'', ''--force-planetlab'', ''--nopyc'',
      ''--nopyo'', ''--disable-python'', ''--apiscan=all'', ''--with-python=/usr/bin/python2.7'',
      ''-o test_out && rm -rf test_out'', ''--out=test_out && rm -rf test_out'',
      ''-t test_top && rm -rf test_top'', ''--top=test_top && rm -rf test_top'', ''--download'',
      ''--check-c-compiler=gc'', ''--check-cxx-compiler=g++'']"

definition install_test_cases :: "string list" where
  "install_test_cases =
     [''-f'', ''--force'', ''--prefix=./test-prefix && rm -rf ./test-prefix'', ''--exec-prefix=.'',
      ''--bindir=./test-prefix/bin --sbindir=./test-prefix/sbin --libexecdir=./test-prefix/libexec '' @
      ''--sysconfdir=./test-prefix/etc --sharedstatedir=./test-prefix/com '' @
      ''--localstatedir=./test-prefix/var --libdir=./test-prefix/lib '' @
      ''--includedir=./test-prefix/include --oldincludedir=./test-prefix/usr/include '' @
      ''--datarootdir=./test-prefix/share --datadir=./test-prefix/share_root '' @
      ''--infodir=./test-prefix/info --localedir=./test-prefix/locale --mandir=./test-prefix/man '' @
      ''--docdir=./test-prefix/doc/package --htmldir=./test-prefix/doc --dvidir=./test-prefix/doc '' @
      ''--pdfdir=./test-prefix/doc --psdir=./test-prefix/doc && rm -rf ./test-prefix'']"

definition build_test_cases :: "string list" where
  "build_test_cases =
     [''-j10'', ''--jobs=10'', ''-d optimized'', ''-d debug'', ''-d release'', ''--build-profile optimized'',
      ''--build-profile debug'', ''--build-profile release'', ''-p'', ''--progress'']"

definition test_case_mappings :: "(string, string list) pydict" where
  "test_case_mappings =
     [(''basic'', [''--version'', ''-h'', ''--help'']), (''configure'', config_test_cases),
      (''build'', build_test_cases),
      (''step'', [''--files='' @ [CHR 0x22] @ ''*/main.c,*/test/main.o'' @ [CHR 0x22]]),
      (''install'', install_test_cases)]"

text \<open>What stands before and after the commands.\<close>

definition wrapping :: "string \<Rightarrow> string \<Rightarrow> (string \<times> string) option" where
  "wrapping waf cmd =
     (if cmd = ''build'' then Some (waf @ '' configure'', waf @ '' clean'')
      else if cmd = ''configure'' then Some ([], waf @ '' distclean'')
      else if cmd = ''distcheck'' then Some (waf @ '' dist'', ''rm -rf ns-3*.tar.bz2'')
      else if cmd = ''install'' then Some (waf @ '' configure'', waf @ '' uninstall'')
      else if cmd \<in> {''docs'', ''list'', ''shell'', ''step''} then Some (waf @ '' configure'', waf @ '' distclean'')
      else if cmd = ''uninstall'' then Some (waf @ '' install'', [])
      else None)"

definition waf_commands :: "string \<Rightarrow> string \<Rightarrow> string list" where
  "waf_commands waf cmd =
     (let line = (\<lambda>option. waf @ '' '' @ cmd @ '' '' @ option);
          cmd_list = (if cmd = ''basic'' then [] else map line common_test_cases);
          cmd_list = cmd_list @ (case dict_get test_case_mappings cmd of None \<Rightarrow> [] | Some cs \<Rightarrow> map line cs);
          cmd_list = (if cmd = ''basic'' then cmd_list @
            [waf @ '' configure && '' @ waf @ '' build && '' @ waf @ '' --run scratch/myfirst'',
             waf @ '' configure && '' @ waf @ '' build && '' @ waf @ '' --pyrun scratch/myfirst.py''] else cmd_list);
          cmd_list = (case wrapping waf cmd of None \<Rightarrow> cmd_list | Some (pre, post) \<Rightarrow> wrap_commands pre post cmd_list)
      in if cmd = ''build''
         then cmd_list @ [waf @ '' configure --enable-gcov && '' @ waf @ '' build --lcov-report && '' @ waf @ '' clean'']
         else cmd_list)"

definition waf_main ::
    "string \<Rightarrow> test_options \<Rightarrow> (nat \<Rightarrow> string \<Rightarrow> int) \<Rightarrow> int option \<times> entry list" where
  "waf_main executable opts code =
     (let cmds = (case custcmd opts of
            Some c \<Rightarrow> if c \<noteq> [] then split_char CHR '','' c
              else [''basic'', ''build'', ''configure'', ''step'', ''clean'', ''dist'', ''list'']
          | None \<Rightarrow> [''basic'', ''build'', ''configure'', ''step'', ''clean'', ''dist'', ''list''])
      in runtests executable opts code
           (concat (map (waf_commands (executable @ '' waf'')) cmds)))"

definition test_py_main ::
    "string \<Rightarrow> test_options \<Rightarrow> (nat \<Rightarrow> string \<Rightarrow> int) \<Rightarrow> int option \<times> entry list" where
  "test_py_main executable opts code = runtests executable opts code (test_py_commands executable)"

section \<open>What a run reports\<close>

text \<open>The commands with their numbers, and those that failed.\<close>

definition failures :: "(nat \<Rightarrow> string \<Rightarrow> int) \<Rightarrow> (nat \<times> string) list \<Rightarrow> (nat \<times> string) list" where
  "failures code numbered = filter (\<lambda>(i, cmd). code i cmd \<noteq> 0) numbered"

definition case_entries ::
    "string \<Rightarrow> test_options \<Rightarrow> (nat \<Rightarrow> string \<Rightarrow> int) \<Rightarrow> string list \<Rightarrow> nat \<Rightarrow> entry list" where
  "case_entries executable opts code cmds i =
     (let shown = remove_all executable (cmds ! i); n = length cmds;
          bad = length (failures code (enumerate 0 (take (Suc i) cmds)))
      in [RunningCase shown, CaseInFile shown, Called (cmds ! i) (if mute opts then ToNull else ToFile),
          PassedOf (Suc i - bad) n (of_nat (Suc i) * 100 / of_nat n)])"

text \<open>The state after the first \<open>k\<close> commands.\<close>

definition state_after ::
    "string \<Rightarrow> test_options \<Rightarrow> (nat \<Rightarrow> string \<Rightarrow> int) \<Rightarrow> string list \<Rightarrow> nat \<Rightarrow> test_run" where
  "state_after executable opts code cmds k =
     (let bad = failures code (enumerate 0 (take k cmds))
      in \<lparr>final_return = (if bad = [] then 0 else 1), passed_count = k - length bad, progress = k,
          failed_cases = map (\<lambda>(i, cmd). remove_all executable cmd) bad,
          entries = concat (map (case_entries executable opts code cmds) [0..<k])\<rparr>)"

lemma failures_le: "length (failures code (enumerate 0 (take k cmds))) \<le> k"
  using length_filter_le [of "\<lambda>(i, cmd). code i cmd \<noteq> 0" "enumerate 0 (take k cmds)"]
  by (simp add: failures_def)

lemma failures_Suc:
  "k < length cmds \<Longrightarrow> failures code (enumerate 0 (take (Suc k) cmds)) =
     failures code (enumerate 0 (take k cmds)) @ (if code k (cmds ! k) \<noteq> 0 then [(k, cmds ! k)] else [])"
  by (simp add: failures_def take_Suc_conv_app_nth enumerate_append_eq)

lemma run_case_step:
  assumes "k < length cmds"
  shows "run_case executable opts (length cmds) code (cmds ! k) (state_after executable opts code cmds k) =
    state_after executable opts code cmds (Suc k)"
  using failures_le [of code k cmds]
  by (simp add: run_case_def state_after_def Let_def failures_Suc [OF assms] case_entries_def Suc_diff_le)

lemma fold_run_case:
  "k \<le> length cmds \<Longrightarrow>
   fold (run_case executable opts (length cmds) code) (take k cmds) start_run = state_after executable opts code cmds k"
proof (induction k)
  case 0
  then show ?case by (simp add: start_run_def state_after_def failures_def)
next
  case (Suc k)
  then show ?case by (simp add: take_Suc_conv_app_nth run_case_step)
qed

text \<open>
  A run calls every command once and in order, reports after each how many have passed, and ends
  with the list of exactly the failed commands; it returns 0 exactly if there is none. With \<open>-c\<close>
  nothing is called.
\<close>
theorem runtests_correct:
  "runtests executable opts code cmds =
    (if list_cmds opts then (None, ListHeader # map (\<lambda>cmd. ListLine (remove_all executable cmd)) cmds)
     else let bad = failures code (enumerate 0 cmds)
       in (Some (if bad = [] then 0 else 1),
           concat (map (case_entries executable opts code cmds) [0..<length cmds]) @
           [if bad \<noteq> [] then FailedCases (map (\<lambda>(i, cmd). remove_all executable cmd) bad) else AllPassed,
            DetailsIn (out_file opts)]))"
  using fold_run_case [of "length cmds" cmds executable opts code]
  by (simp add: runtests_def state_after_def Let_def)

text \<open>
  The option \<open>-g\<close> is in the list of what is tested, but no command has it: the case before it
  gets it as a part of its value.
\<close>

lemma grind_never_tested:
  "list_ex (str_in ''--fullness=EXTENSIVE-g'') (test_py_commands ''python'') \<and>
   \<not> list_ex (str_in ''test.py -g'') (test_py_commands ''python'')"
  by code_simp

text \<open>Every command of a wrapped group runs between its preparation and its cleaning.\<close>

lemma wrapped_commands:
  assumes "wrapping waf cmd = Some (pre, post)" and "cmd \<noteq> ''build''" and "c \<in> set (waf_commands waf cmd)"
  shows "(pre \<noteq> [] \<longrightarrow> prefix (pre @ '' && '') c) \<and> (post \<noteq> [] \<longrightarrow> suffix ('' && '' @ post) c)"
proof -
  have "\<exists>m. c = (if pre \<noteq> [] then pre @ '' && '' else []) @ m @ (if post \<noteq> [] then '' && '' @ post else [])"
    using assms by (auto simp: waf_commands_def wrap_commands_def Let_def split: if_splits)
  then show ?thesis by (auto simp: suffix_def prefix_def)
qed

end
