(* ===== verification/Spec2Isabelle.thy ===== *)
theory Spec2Isabelle
  imports Topsort FindCycles RadSeq RadStat TestRun CheckStyle ShellCmd Cflags GridView WUtils CreateModule
    VizScan VizWifi VizWindows VizShell FlowReport ModuleGen VizView WafCommand WafDb WafMisc WafBoost WafTests
begin

text \<open>
  A verification library for the Python programs of the QKDNetSim repository (ns-3 with quantum
  key distribution modules): the test driver, the helpers of the bindings generator, the style
  checker, the viewer of time lines, and tools of the build system. The simulator itself is C++ and
  not treated here, except for the writer of the flow monitor's reports.

  Parts and theories, each with the source it models.

  \<^item> \<open>Prelude\<close>, \<open>PyStr\<close>, \<open>PyPath\<close>: Python itself. Exceptions are the datatype \<open>py_error\<close>,
    a fallible operation returns \<open>py_error + 'a\<close> and \<open>rbind\<close> is the sequence; dictionaries are
    association lists in insertion order, and the locale \<open>dictionary\<close> holds their laws; lists
    are indexed through \<open>py_index\<close>, which raises; slices, \<open>split\<close>, \<open>strip\<close>, \<open>join\<close> and
    \<open>os.path.join\<close> are written out on character lists.
  \<^item> \<open>Topsort\<close>, \<open>FindCycles\<close> (\<open>bindings/python/topsort.py\<close>): \<open>topsort\<close>, \<open>topsort_levels\<close> and
    \<open>find_cycles\<close>. The key order of a Python 2 dictionary is the argument \<open>key_order\<close>. The loops
    are total functions (their measures count the keys or the unseen children), so that every
    result, \<open>CycleError\<close> included, is a value.
  \<^item> \<open>RadSeq\<close>, \<open>RadNum\<close>, \<open>RadStat\<close> (\<open>bindings/python/rad_util.py\<close>): sequences, strings and integers;
    quantiles, units and ranges of floats.
    \<open>binary_range\<close> is a \<open>partial_function (option)\<close>, its end is a theorem.
  \<^item> \<open>UtilsPy\<close> (\<open>utils.py\<close>): the readers of configuration files; \<open>eval\<close> is an argument.
  \<^item> \<open>TestConfig\<close>, \<open>TestJobs\<close>, \<open>TestReport\<close>, \<open>TestRun\<close> (\<open>test.py\<close>): reading the waf
    configuration and the lists of examples; the jobs, the worker threads and the two queues; the
    text and HTML reports; the dispatch of the jobs, the loop over the results, the summary and the
    exit code. \<open>TestJobs.step\<close> is the interleaving semantics of the threads: one queue operation,
    one branch of a worker's loop or one end of a program is a step, and \<open>sigint_hook\<close> can run
    between any two. What a program does is the relation \<open>may\<close>. \<open>TestRun\<close> starts the system of
    \<open>TestJobs\<close> with the jobs it dispatches and reads what the system has collected.
  \<^item> \<open>CheckStyle\<close> (\<open>utils/check-style.py\<close>): patches, their parser and printer, the removal of
    white space changes, and the indentation of files; uncrustify, difflib and patch are the record
    \<open>tools\<close>.
  \<^item> \<open>ShellCmd\<close> (\<open>waf-tools/shellcmd.py\<close>): the parser of command lines as a state machine over
    tokens, and \<open>run\<close> with pipes, redirections and short circuits; the operating system is the
    record \<open>shell_os\<close>.
  \<^item> \<open>ShLex\<close>, \<open>WafCommand\<close>, \<open>WafMisc\<close>, \<open>WafDb\<close> (\<open>waf-tools\<close>: \<open>command.py\<close>, \<open>misc.py\<close>,
    \<open>clang_compilation_database.py\<close>, \<open>relocation.py\<close>): \<open>ShLex\<close> is the state machine of \<open>shlex.split\<close> with the
    quoting that it undoes; \<open>WafCommand\<close> substitutes \<open>${...}\<close> in the parsed nodes of \<open>ShellCmd\<close> and runs them, the
    evaluation of an expression is an argument; \<open>WafMisc\<close> has templates, copies and the generator command-output, with the
    nodes of waf given by their paths; \<open>WafDb\<close> the compilation database and the moving of nodes, which are a heap.
  \<^item> \<open>WafBoost\<close> (\<open>waf-tools/boost.py\<close> and its use in \<open>src/wscript\<close> and \<open>src/openflow/wscript\<close>): the search for Boost;
    \<open>re.search\<close>, the file system and the test programs are the record \<open>boost_host\<close>.
  \<^item> \<open>WafTests\<close> (\<open>utils/tests\<close>): the runner of the portability tests and the lists of their commands.
  \<^item> \<open>Cflags\<close> (\<open>waf-tools/cflags.py\<close>): the flags of the build profiles; the locale
    \<open>compiler_traits\<close> is interpreted by the three compilers.
  \<^item> \<open>WUtils\<close> (\<open>wutils.py\<close>): how waf finds and runs programs: the lookup among the targets, the
    environment, valgrind, and the command lines; the operating system is the record \<open>waf_os\<close>.
  \<^item> \<open>CreateModule\<close> (\<open>src/create-module.py\<close>): the templates of a new module, the substitution of
    \<open>template % dict\<close>, and the files and directories made.
  \<^item> \<open>PyNum\<close>, \<open>GridData\<close>, \<open>GridRender\<close>, \<open>GridView\<close> (\<open>utils/grid.py\<close>): the viewer of time lines.
    \<open>PyNum\<close> has the numbers of Python 2, integers and floats mixed. \<open>GridData\<close> has the ranges and
    events with their binary searches, the time lines, the colors and \<open>read_data\<close>; the locale
    \<open>named_items\<close> is the interface of the three lists that are searched by name. \<open>GridRender\<close> has
    the legend, the rows of the time lines and the scales, each with its layout and its drawing as
    a list of calls on the cairo context. \<open>GridView\<close> puts them together: \<open>GraphicRenderer\<close>, the
    handlers of \<open>GtkGraphicRenderer\<close> as operations that return the state they reached with their
    result or exception, the inductive \<open>reached\<close> for everything the user can do, and \<open>main\<close>.

  \<^item> \<open>VizBase\<close>, \<open>VizScene\<close>, \<open>VizScan\<close> (\<open>src/visualizer/visualizer\<close>: \<open>base.py\<close>, \<open>core.py\<close>,
    \<open>svgitem.py\<close>): the visualizer. What it reads of the simulator is the record \<open>world\<close>. \<open>VizBase\<close>
    has the device traits, the transforms and the loading of plugins, \<open>VizScene\<close> the nodes,
    channels and links on the canvas with the selection and the dragging (\<open>scene_reached\<close> is what
    any sequence of operations can lead to), \<open>VizScan\<close> the scan of the topology with the layout of
    graphviz as a parameter. \<open>VizTraffic\<close> has the memory of the last samples and the arrows drawn
    from it, \<open>VizSim\<close> the simulation thread, the lock, the timers and idle calls of GLib and the
    callbacks of the main thread, which nest while the view waits for the lock; \<open>viz_reached\<close> is
    every interleaving, with (\<open>nested\<close>) or without events in that inner loop. The simulator, the logarithm and
    the information windows are the record \<open>viz_env\<close>. Left out of the view are
    the scrolling to the followed node (\<open>center_on\<close> of \<open>VizView\<close>) and the handlers of \<open>update-view\<close>, whose exceptions GObject only prints.
    \<open>VizWifi\<close> (\<open>plugins/wifi_intrastructure_link.py\<close>) has the links of wireless stations, \<open>VizWindows\<close> the
    information windows of the other plugins, over the record \<open>net_info\<close> of what they ask the simulator. \<open>VizView\<close> has
    panning, zooming, centring and the axes (\<open>hud.py\<close>); the canvas library is a record of functions with the law
    \<open>canvas_law\<close>, whose adjustments keep their values within limits (\<open>clamps_between\<close>), the rounded logarithm the parameter \<open>rlog\<close>. \<open>VizShell\<close> (\<open>ipython_view.py\<close>) has the history, the
    completion, the coloured text and the keys of the shell; IPython and the text buffer of GTK are arguments.

  \<^item> \<open>ScanPaths\<close>, \<open>ModuleScan\<close>, \<open>ModuleGen\<close> (\<open>bindings/python\<close>: \<open>ns3modulescan.py\<close>, \<open>ns3modulescan-modular.py\<close>,
    \<open>ns3modulegen.py\<close>, \<open>ns3modulegen-modular.py\<close>, \<open>ns3modulegen_core_customizations.py\<close>): the scanners and
    generators of the bindings. What pygccxml and pybindgen know are records of functions. \<open>ScanPaths\<close> has the search for the
    name of a header, with the loop that need not end, \<open>ModuleScan\<close> the annotations of declarations and the sections, which
    rest on \<open>Topsort\<close>, \<open>ModuleGen\<close> smart pointers, callbacks, features and the main program.
  \<^item> \<open>Flowmon\<close> (\<open>src/flow-monitor/examples/flowmon-parse-results.py\<close>): the classes of a flow monitor's
    report, read from element trees, and what is printed of them, also before an exception.
    \<open>FlowReport\<close> (\<open>src/flow-monitor/model\<close>: \<open>flow-monitor.cc\<close>, \<open>flow-probe.cc\<close>, \<open>histogram.cc\<close>,
    \<open>ipv4-flow-classifier.cc\<close>, \<open>ipv6-flow-classifier.cc\<close>) is the writer of that report, \<open>SerializeToXmlStream\<close> with the check
    for lost packets, as element trees: flows with their drop counts and histograms, the classifiers with the DSCP counts, the probes.

  What the lemmas show. For the threads: every dispatched job is collected exactly once with its
  own outcome under every schedule and any interrupt, no deadlock, and every schedule ends; the
  summary and the exit code do not depend on the schedule. For the sorts: topological order, cycle
  errors exactly on cycles, levels of dependency, every simple cycle once up to rotation. For the
  parsers: round trips and their exact images. For the style checker: what a repaired patch changes.
  For the shell: refinement to an evaluation of stages, and that every opened file is closed; for the tools of waf over it:
  a started program has exactly the substituted words of its command, the recorded commands are read back, templates change
  only their variables, and which generators become tasks. For
  the viewer: what is read, found and labelled, the start fails only in two ways, and every sequence
  of events keeps the renderers consistent. For the
  visualizer: canvas and model agree after any operation, the threads never block each other for ever, the
  clock is bounded, messages are lost only by an update of the view that raises, the arrows show the averages, panning keeps the point under the
  mouse up to the limits of the scroll bars, the axes have their labels at their ticks. For the generators of the bindings: the order of the sections, the independence of the annotations
  from the order of a scan, normal forms of pointers, and which callbacks get a class. For the flow monitor: the
  reports that the monitor writes are read back, and which of them are not. For the numeric helpers: agreement with the library's functions, bounds, and termination.

  Interfaces. Every locale is interpreted on the model's own definitions: \<open>dictionary\<close> by the
  association lists (\<open>pd\<close>), \<open>work_queue\<close> by the FIFO queues (\<open>fifo\<close>), \<open>compiler_traits\<close> by
  \<open>gcc\<close>, \<open>icc\<close> and \<open>msvc\<close>, \<open>named_items\<close> by the lists of ranges, events and time lines.

  Python versions. \<open>rad_util.py\<close>, \<open>topsort.py\<close>, \<open>grid.py\<close>, \<open>flowmon-parse-results.py\<close>, \<open>ns3modulegen.py\<close>,
  \<open>ns3modulescan-modular.py\<close> and the visualizer use statements, methods or a division that only Python 2 has, and are
  modelled as Python 2 runs them: \<open>/\<close> on integers is floor division. The order of a dictionary, arbitrary there, is the order of
  insertion or an argument here.

  Numbers. All floats are exact rationals here, rounding is not modelled.

  Not modelled: printing for the verbose and debug modes, option parsing (optparse), the creation and removal of output directories, in the waf extensions
  the scheduling of tasks and what waflib does with them (it is not in the repository), the identifiers of \<open>relocation.py\<close>,
  \<open>install_boost\<close>, the widgets of the visualizer and the set-up of its shell, in the scanners and
  generators of the bindings the calls that only pass on to pygccxml and pybindgen, and the generated registration files.
\<close>

end
